(* ===== verification/Prelude.thy ===== *)
theory Prelude
  imports Main "HOL-Library.Sublist" "HOL-Library.List_Lexorder" "HOL-Library.Char_ord"
begin

text \<open>
  The shared vocabulary of the development: the Python values the components exchange
  (JSON documents, exceptions), the built-in operations the sources call on them
  (truth value, \<open>int(...)\<close>, \<open>dict.get\<close>, \<open>dict.fromkeys\<close>, string methods), and
  database tables as lists of rows with a key. The interface locale \<open>row_table\<close> states
  what a component may rely on when it saves and reads rows; it is interpreted on the
  list tables at the end of the theory.

  Strings are lists of 8-bit characters, so the model covers ASCII text. Instants are
  integers that count microseconds, as \<open>datetime\<close> does.
\<close>

named_theorems py_simps \<open>unfolding rules of the Python built-ins\<close>
named_theorems row_simps \<open>rows, tables and their updates\<close>

section \<open>Exceptions and JSON values\<close>

datatype py_exc =
    TypeError | ValueError | KeyError | AttributeError | IndexError
  | DoesNotExist | ShieldNotFoundError | EventNotFoundError | AlertNotFoundError
  | ValidationError | BrokerError | IntegrityError
  | ConfigError | AuthenticationSourceError | BaseAppException | ZeroDivisionError

text \<open>A JSON document as \<open>json.loads\<close> and a \<open>JSONField\<close> give it: an object keeps its
  insertion order. Numbers with a fraction are not used by the modelled components.\<close>

datatype json =
    JNull
  | JBool bool
  | JInt int
  | JStr string
  | JList "json list"
  | JObj "(string \<times> json) list"

type_synonym 'a res = "py_exc + 'a"

text \<open>\<open>bool(x)\<close>.\<close>

fun truthy :: "json \<Rightarrow> bool" where
  "truthy JNull = False"
| "truthy (JBool b) = b"
| "truthy (JInt i) = (i \<noteq> 0)"
| "truthy (JStr s) = (s \<noteq> [])"
| "truthy (JList xs) = (xs \<noteq> [])"
| "truthy (JObj kvs) = (kvs \<noteq> [])"

text \<open>\<open>d.get(k, default)\<close>; on anything but a dict it is an \<open>AttributeError\<close>.\<close>

fun jget :: "json \<Rightarrow> string \<Rightarrow> json \<Rightarrow> json res" where
  "jget (JObj kvs) k d = Inr (case map_of kvs k of None \<Rightarrow> d | Some v \<Rightarrow> v)"
| "jget _ k d = Inl AttributeError"

text \<open>\<open>d[k]\<close> with a string key.\<close>

fun jitem :: "json \<Rightarrow> string \<Rightarrow> json res" where
  "jitem (JObj kvs) k = (case map_of kvs k of None \<Rightarrow> Inl KeyError | Some v \<Rightarrow> Inr v)"
| "jitem _ k = Inl TypeError"

text \<open>\<open>x or d\<close>, and \<open>x in (None, "")\<close>.\<close>

definition py_or :: "json \<Rightarrow> json \<Rightarrow> json" where
  [py_simps]: "py_or x d = (if truthy x then x else d)"

definition none_or_empty :: "json \<Rightarrow> bool" where
  [py_simps]: "none_or_empty x \<longleftrightarrow> x = JNull \<or> x = JStr []"

section \<open>Strings and numbers\<close>

definition is_space :: "char \<Rightarrow> bool" where
  "is_space c \<longleftrightarrow> c \<in> {CHR '' '', CHR 0x09, CHR 0x0A, CHR 0x0B, CHR 0x0C, CHR 0x0D,
     CHR 0x1C, CHR 0x1D, CHR 0x1E, CHR 0x1F}"

definition lstrip :: "string \<Rightarrow> string" where
  "lstrip s = dropWhile is_space s"

text \<open>\<open>s.strip()\<close>.\<close>

definition strip :: "string \<Rightarrow> string" where
  "strip s = rev (lstrip (rev (lstrip s)))"

fun digit :: "char \<Rightarrow> nat option" where
  "digit c = (let n = (of_char c :: nat) in
     if 48 \<le> n \<and> n \<le> 57 then Some (n - 48) else None)"

text \<open>The digits of a decimal literal: single underscores are allowed between digits.
  The flag says whether the last character read was a digit.\<close>

fun parse_digits :: "bool \<Rightarrow> nat \<Rightarrow> string \<Rightarrow> nat option" where
  "parse_digits after acc [] = (if after then Some acc else None)"
| "parse_digits after acc (c # cs) =
     (case digit c of
        Some d \<Rightarrow> parse_digits True (10 * acc + d) cs
      | None \<Rightarrow> if c = CHR ''_'' \<and> after then parse_digits False acc cs else None)"

text \<open>\<open>int(s)\<close> for a string: surrounding white space and one sign are accepted.\<close>

definition parse_int :: "string \<Rightarrow> int res" where
  "parse_int s =
     (let t = strip s in
      case (case t of
              [] \<Rightarrow> None
            | c # cs \<Rightarrow>
                if c = CHR ''-'' then map_option (\<lambda>n. - int n) (parse_digits False 0 cs)
                else if c = CHR ''+'' then map_option int (parse_digits False 0 cs)
                else map_option int (parse_digits False 0 t)) of
        None \<Rightarrow> Inl ValueError
      | Some i \<Rightarrow> Inr i)"

text \<open>\<open>int(x)\<close>.\<close>

fun py_int :: "json \<Rightarrow> int res" where
  "py_int (JInt i) = Inr i"
| "py_int (JBool b) = Inr (if b then 1 else 0)"
| "py_int (JStr s) = parse_int s"
| "py_int _ = Inl TypeError"

text \<open>A value compared with a number: integers and booleans, anything else is a \<open>TypeError\<close>.\<close>

fun py_num :: "json \<Rightarrow> int res" where
  "py_num (JInt i) = Inr i"
| "py_num (JBool b) = Inr (if b then 1 else 0)"
| "py_num _ = Inl TypeError"

text \<open>\<open>str(n)\<close> of an integer.\<close>

fun digits_of :: "nat \<Rightarrow> string" where
  "digits_of n = (if n < 10 then [char_of (48 + n)]
                  else digits_of (n div 10) @ [char_of (48 + n mod 10)])"

declare digits_of.simps [simp del]

definition str_int :: "int \<Rightarrow> string" where
  "str_int i = (if i < 0 then CHR ''-'' # digits_of (nat (- i)) else digits_of (nat i))"

lemma digits_of_nonempty [simp]: "digits_of n \<noteq> []"
  by (subst digits_of.simps) simp

text \<open>\<open>needle in haystack\<close> for strings.\<close>

fun substr_in :: "string \<Rightarrow> string \<Rightarrow> bool" where
  "substr_in n [] = (n = [])"
| "substr_in n (c # cs) = (prefix n (c # cs) \<or> substr_in n cs)"

definition lower_char :: "char \<Rightarrow> char" where
  "lower_char c = (let n = (of_char c :: nat) in
     if 65 \<le> n \<and> n \<le> 90 then char_of (n + 32) else c)"

definition lower :: "string \<Rightarrow> string" where
  "lower s = map lower_char s"

lemma substr_in_sublist: "substr_in n h \<longleftrightarrow> sublist n h"
  by (induction h) (auto simp: sublist_Cons_right)

lemma length_lstrip: "length (lstrip s) \<le> length s"
  by (simp add: lstrip_def length_dropWhile_le)

lemma strip_idem_head: "strip s = c # cs \<Longrightarrow> \<not> is_space c"
proof -
  assume a: "strip s = c # cs"
  let ?u = "rev (lstrip s)"
  obtain v where "?u = v @ lstrip ?u"
    by (metis lstrip_def takeWhile_dropWhile_id)
  then have u: "lstrip s = rev (lstrip ?u) @ rev v"
    by (metis rev_append rev_rev_ident)
  with a have "hd (lstrip s) = c" "lstrip s \<noteq> []"
    by (auto simp: strip_def)
  then show "\<not> is_space c"
    by (metis hd_dropWhile lstrip_def)
qed

text \<open>Reading the text of a number gives the number back.\<close>

lemma digits_of_parse: "parse_digits b acc (digits_of n @ cs) = parse_digits True (acc * 10 ^ length (digits_of n) + n) cs"
proof (induction n arbitrary: b acc cs rule: digits_of.induct)
  case (1 n)
  have d: "digit (char_of (48 + m)) = Some m" if "m < 10" for m :: nat
    using that by (simp add: Let_def)
  show ?case
  proof (cases "n < 10")
    case True
    then have "digits_of n = [char_of (48 + n)]" by (subst digits_of.simps) simp
    then show ?thesis using True d[OF True] by (simp del: digit.simps add: mult.commute)
  next
    case False
    then have s: "digits_of n = digits_of (n div 10) @ [char_of (48 + n mod 10)]"
      by (subst digits_of.simps) simp
    have "n mod 10 < 10" by simp
    from d[OF this] 1[OF False, of b acc "char_of (48 + n mod 10) # cs"] show ?thesis
      by (simp add: s algebra_simps del: digit.simps)
  qed
qed

lemma parse_digits_of: "parse_digits False 0 (digits_of n) = Some n"
  using digits_of_parse[of False 0 n "[]"] by simp

lemma digits_of_inj: "digits_of m = digits_of n \<Longrightarrow> m = n"
  by (metis parse_digits_of option.inject)

lemma digits_of_digits: "c \<in> set (digits_of n) \<Longrightarrow> digit c \<noteq> None"
proof (induction n rule: digits_of.induct)
  case (1 n)
  have d: "digit (char_of (48 + m)) = Some m" if "m < 10" for m :: nat
    using that by (simp add: Let_def)
  show ?case
  proof (cases "n < 10")
    case True
    then show ?thesis using 1(2) d[OF True] by (subst (asm) digits_of.simps) (simp del: digit.simps)
  next
    case False
    have "n mod 10 < 10" by simp
    from d[OF this] 1 False show ?thesis
      by (subst (asm) (2) digits_of.simps) (auto simp del: digit.simps)
  qed
qed

lemma digit_not_space: "digit c \<noteq> None \<Longrightarrow> \<not> is_space c"
  by (auto simp: is_space_def Let_def split: if_splits)

lemma strip_no_space: "\<forall>c \<in> set s. \<not> is_space c \<Longrightarrow> strip s = s"
proof -
  assume a: "\<forall>c \<in> set s. \<not> is_space c"
  then have "dropWhile is_space u = u" if "set u \<subseteq> set s" for u
    using that by (cases u) auto
  then show ?thesis by (simp add: strip_def lstrip_def)
qed

lemma parse_int_str: "0 \<le> i \<Longrightarrow> parse_int (str_int i) = Inr i"
proof -
  assume i: "0 \<le> i"
  let ?d = "digits_of (nat i)"
  have s: "strip ?d = ?d"
    by (rule strip_no_space) (use digits_of_digits digit_not_space in blast)
  obtain c cs where c: "?d = c # cs" by (cases ?d) auto
  then have "digit c \<noteq> None" using digits_of_digits[of c "nat i"] by simp
  then have "c \<noteq> CHR ''-''" "c \<noteq> CHR ''+''" by auto
  with s c parse_digits_of[of "nat i"] i show ?thesis
    by (simp add: parse_int_def str_int_def del: parse_digits.simps)
qed

section \<open>Equality of keys and duplicate removal\<close>

text \<open>Only immutable values can be dict keys or set elements. \<open>True\<close> and \<open>1\<close>, \<open>False\<close>
  and \<open>0\<close> are equal keys in Python; \<open>py_key\<close> is the representative of the class.\<close>

fun hashable :: "json \<Rightarrow> bool" where
  "hashable (JList _) = False"
| "hashable (JObj _) = False"
| "hashable _ = True"

fun py_key :: "json \<Rightarrow> json" where
  "py_key (JBool b) = JInt (if b then 1 else 0)"
| "py_key j = j"

text \<open>Keep the first element of each class, in order: \<open>list(dict.fromkeys(xs))\<close> for
  hashable elements.\<close>

fun dedup_on :: "('a \<Rightarrow> 'k) \<Rightarrow> 'a list \<Rightarrow> 'a list" where
  "dedup_on f [] = []"
| "dedup_on f (x # xs) = x # dedup_on f (filter (\<lambda>y. f y \<noteq> f x) xs)"

definition dict_fromkeys :: "json list \<Rightarrow> json list res" where
  "dict_fromkeys xs = (if list_all hashable xs then Inr (dedup_on py_key xs) else Inl TypeError)"

lemma dedup_on_keys: "f ` set (dedup_on f xs) = f ` set xs"
proof (induction f xs rule: dedup_on.induct)
  case (2 f x xs)
  have "f ` set (dedup_on f (x # xs)) = insert (f x) (f ` set (filter (\<lambda>y. f y \<noteq> f x) xs))"
    using 2 by simp
  also have "\<dots> = f ` set (x # xs)" by auto
  finally show ?case .
qed simp

lemma dedup_on_subset: "set (dedup_on f xs) \<subseteq> set xs"
  by (induction f xs rule: dedup_on.induct) auto

lemma dedup_on_distinct: "distinct (map f (dedup_on f xs))"
proof (induction f xs rule: dedup_on.induct)
  case (2 f x xs)
  have "f x \<notin> set (map f (dedup_on f (filter (\<lambda>y. f y \<noteq> f x) xs)))"
    using dedup_on_subset[of f "filter (\<lambda>y. f y \<noteq> f x) xs"] by auto
  with 2 show ?case by simp
qed simp

lemma dedup_on_id: "distinct (map f xs) \<Longrightarrow> dedup_on f xs = xs"
proof (induction f xs rule: dedup_on.induct)
  case (2 f x xs)
  from 2(2) have "f x \<notin> f ` set xs" by simp
  then have "\<forall>y \<in> set xs. f y \<noteq> f x" by (metis imageI)
  then have "filter (\<lambda>y. f y \<noteq> f x) xs = xs" by (simp add: filter_id_conv)
  with 2(1,2) show ?case by simp
qed simp

lemma dedup_on_hd: "xs \<noteq> [] \<Longrightarrow> dedup_on f xs \<noteq> []"
  by (cases xs) auto

lemma dedup_on_str: "JStr u \<in> set (dedup_on py_key xs) \<longleftrightarrow> JStr u \<in> set xs"
proof
  assume "JStr u \<in> set xs"
  then have "py_key (JStr u) \<in> py_key ` set (dedup_on py_key xs)"
    using dedup_on_keys[of py_key xs] by (metis imageI)
  then obtain y where y: "y \<in> set (dedup_on py_key xs)" "py_key y = JStr u"
    by force
  from y(2) have "y = JStr u" by (cases y rule: py_key.cases) auto
  with y show "JStr u \<in> set (dedup_on py_key xs)" by simp
next
  assume "JStr u \<in> set (dedup_on py_key xs)"
  then show "JStr u \<in> set xs" using dedup_on_subset by (rule subsetD[rotated])
qed

text \<open>The values a \<open>for\<close> loop over a JSON value sees.\<close>

fun py_iter :: "json \<Rightarrow> json list res" where
  "py_iter (JList xs) = Inr xs"
| "py_iter (JStr s) = Inr (map (\<lambda>c. JStr [c]) s)"
| "py_iter (JObj kvs) = Inr (map (\<lambda>(k, _). JStr k) kvs)"
| "py_iter _ = Inl TypeError"

section \<open>Indexing and transactions\<close>

text \<open>\<open>xs[i]\<close> and \<open>xs[:n]\<close>: a negative position counts from the end.\<close>

definition py_nth :: "'a list \<Rightarrow> int \<Rightarrow> 'a res" where
  "py_nth xs i =
     (let j = (if i < 0 then i + int (length xs) else i) in
      if 0 \<le> j \<and> j < int (length xs) then Inr (xs ! nat j) else Inl IndexError)"

definition py_slice_to :: "'a list \<Rightarrow> int \<Rightarrow> 'a list" where
  "py_slice_to xs n = (if n < 0 then take (nat (n + int (length xs))) xs else take (nat n) xs)"

lemma py_nth_ok [simp]: "0 \<le> i \<Longrightarrow> i < int (length xs) \<Longrightarrow> py_nth xs i = Inr (xs ! nat i)"
  by (simp add: py_nth_def)

lemma py_nth_in: "py_nth xs i = Inr x \<Longrightarrow> x \<in> set xs"
  by (auto simp: py_nth_def Let_def split: if_splits)

text \<open>A stateful computation returns its value, or the exception it raised, and the state
  it left. \<open>with transaction.atomic()\<close> restores the state when the block raises.\<close>

definition atomic :: "('s \<Rightarrow> 'a res \<times> 's) \<Rightarrow> 's \<Rightarrow> 'a res \<times> 's" where
  "atomic f s = (case f s of (Inl e, _) \<Rightarrow> (Inl e, s) | (Inr x, t) \<Rightarrow> (Inr x, t))"

lemma atomic_Inl: "atomic f s = (Inl e, t) \<Longrightarrow> t = s"
  by (auto simp: atomic_def split: prod.splits sum.splits)

lemma atomic_Inr [simp]: "atomic f s = (Inr x, t) \<longleftrightarrow> f s = (Inr x, t)"
  by (auto simp: atomic_def split: prod.splits sum.splits)

lemma map_sum_Inr: "map_sum f g x = Inr y \<longleftrightarrow> (\<exists>z. x = Inr z \<and> y = g z)"
  by (cases x) auto

text \<open>Statements one after the other: the first exception ends the block.\<close>

definition rbind :: "'a res \<Rightarrow> ('a \<Rightarrow> 'b res) \<Rightarrow> 'b res" where
  "rbind x f = (case x of Inl e \<Rightarrow> Inl e | Inr v \<Rightarrow> f v)"

lemma rbind_simps [simp]: "rbind (Inl e) f = Inl e" "rbind (Inr v) f = f v"
  by (simp_all add: rbind_def)

lemma rbind_Inr: "rbind x f = Inr y \<longleftrightarrow> (\<exists>v. x = Inr v \<and> f v = Inr y)"
  by (cases x) auto

section \<open>Tables\<close>

text \<open>A table is the list of its rows in the order the database returns them; a row is
  found by its key. \<open>tsave\<close> is the ORM's \<open>save()\<close>: it replaces the row with the same key
  or adds a new one. \<open>tupdate\<close> is \<open>filter(...).update(...)\<close>.\<close>

definition tfind :: "('r \<Rightarrow> 'k) \<Rightarrow> 'k \<Rightarrow> 'r list \<Rightarrow> 'r option" where
  "tfind key k t = find (\<lambda>r. key r = k) t"

definition tsave :: "('r \<Rightarrow> 'k) \<Rightarrow> 'r \<Rightarrow> 'r list \<Rightarrow> 'r list" where
  "tsave key r t = (if key r \<in> key ` set t
     then map (\<lambda>x. if key x = key r then r else x) t else t @ [r])"

definition tupdate :: "('r \<Rightarrow> bool) \<Rightarrow> ('r \<Rightarrow> 'r) \<Rightarrow> 'r list \<Rightarrow> 'r list" where
  "tupdate p f t = map (\<lambda>x. if p x then f x else x) t"

definition keyed :: "('r \<Rightarrow> 'k) \<Rightarrow> 'r list \<Rightarrow> bool" where
  "keyed key t \<longleftrightarrow> distinct (map key t)"

locale row_table =
  fixes key :: "'r \<Rightarrow> 'k"
    and lookup :: "'k \<Rightarrow> 't \<Rightarrow> 'r option"
    and save :: "'r \<Rightarrow> 't \<Rightarrow> 't"
    and rows :: "'t \<Rightarrow> 'r set"
    and invar :: "'t \<Rightarrow> bool"
  assumes lookup_save: "lookup k (save r t) = (if k = key r then Some r else lookup k t)"
    and lookup_key: "lookup k t = Some r \<Longrightarrow> key r = k"
    and lookup_rows: "invar t \<Longrightarrow> lookup k t = Some r \<longleftrightarrow> r \<in> rows t \<and> key r = k"
    and invar_save: "invar t \<Longrightarrow> invar (save r t)"
begin

lemma lookup_save_same: "lookup (key r) (save r t) = Some r"
  by (simp add: lookup_save)

lemma lookup_save_other: "k \<noteq> key r \<Longrightarrow> lookup k (save r t) = lookup k t"
  by (simp add: lookup_save)

lemma rows_save: "invar t \<Longrightarrow> rows (save r t) = insert r {x \<in> rows t. key x \<noteq> key r}"
proof (intro set_eqI)
  fix x
  assume t: "invar t"
  have "x \<in> rows (save r t) \<longleftrightarrow> lookup (key x) (save r t) = Some x"
    using lookup_rows[OF invar_save[OF t]] by auto
  also have "\<dots> \<longleftrightarrow> (if key x = key r then r = x else lookup (key x) t = Some x)"
    by (simp add: lookup_save)
  also have "\<dots> \<longleftrightarrow> x \<in> insert r {x \<in> rows t. key x \<noteq> key r}"
    using lookup_rows[OF t] by auto
  finally show "x \<in> rows (save r t) \<longleftrightarrow> x \<in> insert r {x \<in> rows t. key x \<noteq> key r}" .
qed

lemma ball_save:
  "invar t \<Longrightarrow> \<forall>x \<in> rows t. key x \<noteq> key r \<longrightarrow> P x \<Longrightarrow> P r \<Longrightarrow> \<forall>x \<in> rows (save r t). P x"
  by (auto simp: rows_save)

end

lemma find_map_other:
  "\<forall>x \<in> set t. key (f x) = key x \<Longrightarrow>
   find (\<lambda>r. key r = k) (map f t) = map_option f (find (\<lambda>r. key r = k) t)"
  by (induction t) auto

lemma tfind_key: "tfind key k t = Some r \<Longrightarrow> key r = k"
  by (auto simp: tfind_def find_Some_iff)

lemma tfind_in: "tfind key k t = Some r \<Longrightarrow> r \<in> set t"
  by (auto simp: tfind_def find_Some_iff)

lemma tfind_None: "tfind key k t = None \<longleftrightarrow> k \<notin> key ` set t"
  by (auto simp: tfind_def find_None_iff)

lemma tfind_iff: "keyed key t \<Longrightarrow> tfind key k t = Some r \<longleftrightarrow> r \<in> set t \<and> key r = k"
proof (induction t)
  case (Cons a t)
  then show ?case by (auto simp: tfind_def keyed_def image_iff)
qed (simp add: tfind_def)

lemma keyed_inj: "keyed key t \<Longrightarrow> x \<in> set t \<Longrightarrow> y \<in> set t \<Longrightarrow> key x = key y \<Longrightarrow> x = y"
  by (metis keyed_def distinct_map inj_onD)

lemma tfind_replace:
  "tfind key k (map (\<lambda>x. if key x = key r then r else x) t) =
     (if k = key r then (if k \<in> key ` set t then Some r else None) else tfind key k t)"
  by (induction t) (auto simp: tfind_def)

lemma tfind_append: "tfind key k (t @ [r]) =
     (if k \<in> key ` set t then tfind key k t else if key r = k then Some r else None)"
  by (induction t) (auto simp: tfind_def)

lemma tfind_tsave: "tfind key k (tsave key r t) = (if k = key r then Some r else tfind key k t)"
  using tfind_None[of key k t] by (auto simp: tsave_def tfind_replace tfind_append)

lemma map_key_replace: "map key (map (\<lambda>x. if key x = key r then r else x) t) = map key t"
  by (induction t) auto

lemma keyed_tsave: "keyed key t \<Longrightarrow> keyed key (tsave key r t)"
proof (cases "key r \<in> key ` set t")
  case True
  then show "keyed key t \<Longrightarrow> ?thesis" unfolding keyed_def tsave_def
    by (simp only: map_key_replace if_True)
next
  case False
  then show "keyed key t \<Longrightarrow> ?thesis" by (simp add: keyed_def tsave_def)
qed

interpretation ltab: row_table key "tfind key" "tsave key" set "keyed key" for key
proof
  fix k r t
  show "tfind key k (tsave key r t) = (if k = key r then Some r else tfind key k t)"
    by (rule tfind_tsave)
  show "tfind key k t = Some r \<Longrightarrow> key r = k" by (rule tfind_key)
  show "keyed key t \<Longrightarrow> tfind key k t = Some r \<longleftrightarrow> r \<in> set t \<and> key r = k"
    by (rule tfind_iff)
  show "keyed key t \<Longrightarrow> keyed key (tsave key r t)" by (rule keyed_tsave)
qed

lemma map_key_tupdate:
  "(\<And>x. p x \<Longrightarrow> key (f x) = key x) \<Longrightarrow> map key (tupdate p f t) = map key t"
  by (induction t) (simp_all add: tupdate_def)

lemma keyed_tupdate: "(\<And>x. p x \<Longrightarrow> key (f x) = key x) \<Longrightarrow> keyed key t \<Longrightarrow> keyed key (tupdate p f t)"
  by (simp add: keyed_def map_key_tupdate)

lemma tfind_tupdate:
  "(\<And>x. p x \<Longrightarrow> key (f x) = key x) \<Longrightarrow>
   tfind key k (tupdate p f t) = map_option (\<lambda>x. if p x then f x else x) (tfind key k t)"
  unfolding tfind_def tupdate_def by (rule find_map_other) auto

lemma keyed_filter: "keyed key t \<Longrightarrow> keyed key (filter p t)"
  by (simp add: keyed_def distinct_map_filter)

lemma tsave_present:
  "key r \<in> key ` set t \<Longrightarrow> tsave key r t = tupdate (\<lambda>x. key x = key r) (\<lambda>_. r) t"
  by (auto simp: tsave_def tupdate_def)

lemma keys_tsave: "key ` set (tsave key r t) = insert (key r) (key ` set t)"
  by (auto simp: tsave_def image_iff)

lemma keys_tupdate: "(\<And>x. p x \<Longrightarrow> key (f x) = key x) \<Longrightarrow> key ` set (tupdate p f t) = key ` set t"
  by (metis list.set_map map_key_tupdate)

text \<open>A dict as an association list is a table of pairs.\<close>

lemma map_of_tsave: "map_of (tsave fst (x, v) idx) y = (if y = x then Some v else map_of idx y)"
proof (cases "x \<in> fst ` set idx")
  case True
  have "map_of (map (\<lambda>p. if fst p = x then (x, v) else p) idx) y =
      (if y = x then (if x \<in> fst ` set idx then Some v else None) else map_of idx y)"
    by (induction idx) (auto, metis fst_conv image_eqI)
  with True show ?thesis by (simp add: tsave_def)
next
  case False
  then have "map_of idx x = None" by (simp add: map_of_eq_None_iff)
  with False show ?thesis by (auto simp: tsave_def map_add_def split: option.splits)
qed

text \<open>Saving a changed copy of every row of a selection, one after the other, is one update.\<close>

lemma tsave_map:
  assumes "keyed key t" "b \<in> set t" "\<And>x. key (f x) = key x" "b \<notin> A"
  shows "tsave key (f b) (map (\<lambda>x. if x \<in> A then f x else x) t) = map (\<lambda>x. if x \<in> insert b A then f x else x) t"
proof -
  let ?t = "map (\<lambda>x. if x \<in> A then f x else x) t"
  have "key (f b) \<in> key ` set ?t" using assms(2-4) by force
  then have "tsave key (f b) ?t = map (\<lambda>x. if key x = key (f b) then f b else x) ?t" by (simp add: tsave_def)
  also have "\<dots> = map (\<lambda>x. if x \<in> insert b A then f x else x) t"
    unfolding map_map
  proof (rule map_cong[OF refl])
    fix x assume "x \<in> set t"
    then have "key x = key b \<longleftrightarrow> x = b" using keyed_inj[OF assms(1) _ assms(2), of x] by auto
    then show "((\<lambda>x. if key x = key (f b) then f b else x) \<circ> (\<lambda>x. if x \<in> A then f x else x)) x =
        (if x \<in> insert b A then f x else x)"
      using assms(3,4) by auto
  qed
  finally show ?thesis .
qed

lemma fold_tsave_map:
  assumes "keyed key t" "\<And>x. key (f x) = key x" "distinct bs" "set bs \<subseteq> set t"
  shows "fold (\<lambda>b. tsave key (f b)) bs t = map (\<lambda>x. if x \<in> set bs then f x else x) t"
  using assms(3,4)
proof (induction bs rule: rev_induct)
  case (snoc b bs)
  then show ?case using tsave_map[OF assms(1) _ assms(2), of b "set bs"] by simp
qed simp

lemma fold_tsave_filter:
  assumes "keyed key t" "\<And>x. key (f x) = key x"
  shows "fold (\<lambda>b. tsave key (f b)) (filter p t) t = tupdate p f t"
proof -
  have "distinct t" using assms(1) by (simp add: keyed_def distinct_map)
  then have "fold (\<lambda>b. tsave key (f b)) (filter p t) t = map (\<lambda>x. if x \<in> set (filter p t) then f x else x) t"
    by (intro fold_tsave_map[OF assms]) auto
  then show ?thesis by (simp add: tupdate_def)
qed

text \<open>The automatic key of a new row.\<close>

definition next_key :: "('r \<Rightarrow> nat) \<Rightarrow> 'r list \<Rightarrow> nat" where
  "next_key key t = Suc (fold max (map key t) 0)"

lemma fold_max_ge: "x \<in> set xs \<Longrightarrow> x \<le> fold max xs (m :: nat)"
proof -
  have g: "m \<le> fold max xs m" for xs and m :: nat
    by (induction xs arbitrary: m) (auto intro: order_trans[OF max.cobounded2])
  show "x \<in> set xs \<Longrightarrow> x \<le> fold max xs m"
    by (induction xs arbitrary: m) (auto intro: order_trans[OF _ g])
qed

lemma next_key_fresh: "next_key key t \<notin> key ` set t"
proof
  assume "next_key key t \<in> key ` set t"
  then have "next_key key t \<le> fold max (map key t) 0" by (auto intro: fold_max_ge)
  then show False by (simp add: next_key_def)
qed

lemmas table_rules [row_simps] =
  tfind_tsave keyed_tsave keys_tsave keyed_filter

section \<open>Scans\<close>

text \<open>The periodic jobs read the keys of the rows to handle and then treat one key after the
  other, each in its own transaction. A component that shows what one round does to the
  rows of its key, and that it leaves the rows of other keys alone, gets the effect of the
  whole scan: every key is treated exactly once, from the state it had before the scan.\<close>

locale keyed_scan =
  fixes step :: "'k \<Rightarrow> 's \<Rightarrow> 's"
    and view :: "'k \<Rightarrow> 's \<Rightarrow> 'v"
    and inv :: "'s \<Rightarrow> bool"
    and rel :: "'k \<Rightarrow> 'v \<Rightarrow> 'v \<Rightarrow> bool"
  assumes inv_step: "inv s \<Longrightarrow> inv (step k s)"
    and frame_step: "inv s \<Longrightarrow> j \<noteq> k \<Longrightarrow> view j (step k s) = view j s"
    and rel_step: "inv s \<Longrightarrow> rel k (view k s) (view k (step k s))"
begin

lemma scan_inv: "inv s \<Longrightarrow> inv (fold step ks s)"
  by (induction ks arbitrary: s) (simp_all add: inv_step)

lemma scan_frame: "inv s \<Longrightarrow> k \<notin> set ks \<Longrightarrow> view k (fold step ks s) = view k s"
  by (induction ks arbitrary: s) (simp_all add: inv_step frame_step)

lemma scan_rel:
  "inv s \<Longrightarrow> distinct ks \<Longrightarrow> k \<in> set ks \<Longrightarrow> rel k (view k s) (view k (fold step ks s))"
proof (induction ks arbitrary: s)
  case (Cons j ks)
  show ?case
  proof (cases "k = j")
    case True
    then have "view k (fold step ks (step j s)) = view k (step j s)"
      using Cons.prems by (intro scan_frame) (simp_all add: inv_step)
    then show ?thesis using rel_step[OF Cons.prems(1), of j] True by simp
  next
    case False
    then have "rel k (view k (step j s)) (view k (fold step ks (step j s)))"
      using Cons by (simp add: inv_step)
    then show ?thesis using frame_step[OF Cons.prems(1) False] by simp
  qed
qed simp

end

end
