(* ===== verification/Alerts_Data.thy ===== *)
theory Alerts_Data
  imports Prelude
begin

text \<open>
  The data of the alert centre (\<open>server/apps/alerts\<close>): the enumerations of
  \<open>constants/constants.py\<close>, the tables of \<open>models/models.py\<close>,
  \<open>models/alert_operator.py\<close> and \<open>models/operator_log.py\<close>, and the database state every
  service reads and writes. Side effects that leave the database (queued notifications,
  queued automatic actions, queued assignment jobs) are appended to an outbox, in the
  order in which they are sent after the commit.
\<close>

section \<open>Enumerations\<close>

datatype alert_status =
  A_PENDING | A_RESOLVED | A_PROCESSING | A_CLOSED | A_UNASSIGNED | A_AUTO_CLOSE | A_AUTO_RECOVERY

fun alert_status_str :: "alert_status \<Rightarrow> string" where
  "alert_status_str A_PENDING = ''pending''"
| "alert_status_str A_RESOLVED = ''resolved''"
| "alert_status_str A_PROCESSING = ''processing''"
| "alert_status_str A_CLOSED = ''closed''"
| "alert_status_str A_UNASSIGNED = ''unassigned''"
| "alert_status_str A_AUTO_CLOSE = ''auto_close''"
| "alert_status_str A_AUTO_RECOVERY = ''auto_recovery''"

definition ACTIVATE_STATUS :: "alert_status list" where
  "ACTIVATE_STATUS = [A_PENDING, A_PROCESSING, A_UNASSIGNED]"

definition CLOSED_STATUS :: "alert_status list" where
  "CLOSED_STATUS = [A_CLOSED, A_AUTO_CLOSE, A_AUTO_RECOVERY]"

datatype alert_operate = OP_ACKNOWLEDGE | OP_CLOSE | OP_REASSIGN | OP_ASSIGN

datatype session_status = S_OBSERVING | S_CONFIRMED | S_RECOVERED

definition NO_CONFIRMED :: "session_status list" where
  "NO_CONFIRMED = [S_OBSERVING, S_RECOVERED]"

datatype event_status = E_RECEIVED | E_PENDING | E_RESOLVED | E_PROCESSING | E_CLOSED | E_SHIELD

text \<open>\<open>EA_OTHER\<close> is any other text: the choices of the column are not enforced when events are stored.\<close>

datatype event_action = EA_CREATED | EA_CLOSED | EA_RECOVERY | EA_OTHER string

text \<open>\<open>match_type\<close> of an assignment or a shield; \<open>MT_OTHER\<close> stands for any other value of
  the column.\<close>

datatype match_type = MT_ALL | MT_FILTER | MT_OTHER

datatype strategy_type = ST_SMART_DENOISE | ST_MISSING_DETECTION | ST_INSTANT

lemma active_not_closed: "s \<in> set ACTIVATE_STATUS \<Longrightarrow> s \<notin> set CLOSED_STATUS"
  by (auto simp: ACTIVATE_STATUS_def CLOSED_STATUS_def)

lemma active_or_final:
  "s \<in> set ACTIVATE_STATUS \<or> s \<in> set CLOSED_STATUS \<or> s = A_RESOLVED"
  by (cases s) (auto simp: ACTIVATE_STATUS_def CLOSED_STATUS_def)

section \<open>Rows\<close>

text \<open>\<open>timedelta(minutes=n)\<close> and \<open>timedelta(days=n)\<close> in microseconds.\<close>

definition minutes :: "int \<Rightarrow> int" where
  [py_simps]: "minutes n = n * 60000000"

definition days :: "int \<Rightarrow> int" where
  [py_simps]: "days n = n * 86400000000"

record event =
  ev_pk :: nat
  ev_event_id :: string
  ev_source_pk :: nat
  ev_source_id :: string
  ev_source_name :: string
  ev_level :: string
  ev_title :: string
  ev_external_id :: "string option"
  ev_action :: event_action
  ev_start_time :: "int option"
  ev_end_time :: "int option"
  ev_received_at :: int
  ev_item :: "string option"
  ev_resource_id :: "string option"
  ev_resource_type :: "string option"
  ev_resource_name :: "string option"
  ev_labels :: json
  ev_enrichment :: "(string \<times> json) list"
  ev_status :: event_status
  ev_description :: "string option"
  ev_service :: "string option"
  ev_location :: "string option"
  ev_push_source_id :: string
  ev_event_type :: int
  ev_rule_id :: "string option"
  ev_tags :: json
  ev_team :: "json list"
  ev_ingest_key :: "string option"

record alert =
  al_pk :: nat
  al_alert_id :: string
  al_status :: alert_status
  al_level :: string
  al_events :: "nat list"
  al_created_at :: int
  al_updated_at :: int
  al_title :: string
  al_content :: string
  al_first_event_time :: "int option"
  al_last_event_time :: "int option"
  al_operate :: "alert_operate option"
  al_operator :: "json list"
  al_fingerprint :: string
  al_rule_id :: "string option"
  al_is_session_alert :: bool
  al_session_status :: "session_status option"
  al_session_end_time :: "int option"
  al_team :: "json list"
  al_source_name :: "string option"
  al_resource_id :: "string option"
  al_resource_name :: "string option"
  al_resource_type :: "string option"
  al_item :: "string option"
  al_labels :: json
  al_enrichment :: "(string \<times> json) list"
  al_group_by_field :: "string option"
  al_dimensions :: "(string \<times> string) list"

record assignment =
  as_id :: int
  as_name :: string
  as_match_type :: match_type
  as_match_rules :: "json list"
  as_personnel :: "json list"
  as_notify_channels :: json
  as_config :: json
  as_notification_frequency :: json
  as_is_active :: bool
  as_created_at :: int

record reminder =
  rm_alert :: nat
  rm_assignment :: int
  rm_is_active :: bool
  rm_count :: int
  rm_frequency :: int
  rm_max :: int
  rm_next :: int
  rm_last :: "int option"
  rm_updated_at :: int

record layer =
  ly_personnel :: "json list"
  ly_wait_minutes :: int
  ly_notify_channels :: json

record escalation =
  es_alert :: nat
  es_assignment :: int
  es_is_active :: bool
  es_mode :: string
  es_layers :: "layer list"
  es_index :: int
  es_started_at :: int
  es_updated_at :: int

record strategy =
  sg_id :: int
  sg_name :: string
  sg_type :: strategy_type
  sg_is_active :: bool
  sg_auto_close :: bool
  sg_close_minutes :: int
  sg_params :: json
  sg_dispatch_team :: json
  sg_match_rules :: "json list"
  sg_last_execute_time :: "int option"
  sg_created_at :: int
  sg_updated_at :: int

record user =
  us_username :: string
  us_group_list :: json

datatype log_kind =
    LogAssign | LogAcknowledge | LogReassign | LogClose | LogResolve
  | LogAutoClose | LogAutoAssign
  | LogIncidentAck | LogIncidentClose | LogIncidentReopen | LogIncidentAddAlerts | LogIncidentRemoveAlerts
  | LogActionExecute

record oplog =
  lg_operator :: string
  lg_kind :: log_kind
  lg_target :: string

section \<open>Notifications and the database\<close>

text \<open>One element of the argument of \<open>sync_notify\<close>. The content of a NATS channel is a
  dict with a message, one team and the users.\<close>

datatype ncontent = NText string | NNats string json "json list"

record nparam =
  np_users :: "json list"
  np_channel_type :: json
  np_channel_id :: json
  np_title :: string
  np_content :: ncontent
  np_object_id :: string
  np_action_object :: string

datatype effect =
    ActionDispatch string string
  | SyncNotify "nparam list"
  | AutoAssign "string list"
  | BuildInstant "(int \<times> string) list"

record db =
  db_alerts :: "alert list"
  db_events :: "event list"
  db_assignments :: "assignment list"
  db_reminders :: "reminder list"
  db_escalations :: "escalation list"
  db_strategies :: "strategy list"
  db_users :: "user list"
  db_email_channel :: "int option"
  db_logs :: "oplog list"
  db_outbox :: "effect list"

text \<open>The formatters of notification texts (\<open>common/notify/base.py\<close>), which are not
  modelled: given the receivers and the alerts they return a text or raise. Beside them
  stands \<open>json.loads\<close>, \<open>None\<close> for a \<open>JSONDecodeError\<close>: nothing is assumed of the text format.\<close>

record notify_format =
  nf_title :: "json list \<Rightarrow> alert list \<Rightarrow> string res"
  nf_content :: "json list \<Rightarrow> alert list \<Rightarrow> string res"
  nf_json_loads :: "string \<Rightarrow> json option"

abbreviation find_alert :: "string \<Rightarrow> db \<Rightarrow> alert option" where
  "find_alert aid s \<equiv> tfind al_alert_id aid (db_alerts s)"

abbreviation alert_by_pk :: "nat \<Rightarrow> db \<Rightarrow> alert option" where
  "alert_by_pk k s \<equiv> tfind al_pk k (db_alerts s)"

abbreviation find_reminder :: "nat \<Rightarrow> db \<Rightarrow> reminder option" where
  "find_reminder k s \<equiv> tfind rm_alert k (db_reminders s)"

abbreviation find_escalation :: "nat \<Rightarrow> db \<Rightarrow> escalation option" where
  "find_escalation k s \<equiv> tfind es_alert k (db_escalations s)"

abbreviation find_assignment :: "int \<Rightarrow> db \<Rightarrow> assignment option" where
  "find_assignment k s \<equiv> tfind as_id k (db_assignments s)"

text \<open>\<open>alert.events.all()\<close>.\<close>

definition events_of :: "alert \<Rightarrow> db \<Rightarrow> event list" where
  "events_of a s = filter (\<lambda>e. ev_pk e \<in> set (al_events a)) (db_events s)"

definition save_alert :: "alert \<Rightarrow> db \<Rightarrow> db" where
  "save_alert a s = s\<lparr>db_alerts := tsave al_pk a (db_alerts s)\<rparr>"

definition save_reminder :: "reminder \<Rightarrow> db \<Rightarrow> db" where
  "save_reminder r s = s\<lparr>db_reminders := tsave rm_alert r (db_reminders s)\<rparr>"

definition save_escalation :: "escalation \<Rightarrow> db \<Rightarrow> db" where
  "save_escalation e s = s\<lparr>db_escalations := tsave es_alert e (db_escalations s)\<rparr>"

definition add_log :: "oplog \<Rightarrow> db \<Rightarrow> db" where
  "add_log l s = s\<lparr>db_logs := db_logs s @ [l]\<rparr>"

definition emit :: "effect \<Rightarrow> db \<Rightarrow> db" where
  "emit e s = s\<lparr>db_outbox := db_outbox s @ [e]\<rparr>"

section \<open>Well-formed databases\<close>

text \<open>Primary keys are unique, and so is \<open>alert_id\<close>; every reminder and escalation task
  belongs to an existing alert (the foreign keys).\<close>

definition wf_db :: "db \<Rightarrow> bool" where
  "wf_db s \<longleftrightarrow>
     keyed al_pk (db_alerts s) \<and> keyed al_alert_id (db_alerts s) \<and>
     keyed rm_alert (db_reminders s) \<and> keyed es_alert (db_escalations s) \<and>
     keyed as_id (db_assignments s) \<and> keyed sg_id (db_strategies s) \<and>
     rm_alert ` set (db_reminders s) \<subseteq> al_pk ` set (db_alerts s) \<and>
     es_alert ` set (db_escalations s) \<subseteq> al_pk ` set (db_alerts s)"

lemma save_alert_fields [simp]:
  "db_reminders (save_alert a s) = db_reminders s"
  "db_escalations (save_alert a s) = db_escalations s"
  "db_assignments (save_alert a s) = db_assignments s"
  "db_users (save_alert a s) = db_users s"
  "db_events (save_alert a s) = db_events s"
  "db_strategies (save_alert a s) = db_strategies s"
  "db_email_channel (save_alert a s) = db_email_channel s"
  "db_logs (save_alert a s) = db_logs s"
  "db_outbox (save_alert a s) = db_outbox s"
  "db_alerts (save_alert a s) = tsave al_pk a (db_alerts s)"
  by (simp_all add: save_alert_def)

lemma save_reminder_fields [simp]:
  "db_alerts (save_reminder r s) = db_alerts s"
  "db_escalations (save_reminder r s) = db_escalations s"
  "db_assignments (save_reminder r s) = db_assignments s"
  "db_users (save_reminder r s) = db_users s"
  "db_events (save_reminder r s) = db_events s"
  "db_strategies (save_reminder r s) = db_strategies s"
  "db_email_channel (save_reminder r s) = db_email_channel s"
  "db_logs (save_reminder r s) = db_logs s"
  "db_outbox (save_reminder r s) = db_outbox s"
  "db_reminders (save_reminder r s) = tsave rm_alert r (db_reminders s)"
  by (simp_all add: save_reminder_def)

lemma save_escalation_fields [simp]:
  "db_alerts (save_escalation e s) = db_alerts s"
  "db_reminders (save_escalation e s) = db_reminders s"
  "db_assignments (save_escalation e s) = db_assignments s"
  "db_users (save_escalation e s) = db_users s"
  "db_events (save_escalation e s) = db_events s"
  "db_strategies (save_escalation e s) = db_strategies s"
  "db_email_channel (save_escalation e s) = db_email_channel s"
  "db_logs (save_escalation e s) = db_logs s"
  "db_outbox (save_escalation e s) = db_outbox s"
  "db_escalations (save_escalation e s) = tsave es_alert e (db_escalations s)"
  by (simp_all add: save_escalation_def)

lemma add_log_fields [simp]:
  "db_alerts (add_log l s) = db_alerts s"
  "db_reminders (add_log l s) = db_reminders s"
  "db_escalations (add_log l s) = db_escalations s"
  "db_assignments (add_log l s) = db_assignments s"
  "db_users (add_log l s) = db_users s"
  "db_events (add_log l s) = db_events s"
  "db_strategies (add_log l s) = db_strategies s"
  "db_email_channel (add_log l s) = db_email_channel s"
  "db_logs (add_log l s) = db_logs s @ [l]"
  "db_outbox (add_log l s) = db_outbox s"
  by (simp_all add: add_log_def)

lemma emit_fields [simp]:
  "db_alerts (emit e s) = db_alerts s"
  "db_reminders (emit e s) = db_reminders s"
  "db_escalations (emit e s) = db_escalations s"
  "db_assignments (emit e s) = db_assignments s"
  "db_users (emit e s) = db_users s"
  "db_events (emit e s) = db_events s"
  "db_strategies (emit e s) = db_strategies s"
  "db_email_channel (emit e s) = db_email_channel s"
  "db_logs (emit e s) = db_logs s"
  "db_outbox (emit e s) = db_outbox s @ [e]"
  by (simp_all add: emit_def)

text \<open>Saving a changed copy of a stored alert keeps both keys unique.\<close>

lemma keyed_save_same_id:
  assumes "keyed al_alert_id t" "keyed al_pk t" "a \<in> set t"
    "al_pk a' = al_pk a" "al_alert_id a' = al_alert_id a"
  shows "keyed al_alert_id (tsave al_pk a' t)"
proof -
  have "x = a" if "x \<in> set t" "al_pk x = al_pk a" for x
  proof -
    have "tfind al_pk (al_pk a) t = Some x" "tfind al_pk (al_pk a) t = Some a"
      using tfind_iff[OF assms(2)] assms(3) that by simp_all
    then show ?thesis by simp
  qed
  then have "map al_alert_id (map (\<lambda>x. if al_pk x = al_pk a' then a' else x) t) = map al_alert_id t"
    using assms(4,5) by auto
  moreover have "al_pk a' \<in> al_pk ` set t" using assms(3,4) by auto
  ultimately show ?thesis
    using assms(1) unfolding keyed_def tsave_def by (simp only: if_True)
qed

lemma wf_db_save_alert:
  assumes "wf_db s" "a \<in> set (db_alerts s)" "al_pk a' = al_pk a" "al_alert_id a' = al_alert_id a"
  shows "wf_db (save_alert a' s)"
  using assms by (auto simp: wf_db_def row_simps keyed_save_same_id)

lemma wf_db_save_reminder:
  "wf_db s \<Longrightarrow> rm_alert r \<in> al_pk ` set (db_alerts s) \<Longrightarrow> wf_db (save_reminder r s)"
  by (auto simp: wf_db_def row_simps)

lemma wf_db_save_escalation:
  "wf_db s \<Longrightarrow> es_alert e \<in> al_pk ` set (db_alerts s) \<Longrightarrow> wf_db (save_escalation e s)"
  by (auto simp: wf_db_def row_simps)

lemma wf_db_add_log [simp]: "wf_db (add_log l s) = wf_db s"
  by (simp add: wf_db_def)

lemma wf_db_emit [simp]: "wf_db (emit e s) = wf_db s"
  by (simp add: wf_db_def)

lemma wf_db_alert_ids: "wf_db s \<Longrightarrow> find_alert aid s = Some a \<Longrightarrow> alert_by_pk (al_pk a) s = Some a"
  by (simp add: wf_db_def ltab.lookup_rows)

section \<open>Changes confined to one alert\<close>

text \<open>\<open>only k s t\<close>: the step from \<open>s\<close> to \<open>t\<close> changes no alert, reminder or escalation task
  but those of the alert with key \<open>k\<close>, adds, deletes and renames no alert, keeps the policies
  and the well-formedness. All operations on one alert are steps of this kind.\<close>

definition only :: "nat \<Rightarrow> db \<Rightarrow> db \<Rightarrow> bool" where
  "only k s t \<longleftrightarrow>
     (\<forall>j. j \<noteq> k \<longrightarrow> alert_by_pk j t = alert_by_pk j s \<and> find_reminder j t = find_reminder j s \<and>
                     find_escalation j t = find_escalation j s) \<and>
     al_pk ` set (db_alerts t) = al_pk ` set (db_alerts s) \<and>
     (\<forall>j. map_option al_alert_id (alert_by_pk j t) = map_option al_alert_id (alert_by_pk j s)) \<and>
     db_assignments t = db_assignments s \<and> (wf_db s \<longrightarrow> wf_db t)"

lemma only_refl [simp, intro]: "only k s s"
  by (simp add: only_def)

lemma only_trans [trans]: "only k s t \<Longrightarrow> only k t u \<Longrightarrow> only k s u"
  by (auto simp: only_def)

lemma only_save_escalation:
  "es_alert e = k \<Longrightarrow> k \<in> al_pk ` set (db_alerts s) \<Longrightarrow> only k s (save_escalation e s)"
  by (auto simp: only_def row_simps wf_db_save_escalation)

lemma only_save_reminder:
  "rm_alert r = k \<Longrightarrow> k \<in> al_pk ` set (db_alerts s) \<Longrightarrow> only k s (save_reminder r s)"
  by (auto simp: only_def row_simps wf_db_save_reminder)

lemma only_save_alert:
  "alert_by_pk k s = Some a \<Longrightarrow> al_pk a' = al_pk a \<Longrightarrow> al_alert_id a' = al_alert_id a \<Longrightarrow>
   only k s (save_alert a' s)"
  using tfind_key[of al_pk k "db_alerts s" a] tfind_in[of al_pk k "db_alerts s" a]
    wf_db_save_alert[of s a a']
  by (auto simp: only_def row_simps intro: rev_image_eqI)

lemma only_emit [simp, intro]: "only k s (emit e s)"
  by (simp add: only_def)

lemma only_add_log [simp, intro]: "only k s (add_log l s)"
  by (simp add: only_def)

lemma onlyD:
  "only k s t \<Longrightarrow> wf_db s \<Longrightarrow> wf_db t"
  "only k s t \<Longrightarrow> j \<noteq> k \<Longrightarrow> alert_by_pk j t = alert_by_pk j s"
  "only k s t \<Longrightarrow> j \<noteq> k \<Longrightarrow> find_reminder j t = find_reminder j s"
  "only k s t \<Longrightarrow> j \<noteq> k \<Longrightarrow> find_escalation j t = find_escalation j s"
  "only k s t \<Longrightarrow> al_pk ` set (db_alerts t) = al_pk ` set (db_alerts s)"
  "only k s t \<Longrightarrow> db_assignments t = db_assignments s"
  "only k s t \<Longrightarrow> map_option al_alert_id (alert_by_pk j t) = map_option al_alert_id (alert_by_pk j s)"
  by (auto simp: only_def)

text \<open>The rows of one alert: what a round of a scan is about.\<close>

type_synonym alert_view = "alert option \<times> reminder option \<times> escalation option"

definition aview :: "nat \<Rightarrow> db \<Rightarrow> alert_view" where
  "aview k s = (alert_by_pk k s, find_reminder k s, find_escalation k s)"

lemma only_aview: "only k s t \<Longrightarrow> j \<noteq> k \<Longrightarrow> aview j t = aview j s"
  by (simp add: aview_def onlyD)

end
