(* ===== verification/Notify.thy ===== *)
theory Notify
  imports Alerts_Data
begin

text \<open>
  The common exit of every notification (\<open>common/notify/dispatcher.py\<close>): the parameters
  of \<open>sync_notify\<close>, one per channel, and their delivery after the commit. The texts come
  from the formatter parameter.
\<close>

section \<open>build\_channel\_params\<close>

text \<open>The single organisation of a NATS message: the first team of the only alert.\<close>

definition nats_team :: "alert list \<Rightarrow> json" where
  "nats_team alerts =
     (case alerts of [a] \<Rightarrow> (case al_team a of [] \<Rightarrow> JNull | t # _ \<Rightarrow> t) | _ \<Rightarrow> JNull)"

text \<open>The loop over the channels. Every branch reads \<open>channel["id"]\<close>, the skipped NATS
  channel included (its id is logged).\<close>

fun channel_params ::
  "json list \<Rightarrow> string \<Rightarrow> string \<Rightarrow> json \<Rightarrow> string \<Rightarrow> json list \<Rightarrow> nparam list res" where
  "channel_params users title content team oid [] = Inr []"
| "channel_params users title content team oid (ch # chs) =
     (case jitem ch ''channel_type'' of
        Inl e \<Rightarrow> Inl e
      | Inr ct \<Rightarrow>
        (case jitem ch ''id'' of
           Inl e \<Rightarrow> Inl e
         | Inr cid \<Rightarrow>
           (case channel_params users title content team oid chs of
              Inl e \<Rightarrow> Inl e
            | Inr ps \<Rightarrow>
                if ct = JStr ''nats'' then
                  if team = JNull then Inr ps
                  else Inr (\<lparr>np_users = users, np_channel_type = ct, np_channel_id = cid,
                             np_title = [], np_content = NNats content team users,
                             np_object_id = oid, np_action_object = ''alert''\<rparr> # ps)
                else Inr (\<lparr>np_users = users, np_channel_type = ct, np_channel_id = cid,
                           np_title = title, np_content = NText content,
                           np_object_id = oid, np_action_object = ''alert''\<rparr> # ps))))"

definition build_channel_params ::
  "notify_format \<Rightarrow> json list \<Rightarrow> json \<Rightarrow> alert list \<Rightarrow> string \<Rightarrow> nparam list res" where
  "build_channel_params nf users channels alerts oid =
     (if users = [] \<or> \<not> truthy channels then Inr []
      else case nf_title nf users alerts of
        Inl e \<Rightarrow> Inl e
      | Inr title \<Rightarrow>
        (case nf_content nf users alerts of
           Inl e \<Rightarrow> Inl e
         | Inr content \<Rightarrow>
           (case channels of
              JList chs \<Rightarrow> channel_params users title content (nats_team alerts) oid chs
            | _ \<Rightarrow> Inl TypeError)))"

section \<open>enqueue\_notifications\<close>

text \<open>Inside a transaction the parameters are sent after the commit; nothing is sent for
  an empty list.\<close>

definition enqueue_notifications :: "nparam list \<Rightarrow> db \<Rightarrow> bool \<times> db" where
  "enqueue_notifications params s =
     (if params = [] then (False, s) else (True, emit (SyncNotify params) s))"

section \<open>Properties\<close>

lemma channel_params_sound:
  "channel_params users title content team oid chs = Inr ps \<Longrightarrow> p \<in> set ps \<Longrightarrow>
   np_users p = users \<and> np_object_id p = oid \<and>
   (np_channel_type p = JStr ''nats'' \<longrightarrow> team \<noteq> JNull)"
proof (induction chs arbitrary: ps)
  case (Cons ch chs)
  then show ?case
    by (cases "channel_params users title content team oid chs")
       (auto split: sum.splits if_splits)
qed simp

lemma channel_params_length:
  "channel_params users title content team oid chs = Inr ps \<Longrightarrow> length ps \<le> length chs"
proof (induction chs arbitrary: ps)
  case (Cons ch chs)
  then show ?case
    by (cases "channel_params users title content team oid chs")
       (auto split: sum.splits if_splits intro: le_SucI)
qed simp

text \<open>With an organisation, or without NATS channels, there is one message per channel.\<close>

lemma channel_params_complete:
  "channel_params users title content team oid chs = Inr ps \<Longrightarrow>
   team \<noteq> JNull \<or> (\<forall>ch \<in> set chs. jitem ch ''channel_type'' \<noteq> Inr (JStr ''nats'')) \<Longrightarrow>
   map np_channel_id ps = map (\<lambda>ch. projr (jitem ch ''id'')) chs"
proof (induction chs arbitrary: ps)
  case (Cons ch chs)
  then show ?case
    by (cases "channel_params users title content team oid chs")
       (auto split: sum.splits if_splits)
qed simp

lemma enqueue_frame:
  "enqueue_notifications ps s = (b, t) \<Longrightarrow> db_alerts t = db_alerts s"
  "enqueue_notifications ps s = (b, t) \<Longrightarrow> db_reminders t = db_reminders s"
  "enqueue_notifications ps s = (b, t) \<Longrightarrow> db_escalations t = db_escalations s"
  "enqueue_notifications ps s = (b, t) \<Longrightarrow> db_assignments t = db_assignments s"
  "enqueue_notifications ps s = (b, t) \<Longrightarrow> wf_db t = wf_db s"
  by (auto simp: enqueue_notifications_def split: if_splits)

text \<open>Building never raises for a formatter that always returns a text and channels that are
  dicts with a type and an id.\<close>

definition total_format :: "notify_format \<Rightarrow> bool" where
  "total_format nf \<longleftrightarrow> (\<forall>us as. \<not> isl (nf_title nf us as) \<and> \<not> isl (nf_content nf us as))"

fun good_channels :: "json \<Rightarrow> bool" where
  "good_channels (JList chs) =
     list_all (\<lambda>ch. \<not> isl (jitem ch ''channel_type'') \<and> \<not> isl (jitem ch ''id'')) chs"
| "good_channels j = (\<not> truthy j)"

lemma channel_params_total:
  "list_all (\<lambda>ch. \<not> isl (jitem ch ''channel_type'') \<and> \<not> isl (jitem ch ''id'')) chs \<Longrightarrow>
   \<not> isl (channel_params users title content team oid chs)"
  by (induction chs) (auto simp: isl_def split: sum.splits)

lemma build_params_total:
  assumes "total_format nf" "good_channels chs"
  shows "\<exists>ps. build_channel_params nf users chs alerts oid = Inr ps"
proof (cases "users = [] \<or> \<not> truthy chs")
  case False
  with assms(2) obtain xs where xs: "chs = JList xs" by (cases chs) auto
  obtain ti co where "nf_title nf users alerts = Inr ti" "nf_content nf users alerts = Inr co"
    using assms(1) by (metis isl_def sum.collapse(2) total_format_def)
  moreover have "\<not> isl (channel_params users ti co (nats_team alerts) oid xs)"
    using assms(2) xs by (intro channel_params_total) simp
  ultimately show ?thesis using False xs
    by (cases "channel_params users ti co (nats_team alerts) oid xs")
       (auto simp: build_channel_params_def)
qed (auto simp: build_channel_params_def)

lemma good_py_or: "good_channels a \<Longrightarrow> good_channels b \<Longrightarrow> good_channels (py_or a b)"
  by (simp add: py_or_def)

end
