(* ===== verification/Samples.thy ===== *)
theory Samples
  imports Notify
begin

text \<open>
  A small concrete database, used to show that the hypotheses of the properties can hold:
  one pending alert of user alice, a policy with a two-layer escalation chain and a
  reminder every five minutes, the tasks of the alert, two users, an auto-close strategy.
\<close>

definition chan :: json where
  "chan = JList [JObj [(''channel_type'', JStr ''email''), (''id'', JInt 7)]]"

definition sample_format :: notify_format where
  "sample_format = \<lparr>nf_title = (\<lambda>_ _. Inr ''t''), nf_content = (\<lambda>_ _. Inr ''c''),
     nf_json_loads = (\<lambda>_. None)\<rparr>"

definition sample_alert :: alert where
  "sample_alert = \<lparr>al_pk = 1, al_alert_id = ''A1'', al_status = A_PENDING, al_level = ''1'',
     al_events = [], al_created_at = 0, al_updated_at = 0, al_title = ''cpu'', al_content = ''c'',
     al_first_event_time = Some 0, al_last_event_time = Some 0, al_operate = Some OP_ASSIGN,
     al_operator = [JStr ''alice''], al_fingerprint = ''f'', al_rule_id = Some ''1'',
     al_is_session_alert = False, al_session_status = None, al_session_end_time = None,
     al_team = [JInt 1], al_source_name = None, al_resource_id = None, al_resource_name = None,
     al_resource_type = None, al_item = None, al_labels = JObj [], al_enrichment = [],
     al_group_by_field = None, al_dimensions = []\<rparr>"

definition sample_config :: json where
  "sample_config = JObj [(''escalation'', JObj [(''enabled'', JBool True), (''mode'', JStr ''append''),
     (''layers'', JList [JObj [(''personnel'', JList [JStr ''bob'']), (''wait_minutes'', JInt 10)],
                       JObj [(''personnel'', JList [JStr ''carol'']), (''wait_minutes'', JStr ''20'')]])])]"

definition sample_assignment :: assignment where
  "sample_assignment = \<lparr>as_id = 3, as_name = ''p'', as_match_type = MT_ALL, as_match_rules = [],
     as_personnel = [JStr ''alice''], as_notify_channels = chan, as_config = sample_config,
     as_notification_frequency = JObj [(''1'', JObj [(''interval_minutes'', JInt 5), (''max_count'', JInt 2)])],
     as_is_active = True, as_created_at = 0\<rparr>"

definition sample_layers :: "layer list" where
  "sample_layers =
     [\<lparr>ly_personnel = [JStr ''alice''], ly_wait_minutes = 10, ly_notify_channels = chan\<rparr>,
      \<lparr>ly_personnel = [JStr ''bob''], ly_wait_minutes = 20, ly_notify_channels = JList []\<rparr>,
      \<lparr>ly_personnel = [JStr ''carol''], ly_wait_minutes = 0, ly_notify_channels = JList []\<rparr>]"

definition sample_task :: escalation where
  "sample_task = \<lparr>es_alert = 1, es_assignment = 3, es_is_active = True, es_mode = ''append'',
     es_layers = sample_layers, es_index = 0, es_started_at = 0, es_updated_at = 0\<rparr>"

definition sample_reminder :: reminder where
  "sample_reminder = \<lparr>rm_alert = 1, rm_assignment = 3, rm_is_active = True, rm_count = 1,
     rm_frequency = 5, rm_max = 2, rm_next = 300000000, rm_last = Some 0, rm_updated_at = 0\<rparr>"

definition sample_strategy :: strategy where
  "sample_strategy = \<lparr>sg_id = 1, sg_name = ''s'', sg_type = ST_SMART_DENOISE, sg_is_active = True,
     sg_auto_close = True, sg_close_minutes = 10, sg_params = JObj [], sg_dispatch_team = JList [],
     sg_match_rules = [], sg_last_execute_time = None, sg_created_at = 0, sg_updated_at = 0\<rparr>"

definition sample_db :: db where
  "sample_db = \<lparr>db_alerts = [sample_alert], db_events = [], db_assignments = [sample_assignment],
     db_reminders = [sample_reminder], db_escalations = [sample_task],
     db_strategies = [sample_strategy],
     db_users = [\<lparr>us_username = ''alice'', us_group_list = JList [JInt 1]\<rparr>,
                 \<lparr>us_username = ''bob'', us_group_list = JList [JInt 1]\<rparr>],
     db_email_channel = Some 7, db_logs = [], db_outbox = []\<rparr>"

lemmas sample_defs = chan_def sample_format_def sample_alert_def sample_config_def
  sample_assignment_def sample_layers_def sample_task_def sample_reminder_def
  sample_strategy_def sample_db_def

lemma sample_wf: "wf_db sample_db"
  by (simp add: sample_defs wf_db_def keyed_def)

lemma sample_total: "total_format sample_format"
  by (simp add: sample_defs total_format_def)

end
