(* ===== verification/Escalation.thy ===== *)
theory Escalation
  imports Samples
begin

text \<open>
  The escalation service (\<open>service/escalation_service.py\<close>): parsing of the escalation
  chain of an assignment policy, the effective chain with the initial assignees as its
  first layer, the task that walks along it while the alert stays unclaimed, and the
  periodic scan. Computations that touch the database return the exception or the value
  together with the database they leave.
\<close>

section \<open>The escalation chain\<close>

text \<open>The loop of \<open>parse_escalation_config\<close>; \<open>None\<close> is the early \<open>return None\<close>.\<close>

fun parse_layers :: "json list \<Rightarrow> layer list option res" where
  "parse_layers [] = Inr (Some [])"
| "parse_layers (l # ls) =
     (case jget l ''personnel'' JNull of
        Inl e \<Rightarrow> Inl e
      | Inr p0 \<Rightarrow>
        (case py_or p0 (JList []) of
           JList (x # xs) \<Rightarrow>
             (case jget l ''wait_minutes'' (JInt 0) of
                Inl e \<Rightarrow> Inl e
              | Inr w0 \<Rightarrow>
                (case py_int (py_or w0 (JInt 0)) of
                   Inl _ \<Rightarrow> Inr None
                 | Inr w \<Rightarrow>
                   if w \<le> 0 then Inr None
                   else case dict_fromkeys (x # xs) of
                     Inl e \<Rightarrow> Inl e
                   | Inr ps \<Rightarrow>
                     (case jget l ''notify_channels'' JNull of
                        Inl e \<Rightarrow> Inl e
                      | Inr c \<Rightarrow>
                        (case parse_layers ls of
                           Inr (Some rest) \<Rightarrow>
                             Inr (Some (\<lparr>ly_personnel = ps, ly_wait_minutes = w,
                                         ly_notify_channels = py_or c (JList [])\<rparr> # rest))
                         | r \<Rightarrow> r))))
         | _ \<Rightarrow> Inr None))"

definition VALID_MODES :: "string list" where
  "VALID_MODES = [''append'', ''replace'']"

definition parse_escalation_config :: "json \<Rightarrow> (string \<times> layer list) option res" where
  "parse_escalation_config config =
     (if \<not> truthy config then Inr None
      else case (case config of JObj _ \<Rightarrow> jget config ''escalation'' JNull | _ \<Rightarrow> Inr JNull) of
        Inl e \<Rightarrow> Inl e
      | Inr block \<Rightarrow>
        if \<not> truthy block then Inr None
        else case jget block ''enabled'' JNull of
          Inl e \<Rightarrow> Inl e
        | Inr en \<Rightarrow>
          if \<not> truthy en then Inr None
          else case jget block ''mode'' JNull of
            Inl e \<Rightarrow> Inl e
          | Inr mode \<Rightarrow>
            (case mode of
               JStr m \<Rightarrow>
                 if m \<notin> set VALID_MODES then Inr None
                 else (case jget block ''layers'' JNull of
                   Inl e \<Rightarrow> Inl e
                 | Inr l0 \<Rightarrow>
                   (case py_or l0 (JList []) of
                      JList (x # xs) \<Rightarrow>
                        (case parse_layers (x # xs) of
                           Inl e \<Rightarrow> Inl e
                         | Inr None \<Rightarrow> Inr None
                         | Inr (Some ls) \<Rightarrow> Inr (Some (m, ls)))
                    | _ \<Rightarrow> Inr None))
             | _ \<Rightarrow> Inr None))"

definition compute_roster :: "layer list \<Rightarrow> int \<Rightarrow> string \<Rightarrow> json list res" where
  "compute_roster layers i mode =
     (if mode = ''replace'' then
        (case py_nth layers i of Inl e \<Rightarrow> Inl e | Inr l \<Rightarrow> dict_fromkeys (ly_personnel l))
      else dict_fromkeys (concat (map ly_personnel (py_slice_to layers (i + 1)))))"

text \<open>The layers after the first: each keeps its people and channels and waits as long as
  the next configured layer says; the last one waits 0 minutes.\<close>

fun shift_waits :: "layer list \<Rightarrow> layer list" where
  "shift_waits [] = []"
| "shift_waits [l] = [l\<lparr>ly_wait_minutes := 0, ly_notify_channels := py_or (ly_notify_channels l) (JList [])\<rparr>]"
| "shift_waits (l # l' # ls) =
     l\<lparr>ly_wait_minutes := ly_wait_minutes l', ly_notify_channels := py_or (ly_notify_channels l) (JList [])\<rparr>
     # shift_waits (l' # ls)"

definition build_effective_chain :: "assignment \<Rightarrow> layer list \<Rightarrow> layer list res" where
  "build_effective_chain asg ui =
     (if as_personnel asg = [] then Inr (shift_waits ui)
      else case ui of
        [] \<Rightarrow> Inl IndexError
      | l # _ \<Rightarrow>
          Inr (\<lparr>ly_personnel = as_personnel asg, ly_wait_minutes = ly_wait_minutes l,
                ly_notify_channels = py_or (as_notify_channels asg) (JList [])\<rparr> # shift_waits ui))"

section \<open>Tasks\<close>

text \<open>The people of a layer join the operators of the alert; nobody is removed.\<close>

definition union_into_operator :: "int \<Rightarrow> alert \<Rightarrow> json list \<Rightarrow> db \<Rightarrow> alert res \<times> db" where
  "union_into_operator now a personnel s =
     (case dict_fromkeys (al_operator a @ personnel) of
        Inl e \<Rightarrow> (Inl e, s)
      | Inr merged \<Rightarrow>
          if merged \<noteq> al_operator a then
            let a' = a\<lparr>al_operator := merged, al_updated_at := now\<rparr> in (Inr a', save_alert a' s)
          else (Inr a, s))"

text \<open>\<open>update_or_create\<close> by the alert; the value is the task (if the policy has a chain)
  and the alert object, which the caller goes on using.\<close>

definition create_escalation_task ::
  "int \<Rightarrow> alert \<Rightarrow> assignment \<Rightarrow> db \<Rightarrow> (escalation option \<times> alert) res \<times> db" where
  "create_escalation_task now a asg s =
     (case parse_escalation_config (as_config asg) of
        Inl e \<Rightarrow> (Inl e, s)
      | Inr None \<Rightarrow> (Inr (None, a), s)
      | Inr (Some (mode, ui)) \<Rightarrow>
        (case build_effective_chain asg ui of
           Inl e \<Rightarrow> (Inl e, s)
         | Inr chain \<Rightarrow>
             let task = \<lparr>es_alert = al_pk a, es_assignment = as_id asg, es_is_active = True,
                         es_mode = mode, es_layers = chain, es_index = 0,
                         es_started_at = now, es_updated_at = now\<rparr>;
                 s1 = save_escalation task s
             in case py_nth chain 0 of
                  Inl e \<Rightarrow> (Inl e, s1)
                | Inr l0 \<Rightarrow>
                  (case union_into_operator now a (ly_personnel l0) s1 of
                     (Inl e, s2) \<Rightarrow> (Inl e, s2)
                   | (Inr a', s2) \<Rightarrow> (Inr (Some task, a'), s2))))"

definition stop_escalation_task :: "int \<Rightarrow> alert \<Rightarrow> db \<Rightarrow> bool \<times> db" where
  "stop_escalation_task now a s =
     (let p = (\<lambda>e. es_alert e = al_pk a \<and> es_is_active e) in
      (\<exists>e \<in> set (db_escalations s). p e,
       s\<lparr>db_escalations := tupdate p (\<lambda>e. e\<lparr>es_is_active := False, es_updated_at := now\<rparr>)
                              (db_escalations s)\<rparr>))"

text \<open>Without a policy the existing task's policy is used; the foreign key keeps it in the
  table.\<close>

definition reset_escalation_task ::
  "int \<Rightarrow> alert \<Rightarrow> assignment option \<Rightarrow> db \<Rightarrow> (escalation option \<times> alert) res \<times> db" where
  "reset_escalation_task now a asg s =
     (case asg of
        Some g \<Rightarrow> create_escalation_task now a g s
      | None \<Rightarrow>
        (case find_escalation (al_pk a) s of
           None \<Rightarrow> (Inr (None, a), s)
         | Some e \<Rightarrow>
           (case find_assignment (es_assignment e) s of
              None \<Rightarrow> (Inl DoesNotExist, s)
            | Some g \<Rightarrow> create_escalation_task now a g s)))"

definition reset_reminder_for_new_roster :: "int \<Rightarrow> alert \<Rightarrow> db \<Rightarrow> db" where
  "reset_reminder_for_new_roster now a s =
     (case find_reminder (al_pk a) s of
        None \<Rightarrow> s
      | Some r \<Rightarrow>
          save_reminder (r\<lparr>rm_count := 0, rm_is_active := True, rm_last := None,
                           rm_next := now + minutes (rm_frequency r), rm_updated_at := now\<rparr>) s)"

definition send_escalation_notification ::
  "notify_format \<Rightarrow> alert \<Rightarrow> assignment \<Rightarrow> json list \<Rightarrow> json \<Rightarrow> db \<Rightarrow> bool res \<times> db" where
  "send_escalation_notification nf a asg roster layer_channels s =
     (if al_is_session_alert a \<and> al_session_status a \<noteq> Some S_CONFIRMED then (Inr False, s)
      else if roster = [] then (Inr False, s)
      else
        let channels = py_or (py_or layer_channels (as_notify_channels asg)) (JList []) in
        if \<not> truthy channels then (Inr False, s)
        else case build_channel_params nf roster channels [a] (al_alert_id a) of
          Inl e \<Rightarrow> (Inl e, s)
        | Inr ps \<Rightarrow> (let (b, t) = enqueue_notifications ps s in (Inr b, t)))"

definition advance_layer ::
  "notify_format \<Rightarrow> int \<Rightarrow> escalation \<Rightarrow> alert \<Rightarrow> assignment \<Rightarrow> db \<Rightarrow> bool res \<times> db" where
  "advance_layer nf now task a asg s =
     (let next = es_index task + 1;
          s1 = save_escalation (task\<lparr>es_index := next, es_started_at := now, es_updated_at := now\<rparr>) s
      in case compute_roster (es_layers task) next (es_mode task) of
           Inl e \<Rightarrow> (Inl e, s1)
         | Inr roster \<Rightarrow>
           (case py_nth (es_layers task) next of
              Inl e \<Rightarrow> (Inl e, s1)
            | Inr ly \<Rightarrow>
              (case union_into_operator now a (ly_personnel ly) s1 of
                 (Inl e, s2) \<Rightarrow> (Inl e, s2)
               | (Inr a', s2) \<Rightarrow>
                 (case send_escalation_notification nf a' asg roster
                         (py_or (ly_notify_channels ly) (JList []))
                         (reset_reminder_for_new_roster now a' s2) of
                    (Inl e, s3) \<Rightarrow> (Inl e, s3)
                  | (Inr _, s3) \<Rightarrow> (Inr True, s3)))))"

section \<open>The scan\<close>

text \<open>The body of the transaction for one task that is still active: \<open>True\<close> when the
  alert was escalated.\<close>

definition escalate_due :: "notify_format \<Rightarrow> int \<Rightarrow> escalation \<Rightarrow> db \<Rightarrow> bool res \<times> db" where
  "escalate_due nf now task s =
     (case alert_by_pk (es_alert task) s of
        None \<Rightarrow> (Inl DoesNotExist, s)
      | Some a \<Rightarrow>
        let stop = save_escalation (task\<lparr>es_is_active := False, es_updated_at := now\<rparr>) s in
        if al_status a \<noteq> A_PENDING then (Inr False, stop)
        else case py_nth (es_layers task) (es_index task) of
          Inl e \<Rightarrow> (Inl e, s)
        | Inr ly \<Rightarrow>
            if now < es_started_at task + minutes (ly_wait_minutes ly) then (Inr False, s)
            else if es_index task \<ge> int (length (es_layers task)) - 1 then (Inr False, stop)
            else case find_assignment (es_assignment task) s of
              None \<Rightarrow> (Inl DoesNotExist, s)
            | Some asg \<Rightarrow> advance_layer nf now task a asg s)"

text \<open>One round of the loop. An exception is logged, the transaction is rolled back and
  the loop goes on; the counter of processed tasks was already increased.\<close>

definition escalation_round ::
  "notify_format \<Rightarrow> int \<Rightarrow> nat \<Rightarrow> nat \<times> nat \<times> db \<Rightarrow> nat \<times> nat \<times> db" where
  "escalation_round nf now k st =
     (case st of (processed, escalated, s) \<Rightarrow>
        (case find_escalation k s of
           None \<Rightarrow> (processed, escalated, s)
         | Some task \<Rightarrow>
             if \<not> es_is_active task then (processed, escalated, s)
             else case atomic (escalate_due nf now task) s of
               (Inr True, t) \<Rightarrow> (processed + 1, escalated + 1, t)
             | (_, t) \<Rightarrow> (processed + 1, escalated, t)))"

definition check_and_process_escalations :: "notify_format \<Rightarrow> int \<Rightarrow> db \<Rightarrow> nat \<times> nat \<times> db" where
  "check_and_process_escalations nf now s =
     fold (escalation_round nf now)
       (map es_alert (filter es_is_active (db_escalations s))) (0, 0, s)"

text \<open>The people on duty and the channels of the current layer, for a reminder; \<open>None\<close>
  when no task is active.\<close>

definition active_roster_of :: "escalation option \<Rightarrow> (json list option \<times> json) res" where
  "active_roster_of e =
     (case e of
        None \<Rightarrow> Inr (None, JNull)
      | Some task \<Rightarrow>
          if \<not> es_is_active task then Inr (None, JNull)
          else case compute_roster (es_layers task) (es_index task) (es_mode task) of
            Inl e \<Rightarrow> Inl e
          | Inr roster \<Rightarrow>
            (case py_nth (es_layers task) (es_index task) of
               Inl e \<Rightarrow> Inl e
             | Inr ly \<Rightarrow> Inr (Some roster, py_or (ly_notify_channels ly) JNull)))"

definition active_roster_for_reminder :: "alert \<Rightarrow> db \<Rightarrow> (json list option \<times> json) res" where
  "active_roster_for_reminder a s = active_roster_of (find_escalation (al_pk a) s)"

definition cleanup_expired_escalations :: "int \<Rightarrow> db \<Rightarrow> nat \<times> db" where
  "cleanup_expired_escalations now s =
     (let cutoff = now - days 30;
          old = (\<lambda>e. \<not> es_is_active e \<and> es_updated_at e < cutoff)
      in (length (filter old (db_escalations s)),
          s\<lparr>db_escalations := filter (\<lambda>e. \<not> old e) (db_escalations s)\<rparr>))"

section \<open>Parsing\<close>

definition valid_layer :: "layer \<Rightarrow> bool" where
  "valid_layer l \<longleftrightarrow> 0 < ly_wait_minutes l \<and> ly_personnel l \<noteq> [] \<and>
     list_all hashable (ly_personnel l) \<and> distinct (map py_key (ly_personnel l))"

lemma dict_fromkeys_props:
  "dict_fromkeys xs = Inr ys \<Longrightarrow>
     list_all hashable ys \<and> distinct (map py_key ys) \<and> (xs \<noteq> [] \<longrightarrow> ys \<noteq> []) \<and>
     (\<forall>u. JStr u \<in> set ys \<longleftrightarrow> JStr u \<in> set xs) \<and> set ys \<subseteq> set xs"
  using dedup_on_subset[of py_key xs]
  by (auto simp: dict_fromkeys_def dedup_on_distinct dedup_on_hd dedup_on_str list_all_iff
      split: if_splits)

lemma dict_fromkeys_noop:
  "list_all hashable xs \<Longrightarrow> distinct (map py_key xs) \<Longrightarrow> dict_fromkeys xs = Inr xs"
  by (simp add: dict_fromkeys_def dedup_on_id)

lemma parse_layers_valid:
  "parse_layers js = Inr (Some ls) \<Longrightarrow> length ls = length js \<and> (\<forall>l \<in> set ls. valid_layer l)"
proof (induction js arbitrary: ls rule: parse_layers.induct)
  case (2 l js)
  from 2(2) obtain x xs w0 w ps c rest where
    "py_or (projr (jget l ''personnel'' JNull)) (JList []) = JList (x # xs)"
    and w: "py_int (py_or w0 (JInt 0)) = Inr w" "\<not> w \<le> 0"
    and ps: "dict_fromkeys (x # xs) = Inr ps"
    and rest: "parse_layers js = Inr (Some rest)"
    and ls: "ls = \<lparr>ly_personnel = ps, ly_wait_minutes = w, ly_notify_channels = c\<rparr> # rest"
    by (auto split: sum.splits json.splits list.splits if_splits option.splits)
  have "valid_layer (\<lparr>ly_personnel = ps, ly_wait_minutes = w, ly_notify_channels = c\<rparr>)"
    using dict_fromkeys_props[OF ps] w by (simp add: valid_layer_def)
  moreover have "length rest = length js \<and> (\<forall>l \<in> set rest. valid_layer l)"
    using 2(1) rest w ps 2(2) by (auto split: sum.splits json.splits list.splits if_splits option.splits)
  ultimately show ?case by (simp add: ls)
qed simp

lemma parse_config_valid:
  assumes "parse_escalation_config config = Inr (Some (mode, ls))"
  shows "mode \<in> set VALID_MODES \<and> ls \<noteq> [] \<and> (\<forall>l \<in> set ls. valid_layer l)"
proof -
  from assms obtain x xs where "mode \<in> set VALID_MODES" "parse_layers (x # xs) = Inr (Some ls)"
    unfolding parse_escalation_config_def
    by (auto split: if_splits sum.splits json.splits list.splits option.splits simp del: parse_layers.simps)
  moreover from this(2) have "length ls = length (x # xs) \<and> (\<forall>l \<in> set ls. valid_layer l)"
    by (rule parse_layers_valid)
  ultimately show ?thesis by auto
qed

section \<open>The effective chain\<close>

lemma shift_waits_personnel: "map ly_personnel (shift_waits ls) = map ly_personnel ls"
  by (induction ls rule: shift_waits.induct) simp_all

lemma shift_waits_waits:
  "ls \<noteq> [] \<Longrightarrow> map ly_wait_minutes (shift_waits ls) = tl (map ly_wait_minutes ls) @ [0]"
  by (induction ls rule: shift_waits.induct) simp_all

lemma shift_waits_empty [simp]: "shift_waits ls = [] \<longleftrightarrow> ls = []"
  by (cases ls rule: shift_waits.cases) simp_all

lemma effective_chain_shape:
  assumes "ui \<noteq> []"
  shows "\<exists>chain. build_effective_chain asg ui = Inr chain \<and> chain \<noteq> [] \<and>
    map ly_personnel chain =
       (if as_personnel asg = [] then [] else [as_personnel asg]) @ map ly_personnel ui \<and>
    map ly_wait_minutes chain =
       (if as_personnel asg = [] then tl (map ly_wait_minutes ui) else map ly_wait_minutes ui) @ [0]"
proof (cases "as_personnel asg = []")
  case True
  with assms show ?thesis
    by (simp add: build_effective_chain_def shift_waits_personnel shift_waits_waits)
next
  case False
  from assms obtain l ls where ui: "ui = l # ls" by (cases ui) auto
  have "map ly_personnel (shift_waits ui) = ly_personnel l # map ly_personnel ls"
    "map ly_wait_minutes (shift_waits ui) = map ly_wait_minutes ls @ [0]"
    using ui by (simp_all add: shift_waits_personnel shift_waits_waits)
  with False show ?thesis by (simp add: build_effective_chain_def ui)
qed

section \<open>What the operations keep\<close>

text \<open>Nobody loses the right to claim: the operators only grow.\<close>

definition ops_grow :: "alert \<Rightarrow> alert \<Rightarrow> bool" where
  "ops_grow a b \<longleftrightarrow> (\<forall>u. JStr u \<in> set (al_operator a) \<longrightarrow> JStr u \<in> set (al_operator b))"

lemma union_into_operator_Inr:
  assumes "union_into_operator now a ps s = (Inr b, t)"
  shows "b = a\<lparr>al_operator := al_operator b, al_updated_at := al_updated_at b\<rparr>" "ops_grow a b"
    "\<And>u. JStr u \<in> set ps \<Longrightarrow> JStr u \<in> set (al_operator b)"
    "t = (if b = a then s else save_alert b s) \<or> t = save_alert b s"
proof -
  obtain m where m: "dict_fromkeys (al_operator a @ ps) = Inr m"
    using assms by (auto simp: union_into_operator_def split: sum.splits)
  note p = dict_fromkeys_props[OF m]
  have d: "b = (if m \<noteq> al_operator a then a\<lparr>al_operator := m, al_updated_at := now\<rparr> else a)"
    "t = (if m \<noteq> al_operator a then save_alert b s else s)"
    using assms m by (auto simp: union_into_operator_def Let_def split: if_splits)
  then have "al_operator b = m" by auto
  with p d show "b = a\<lparr>al_operator := al_operator b, al_updated_at := al_updated_at b\<rparr>"
    "ops_grow a b" "\<And>u. JStr u \<in> set ps \<Longrightarrow> JStr u \<in> set (al_operator b)"
    "t = (if b = a then s else save_alert b s) \<or> t = save_alert b s"
    by (auto simp: ops_grow_def split: if_splits)
qed

lemma union_into_operator_Inl: "union_into_operator now a ps s = (Inl e, t) \<Longrightarrow> t = s"
  by (auto simp: union_into_operator_def Let_def split: sum.splits if_splits)

lemma union_into_operator_find:
  assumes "union_into_operator now a ps s = (Inr b, t)" "alert_by_pk (al_pk a) s = Some a"
  shows "alert_by_pk (al_pk a) t = Some b" "only (al_pk a) s t"
    "db_reminders t = db_reminders s" "db_escalations t = db_escalations s"
    "al_pk b = al_pk a"
proof -
  have b: "al_pk b = al_pk a \<and> al_alert_id b = al_alert_id a"
    by (subst union_into_operator_Inr(1)[OF assms(1)], simp) +
  then have "only (al_pk a) s (save_alert b s)" by (intro only_save_alert[OF assms(2)]) auto
  with b union_into_operator_Inr(4)[OF assms(1)] assms(2)
  show "alert_by_pk (al_pk a) t = Some b" "only (al_pk a) s t"
    "db_reminders t = db_reminders s" "db_escalations t = db_escalations s" "al_pk b = al_pk a"
    by (auto simp: row_simps split: if_splits)
qed

lemma reset_reminder_effect:
  "find_reminder j (reset_reminder_for_new_roster now a s) =
     (if j = al_pk a then map_option (\<lambda>r. r\<lparr>rm_count := 0, rm_is_active := True, rm_last := None,
         rm_next := now + minutes (rm_frequency r), rm_updated_at := now\<rparr>) (find_reminder j s)
      else find_reminder j s)"
  by (auto simp: reset_reminder_for_new_roster_def row_simps dest: tfind_key split: option.splits)

lemma reset_reminder_frame [simp]:
  "db_alerts (reset_reminder_for_new_roster now a s) = db_alerts s"
  "db_escalations (reset_reminder_for_new_roster now a s) = db_escalations s"
  "db_assignments (reset_reminder_for_new_roster now a s) = db_assignments s"
  by (auto simp: reset_reminder_for_new_roster_def split: option.splits)

lemma reset_reminder_only:
  "al_pk a \<in> al_pk ` set (db_alerts s) \<Longrightarrow> only (al_pk a) s (reset_reminder_for_new_roster now a s)"
  by (cases "find_reminder (al_pk a) s")
     (auto simp: reset_reminder_for_new_roster_def dest!: tfind_key intro!: only_save_reminder)

lemma send_escalation_effect:
  "send_escalation_notification nf a asg roster chs s = (r, t) \<Longrightarrow>
   t = s \<or> (\<exists>ps. ps \<noteq> [] \<and> t = emit (SyncNotify ps) s)"
  by (auto simp: send_escalation_notification_def enqueue_notifications_def Let_def
      split: if_splits sum.splits)

definition advanced :: "int \<Rightarrow> escalation \<Rightarrow> escalation" where
  "advanced now e = e\<lparr>es_index := es_index e + 1, es_started_at := now, es_updated_at := now\<rparr>"

definition stopped :: "int \<Rightarrow> escalation \<Rightarrow> escalation" where
  "stopped now e = e\<lparr>es_is_active := False, es_updated_at := now\<rparr>"

lemma advance_layer_effect:
  assumes adv: "advance_layer nf now task a asg s = (Inr r, t)"
    and a: "alert_by_pk (es_alert task) s = Some a"
  obtains b ly where "r = True" "only (es_alert task) s t"
    "find_escalation (es_alert task) t = Some (advanced now task)"
    "py_nth (es_layers task) (es_index task + 1) = Inr ly"
    "alert_by_pk (es_alert task) t = Some b" "ops_grow a b"
    "b = a\<lparr>al_operator := al_operator b, al_updated_at := al_updated_at b\<rparr>"
    "\<And>u. JStr u \<in> set (ly_personnel ly) \<Longrightarrow> JStr u \<in> set (al_operator b)"
    "find_reminder (es_alert task) t = map_option (\<lambda>r. r\<lparr>rm_count := 0, rm_is_active := True,
        rm_last := None, rm_next := now + minutes (rm_frequency r), rm_updated_at := now\<rparr>)
        (find_reminder (es_alert task) s)"
proof -
  let ?k = "es_alert task" and ?s1 = "save_escalation (advanced now task) s"
  have pk: "al_pk a = ?k" using a by (rule tfind_key)
  from adv obtain ly b s2 roster chs where
    ly: "py_nth (es_layers task) (es_index task + 1) = Inr ly"
    and un: "union_into_operator now a (ly_personnel ly) ?s1 = (Inr b, s2)"
    and sn: "\<exists>x. send_escalation_notification nf b asg roster chs
                   (reset_reminder_for_new_roster now b s2) = (x, t)"
    and r: "r = True"
    by (auto simp: advance_layer_def advanced_def Let_def split: sum.splits prod.splits) blast
  have a1: "alert_by_pk (al_pk a) ?s1 = Some a" using a pk by simp
  note u = union_into_operator_find[OF un a1] union_into_operator_Inr[OF un]
  have kin: "?k \<in> al_pk ` set (db_alerts s)" using a by (metis tfind_None option.distinct(1))
  have "only ?k s ?s1" by (rule only_save_escalation) (simp_all add: advanced_def kin)
  also have "only ?k ?s1 s2" using u(2) pk by simp
  also have "only ?k s2 (reset_reminder_for_new_roster now b s2)"
    using reset_reminder_only[of b s2 now] u(1,5) pk
    by (metis tfind_None option.distinct(1))
  also have "only ?k (reset_reminder_for_new_roster now b s2) t"
    using sn send_escalation_effect by fastforce
  finally have on: "only ?k s t" .
  have t: "db_alerts t = db_alerts s2" "db_escalations t = db_escalations s2"
    "db_reminders t = db_reminders (reset_reminder_for_new_roster now b s2)"
    using sn send_escalation_effect by fastforce+
  show thesis
  proof (rule that[of ly b])
    show "find_escalation ?k t = Some (advanced now task)"
      using t u(4) by (simp add: row_simps advanced_def)
    show "alert_by_pk ?k t = Some b" using t u(1) pk by simp
    show "find_reminder ?k t = map_option (\<lambda>r. r\<lparr>rm_count := 0, rm_is_active := True,
        rm_last := None, rm_next := now + minutes (rm_frequency r), rm_updated_at := now\<rparr>)
        (find_reminder ?k s)"
      using t u(3,5) pk by (simp add: reset_reminder_effect)
  qed (use r on ly u in auto)
qed

section \<open>The scan as a transition of each task\<close>

text \<open>What one scan may do to the rows of an alert: nothing when there is no active task or
  its layer still waits, stop the task when the alert is no longer pending or the last
  layer's time is over, otherwise go on to the next layer (or leave the rows as they were
  when the round raised and was rolled back).\<close>

definition escalated_view :: "int \<Rightarrow> alert \<Rightarrow> reminder option \<Rightarrow> escalation \<Rightarrow> alert_view \<Rightarrow> bool" where
  "escalated_view now a r task v \<longleftrightarrow>
     (\<exists>b ly. py_nth (es_layers task) (es_index task + 1) = Inr ly \<and> ops_grow a b \<and>
        b = a\<lparr>al_operator := al_operator b, al_updated_at := al_updated_at b\<rparr> \<and>
        (\<forall>u. JStr u \<in> set (ly_personnel ly) \<longrightarrow> JStr u \<in> set (al_operator b)) \<and>
        v = (Some b,
             map_option (\<lambda>r. r\<lparr>rm_count := 0, rm_is_active := True, rm_last := None,
                rm_next := now + minutes (rm_frequency r), rm_updated_at := now\<rparr>) r,
             Some (advanced now task)))"

fun escalation_spec :: "int \<Rightarrow> alert_view \<Rightarrow> alert_view \<Rightarrow> bool" where
  "escalation_spec now (Some a, r, Some task) v =
     (if \<not> es_is_active task then v = (Some a, r, Some task)
      else if al_status a \<noteq> A_PENDING then v = (Some a, r, Some (stopped now task))
      else case py_nth (es_layers task) (es_index task) of
        Inl _ \<Rightarrow> v = (Some a, r, Some task)
      | Inr ly \<Rightarrow>
          if now < es_started_at task + minutes (ly_wait_minutes ly) then v = (Some a, r, Some task)
          else if es_index task \<ge> int (length (es_layers task)) - 1
            then v = (Some a, r, Some (stopped now task))
          else v = (Some a, r, Some task) \<or> escalated_view now a r task v)"
| "escalation_spec now u v = (v = u)"

lemma save_stopped:
  assumes "es_alert task = k" "alert_by_pk k s = Some a"
  shows "only k s (save_escalation (stopped now task) s)"
    "aview k (save_escalation (stopped now task) s) =
       (alert_by_pk k s, find_reminder k s, Some (stopped now task))"
proof -
  have "k \<in> al_pk ` set (db_alerts s)" using assms(2) by (metis tfind_None option.distinct(1))
  then show "only k s (save_escalation (stopped now task) s)"
    using assms by (intro only_save_escalation) (simp_all add: stopped_def)
  show "aview k (save_escalation (stopped now task) s) =
       (alert_by_pk k s, find_reminder k s, Some (stopped now task))"
    using assms by (simp add: aview_def row_simps stopped_def)
qed

lemma advance_escalated:
  assumes "advance_layer nf now task a asg s = (Inr r, t)" "alert_by_pk (es_alert task) s = Some a"
  shows "r = True" "only (es_alert task) s t"
    "escalated_view now a (find_reminder (es_alert task) s) task (aview (es_alert task) t)"
  using assms by - (erule (1) advance_layer_effect, auto simp: escalated_view_def aview_def)+

lemma escalate_due_effect:
  assumes d: "escalate_due nf now task s = (Inr r, t)"
    and e: "find_escalation k s = Some task" "es_is_active task"
  shows "only k s t \<and> escalation_spec now (aview k s) (aview k t)"
proof -
  have k: "es_alert task = k" using e(1) by (rule tfind_key)
  from d k obtain a where a: "alert_by_pk k s = Some a"
    by (cases "alert_by_pk k s") (auto simp: escalate_due_def)
  have v: "aview k s = (Some a, find_reminder k s, Some task)" using a e by (simp add: aview_def)
  show ?thesis
  proof (cases "\<exists>asg. advance_layer nf now task a asg s = (Inr r, t) \<and> al_status a = A_PENDING \<and>
      \<not> es_index task \<ge> int (length (es_layers task)) - 1 \<and>
      (\<exists>ly. py_nth (es_layers task) (es_index task) = Inr ly \<and>
            \<not> now < es_started_at task + minutes (ly_wait_minutes ly))")
    case True
    then show ?thesis using advance_escalated[of nf now task a _ s r t] a k v e(2)
      by auto
  next
    case False
    then show ?thesis
      using d e(2) save_stopped[OF k a, of now] a k v
      by (auto simp: escalate_due_def Let_def stopped_def[symmetric] split: if_splits sum.splits option.splits)
  qed
qed

lemma escalation_spec_refl:
  assumes "find_escalation k s = None \<or> (\<exists>task. find_escalation k s = Some task \<and> \<not> es_is_active task)"
  shows "escalation_spec now (aview k s) (aview k s)"
  using assms by (cases "alert_by_pk k s") (auto simp: aview_def)

lemma escalate_due_raises:
  assumes "escalate_due nf now task s = (Inl x, t)" "find_escalation k s = Some task" "es_is_active task"
  shows "escalation_spec now (aview k s) (aview k s)"
proof -
  have "es_alert task = k" using assms(2) by (rule tfind_key)
  with assms show ?thesis
    by (cases "alert_by_pk k s")
       (auto simp: aview_def escalate_due_def Let_def split: if_splits sum.splits option.splits)
qed

lemma escalation_round_effect:
  "only k (snd (snd st)) (snd (snd (escalation_round nf now k st))) \<and>
   escalation_spec now (aview k (snd (snd st))) (aview k (snd (snd (escalation_round nf now k st))))"
proof -
  obtain p e s where st: "st = (p, e, s)" by (cases st)
  show ?thesis
  proof (cases "\<exists>task. find_escalation k s = Some task \<and> es_is_active task")
    case False
    then have "escalation_round nf now k st = st"
      by (auto simp: escalation_round_def st split: option.splits)
    moreover have "escalation_spec now (aview k s) (aview k s)"
      by (rule escalation_spec_refl) (use False in \<open>cases "find_escalation k s"\<close>, auto)
    ultimately show ?thesis by (simp add: st)
  next
    case True
    then obtain task where task: "find_escalation k s = Some task" "es_is_active task" by blast
    obtain r t where at: "atomic (escalate_due nf now task) s = (r, t)" by fastforce
    then have "snd (snd (escalation_round nf now k st)) = t"
      using task by (auto simp: escalation_round_def st split: sum.splits bool.splits)
    moreover have "only k s t \<and> escalation_spec now (aview k s) (aview k t)"
    proof (cases r)
      case (Inl x)
      then have "t = s" "\<exists>t'. escalate_due nf now task s = (Inl x, t')"
        using at by (auto simp: atomic_def split: prod.splits sum.splits)
      then show ?thesis using escalate_due_raises task by auto
    next
      case (Inr b)
      then show ?thesis using at task by (auto dest: escalate_due_effect)
    qed
    ultimately show ?thesis by (simp add: st)
  qed
qed

interpretation esc_scan: keyed_scan "escalation_round nf now" "\<lambda>k st. aview k (snd (snd st))"
  "\<lambda>st. wf_db (snd (snd st))" "\<lambda>_. escalation_spec now" for nf now
proof
  fix st :: "nat \<times> nat \<times> db" and k j :: nat
  note eff = escalation_round_effect[of k st nf now]
  show "wf_db (snd (snd st)) \<Longrightarrow> wf_db (snd (snd (escalation_round nf now k st)))"
    using eff by (auto dest: onlyD(1))
  show "j \<noteq> k \<Longrightarrow> aview j (snd (snd (escalation_round nf now k st))) = aview j (snd (snd st))"
    using eff by (auto dest: only_aview)
  show "escalation_spec now (aview k (snd (snd st))) (aview k (snd (snd (escalation_round nf now k st))))"
    using eff by blast
qed

lemma active_keys_distinct: "wf_db s \<Longrightarrow> distinct (map es_alert (filter p (db_escalations s)))"
  by (simp add: wf_db_def keyed_def distinct_map_filter)

lemma escalation_scan_effect:
  assumes "wf_db s" "check_and_process_escalations nf now s = (p, e, t)"
  shows "wf_db t \<and> escalation_spec now (aview k s) (aview k t)"
proof -
  let ?ks = "map es_alert (filter es_is_active (db_escalations s))"
  have t: "t = snd (snd (fold (escalation_round nf now) ?ks (0, 0, s)))"
    using assms(2) by (simp add: check_and_process_escalations_def)
  have "wf_db t" unfolding t by (rule esc_scan.scan_inv) (simp add: assms)
  moreover have "escalation_spec now (aview k s) (aview k t)"
  proof (cases "k \<in> set ?ks")
    case True
    then show ?thesis unfolding t
      using esc_scan.scan_rel[of "(0, 0, s)" ?ks k now nf] active_keys_distinct assms(1) by simp
  next
    case False
    then have "aview k t = aview k s" unfolding t
      using esc_scan.scan_frame[of "(0, 0, s)" k ?ks nf now] assms(1) by simp
    moreover have "escalation_spec now (aview k s) (aview k s)"
    proof (rule escalation_spec_refl, cases "find_escalation k s")
      case (Some task)
      then show "find_escalation k s = None \<or> (\<exists>task. find_escalation k s = Some task \<and> \<not> es_is_active task)"
        using False tfind_in[OF Some] tfind_key[OF Some] by auto
    qed simp
    ultimately show ?thesis by simp
  qed
  ultimately show ?thesis by blast
qed

section \<open>A due task is escalated\<close>

text \<open>A task whose policy is active and whose rounds do not raise: its people are hashable values and its
  channels, and those of the policy, are well formed.\<close>

definition runnable :: "escalation \<Rightarrow> assignment \<Rightarrow> alert \<Rightarrow> bool" where
  "runnable task asg a \<longleftrightarrow>
     as_is_active asg \<and> 0 \<le> es_index task \<and> list_all hashable (al_operator a) \<and> good_channels (as_notify_channels asg) \<and>
     list_all (\<lambda>l. list_all hashable (ly_personnel l) \<and> good_channels (ly_notify_channels l)) (es_layers task)"

lemma compute_roster_total:
  assumes "0 \<le> i" "i < int (length layers)"
    "list_all (\<lambda>l. list_all hashable (ly_personnel l)) layers"
  shows "\<exists>ps. compute_roster layers i mode = Inr ps"
proof -
  have "list_all hashable (concat (map ly_personnel (take n layers)))" for n
    using assms(3) by (auto simp: list_all_iff dest: in_set_takeD)
  moreover have "list_all hashable (ly_personnel (layers ! nat i))"
    using assms by (simp add: list_all_length)
  ultimately show ?thesis using assms(1,2)
    by (simp add: compute_roster_def dict_fromkeys_def py_slice_to_def)
qed

lemma send_escalation_total:
  assumes "total_format nf" "good_channels chs" "good_channels (as_notify_channels asg)"
  shows "\<exists>b t. send_escalation_notification nf a asg roster chs s = (Inr b, t)"
proof -
  have "good_channels (py_or (py_or chs (as_notify_channels asg)) (JList []))"
    by (intro good_py_or assms) simp
  from build_params_total[OF assms(1) this, of roster "[a]" "al_alert_id a"]
  obtain ps where
    "build_channel_params nf roster (py_or (py_or chs (as_notify_channels asg)) (JList [])) [a] (al_alert_id a)
       = Inr ps" by blast
  then show ?thesis
    by (auto simp: send_escalation_notification_def Let_def split: prod.split)
qed

lemma advance_layer_total:
  assumes "total_format nf" "runnable task asg a" "es_index task < int (length (es_layers task)) - 1"
  shows "\<exists>t. advance_layer nf now task a asg s = (Inr True, t)"
proof -
  let ?i = "es_index task + 1"
  have i: "0 \<le> ?i" "?i < int (length (es_layers task))" using assms by (auto simp: runnable_def)
  define ly where "ly = es_layers task ! nat ?i"
  have ly: "list_all hashable (ly_personnel ly)" "good_channels (ly_notify_channels ly)"
    using assms(2) i by (auto simp: runnable_def list_all_length ly_def)
  obtain roster where ro: "compute_roster (es_layers task) ?i (es_mode task) = Inr roster"
    using compute_roster_total[OF i, of "es_mode task"] assms(2) by (auto simp: runnable_def list_all_iff)
  have un: "\<exists>b s2. union_into_operator now a (ly_personnel ly) s1 = (Inr b, s2)" for s1
    using assms(2) ly(1) by (auto simp: union_into_operator_def dict_fromkeys_def runnable_def Let_def)
  have gl: "good_channels (py_or (ly_notify_channels ly) (JList []))"
    by (intro good_py_or ly) simp
  have ga: "good_channels (as_notify_channels asg)" using assms(2) by (simp add: runnable_def)
  have sn: "\<exists>x t. send_escalation_notification nf b asg roster (py_or (ly_notify_channels ly) (JList [])) s3
               = (Inr x, t)" for b s3
    by (rule send_escalation_total[OF assms(1) gl ga])
  obtain b s2 where b: "union_into_operator now a (ly_personnel ly)
      (save_escalation (task\<lparr>es_index := ?i, es_started_at := now, es_updated_at := now\<rparr>) s) = (Inr b, s2)"
    using un by blast
  from sn[of b "reset_reminder_for_new_roster now b s2"] show ?thesis
    using i ro b by (auto simp: advance_layer_def Let_def ly_def)
qed

lemma escalate_due_advances:
  assumes "total_format nf" "alert_by_pk (es_alert task) s = Some a" "al_status a = A_PENDING"
    "find_assignment (es_assignment task) s = Some asg" "runnable task asg a"
    "es_index task < int (length (es_layers task)) - 1"
    "es_started_at task + minutes (ly_wait_minutes (es_layers task ! nat (es_index task))) \<le> now"
  shows "\<exists>t. escalate_due nf now task s = (Inr True, t)"
proof -
  have "0 \<le> es_index task" using assms(5) by (simp add: runnable_def)
  then show ?thesis
    using assms advance_layer_total[of nf task asg a now s]
    by (auto simp: escalate_due_def Let_def)
qed

text \<open>The rows of an alert that the next scan must escalate.\<close>

fun escalation_ready :: "int \<Rightarrow> assignment list \<Rightarrow> alert_view \<Rightarrow> bool" where
  "escalation_ready now asgs (Some a, r, Some task) \<longleftrightarrow>
     es_is_active task \<and> al_status a = A_PENDING \<and>
     es_index task < int (length (es_layers task)) - 1 \<and>
     es_started_at task + minutes (ly_wait_minutes (es_layers task ! nat (es_index task))) \<le> now \<and>
     (case tfind as_id (es_assignment task) asgs of None \<Rightarrow> False | Some asg \<Rightarrow> runnable task asg a)"
| "escalation_ready now asgs _ \<longleftrightarrow> False"

fun escalated :: "int \<Rightarrow> alert_view \<Rightarrow> alert_view \<Rightarrow> bool" where
  "escalated now (Some a, r, Some task) v \<longleftrightarrow> escalated_view now a r task v"
| "escalated now _ v \<longleftrightarrow> False"

lemma escalation_round_live:
  assumes nf: "total_format nf" and rd: "escalation_ready now (db_assignments s) (aview k s)"
  shows "escalated now (aview k s) (aview k (snd (snd (escalation_round nf now k (p, e, s)))))"
proof -
  from rd obtain a task asg where a: "alert_by_pk k s = Some a" "al_status a = A_PENDING"
    and task: "find_escalation k s = Some task" "es_is_active task"
      "es_index task < int (length (es_layers task)) - 1"
      "es_started_at task + minutes (ly_wait_minutes (es_layers task ! nat (es_index task))) \<le> now"
    and asg: "find_assignment (es_assignment task) s = Some asg" "runnable task asg a"
    by (cases "(now, db_assignments s, aview k s)" rule: escalation_ready.cases)
       (auto simp: aview_def split: option.splits)
  have k: "es_alert task = k" using task(1) by (rule tfind_key)
  obtain t where adv: "escalate_due nf now task s = (Inr True, t)"
    using escalate_due_advances[OF nf _ a(2) asg(1,2) task(3,4)] a(1) k by auto
  then have "advance_layer nf now task a asg s = (Inr True, t)"
    using a task asg k by (auto simp: escalate_due_def Let_def split: if_splits sum.splits)
  from advance_escalated(3)[OF this] adv show ?thesis
    using a task k by (auto simp: escalation_round_def aview_def atomic_def)
qed

interpretation esc_live: keyed_scan "escalation_round nf now" "\<lambda>k st. aview k (snd (snd st))"
  "\<lambda>st. db_assignments (snd (snd st)) = asgs"
  "\<lambda>_ u v. total_format nf \<and> escalation_ready now asgs u \<longrightarrow> escalated now u v" for nf now asgs
proof
  fix st :: "nat \<times> nat \<times> db" and k j :: nat
  note eff = escalation_round_effect[of k st nf now]
  show "db_assignments (snd (snd st)) = asgs \<Longrightarrow>
      db_assignments (snd (snd (escalation_round nf now k st))) = asgs"
    using eff by (auto dest: onlyD(6))
  show "j \<noteq> k \<Longrightarrow> aview j (snd (snd (escalation_round nf now k st))) = aview j (snd (snd st))"
    using eff by (auto dest: only_aview)
  show "db_assignments (snd (snd st)) = asgs \<Longrightarrow>
      total_format nf \<and> escalation_ready now asgs (aview k (snd (snd st))) \<longrightarrow>
      escalated now (aview k (snd (snd st))) (aview k (snd (snd (escalation_round nf now k st))))"
    using escalation_round_live[of nf now "snd (snd st)" k "fst st" "fst (snd st)"] by auto
qed

lemma escalation_scan_live:
  assumes "wf_db s" "total_format nf" "escalation_ready now (db_assignments s) (aview k s)"
    and t: "check_and_process_escalations nf now s = (p, e, t)"
  shows "escalated now (aview k s) (aview k t)"
proof -
  let ?ks = "map es_alert (filter es_is_active (db_escalations s))"
  from assms(3) obtain task where task: "find_escalation k s = Some task" "es_is_active task"
    by (cases "(now, db_assignments s, aview k s)" rule: escalation_ready.cases) (auto simp: aview_def)
  then have "k \<in> set ?ks" using tfind_in[OF task(1)] tfind_key[OF task(1)] by auto
  moreover have "distinct ?ks" using assms(1) by (rule active_keys_distinct)
  ultimately show ?thesis
    using esc_live.scan_rel[of "(0, 0, s)" "db_assignments s" ?ks k nf now] assms(2,3) t
    by (simp add: check_and_process_escalations_def)
qed

section \<open>Tasks stay inside their chain\<close>

definition wf_task :: "escalation \<Rightarrow> bool" where
  "wf_task e \<longleftrightarrow> es_mode e \<in> set VALID_MODES \<and> 0 \<le> es_index e \<and>
     es_index e < int (length (es_layers e)) \<and>
     (\<forall>i < length (es_layers e). 0 \<le> ly_wait_minutes (es_layers e ! i) \<and>
        (ly_wait_minutes (es_layers e ! i) = 0 \<longleftrightarrow> i = length (es_layers e) - 1))"

text \<open>The number of layers still ahead bounds the escalations to come.\<close>

definition layers_left :: "escalation \<Rightarrow> nat" where
  "layers_left e = (if es_is_active e then nat (int (length (es_layers e)) - es_index e) else 0)"

lemma create_task_wf:
  assumes "create_escalation_task now a asg s = (Inr (Some task, b), t)"
  shows "wf_task task" "es_is_active task" "es_index task = 0" "es_alert task = al_pk a"
    "find_escalation (al_pk a) t = Some task"
proof -
  from assms obtain mode ui chain where
    cfg: "parse_escalation_config (as_config asg) = Inr (Some (mode, ui))"
    and ch: "build_effective_chain asg ui = Inr chain"
    and task: "task = \<lparr>es_alert = al_pk a, es_assignment = as_id asg, es_is_active = True,
       es_mode = mode, es_layers = chain, es_index = 0, es_started_at = now, es_updated_at = now\<rparr>"
    and un: "\<exists>ps. union_into_operator now a ps (save_escalation task s) = (Inr b, t)"
    by (auto simp: create_escalation_task_def Let_def split: sum.splits option.splits prod.splits)
  note v = parse_config_valid[OF cfg]
  from effective_chain_shape[of ui asg] v ch have c: "chain \<noteq> []"
    "map ly_wait_minutes chain =
       (if as_personnel asg = [] then tl (map ly_wait_minutes ui) else map ly_wait_minutes ui) @ [0]"
    by auto
  define ws where "ws = (if as_personnel asg = [] then tl (map ly_wait_minutes ui) else map ly_wait_minutes ui)"
  have pos: "\<forall>w \<in> set ws. 0 < w"
    using v by (cases ui) (auto simp: ws_def valid_layer_def)
  have len: "length chain = length ws + 1" using arg_cong[OF c(2), of length] by (simp add: ws_def)
  have "0 \<le> ly_wait_minutes (chain ! i) \<and> (ly_wait_minutes (chain ! i) = 0 \<longleftrightarrow> i = length chain - 1)"
    if i: "i < length chain" for i
  proof -
    have "ly_wait_minutes (chain ! i) = (ws @ [0]) ! i"
      using arg_cong[OF c(2)[folded ws_def], of "\<lambda>x. x ! i"] i by simp
    moreover have "i < length ws \<Longrightarrow> 0 < ws ! i" using pos by simp
    ultimately show ?thesis using i len by (cases "i < length ws") (simp_all add: nth_append)
  qed
  with v c show "wf_task task" by (simp add: task wf_task_def)
  show "es_is_active task" "es_index task = 0" "es_alert task = al_pk a" by (simp_all add: task)
  from un obtain ps where "union_into_operator now a ps (save_escalation task s) = (Inr b, t)" ..
  from union_into_operator_Inr(4)[OF this]
  have "db_escalations t = db_escalations (save_escalation task s)" by (auto split: if_splits)
  then show "find_escalation (al_pk a) t = Some task" by (simp add: row_simps task)
qed

lemma task_moves:
  assumes "wf_task task"
  shows "wf_task (stopped now task)" "layers_left (stopped now task) \<le> layers_left task"
    "es_index task < int (length (es_layers task)) - 1 \<Longrightarrow> wf_task (advanced now task)"
    "es_index task < int (length (es_layers task)) - 1 \<Longrightarrow>
       layers_left (advanced now task) \<le> layers_left task"
    "es_index (stopped now task) = es_index task" "es_index (advanced now task) = es_index task + 1"
  using assms by (simp_all add: wf_task_def layers_left_def stopped_def advanced_def nat_mono)

lemma escalation_spec_task:
  assumes "escalation_spec now (a, r, Some task) (a', r', e')" "wf_task task"
  obtains task' where "e' = Some task'" "wf_task task'" "layers_left task' \<le> layers_left task"
    "es_index task \<le> es_index task'" "es_index task' \<le> es_index task + 1"
proof (cases a)
  case None
  then show thesis using assms that by auto
next
  case (Some al)
  then consider "e' = Some task" | "e' = Some (stopped now task)"
    | "e' = Some (advanced now task)" "es_index task < int (length (es_layers task)) - 1"
    using assms by (auto simp: escalated_view_def split: if_splits sum.splits)
  then show thesis
    using that assms(2) task_moves[OF assms(2), of now] by cases simp_all
qed

section \<open>Properties\<close>

text \<open>C4: a valid escalation configuration yields a chain that starts with the assignees
  of the policy (if there are any) followed by the configured layers; every layer waits for
  the positive time its successor asks for, and only the last one waits 0 minutes.\<close>

theorem effective_chain_correct:
  assumes "parse_escalation_config (as_config asg) = Inr (Some (mode, ui))"
  shows "mode \<in> set VALID_MODES \<and> ui \<noteq> [] \<and> (\<forall>l \<in> set ui. valid_layer l) \<and>
    (\<exists>chain. build_effective_chain asg ui = Inr chain \<and>
       map ly_personnel chain =
         (if as_personnel asg = [] then [] else [as_personnel asg]) @ map ly_personnel ui \<and>
       map ly_wait_minutes chain =
         (if as_personnel asg = [] then tl (map ly_wait_minutes ui) else map ly_wait_minutes ui) @ [0])"
  using parse_config_valid[OF assms] effective_chain_shape[of ui asg] by blast

theorem effective_chain_witness:
  "parse_escalation_config sample_config =
     Inr (Some (''append'',
       [\<lparr>ly_personnel = [JStr ''bob''], ly_wait_minutes = 10, ly_notify_channels = JList []\<rparr>,
        \<lparr>ly_personnel = [JStr ''carol''], ly_wait_minutes = 20, ly_notify_channels = JList []\<rparr>])) \<and>
   ''append'' \<in> set VALID_MODES"
proof -
  have c: "parse_escalation_config (as_config sample_assignment) =
     Inr (Some (''append'',
       [\<lparr>ly_personnel = [JStr ''bob''], ly_wait_minutes = 10, ly_notify_channels = JList []\<rparr>,
        \<lparr>ly_personnel = [JStr ''carol''], ly_wait_minutes = 20, ly_notify_channels = JList []\<rparr>]))"
    by code_simp
  from effective_chain_correct[OF c] c show ?thesis by (simp add: sample_assignment_def)
qed

text \<open>C1: one run of \<open>check_and_process_escalations\<close> keeps the database well formed and does
  to the rows of every alert exactly what the transition \<open>escalation_spec\<close> allows: a task is
  left alone before its deadline, stopped when its alert is no longer pending or its last
  layer is over, and otherwise moved on by one layer, with the people of that layer added to
  the operators and the reminder restarted, or not changed at all (rollback).\<close>

theorem escalation_scan_refines:
  assumes "wf_db s" "check_and_process_escalations nf now s = (p, e, t)"
  shows "wf_db t \<and> (\<forall>k. escalation_spec now (aview k s) (aview k t))"
  using escalation_scan_effect[OF assms] by blast

theorem escalation_scan_refines_witness:
  "wf_db (snd (snd (check_and_process_escalations sample_format (minutes 11) sample_db)))"
  using escalation_scan_refines[OF sample_wf, of sample_format "minutes 11"]
  by (metis prod.collapse)

text \<open>C2: a pending alert of an active policy, with well-formed rosters and channels, whose current layer has
  waited long enough is escalated by the next scan, whatever the other tasks do: the index grows by one,
  the people of the next layer become operators, nobody is removed, the reminder counter restarts.\<close>

theorem escalation_scan_progress:
  assumes "wf_db s" "total_format nf" "escalation_ready now (db_assignments s) (aview k s)"
    and "check_and_process_escalations nf now s = (p, e, t)"
  shows "\<exists>a r task. aview k s = (Some a, r, Some task) \<and> escalated_view now a r task (aview k t)"
  using escalation_scan_live[OF assms]
  by (cases "(now, aview k s, aview k t)" rule: escalated.cases) auto

theorem escalation_scan_progress_witness:
  "\<exists>a r task. aview 1 sample_db = (Some a, r, Some task) \<and>
     escalated_view (minutes 11) a r task
       (aview 1 (snd (snd (check_and_process_escalations sample_format (minutes 11) sample_db))))"
proof -
  have "escalation_ready (minutes 11) (db_assignments sample_db) (aview 1 sample_db)"
    by code_simp
  from escalation_scan_progress[OF sample_wf sample_total this] show ?thesis
    by (metis prod.collapse)
qed

text \<open>The scan does not ask whether the policy is active: disabling it does not stop the escalation.\<close>

definition sample_disabled :: db where
  "sample_disabled = sample_db\<lparr>db_assignments := [sample_assignment\<lparr>as_is_active := False\<rparr>]\<rparr>"

lemma disabled_policy_escalates:
  "map_option es_index (find_escalation 1 (snd (snd (check_and_process_escalations sample_format (minutes 11) sample_disabled)))) = Some 1"
  by code_simp

text \<open>C3: the index of a task never leaves its chain: a created task starts at layer 0 with a
  valid mode and chain, every scan keeps it inside the chain and raises it by at most one,
  and the number of layers left never grows, so a task escalates finitely often.\<close>

theorem escalation_index_bounds:
  assumes "wf_db s" "find_escalation k s = Some task" "wf_task task"
    "check_and_process_escalations nf now s = (p, e, t)"
  shows "\<exists>task'. find_escalation k t = Some task' \<and> wf_task task' \<and>
    es_index task \<le> es_index task' \<and> es_index task' \<le> es_index task + 1 \<and>
    layers_left task' \<le> layers_left task"
proof -
  have "escalation_spec now (alert_by_pk k s, find_reminder k s, Some task)
          (alert_by_pk k t, find_reminder k t, find_escalation k t)"
    using escalation_scan_effect[OF assms(1,4), of k] assms(2) by (simp add: aview_def)
  from escalation_spec_task[OF this assms(3)] show ?thesis by metis
qed

theorem escalation_index_bounds_witness:
  "\<exists>task'. find_escalation 1
      (snd (snd (check_and_process_escalations sample_format (minutes 11) sample_db))) = Some task' \<and>
     wf_task task' \<and> es_index task' \<le> 1"
proof -
  have f: "find_escalation 1 sample_db = Some sample_task"
    by (simp add: sample_db_def tfind_def sample_task_def)
  have w: "wf_task sample_task"
    by (auto simp: wf_task_def sample_defs VALID_MODES_def less_Suc_eq numeral_3_eq_3)
  obtain p e t where t: "check_and_process_escalations sample_format (minutes 11) sample_db = (p, e, t)"
    by (metis prod.collapse)
  from escalation_index_bounds[OF sample_wf f w t] t show ?thesis
    by (auto simp: sample_task_def)
qed

end
