(* ===== verification/Reminder.thy ===== *)
theory Reminder
  imports Escalation
begin

text \<open>
  The reminder service (\<open>service/reminder_service.py\<close>) and its caller in
  \<open>views/assignment_shield.py\<close>: the limits read from a policy, the task that repeats the
  notification of an unclaimed alert, and the periodic scan that sends due reminders and
  advances a task only after its message was queued. The message broker is a parameter:
  it says for which alert the message is accepted.
\<close>

section \<open>Limits and frequencies\<close>

definition DEFAULT_MAX_REMINDERS :: int where
  "DEFAULT_MAX_REMINDERS = 10"

definition parse_max_count :: "json \<Rightarrow> int" where
  "parse_max_count raw =
     (if none_or_empty raw then DEFAULT_MAX_REMINDERS
      else case py_int raw of
        Inl _ \<Rightarrow> DEFAULT_MAX_REMINDERS
      | Inr n \<Rightarrow> if n < 0 then DEFAULT_MAX_REMINDERS else n)"

text \<open>0 stands for no limit.\<close>

definition get_effective_max_reminders :: "reminder \<Rightarrow> assignment \<Rightarrow> alert \<Rightarrow> int res" where
  "get_effective_max_reminders r asg a =
     (let own = (if rm_max r < 0 then DEFAULT_MAX_REMINDERS else rm_max r) in
      case jget (py_or (as_notification_frequency asg) (JObj [])) (al_level a) (JObj []) of
        Inl e \<Rightarrow> Inl e
      | Inr cfg \<Rightarrow>
          if truthy cfg then
            (case jget cfg ''max_count'' JNull of
               Inl e \<Rightarrow> Inl e
             | Inr raw \<Rightarrow> if parse_max_count raw = 0 then Inr 0 else Inr own)
          else Inr own)"

definition normalize_frequency_config :: "json \<Rightarrow> (int \<times> int) option res" where
  "normalize_frequency_config cfg =
     (if \<not> truthy cfg then Inr None
      else case jget cfg ''interval_minutes'' (JInt 0) of
        Inl e \<Rightarrow> Inl e
      | Inr i0 \<Rightarrow>
        (case py_int (py_or i0 (JInt 0)) of
           Inl e \<Rightarrow> Inl e
         | Inr i \<Rightarrow>
             if i \<le> 0 then Inr None
             else case jget cfg ''max_count'' (JInt DEFAULT_MAX_REMINDERS) of
               Inl e \<Rightarrow> Inl e
             | Inr raw \<Rightarrow> Inr (Some (i, parse_max_count raw))))"

section \<open>Creating, stopping and updating tasks\<close>

text \<open>Every exception is logged and turned into \<open>None\<close>; all of them are raised before the
  first write.\<close>

definition create_reminder_task :: "int \<Rightarrow> alert \<Rightarrow> assignment \<Rightarrow> db \<Rightarrow> reminder option \<times> db" where
  "create_reminder_task now a asg s =
     (case jget (as_notification_frequency asg) (al_level a) (JObj []) of
        Inl _ \<Rightarrow> (None, s)
      | Inr cfg \<Rightarrow>
        (case normalize_frequency_config cfg of
           Inl _ \<Rightarrow> (None, s)
         | Inr None \<Rightarrow> (None, s)
         | Inr (Some (interval, max_count)) \<Rightarrow>
           (case find_reminder (al_pk a) s of
              Some r \<Rightarrow>
                if rm_is_active r then (Some r, s)
                else let r' = r\<lparr>rm_assignment := as_id asg, rm_is_active := True,
                               rm_frequency := interval, rm_max := max_count, rm_count := 0,
                               rm_last := None, rm_next := now + minutes interval,
                               rm_updated_at := now\<rparr>
                     in (Some r', save_reminder r' s)
            | None \<Rightarrow>
                let r' = \<lparr>rm_alert = al_pk a, rm_assignment = as_id asg, rm_is_active = True,
                          rm_count = 0, rm_frequency = interval, rm_max = max_count,
                          rm_next = now + minutes interval, rm_last = None, rm_updated_at = now\<rparr>
                in (Some r', save_reminder r' s))))"

text \<open>The policy is the argument, else the active policy with the given id, else the one of
  the existing task. An id that is no number makes the query raise.\<close>

definition ensure_reminder_task ::
  "int \<Rightarrow> alert \<Rightarrow> assignment option \<Rightarrow> json \<Rightarrow> db \<Rightarrow> reminder option \<times> db" where
  "ensure_reminder_task now a asg asg_id s =
     (let by_id = (if asg = None \<and> truthy asg_id then
                     (case py_int asg_id of
                        Inl e \<Rightarrow> Inl e
                      | Inr i \<Rightarrow> (case find_assignment i s of
                            Some g \<Rightarrow> if as_is_active g then Inr (Some g) else Inr None
                          | None \<Rightarrow> Inr None))
                   else Inr asg)
      in case by_id of
           Inl _ \<Rightarrow> (None, s)
         | Inr g0 \<Rightarrow>
             let g1 = (case g0 of
                         Some g \<Rightarrow> Some g
                       | None \<Rightarrow> (case find_reminder (al_pk a) s of
                             None \<Rightarrow> None
                           | Some r \<Rightarrow> find_assignment (rm_assignment r) s))
             in case g1 of
                  None \<Rightarrow> (None, s)
                | Some g \<Rightarrow> if as_is_active g then create_reminder_task now a g s else (None, s))"

text \<open>\<open>filter(...).update(is_active=False)\<close> writes that column only.\<close>

definition stop_reminder_task :: "alert \<Rightarrow> db \<Rightarrow> bool \<times> db" where
  "stop_reminder_task a s =
     (let p = (\<lambda>r. rm_alert r = al_pk a \<and> rm_is_active r) in
      (\<exists>r \<in> set (db_reminders s). p r,
       s\<lparr>db_reminders := tupdate p (\<lambda>r. r\<lparr>rm_is_active := False\<rparr>) (db_reminders s)\<rparr>))"

definition update_reminder_task :: "int \<Rightarrow> reminder \<Rightarrow> int \<Rightarrow> json \<Rightarrow> db \<Rightarrow> bool \<times> db" where
  "update_reminder_task now r new_frequency new_max_count s =
     (case py_num new_max_count of
        Inl _ \<Rightarrow> (False, s)
      | Inr m \<Rightarrow>
          let next' =
                (if rm_frequency r \<noteq> new_frequency \<and> rm_next r > now then
                   let since_last = (case rm_last r of Some l \<Rightarrow> now - l | None \<Rightarrow> 0);
                       remaining = minutes new_frequency - since_last
                   in if remaining > 0 then now + remaining else now
                 else rm_next r)
          in (True, save_reminder (r\<lparr>rm_frequency := new_frequency,
                                     rm_max := (if m \<ge> 0 then m else DEFAULT_MAX_REMINDERS),
                                     rm_next := next', rm_updated_at := now\<rparr>) s))"

text \<open>The loop of \<open>_update_related_reminders\<close> after a policy was saved: an exception ends it
  and is raised again.\<close>

fun update_related :: "int \<Rightarrow> assignment \<Rightarrow> reminder list \<Rightarrow> db \<Rightarrow> unit res \<times> db" where
  "update_related now asg [] s = (Inr (), s)"
| "update_related now asg (r # rs) s =
     (case alert_by_pk (rm_alert r) s of
        None \<Rightarrow> (Inl DoesNotExist, s)
      | Some a \<Rightarrow>
        (case jget (as_notification_frequency asg) (al_level a) (JObj []) of
           Inl e \<Rightarrow> (Inl e, s)
         | Inr cfg \<Rightarrow>
             if \<not> truthy cfg then update_related now asg rs (snd (stop_reminder_task a s))
             else (case jget cfg ''interval_minutes'' (JInt 0) of
               Inl e \<Rightarrow> (Inl e, s)
             | Inr i0 \<Rightarrow>
               (case py_num i0 of
                  Inl e \<Rightarrow> (Inl e, s)
                | Inr i \<Rightarrow>
                    if i \<le> 0 then update_related now asg rs (snd (stop_reminder_task a s))
                    else (case jget cfg ''max_count'' (JInt 10) of
                      Inl e \<Rightarrow> (Inl e, s)
                    | Inr m \<Rightarrow> update_related now asg rs (snd (update_reminder_task now r i m s)))))))"

definition update_related_reminders :: "int \<Rightarrow> assignment \<Rightarrow> db \<Rightarrow> unit res \<times> db" where
  "update_related_reminders now asg s =
     update_related now asg
       (filter (\<lambda>r. rm_assignment r = as_id asg \<and> rm_is_active r) (db_reminders s)) s"

section \<open>Sending\<close>

text \<open>The message of \<open>_send_reminder_notification\<close>; \<open>None\<close> when there is nothing to send or
  an exception was caught. The first argument is the result of
  \<open>active_roster_for_reminder\<close>.\<close>

definition reminder_message ::
  "notify_format \<Rightarrow> (json list option \<times> json) res \<Rightarrow> assignment \<Rightarrow> alert \<Rightarrow> nparam list option" where
  "reminder_message nf duty asg a =
     (if al_is_session_alert a \<and> al_session_status a \<noteq> Some S_CONFIRMED then None
      else case duty of
        Inl _ \<Rightarrow> None
      | Inr (roster, layer_channels) \<Rightarrow>
          let users = (case roster of Some us \<Rightarrow> us | None \<Rightarrow> as_personnel asg);
              ch0 = (if truthy layer_channels then layer_channels else as_notify_channels asg);
              ch = (case ch0 of
                      JStr txt \<Rightarrow> (case nf_json_loads nf txt of Some j \<Rightarrow> j | None \<Rightarrow> JList [])
                    | _ \<Rightarrow> ch0)
          in if users = [] \<or> \<not> truthy ch then None
             else case build_channel_params nf users ch [a] (al_alert_id a) of
               Inl _ \<Rightarrow> None
             | Inr ps \<Rightarrow> Some ps)"

text \<open>\<open>_advance_reminder_after_enqueue\<close>: a transaction of its own; exceptions give \<open>False\<close>.\<close>

definition advance_reminder_after_enqueue :: "int \<Rightarrow> nat \<Rightarrow> db \<Rightarrow> bool \<times> db" where
  "advance_reminder_after_enqueue now k s =
     (case find_reminder k s of
        None \<Rightarrow> (False, s)
      | Some r \<Rightarrow>
        if \<not> rm_is_active r then (True, s)
        else case (alert_by_pk k s, find_assignment (rm_assignment r) s) of
          (Some a, Some asg) \<Rightarrow>
            let off = save_reminder (r\<lparr>rm_is_active := False, rm_updated_at := now\<rparr>) s in
            if al_status a \<noteq> A_PENDING then (True, off)
            else (case get_effective_max_reminders r asg a of
              Inl _ \<Rightarrow> (False, s)
            | Inr m \<Rightarrow>
                if m > 0 \<and> rm_count r \<ge> m then (True, off)
                else
                  let r1 = r\<lparr>rm_count := rm_count r + 1, rm_last := Some now, rm_updated_at := now\<rparr>;
                      r2 = (if m \<le> 0 \<or> rm_count r1 < m
                            then r1\<lparr>rm_next := now + minutes (rm_frequency r)\<rparr>
                            else r1\<lparr>rm_is_active := False\<rparr>)
                  in (True, save_reminder r2 s))
        | _ \<Rightarrow> (False, s))"

text \<open>The callback \<open>enqueue_and_mark\<close>: a message the broker refuses leaves the task as it is.\<close>

definition enqueue_and_mark :: "bool \<Rightarrow> int \<Rightarrow> nat \<Rightarrow> nparam list \<Rightarrow> db \<Rightarrow> bool \<times> db" where
  "enqueue_and_mark accepted now k ps s =
     (if accepted then advance_reminder_after_enqueue now k (emit (SyncNotify ps) s) else (False, s))"

section \<open>The scan\<close>

text \<open>One reminder of the scan. The message is sent by the on-commit callback of this
  reminder's transaction; the success counter was increased when it was registered.\<close>

definition reminder_round ::
  "notify_format \<Rightarrow> (nat \<Rightarrow> bool) \<Rightarrow> int \<Rightarrow> nat \<Rightarrow> nat \<times> nat \<times> db \<Rightarrow> nat \<times> nat \<times> db" where
  "reminder_round nf broker now k st =
     (case st of (processed, success, s) \<Rightarrow>
        (case find_reminder k s of
           None \<Rightarrow> (processed, success, s)
         | Some r \<Rightarrow>
             if \<not> rm_is_active r \<or> rm_next r > now then (processed, success, s)
             else case (alert_by_pk k s, find_assignment (rm_assignment r) s) of
               (Some a, Some asg) \<Rightarrow>
                 let off = save_reminder (r\<lparr>rm_is_active := False, rm_updated_at := now\<rparr>) s in
                 if al_status a \<noteq> A_PENDING then (processed + 1, success, off)
                 else (case get_effective_max_reminders r asg a of
                   Inl _ \<Rightarrow> (processed + 1, success, s)
                 | Inr m \<Rightarrow>
                     if m > 0 \<and> rm_count r \<ge> m then (processed + 1, success, off)
                     else (case reminder_message nf (active_roster_for_reminder a s) asg a of
                       None \<Rightarrow> (processed + 1, success, s)
                     | Some ps \<Rightarrow>
                         (processed + 1, success + 1, snd (enqueue_and_mark (broker k) now k ps s))))
             | _ \<Rightarrow> (processed, success, s)))"

definition check_and_process_reminders ::
  "notify_format \<Rightarrow> (nat \<Rightarrow> bool) \<Rightarrow> int \<Rightarrow> db \<Rightarrow> nat \<times> nat \<times> db" where
  "check_and_process_reminders nf broker now s =
     fold (reminder_round nf broker now)
       (map rm_alert (filter (\<lambda>r. rm_is_active r \<and> rm_next r \<le> now) (db_reminders s))) (0, 0, s)"

definition cleanup_expired_reminders :: "int \<Rightarrow> db \<Rightarrow> nat \<times> db" where
  "cleanup_expired_reminders now s =
     (let old = (\<lambda>r. \<not> rm_is_active r \<and> rm_updated_at r < now - days 30)
      in (length (filter old (db_reminders s)),
          s\<lparr>db_reminders := filter (\<lambda>r. \<not> old r) (db_reminders s)\<rparr>))"

section \<open>The scan as a function of the rows of one alert\<close>

definition switched_off :: "int \<Rightarrow> reminder \<Rightarrow> reminder" where
  "switched_off now r = r\<lparr>rm_is_active := False, rm_updated_at := now\<rparr>"

text \<open>The task after a queued message, for the limit \<open>m\<close>.\<close>

definition reminded :: "int \<Rightarrow> int \<Rightarrow> reminder \<Rightarrow> reminder" where
  "reminded now m r =
     (let r1 = r\<lparr>rm_count := rm_count r + 1, rm_last := Some now, rm_updated_at := now\<rparr>
      in if m \<le> 0 \<or> rm_count r + 1 < m then r1\<lparr>rm_next := now + minutes (rm_frequency r)\<rparr>
         else r1\<lparr>rm_is_active := False\<rparr>)"

text \<open>The abstract scan: the new task as a function of the rows of its alert, the policies
  and the broker's answer.\<close>

fun reminder_next ::
  "notify_format \<Rightarrow> bool \<Rightarrow> int \<Rightarrow> assignment list \<Rightarrow> alert_view \<Rightarrow> alert_view" where
  "reminder_next nf accepted now asgs (Some a, Some r, e) =
     (if \<not> rm_is_active r \<or> rm_next r > now then (Some a, Some r, e)
      else case tfind as_id (rm_assignment r) asgs of
        None \<Rightarrow> (Some a, Some r, e)
      | Some asg \<Rightarrow>
          if al_status a \<noteq> A_PENDING then (Some a, Some (switched_off now r), e)
          else case get_effective_max_reminders r asg a of
            Inl _ \<Rightarrow> (Some a, Some r, e)
          | Inr m \<Rightarrow>
              if m > 0 \<and> rm_count r \<ge> m then (Some a, Some (switched_off now r), e)
              else if reminder_message nf (active_roster_of e) asg a \<noteq> None \<and> accepted
                then (Some a, Some (reminded now m r), e)
              else (Some a, Some r, e))"
| "reminder_next nf accepted now asgs v = v"

lemma reminder_next_alert: "fst (reminder_next nf b now asgs v) = fst v"
  by (cases "(nf, b, now, asgs, v)" rule: reminder_next.cases)
    (simp_all add: Let_def split: option.split sum.split)

lemma advance_reminder_eq:
  assumes "find_reminder k s = Some r" "rm_is_active r" "alert_by_pk k s = Some a"
    "al_status a = A_PENDING" "find_assignment (rm_assignment r) s = Some asg"
    "get_effective_max_reminders r asg a = Inr m" "\<not> (m > 0 \<and> rm_count r \<ge> m)"
  shows "advance_reminder_after_enqueue now k (emit x s) =
    (True, save_reminder (reminded now m r) (emit x s))"
  using assms by (auto simp: advance_reminder_after_enqueue_def reminded_def Let_def)

lemma save_reminder_view:
  assumes "find_reminder k s = Some r" "rm_alert r' = rm_alert r" "alert_by_pk k s = Some a"
  shows "only k s (save_reminder r' s)"
    "aview k (save_reminder r' s) = (alert_by_pk k s, Some r', find_escalation k s)"
proof -
  have k: "rm_alert r' = k" using assms by (metis tfind_key)
  moreover have "k \<in> al_pk ` set (db_alerts s)" using assms(3) by (metis tfind_None option.distinct(1))
  ultimately show "only k s (save_reminder r' s)" by (intro only_save_reminder)
  show "aview k (save_reminder r' s) = (alert_by_pk k s, Some r', find_escalation k s)"
    using k by (simp add: aview_def row_simps)
qed

lemma emit_view [simp]: "aview k (emit x s) = aview k s"
  by (simp add: aview_def)

lemma reminder_alert_kept [simp]:
  "rm_alert (reminded now m r) = rm_alert r" "rm_alert (switched_off now r) = rm_alert r"
  by (simp_all add: reminded_def switched_off_def Let_def)

lemma reminder_round_effect:
  "only k (snd (snd st)) (snd (snd (reminder_round nf broker now k st))) \<and>
   aview k (snd (snd (reminder_round nf broker now k st))) =
     reminder_next nf (broker k) now (db_assignments (snd (snd st))) (aview k (snd (snd st)))"
proof -
  obtain p c s where st: "st = (p, c, s)" by (cases st)
  show ?thesis
  proof (cases "\<exists>r a asg. find_reminder k s = Some r \<and> rm_is_active r \<and> \<not> rm_next r > now \<and>
      alert_by_pk k s = Some a \<and> find_assignment (rm_assignment r) s = Some asg")
    case False
    then have "reminder_round nf broker now k st = st"
      by (auto simp: reminder_round_def st split: option.splits)
    moreover have "reminder_next nf (broker k) now (db_assignments s) (aview k s) = aview k s"
      using False by (cases "(nf, broker k, now, db_assignments s, aview k s)" rule: reminder_next.cases)
        (auto simp: aview_def split: option.splits)
    ultimately show ?thesis by (simp add: st)
  next
    case True
    then obtain r a asg where r: "find_reminder k s = Some r" "rm_is_active r" "\<not> rm_next r > now"
      and a: "alert_by_pk k s = Some a" and g: "find_assignment (rm_assignment r) s = Some asg"
      by blast
    have pk: "al_pk a = k" using a by (rule tfind_key)
    note off = save_reminder_view[OF r(1) reminder_alert_kept(2) a]
    have e: "find_reminder k (emit x s) = Some r" "alert_by_pk k (emit x s) = Some a" for x
      using r a by simp_all
    note sent = save_reminder_view[OF e(1) reminder_alert_kept(1) e(2)]
    note adv = advance_reminder_eq[OF r(1,2) a _ g]
    have v: "aview k s = (Some a, Some r, find_escalation k s)" using r a by (simp add: aview_def)
    show ?thesis
    proof (cases "al_status a = A_PENDING")
      case False
      then show ?thesis using r a g off v by (simp add: reminder_round_def st switched_off_def[symmetric])
    next
      case p: True
      show ?thesis
      proof (cases "get_effective_max_reminders r asg a")
        case (Inl x)
        then show ?thesis using r a g v p by (simp add: reminder_round_def st)
      next
        case (Inr m)
        then show ?thesis
          using r a g v p pk off adv[OF p Inr] sent only_trans[OF only_emit sent(1)]
          by (auto simp: reminder_round_def st switched_off_def[symmetric] enqueue_and_mark_def
              active_roster_for_reminder_def Let_def split: option.split)
      qed
    qed
  qed
qed

interpretation rem_scan: keyed_scan "reminder_round nf broker now" "\<lambda>k st. aview k (snd (snd st))"
  "\<lambda>st. wf_db (snd (snd st)) \<and> db_assignments (snd (snd st)) = asgs"
  "\<lambda>k u v. v = reminder_next nf (broker k) now asgs u" for nf broker now asgs
proof
  fix st :: "nat \<times> nat \<times> db" and k j :: nat
  note eff = reminder_round_effect[of k st nf broker now]
  show "wf_db (snd (snd st)) \<and> db_assignments (snd (snd st)) = asgs \<Longrightarrow>
      wf_db (snd (snd (reminder_round nf broker now k st))) \<and>
      db_assignments (snd (snd (reminder_round nf broker now k st))) = asgs"
    using eff by (auto dest: onlyD(1,6))
  show "j \<noteq> k \<Longrightarrow> aview j (snd (snd (reminder_round nf broker now k st))) = aview j (snd (snd st))"
    using eff by (auto dest: only_aview)
  show "wf_db (snd (snd st)) \<and> db_assignments (snd (snd st)) = asgs \<Longrightarrow>
      aview k (snd (snd (reminder_round nf broker now k st))) =
        reminder_next nf (broker k) now asgs (aview k (snd (snd st)))"
    using eff by simp
qed

lemma reminder_scan_effect:
  assumes "wf_db s" "check_and_process_reminders nf broker now s = (p, c, t)"
  shows "wf_db t" "db_assignments t = db_assignments s"
    "aview k t = reminder_next nf (broker k) now (db_assignments s) (aview k s)"
proof -
  let ?ks = "map rm_alert (filter (\<lambda>r. rm_is_active r \<and> rm_next r \<le> now) (db_reminders s))"
  have t: "t = snd (snd (fold (reminder_round nf broker now) ?ks (0, 0, s)))"
    using assms(2) by (simp add: check_and_process_reminders_def)
  have i: "wf_db (snd (snd (0::nat, 0::nat, s))) \<and> db_assignments (snd (snd (0::nat, 0::nat, s))) = db_assignments s"
    using assms(1) by simp
  show "wf_db t" "db_assignments t = db_assignments s"
    unfolding t using rem_scan.scan_inv[OF i] by blast+
  show "aview k t = reminder_next nf (broker k) now (db_assignments s) (aview k s)"
  proof (cases "k \<in> set ?ks")
    case True
    moreover have "distinct ?ks" using assms(1) by (simp add: wf_db_def keyed_def distinct_map_filter)
    ultimately show ?thesis unfolding t using rem_scan.scan_rel[OF i] by simp
  next
    case False
    have "reminder_next nf (broker k) now (db_assignments s) (aview k s) = aview k s"
    proof (cases "find_reminder k s")
      case (Some r)
      then have "\<not> rm_is_active r \<or> rm_next r > now"
        using False tfind_in[OF Some] tfind_key[OF Some] by fastforce
      with Some show ?thesis by (cases "alert_by_pk k s") (simp_all add: aview_def)
    qed (cases "alert_by_pk k s", simp_all add: aview_def)
    then show ?thesis unfolding t using rem_scan.scan_frame[OF i False] by simp
  qed
qed

section \<open>Sequences of scans\<close>

text \<open>The scans of the periodic job, each with its formatter, broker and instant.\<close>

definition reminder_scans ::
  "(notify_format \<times> (nat \<Rightarrow> bool) \<times> int) list \<Rightarrow> db \<Rightarrow> db" where
  "reminder_scans runs s =
     fold (\<lambda>(nf, broker, now) u. snd (snd (check_and_process_reminders nf broker now u))) runs s"

text \<open>A limit \<open>m\<close> the task of an alert is held to.\<close>

definition limited :: "int \<Rightarrow> assignment list \<Rightarrow> alert \<Rightarrow> reminder \<Rightarrow> bool" where
  "limited m asgs a r \<longleftrightarrow> 0 < m \<and> rm_count r \<le> m \<and>
     (case tfind as_id (rm_assignment r) asgs of None \<Rightarrow> True
      | Some asg \<Rightarrow> get_effective_max_reminders r asg a = Inr m)"

lemma effective_max_cong:
  "rm_max r' = rm_max r \<Longrightarrow> get_effective_max_reminders r' asg a = get_effective_max_reminders r asg a"
  by (simp add: get_effective_max_reminders_def)

lemma reminded_fields [simp]:
  "rm_max (reminded now m r) = rm_max r" "rm_assignment (reminded now m r) = rm_assignment r"
  "rm_count (reminded now m r) = rm_count r + 1" "rm_frequency (reminded now m r) = rm_frequency r"
  "rm_last (reminded now m r) = Some now"
  by (simp_all add: reminded_def Let_def)

lemma switched_off_fields [simp]:
  "rm_max (switched_off now r) = rm_max r" "rm_assignment (switched_off now r) = rm_assignment r"
  "rm_count (switched_off now r) = rm_count r" "rm_frequency (switched_off now r) = rm_frequency r"
  "rm_is_active (switched_off now r) = False"
  by (simp_all add: switched_off_def)

lemma reminder_next_cases:
  obtains "reminder_next nf b now asgs (Some a, Some r, e) = (Some a, Some r, e)"
  | "reminder_next nf b now asgs (Some a, Some r, e) = (Some a, Some (switched_off now r), e)"
    "rm_is_active r"
  | asg m where "reminder_next nf b now asgs (Some a, Some r, e) = (Some a, Some (reminded now m r), e)"
    "tfind as_id (rm_assignment r) asgs = Some asg" "get_effective_max_reminders r asg a = Inr m"
    "\<not> (m > 0 \<and> rm_count r \<ge> m)" "rm_is_active r" "rm_next r \<le> now" "al_status a = A_PENDING"
proof -
  let ?v = "reminder_next nf b now asgs (Some a, Some r, e)"
  have "?v = (Some a, Some r, e) \<or> ?v = (Some a, Some (switched_off now r), e) \<and> rm_is_active r \<or>
    (\<exists>asg m. ?v = (Some a, Some (reminded now m r), e) \<and>
       tfind as_id (rm_assignment r) asgs = Some asg \<and> get_effective_max_reminders r asg a = Inr m \<and>
       \<not> (m > 0 \<and> rm_count r \<ge> m) \<and> rm_is_active r \<and> rm_next r \<le> now \<and> al_status a = A_PENDING)"
    by (auto split: option.split sum.split)
  then show thesis using that by blast
qed

lemma reminder_next_limited:
  assumes "limited m asgs a r"
  obtains r' where "reminder_next nf b now asgs (Some a, Some r, e) = (Some a, Some r', e)"
    "limited m asgs a r'" "rm_count r \<le> rm_count r'"
proof (cases nf b now asgs a r e rule: reminder_next_cases)
  case 1
  then show thesis using assms by (intro that[of r]) simp_all
next
  case 2
  then show thesis using assms
    by (intro that[of "switched_off now r"])
       (auto simp: limited_def effective_max_cong[of "switched_off now r" r] split: option.splits)
next
  case (3 asg k)
  with assms have "k = m" "rm_count r < m" by (auto simp: limited_def)
  with 3 show thesis using assms
    by (intro that[of "reminded now m r"])
       (auto simp: limited_def effective_max_cong[of "reminded now m r" r] split: option.splits)
qed

lemma reminder_scans_limited:
  assumes "wf_db s" "alert_by_pk k s = Some a" "find_reminder k s = Some r"
    "limited m (db_assignments s) a r"
  shows "\<exists>r'. find_reminder k (reminder_scans runs s) = Some r' \<and>
    rm_count r \<le> rm_count r' \<and> rm_count r' \<le> m"
  using assms
proof (induction runs arbitrary: s r)
  case Nil
  then show ?case by (auto simp: reminder_scans_def limited_def)
next
  case (Cons run runs)
  obtain nf broker now where run: "run = (nf, broker, now)" by (cases run)
  obtain p c t where t: "check_and_process_reminders nf broker now s = (p, c, t)"
    by (metis prod.collapse)
  note eff = reminder_scan_effect[OF Cons.prems(1) t]
  have v: "aview k s = (Some a, Some r, find_escalation k s)" using Cons.prems by (simp add: aview_def)
  obtain r' where "aview k t = (Some a, Some r', find_escalation k s)"
    and r': "limited m (db_assignments s) a r'" "rm_count r \<le> rm_count r'"
    using eff(3)[of k] v reminder_next_limited[OF Cons.prems(4)] by metis
  then have "\<exists>r''. find_reminder k (reminder_scans runs t) = Some r'' \<and>
      rm_count r' \<le> rm_count r'' \<and> rm_count r'' \<le> m"
    using eff(1,2) by (intro Cons.IH) (simp_all add: aview_def)
  then show ?case using r'(2) t run by (auto simp: reminder_scans_def)
qed

section \<open>Tasks\<close>

lemma normalize_positive:
  "normalize_frequency_config cfg = Inr (Some (i, m)) \<Longrightarrow> 0 < i \<and> 0 \<le> m"
  by (auto simp: normalize_frequency_config_def parse_max_count_def DEFAULT_MAX_REMINDERS_def
      split: if_splits sum.splits)

lemma create_reminder_cases:
  obtains "create_reminder_task now a asg s = (None, s)"
  | r where "create_reminder_task now a asg s = (Some r, s)" "find_reminder (al_pk a) s = Some r"
    "rm_is_active r"
  | r where "create_reminder_task now a asg s = (Some r, save_reminder r s)" "rm_alert r = al_pk a"
    "rm_is_active r" "rm_count r = 0" "0 < rm_frequency r" "0 \<le> rm_max r" "rm_last r = None"
    "rm_next r = now + minutes (rm_frequency r)" "rm_assignment r = as_id asg"
    "\<forall>r0. find_reminder (al_pk a) s = Some r0 \<longrightarrow> \<not> rm_is_active r0"
proof -
  consider "create_reminder_task now a asg s = (None, s)"
    | cfg i m where "jget (as_notification_frequency asg) (al_level a) (JObj []) = Inr cfg"
      "normalize_frequency_config cfg = Inr (Some (i, m))"
  proof (cases "\<exists>cfg i m. jget (as_notification_frequency asg) (al_level a) (JObj []) = Inr cfg \<and>
      normalize_frequency_config cfg = Inr (Some (i, m))")
    case False
    then have "create_reminder_task now a asg s = (None, s)"
      by (auto simp: create_reminder_task_def split: sum.split option.split)
    then show ?thesis by (rule that(1))
  qed (use that in blast)
  then show thesis
  proof cases
    case 1
    then show thesis by (rule that(1))
  next
    case (2 cfg i m)
    note pos = normalize_positive[OF 2(2)]
    show thesis
    proof (cases "find_reminder (al_pk a) s")
      case None
      let ?n = "\<lparr>rm_alert = al_pk a, rm_assignment = as_id asg, rm_is_active = True, rm_count = 0,
        rm_frequency = i, rm_max = m, rm_next = now + minutes i, rm_last = None, rm_updated_at = now\<rparr>"
      show thesis using 2 pos None
        by (intro that(3)[of ?n]) (simp_all add: create_reminder_task_def Let_def)
    next
      case (Some r)
      show thesis
      proof (cases "rm_is_active r")
        case True
        then show thesis using 2 Some by (intro that(2)[of r]) (simp_all add: create_reminder_task_def)
      next
        case False
        let ?n = "r\<lparr>rm_assignment := as_id asg, rm_is_active := True, rm_frequency := i, rm_max := m,
          rm_count := 0, rm_last := None, rm_next := now + minutes i, rm_updated_at := now\<rparr>"
        show thesis using 2 Some False pos tfind_key[OF Some]
          by (intro that(3)[of ?n]) (simp_all add: create_reminder_task_def Let_def)
      qed
    qed
  qed
qed

lemma create_reminder_active:
  "create_reminder_task now a asg s = (Some r, t) \<Longrightarrow>
   rm_is_active r \<and> find_reminder (al_pk a) t = Some r"
  by (cases now a asg s rule: create_reminder_cases) (auto simp: row_simps)

lemma create_reminder_only:
  "al_pk a \<in> al_pk ` set (db_alerts s) \<Longrightarrow> only (al_pk a) s (snd (create_reminder_task now a asg s))"
  by (cases now a asg s rule: create_reminder_cases) (auto intro: only_save_reminder)

lemma create_reminder_frame:
  "db_alerts (snd (create_reminder_task now a asg s)) = db_alerts s"
  "db_escalations (snd (create_reminder_task now a asg s)) = db_escalations s"
  "db_outbox (snd (create_reminder_task now a asg s)) = db_outbox s"
  by (cases now a asg s rule: create_reminder_cases; simp)+

lemma create_reminder_noop:
  assumes "find_reminder (al_pk a) s = Some r" "rm_is_active r"
  shows "snd (create_reminder_task now a asg s) = s"
  using assms by (cases now a asg s rule: create_reminder_cases) auto

lemma stop_reminder_find:
  "find_reminder j (snd (stop_reminder_task a s)) =
     (if j = al_pk a then map_option (\<lambda>r. r\<lparr>rm_is_active := False\<rparr>) (find_reminder j s)
      else find_reminder j s)"
proof -
  have "find_reminder j (snd (stop_reminder_task a s)) =
     map_option (\<lambda>r. if rm_alert r = al_pk a \<and> rm_is_active r then r\<lparr>rm_is_active := False\<rparr> else r)
       (find_reminder j s)"
    by (simp add: stop_reminder_task_def Let_def tfind_tupdate)
  then show ?thesis by (cases "find_reminder j s") (auto dest: tfind_key)
qed

lemma stop_reminder_frame [simp]:
  "db_alerts (snd (stop_reminder_task a s)) = db_alerts s"
  "db_escalations (snd (stop_reminder_task a s)) = db_escalations s"
  "db_assignments (snd (stop_reminder_task a s)) = db_assignments s"
  "db_outbox (snd (stop_reminder_task a s)) = db_outbox s"
  "db_logs (snd (stop_reminder_task a s)) = db_logs s"
  "db_users (snd (stop_reminder_task a s)) = db_users s"
  "db_strategies (snd (stop_reminder_task a s)) = db_strategies s"
  by (simp_all add: stop_reminder_task_def Let_def)

lemma stop_reminder_only: "only (al_pk a) s (snd (stop_reminder_task a s))"
proof -
  let ?p = "\<lambda>r. rm_alert r = al_pk a \<and> rm_is_active r"
  have "rm_alert ` set (db_reminders (snd (stop_reminder_task a s))) = rm_alert ` set (db_reminders s)"
    by (simp add: stop_reminder_task_def Let_def keys_tupdate)
  moreover have "keyed rm_alert (db_reminders s) \<Longrightarrow> keyed rm_alert (db_reminders (snd (stop_reminder_task a s)))"
    by (simp add: stop_reminder_task_def Let_def keyed_tupdate)
  ultimately show ?thesis by (auto simp: only_def stop_reminder_find wf_db_def)
qed

lemma reminder_sent:
  assumes "wf_db s" "check_and_process_reminders nf broker now s = (p, c, t)"
    "find_reminder k s = Some r" "find_reminder k t = Some r'" "rm_count r' \<noteq> rm_count r"
  shows "rm_is_active r \<and> rm_next r \<le> now \<and> rm_count r' = rm_count r + 1 \<and>
    rm_frequency r' = rm_frequency r \<and> rm_last r' = Some now \<and>
    (rm_is_active r' \<longrightarrow> rm_next r' = now + minutes (rm_frequency r)) \<and>
    (\<exists>a. alert_by_pk k s = Some a \<and> al_status a = A_PENDING)"
proof -
  have eff: "aview k t = reminder_next nf (broker k) now (db_assignments s) (aview k s)"
    by (rule reminder_scan_effect(3)[OF assms(1,2)])
  obtain a where a: "alert_by_pk k s = Some a"
    using eff assms(3-5) by (cases "alert_by_pk k s") (auto simp: aview_def)
  show ?thesis
  proof (cases nf "broker k" now "db_assignments s" a r "find_escalation k s" rule: reminder_next_cases)
    case (3 asg m)
    have "aview k t = (Some a, Some (reminded now m r), find_escalation k s)"
      using eff 3(1) assms(3) a by (simp add: aview_def del: reminder_next.simps)
    then have "r' = reminded now m r" using assms(4) by (simp add: aview_def)
    then show ?thesis using 3(3-7) a
      by (auto simp: reminded_def Let_def)
  qed (use eff assms(3-5) a in \<open>auto simp: aview_def\<close>)
qed

section \<open>Properties\<close>

text \<open>C6: one run of \<open>check_and_process_reminders\<close> computes, for every alert, exactly the
  abstract transition \<open>reminder_next\<close> of its own rows: nothing before the task is due, switch
  it off when the alert is no longer pending or the limit is reached, advance it once when
  its message was built and accepted by the broker. Alerts do not influence each other.\<close>

theorem reminder_scan_refines:
  assumes "wf_db s" "check_and_process_reminders nf broker now s = (p, c, t)"
  shows "wf_db t \<and>
    (\<forall>k. aview k t = reminder_next nf (broker k) now (db_assignments s) (aview k s))"
  using reminder_scan_effect[OF assms] by blast

definition sample_sent :: db where
  "sample_sent = snd (snd (check_and_process_reminders sample_format (\<lambda>_. True) (minutes 6) sample_db))"

theorem reminder_scan_refines_witness:
  "aview 1 sample_sent =
     reminder_next sample_format True (minutes 6) (db_assignments sample_db) (aview 1 sample_db)"
proof -
  obtain p c t where t: "check_and_process_reminders sample_format (\<lambda>_. True) (minutes 6) sample_db = (p, c, t)"
    by (metis prod.collapse)
  from reminder_scan_refines[OF sample_wf t] t show ?thesis by (simp add: sample_sent_def)
qed

text \<open>The messages about an alert that left the database.\<close>

definition messages_about :: "string \<Rightarrow> db \<Rightarrow> effect list" where
  "messages_about aid s = filter (\<lambda>x. case x of SyncNotify ps \<Rightarrow> list_ex (\<lambda>p. np_object_id p = aid) ps | _ \<Rightarrow> False) (db_outbox s)"

lemma reminder_message_about:
  assumes "reminder_message nf duty asg a = Some ps" "p \<in> set ps"
  shows "np_object_id p = al_alert_id a"
proof -
  obtain us ch where "build_channel_params nf us ch [a] (al_alert_id a) = Inr ps"
    using assms(1) by (auto simp: reminder_message_def Let_def split: if_splits sum.splits)
  then show ?thesis
    using assms(2) channel_params_sound by (fastforce simp: build_channel_params_def split: if_splits sum.splits json.splits)
qed

text \<open>A round queues at most one message, about its own alert, and then counts it.\<close>

lemma reminder_round_messages:
  "db_outbox (snd (snd (reminder_round nf broker now j (p, c, s)))) = db_outbox s \<or>
   (\<exists>ps a r m. db_outbox (snd (snd (reminder_round nf broker now j (p, c, s)))) = db_outbox s @ [SyncNotify ps] \<and>
      alert_by_pk j s = Some a \<and> (\<forall>q \<in> set ps. np_object_id q = al_alert_id a) \<and> find_reminder j s = Some r \<and>
      find_reminder j (snd (snd (reminder_round nf broker now j (p, c, s)))) = Some (reminded now m r))"
proof (cases "\<exists>r a asg m ps. find_reminder j s = Some r \<and> rm_is_active r \<and> \<not> rm_next r > now \<and> alert_by_pk j s = Some a \<and>
    find_assignment (rm_assignment r) s = Some asg \<and> al_status a = A_PENDING \<and> get_effective_max_reminders r asg a = Inr m \<and>
    \<not> (m > 0 \<and> rm_count r \<ge> m) \<and> reminder_message nf (active_roster_for_reminder a s) asg a = Some ps \<and> broker j")
  case False
  then show ?thesis
    by (auto simp: reminder_round_def Let_def enqueue_and_mark_def split: option.splits sum.splits)
next
  case True
  then obtain r a asg m ps where r: "find_reminder j s = Some r" "rm_is_active r" "\<not> rm_next r > now" "alert_by_pk j s = Some a"
    "find_assignment (rm_assignment r) s = Some asg" "al_status a = A_PENDING" "get_effective_max_reminders r asg a = Inr m"
    "\<not> (m > 0 \<and> rm_count r \<ge> m)" "reminder_message nf (active_roster_for_reminder a s) asg a = Some ps" "broker j" by blast
  have k: "rm_alert r = j" using r(1) by (rule tfind_key)
  have t: "snd (snd (reminder_round nf broker now j (p, c, s))) = save_reminder (reminded now m r) (emit (SyncNotify ps) s)"
    using r advance_reminder_eq[OF r(1,2,4,6,5,7,8)] by (auto simp: reminder_round_def Let_def enqueue_and_mark_def)
  then show ?thesis using r(1,4) reminder_message_about[OF r(9)] k by (auto simp: row_simps emit_def)
qed

lemma reminder_round_counts:
  assumes "wf_db s" "alert_by_pk k s = Some a" "find_reminder k s = Some r"
    and t_def: "t = snd (snd (reminder_round nf broker now j (p, c, s)))"
  shows "wf_db t \<and> alert_by_pk k t = Some a \<and> (\<exists>r'. find_reminder k t = Some r' \<and>
    int (length (messages_about (al_alert_id a) t)) + rm_count r \<le> int (length (messages_about (al_alert_id a) s)) + rm_count r')"
proof -
  note eff = reminder_round_effect[of j "(p, c, s)" nf broker now, folded t_def, unfolded snd_conv]
  have w: "wf_db t" using eff assms(1) by (auto dest: onlyD(1))
  have view: "aview k t = (if k = j then reminder_next nf (broker j) now (db_assignments s) (aview j s) else aview k s)"
    using eff by (auto dest: only_aview)
  have a: "alert_by_pk k t = Some a"
    using arg_cong[OF view, of fst] reminder_next_alert assms(2) by (auto simp: aview_def split: if_splits)
  obtain r' where r': "find_reminder k t = Some r'" "rm_count r \<le> rm_count r'"
  proof (cases "k = j")
    case True
    have v: "aview j s = (Some a, Some r, find_escalation k s)" using True assms(2,3) by (simp add: aview_def)
    show thesis
      by (cases nf "broker j" now "db_assignments s" a r "find_escalation k s" rule: reminder_next_cases)
        (use that view v True in \<open>simp_all add: aview_def del: reminder_next.simps\<close>)
  next
    case False
    then show thesis using that[of r] view assms(3) by (simp add: aview_def)
  qed
  from reminder_round_messages[of nf broker now j p c s, folded t_def]
  have "int (length (messages_about (al_alert_id a) t)) + rm_count r \<le> int (length (messages_about (al_alert_id a) s)) + rm_count r'"
  proof (elim disjE exE conjE)
    assume "db_outbox t = db_outbox s"
    with r'(2) show ?thesis by (simp add: messages_about_def)
  next
    fix ps b q m
    assume out: "db_outbox t = db_outbox s @ [SyncNotify ps]" and b: "alert_by_pk j s = Some b"
      and about: "\<forall>q \<in> set ps. np_object_id q = al_alert_id b"
      and q: "find_reminder j s = Some q" "find_reminder j t = Some (reminded now m q)"
    show ?thesis
    proof (cases "k = j")
      case True
      then have "rm_count r' = rm_count r + 1" using q assms(3) r'(1) by auto
      then show ?thesis by (auto simp: messages_about_def out)
    next
      case False
      have "al_alert_id b \<noteq> al_alert_id a"
      proof
        assume "al_alert_id b = al_alert_id a"
        moreover have "keyed al_alert_id (db_alerts s)" using assms(1) by (simp add: wf_db_def)
        ultimately have "b = a" using keyed_inj tfind_in[OF b] tfind_in[OF assms(2)] by metis
        then show False using False tfind_key[OF b] tfind_key[OF assms(2)] by simp
      qed
      then have "\<not> list_ex (\<lambda>p. np_object_id p = al_alert_id a) ps" using about by (auto simp: list_ex_iff)
      then show ?thesis using r'(2) by (simp add: messages_about_def out)
    qed
  qed
  with w a r'(1) show ?thesis by blast
qed

lemma reminder_rounds_count:
  assumes "wf_db s" "alert_by_pk k s = Some a" "find_reminder k s = Some r"
    and t_def: "t = snd (snd (fold (reminder_round nf broker now) js (p, c, s)))"
  shows "wf_db t \<and> alert_by_pk k t = Some a \<and> (\<exists>r'. find_reminder k t = Some r' \<and>
    int (length (messages_about (al_alert_id a) t)) + rm_count r \<le> int (length (messages_about (al_alert_id a) s)) + rm_count r')"
  using assms(1-3) unfolding t_def
proof (induction js arbitrary: p c s r)
  case (Cons j js)
  obtain q d u where u: "reminder_round nf broker now j (p, c, s) = (q, d, u)" by (metis prod.collapse)
  note one = reminder_round_counts[OF Cons.prems refl, of nf broker now j p c, unfolded u snd_conv]
  then obtain r1 where r1: "find_reminder k u = Some r1"
    "int (length (messages_about (al_alert_id a) u)) + rm_count r \<le> int (length (messages_about (al_alert_id a) s)) + rm_count r1" by blast
  from Cons.IH[OF conjunct1[OF one] conjunct1[OF conjunct2[OF one]] r1(1), of q d] r1(2) show ?case
    by (auto simp: u)
qed auto

lemma reminder_scans_count:
  assumes "wf_db s" "alert_by_pk k s = Some a" "find_reminder k s = Some r" "find_reminder k (reminder_scans runs s) = Some r'"
  shows "int (length (messages_about (al_alert_id a) (reminder_scans runs s))) + rm_count r \<le>
    int (length (messages_about (al_alert_id a) s)) + rm_count r'"
  using assms
proof (induction runs arbitrary: s r)
  case (Cons run runs)
  obtain nf broker now where run: "run = (nf, broker, now)" by (cases run)
  define u where "u = snd (snd (check_and_process_reminders nf broker now s))"
  note one = reminder_rounds_count[OF Cons.prems(1-3) refl, of nf broker now
      "map rm_alert (filter (\<lambda>r. rm_is_active r \<and> rm_next r \<le> now) (db_reminders s))" 0 0,
      folded check_and_process_reminders_def u_def]
  then obtain r1 where r1: "find_reminder k u = Some r1"
    "int (length (messages_about (al_alert_id a) u)) + rm_count r \<le> int (length (messages_about (al_alert_id a) s)) + rm_count r1" by blast
  have step: "reminder_scans (run # runs) s = reminder_scans runs u" by (simp add: reminder_scans_def run u_def)
  from Cons.IH[OF conjunct1[OF one] conjunct1[OF conjunct2[OF one]] r1(1)] Cons.prems(4) r1(2) show ?case
    unfolding step by linarith
qed (simp add: reminder_scans_def)

text \<open>C7: under a positive limit no sequence of scans, whatever their instants and the broker's answers,
  sends more reminders of an alert than the limit leaves: the messages about the alert that the scans hand
  to the broker, together with those counted before, are at most the limit.\<close>

theorem reminder_count_bounded:
  assumes "wf_db s" "alert_by_pk k s = Some a" "find_reminder k s = Some r"
    "limited m (db_assignments s) a r"
  shows "int (length (messages_about (al_alert_id a) (reminder_scans runs s))) + rm_count r \<le>
    int (length (messages_about (al_alert_id a) s)) + m"
proof -
  obtain r' where "find_reminder k (reminder_scans runs s) = Some r'" "rm_count r' \<le> m"
    using reminder_scans_limited[OF assms] by blast
  with reminder_scans_count[OF assms(1-3) this(1)] show ?thesis by simp
qed

theorem reminder_count_bounded_witness:
  "let t = reminder_scans [(sample_format, \<lambda>_. True, minutes 6), (sample_format, \<lambda>_. True, minutes 12),
      (sample_format, \<lambda>_. True, minutes 18)] sample_db
   in length (messages_about ''A1'' t) = 1 \<and> int (length (messages_about ''A1'' t)) + 1 \<le> 2"
proof -
  have a: "alert_by_pk 1 sample_db = Some sample_alert"
    by (simp add: sample_db_def tfind_def sample_alert_def)
  have r: "find_reminder 1 sample_db = Some sample_reminder"
    by (simp add: sample_db_def tfind_def sample_reminder_def)
  have l: "limited 2 (db_assignments sample_db) sample_alert sample_reminder"
    by code_simp
  have n: "length (messages_about ''A1'' (reminder_scans [(sample_format, \<lambda>_. True, minutes 6), (sample_format, \<lambda>_. True, minutes 12),
      (sample_format, \<lambda>_. True, minutes 18)] sample_db)) = 1" by code_simp
  have i: "al_alert_id sample_alert = ''A1''" "rm_count sample_reminder = 1" "messages_about ''A1'' sample_db = []"
    by (simp_all add: sample_alert_def sample_reminder_def messages_about_def sample_db_def)
  show ?thesis
    using n reminder_count_bounded[OF sample_wf a r l, of "[(sample_format, \<lambda>_. True, minutes 6), (sample_format, \<lambda>_. True, minutes 12),
      (sample_format, \<lambda>_. True, minutes 18)]"] by (simp add: i Let_def)
qed

text \<open>A reminder is only sent for a pending alert with an active due task, and two
  reminders of one alert sent by successive scans are at least the configured interval
  apart.\<close>

theorem reminder_spacing:
  assumes "wf_db s" "check_and_process_reminders nf broker now s = (p, c, t)"
    and "check_and_process_reminders nf' broker' now' t = (p', c', u)"
    and "find_reminder k s = Some r" "find_reminder k t = Some r1" "find_reminder k u = Some r2"
    and "rm_count r1 \<noteq> rm_count r" "rm_count r2 \<noteq> rm_count r1"
  shows "rm_count r2 = rm_count r + 2 \<and> now + minutes (rm_frequency r) \<le> now' \<and>
    (\<exists>a. alert_by_pk k s = Some a \<and> al_status a = A_PENDING)"
  using reminder_sent[OF assms(1,2,4,5,7)]
    reminder_sent[OF reminder_scan_effect(1)[OF assms(1,2)] assms(3,5,6,8)] by auto

definition sample_long :: db where
  "sample_long = sample_db\<lparr>db_reminders := [sample_reminder\<lparr>rm_max := 5\<rparr>]\<rparr>"

definition sample_scan :: "int \<Rightarrow> db \<Rightarrow> nat \<times> nat \<times> db" where
  "sample_scan m s = check_and_process_reminders sample_format (\<lambda>_. True) (minutes m) s"

theorem reminder_spacing_witness: "minutes 6 + minutes 5 \<le> minutes 12"
proof -
  let ?t = "snd (snd (sample_scan 6 sample_long))"
  let ?u = "snd (snd (sample_scan 12 ?t))"
  let ?r = "\<lambda>s. the (find_reminder 1 s)"
  have w: "wf_db sample_long" by (simp add: sample_long_def sample_defs wf_db_def keyed_def)
  have e: "find_reminder 1 sample_long = Some (?r sample_long)" "find_reminder 1 ?t = Some (?r ?t)"
    "find_reminder 1 ?u = Some (?r ?u)" "rm_count (?r ?t) \<noteq> rm_count (?r sample_long)"
    "rm_count (?r ?u) \<noteq> rm_count (?r ?t)" "rm_frequency (?r sample_long) = 5"
    by code_simp+
  obtain p c where t: "check_and_process_reminders sample_format (\<lambda>_. True) (minutes 6) sample_long = (p, c, ?t)"
    unfolding sample_scan_def by (metis prod.collapse)
  obtain p' c' where u: "check_and_process_reminders sample_format (\<lambda>_. True) (minutes 12) ?t = (p', c', ?u)"
    unfolding sample_scan_def by (metis prod.collapse)
  have "minutes 6 + minutes (rm_frequency (?r sample_long)) \<le> minutes 12"
    using reminder_spacing[OF w t u e(1-5)] by blast
  then show ?thesis by (simp only: e(6))
qed

text \<open>Creating a reminder task is idempotent: once a policy gave an alert its task, a
  further creation, at any time and for any policy, changes nothing in the database.\<close>

theorem create_reminder_idempotent:
  assumes "create_reminder_task now a asg s = (Some r, t)"
  shows "rm_is_active r \<and> find_reminder (al_pk a) t = Some r \<and>
    snd (create_reminder_task now' a asg' t) = t"
  using create_reminder_active[OF assms] create_reminder_noop by blast

definition sample_fresh :: db where
  "sample_fresh = sample_db\<lparr>db_reminders := [], db_escalations := []\<rparr>"

theorem create_reminder_idempotent_witness:
  "\<exists>r t. create_reminder_task 0 sample_alert sample_assignment sample_fresh = (Some r, t) \<and>
     rm_next r = minutes 5 \<and> snd (create_reminder_task 99 sample_alert sample_assignment t) = t"
proof -
  obtain r t where c: "create_reminder_task 0 sample_alert sample_assignment sample_fresh = (Some r, t)"
    and n: "rm_next r = minutes 5"
  proof -
    have "fst (create_reminder_task 0 sample_alert sample_assignment sample_fresh) \<noteq> None \<and>
      rm_next (the (fst (create_reminder_task 0 sample_alert sample_assignment sample_fresh))) = minutes 5"
      by code_simp
    then show thesis using that by (metis option.collapse prod.collapse)
  qed
  with create_reminder_idempotent[OF c] show ?thesis by blast
qed

text \<open>After \<open>stop_reminder_task\<close> no scan changes the rows of the alert: it is not reminded
  again until a new task is created.\<close>

theorem stopped_reminder_silent:
  assumes "wf_db s" "check_and_process_reminders nf broker now (snd (stop_reminder_task a s)) = (p, c, t)"
  shows "aview (al_pk a) t = aview (al_pk a) (snd (stop_reminder_task a s))"
proof -
  let ?u = "snd (stop_reminder_task a s)"
  have "wf_db ?u" using stop_reminder_only assms(1) by (rule onlyD(1))
  from reminder_scan_effect(3)[OF this assms(2), of "al_pk a"] show ?thesis
    by (cases "alert_by_pk (al_pk a) s"; cases "find_reminder (al_pk a) s")
       (simp_all add: aview_def stop_reminder_find)
qed

theorem stopped_reminder_silent_witness:
  "aview 1 (snd (snd (check_and_process_reminders sample_format (\<lambda>_. True) (minutes 6)
      (snd (stop_reminder_task sample_alert sample_db))))) =
   aview 1 (snd (stop_reminder_task sample_alert sample_db))"
proof -
  obtain p c t where t: "check_and_process_reminders sample_format (\<lambda>_. True) (minutes 6)
      (snd (stop_reminder_task sample_alert sample_db)) = (p, c, t)"
    by (metis prod.collapse)
  have "al_pk sample_alert = 1" by (simp add: sample_alert_def)
  then show ?thesis using stopped_reminder_silent[OF sample_wf t] by (simp add: t)
qed

end
