(* ===== verification/Operator_Scope.thy ===== *)
theory Operator_Scope
  imports Samples
begin

text \<open>
  Who may be made responsible for an alert (\<open>utils/operator_scope.py\<close>): the user names of
  a request are normalised, each must be a known user, and each must share an organisation
  with the alert (or with one of the alerts of an incident).
\<close>

section \<open>Normalisation\<close>

text \<open>The loop over the names, with the set of names already seen.\<close>

fun collect_names :: "string list \<Rightarrow> json list \<Rightarrow> string list" where
  "collect_names seen [] = []"
| "collect_names seen (JStr u # us) =
     (let n = strip u in
      if n = [] \<or> n \<in> set seen then collect_names seen us
      else n # collect_names (n # seen) us)"
| "collect_names seen (_ # us) = collect_names seen us"

fun normalize_usernames :: "json \<Rightarrow> string list" where
  "normalize_usernames (JStr u) = (if u = [] then [] else collect_names [] [JStr u])"
| "normalize_usernames (JList us) = collect_names [] us"
| "normalize_usernames _ = []"

fun group_id :: "json \<Rightarrow> int list" where
  "group_id (JObj kvs) =
     (case py_int (case map_of kvs ''id'' of None \<Rightarrow> JNull | Some v \<Rightarrow> v) of Inl _ \<Rightarrow> [] | Inr i \<Rightarrow> [i])"
| "group_id j = (case py_int j of Inl _ \<Rightarrow> [] | Inr i \<Rightarrow> [i])"

text \<open>The set is kept as a list; only membership is used.\<close>

definition normalize_group_ids :: "json \<Rightarrow> int list res" where
  "normalize_group_ids v =
     (case py_iter (py_or v (JList [])) of
        Inl e \<Rightarrow> Inl e
      | Inr gs \<Rightarrow> Inr (concat (map group_id gs)))"

section \<open>Validation\<close>

datatype scope_message = MissingUsers "string list" | OutOfScope "string list"

text \<open>The dict comprehension over the users found: a later row of the same name wins.\<close>

fun build_user_map :: "user list \<Rightarrow> (string \<times> int list) list res" where
  "build_user_map [] = Inr []"
| "build_user_map (u # us) =
     (case normalize_group_ids (us_group_list u) of
        Inl e \<Rightarrow> Inl e
      | Inr gs \<Rightarrow>
        (case build_user_map us of
           Inl e \<Rightarrow> Inl e
         | Inr m \<Rightarrow> Inr (m @ [(us_username u, gs)])))"

definition validate_usernames_in_groups ::
  "user list \<Rightarrow> json \<Rightarrow> int list \<Rightarrow> (string list \<times> scope_message option) res" where
  "validate_usernames_in_groups users usernames allowed =
     (let names = normalize_usernames usernames in
      if names = [] then Inr (names, None)
      else case build_user_map (filter (\<lambda>u. us_username u \<in> set names) users) of
        Inl e \<Rightarrow> Inl e
      | Inr m \<Rightarrow>
          let missing = filter (\<lambda>n. map_of m n = None) names;
              invalid = filter (\<lambda>n. set (the (map_of m n)) \<inter> set allowed = {}) names
          in if missing \<noteq> [] then Inr (names, Some (MissingUsers missing))
             else if invalid \<noteq> [] then Inr (names, Some (OutOfScope invalid))
             else Inr (names, None))"

definition validate_alert_assignees ::
  "user list \<Rightarrow> alert \<Rightarrow> json \<Rightarrow> (string list \<times> scope_message option) res" where
  "validate_alert_assignees users a usernames =
     (case normalize_group_ids (JList (al_team a)) of
        Inl e \<Rightarrow> Inl e
      | Inr allowed \<Rightarrow> validate_usernames_in_groups users usernames allowed)"

definition validate_incident_operators ::
  "user list \<Rightarrow> alert list \<Rightarrow> json \<Rightarrow> (string list \<times> scope_message option) res" where
  "validate_incident_operators users alerts usernames =
     validate_usernames_in_groups users usernames
       (concat (map (\<lambda>a. concat (map group_id (al_team a))) alerts))"

section \<open>Lemmas\<close>

lemma collect_names_props:
  "distinct (collect_names seen us) \<and> set (collect_names seen us) \<inter> set seen = {} \<and>
   [] \<notin> set (collect_names seen us)"
  by (induction seen us rule: collect_names.induct) (auto simp: Let_def)

lemma collect_names_set:
  "set (collect_names seen us) = strip ` {u. JStr u \<in> set us} - insert [] (set seen)"
  by (induction seen us rule: collect_names.induct) (auto simp: Let_def)

lemma normalize_props: "distinct (normalize_usernames j) \<and> [] \<notin> set (normalize_usernames j)"
  using collect_names_props[of "[]"] by (cases j rule: normalize_usernames.cases) (auto simp: Let_def)

lemma group_ids_list: "normalize_group_ids (JList gs) = Inr (concat (map group_id gs))"
  by (cases gs) (simp_all add: normalize_group_ids_def py_or_def)

lemma build_user_map_some:
  "build_user_map us = Inr m \<Longrightarrow> map_of m n = Some gs \<Longrightarrow>
   \<exists>u \<in> set us. us_username u = n \<and> normalize_group_ids (us_group_list u) = Inr gs"
proof (induction us arbitrary: m)
  case (Cons u us)
  then obtain g m' where g: "normalize_group_ids (us_group_list u) = Inr g"
    and m': "build_user_map us = Inr m'" "m = m' @ [(us_username u, g)]"
    by (auto split: sum.splits)
  with Cons show ?case by (cases "map_of m' n") (auto split: if_splits)
qed simp

lemma validate_accepts:
  assumes "validate_usernames_in_groups users usernames allowed = Inr (names, None)"
  shows "names = normalize_usernames usernames \<and>
    (\<forall>n \<in> set names. \<exists>u \<in> set users. \<exists>gs. us_username u = n \<and>
       normalize_group_ids (us_group_list u) = Inr gs \<and> set gs \<inter> set allowed \<noteq> {})"
proof (cases "normalize_usernames usernames = []")
  case True
  then show ?thesis using assms by (simp add: validate_usernames_in_groups_def)
next
  case False
  let ?us = "filter (\<lambda>u. us_username u \<in> set (normalize_usernames usernames)) users"
  from False assms obtain m where m: "build_user_map ?us = Inr m"
    and n: "names = normalize_usernames usernames"
    and miss: "filter (\<lambda>n. map_of m n = None) names = []"
    and inv: "filter (\<lambda>n. set (the (map_of m n)) \<inter> set allowed = {}) names = []"
    by (auto simp: validate_usernames_in_groups_def Let_def split: sum.splits if_splits)
  have "\<exists>u \<in> set users. \<exists>gs. us_username u = x \<and> normalize_group_ids (us_group_list u) = Inr gs \<and>
      set gs \<inter> set allowed \<noteq> {}" if x: "x \<in> set names" for x
  proof -
    from miss x obtain gs where gs: "map_of m x = Some gs"
      by (auto simp: filter_empty_conv)
    from inv x have "set (the (map_of m x)) \<inter> set allowed \<noteq> {}" by (simp add: filter_empty_conv)
    with gs have "set gs \<inter> set allowed \<noteq> {}" by simp
    with build_user_map_some[OF m gs] show ?thesis by auto
  qed
  with n show ?thesis by blast
qed

section \<open>Properties\<close>

text \<open>The names \<open>validate_usernames_in_groups\<close> accepts are the normalised ones (trimmed,
  not empty, without repetition), and every accepted name is a user that shares an
  organisation with the allowed ones.\<close>

theorem accepted_operators_in_scope:
  assumes "validate_usernames_in_groups users usernames allowed = Inr (names, None)"
  shows "distinct names \<and> [] \<notin> set names \<and>
    (\<forall>n \<in> set names. \<exists>u \<in> set users. \<exists>gs. us_username u = n \<and>
       normalize_group_ids (us_group_list u) = Inr gs \<and> set gs \<inter> set allowed \<noteq> {})"
  using validate_accepts[OF assms] normalize_props[of usernames] by blast

theorem accepted_operators_in_scope_witness:
  "validate_usernames_in_groups (db_users sample_db) (JList [JStr '' alice '', JStr ''bob'', JStr ''alice'']) [1]
     = Inr ([''alice'', ''bob''], None) \<and> distinct [''alice'', ''bob'']"
proof -
  have v: "validate_usernames_in_groups (db_users sample_db)
      (JList [JStr '' alice '', JStr ''bob'', JStr ''alice'']) [1] = Inr ([''alice'', ''bob''], None)"
    by code_simp
  with accepted_operators_in_scope[OF v] show ?thesis by blast
qed

end
