(* ===== verification/Alert_Operator.thy ===== *)
theory Alert_Operator
  imports Reminder Operator_Scope
begin

text \<open>
  The manual operations on alerts (\<open>service/alter_operator.py\<close>, with the default channel of
  \<open>service/base.py\<close> and the batch entry point of \<open>views/alert.py\<close>): assign, acknowledge,
  reassign, close, resolve. Every handler is one transaction; it returns a result with a
  message, or raises. Messages are values of a datatype, the free text of the operation log
  is left out, and an instant stands for its ISO text. The deferred effects are emitted in
  the order of their registration.
\<close>

section \<open>Operations and results\<close>

datatype operation = Op_assign | Op_acknowledge | Op_reassign | Op_close | Op_resolve

text \<open>\<open>getattr(self, f"_{action}_alert", None)\<close>.\<close>

definition operation_of :: "string \<Rightarrow> operation option" where
  "operation_of action =
     (if action = ''assign'' then Some Op_assign
      else if action = ''acknowledge'' then Some Op_acknowledge
      else if action = ''reassign'' then Some Op_reassign
      else if action = ''close'' then Some Op_close
      else if action = ''resolve'' then Some Op_resolve
      else None)"

datatype op_message =
    NotAllowed
  | NoSuchAlert
  | WrongStatus operation alert_status
  | NoAssignee
  | ScopeError scope_message
  | NoPermission operation
  | Succeeded operation
  | Raised py_exc

record op_data =
  od_alert_id :: string
  od_status :: alert_status
  od_operator :: "json list option"
  od_old_operator :: "json list option"
  od_note :: "json option"
  od_updated_at :: int

record op_result =
  or_result :: bool
  or_message :: op_message
  or_data :: "op_data option"

definition refuse :: "op_message \<Rightarrow> op_result res" where
  "refuse m = Inr \<lparr>or_result = False, or_message = m, or_data = None\<rparr>"

definition accept :: "operation \<Rightarrow> op_data \<Rightarrow> op_result res" where
  "accept op d = Inr \<lparr>or_result = True, or_message = Succeeded op, or_data = Some d\<rparr>"

type_synonym request = "(string \<times> json) list"

definition data_get :: "request \<Rightarrow> string \<Rightarrow> json \<Rightarrow> json" where
  "data_get data k d = (case map_of data k of None \<Rightarrow> d | Some v \<Rightarrow> v)"

section \<open>Notifications of the operations\<close>

definition get_default_notify_params :: "db \<Rightarrow> string \<times> int option" where
  "get_default_notify_params s = (''email'', db_email_channel s)"

text \<open>The default e-mail channel, to everybody but the acting user.\<close>

definition format_notify_data ::
  "notify_format \<Rightarrow> string \<Rightarrow> string list \<Rightarrow> alert \<Rightarrow> db \<Rightarrow> nparam list res" where
  "format_notify_data nf user assignee a s =
     (case get_default_notify_params s of (channel, cid) \<Rightarrow>
        (case cid of
           None \<Rightarrow> Inr []
         | Some c \<Rightarrow>
             if c = 0 then Inr []
             else build_channel_params nf (map JStr (filter (\<lambda>u. u \<noteq> user) assignee))
                    (JList [JObj [(''channel_type'', JStr channel), (''id'', JInt c)]]) [a] (al_alert_id a)))"

text \<open>The channels of the policy, to all assignees.\<close>

definition format_assignment_notify_data ::
  "notify_format \<Rightarrow> assignment option \<Rightarrow> string list \<Rightarrow> alert \<Rightarrow> nparam list res" where
  "format_assignment_notify_data nf asg assignee a =
     (case asg of
        None \<Rightarrow> Inr []
      | Some g \<Rightarrow> build_channel_params nf (map JStr assignee)
                    (py_or (as_notify_channels g) (JList [])) [a] (al_alert_id a))"

section \<open>Reminder and escalation tasks of an operation\<close>

text \<open>The helpers swallow every exception; the writes made before it stay in the enclosing
  transaction. They return the alert object, which the escalation service may have changed.\<close>

definition create_reminder_record :: "int \<Rightarrow> alert \<Rightarrow> assignment \<Rightarrow> db \<Rightarrow> db" where
  "create_reminder_record now a asg s = snd (create_reminder_task now a asg s)"

definition stop_reminder_tasks :: "alert \<Rightarrow> db \<Rightarrow> db" where
  "stop_reminder_tasks a s = snd (stop_reminder_task a s)"

definition ensure_reminder_tasks :: "int \<Rightarrow> alert \<Rightarrow> json \<Rightarrow> db \<Rightarrow> db" where
  "ensure_reminder_tasks now a asg_id s =
     (let normalized = (if none_or_empty asg_id then JNull
                        else case py_int asg_id of Inl _ \<Rightarrow> JNull | Inr i \<Rightarrow> JInt i)
      in snd (ensure_reminder_task now a None normalized s))"

definition swallow_task :: "alert \<Rightarrow> (escalation option \<times> alert) res \<times> db \<Rightarrow> alert \<times> db" where
  "swallow_task a r = (case r of (Inl _, t) \<Rightarrow> (a, t) | (Inr (_, b), t) \<Rightarrow> (b, t))"

definition create_escalation_tasks :: "int \<Rightarrow> alert \<Rightarrow> assignment \<Rightarrow> db \<Rightarrow> alert \<times> db" where
  "create_escalation_tasks now a asg s = swallow_task a (create_escalation_task now a asg s)"

definition stop_escalation_tasks :: "int \<Rightarrow> alert \<Rightarrow> db \<Rightarrow> db" where
  "stop_escalation_tasks now a s = snd (stop_escalation_task now a s)"

text \<open>\<open>AlertAssignment.objects.filter(id=..., is_active=True).first()\<close>.\<close>

definition active_assignment :: "json \<Rightarrow> db \<Rightarrow> assignment option res" where
  "active_assignment asg_id s =
     (case py_int asg_id of
        Inl e \<Rightarrow> Inl e
      | Inr i \<Rightarrow> Inr (case find_assignment i s of
            Some g \<Rightarrow> if as_is_active g then Some g else None
          | None \<Rightarrow> None))"

definition reset_escalation_tasks :: "int \<Rightarrow> alert \<Rightarrow> json \<Rightarrow> db \<Rightarrow> alert \<times> db" where
  "reset_escalation_tasks now a asg_id s =
     (if none_or_empty asg_id then swallow_task a (reset_escalation_task now a None s)
      else case active_assignment asg_id s of
        Inl _ \<Rightarrow> (a, s)
      | Inr g \<Rightarrow> swallow_task a (reset_escalation_task now a g s))"

section \<open>The handlers\<close>

text \<open>The tasks a policy brings to a freshly assigned alert.\<close>

definition assign_tasks :: "int \<Rightarrow> assignment option \<Rightarrow> alert \<Rightarrow> db \<Rightarrow> alert \<times> db" where
  "assign_tasks now asg a s =
     (case asg of
        Some g \<Rightarrow> create_escalation_tasks now a g (create_reminder_record now a g s)
      | None \<Rightarrow> (a, s))"

definition assign_alert ::
  "notify_format \<Rightarrow> int \<Rightarrow> string \<Rightarrow> string \<Rightarrow> request \<Rightarrow> db \<Rightarrow> op_result res \<times> db" where
  "assign_alert nf now user aid data = atomic (\<lambda>s.
     case find_alert aid s of
       None \<Rightarrow> (refuse NoSuchAlert, s)
     | Some a0 \<Rightarrow>
         if al_status a0 \<noteq> A_UNASSIGNED then (refuse (WrongStatus Op_assign (al_status a0)), s)
         else let assignee0 = data_get data ''assignee'' (JList []) in
         if \<not> truthy assignee0 then (refuse NoAssignee, s)
         else case validate_alert_assignees (db_users s) a0 assignee0 of
           Inl e \<Rightarrow> (Inl e, s)
         | Inr (assignee, Some m) \<Rightarrow> (refuse (ScopeError m), s)
         | Inr (assignee, None) \<Rightarrow>
             let a1 = a0\<lparr>al_status := A_PENDING, al_operate := Some OP_ASSIGN,
                         al_operator := map JStr assignee, al_updated_at := now\<rparr>;
                 s1 = save_alert a1 s;
                 asg_id = data_get data ''assignment_id'' JNull
             in case (if truthy asg_id then active_assignment asg_id s1 else Inr None) of
                  Inl e \<Rightarrow> (Inl e, s1)
                | Inr asg \<Rightarrow>
                    let (a2, s2) = assign_tasks now asg a1 s1;
                        s3 = emit (ActionDispatch (al_alert_id a2) ''assigned'') s2
                    in case (case asg of
                               Some g \<Rightarrow> format_assignment_notify_data nf asg assignee a2
                             | None \<Rightarrow> format_notify_data nf user assignee a2 s3) of
                         Inl e \<Rightarrow> (Inl e, s3)
                       | Inr ps \<Rightarrow>
                           let s4 = snd (enqueue_notifications ps s3);
                               s5 = add_log \<lparr>lg_operator = user, lg_kind = LogAssign,
                                             lg_target = al_alert_id a2\<rparr> s4
                           in (accept Op_assign \<lparr>od_alert_id = aid, od_status = al_status a2,
                                 od_operator = Some (al_operator a2), od_old_operator = None,
                                 od_note = None, od_updated_at = al_updated_at a2\<rparr>, s5))"

definition acknowledge_alert ::
  "int \<Rightarrow> string \<Rightarrow> string \<Rightarrow> request \<Rightarrow> db \<Rightarrow> op_result res \<times> db" where
  "acknowledge_alert now user aid data = atomic (\<lambda>s.
     case find_alert aid s of
       None \<Rightarrow> (refuse NoSuchAlert, s)
     | Some a0 \<Rightarrow>
         if al_status a0 \<noteq> A_PENDING then (refuse (WrongStatus Op_acknowledge (al_status a0)), s)
         else if JStr user \<notin> set (al_operator a0) then (refuse (NoPermission Op_acknowledge), s)
         else
           let a1 = a0\<lparr>al_status := A_PROCESSING, al_operate := Some OP_ACKNOWLEDGE, al_updated_at := now\<rparr>;
               s1 = emit (ActionDispatch (al_alert_id a1) ''acknowledged'') (save_alert a1 s);
               s2 = stop_escalation_tasks now a1 (stop_reminder_tasks a1 s1);
               s3 = add_log \<lparr>lg_operator = user, lg_kind = LogAcknowledge, lg_target = al_alert_id a1\<rparr> s2
           in (accept Op_acknowledge \<lparr>od_alert_id = aid, od_status = al_status a1, od_operator = None,
                 od_old_operator = None, od_note = None, od_updated_at = al_updated_at a1\<rparr>, s3))"

definition reassign_alert ::
  "notify_format \<Rightarrow> int \<Rightarrow> string \<Rightarrow> string \<Rightarrow> request \<Rightarrow> db \<Rightarrow> op_result res \<times> db" where
  "reassign_alert nf now user aid data = atomic (\<lambda>s.
     case find_alert aid s of
       None \<Rightarrow> (refuse NoSuchAlert, s)
     | Some a0 \<Rightarrow>
         if al_status a0 \<noteq> A_PROCESSING then (refuse (WrongStatus Op_reassign (al_status a0)), s)
         else if JStr user \<notin> set (al_operator a0) then (refuse (NoPermission Op_reassign), s)
         else let new0 = data_get data ''assignee'' (JList []) in
         if \<not> truthy new0 then (refuse NoAssignee, s)
         else case validate_alert_assignees (db_users s) a0 new0 of
           Inl e \<Rightarrow> (Inl e, s)
         | Inr (new_assignee, Some m) \<Rightarrow> (refuse (ScopeError m), s)
         | Inr (new_assignee, None) \<Rightarrow>
             let a1 = a0\<lparr>al_status := A_PENDING, al_operate := Some OP_REASSIGN,
                         al_operator := map JStr new_assignee, al_updated_at := now\<rparr>;
                 s1 = emit (ActionDispatch (al_alert_id a1) ''reassigned'') (save_alert a1 s)
             in case format_notify_data nf user new_assignee a1 s1 of
                  Inl e \<Rightarrow> (Inl e, s1)
                | Inr ps \<Rightarrow>
                    let asg_id = data_get data ''assignment_id'' JNull;
                        s2 = ensure_reminder_tasks now a1 asg_id (snd (enqueue_notifications ps s1));
                        (a2, s3) = reset_escalation_tasks now a1 asg_id s2;
                        s4 = add_log \<lparr>lg_operator = user, lg_kind = LogReassign, lg_target = al_alert_id a2\<rparr> s3
                    in (accept Op_reassign \<lparr>od_alert_id = aid, od_status = al_status a2,
                          od_operator = Some (al_operator a2), od_old_operator = Some (al_operator a0),
                          od_note = None, od_updated_at = al_updated_at a2\<rparr>, s4))"

definition close_alert ::
  "int \<Rightarrow> string \<Rightarrow> string \<Rightarrow> request \<Rightarrow> json \<Rightarrow> db \<Rightarrow> op_result res \<times> db" where
  "close_alert now user aid data default_reason = atomic (\<lambda>s.
     case find_alert aid s of
       None \<Rightarrow> (refuse NoSuchAlert, s)
     | Some a0 \<Rightarrow>
         if al_status a0 \<noteq> A_PROCESSING then (refuse (WrongStatus Op_close (al_status a0)), s)
         else if JStr user \<notin> set (al_operator a0) then (refuse (NoPermission Op_close), s)
         else
           let reason = data_get data ''reason'' default_reason;
               a1 = a0\<lparr>al_status := A_CLOSED, al_operate := Some OP_CLOSE, al_updated_at := now\<rparr>;
               s1 = emit (ActionDispatch (al_alert_id a1) ''closed'') (save_alert a1 s);
               s2 = add_log \<lparr>lg_operator = user, lg_kind = LogClose, lg_target = al_alert_id a1\<rparr> s1
           in (accept Op_close \<lparr>od_alert_id = aid, od_status = al_status a1, od_operator = None,
                 od_old_operator = None, od_note = Some reason, od_updated_at = al_updated_at a1\<rparr>, s2))"

definition resolve_alert ::
  "int \<Rightarrow> string \<Rightarrow> string \<Rightarrow> request \<Rightarrow> json \<Rightarrow> db \<Rightarrow> op_result res \<times> db" where
  "resolve_alert now user aid data default_note = atomic (\<lambda>s.
     case find_alert aid s of
       None \<Rightarrow> (refuse NoSuchAlert, s)
     | Some a0 \<Rightarrow>
         if al_status a0 \<noteq> A_PROCESSING then (refuse (WrongStatus Op_resolve (al_status a0)), s)
         else if JStr user \<notin> set (al_operator a0) then (refuse (NoPermission Op_resolve), s)
         else
           let note = data_get data ''note'' default_note;
               a1 = a0\<lparr>al_status := A_RESOLVED, al_updated_at := now\<rparr>;
               s1 = emit (ActionDispatch (al_alert_id a1) ''resolved'') (save_alert a1 s);
               s2 = add_log \<lparr>lg_operator = user, lg_kind = LogResolve, lg_target = al_alert_id a1\<rparr> s1
           in (accept Op_resolve \<lparr>od_alert_id = aid, od_status = al_status a1, od_operator = None,
                 od_old_operator = None, od_note = Some note, od_updated_at = al_updated_at a1\<rparr>, s2))"

section \<open>operate and the batch\<close>

text \<open>The default texts of a missing reason or note are Chinese sentences; they are named
  here by a constant.\<close>

definition default_reason :: json where "default_reason = JStr ''<default reason>''"
definition default_note :: json where "default_note = JStr ''<default note>''"

fun handle :: "notify_format \<Rightarrow> operation \<Rightarrow> int \<Rightarrow> string \<Rightarrow> string \<Rightarrow> request \<Rightarrow> db \<Rightarrow> op_result res \<times> db" where
  "handle nf Op_assign now user aid data = assign_alert nf now user aid data"
| "handle nf Op_acknowledge now user aid data = acknowledge_alert now user aid data"
| "handle nf Op_reassign now user aid data = reassign_alert nf now user aid data"
| "handle nf Op_close now user aid data = close_alert now user aid data default_reason"
| "handle nf Op_resolve now user aid data = resolve_alert now user aid data default_note"

definition is_alert_allowed :: "string list option \<Rightarrow> string \<Rightarrow> bool" where
  "is_alert_allowed allowed aid = (case allowed of None \<Rightarrow> True | Some ids \<Rightarrow> aid \<in> set ids)"

definition operate ::
  "notify_format \<Rightarrow> int \<Rightarrow> string \<Rightarrow> string list option \<Rightarrow> string \<Rightarrow> string \<Rightarrow> request \<Rightarrow> db
   \<Rightarrow> op_result res \<times> db" where
  "operate nf now user allowed action aid data s =
     (case operation_of action of
        None \<Rightarrow> (Inl ValueError, s)
      | Some op \<Rightarrow>
          if \<not> is_alert_allowed allowed aid then (refuse NotAllowed, s)
          else handle nf op now user aid data s)"

text \<open>The batch of \<open>AlertModelViewSet.operator\<close>: each alert on its own, an exception becomes
  a failed result. A repeated id overwrites its entry of the result dict.\<close>

definition batch_step ::
  "notify_format \<Rightarrow> int \<Rightarrow> string \<Rightarrow> string list \<Rightarrow> string \<Rightarrow> request \<Rightarrow> string
   \<Rightarrow> (string \<times> op_result) list \<times> bool list \<times> db \<Rightarrow> (string \<times> op_result) list \<times> bool list \<times> db" where
  "batch_step nf now user allowed action data aid st =
     (case st of (results, statuses, s) \<Rightarrow>
        let (r, t) = (if aid \<notin> set allowed
              then (\<lparr>or_result = False, or_message = NotAllowed, or_data = None\<rparr>, s)
              else case operate nf now user (Some allowed) action aid data s of
                (Inl e, t) \<Rightarrow> (\<lparr>or_result = False, or_message = Raised e, or_data = None\<rparr>, t)
              | (Inr r, t) \<Rightarrow> (r, t))
        in (tsave fst (aid, r) results, statuses @ [or_result r], t))"

datatype batch_status = AllSucceeded | AllFailed | PartlySucceeded

definition operator_batch ::
  "notify_format \<Rightarrow> int \<Rightarrow> string \<Rightarrow> string list \<Rightarrow> string \<Rightarrow> string list \<Rightarrow> request \<Rightarrow> db
   \<Rightarrow> batch_status \<times> (string \<times> op_result) list \<times> db" where
  "operator_batch nf now user allowed action aids data s =
     (case fold (batch_step nf now user allowed action data) aids ([], [], s) of
        (results, statuses, t) \<Rightarrow>
          (if list_all id statuses then AllSucceeded
           else if \<not> list_ex id statuses then AllFailed
           else PartlySucceeded, results, t))"

section \<open>Effect of the task helpers\<close>

text \<open>What a helper does around the alert object \<open>a\<close>: it may extend its operators and change
  its tasks, and nothing else; log and outbox stay as they are.\<close>

definition side_effect :: "alert \<Rightarrow> db \<Rightarrow> alert \<Rightarrow> db \<Rightarrow> bool" where
  "side_effect a s b t \<longleftrightarrow> only (al_pk a) s t \<and> alert_by_pk (al_pk a) t = Some b \<and>
     b = a\<lparr>al_operator := al_operator b, al_updated_at := al_updated_at b\<rparr> \<and> ops_grow a b \<and>
     db_logs t = db_logs s \<and> db_outbox t = db_outbox s"

lemma ops_grow_refl [simp]: "ops_grow a a"
  by (simp add: ops_grow_def)

lemma pk_in: "alert_by_pk k s = Some a \<Longrightarrow> k \<in> al_pk ` set (db_alerts s)"
  by (metis tfind_None option.distinct(1))

lemma side_effect_keep:
  assumes "alert_by_pk (al_pk a) s = Some a" "only (al_pk a) s t" "db_alerts t = db_alerts s"
    "db_logs t = db_logs s" "db_outbox t = db_outbox s"
  shows "side_effect a s a t"
  using assms by (simp add: side_effect_def)

lemma side_effect_trans:
  assumes "side_effect a s b t" "side_effect b t c u"
  shows "side_effect a s c u"
proof -
  have ab: "b = a\<lparr>al_operator := al_operator b, al_updated_at := al_updated_at b\<rparr>"
    and bc: "c = b\<lparr>al_operator := al_operator c, al_updated_at := al_updated_at c\<rparr>"
    using assms by (simp_all add: side_effect_def)
  have pk: "al_pk b = al_pk a" by (subst ab) simp
  have "c = a\<lparr>al_operator := al_operator c, al_updated_at := al_updated_at c\<rparr>"
    by (subst bc, subst ab) simp
  then show ?thesis
    using assms pk only_trans by (auto simp: side_effect_def ops_grow_def)
qed

lemma side_effect_object:
  assumes "side_effect a s b t"
  shows "alert_by_pk (al_pk b) t = Some b" "al_pk b = al_pk a" "al_alert_id b = al_alert_id a"
    "al_status b = al_status a" "al_operate b = al_operate a" "only (al_pk a) s t" "ops_grow a b"
    "db_logs t = db_logs s" "db_outbox t = db_outbox s"
proof -
  have ab: "b = a\<lparr>al_operator := al_operator b, al_updated_at := al_updated_at b\<rparr>"
    using assms by (simp add: side_effect_def)
  show "al_pk b = al_pk a" by (subst ab) simp
  with assms show "alert_by_pk (al_pk b) t = Some b" by (simp add: side_effect_def)
  show "al_alert_id b = al_alert_id a" by (subst ab) simp
  show "al_status b = al_status a" by (subst ab) simp
  show "al_operate b = al_operate a" by (subst ab) simp
  show "only (al_pk a) s t" "ops_grow a b" "db_logs t = db_logs s" "db_outbox t = db_outbox s"
    using assms by (simp_all add: side_effect_def)
qed

lemma union_side_effect:
  assumes "union_into_operator now a ps s = (Inr b, t)" "alert_by_pk (al_pk a) s = Some a"
  shows "side_effect a s b t"
proof -
  have "db_logs t = db_logs s \<and> db_outbox t = db_outbox s"
    using union_into_operator_Inr(4)[OF assms(1)] by (auto split: if_splits)
  with union_into_operator_find[OF assms] union_into_operator_Inr(1,2)[OF assms(1)] show ?thesis
    by (simp add: side_effect_def)
qed

lemma create_escalation_side_effect:
  assumes a: "alert_by_pk (al_pk a) s = Some a" and c: "create_escalation_task now a asg s = r"
  shows "side_effect a s (fst (swallow_task a r)) (snd (swallow_task a r))"
proof -
  have saved: "side_effect a s a (save_escalation e s)" if "es_alert e = al_pk a" for e
    using that pk_in[OF a] by (intro side_effect_keep[OF a]) (simp_all add: only_save_escalation)
  show ?thesis
  proof (cases "\<exists>mode ui chain. parse_escalation_config (as_config asg) = Inr (Some (mode, ui)) \<and>
      build_effective_chain asg ui = Inr chain")
    case False
    then have "swallow_task a r = (a, s)" using c
      by (auto simp: create_escalation_task_def swallow_task_def split: sum.splits option.splits)
    then show ?thesis using a by (simp add: side_effect_keep)
  next
    case True
    then obtain mode ui chain where cfg: "parse_escalation_config (as_config asg) = Inr (Some (mode, ui))"
      and ch: "build_effective_chain asg ui = Inr chain" by blast
    define e where "e = \<lparr>es_alert = al_pk a, es_assignment = as_id asg, es_is_active = True,
       es_mode = mode, es_layers = chain, es_index = 0, es_started_at = now, es_updated_at = now\<rparr>"
    have e: "es_alert e = al_pk a" by (simp add: e_def)
    show ?thesis
    proof (cases "py_nth chain 0")
      case (Inl x)
      then have "swallow_task a r = (a, save_escalation e s)" using c cfg ch
        by (auto simp: create_escalation_task_def swallow_task_def e_def Let_def)
      then show ?thesis using saved[OF e] by simp
    next
      case (Inr l0)
      obtain x t where un: "union_into_operator now a (ly_personnel l0) (save_escalation e s) = (x, t)"
        by fastforce
      have r: "swallow_task a r = (case x of Inl _ \<Rightarrow> (a, t) | Inr b \<Rightarrow> (b, t))"
        using c cfg ch Inr un
        by (auto simp: create_escalation_task_def swallow_task_def e_def[symmetric] Let_def split: sum.splits)
      show ?thesis
      proof (cases x)
        case (Inl y)
        then show ?thesis using un r saved[OF e] by (auto dest: union_into_operator_Inl)
      next
        case b: (Inr b)
        have "side_effect a (save_escalation e s) b t"
          by (rule union_side_effect) (use un b a in simp_all)
        with saved[OF e] r b show ?thesis by (auto intro: side_effect_trans)
      qed
    qed
  qed
qed

lemma reset_escalation_side_effect:
  assumes a: "alert_by_pk (al_pk a) s = Some a"
  shows "side_effect a s (fst (swallow_task a (reset_escalation_task now a g s)))
           (snd (swallow_task a (reset_escalation_task now a g s)))"
  using create_escalation_side_effect[OF a refl] side_effect_keep[OF a]
  by (auto simp: reset_escalation_task_def swallow_task_def split: option.split)

lemma reset_tasks_side_effect:
  assumes a: "alert_by_pk (al_pk a) s = Some a" and r: "reset_escalation_tasks now a i s = (b, t)"
  shows "side_effect a s b t"
  using reset_escalation_side_effect[OF a] side_effect_keep[OF a] r
  by (auto simp: reset_escalation_tasks_def split: if_splits sum.splits) (metis fst_conv snd_conv)+

lemma create_reminder_logs [simp]:
  "db_logs (snd (create_reminder_task now a asg s)) = db_logs s"
  by (cases now a asg s rule: create_reminder_cases) simp_all

lemma create_reminder_side_effect:
  assumes "alert_by_pk (al_pk a) s = Some a"
  shows "side_effect a s a (snd (create_reminder_task now a asg s))"
  using assms create_reminder_only[OF pk_in[OF assms]]
  by (intro side_effect_keep) (simp_all add: create_reminder_frame)

lemma ensure_reminder_side_effect:
  assumes "alert_by_pk (al_pk a) s = Some a"
  shows "side_effect a s a (snd (ensure_reminder_task now a asg i s))"
  using create_reminder_side_effect[OF assms] side_effect_keep[OF assms]
  by (auto simp: ensure_reminder_task_def Let_def split: sum.split option.split)

lemma stop_tasks_side_effect:
  assumes "alert_by_pk (al_pk a) s = Some a"
  shows "side_effect a s a (stop_escalation_tasks now a (stop_reminder_tasks a s))"
proof -
  have r: "side_effect a s a (stop_reminder_tasks a s)"
    using assms stop_reminder_only[of a s]
    by (intro side_effect_keep) (simp_all add: stop_reminder_tasks_def)
  let ?u = "stop_reminder_tasks a s"
  let ?p = "\<lambda>e. es_alert e = al_pk a \<and> es_is_active e"
  let ?f = "\<lambda>e. e\<lparr>es_is_active := False, es_updated_at := now\<rparr>"
  have st: "stop_escalation_tasks now a ?u = ?u\<lparr>db_escalations := tupdate ?p ?f (db_escalations ?u)\<rparr>"
    by (simp add: stop_escalation_tasks_def stop_escalation_task_def Let_def)
  have "find_escalation j (stop_escalation_tasks now a ?u) = find_escalation j ?u" if "j \<noteq> al_pk a" for j
    using that by (cases "find_escalation j ?u") (auto simp: st tfind_tupdate dest: tfind_key)
  moreover have "wf_db ?u \<Longrightarrow> wf_db (stop_escalation_tasks now a ?u)"
    by (simp add: wf_db_def st keyed_tupdate keys_tupdate)
  ultimately have "only (al_pk a) ?u (stop_escalation_tasks now a ?u)"
    by (simp add: only_def st)
  moreover have "alert_by_pk (al_pk a) ?u = Some a"
    using r by (simp add: side_effect_def)
  ultimately have "side_effect a ?u a (stop_escalation_tasks now a ?u)"
    by (intro side_effect_keep) (simp_all add: st)
  with r show ?thesis by (rule side_effect_trans)
qed

section \<open>Effect of the handlers\<close>

fun op_source :: "operation \<Rightarrow> alert_status" where
  "op_source Op_assign = A_UNASSIGNED"
| "op_source Op_acknowledge = A_PENDING"
| "op_source Op_reassign = A_PROCESSING"
| "op_source Op_close = A_PROCESSING"
| "op_source Op_resolve = A_PROCESSING"

fun op_target :: "operation \<Rightarrow> alert_status" where
  "op_target Op_assign = A_PENDING"
| "op_target Op_acknowledge = A_PROCESSING"
| "op_target Op_reassign = A_PENDING"
| "op_target Op_close = A_CLOSED"
| "op_target Op_resolve = A_RESOLVED"

fun op_event :: "operation \<Rightarrow> string" where
  "op_event Op_assign = ''assigned''"
| "op_event Op_acknowledge = ''acknowledged''"
| "op_event Op_reassign = ''reassigned''"
| "op_event Op_close = ''closed''"
| "op_event Op_resolve = ''resolved''"

fun op_log :: "operation \<Rightarrow> log_kind" where
  "op_log Op_assign = LogAssign"
| "op_log Op_acknowledge = LogAcknowledge"
| "op_log Op_reassign = LogReassign"
| "op_log Op_close = LogClose"
| "op_log Op_resolve = LogResolve"

text \<open>The contract of a successful operation: the alert was in the source state, the user was
  one of its operators (except for an assignment), afterwards it is in the target state (with
  no operator lost unless they were replaced by the request), one
  log entry was written, the automatic actions of the event were queued first, and no other
  alert changed.\<close>

definition performed :: "operation \<Rightarrow> string \<Rightarrow> string \<Rightarrow> db \<Rightarrow> db \<Rightarrow> bool" where
  "performed op user aid s t \<longleftrightarrow>
     (\<exists>a b msgs. find_alert aid s = Some a \<and> al_status a = op_source op \<and>
        (op \<noteq> Op_assign \<longrightarrow> JStr user \<in> set (al_operator a)) \<and>
        only (al_pk a) s t \<and> alert_by_pk (al_pk a) t = Some b \<and> al_alert_id b = aid \<and>
        al_status b = op_target op \<and> (op \<notin> {Op_assign, Op_reassign} \<longrightarrow> ops_grow a b) \<and>
        db_outbox t = db_outbox s @ ActionDispatch aid (op_event op) # msgs \<and>
        db_logs t = db_logs s @ [\<lparr>lg_operator = user, lg_kind = op_log op, lg_target = aid\<rparr>])"

definition failed :: "op_result res \<Rightarrow> bool" where
  "failed r \<longleftrightarrow> (case r of Inl _ \<Rightarrow> True | Inr x \<Rightarrow> \<not> or_result x)"

lemma failed_simps [simp]: "failed (Inl e)" "failed (refuse m)" "\<not> failed (accept op d)"
  by (simp_all add: failed_def refuse_def accept_def)

lemma save_changed_alert:
  assumes "wf_db s" "find_alert aid s = Some a" "al_pk a1 = al_pk a" "al_alert_id a1 = al_alert_id a"
  shows "only (al_pk a) s (save_alert a1 s)" "alert_by_pk (al_pk a1) (save_alert a1 s) = Some a1"
    "al_alert_id a1 = aid"
  using assms wf_db_alert_ids[OF assms(1,2)] tfind_key[OF assms(2)]
  by (auto simp: row_simps intro: only_save_alert)

text \<open>The common end of all handlers: after the changed alert was saved, effects, helpers and
  the log follow.\<close>

lemma performedI:
  assumes "wf_db s" "find_alert aid s = Some a" "al_status a = op_source op"
    "op \<noteq> Op_assign \<Longrightarrow> JStr user \<in> set (al_operator a)"
    "al_pk a1 = al_pk a" "al_alert_id a1 = al_alert_id a" "al_status a1 = op_target op"
    "op \<notin> {Op_assign, Op_reassign} \<Longrightarrow> al_operator a1 = al_operator a"
    and h: "side_effect a1 u b v" "db_alerts u = db_alerts (save_alert a1 s)"
      "only (al_pk a) (save_alert a1 s) u"
    and o: "db_outbox t = db_outbox s @ ActionDispatch aid (op_event op) # msgs"
      "db_logs t = db_logs s @ [\<lparr>lg_operator = user, lg_kind = op_log op, lg_target = aid\<rparr>]"
      "only (al_pk a) v t" "db_alerts t = db_alerts v"
  shows "performed op user aid s t"
proof -
  note sv = save_changed_alert[OF assms(1,2,5,6)]
  note se = side_effect_object[OF h(1)]
  have "only (al_pk a) s t"
    using sv(1) h(3) se(6) o(3) assms(5) only_trans by metis
  moreover have "alert_by_pk (al_pk a) t = Some b" using se(1,2) o(4) assms(5) by simp
  moreover have "al_alert_id b = aid" "al_status b = op_target op"
    using se(3,4) sv(3) assms(7) by simp_all
  moreover have "op \<notin> {Op_assign, Op_reassign} \<longrightarrow> ops_grow a b"
    using assms(8) se(7) by (auto simp: ops_grow_def)
  ultimately show ?thesis unfolding performed_def using assms(2-4) o(1,2) by blast
qed

lemma acknowledge_effect:
  assumes "wf_db s" "acknowledge_alert now user aid data s = (r, t)"
  shows "if failed r then t = s else performed Op_acknowledge user aid s t"
proof (cases "\<exists>a. find_alert aid s = Some a \<and> al_status a = A_PENDING \<and> JStr user \<in> set (al_operator a)")
  case False
  then show ?thesis using assms(2)
    by (auto simp: acknowledge_alert_def atomic_def refuse_def failed_def split: option.splits if_splits)
next
  case True
  then obtain a where a: "find_alert aid s = Some a" "al_status a = A_PENDING"
    "JStr user \<in> set (al_operator a)" by blast
  define a1 where "a1 = a\<lparr>al_status := A_PROCESSING, al_operate := Some OP_ACKNOWLEDGE, al_updated_at := now\<rparr>"
  define s1 where "s1 = emit (ActionDispatch aid ''acknowledged'') (save_alert a1 s)"
  define s2 where "s2 = stop_escalation_tasks now a1 (stop_reminder_tasks a1 s1)"
  have id: "al_alert_id a = aid" using a(1) by (rule tfind_key)
  have a1: "al_pk a1 = al_pk a" "al_alert_id a1 = al_alert_id a" "al_status a1 = A_PROCESSING"
    "al_operator a1 = al_operator a"
    by (simp_all add: a1_def)
  have rt: "\<not> failed r" "t = add_log \<lparr>lg_operator = user, lg_kind = LogAcknowledge, lg_target = aid\<rparr> s2"
    using assms(2) a id
    by (auto simp: acknowledge_alert_def atomic_def accept_def failed_def a1_def s1_def s2_def Let_def)
  have "side_effect a1 s1 a1 s2" unfolding s2_def
    by (rule stop_tasks_side_effect)
       (use save_changed_alert(2)[OF assms(1) a(1) a1(1,2)] in \<open>simp add: s1_def\<close>)
  moreover from side_effect_object(8,9)[OF this] have "db_logs s2 = db_logs s"
    "db_outbox s2 = db_outbox s @ [ActionDispatch aid ''acknowledged'']" by (simp_all add: s1_def)
  ultimately have "performed Op_acknowledge user aid s t"
    using a a1 rt(2) by (intro performedI[OF assms(1) a(1), of _ _ a1 s1 a1 s2]) (simp_all add: s1_def)
  with rt(1) show ?thesis by simp
qed

text \<open>Close and resolve only save the alert, queue the actions and write the log.\<close>

lemma plain_performed:
  assumes "wf_db s" "find_alert aid s = Some a" "al_status a = op_source op"
    "JStr user \<in> set (al_operator a)"
    "al_pk a1 = al_pk a" "al_alert_id a1 = al_alert_id a" "al_status a1 = op_target op"
    "al_operator a1 = al_operator a"
  shows "performed op user aid s (add_log \<lparr>lg_operator = user, lg_kind = op_log op, lg_target = aid\<rparr>
     (emit (ActionDispatch aid (op_event op)) (save_alert a1 s)))"
proof -
  let ?u = "emit (ActionDispatch aid (op_event op)) (save_alert a1 s)"
  have "side_effect a1 ?u a1 ?u"
    by (rule side_effect_keep) (use save_changed_alert(2)[OF assms(1,2,5,6)] in simp_all)
  then show ?thesis
    using assms by (intro performedI[OF assms(1,2), of _ _ a1 ?u a1 ?u]) simp_all
qed

lemma close_effect:
  assumes "wf_db s" "close_alert now user aid data d s = (r, t)"
  shows "if failed r then t = s else performed Op_close user aid s t"
proof (cases "\<exists>a. find_alert aid s = Some a \<and> al_status a = A_PROCESSING \<and> JStr user \<in> set (al_operator a)")
  case False
  then show ?thesis using assms(2)
    by (auto simp: close_alert_def atomic_def refuse_def failed_def split: option.splits if_splits)
next
  case True
  then obtain a where a: "find_alert aid s = Some a" "al_status a = A_PROCESSING"
    "JStr user \<in> set (al_operator a)" by blast
  then show ?thesis
    using assms(2) tfind_key[OF a(1)]
      plain_performed[OF assms(1) a(1) _ a(3), of Op_close "a\<lparr>al_status := A_CLOSED, al_operate := Some OP_CLOSE, al_updated_at := now\<rparr>"]
    by (auto simp: close_alert_def atomic_def accept_def failed_def Let_def)
qed

lemma resolve_effect:
  assumes "wf_db s" "resolve_alert now user aid data d s = (r, t)"
  shows "if failed r then t = s else performed Op_resolve user aid s t"
proof (cases "\<exists>a. find_alert aid s = Some a \<and> al_status a = A_PROCESSING \<and> JStr user \<in> set (al_operator a)")
  case False
  then show ?thesis using assms(2)
    by (auto simp: resolve_alert_def atomic_def refuse_def failed_def split: option.splits if_splits)
next
  case True
  then obtain a where a: "find_alert aid s = Some a" "al_status a = A_PROCESSING"
    "JStr user \<in> set (al_operator a)" by blast
  then show ?thesis
    using assms(2) tfind_key[OF a(1)]
      plain_performed[OF assms(1) a(1) _ a(3), of Op_resolve "a\<lparr>al_status := A_RESOLVED, al_updated_at := now\<rparr>"]
    by (auto simp: resolve_alert_def atomic_def accept_def failed_def Let_def)
qed

lemma enqueue_effect:
  "only k s (snd (enqueue_notifications ps s))"
  "db_alerts (snd (enqueue_notifications ps s)) = db_alerts s"
  "db_logs (snd (enqueue_notifications ps s)) = db_logs s"
  "\<exists>msgs. db_outbox (snd (enqueue_notifications ps s)) = db_outbox s @ msgs"
  by (auto simp: enqueue_notifications_def)

lemma reassign_effect:
  assumes wf: "wf_db s" and r: "reassign_alert nf now user aid data s = (r, t)"
  shows "if failed r then t = s else performed Op_reassign user aid s t"
proof (cases "failed r")
  case True
  then show ?thesis using r
    by (auto simp: reassign_alert_def atomic_def refuse_def accept_def failed_def Let_def
        split: option.splits if_splits sum.splits prod.splits)
next
  case False
  then obtain a names ps b s3 where a: "find_alert aid s = Some a" "al_status a = A_PROCESSING"
      "JStr user \<in> set (al_operator a)"
    and t: "let a1 = a\<lparr>al_status := A_PENDING, al_operate := Some OP_REASSIGN,
                al_operator := map JStr names, al_updated_at := now\<rparr>;
              s1 = emit (ActionDispatch (al_alert_id a1) ''reassigned'') (save_alert a1 s);
              i = data_get data ''assignment_id'' JNull;
              s2 = ensure_reminder_tasks now a1 i (snd (enqueue_notifications ps s1))
            in reset_escalation_tasks now a1 i s2 = (b, s3) \<and>
               t = add_log \<lparr>lg_operator = user, lg_kind = LogReassign, lg_target = al_alert_id b\<rparr> s3"
    using r unfolding reassign_alert_def atomic_Inr
    by (auto simp: atomic_def failed_def refuse_def accept_def Let_def
        split: option.splits if_splits sum.splits prod.splits)
  define a1 where "a1 = a\<lparr>al_status := A_PENDING, al_operate := Some OP_REASSIGN,
                al_operator := map JStr names, al_updated_at := now\<rparr>"
  have a1: "al_pk a1 = al_pk a" "al_alert_id a1 = al_alert_id a" "al_status a1 = A_PENDING"
    by (simp_all add: a1_def)
  have id: "al_alert_id a = aid" using a(1) by (rule tfind_key)
  define u where "u = snd (enqueue_notifications ps (emit (ActionDispatch aid ''reassigned'') (save_alert a1 s)))"
  define s2 where "s2 = ensure_reminder_tasks now a1 (data_get data ''assignment_id'' JNull) u"
  have t': "reset_escalation_tasks now a1 (data_get data ''assignment_id'' JNull) s2 = (b, s3)"
    "t = add_log \<lparr>lg_operator = user, lg_kind = LogReassign, lg_target = al_alert_id b\<rparr> s3"
    using t id by (simp_all add: Let_def a1_def s2_def u_def)
  have u: "alert_by_pk (al_pk a1) u = Some a1"
    using save_changed_alert(2)[OF wf a(1) a1(1,2)] by (simp add: u_def enqueue_effect)
  have e1: "side_effect a1 u a1 s2"
    unfolding s2_def ensure_reminder_tasks_def Let_def by (rule ensure_reminder_side_effect[OF u])
  have "side_effect a1 s2 b s3"
    by (rule reset_tasks_side_effect[OF _ t'(1)]) (use e1 in \<open>simp add: side_effect_def\<close>)
  with e1 have e: "side_effect a1 u b s3" by (rule side_effect_trans)
  obtain msgs where m: "db_outbox u = db_outbox s @ ActionDispatch aid ''reassigned'' # msgs"
    using enqueue_effect(4)[of ps "emit (ActionDispatch aid ''reassigned'') (save_alert a1 s)"]
    by (auto simp: u_def)
  have ua: "db_alerts u = db_alerts (save_alert a1 s)" "only (al_pk a) (save_alert a1 s) u" "db_logs u = db_logs s"
    using only_trans[OF only_emit enqueue_effect(1)] by (simp_all add: u_def enqueue_effect)
  have "performed Op_reassign user aid s t"
    using a a1 t'(2) side_effect_object[OF e] m id ua
    by (intro performedI[OF wf a(1), of _ _ a1 u b s3]) (simp_all add: e)
  with False show ?thesis by simp
qed

lemma assign_effect:
  assumes wf: "wf_db s" and r: "assign_alert nf now user aid data s = (r, t)"
  shows "if failed r then t = s else performed Op_assign user aid s t"
proof (cases "failed r")
  case True
  then show ?thesis using r
    by (auto simp: assign_alert_def atomic_def refuse_def accept_def failed_def Let_def
        split: option.splits if_splits sum.splits prod.splits)
next
  case False
  then obtain a names ps asg b s2 where a: "find_alert aid s = Some a" "al_status a = A_UNASSIGNED"
    and t: "let a1 = a\<lparr>al_status := A_PENDING, al_operate := Some OP_ASSIGN,
                al_operator := map JStr names, al_updated_at := now\<rparr>;
              s1 = save_alert a1 s
            in assign_tasks now asg a1 s1 = (b, s2) \<and>
               t = add_log \<lparr>lg_operator = user, lg_kind = LogAssign, lg_target = al_alert_id b\<rparr>
                     (snd (enqueue_notifications ps (emit (ActionDispatch (al_alert_id b) ''assigned'') s2)))"
    using r unfolding assign_alert_def
    by (auto simp: atomic_def failed_def refuse_def accept_def Let_def
        split: option.splits if_splits sum.splits prod.splits)
  define a1 where "a1 = a\<lparr>al_status := A_PENDING, al_operate := Some OP_ASSIGN,
                al_operator := map JStr names, al_updated_at := now\<rparr>"
  have a1: "al_pk a1 = al_pk a" "al_alert_id a1 = al_alert_id a" "al_status a1 = A_PENDING"
    by (simp_all add: a1_def)
  have id: "al_alert_id a = aid" using a(1) by (rule tfind_key)
  note u = save_changed_alert(2)[OF wf a(1) a1(1,2)]
  have e: "side_effect a1 (save_alert a1 s) b s2"
  proof (cases asg)
    case None
    then show ?thesis using t u by (auto simp: Let_def a1_def assign_tasks_def intro: side_effect_keep)
  next
    case (Some g)
    let ?u1 = "create_reminder_record now a1 g (save_alert a1 s)"
    have e1: "side_effect a1 (save_alert a1 s) a1 ?u1"
      unfolding create_reminder_record_def by (rule create_reminder_side_effect[OF u])
    have "alert_by_pk (al_pk a1) ?u1 = Some a1" using e1 by (simp add: side_effect_def)
    from create_escalation_side_effect[OF this refl, of now g] have "side_effect a1 ?u1 b s2"
      using t Some by (simp add: Let_def a1_def assign_tasks_def create_escalation_tasks_def)
    with e1 show ?thesis by (rule side_effect_trans)
  qed
  note se = side_effect_object[OF e]
  let ?v = "snd (enqueue_notifications ps (emit (ActionDispatch aid ''assigned'') s2))"
  have t': "t = add_log \<lparr>lg_operator = user, lg_kind = LogAssign, lg_target = aid\<rparr> ?v"
    using t id se(3) a1 by (simp add: Let_def)
  obtain msgs where m: "db_outbox t = db_outbox s @ ActionDispatch aid ''assigned'' # msgs"
    using enqueue_effect(4)[of ps "emit (ActionDispatch aid ''assigned'') s2"] se(9) t' by auto
  have "only (al_pk a) s2 t" unfolding t'
    by (rule only_trans[OF only_trans[OF only_emit enqueue_effect(1)] only_add_log])
  then have "performed Op_assign user aid s t"
    using a a1 m id t' se(8) by (intro performedI[OF wf a(1), of _ _ a1 "save_alert a1 s" b s2])
      (simp_all add: e enqueue_effect)
  with False show ?thesis by simp
qed

lemma handle_effect:
  assumes "wf_db s" "handle nf op now user aid data s = (r, t)"
  shows "if failed r then t = s else performed op user aid s t"
  using assms assign_effect acknowledge_effect reassign_effect close_effect resolve_effect
  by (cases op) auto

section \<open>Operations as an interface\<close>

text \<open>What a caller may rely on when it runs an operation on one alert: a failure leaves no
  trace, a success is confined to the alert. From this follow the properties of running it
  on a list of alerts.\<close>

locale alert_op =
  fixes run :: "string \<Rightarrow> db \<Rightarrow> op_result res \<times> db"
  assumes run_failed: "wf_db s \<Longrightarrow> run aid s = (r, t) \<Longrightarrow> failed r \<Longrightarrow> t = s"
    and run_success: "wf_db s \<Longrightarrow> run aid s = (r, t) \<Longrightarrow> \<not> failed r \<Longrightarrow>
      \<exists>a. find_alert aid s = Some a \<and> only (al_pk a) s t"
begin

lemma run_wf: "wf_db s \<Longrightarrow> run aid s = (r, t) \<Longrightarrow> wf_db t"
  using run_failed run_success onlyD(1) by (cases "failed r") blast+

lemma run_id:
  "wf_db s \<Longrightarrow> run aid s = (r, t) \<Longrightarrow>
   map_option al_alert_id (alert_by_pk k t) = map_option al_alert_id (alert_by_pk k s)"
  using run_failed run_success onlyD(7) by (cases "failed r") blast+

lemma run_other:
  assumes "wf_db s" "run aid s = (r, t)" "map_option al_alert_id (alert_by_pk k s) \<noteq> Some aid"
  shows "aview k t = aview k s"
proof (cases "failed r")
  case True
  then show ?thesis using run_failed assms by blast
next
  case False
  then obtain a where a: "find_alert aid s = Some a" "only (al_pk a) s t"
    using run_success assms(1,2) by blast
  have "k \<noteq> al_pk a" using assms(3) wf_db_alert_ids[OF assms(1) a(1)] tfind_key[OF a(1)] by auto
  with a(2) show ?thesis by (rule only_aview)
qed

definition run_all :: "string list \<Rightarrow> db \<Rightarrow> db" where
  "run_all aids s = fold (\<lambda>aid u. snd (run aid u)) aids s"

lemma run_all_wf: "wf_db s \<Longrightarrow> wf_db (run_all aids s)"
  unfolding run_all_def by (induction aids arbitrary: s) (simp_all, metis prod.collapse run_wf)

lemma run_all_other:
  "wf_db s \<Longrightarrow> map_option al_alert_id (alert_by_pk k s) \<notin> Some ` set aids \<Longrightarrow>
   aview k (run_all aids s) = aview k s"
proof (induction aids arbitrary: s)
  case Nil
  then show ?case by (simp add: run_all_def)
next
  case (Cons aid aids)
  let ?t = "snd (run aid s)"
  have r: "run aid s = (fst (run aid s), ?t)" by simp
  have "aview k (run_all aids ?t) = aview k ?t"
    using Cons.prems run_wf[OF Cons.prems(1) r] run_id[OF Cons.prems(1) r, of k]
    by (intro Cons.IH) auto
  moreover have "aview k ?t = aview k s"
    using run_other[OF Cons.prems(1) r] Cons.prems(2) by auto
  ultimately show ?case by (simp add: run_all_def)
qed

end

lemma operate_effect:
  assumes "wf_db s" "operate nf now user allowed action aid data s = (r, t)"
  shows "if failed r then t = s
    else is_alert_allowed allowed aid \<and> (\<exists>op. operation_of action = Some op \<and> performed op user aid s t)"
  using assms handle_effect[OF assms(1), of nf _ now user aid data r t]
  by (auto simp: operate_def split: option.splits if_splits)

interpretation op: alert_op "\<lambda>aid. operate nf now user allowed action aid data"
  for nf now user allowed action data
proof
  fix s aid r t
  assume wf: "wf_db s" and r: "operate nf now user allowed action aid data s = (r, t)"
  note eff = operate_effect[OF wf r]
  show "failed r \<Longrightarrow> t = s" using eff by simp
  show "\<not> failed r \<Longrightarrow> \<exists>a. find_alert aid s = Some a \<and> only (al_pk a) s t"
    using eff by (auto simp: performed_def)
qed

text \<open>The batch is such a run over the allowed ids.\<close>

lemma batch_step_db:
  "snd (snd (batch_step nf now user allowed action data aid st)) =
     (if aid \<in> set allowed then snd (operate nf now user (Some allowed) action aid data (snd (snd st)))
      else snd (snd st))"
  by (auto simp: batch_step_def Let_def split: prod.splits sum.splits)

lemma batch_db:
  "snd (snd (fold (batch_step nf now user allowed action data) aids st)) =
     op.run_all nf now user (Some allowed) action data (filter (\<lambda>x. x \<in> set allowed) aids) (snd (snd st))"
  by (induction aids arbitrary: st) (auto simp: op.run_all_def batch_step_db)

lemma batch_statuses:
  "length (fst (snd (fold (batch_step nf now user allowed action data) aids st))) =
     length (fst (snd st)) + length aids"
  by (induction aids arbitrary: st) (auto simp: batch_step_def Let_def split: prod.splits)

lemma operator_batch_db:
  "operator_batch nf now user allowed action aids data s = (b, results, t) \<Longrightarrow>
   t = op.run_all nf now user (Some allowed) action data (filter (\<lambda>x. x \<in> set allowed) aids) s"
  using batch_db[of nf now user allowed action data aids "([], [], s)"]
  by (auto simp: operator_batch_def split: prod.splits)

lemma stop_escalation_find:
  "find_escalation j (stop_escalation_tasks now a s) =
     map_option (\<lambda>e. if es_alert e = al_pk a \<and> es_is_active e
                    then e\<lparr>es_is_active := False, es_updated_at := now\<rparr> else e) (find_escalation j s)"
  by (simp add: stop_escalation_tasks_def stop_escalation_task_def Let_def tfind_tupdate)

lemma stop_escalation_reminders [simp]: "db_reminders (stop_escalation_tasks now a s) = db_reminders s"
  by (simp add: stop_escalation_tasks_def stop_escalation_task_def Let_def)

lemma acknowledge_stops:
  assumes "acknowledge_alert now user aid data s = (r, t)" "\<not> failed r" "find_alert aid s = Some a"
  shows "\<forall>m. find_reminder (al_pk a) t = Some m \<longrightarrow> \<not> rm_is_active m"
    "\<forall>e. find_escalation (al_pk a) t = Some e \<longrightarrow> \<not> es_is_active e"
proof -
  define a1 where "a1 = a\<lparr>al_status := A_PROCESSING, al_operate := Some OP_ACKNOWLEDGE, al_updated_at := now\<rparr>"
  have "\<exists>l s1. t = add_log l (stop_escalation_tasks now a1 (stop_reminder_tasks a1 s1))"
    using assms
    by (auto simp: acknowledge_alert_def atomic_def refuse_def accept_def failed_def Let_def a1_def
        split: if_splits)
  then obtain s1 l where t: "al_pk a1 = al_pk a"
    "t = add_log l (stop_escalation_tasks now a1 (stop_reminder_tasks a1 s1))"
    by (auto simp: a1_def)
  show "\<forall>m. find_reminder (al_pk a) t = Some m \<longrightarrow> \<not> rm_is_active m"
    by (auto simp: t stop_reminder_tasks_def stop_reminder_find)
  show "\<forall>e. find_escalation (al_pk a) t = Some e \<longrightarrow> \<not> es_is_active e"
    using t(1) tfind_key[of es_alert "al_pk a" "db_escalations (stop_reminder_tasks a1 s1)"]
    by (cases "find_escalation (al_pk a) (stop_reminder_tasks a1 s1)")
       (auto simp: t(2) stop_escalation_find)
qed

section \<open>Properties\<close>

text \<open>C5: every manual operation either fails and leaves the database exactly as it was
  (whether it raised or returned a refusal), or is performed as its contract says: allowed
  alert, right source state, acting user among the operators, target state reached, the
  automatic actions queued before any notification, exactly one log entry, and no other
  alert, reminder or escalation task touched.\<close>

theorem operate_contract:
  assumes "wf_db s" "operate nf now user allowed action aid data s = (r, t)"
  shows "wf_db t \<and> (if failed r then t = s
    else is_alert_allowed allowed aid \<and> (\<exists>op. operation_of action = Some op \<and> performed op user aid s t))"
  using operate_effect[OF assms] op.run_wf[OF assms] by blast

theorem operate_contract_witness:
  "\<exists>op. operation_of ''acknowledge'' = Some op \<and>
     performed op ''alice'' ''A1'' sample_db (snd (operate sample_format 5 ''alice'' None ''acknowledge'' ''A1'' [] sample_db))"
proof -
  obtain r t where o: "operate sample_format 5 ''alice'' None ''acknowledge'' ''A1'' [] sample_db = (r, t)"
    by (metis prod.collapse)
  have "\<not> failed (fst (operate sample_format 5 ''alice'' None ''acknowledge'' ''A1'' [] sample_db))"
    by code_simp
  with operate_contract[OF sample_wf o] o show ?thesis by simp
qed

text \<open>Exactly when the three operations on an assigned alert succeed: claiming needs a
  pending alert, closing and resolving one in processing, and all of them the user among
  its operators.\<close>

theorem operator_actions_enabled:
  "(\<not> failed (fst (operate nf now user allowed ''acknowledge'' aid data s)) \<longleftrightarrow>
      is_alert_allowed allowed aid \<and>
      (\<exists>a. find_alert aid s = Some a \<and> al_status a = A_PENDING \<and> JStr user \<in> set (al_operator a))) \<and>
   (\<not> failed (fst (operate nf now user allowed ''close'' aid data s)) \<longleftrightarrow>
      is_alert_allowed allowed aid \<and>
      (\<exists>a. find_alert aid s = Some a \<and> al_status a = A_PROCESSING \<and> JStr user \<in> set (al_operator a))) \<and>
   (\<not> failed (fst (operate nf now user allowed ''resolve'' aid data s)) \<longleftrightarrow>
      is_alert_allowed allowed aid \<and>
      (\<exists>a. find_alert aid s = Some a \<and> al_status a = A_PROCESSING \<and> JStr user \<in> set (al_operator a)))"
  by (auto simp: operate_def operation_of_def acknowledge_alert_def close_alert_def resolve_alert_def
      atomic_def refuse_def accept_def failed_def Let_def split: option.splits)

text \<open>An alert is claimed at most once: after a successful acknowledgement every further
  one, by any user, is refused and changes nothing.\<close>

theorem claim_once:
  assumes "wf_db s"
    and "operate nf now user allowed ''acknowledge'' aid data s = (r, t)" "\<not> failed r"
    and "operate nf' now' user' allowed' ''acknowledge'' aid data' t = (r', u)"
  shows "failed r' \<and> u = t"
proof -
  have wf: "wf_db t" by (rule op.run_wf[OF assms(1,2)])
  obtain k b where b: "alert_by_pk k t = Some b" "al_alert_id b = aid" "al_status b = A_PROCESSING"
    using operate_effect[OF assms(1,2)] assms(3) by (auto simp: operation_of_def performed_def)
  have "find_alert aid t = Some b"
    using wf tfind_in[OF b(1)] b(2) by (simp add: wf_db_def ltab.lookup_rows)
  then have "failed r'" using operate_effect[OF wf assms(4)] b(3)
    by (auto simp: operation_of_def performed_def split: if_splits)
  with operate_effect[OF wf assms(4)] show ?thesis by simp
qed

definition sample_claimed :: "op_result res \<times> db" where
  "sample_claimed = operate sample_format 5 ''alice'' None ''acknowledge'' ''A1'' [] sample_db"

theorem claim_once_witness:
  "snd (operate sample_format 6 ''alice'' None ''acknowledge'' ''A1'' [] (snd sample_claimed)) = snd sample_claimed"
proof -
  have f: "\<not> failed (fst sample_claimed)" by code_simp
  have c: "operate sample_format 5 ''alice'' None ''acknowledge'' ''A1'' [] sample_db = (fst sample_claimed, snd sample_claimed)"
    by (simp add: sample_claimed_def)
  obtain r u where o: "operate sample_format 6 ''alice'' None ''acknowledge'' ''A1'' [] (snd sample_claimed) = (r, u)"
    by (metis prod.collapse)
  from claim_once[OF sample_wf c f o] o show ?thesis by simp
qed

text \<open>Claiming an alert stops both its reminder task and its escalation task.\<close>

theorem claim_stops_tasks:
  assumes "wf_db s" "find_alert aid s = Some a"
    and "operate nf now user allowed ''acknowledge'' aid data s = (r, t)" "\<not> failed r"
  shows "(\<forall>m. find_reminder (al_pk a) t = Some m \<longrightarrow> \<not> rm_is_active m) \<and>
    (\<forall>e. find_escalation (al_pk a) t = Some e \<longrightarrow> \<not> es_is_active e)"
proof -
  have "acknowledge_alert now user aid data s = (r, t)"
    using assms(3,4) by (auto simp: operate_def operation_of_def split: if_splits)
  from acknowledge_stops[OF this assms(4,2)] show ?thesis by blast
qed

theorem claim_stops_tasks_witness:
  "\<not> rm_is_active (the (find_reminder 1 (snd sample_claimed)))"
proof -
  have m: "find_reminder 1 (snd sample_claimed) = Some (the (find_reminder 1 (snd sample_claimed)))"
    by code_simp
  have f: "\<not> failed (fst sample_claimed)" by code_simp
  have a: "find_alert ''A1'' sample_db = Some sample_alert"
    by (simp add: sample_db_def tfind_def sample_alert_def)
  have c: "operate sample_format 5 ''alice'' None ''acknowledge'' ''A1'' [] sample_db = (fst sample_claimed, snd sample_claimed)"
    by (simp add: sample_claimed_def)
  have k: "al_pk sample_alert = 1" by (simp add: sample_alert_def)
  from claim_stops_tasks[OF sample_wf a c f] m show ?thesis unfolding k by blast
qed

text \<open>A batch request is isolated: it keeps the database well formed, and an alert whose
  id is not among the requested and allowed ones keeps its rows, whatever happens to the
  others (refusals and exceptions included).\<close>

theorem batch_isolated:
  assumes "wf_db s" "operator_batch nf now user allowed action aids data s = (b, results, t)"
    and "\<forall>a. alert_by_pk k s = Some a \<longrightarrow> al_alert_id a \<notin> set aids \<inter> set allowed"
  shows "wf_db t \<and> aview k t = aview k s"
proof -
  have "map_option al_alert_id (alert_by_pk k s) \<notin> Some ` set (filter (\<lambda>x. x \<in> set allowed) aids)"
    using assms(3) by auto
  with assms(1) show ?thesis
    unfolding operator_batch_db[OF assms(2)] by (simp add: op.run_all_wf op.run_all_other)
qed

theorem batch_isolated_witness:
  "aview 1 (snd (snd (operator_batch sample_format 5 ''bob'' [''A2''] ''close'' [''A1'', ''A2''] [] sample_db))) =
   aview 1 sample_db"
proof -
  obtain b rs t where o: "operator_batch sample_format 5 ''bob'' [''A2''] ''close'' [''A1'', ''A2''] [] sample_db = (b, rs, t)"
    by (metis prod.collapse)
  have "alert_by_pk 1 sample_db = Some sample_alert"
    by (simp add: sample_db_def tfind_def sample_alert_def)
  then have "\<forall>a. alert_by_pk 1 sample_db = Some a \<longrightarrow> al_alert_id a \<notin> set [''A1'', ''A2''] \<inter> set [''A2'']"
    by (simp add: sample_alert_def)
  from batch_isolated[OF sample_wf o this] o show ?thesis by simp
qed

section \<open>Assignment to nobody\<close>

text \<open>The check for a missing assignee looks at the raw request only. A list of blank names
  passes it and the scope validation, and the alert becomes pending without any operator:
  nobody can claim it afterwards.\<close>

lemma blank_assignee_passes:
  "validate_alert_assignees users a (JList [JStr '' '']) = Inr ([], None)"
  by (simp add: validate_alert_assignees_def group_ids_list validate_usernames_in_groups_def
      strip_def lstrip_def is_space_def Let_def)

lemma assign_to_nobody:
  assumes "wf_db s" "find_alert aid s = Some a" "al_status a = A_UNASSIGNED" "db_email_channel s = None"
  shows "\<exists>r t b. operate nf now user None ''assign'' aid [(''assignee'', JList [JStr '' ''])] s = (r, t) \<and>
    \<not> failed r \<and> find_alert aid t = Some b \<and> al_status b = A_PENDING \<and> al_operator b = []"
proof -
  let ?b = "a\<lparr>al_status := A_PENDING, al_operate := Some OP_ASSIGN, al_operator := [], al_updated_at := now\<rparr>"
  let ?t = "add_log \<lparr>lg_operator = user, lg_kind = LogAssign, lg_target = al_alert_id a\<rparr>
      (emit (ActionDispatch (al_alert_id a) ''assigned'') (save_alert ?b s))"
  have id: "al_alert_id a = aid" using assms(2) by (rule tfind_key)
  have ex: "\<exists>r. operate nf now user None ''assign'' aid [(''assignee'', JList [JStr '' ''])] s = (r, ?t) \<and> \<not> failed r"
    using assms by (simp add: operate_def operation_of_def is_alert_allowed_def assign_alert_def atomic_def
        data_get_def blank_assignee_passes assign_tasks_def format_notify_data_def
        get_default_notify_params_def enqueue_notifications_def accept_def failed_def)
  then have wf: "wf_db ?t" using op.run_wf[OF assms(1)] by blast
  have "?b \<in> set (db_alerts ?t)" using tfind_in[of al_pk "al_pk a" "db_alerts ?t" ?b] by (simp add: row_simps)
  then have "find_alert aid ?t = Some ?b" using wf id by (simp add: wf_db_def ltab.lookup_rows)
  with ex show ?thesis by fastforce
qed

end
