(* ===== verification/Time_Range.thy ===== *)
theory Time_Range
  imports Prelude
begin

text \<open>
  The time windows of shields and assignment policies (\<open>utils/time_range_checker.py\<close>): one
  absolute range, or a daily, weekly or monthly window that is compared as text with the
  local time of day, and the translation of an absolute range into a database filter.

  The time zone of the installation is a parameter: the broken-down local time of an instant
  (\<open>timezone.localtime\<close>) and the instant a text in the format \<open>%Y-%m-%d %H:%M:%S\<close> denotes in
  local time (\<open>strptime\<close>, then \<open>timezone.make_aware\<close>), \<open>None\<close> for a \<open>ValueError\<close>.
\<close>

section \<open>Local time\<close>

record local_time =
  lt_weekday :: nat
  lt_day :: nat
  lt_hour :: nat
  lt_minute :: nat
  lt_second :: nat

record zone =
  zn_local :: "int \<Rightarrow> local_time"
  zn_instant :: "string \<Rightarrow> int option"

text \<open>The fields \<open>datetime\<close> guarantees.\<close>

definition valid_local :: "local_time \<Rightarrow> bool" where
  "valid_local l \<longleftrightarrow> lt_weekday l < 7 \<and> 1 \<le> lt_day l \<and> lt_day l \<le> 31 \<and>
     lt_hour l < 24 \<and> lt_minute l < 60 \<and> lt_second l < 60"

definition two_digits :: "nat \<Rightarrow> string" where
  "two_digits n = [char_of (48 + n div 10), char_of (48 + n mod 10)]"

definition hms :: "nat \<Rightarrow> nat \<Rightarrow> nat \<Rightarrow> string" where
  "hms h m s = two_digits h @ CHR '':'' # two_digits m @ CHR '':'' # two_digits s"

text \<open>\<open>strftime("%H:%M:%S")\<close>.\<close>

definition strftime_hms :: "local_time \<Rightarrow> string" where
  "strftime_hms l = hms (lt_hour l) (lt_minute l) (lt_second l)"

text \<open>\<open>s <= t\<close> on strings.\<close>

fun str_le :: "string \<Rightarrow> string \<Rightarrow> bool" where
  "str_le [] _ = True"
| "str_le (_ # _) [] = False"
| "str_le (x # xs) (y # ys) =
     ((of_char x :: nat) < of_char y \<or> x = y \<and> str_le xs ys)"

section \<open>The checker\<close>

text \<open>\<open>time_str.split(" ")[1]\<close> for a text with a space.\<close>

definition after_space :: "string \<Rightarrow> string" where
  "after_space s = takeWhile (\<lambda>c. c \<noteq> CHR '' '') (tl (dropWhile (\<lambda>c. c \<noteq> CHR '' '') s))"

definition extract_time_part :: "string \<Rightarrow> string" where
  "extract_time_part s =
     (if length s > 8 then
        if CHR '' '' \<in> set s then after_space s else drop (length s - 8) s
      else s)"

text \<open>The comparison \<open>start <= t <= end\<close>: a value that is no string is a \<open>TypeError\<close>.\<close>

fun between :: "json \<Rightarrow> string \<Rightarrow> json \<Rightarrow> bool res" where
  "between (JStr a) t e =
     (if \<not> str_le a t then Inr False
      else case e of JStr b \<Rightarrow> Inr (str_le t b) | _ \<Rightarrow> Inl TypeError)"
| "between _ t e = Inl TypeError"

definition is_day_matched :: "json \<Rightarrow> nat \<Rightarrow> bool" where
  "is_day_matched cfg day =
     (case cfg of
        JNull \<Rightarrow> True
      | JList ds \<Rightarrow> JInt (int day) \<in> py_key ` set ds
      | JStr txt \<Rightarrow> substr_in (digits_of day) txt
      | _ \<Rightarrow> False)"

definition check_one_time_range :: "zone \<Rightarrow> json \<Rightarrow> json \<Rightarrow> int \<Rightarrow> bool res" where
  "check_one_time_range z st en t =
     (if \<not> truthy st \<or> \<not> truthy en then Inr False
      else case (st, en) of
        (JStr a, JStr b) \<Rightarrow>
          (case (zn_instant z a, zn_instant z b) of
             (Some x, Some y) \<Rightarrow> Inr (x \<le> t \<and> t \<le> y)
           | _ \<Rightarrow> Inl ValueError)
      | _ \<Rightarrow> Inl TypeError)"

definition check_day_range :: "zone \<Rightarrow> json \<Rightarrow> json \<Rightarrow> int \<Rightarrow> bool res" where
  "check_day_range z st en t =
     (if \<not> truthy st \<or> \<not> truthy en then Inr False
      else between st (strftime_hms (zn_local z t)) en)"

text \<open>\<open>_extract_time_part\<close> takes the length of its argument first: \<open>TypeError\<close> for numbers;
  the other types fail at a later step with an exception, too.\<close>

fun time_part :: "json \<Rightarrow> json res" where
  "time_part (JStr s) = Inr (JStr (extract_time_part s))"
| "time_part _ = Inl TypeError"

definition check_time_of_day_range :: "zone \<Rightarrow> json \<Rightarrow> json \<Rightarrow> int \<Rightarrow> bool res" where
  "check_time_of_day_range z st en t =
     (if \<not> truthy st \<or> \<not> truthy en then Inr True
      else case time_part st of
        Inl e \<Rightarrow> Inl e
      | Inr a \<Rightarrow>
        (case time_part en of
           Inl e \<Rightarrow> Inl e
         | Inr b \<Rightarrow> between a (strftime_hms (zn_local z t)) b))"

definition check_week_range :: "zone \<Rightarrow> json \<Rightarrow> json \<Rightarrow> json \<Rightarrow> int \<Rightarrow> bool res" where
  "check_week_range z wm st en t =
     (if is_day_matched wm (lt_weekday (zn_local z t) + 1)
      then check_time_of_day_range z st en t else Inr False)"

definition check_month_range :: "zone \<Rightarrow> json \<Rightarrow> json \<Rightarrow> json \<Rightarrow> int \<Rightarrow> bool res" where
  "check_month_range z wm st en t =
     (if is_day_matched wm (lt_day (zn_local z t))
      then check_time_of_day_range z st en t else Inr False)"

text \<open>The keys of the configuration, read with \<open>get\<close>.\<close>

definition cfg_get :: "(string \<times> json) list \<Rightarrow> string \<Rightarrow> json \<Rightarrow> json" where
  "cfg_get kvs k d = (case map_of kvs k of None \<Rightarrow> d | Some v \<Rightarrow> v)"

definition caught :: "bool res \<Rightarrow> bool" where
  "caught r = (case r of Inl _ \<Rightarrow> False | Inr b \<Rightarrow> b)"

definition in_range :: "zone \<Rightarrow> (string \<times> json) list \<Rightarrow> int \<Rightarrow> bool" where
  "in_range z kvs t =
     (let ty = cfg_get kvs ''type'' (JStr ''one'');
          st = cfg_get kvs ''start_time'' JNull;
          en = cfg_get kvs ''end_time'' JNull;
          wm = cfg_get kvs ''week_month'' JNull
      in if ty = JStr ''one'' then caught (check_one_time_range z st en t)
         else if ty = JStr ''day'' then caught (check_day_range z st en t)
         else if ty = JStr ''week'' then caught (check_week_range z wm st en t)
         else if ty = JStr ''month'' then caught (check_month_range z wm st en t)
         else True)"

text \<open>A configuration that is not empty and no dict has no \<open>get\<close>.\<close>

definition is_in_range :: "zone \<Rightarrow> json \<Rightarrow> int \<Rightarrow> bool res" where
  "is_in_range z config t =
     (if \<not> truthy config then Inr True
      else case config of JObj kvs \<Rightarrow> Inr (in_range z kvs t) | _ \<Rightarrow> Inl AttributeError)"

section \<open>The database filter\<close>

text \<open>\<open>OrmAll\<close> is the empty \<open>Q()\<close>, \<open>OrmRange\<close> the inclusive \<open>__range\<close> lookup on the field.\<close>

datatype orm_filter = OrmAll | OrmRange int int

definition to_orm_filter :: "zone \<Rightarrow> json \<Rightarrow> orm_filter option res" where
  "to_orm_filter z config =
     (if \<not> truthy config then Inr (Some OrmAll)
      else case config of
        JObj kvs \<Rightarrow>
          let st = cfg_get kvs ''start_time'' JNull; en = cfg_get kvs ''end_time'' JNull in
          if cfg_get kvs ''type'' (JStr ''one'') \<noteq> JStr ''one'' then Inr None
          else if \<not> truthy st \<or> \<not> truthy en then Inr None
          else (case st of
            JStr a \<Rightarrow>
              (case zn_instant z a of
                 None \<Rightarrow> Inr None
               | Some x \<Rightarrow>
                 (case en of
                    JStr b \<Rightarrow> (case zn_instant z b of None \<Rightarrow> Inr None | Some y \<Rightarrow> Inr (Some (OrmRange x y)))
                  | _ \<Rightarrow> Inl TypeError))
          | _ \<Rightarrow> Inl TypeError)
      | _ \<Rightarrow> Inl AttributeError)"

fun orm_holds :: "orm_filter \<Rightarrow> int \<Rightarrow> bool" where
  "orm_holds OrmAll t = True"
| "orm_holds (OrmRange a b) t = (a \<le> t \<and> t \<le> b)"

section \<open>Texts of times\<close>

lemma str_le_refl [simp]: "str_le s s"
  by (induction s) auto

lemma str_le_digit:
  assumes "m < (10 :: nat)" "n < (10 :: nat)"
  shows "str_le (char_of (48 + m) # xs) (char_of (48 + n) # ys) \<longleftrightarrow> m < n \<or> m = n \<and> str_le xs ys"
  using assms by simp

lemma str_le_two_digits:
  assumes "a < 100" "b < 100"
  shows "str_le (two_digits a @ xs) (two_digits b @ ys) \<longleftrightarrow> a < b \<or> a = b \<and> str_le xs ys"
proof -
  define p q p' q' where "p = a div 10" "q = a mod 10" "p' = b div 10" "q' = b mod 10"
  then have d: "p < 10" "q < 10" "p' < 10" "q' < 10" and ab: "a = 10 * p + q" "b = 10 * p' + q'"
    using assms by auto
  have "str_le (two_digits a @ xs) (two_digits b @ ys) \<longleftrightarrow>
      p < p' \<or> p = p' \<and> (q < q' \<or> q = q' \<and> str_le xs ys)"
    unfolding two_digits_def p_q_p'_q'_def[symmetric]
    using d by (simp only: append_Cons append_Nil str_le_digit)
  also have "\<dots> \<longleftrightarrow> a < b \<or> a = b \<and> str_le xs ys" using d unfolding ab by auto
  finally show ?thesis .
qed

lemma str_le_hms:
  assumes "h < 24" "m < 60" "s < 60" "h' < 24" "m' < 60" "s' < 60"
  shows "str_le (hms h m s) (hms h' m' s') \<longleftrightarrow> h * 3600 + m * 60 + s \<le> h' * 3600 + m' * 60 + (s' :: nat)"
proof -
  have e: "str_le (two_digits s) (two_digits s') \<longleftrightarrow> s \<le> s'"
    using str_le_two_digits[of s s' "[]" "[]"] assms by auto
  have "str_le (hms h m s) (hms h' m' s') \<longleftrightarrow> h < h' \<or> h = h' \<and> (m < m' \<or> m = m' \<and> s \<le> s')"
    using assms by (simp add: hms_def str_le_two_digits e)
  also have "\<dots> \<longleftrightarrow> h * 3600 + m * 60 + s \<le> h' * 3600 + m' * 60 + s'"
  proof (cases h h' rule: linorder_cases)
    case equal
    then show ?thesis using assms by (cases m m' rule: linorder_cases) auto
  qed (use assms in auto)
  finally show ?thesis .
qed

section \<open>Windows\<close>

text \<open>The second of the day.\<close>

definition second_of_day :: "local_time \<Rightarrow> nat" where
  "second_of_day l = lt_hour l * 3600 + lt_minute l * 60 + lt_second l"

lemma hms_props: "length (hms h m s) = 8" "hms h m s \<noteq> []"
  by (simp_all add: hms_def two_digits_def)

lemma extract_hms [simp]: "extract_time_part (hms h m s) = hms h m s"
  by (simp add: extract_time_part_def hms_props)

lemma extract_date_hms:
  assumes "CHR '' '' \<notin> set d" "d \<noteq> []" "h < 24" "m < 60" "s < 60"
  shows "extract_time_part (d @ CHR '' '' # hms h m s) = hms h m s"
proof -
  have h: "CHR '' '' \<notin> set (hms h m s)"
  proof -
    have c: "CHR '' '' \<noteq> char_of (48 + n)" if "n < (10::nat)" for n
      using that by (simp add: char_of_eq_iff take_bit_eq_mod eq_commute[of "CHR '' ''"])
    have "h div 10 < 10" "m div 10 < 10" "s div 10 < 10" using assms(3-5) by auto
    then show ?thesis by (simp add: hms_def two_digits_def c)
  qed
  have "dropWhile (\<lambda>c. c \<noteq> CHR '' '') (d @ CHR '' '' # hms h m s) = CHR '' '' # hms h m s"
    using assms(1) by (induction d) auto
  moreover have "takeWhile (\<lambda>c. c \<noteq> CHR '' '') (hms h m s) = hms h m s"
    using h by (auto simp: takeWhile_eq_all_conv)
  ultimately show ?thesis using assms(2) by (simp add: extract_time_part_def after_space_def hms_props)
qed

text \<open>A window given by two times of day.\<close>

definition window :: "json \<Rightarrow> nat \<Rightarrow> nat \<Rightarrow> nat \<Rightarrow> nat \<Rightarrow> nat \<Rightarrow> nat \<Rightarrow> (string \<times> json) list" where
  "window wm h m s h' m' s' =
     [(''start_time'', JStr (hms h m s)), (''end_time'', JStr (hms h' m' s')), (''week_month'', wm)]"

lemma between_hms:
  assumes "h < 24" "m < 60" "s < 60" "h' < 24" "m' < 60" "s' < 60" "valid_local l"
  shows "between (JStr (hms h m s)) (strftime_hms l) (JStr (hms h' m' s')) =
    Inr (h * 3600 + m * 60 + s \<le> second_of_day l \<and> second_of_day l \<le> h' * 3600 + m' * 60 + s')"
  using assms by (simp add: strftime_hms_def str_le_hms valid_local_def second_of_day_def)

section \<open>Properties\<close>

text \<open>C16: recurring windows are compared as text, and this is the comparison of times: for a
  daily, weekly or monthly window given as \<open>HH:MM:SS\<close> the check holds exactly when the day
  matches (daily windows have no day) and the local second of the day lies between the two
  ends, both included.\<close>

theorem recurring_window_numeric:
  assumes "h < 24" "m < 60" "s < 60" "h' < 24" "m' < 60" "s' < 60" "valid_local (zn_local z t)"
  shows "is_in_range z (JObj ((''type'', JStr ty) # window wm h m s h' m' s')) t =
    Inr (let inside = (h * 3600 + m * 60 + s \<le> second_of_day (zn_local z t) \<and>
                       second_of_day (zn_local z t) \<le> h' * 3600 + m' * 60 + s')
         in if ty = ''day'' then inside
            else if ty = ''week'' then is_day_matched wm (lt_weekday (zn_local z t) + 1) \<and> inside
            else if ty = ''month'' then is_day_matched wm (lt_day (zn_local z t)) \<and> inside
            else if ty = ''one'' then
              (case (zn_instant z (hms h m s), zn_instant z (hms h' m' s')) of
                 (Some x, Some y) \<Rightarrow> x \<le> t \<and> t \<le> y | _ \<Rightarrow> False)
            else True)"
  using between_hms[OF assms]
  by (auto simp: is_in_range_def in_range_def window_def cfg_get_def caught_def check_day_range_def
      check_week_range_def check_month_range_def check_time_of_day_range_def check_one_time_range_def
      hms_props Let_def split: option.split)

definition sample_zone :: zone where
  "sample_zone = \<lparr>zn_local = (\<lambda>t. \<lparr>lt_weekday = 2, lt_day = 15, lt_hour = nat (t div 3600),
       lt_minute = nat (t mod 3600 div 60), lt_second = nat (t mod 60)\<rparr>),
     zn_instant = (\<lambda>s. if s = ''a'' then Some 10 else if s = ''b'' then Some 20 else None)\<rparr>"

theorem recurring_window_witness:
  "is_in_range sample_zone
     (JObj ((''type'', JStr ''week'') # window (JList [JInt 3]) 9 0 0 18 30 0)) 36000 = Inr True"
proof -
  have v: "valid_local (zn_local sample_zone 36000)" by (simp add: sample_zone_def valid_local_def)
  have d: "is_day_matched (JList [JInt 3]) (lt_weekday (zn_local sample_zone 36000) + 1)"
    by (simp add: sample_zone_def is_day_matched_def)
  have s: "second_of_day (zn_local sample_zone 36000) = 36000"
    by (simp add: sample_zone_def second_of_day_def)
  show ?thesis
    by (subst recurring_window_numeric[OF _ _ _ _ _ _ v]) (simp_all add: d[simplified] s Let_def)
qed

text \<open>Pushing a time range down to the database does not change its meaning: whenever
  \<open>to_orm_filter\<close> gives a filter, it selects an instant exactly when \<open>is_in_range\<close> accepts it.\<close>

theorem orm_filter_equivalent:
  assumes "to_orm_filter z config = Inr (Some f)"
  shows "is_in_range z config t = Inr (orm_holds f t)"
proof (cases "truthy config")
  case False
  then show ?thesis using assms by (auto simp: to_orm_filter_def is_in_range_def)
next
  case True
  then obtain kvs where kvs: "config = JObj kvs" using assms by (cases config) (auto simp: to_orm_filter_def)
  define st where "st = cfg_get kvs ''start_time'' JNull"
  define en where "en = cfg_get kvs ''end_time'' JNull"
  from assms True have one: "cfg_get kvs ''type'' (JStr ''one'') = JStr ''one''" and tr: "truthy st" "truthy en"
    by (auto simp: to_orm_filter_def kvs st_def en_def Let_def split: if_splits)
  have "\<exists>a b x y. st = JStr a \<and> en = JStr b \<and> zn_instant z a = Some x \<and> zn_instant z b = Some y \<and>
      f = OrmRange x y"
    using assms True one tr unfolding st_def en_def
    by (cases "cfg_get kvs ''start_time'' JNull"; cases "cfg_get kvs ''end_time'' JNull")
       (auto simp: kvs to_orm_filter_def split: option.splits)
  then obtain a b x y where "st = JStr a" "en = JStr b" "zn_instant z a = Some x" "zn_instant z b = Some y"
    "f = OrmRange x y" by blast
  with True one tr show ?thesis
    by (simp add: is_in_range_def kvs in_range_def st_def en_def caught_def check_one_time_range_def Let_def)
qed

theorem orm_filter_equivalent_witness:
  "is_in_range sample_zone (JObj [(''start_time'', JStr ''a''), (''end_time'', JStr ''b'')]) 15 =
     Inr (orm_holds (OrmRange 10 20) 15)"
proof -
  have "to_orm_filter sample_zone (JObj [(''start_time'', JStr ''a''), (''end_time'', JStr ''b'')]) =
      Inr (Some (OrmRange 10 20))" by code_simp
  from orm_filter_equivalent[OF this] show ?thesis .
qed

section \<open>Two surprises\<close>

text \<open>A monthly window whose days are given as text compares by substring: day 15 also stands
  for the days 1 and 5.\<close>

lemma month_day_substring:
  "is_day_matched (JStr ''15'') 15 \<and> is_day_matched (JStr ''15'') 1 \<and> is_day_matched (JStr ''15'') 5 \<and>
   \<not> is_day_matched (JList [JInt 15]) 1"
  by (simp add: is_day_matched_def digits_of.simps char_of_eq_iff take_bit_eq_mod)

text \<open>A window that crosses midnight is never active.\<close>

lemma overnight_window_empty:
  assumes "h < 24" "m < 60" "s < 60" "h' < 24" "m' < 60" "s' < 60" "valid_local (zn_local z t)"
    "h' * 3600 + m' * 60 + s' < h * 3600 + m * 60 + (s :: nat)"
  shows "in_range z ((''type'', JStr ''day'') # window wm h m s h' m' s') t = False"
  using between_hms[OF assms(1-7)] assms(8)
  by (auto simp: in_range_def window_def cfg_get_def caught_def check_day_range_def hms_props Let_def)

end
