(* ===== verification/Rule_Matcher.thy ===== *)
theory Rule_Matcher
  imports Prelude
begin

text \<open>
  Matching rules of shields and assignment policies (\<open>utils/rule_matcher.py\<close>): a list of
  groups of rules is compiled to a \<open>Q\<close> expression, an alternative of conjunctions, and the
  expression filters a query set. The database is a parameter: whether a row satisfies a
  lookup on a column, and which texts \<open>re.compile\<close> accepts.
\<close>

section \<open>Q expressions\<close>

datatype lookup = L_exact | L_icontains | L_iregex | L_in | L_gt | L_gte | L_lt | L_lte

datatype q = Q_leaf string lookup json | Q_not q | Q_and q q | Q_or q q

record 'row orm =
  orm_sat :: "'row \<Rightarrow> string \<Rightarrow> lookup \<Rightarrow> json \<Rightarrow> bool"
  orm_regex :: "string \<Rightarrow> bool"

fun q_holds :: "'row orm \<Rightarrow> 'row \<Rightarrow> q \<Rightarrow> bool" where
  "q_holds m r (Q_leaf f l v) = orm_sat m r f l v"
| "q_holds m r (Q_not p) = (\<not> q_holds m r p)"
| "q_holds m r (Q_and p p') = (q_holds m r p \<and> q_holds m r p')"
| "q_holds m r (Q_or p p') = (q_holds m r p \<or> q_holds m r p')"

section \<open>Building the expression\<close>

type_synonym field_mapping = "(string \<times> string) list"

text \<open>\<open>field_mapping.get(key)\<close>: a key that cannot be hashed is a \<open>TypeError\<close>.\<close>

definition field_of :: "field_mapping \<Rightarrow> json \<Rightarrow> string option res" where
  "field_of fm key =
     (if \<not> hashable key then Inl TypeError
      else Inr (case key of JStr k \<Rightarrow> map_of fm k | _ \<Rightarrow> None))"

definition rule_get :: "(string \<times> json) list \<Rightarrow> string \<Rightarrow> json \<Rightarrow> json" where
  "rule_get kvs k d = (case map_of kvs k of None \<Rightarrow> d | Some v \<Rightarrow> v)"

text \<open>The part of \<open>build_single_rule_q\<close> after the column is known. Compiling a value that is
  no string raises and is caught; so is an invalid pattern.\<close>

definition operator_q :: "'row orm \<Rightarrow> string \<Rightarrow> json \<Rightarrow> json \<Rightarrow> q option" where
  "operator_q m f operator v =
     (if operator = JStr ''eq'' then Some (Q_leaf f L_exact v)
      else if operator = JStr ''ne'' then Some (Q_not (Q_leaf f L_exact v))
      else if operator = JStr ''contains'' then Some (Q_leaf f L_icontains v)
      else if operator = JStr ''not_contains'' then Some (Q_not (Q_leaf f L_icontains v))
      else if operator = JStr ''re'' then
        (case v of JStr p \<Rightarrow> if orm_regex m p then Some (Q_leaf f L_iregex v) else None | _ \<Rightarrow> None)
      else None)"

fun build_single_rule_q :: "'row orm \<Rightarrow> field_mapping \<Rightarrow> json \<Rightarrow> q option res" where
  "build_single_rule_q m fm (JObj kvs) =
     (case field_of fm (rule_get kvs ''key'' (JStr [])) of
        Inl e \<Rightarrow> Inl e
      | Inr None \<Rightarrow> Inr None
      | Inr (Some f) \<Rightarrow>
          if f = [] then Inr None
          else Inr (operator_q m f (rule_get kvs ''operator'' (JStr ''eq'')) (rule_get kvs ''value'' (JStr []))))"
| "build_single_rule_q m fm _ = Inl AttributeError"

text \<open>The loop over a group: the accumulator is \<open>None\<close> while \<open>group_q\<close> is the empty \<open>Q()\<close>; an
  invalid rule ends the loop and makes the whole group void.\<close>

fun group_loop :: "'row orm \<Rightarrow> field_mapping \<Rightarrow> q option \<Rightarrow> json list \<Rightarrow> q option res" where
  "group_loop m fm acc [] = Inr acc"
| "group_loop m fm acc (rule # rules) =
     (case build_single_rule_q m fm rule of
        Inl e \<Rightarrow> Inl e
      | Inr None \<Rightarrow> Inr None
      | Inr (Some p) \<Rightarrow>
          group_loop m fm (Some (case acc of None \<Rightarrow> p | Some g \<Rightarrow> Q_and g p)) rules)"

definition build_group_q :: "'row orm \<Rightarrow> field_mapping \<Rightarrow> json \<Rightarrow> q option res" where
  "build_group_q m fm grp =
     (case py_iter grp of Inl e \<Rightarrow> Inl e | Inr rules \<Rightarrow> group_loop m fm None rules)"

fun combine_loop :: "'row orm \<Rightarrow> field_mapping \<Rightarrow> q option \<Rightarrow> json list \<Rightarrow> q option res" where
  "combine_loop m fm acc [] = Inr acc"
| "combine_loop m fm acc (grp # groups) =
     (if \<not> truthy grp then combine_loop m fm acc groups
      else case build_group_q m fm grp of
        Inl e \<Rightarrow> Inl e
      | Inr None \<Rightarrow> combine_loop m fm acc groups
      | Inr (Some g) \<Rightarrow>
          combine_loop m fm (Some (case acc of None \<Rightarrow> g | Some p \<Rightarrow> Q_or p g)) groups)"

definition build_combined_q :: "'row orm \<Rightarrow> field_mapping \<Rightarrow> json list \<Rightarrow> q option res" where
  "build_combined_q m fm rules = combine_loop m fm None rules"

text \<open>The query set is the list of its rows.\<close>

definition filter_queryset :: "'row orm \<Rightarrow> field_mapping \<Rightarrow> 'row list \<Rightarrow> json list \<Rightarrow> 'row list res" where
  "filter_queryset m fm rows rules =
     (if rules = [] then Inr rows
      else case build_combined_q m fm rules of
        Inl e \<Rightarrow> Inl e
      | Inr None \<Rightarrow> Inr []
      | Inr (Some p) \<Rightarrow> Inr (filter (\<lambda>r. q_holds m r p) rows))"

section \<open>Reference semantics\<close>

text \<open>What one rule says of a row: \<open>None\<close> for an invalid rule.\<close>

fun rule_value :: "'row orm \<Rightarrow> field_mapping \<Rightarrow> 'row \<Rightarrow> json \<Rightarrow> bool option" where
  "rule_value m fm r (JObj kvs) =
     (case field_of fm (rule_get kvs ''key'' (JStr [])) of
        Inr (Some f) \<Rightarrow>
          if f = [] then None
          else
            let oper = rule_get kvs ''operator'' (JStr ''eq''); v = rule_get kvs ''value'' (JStr []) in
            if oper = JStr ''eq'' then Some (orm_sat m r f L_exact v)
            else if oper = JStr ''ne'' then Some (\<not> orm_sat m r f L_exact v)
            else if oper = JStr ''contains'' then Some (orm_sat m r f L_icontains v)
            else if oper = JStr ''not_contains'' then Some (\<not> orm_sat m r f L_icontains v)
            else if oper = JStr ''re'' \<and> (case v of JStr p \<Rightarrow> orm_regex m p | _ \<Rightarrow> False)
              then Some (orm_sat m r f L_iregex v)
            else None
      | _ \<Rightarrow> None)"
| "rule_value m fm r _ = None"

text \<open>The groups are alternatives; a group holds when it has rules and all of them are valid
  and hold.\<close>

definition group_matches :: "'row orm \<Rightarrow> field_mapping \<Rightarrow> 'row \<Rightarrow> json list \<Rightarrow> bool" where
  "group_matches m fm r rules \<longleftrightarrow> rules \<noteq> [] \<and> list_all (\<lambda>x. rule_value m fm r x = Some True) rules"

definition rules_match :: "'row orm \<Rightarrow> field_mapping \<Rightarrow> 'row \<Rightarrow> json list \<Rightarrow> bool" where
  "rules_match m fm r groups \<longleftrightarrow> groups = [] \<or>
     list_ex (\<lambda>g. case g of JList rules \<Rightarrow> group_matches m fm r rules | _ \<Rightarrow> False) groups"

text \<open>The shape the user interface sends: lists of dicts with string keys.\<close>

fun rule_shape :: "json \<Rightarrow> bool" where
  "rule_shape (JObj kvs) = hashable (rule_get kvs ''key'' (JStr []))"
| "rule_shape _ = False"

fun group_shape :: "json \<Rightarrow> bool" where
  "group_shape (JList rules) = list_all rule_shape rules"
| "group_shape _ = False"

section \<open>Equivalence\<close>

lemma operator_q_value:
  "operator_q m f oper v = Some p \<Longrightarrow>
   (if oper = JStr ''eq'' then Some (orm_sat m r f L_exact v)
    else if oper = JStr ''ne'' then Some (\<not> orm_sat m r f L_exact v)
    else if oper = JStr ''contains'' then Some (orm_sat m r f L_icontains v)
    else if oper = JStr ''not_contains'' then Some (\<not> orm_sat m r f L_icontains v)
    else if oper = JStr ''re'' \<and> (case v of JStr p \<Rightarrow> orm_regex m p | _ \<Rightarrow> False)
      then Some (orm_sat m r f L_iregex v)
    else None) = Some (q_holds m r p)"
  by (auto simp: operator_q_def split: if_splits json.splits)

lemma operator_q_invalid:
  "operator_q m f oper v = None \<Longrightarrow>
   oper \<notin> JStr ` {''eq'', ''ne'', ''contains'', ''not_contains''} \<and>
   \<not> (oper = JStr ''re'' \<and> (case v of JStr p \<Rightarrow> orm_regex m p | _ \<Rightarrow> False))"
  by (auto simp: operator_q_def split: if_splits json.splits)

lemma single_rule_value:
  assumes "rule_shape rule"
  obtains p where "build_single_rule_q m fm rule = Inr (Some p)" "\<And>r. rule_value m fm r rule = Some (q_holds m r p)"
  | "build_single_rule_q m fm rule = Inr None" "\<And>r. rule_value m fm r rule = None"
proof -
  from assms obtain kvs where kvs: "rule = JObj kvs" "hashable (rule_get kvs ''key'' (JStr []))"
    by (cases rule) auto
  let ?o = "rule_get kvs ''operator'' (JStr ''eq'')" and ?v = "rule_get kvs ''value'' (JStr [])"
  have f: "field_of fm (rule_get kvs ''key'' (JStr [])) = Inr None \<or>
      (\<exists>f. field_of fm (rule_get kvs ''key'' (JStr [])) = Inr (Some f))"
    using kvs(2) by (auto simp: field_of_def)
  show thesis
  proof (cases "\<exists>f p. field_of fm (rule_get kvs ''key'' (JStr [])) = Inr (Some f) \<and> f \<noteq> [] \<and>
      operator_q m f ?o ?v = Some p")
    case True
    then obtain f p where fp: "field_of fm (rule_get kvs ''key'' (JStr [])) = Inr (Some f)" "f \<noteq> []"
      "operator_q m f ?o ?v = Some p" by blast
    show thesis
      by (rule that(1)[of p]) (use fp operator_q_value[OF fp(3)] in \<open>simp_all add: kvs Let_def\<close>)
  next
    case False
    show thesis
    proof (rule that(2))
      show "build_single_rule_q m fm rule = Inr None"
        using False f by (auto simp: kvs)
      show "rule_value m fm r rule = None" for r
        using False f operator_q_invalid[of m _ ?o ?v] by (fastforce simp: kvs Let_def)
    qed
  qed
qed

lemma group_loop_value:
  assumes "list_all rule_shape rules"
  shows "\<exists>g. group_loop m fm acc rules = Inr g \<and>
    (g = None \<longrightarrow> (rules = [] \<and> acc = None) \<or> (\<forall>r. \<not> list_all (\<lambda>x. rule_value m fm r x = Some True) rules)) \<and>
    (\<forall>p. g = Some p \<longrightarrow> (rules \<noteq> [] \<or> acc \<noteq> None) \<and> (\<forall>r. q_holds m r p \<longleftrightarrow>
       (case acc of None \<Rightarrow> True | Some a \<Rightarrow> q_holds m r a) \<and>
       list_all (\<lambda>x. rule_value m fm r x = Some True) rules))"
  using assms
proof (induction m fm acc rules rule: group_loop.induct)
  case (1 m fm acc)
  then show ?case by (cases acc) auto
next
  case (2 m fm acc rule rules)
  have sh: "rule_shape rule" using 2(2) by simp
  show ?case
  proof (cases rule: single_rule_value[OF sh, of m fm])
    case (1 p)
    let ?acc = "Some (case acc of None \<Rightarrow> p | Some g \<Rightarrow> Q_and g p)"
    obtain g where g: "group_loop m fm ?acc rules = Inr g"
      "g = None \<longrightarrow> (\<forall>r. \<not> list_all (\<lambda>x. rule_value m fm r x = Some True) rules)"
      "\<forall>q. g = Some q \<longrightarrow> (\<forall>r. q_holds m r q \<longleftrightarrow> q_holds m r (the ?acc) \<and>
         list_all (\<lambda>x. rule_value m fm r x = Some True) rules)"
      using 2(1)[of "Some p" p] 1(1) 2(2) by auto
    show ?thesis
      using g 1 by (intro exI[of _ g]) (cases acc; auto)
  next
    case (2)
    then show ?thesis by auto
  qed
qed

lemma build_group_value:
  assumes "list_all rule_shape rules"
  obtains g where "build_group_q m fm (JList rules) = Inr g"
    "g = None \<Longrightarrow> (\<forall>r. \<not> group_matches m fm r rules)"
    "\<And>p r. g = Some p \<Longrightarrow> q_holds m r p = group_matches m fm r rules"
  using group_loop_value[OF assms, of m fm None]
  by (auto simp: build_group_q_def group_matches_def)

lemma combine_loop_value:
  assumes "list_all group_shape groups"
  shows "\<exists>g. combine_loop m fm acc groups = Inr g \<and>
    (\<forall>r. (case g of None \<Rightarrow> False | Some p \<Rightarrow> q_holds m r p) \<longleftrightarrow>
       (case acc of None \<Rightarrow> False | Some p \<Rightarrow> q_holds m r p) \<or>
       list_ex (\<lambda>g. case g of JList rules \<Rightarrow> group_matches m fm r rules | _ \<Rightarrow> False) groups)"
  using assms
proof (induction groups arbitrary: acc)
  case (Cons grp groups)
  from Cons.prems obtain rules where g: "grp = JList rules" "list_all rule_shape rules"
    by (cases grp) auto
  show ?case
  proof (cases "rules = []")
    case True
    then show ?thesis using Cons by (simp add: g group_matches_def)
  next
    case False
    obtain h where h: "build_group_q m fm grp = Inr h" "h = None \<Longrightarrow> (\<forall>r. \<not> group_matches m fm r rules)"
      "\<And>p r. h = Some p \<Longrightarrow> q_holds m r p = group_matches m fm r rules"
      using build_group_value[OF g(2), of m fm] g(1) by blast
    show ?thesis
    proof (cases h)
      case None
      then show ?thesis using Cons h False by (simp add: g)
    next
      case (Some p)
      let ?acc = "Some (case acc of None \<Rightarrow> p | Some q \<Rightarrow> Q_or q p)"
      from Cons.IH[of ?acc] Cons.prems obtain k where k: "combine_loop m fm ?acc groups = Inr k"
        "\<forall>r. (case k of None \<Rightarrow> False | Some p \<Rightarrow> q_holds m r p) \<longleftrightarrow> q_holds m r (the ?acc) \<or>
          list_ex (\<lambda>g. case g of JList rules \<Rightarrow> group_matches m fm r rules | _ \<Rightarrow> False) groups"
        by auto
      show ?thesis using k h(1) h(3)[OF Some] Some False
        by (intro exI[of _ k]) (cases acc; auto simp: g)
    qed
  qed
qed auto

lemma filter_queryset_spec:
  assumes "list_all group_shape groups"
  shows "filter_queryset m fm rows groups = Inr (filter (\<lambda>r. rules_match m fm r groups) rows)"
proof (cases "groups = []")
  case True
  then show ?thesis by (simp add: filter_queryset_def rules_match_def)
next
  case False
  from combine_loop_value[OF assms, of m fm None] obtain g where
    g: "combine_loop m fm None groups = Inr g"
    "\<forall>r. (case g of None \<Rightarrow> False | Some p \<Rightarrow> q_holds m r p) \<longleftrightarrow> rules_match m fm r groups"
    using False by (auto simp: rules_match_def)
  then show ?thesis using False
    by (cases g) (auto simp: filter_queryset_def build_combined_q_def)
qed

section \<open>Properties\<close>

text \<open>C15: filtering by the compiled expression selects exactly the rows the rules describe:
  all rows when there are no groups, otherwise the rows for which some group is not empty,
  all its rules are valid, and all of them hold. An invalid rule (unknown key or operator,
  bad pattern) voids its own group and no other.\<close>

theorem rule_filter_correct:
  assumes "list_all group_shape groups"
  shows "filter_queryset m fm rows groups = Inr (filter (\<lambda>r. rules_match m fm r groups) rows)"
  by (rule filter_queryset_spec[OF assms])

definition sample_orm :: "string orm" where
  "sample_orm = \<lparr>orm_sat = (\<lambda>r f l v. case v of JStr s \<Rightarrow> (case l of L_exact \<Rightarrow> r = s | _ \<Rightarrow> substr_in (lower s) (lower r)) | _ \<Rightarrow> False),
     orm_regex = (\<lambda>_. True)\<rparr>"

definition sample_rules :: "json list" where
  "sample_rules =
     [JList [JObj [(''key'', JStr ''title''), (''operator'', JStr ''contains''), (''value'', JStr ''cpu'')],
             JObj [(''key'', JStr ''title''), (''operator'', JStr ''ne''), (''value'', JStr ''cpu ok'')]],
      JList [JObj [(''key'', JStr ''nope''), (''value'', JStr ''x'')]]]"

theorem rule_filter_witness:
  "filter_queryset sample_orm [(''title'', ''title'')] [''cpu high'', ''cpu ok'', ''disk''] sample_rules =
     Inr [''cpu high'']"
proof -
  have "list_all group_shape sample_rules" by (simp add: sample_rules_def rule_get_def)
  moreover have "filter (\<lambda>r. rules_match sample_orm [(''title'', ''title'')] r sample_rules)
      [''cpu high'', ''cpu ok'', ''disk''] = [''cpu high'']"
    by code_simp
  ultimately show ?thesis
    using rule_filter_correct[of sample_rules sample_orm "[(''title'', ''title'')]"] by simp
qed

end
