(* ===== verification/Auto_Assignment.thy ===== *)
theory Auto_Assignment
  imports Alert_Operator Time_Range Rule_Matcher
begin

text \<open>
  Automatic assignment (\<open>common/assignment.py\<close>) and the fallback notification of
  \<open>service/un_dispatch.py\<close>: the active policies, oldest first, take the unassigned alerts
  of a request that lie in their time range and match their rules, and assign them with the
  operation of the alert operator, as the user \<open>admin\<close>. Alerts that are still unassigned at
  the end are announced to the fallback receivers of the system settings.
\<close>

section \<open>Data\<close>

definition ALERT_FIELD_MAPPING :: field_mapping where
  "ALERT_FIELD_MAPPING =
     [(''source_id'', ''source_name''), (''level'', ''level''), (''level_id'', ''level''),
      (''resource_type'', ''resource_type''), (''resource_id'', ''resource_id''),
      (''content'', ''content''), (''title'', ''title''), (''alert_id'', ''alert_id'')]"

record assign_result =
  ar_alert_pk :: nat
  ar_success :: bool
  ar_assignment :: int

record assign_stats =
  st_total :: nat
  st_assigned :: nat
  st_failed :: nat
  st_results :: "assign_result list"

section \<open>Finding the alerts of a policy\<close>

text \<open>Unassigned alerts of the request, without session alerts that are still observed.\<close>

definition assignable :: "string list \<Rightarrow> alert \<Rightarrow> bool" where
  "assignable ids a \<longleftrightarrow> al_alert_id a \<in> set ids \<and> al_status a = A_UNASSIGNED \<and>
     \<not> (al_is_session_alert a \<and> al_session_status a \<in> Some ` set NO_CONFIRMED)"

fun filter_in_range :: "zone \<Rightarrow> json \<Rightarrow> alert list \<Rightarrow> alert list res" where
  "filter_in_range z config [] = Inr []"
| "filter_in_range z config (a # as) =
     (case is_in_range z config (al_created_at a) of
        Inl e \<Rightarrow> Inl e
      | Inr b \<Rightarrow>
        (case filter_in_range z config as of
           Inl e \<Rightarrow> Inl e
         | Inr rest \<Rightarrow> Inr (if b then a # rest else rest)))"

text \<open>The time range: in the database where it can be expressed there, otherwise row by row.\<close>

definition time_matched :: "zone \<Rightarrow> json \<Rightarrow> alert list \<Rightarrow> alert list res" where
  "time_matched z config base =
     (case to_orm_filter z config of
        Inl e \<Rightarrow> Inl e
      | Inr (Some f) \<Rightarrow> Inr (filter (\<lambda>a. orm_holds f (al_created_at a)) base)
      | Inr None \<Rightarrow> filter_in_range z config base)"

definition batch_find_matching_alerts ::
  "zone \<Rightarrow> alert orm \<Rightarrow> string list \<Rightarrow> assignment \<Rightarrow> nat list \<Rightarrow> db \<Rightarrow> nat list res" where
  "batch_find_matching_alerts z m ids asg excluded s =
     (let base = filter (\<lambda>a. assignable ids a \<and> al_pk a \<notin> set excluded) (db_alerts s) in
      case time_matched z (as_config asg) base of
        Inl e \<Rightarrow> Inl e
      | Inr timed \<Rightarrow>
          if timed = [] then Inr []
          else (case as_match_type asg of
            MT_ALL \<Rightarrow> Inr (map al_pk timed)
          | MT_FILTER \<Rightarrow>
              (case filter_queryset m ALERT_FIELD_MAPPING timed (as_match_rules asg) of
                 Inl e \<Rightarrow> Inl e
               | Inr as \<Rightarrow> Inr (map al_pk as))
          | MT_OTHER \<Rightarrow> Inr []))"

section \<open>Executing a policy\<close>

text \<open>One alert. The value \<open>operate\<close> returns is not looked at: every call that does not raise
  counts as a success.\<close>

definition assign_one ::
  "notify_format \<Rightarrow> int \<Rightarrow> assignment \<Rightarrow> alert \<Rightarrow> assign_result list \<times> db \<Rightarrow> assign_result list \<times> db" where
  "assign_one nf now asg a st =
     (case st of (rs, s) \<Rightarrow>
        if al_is_session_alert a \<and> al_session_status a \<noteq> Some S_CONFIRMED
        then (rs @ [\<lparr>ar_alert_pk = al_pk a, ar_success = False, ar_assignment = as_id asg\<rparr>], s)
        else case operate nf now ''admin'' None ''assign'' (al_alert_id a)
                    [(''assignee'', JList (as_personnel asg)), (''assignment_id'', JInt (as_id asg))] s of
          (Inl _, t) \<Rightarrow> (rs @ [\<lparr>ar_alert_pk = al_pk a, ar_success = False, ar_assignment = as_id asg\<rparr>], t)
        | (Inr _, t) \<Rightarrow> (rs @ [\<lparr>ar_alert_pk = al_pk a, ar_success = True, ar_assignment = as_id asg\<rparr>], t))"

definition batch_execute_assignment ::
  "notify_format \<Rightarrow> int \<Rightarrow> nat list \<Rightarrow> assignment \<Rightarrow> db \<Rightarrow> assign_result list \<times> db" where
  "batch_execute_assignment nf now pks asg s =
     (if as_personnel asg = []
      then (map (\<lambda>k. \<lparr>ar_alert_pk = k, ar_success = False, ar_assignment = as_id asg\<rparr>) pks, s)
      else fold (assign_one nf now asg)
             (filter (\<lambda>a. al_pk a \<in> set pks \<and> al_status a = A_UNASSIGNED) (db_alerts s)) ([], s))"

text \<open>The log of a policy names the alerts by their primary key.\<close>

definition batch_create_log :: "nat list \<Rightarrow> db \<Rightarrow> db" where
  "batch_create_log pks s =
     fold (\<lambda>k. add_log \<lparr>lg_operator = ''system'', lg_kind = LogAutoAssign, lg_target = digits_of k\<rparr>) pks s"

section \<open>The whole assignment\<close>

definition assignment_round ::
  "notify_format \<Rightarrow> zone \<Rightarrow> alert orm \<Rightarrow> int \<Rightarrow> string list \<Rightarrow> assignment
   \<Rightarrow> assign_result list \<times> nat list \<times> db \<Rightarrow> assign_result list \<times> nat list \<times> db" where
  "assignment_round nf z m now ids asg st =
     (case st of (results, assigned, s) \<Rightarrow>
        (case batch_find_matching_alerts z m ids asg assigned s of
           Inl _ \<Rightarrow> st
         | Inr [] \<Rightarrow> st
         | Inr pks \<Rightarrow>
             let (rs, t) = batch_execute_assignment nf now pks asg s
             in (results @ rs, map ar_alert_pk (filter ar_success rs) @ assigned, batch_create_log pks t)))"

definition execute_auto_assignment ::
  "notify_format \<Rightarrow> zone \<Rightarrow> alert orm \<Rightarrow> int \<Rightarrow> string list \<Rightarrow> db \<Rightarrow> assign_stats \<times> db" where
  "execute_auto_assignment nf z m now ids s =
     (let active = sort_key as_created_at (filter as_is_active (db_assignments s));
          (results, assigned, t) = fold (assignment_round nf z m now ids) active ([], [], s)
      in (\<lparr>st_total = length (filter (\<lambda>a. al_alert_id a \<in> set ids) (db_alerts s)),
           st_assigned = length (filter ar_success results),
           st_failed = length (filter (\<lambda>r. \<not> ar_success r) results),
           st_results = results\<rparr>, t))"

section \<open>The fallback notification\<close>

text \<open>The setting \<open>no_dispatch_alert_notice\<close>; \<open>JNull\<close> when there is none.\<close>

fun fallback_channels :: "json list \<Rightarrow> string \<Rightarrow> string \<Rightarrow> json list \<Rightarrow> nparam list res" where
  "fallback_channels people title content [] = Inr []"
| "fallback_channels people title content (ch # chs) =
     (case jget ch ''channel_type'' JNull of
        Inl e \<Rightarrow> Inl e
      | Inr ct0 \<Rightarrow>
          if ct0 = JStr ''nats'' then fallback_channels people title content chs
          else (case jitem ch ''channel_type'' of
            Inl e \<Rightarrow> Inl e
          | Inr ct \<Rightarrow>
            (case jitem ch ''id'' of
               Inl e \<Rightarrow> Inl e
             | Inr cid \<Rightarrow>
               (case fallback_channels people title content chs of
                  Inl e \<Rightarrow> Inl e
                | Inr ps \<Rightarrow> Inr (\<lparr>np_users = people, np_channel_type = ct, np_channel_id = cid,
                     np_title = title, np_content = NText content, np_object_id = [],
                     np_action_object = []\<rparr> # ps)))))"

definition notify_un_dispatched_alert_params_format ::
  "notify_format \<Rightarrow> json \<Rightarrow> alert list \<Rightarrow> nparam list res" where
  "notify_un_dispatched_alert_params_format nf setting alerts =
     (if \<not> truthy setting then Inr []
      else case jitem setting ''notify_people'' of
        Inl e \<Rightarrow> Inl e
      | Inr people \<Rightarrow>
        (case jitem setting ''notify_channel'' of
           Inl e \<Rightarrow> Inl e
         | Inr chs \<Rightarrow>
             if \<not> truthy people \<or> \<not> truthy chs \<or> alerts = [] then Inr []
             else (case (people, chs) of
               (JList us, JList cs) \<Rightarrow>
                 (case nf_title nf us alerts of
                    Inl e \<Rightarrow> Inl e
                  | Inr title \<Rightarrow>
                    (case nf_content nf us alerts of
                       Inl e \<Rightarrow> Inl e
                     | Inr content \<Rightarrow> fallback_channels us title content cs))
             | _ \<Rightarrow> Inl TypeError)))"

definition not_assignment_alert_notify ::
  "notify_format \<Rightarrow> json \<Rightarrow> string list \<Rightarrow> db \<Rightarrow> unit res \<times> db" where
  "not_assignment_alert_notify nf setting ids s =
     (case notify_un_dispatched_alert_params_format nf setting
             (filter (\<lambda>a. al_alert_id a \<in> set ids \<and> al_status a = A_UNASSIGNED) (db_alerts s)) of
        Inl e \<Rightarrow> (Inl e, s)
      | Inr ps \<Rightarrow> (Inr (), emit (SyncNotify ps) s))"

definition execute_auto_assignment_for_alerts ::
  "notify_format \<Rightarrow> zone \<Rightarrow> alert orm \<Rightarrow> json \<Rightarrow> int \<Rightarrow> string list \<Rightarrow> db \<Rightarrow> assign_stats res \<times> db" where
  "execute_auto_assignment_for_alerts nf z m setting now ids s =
     (if ids = [] then (Inr \<lparr>st_total = 0, st_assigned = 0, st_failed = 0, st_results = []\<rparr>, s)
      else if \<not> list_ex (\<lambda>a. al_alert_id a \<in> set ids) (db_alerts s) then (Inl AlertNotFoundError, s)
      else
        let (stats, t) = execute_auto_assignment nf z m now ids s;
            left = map al_alert_id (filter (assignable ids) (db_alerts t))
        in if left = [] then (Inr stats, t)
           else case not_assignment_alert_notify nf setting left t of
             (Inl e, u) \<Rightarrow> (Inl e, u)
           | (Inr _, u) \<Rightarrow> (Inr stats, u))"

section \<open>What automatic assignment may do to an alert\<close>

text \<open>Nothing, or turn an unassigned alert of the request into a pending one.\<close>

definition assign_rel :: "string set \<Rightarrow> alert_view \<Rightarrow> alert_view \<Rightarrow> bool" where
  "assign_rel ids u v \<longleftrightarrow> v = u \<or>
     (\<exists>a b. fst u = Some a \<and> fst v = Some b \<and> al_alert_id a \<in> ids \<and> al_alert_id b = al_alert_id a \<and>
        al_status a = A_UNASSIGNED \<and> al_status b = A_PENDING)"

definition assign_step :: "string set \<Rightarrow> db \<Rightarrow> db \<Rightarrow> bool" where
  "assign_step ids s t \<longleftrightarrow> (wf_db s \<longrightarrow> wf_db t \<and> db_assignments t = db_assignments s \<and>
     (\<forall>k. assign_rel ids (aview k s) (aview k t)))"

lemma assign_rel_trans: "assign_rel ids u v \<Longrightarrow> assign_rel ids v w \<Longrightarrow> assign_rel ids u w"
  by (auto simp: assign_rel_def)

lemma assign_step_refl [simp]: "assign_step ids s s"
  by (simp add: assign_step_def assign_rel_def)

lemma assign_step_trans [trans]: "assign_step ids s t \<Longrightarrow> assign_step ids t u \<Longrightarrow> assign_step ids s u"
  unfolding assign_step_def using assign_rel_trans by metis

lemma assign_step_log [simp]: "assign_step ids s (add_log l s)"
  by (simp add: assign_step_def assign_rel_def aview_def)

lemma assign_step_emit: "assign_step ids s (emit x s)"
  by (simp add: assign_step_def assign_rel_def aview_def)

lemma operate_assign_step:
  assumes "operate nf now user None ''assign'' aid data s = (r, t)" "aid \<in> ids"
  shows "assign_step ids s t"
  unfolding assign_step_def
proof
  assume wf: "wf_db s"
  show "wf_db t \<and> db_assignments t = db_assignments s \<and> (\<forall>k. assign_rel ids (aview k s) (aview k t))"
  proof (cases "failed r")
    case True
    then have "t = s" using operate_effect[OF wf assms(1)] by simp
    then show ?thesis using wf by (simp add: assign_rel_def)
  next
    case False
    then obtain a b where ab: "find_alert aid s = Some a" "al_status a = A_UNASSIGNED" "only (al_pk a) s t"
      "alert_by_pk (al_pk a) t = Some b" "al_alert_id b = aid" "al_status b = A_PENDING"
      using operate_effect[OF wf assms(1)] by (auto simp: operation_of_def performed_def)
    have "assign_rel ids (aview k s) (aview k t)" for k
    proof (cases "k = al_pk a")
      case True
      then show ?thesis
        using ab assms(2) wf_db_alert_ids[OF wf ab(1)] tfind_key[OF ab(1)] by (auto simp: assign_rel_def aview_def)
    next
      case False
      then show ?thesis using only_aview[OF ab(3)] by (simp add: assign_rel_def)
    qed
    then show ?thesis using ab(3) wf onlyD(1,6) by blast
  qed
qed

lemma assign_one_step:
  assumes "al_alert_id a \<in> ids"
  shows "assign_step ids (snd st) (snd (assign_one nf now asg a st))"
  using operate_assign_step[OF _ assms]
  by (auto simp: assign_one_def split: prod.splits sum.splits)

lemma assign_fold_step:
  "\<forall>a \<in> set as. al_alert_id a \<in> ids \<Longrightarrow> assign_step ids (snd st) (snd (fold (assign_one nf now asg) as st))"
proof (induction as arbitrary: st)
  case (Cons a as)
  then have "assign_step ids (snd st) (snd (assign_one nf now asg a st))" by (simp add: assign_one_step)
  also have "assign_step ids (snd (assign_one nf now asg a st))
      (snd (fold (assign_one nf now asg) as (assign_one nf now asg a st)))"
    using Cons by simp
  finally show ?case by simp
qed simp

lemma filter_in_range_subset: "filter_in_range z config as = Inr bs \<Longrightarrow> set bs \<subseteq> set as"
proof (induction as arbitrary: bs)
  case (Cons a as)
  then show ?case by (fastforce split: sum.splits if_splits)
qed simp

lemma time_matched_subset: "time_matched z config base = Inr bs \<Longrightarrow> set bs \<subseteq> set base"
  by (auto simp: time_matched_def dest: filter_in_range_subset split: sum.splits option.splits)

lemma filter_queryset_subset: "filter_queryset m fm rows rules = Inr es \<Longrightarrow> set es \<subseteq> set rows"
  by (auto simp: filter_queryset_def split: if_splits sum.splits option.splits)

lemma find_matching_alerts_sound:
  assumes "batch_find_matching_alerts z m ids asg excluded s = Inr pks" "k \<in> set pks"
  shows "\<exists>a \<in> set (db_alerts s). al_pk a = k \<and> assignable ids a \<and> k \<notin> set excluded"
proof -
  let ?base = "filter (\<lambda>a. assignable ids a \<and> al_pk a \<notin> set excluded) (db_alerts s)"
  from assms obtain timed where timed: "time_matched z (as_config asg) ?base = Inr timed"
    by (auto simp: batch_find_matching_alerts_def split: sum.splits)
  have "set pks \<subseteq> al_pk ` set timed"
    using assms(1) filter_queryset_subset[of m ALERT_FIELD_MAPPING timed "as_match_rules asg"]
    by (auto simp: batch_find_matching_alerts_def timed split: sum.splits if_splits match_type.splits
        intro!: imageI)
  with assms(2) obtain a where "a \<in> set timed" "al_pk a = k" by blast
  moreover from this(1) time_matched_subset[OF timed] have "a \<in> set ?base" by blast
  ultimately show ?thesis by auto
qed

lemma batch_execute_step:
  assumes wf: "wf_db s" and f: "batch_find_matching_alerts z m ids asg excluded s = Inr pks"
  shows "assign_step (set ids) s (snd (batch_execute_assignment nf now pks asg s))"
proof -
  have "al_alert_id a \<in> set ids" if a: "a \<in> set (db_alerts s)" "al_pk a \<in> set pks" for a
  proof -
    from find_matching_alerts_sound[OF f a(2)] obtain b where b: "b \<in> set (db_alerts s)" "al_pk b = al_pk a"
      "assignable ids b" by blast
    have "b = a" using wf a(1) b(1,2) keyed_inj[of al_pk "db_alerts s" b a] by (simp add: wf_db_def)
    with b(3) show ?thesis by (simp add: assignable_def)
  qed
  then show ?thesis
    using assign_fold_step[of "filter (\<lambda>a. al_pk a \<in> set pks \<and> al_status a = A_UNASSIGNED) (db_alerts s)"
        "set ids" "([], s)" nf now asg]
    by (auto simp: batch_execute_assignment_def)
qed

lemma batch_log_step: "assign_step ids s (batch_create_log pks s)"
  unfolding batch_create_log_def
proof (induction pks arbitrary: s)
  case (Cons k pks)
  show ?case using assign_step_trans[OF assign_step_log Cons] by simp
qed simp

lemma assignment_round_step:
  assumes "wf_db (snd (snd st))"
  shows "assign_step (set ids) (snd (snd st)) (snd (snd (assignment_round nf z m now ids asg st)))"
proof -
  obtain rs dn s where st: "st = (rs, dn, s)" by (cases st)
  show ?thesis
  proof (cases "batch_find_matching_alerts z m ids asg dn s")
    case (Inr pks)
    note e = batch_execute_step[OF _ Inr, of nf now]
    show ?thesis using assms Inr e assign_step_trans[OF e batch_log_step, of pks]
      by (auto simp: assignment_round_def st split: list.splits prod.splits)
  qed (simp add: assignment_round_def st)
qed

lemma assignment_fold_step:
  "wf_db (snd (snd st)) \<Longrightarrow>
   assign_step (set ids) (snd (snd st)) (snd (snd (fold (assignment_round nf z m now ids) asgs st)))"
proof (induction asgs arbitrary: st)
  case (Cons asg asgs)
  let ?st = "assignment_round nf z m now ids asg st"
  have s: "assign_step (set ids) (snd (snd st)) (snd (snd ?st))"
    using Cons.prems by (rule assignment_round_step)
  then have "wf_db (snd (snd ?st))" using Cons.prems by (simp add: assign_step_def)
  with Cons.IH[of ?st] s show ?case by (auto intro: assign_step_trans)
qed simp

lemma execute_auto_assignment_step:
  "wf_db s \<Longrightarrow> execute_auto_assignment nf z m now ids s = (stats, t) \<Longrightarrow> assign_step (set ids) s t"
  using assignment_fold_step[of "([], [], s)" ids nf z m now
      "sort_key as_created_at (filter as_is_active (db_assignments s))"]
  by (auto simp: execute_auto_assignment_def Let_def split: prod.splits)

lemma auto_assignment_step:
  assumes "wf_db s" "execute_auto_assignment_for_alerts nf z m setting now ids s = (r, t)"
  shows "assign_step (set ids) s t"
proof -
  obtain stats u where u: "execute_auto_assignment nf z m now ids s = (stats, u)" by fastforce
  note su = execute_auto_assignment_step[OF assms(1) u]
  have "t = s \<or> t = u \<or> (\<exists>ps. t = emit (SyncNotify ps) u)"
    using assms(2) u
    by (auto simp: execute_auto_assignment_for_alerts_def not_assignment_alert_notify_def Let_def
        split: if_splits sum.splits prod.splits)
  then show ?thesis using su assign_step_trans[OF su assign_step_emit] by auto
qed

section \<open>No alert is assigned twice\<close>

definition successes :: "assign_result list \<Rightarrow> nat list" where
  "successes rs = map ar_alert_pk (filter ar_success rs)"

lemma successes_append [simp]: "successes (xs @ ys) = successes xs @ successes ys"
  by (simp add: successes_def)

lemma assign_one_results:
  "\<exists>b. fst (assign_one nf now asg a st) = fst st @ [\<lparr>ar_alert_pk = al_pk a, ar_success = b, ar_assignment = as_id asg\<rparr>]"
  by (auto simp: assign_one_def split: prod.splits sum.splits)

lemma assign_fold_results:
  "map ar_alert_pk (fst (fold (assign_one nf now asg) as st)) = map ar_alert_pk (fst st) @ map al_pk as"
proof (induction as arbitrary: st)
  case (Cons a as)
  from assign_one_results[of nf now asg a st] show ?case by (auto simp: Cons)
qed simp

lemma batch_execute_results:
  assumes "wf_db s"
  shows "distinct (successes (fst (batch_execute_assignment nf now pks asg s))) \<and>
    set (successes (fst (batch_execute_assignment nf now pks asg s))) \<subseteq> set pks"
proof (cases "as_personnel asg = []")
  case True
  then show ?thesis by (simp add: batch_execute_assignment_def successes_def)
next
  case False
  let ?as = "filter (\<lambda>a. al_pk a \<in> set pks \<and> al_status a = A_UNASSIGNED) (db_alerts s)"
  let ?rs = "fst (fold (assign_one nf now asg) ?as ([], s))"
  have m: "map ar_alert_pk ?rs = map al_pk ?as"
    using assign_fold_results[of nf now asg ?as "([], s)"] by simp
  have "distinct (map al_pk ?as)" using assms by (simp add: wf_db_def keyed_def distinct_map_filter)
  then have "distinct (map ar_alert_pk ?rs)" by (simp only: m)
  then have "distinct (successes ?rs)" by (simp add: successes_def distinct_map_filter)
  moreover have "set (successes ?rs) \<subseteq> set (map ar_alert_pk ?rs)" by (auto simp: successes_def)
  then have "set (successes ?rs) \<subseteq> set pks" unfolding m by auto
  ultimately show ?thesis using False by (simp add: batch_execute_assignment_def)
qed

lemma assignment_round_exclusive:
  assumes "wf_db (snd (snd st))" "set (successes (fst st)) \<subseteq> set (fst (snd st))"
    "distinct (successes (fst st))"
  shows "set (successes (fst (assignment_round nf z m now ids asg st))) \<subseteq>
      set (fst (snd (assignment_round nf z m now ids asg st))) \<and>
    distinct (successes (fst (assignment_round nf z m now ids asg st)))"
proof -
  obtain rs dn s where st: "st = (rs, dn, s)" by (cases st)
  show ?thesis
  proof (cases "\<exists>pks. batch_find_matching_alerts z m ids asg dn s = Inr pks \<and> pks \<noteq> []")
    case False
    then have "assignment_round nf z m now ids asg st = st"
      by (auto simp: assignment_round_def st split: sum.splits list.splits)
    then show ?thesis using assms by simp
  next
    case True
    then obtain pks where f: "batch_find_matching_alerts z m ids asg dn s = Inr pks" "pks \<noteq> []" by blast
    obtain rs' t where e: "batch_execute_assignment nf now pks asg s = (rs', t)" by fastforce
    have r: "assignment_round nf z m now ids asg st = (rs @ rs', successes rs' @ dn, batch_create_log pks t)"
      using f e by (cases pks) (simp_all add: assignment_round_def st successes_def)
    have "distinct (successes rs')" "set (successes rs') \<subseteq> set pks"
      using batch_execute_results[of s nf now pks asg] assms(1) e by (auto simp: st)
    moreover have "set pks \<inter> set dn = {}" using find_matching_alerts_sound[OF f(1)] by blast
    ultimately show ?thesis unfolding r using assms(2,3) by (auto simp: st)
  qed
qed

lemma assignment_fold_exclusive:
  assumes "wf_db (snd (snd st))" "set (successes (fst st)) \<subseteq> set (fst (snd st))" "distinct (successes (fst st))"
  shows "distinct (successes (fst (fold (assignment_round nf z m now ids) asgs st)))"
  using assms
proof (induction asgs arbitrary: st)
  case (Cons asg asgs)
  note x = assignment_round_exclusive[OF Cons.prems, of nf z m now ids asg]
  have "wf_db (snd (snd (assignment_round nf z m now ids asg st)))"
    using assignment_round_step[OF Cons.prems(1)] Cons.prems(1) by (simp add: assign_step_def)
  with Cons.IH x show ?case by simp
qed simp

section \<open>Properties\<close>

text \<open>Automatic assignment keeps the database well formed and does to an alert either
  nothing or its assignment: only alerts of the request that were unassigned change, and
  they become pending.\<close>

theorem auto_assignment_safe:
  assumes "wf_db s" "execute_auto_assignment_for_alerts nf z m setting now ids s = (r, t)"
  shows "wf_db t \<and> db_assignments t = db_assignments s \<and>
    (\<forall>k. aview k t = aview k s \<or>
       (\<exists>a b. alert_by_pk k s = Some a \<and> alert_by_pk k t = Some b \<and> al_alert_id a \<in> set ids \<and>
          al_alert_id b = al_alert_id a \<and> al_status a = A_UNASSIGNED \<and> al_status b = A_PENDING))"
  using auto_assignment_step[OF assms] assms(1)
  by (auto simp: assign_step_def assign_rel_def aview_def)

definition auto_db :: db where
  "auto_db = sample_db\<lparr>db_alerts := [sample_alert\<lparr>al_status := A_UNASSIGNED, al_operator := []\<rparr>],
     db_reminders := [], db_escalations := []\<rparr>"

definition auto_orm :: "alert orm" where
  "auto_orm = \<lparr>orm_sat = (\<lambda>_ _ _ _. True), orm_regex = (\<lambda>_. True)\<rparr>"

definition auto_zone :: zone where
  "auto_zone = \<lparr>zn_local = (\<lambda>t. \<lparr>lt_weekday = 0, lt_day = 1, lt_hour = 0, lt_minute = 0, lt_second = 0\<rparr>),
     zn_instant = (\<lambda>s. None)\<rparr>"

lemma auto_wf: "wf_db auto_db"
  by (simp add: auto_db_def sample_defs wf_db_def keyed_def)

theorem auto_assignment_safe_witness:
  "wf_db (snd (execute_auto_assignment_for_alerts sample_format auto_zone auto_orm JNull 0 [''A1''] auto_db))"
proof -
  obtain r t where e: "execute_auto_assignment_for_alerts sample_format auto_zone auto_orm JNull 0 [''A1''] auto_db = (r, t)"
    by fastforce
  from auto_assignment_safe[OF auto_wf e] e show ?thesis by simp
qed

text \<open>Policies are exclusive: in the report of one run no alert is listed as assigned
  twice, so at most one policy takes it.\<close>

theorem auto_assignment_exclusive:
  assumes "wf_db s" "execute_auto_assignment nf z m now ids s = (stats, t)"
  shows "distinct (map ar_alert_pk (filter ar_success (st_results stats)))"
  using assignment_fold_exclusive[of "([], [], s)" nf z m now ids
      "sort_key as_created_at (filter as_is_active (db_assignments s))"] assms
  by (auto simp: execute_auto_assignment_def successes_def Let_def split: prod.splits)

theorem auto_assignment_exclusive_witness:
  "distinct (map ar_alert_pk (filter ar_success (st_results
     (fst (execute_auto_assignment sample_format auto_zone auto_orm 0 [''A1''] auto_db)))))"
proof -
  obtain st t where e: "execute_auto_assignment sample_format auto_zone auto_orm 0 [''A1''] auto_db = (st, t)"
    by fastforce
  from auto_assignment_exclusive[OF auto_wf e] e show ?thesis by simp
qed

section \<open>A refused assignment counts as a success\<close>

text \<open>The result of \<open>operate\<close> is not inspected. When the people of the oldest matching policy
  are refused by the scope check, the alert is reported as assigned, stays unassigned, and is
  withheld from a later policy that would have assigned it.\<close>

definition refused_policy :: assignment where
  "refused_policy = sample_assignment\<lparr>as_personnel := [JStr ''mallory''], as_config := JObj []\<rparr>"

definition later_policy :: assignment where
  "later_policy = sample_assignment\<lparr>as_id := 4, as_config := JObj [], as_created_at := 1\<rparr>"

definition auto_status :: "assignment list \<Rightarrow> alert_status list \<times> bool list" where
  "auto_status asgs =
     (let (stats, t) = execute_auto_assignment sample_format auto_zone auto_orm 0 [''A1''] (auto_db\<lparr>db_assignments := asgs\<rparr>)
      in (map al_status (db_alerts t), map ar_success (st_results stats)))"

lemma refused_counts_as_success:
  "auto_status [refused_policy, later_policy] = ([A_UNASSIGNED], [True]) \<and>
   auto_status [later_policy] = ([A_PENDING], [True])"
  by code_simp

end
