(* ===== verification/Auto_Close.thy ===== *)
theory Auto_Close
  imports Reminder
begin

text \<open>
  Automatic closing of quiet alerts (\<open>common/auto_close.py\<close>): an active alert whose strategy
  asks for it is closed when its last event is older than the strategy's time. The job reads
  the alerts once and then closes them one by one, checking the status again under the row
  lock.
\<close>

section \<open>Window texts\<close>

text \<open>\<open>WindowCalculator.parse_time_str\<close>, in microseconds; slices drop the unit.\<close>

definition drop_unit :: "nat \<Rightarrow> string \<Rightarrow> string" where
  "drop_unit n s = take (length s - n) s"

definition scaled :: "int \<Rightarrow> int res \<Rightarrow> int res" where
  "scaled f r = (case r of Inl e \<Rightarrow> Inl e | Inr n \<Rightarrow> Inr (f * n))"

definition parse_time_str :: "string \<Rightarrow> int res" where
  "parse_time_str s =
     (if suffix ''min'' s then scaled 60000000 (parse_int (drop_unit 3 s))
      else if suffix ''h'' s then scaled 3600000000 (parse_int (drop_unit 1 s))
      else if suffix ''d'' s then scaled 86400000000 (parse_int (drop_unit 1 s))
      else if suffix ''s'' s then scaled 1000000 (parse_int (drop_unit 1 s))
      else scaled 60000000 (parse_int s))"

section \<open>Strategies that close\<close>

definition is_digits :: "string \<Rightarrow> bool" where
  "is_digits s \<longleftrightarrow> s \<noteq> [] \<and> list_all (\<lambda>c. digit c \<noteq> None) s"

definition rule_number :: "alert \<Rightarrow> int list" where
  "rule_number a =
     (case al_rule_id a of
        Some r \<Rightarrow> if is_digits r then (case parse_int r of Inr i \<Rightarrow> [i] | Inl _ \<Rightarrow> []) else []
      | None \<Rightarrow> [])"

definition numeric_rule_ids :: "alert list \<Rightarrow> int list" where
  "numeric_rule_ids as = concat (map rule_number as)"

text \<open>The dict from the text of the id to the strategy.\<close>

definition build_rule_mapping :: "alert list \<Rightarrow> strategy list \<Rightarrow> (string \<times> strategy) list" where
  "build_rule_mapping alerts strategies =
     map (\<lambda>g. (str_int (sg_id g), g))
       (filter (\<lambda>g. sg_id g \<in> set (numeric_rule_ids alerts) \<and> sg_is_active g \<and> sg_auto_close g \<and>
                    sg_close_minutes g > 0 \<and> sg_type g \<noteq> ST_INSTANT) strategies)"

definition should_auto_close :: "int \<Rightarrow> alert \<Rightarrow> strategy \<Rightarrow> bool" where
  "should_auto_close now a g =
     (if \<not> sg_auto_close g \<or> sg_close_minutes g \<le> 0 then False
      else if al_is_session_alert a \<and> al_session_status a \<in> Some ` set NO_CONFIRMED then False
      else case al_last_event_time a of
        None \<Rightarrow> False
      | Some l \<Rightarrow> now \<ge> l + minutes (sg_close_minutes g))"

section \<open>Closing\<close>

text \<open>The boolean result, the pending log entries and the database.\<close>

definition auto_close_alert :: "int \<Rightarrow> alert \<Rightarrow> oplog list \<Rightarrow> db \<Rightarrow> bool \<times> oplog list \<times> db" where
  "auto_close_alert now a logs s =
     (case alert_by_pk (al_pk a) s of
        None \<Rightarrow> (False, logs, s)
      | Some locked \<Rightarrow>
          if al_status locked \<notin> set ACTIVATE_STATUS then (False, logs, s)
          else
            let closed = locked\<lparr>al_status := A_AUTO_CLOSE, al_operate := Some OP_CLOSE, al_updated_at := now\<rparr>
            in (True, logs @ [\<lparr>lg_operator = ''system'', lg_kind = LogAutoClose, lg_target = al_alert_id a\<rparr>],
                snd (stop_reminder_task closed (save_alert closed s))))"

definition close_round ::
  "(string \<times> strategy) list \<Rightarrow> int \<Rightarrow> alert \<Rightarrow> nat \<times> nat \<times> oplog list \<times> db \<Rightarrow> nat \<times> nat \<times> oplog list \<times> db" where
  "close_round mapping now a st =
     (case st of (closed, errors, logs, s) \<Rightarrow>
        (case al_rule_id a of
           None \<Rightarrow> (closed, errors + 1, logs, s)
         | Some rid \<Rightarrow>
           (case map_of mapping rid of
              None \<Rightarrow> (closed, errors + 1, logs, s)
            | Some g \<Rightarrow>
                if should_auto_close now a g then
                  (case auto_close_alert now a logs s of
                     (True, logs', t) \<Rightarrow> (closed + 1, errors, logs', t)
                   | (False, logs', t) \<Rightarrow> (closed, errors + 1, logs', t))
                else (closed, errors, logs, s))))"

text \<open>\<open>split_list\<close>: slices of the given length, in order.\<close>

function split_list :: "'a list \<Rightarrow> nat \<Rightarrow> 'a list list" where
  "split_list xs n = (if n = 0 \<or> xs = [] then [] else take n xs # split_list (drop n xs) n)"
  by auto
termination by (relation "measure (length \<circ> fst)") auto

declare split_list.simps [simp del]

definition auto_close_main :: "int \<Rightarrow> db \<Rightarrow> nat \<times> nat \<times> db" where
  "auto_close_main now s =
     (let alerts = filter (\<lambda>a. al_status a \<in> set ACTIVATE_STATUS) (db_alerts s);
          mapping = build_rule_mapping alerts (db_strategies s)
      in if alerts = [] \<or> mapping = [] then (0, 0, s)
         else
           let valid = filter (\<lambda>a. case al_rule_id a of None \<Rightarrow> False | Some r \<Rightarrow> r \<in> fst ` set mapping) alerts;
               (closed, errors, logs, t) =
                 fold (\<lambda>batch. fold (close_round mapping now) batch) (split_list valid 200) (0, 0, [], s)
           in (closed, errors, fold add_log logs t))"

section \<open>The job as a function of the rows of one alert\<close>

definition closes :: "strategy list \<Rightarrow> int \<Rightarrow> alert \<Rightarrow> bool" where
  "closes strategies now a \<longleftrightarrow> al_status a \<in> set ACTIVATE_STATUS \<and>
     list_ex (\<lambda>g. 0 \<le> sg_id g \<and> al_rule_id a = Some (str_int (sg_id g)) \<and> sg_is_active g \<and> sg_type g \<noteq> ST_INSTANT \<and>
       should_auto_close now a g) strategies"

fun auto_close_next :: "strategy list \<Rightarrow> int \<Rightarrow> alert_view \<Rightarrow> alert_view" where
  "auto_close_next strategies now (Some a, r, e) =
     (if closes strategies now a
      then (Some (a\<lparr>al_status := A_AUTO_CLOSE, al_operate := Some OP_CLOSE, al_updated_at := now\<rparr>),
            map_option (\<lambda>r. r\<lparr>rm_is_active := False\<rparr>) r, e)
      else (Some a, r, e))"
| "auto_close_next strategies now v = v"

lemma concat_split_list: "n > 0 \<Longrightarrow> concat (split_list xs n) = xs"
  by (induction xs n rule: split_list.induct) (subst split_list.simps, simp)

lemma fold_split_list: "n > 0 \<Longrightarrow> fold (\<lambda>batch. fold f batch) (split_list xs n) st = fold f xs st"
proof -
  have "fold (\<lambda>batch. fold f batch) bs st = fold f (concat bs) st" for bs
    by (induction bs arbitrary: st) auto
  then show "n > 0 \<Longrightarrow> ?thesis" by (simp add: concat_split_list)
qed

lemma auto_close_effect:
  assumes "alert_by_pk (al_pk a) s = Some a" "al_status a \<in> set ACTIVATE_STATUS"
    "auto_close_alert now a logs s = (b, logs', t)"
  shows "b \<and> only (al_pk a) s t \<and> aview (al_pk a) t =
    (Some (a\<lparr>al_status := A_AUTO_CLOSE, al_operate := Some OP_CLOSE, al_updated_at := now\<rparr>),
     map_option (\<lambda>r. r\<lparr>rm_is_active := False\<rparr>) (find_reminder (al_pk a) s), find_escalation (al_pk a) s)"
proof -
  define c where "c = a\<lparr>al_status := A_AUTO_CLOSE, al_operate := Some OP_CLOSE, al_updated_at := now\<rparr>"
  have t: "b" "t = snd (stop_reminder_task c (save_alert c s))"
    using assms by (auto simp: auto_close_alert_def c_def Let_def)
  have pk: "al_pk c = al_pk a" "al_alert_id c = al_alert_id a" by (simp_all add: c_def)
  have "only (al_pk a) s (save_alert c s)" by (rule only_save_alert[OF assms(1) pk])
  moreover have "only (al_pk a) (save_alert c s) t"
    unfolding t using stop_reminder_only[of c "save_alert c s"] pk by simp
  ultimately have "only (al_pk a) s t" by (rule only_trans)
  then show ?thesis unfolding c_def[symmetric]
    using t pk by (simp add: aview_def stop_reminder_find row_simps)
qed

text \<open>The rounds by key: the job works on the alerts it read at the beginning, \<open>snap\<close>.\<close>

definition close_key ::
  "(string \<times> strategy) list \<Rightarrow> int \<Rightarrow> alert list \<Rightarrow> nat \<Rightarrow> nat \<times> nat \<times> oplog list \<times> db
   \<Rightarrow> nat \<times> nat \<times> oplog list \<times> db" where
  "close_key mapping now snap k st =
     (case tfind al_pk k snap of None \<Rightarrow> st | Some a \<Rightarrow> close_round mapping now a st)"

definition close_view :: "(string \<times> strategy) list \<Rightarrow> int \<Rightarrow> alert \<Rightarrow> alert_view \<Rightarrow> alert_view" where
  "close_view mapping now a v =
     (if (case al_rule_id a of None \<Rightarrow> False | Some rid \<Rightarrow>
            (case map_of mapping rid of None \<Rightarrow> False | Some g \<Rightarrow> should_auto_close now a g))
      then (Some (a\<lparr>al_status := A_AUTO_CLOSE, al_operate := Some OP_CLOSE, al_updated_at := now\<rparr>),
            map_option (\<lambda>r. r\<lparr>rm_is_active := False\<rparr>) (fst (snd v)), snd (snd v))
      else v)"

abbreviation state_of :: "nat \<times> nat \<times> oplog list \<times> db \<Rightarrow> db" where
  "state_of st \<equiv> snd (snd (snd st))"

lemma close_round_only: "only (al_pk a) (state_of st) (state_of (close_round mapping now a st))"
proof -
  obtain c x l s where st: "st = (c, x, l, s)" by (cases st)
  have "only (al_pk a) s (snd (snd (auto_close_alert now a l s)))"
  proof (cases "alert_by_pk (al_pk a) s")
    case (Some b)
    let ?c = "b\<lparr>al_status := A_AUTO_CLOSE, al_operate := Some OP_CLOSE, al_updated_at := now\<rparr>"
    have pk: "al_pk b = al_pk a" using Some by (rule tfind_key)
    have "only (al_pk a) s (save_alert ?c s)" by (rule only_save_alert[OF Some]) simp_all
    also have "only (al_pk a) (save_alert ?c s) (snd (stop_reminder_task ?c (save_alert ?c s)))"
      using stop_reminder_only[of ?c "save_alert ?c s"] pk by simp
    finally show ?thesis using Some by (simp add: auto_close_alert_def Let_def)
  qed (simp add: auto_close_alert_def)
  then show ?thesis
    by (auto simp: close_round_def st split: option.splits prod.splits bool.splits)
qed

lemma close_round_view:
  assumes "alert_by_pk (al_pk a) (state_of st) = Some a" "al_status a \<in> set ACTIVATE_STATUS"
  shows "aview (al_pk a) (state_of (close_round mapping now a st)) =
    close_view mapping now a (aview (al_pk a) (state_of st))"
proof -
  obtain c x l s where st: "st = (c, x, l, s)" by (cases st)
  obtain b l' t where ac: "auto_close_alert now a l s = (b, l', t)" by (metis prod.collapse)
  have a: "alert_by_pk (al_pk a) s = Some a" using assms(1) by (simp add: st)
  from auto_close_effect[OF a assms(2) ac] ac show ?thesis
    by (auto simp: close_round_def close_view_def st aview_def split: option.splits)
qed

interpretation close_scan: keyed_scan "close_key mapping now snap" "\<lambda>k st. aview k (state_of st)"
  "\<lambda>st. wf_db (state_of st)"
  "\<lambda>k u v. \<forall>a. tfind al_pk k snap = Some a \<and> fst u = Some a \<and> al_status a \<in> set ACTIVATE_STATUS
     \<longrightarrow> v = close_view mapping now a u" for mapping now snap
proof
  fix st :: "nat \<times> nat \<times> oplog list \<times> db" and k j :: nat
  have o: "only k (state_of st) (state_of (close_key mapping now snap k st))"
    using close_round_only[of _ st mapping now] tfind_key[of al_pk k snap]
    by (cases "tfind al_pk k snap") (auto simp: close_key_def)
  show "wf_db (state_of st) \<Longrightarrow> wf_db (state_of (close_key mapping now snap k st))"
    using o by (rule onlyD(1))
  show "j \<noteq> k \<Longrightarrow> aview j (state_of (close_key mapping now snap k st)) = aview j (state_of st)"
    using o by (rule only_aview)
  show "\<forall>a. tfind al_pk k snap = Some a \<and> fst (aview k (state_of st)) = Some a \<and> al_status a \<in> set ACTIVATE_STATUS
     \<longrightarrow> aview k (state_of (close_key mapping now snap k st)) = close_view mapping now a (aview k (state_of st))"
  proof (intro allI impI, elim conjE)
    fix a assume a: "tfind al_pk k snap = Some a" "fst (aview k (state_of st)) = Some a" "al_status a \<in> set ACTIVATE_STATUS"
    have "al_pk a = k" using a(1) by (rule tfind_key)
    with a close_round_view[of a st mapping now] show
      "aview k (state_of (close_key mapping now snap k st)) = close_view mapping now a (aview k (state_of st))"
      by (simp add: close_key_def aview_def)
  qed
qed

lemma fold_close_key:
  assumes "keyed al_pk as"
  shows "fold (close_round mapping now) as st = fold (close_key mapping now as) (map al_pk as) st"
proof -
  have "fold (close_round mapping now) bs st = fold (close_key mapping now as) (map al_pk bs) st"
    if "set bs \<subseteq> set as" for bs
    using that
  proof (induction bs arbitrary: st)
    case (Cons b bs)
    then have "tfind al_pk (al_pk b) as = Some b" using assms by (simp add: tfind_iff)
    with Cons show ?case by (simp add: close_key_def)
  qed simp
  then show ?thesis by simp
qed

lemma fold_add_log_view [simp]: "aview k (fold add_log logs s) = aview k s" "wf_db (fold add_log logs s) = wf_db s"
  by (induction logs arbitrary: s) (simp_all add: aview_def)

text \<open>The text of an id identifies the strategy.\<close>

lemma parse_int_nonneg: "is_digits r \<Longrightarrow> parse_int r = Inr i \<Longrightarrow> 0 \<le> i"
proof -
  assume r: "is_digits r" and i: "parse_int r = Inr i"
  have "strip r = r" by (rule strip_no_space) (use r digit_not_space in \<open>auto simp: is_digits_def list_all_iff\<close>)
  moreover from r obtain c cs where c: "r = c # cs" "digit c \<noteq> None" by (cases r) (auto simp: is_digits_def)
  moreover from c(2) have "c \<noteq> CHR ''-''" "c \<noteq> CHR ''+''" by auto
  ultimately have "map_option int (parse_digits False 0 r) = Some i"
    using i by (auto simp: parse_int_def simp del: parse_digits.simps split: option.splits)
  then show ?thesis by auto
qed

lemma rule_number_iff:
  "i \<in> set (rule_number a) \<longleftrightarrow> (\<exists>r. al_rule_id a = Some r \<and> is_digits r \<and> parse_int r = Inr i)"
proof (cases "al_rule_id a")
  case None
  then have "rule_number a = []" by (simp add: rule_number_def)
  with None show ?thesis by simp
next
  case (Some r)
  then have "rule_number a = (if is_digits r then (case parse_int r of Inr i \<Rightarrow> [i] | Inl _ \<Rightarrow> []) else [])"
    by (simp add: rule_number_def)
  with Some show ?thesis by (cases "parse_int r"; cases "is_digits r") auto
qed

lemma numeric_rule_ids_nonneg: "i \<in> set (numeric_rule_ids as) \<Longrightarrow> 0 \<le> i"
  by (auto simp: numeric_rule_ids_def rule_number_iff dest: parse_int_nonneg)

lemma mapping_lookup:
  assumes "keyed sg_id gs" "a \<in> set as" "al_rule_id a = Some rid"
  shows "map_of (build_rule_mapping as gs) rid = Some g \<longleftrightarrow> g \<in> set gs \<and> rid = str_int (sg_id g) \<and>
    sg_id g \<in> set (numeric_rule_ids as) \<and> sg_is_active g \<and> sg_auto_close g \<and> sg_close_minutes g > 0 \<and>
    sg_type g \<noteq> ST_INSTANT"
proof -
  let ?p = "\<lambda>g. sg_id g \<in> set (numeric_rule_ids as) \<and> sg_is_active g \<and> sg_auto_close g \<and>
                    sg_close_minutes g > 0 \<and> sg_type g \<noteq> ST_INSTANT"
  have inj: "x = y" if "str_int (sg_id x) = str_int (sg_id y)" "x \<in> set gs" "y \<in> set gs" "?p x" "?p y" for x y
  proof -
    have "0 \<le> sg_id x" "0 \<le> sg_id y" using that(4,5) numeric_rule_ids_nonneg by auto
    then have "sg_id x = sg_id y" using that(1) parse_int_str by (metis sum.inject(2))
    then show ?thesis using keyed_inj[OF assms(1) that(2,3)] by simp
  qed
  have "map_of (map (\<lambda>g. (str_int (sg_id g), g)) hs) rid = Some g \<longleftrightarrow> g \<in> set hs \<and> rid = str_int (sg_id g)"
    if "\<And>x y. x \<in> set hs \<Longrightarrow> y \<in> set hs \<Longrightarrow> str_int (sg_id x) = str_int (sg_id y) \<Longrightarrow> x = y" for hs
    using that by (induction hs) auto
  from this[of "filter ?p gs"] inj show ?thesis by (auto simp: build_rule_mapping_def)
qed

lemma is_digits_str: "0 \<le> i \<Longrightarrow> is_digits (str_int i)"
  using digits_of_digits by (auto simp: is_digits_def str_int_def list_all_iff)

lemma closing_strategy_iff:
  assumes "keyed sg_id gs" "a \<in> set as"
  shows "(case al_rule_id a of None \<Rightarrow> False | Some rid \<Rightarrow>
      (case map_of (build_rule_mapping as gs) rid of None \<Rightarrow> False | Some g \<Rightarrow> should_auto_close now a g)) \<longleftrightarrow>
    list_ex (\<lambda>g. 0 \<le> sg_id g \<and> al_rule_id a = Some (str_int (sg_id g)) \<and> sg_is_active g \<and>
       sg_type g \<noteq> ST_INSTANT \<and> should_auto_close now a g) gs"
proof (cases "al_rule_id a")
  case None
  then show ?thesis by (simp add: list_ex_iff)
next
  case (Some rid)
  note look = mapping_lookup[OF assms Some]
  have n: "sg_id g \<in> set (numeric_rule_ids as)" if "0 \<le> sg_id g" "rid = str_int (sg_id g)" for g
    using that assms(2) Some parse_int_str[of "sg_id g"] is_digits_str[of "sg_id g"]
    by (auto simp: numeric_rule_ids_def rule_number_iff intro!: bexI[of _ a])
  have m: "map_of (build_rule_mapping as gs) rid = Some g \<longleftrightarrow> g \<in> set gs \<and> 0 \<le> sg_id g \<and>
      rid = str_int (sg_id g) \<and> sg_is_active g \<and> sg_auto_close g \<and> sg_close_minutes g > 0 \<and> sg_type g \<noteq> ST_INSTANT" for g
    using look[of g] n[of g] numeric_rule_ids_nonneg[of "sg_id g" as] by blast
  have c: "should_auto_close now a g \<Longrightarrow> sg_auto_close g \<and> sg_close_minutes g > 0" for g
    by (auto simp: should_auto_close_def split: if_splits)
  have "(\<exists>g. map_of (build_rule_mapping as gs) rid = Some g \<and> should_auto_close now a g) \<longleftrightarrow>
      (\<exists>g \<in> set gs. 0 \<le> sg_id g \<and> rid = str_int (sg_id g) \<and> sg_is_active g \<and> sg_type g \<noteq> ST_INSTANT \<and>
         should_auto_close now a g)"
    using m c by blast
  then show ?thesis using Some by (auto simp: list_ex_iff split: option.splits)
qed

lemma auto_close_main_effect:
  assumes wf: "wf_db s" and r: "auto_close_main now s = (c, e, t)"
  shows "wf_db t \<and> aview k t = auto_close_next (db_strategies s) now (aview k s)"
proof -
  have gs: "keyed sg_id (db_strategies s)" using wf by (simp add: wf_db_def)
  let ?al = "filter (\<lambda>a. al_status a \<in> set ACTIVATE_STATUS) (db_alerts s)"
  let ?mp = "build_rule_mapping ?al (db_strategies s)"
  let ?valid = "filter (\<lambda>a. case al_rule_id a of None \<Rightarrow> False | Some r \<Rightarrow> r \<in> fst ` set ?mp) ?al"
  have closes: "closes (db_strategies s) now a \<longleftrightarrow> (case al_rule_id a of None \<Rightarrow> False | Some rid \<Rightarrow>
      (case map_of ?mp rid of None \<Rightarrow> False | Some g \<Rightarrow> should_auto_close now a g))" if "a \<in> set ?al" for a
    using closing_strategy_iff[OF gs that, of now] that by (auto simp: closes_def)
  have inactive: "auto_close_next (db_strategies s) now (aview k s) = aview k s" if "k \<notin> al_pk ` set ?valid"
  proof (cases "alert_by_pk k s")
    case (Some a)
    have "\<not> closes (db_strategies s) now a"
    proof
      assume c: "closes (db_strategies s) now a"
      then have a: "a \<in> set ?al" using tfind_in[OF Some] by (simp add: closes_def)
      with c closes have "a \<in> set ?valid"
        by (auto split: option.splits dest: map_of_SomeD intro: rev_image_eqI)
      with that tfind_key[OF Some] show False by auto
    qed
    with Some show ?thesis by (simp add: aview_def)
  qed (simp add: aview_def)
  show ?thesis
  proof (cases "?al = [] \<or> ?mp = []")
    case True
    then have "t = s" using r by (auto simp: auto_close_main_def Let_def)
    moreover from True have "?valid = []"
      by (auto simp: filter_empty_conv split: option.splits)
    ultimately show ?thesis using wf inactive by (metis empty_iff image_empty list.set(1))
  next
    case False
    let ?st = "fold (close_key ?mp now ?valid) (map al_pk ?valid) (0, 0, [], s)"
    have kv: "keyed al_pk ?valid" using wf by (simp add: wf_db_def keyed_filter)
    have "fold (\<lambda>batch. fold (close_round ?mp now) batch) (split_list ?valid 200) (0, 0, [], s) = ?st"
      using fold_close_key[OF kv] by (simp add: fold_split_list)
    then obtain logs where t: "t = fold add_log logs (state_of ?st)"
      using r False by (auto simp: auto_close_main_def Let_def split: prod.splits)
    have i: "wf_db (state_of (0::nat, 0::nat, [], s))" using wf by simp
    have w: "wf_db (state_of ?st)" by (rule close_scan.scan_inv[OF i])
    have "aview k (state_of ?st) = auto_close_next (db_strategies s) now (aview k s)"
    proof (cases "k \<in> al_pk ` set ?valid")
      case True
      then obtain a where a: "a \<in> set ?valid" "al_pk a = k" by auto
      then have f: "tfind al_pk k ?valid = Some a" using kv by (simp add: tfind_iff)
      have al: "alert_by_pk k s = Some a" using a wf by (simp add: wf_db_def tfind_iff)
      have act: "al_status a \<in> set ACTIVATE_STATUS" "a \<in> set ?al" using a by auto
      have "distinct (map al_pk ?valid)" using kv by (simp add: keyed_def)
      moreover have "k \<in> set (map al_pk ?valid)" using True by simp
      ultimately have "aview k (state_of ?st) = close_view ?mp now a (aview k s)"
        using close_scan.scan_rel[OF i] f al act(1) by (simp add: aview_def)
      then show ?thesis using closes[OF act(2)] al by (simp add: close_view_def aview_def)
    next
      case False
      then have "aview k (state_of ?st) = aview k s"
        using close_scan.scan_frame[OF i, of k "map al_pk ?valid"] by simp
      with inactive[OF False] show ?thesis by simp
    qed
    with w t show ?thesis by simp
  qed
qed

section \<open>Properties\<close>

text \<open>C13: one run of the auto-close job closes exactly the alerts it should: an active alert
  is closed when an enabled strategy with its rule id (no instant strategy) asks for it and
  its last event is at least the configured minutes old, an alert in session observation
  excepted; its reminder is stopped. Everything else keeps its rows.\<close>

theorem auto_close_correct:
  assumes "wf_db s" "auto_close_main now s = (c, e, t)"
  shows "wf_db t \<and> (\<forall>k. aview k t = auto_close_next (db_strategies s) now (aview k s))"
  using auto_close_main_effect[OF assms] by blast

theorem auto_close_witness:
  "map_option al_status (alert_by_pk 1 (snd (snd (auto_close_main (minutes 10) sample_db)))) = Some A_AUTO_CLOSE \<and>
   map_option al_status (alert_by_pk 1 (snd (snd (auto_close_main (minutes 9) sample_db)))) = Some A_PENDING"
proof -
  have a: "alert_by_pk 1 sample_db = Some sample_alert"
    by (simp add: sample_db_def tfind_def sample_alert_def)
  have "str_int 1 = ''1''" by code_simp
  then have c: "closes (db_strategies sample_db) (minutes 10) sample_alert"
    "\<not> closes (db_strategies sample_db) (minutes 9) sample_alert"
    by (simp_all add: closes_def sample_defs ACTIVATE_STATUS_def should_auto_close_def minutes_def)
  have v: "aview 1 (snd (snd (auto_close_main n sample_db))) = auto_close_next (db_strategies sample_db) n (aview 1 sample_db)" for n
    using auto_close_correct[OF sample_wf, of n] by (metis prod.collapse)
  have "fst (aview 1 (snd (snd (auto_close_main (minutes 10) sample_db)))) =
      Some (sample_alert\<lparr>al_status := A_AUTO_CLOSE, al_operate := Some OP_CLOSE, al_updated_at := minutes 10\<rparr>)"
    "fst (aview 1 (snd (snd (auto_close_main (minutes 9) sample_db)))) = Some sample_alert"
    unfolding v using a c by (simp_all add: aview_def)
  then show ?thesis by (simp add: aview_def) (simp add: sample_alert_def)
qed

end
