(* ===== verification/Strategy_Match.thy ===== *)
theory Strategy_Match
  imports Complex_Main Alerts_Data Rule_Matcher
begin

text \<open>
  Matching of events to alert strategies: \<open>aggregation/strategy/matcher.py\<close> compiles the match
  rules of a strategy to a database expression, \<open>aggregation/strategy/instant_matcher.py\<close>
  evaluates the same rules on one event in memory for instant strategies. The second file
  promises the semantics of the first; the theory shows where that fails.

  Parameters: the database (which lookups a column accepts, which rows satisfy one) and, for
  the evaluation in memory, the attributes of an event beyond the modelled columns, \<open>repr\<close> of
  containers, \<open>float\<close> and the regular expressions.
\<close>

section \<open>The tables of operators and fields\<close>

text \<open>The Chinese aliases are written as the bytes of their UTF-8 encoding.\<close>

datatype django_op = D_exact | D_ne | D_icontains | D_not_contains | D_iregex
  | D_gt | D_gte | D_lt | D_lte | D_in | D_not_in

definition OPERATOR_MAP :: "(string \<times> django_op) list" where
  "OPERATOR_MAP =
     [(''eq'', D_exact),
      ([CHR 0xE7, CHR 0xAD, CHR 0x89, CHR 0xE4, CHR 0xBA, CHR 0x8E], D_exact),
      (''ne'', D_ne),
      ([CHR 0xE4, CHR 0xB8, CHR 0x8D, CHR 0xE7, CHR 0xAD, CHR 0x89, CHR 0xE4, CHR 0xBA, CHR 0x8E], D_ne),
      (''contains'', D_icontains),
      ([CHR 0xE5, CHR 0x8C, CHR 0x85, CHR 0xE5, CHR 0x90, CHR 0xAB], D_icontains),
      (''not_contains'', D_not_contains),
      ([CHR 0xE4, CHR 0xB8, CHR 0x8D, CHR 0xE5, CHR 0x8C, CHR 0x85, CHR 0xE5, CHR 0x90, CHR 0xAB], D_not_contains),
      ([CHR 0xE6, CHR 0xAD, CHR 0xA3, CHR 0xE5, CHR 0x88, CHR 0x99], D_iregex),
      (''re'', D_iregex),
      (''regex'', D_iregex),
      (''gt'', D_gt),
      ([CHR 0xE5, CHR 0xA4, CHR 0xA7, CHR 0xE4, CHR 0xBA, CHR 0x8E], D_gt),
      (''gte'', D_gte),
      ([CHR 0xE5, CHR 0xA4, CHR 0xA7, CHR 0xE4, CHR 0xBA, CHR 0x8E, CHR 0xE7, CHR 0xAD, CHR 0x89, CHR 0xE4, CHR 0xBA, CHR 0x8E], D_gte),
      (''lt'', D_lt),
      ([CHR 0xE5, CHR 0xB0, CHR 0x8F, CHR 0xE4, CHR 0xBA, CHR 0x8E], D_lt),
      (''lte'', D_lte),
      ([CHR 0xE5, CHR 0xB0, CHR 0x8F, CHR 0xE4, CHR 0xBA, CHR 0x8E, CHR 0xE7, CHR 0xAD, CHR 0x89, CHR 0xE4, CHR 0xBA, CHR 0x8E], D_lte),
      (''in'', D_in),
      ([CHR 0xE5, CHR 0xAD, CHR 0x97, CHR 0xE4, CHR 0xB8, CHR 0xAD, CHR 0xE4, CHR 0xB8, CHR 0xB2], D_in),
      (''not_in'', D_not_in)]"

definition FIELD_MAP :: "(string \<times> string) list" where
  "FIELD_MAP =
     [([CHR 0xE6, CHR 0xA0, CHR 0x87, CHR 0xE9, CHR 0xA2, CHR 0x98], ''title''),
      (''title'', ''title''),
      ([CHR 0xE5, CHR 0x91, CHR 0x8A, CHR 0xE8, CHR 0xAD, CHR 0xA6, CHR 0xE6, CHR 0xBA, CHR 0x90], ''source__name''),
      (''source'', ''source__name''),
      ([CHR 0xE7, CHR 0xBA, CHR 0xA7, CHR 0xE5, CHR 0x88, CHR 0xAB], ''level''),
      (''level'', ''level''),
      ([CHR 0xE7, CHR 0xB1, CHR 0xBB, CHR 0xE5, CHR 0x9E, CHR 0x8B, CHR 0xE5, CHR 0xAF, CHR 0xB9, CHR 0xE8, CHR 0xB1, CHR 0xA1], ''resource_type''),
      (''resource_type'', ''resource_type''),
      ([CHR 0xE5, CHR 0xAF, CHR 0xB9, CHR 0xE8, CHR 0xB1, CHR 0xA1, CHR 0xE5, CHR 0xAE, CHR 0x9E, CHR 0xE4, CHR 0xBE, CHR 0x8B], ''resource_name''),
      (''resource_name'', ''resource_name''),
      ([CHR 0xE5, CHR 0x86, CHR 0x85, CHR 0xE5, CHR 0xAE, CHR 0xB9], ''description''),
      (''description'', ''description''),
      ([CHR 0xE5, CHR 0x91, CHR 0x8A, CHR 0xE8, CHR 0xAD, CHR 0xA6, CHR 0xE7, CHR 0xB1, CHR 0xBB, CHR 0xE5, CHR 0x9E, CHR 0x8B], ''event_type''),
      (''event_type'', ''event_type''),
      ([CHR 0xE6, CHR 0x9C, CHR 0x8D, CHR 0xE5, CHR 0x8A, CHR 0xA1], ''service''),
      (''service'', ''service''),
      ([CHR 0xE4, CHR 0xBD, CHR 0x8D, CHR 0xE7, CHR 0xBD, CHR 0xAE], ''location''),
      (''location'', ''location''),
      ([CHR 0xE6, CHR 0x9D, CHR 0xA5, CHR 0xE6, CHR 0xBA, CHR 0x90], ''push_source_id''),
      (''push_source_id'', ''push_source_id''),
      ([CHR 0xE4, CHR 0xBA, CHR 0x8B, CHR 0xE4, CHR 0xBB, CHR 0xB6, CHR 0x49, CHR 0x44], ''event_id''),
      (''event_id'', ''event_id''),
      ([CHR 0xE8, CHR 0xB5, CHR 0x84, CHR 0xE6, CHR 0xBA, CHR 0x90, CHR 0x49, CHR 0x44], ''resource_id''),
      (''resource_id'', ''resource_id''),
      ([CHR 0xE6, CHR 0x8C, CHR 0x87, CHR 0xE6, CHR 0xA0, CHR 0x87], ''item''),
      (''item'', ''item'')]"

definition ne_aliases :: "json list" where
  "ne_aliases = [JStr ''ne'', JStr ([CHR 0xE4, CHR 0xB8, CHR 0x8D, CHR 0xE7, CHR 0xAD, CHR 0x89, CHR 0xE4, CHR 0xBA, CHR 0x8E])]"

section \<open>Compiling to a database expression\<close>

text \<open>\<open>FIELD_MAP.get(key, key)\<close> as it appears in the name of a lookup; a container is no key.\<close>

fun field_name :: "json \<Rightarrow> string res" where
  "field_name (JStr k) = Inr (case map_of FIELD_MAP k of Some f \<Rightarrow> f | None \<Rightarrow> k)"
| "field_name (JInt i) = Inr (str_int i)"
| "field_name (JBool b) = Inr (if b then ''True'' else ''False'')"
| "field_name JNull = Inr ''None''"
| "field_name _ = Inl TypeError"

definition op_of :: "json \<Rightarrow> django_op option res" where
  "op_of operator =
     (if \<not> hashable operator then Inl TypeError
      else Inr (case operator of JStr s \<Rightarrow> map_of OPERATOR_MAP s | _ \<Rightarrow> None))"

fun is_list :: "json \<Rightarrow> bool" where
  "is_list (JList _) = True"
| "is_list _ = False"

fun is_text :: "json \<Rightarrow> bool" where
  "is_text (JStr _) = True"
| "is_text _ = False"

text \<open>The lookup of one condition, after key and operator are known.\<close>

definition lookup_q :: "(string \<Rightarrow> bool) \<Rightarrow> string \<Rightarrow> django_op \<Rightarrow> json \<Rightarrow> q option res" where
  "lookup_q compiles f oper v =
     (case oper of
        D_not_contains \<Rightarrow> Inr (if none_or_empty v then None else Some (Q_not (Q_leaf f L_icontains v)))
      | D_ne \<Rightarrow> Inr (Some (Q_not (Q_leaf f L_exact v)))
      | D_not_in \<Rightarrow> Inr (if is_list v then Some (Q_not (Q_leaf f L_in v)) else None)
      | D_iregex \<Rightarrow>
          if \<not> truthy v then Inr None
          else (case v of
                  JStr p \<Rightarrow> Inr (if compiles p then Some (Q_leaf f L_iregex v) else None)
                | _ \<Rightarrow> Inl TypeError)
      | D_in \<Rightarrow> Inr (if is_list v then Some (Q_leaf f L_in v) else None)
      | D_exact \<Rightarrow> Inr (Some (Q_leaf f L_exact v))
      | D_icontains \<Rightarrow> Inr (Some (Q_leaf f L_icontains v))
      | D_gt \<Rightarrow> Inr (Some (Q_leaf f L_gt v))
      | D_gte \<Rightarrow> Inr (Some (Q_leaf f L_gte v))
      | D_lt \<Rightarrow> Inr (Some (Q_leaf f L_lt v))
      | D_lte \<Rightarrow> Inr (Some (Q_leaf f L_lte v)))"

fun build_condition_q :: "(string \<Rightarrow> bool) \<Rightarrow> json \<Rightarrow> q option res" where
  "build_condition_q compiles (JObj kvs) =
     (let key = rule_get kvs ''key'' JNull; operator = rule_get kvs ''operator'' JNull;
          v = rule_get kvs ''value'' JNull
      in if \<not> truthy key \<or> operator = JNull then Inr None
         else if v = JNull \<and> operator \<notin> set ne_aliases then Inr None
         else case field_name key of
           Inl e \<Rightarrow> Inl e
         | Inr f \<Rightarrow>
           (case op_of operator of
              Inl e \<Rightarrow> Inl e
            | Inr None \<Rightarrow> Inr None
            | Inr (Some oper) \<Rightarrow> lookup_q compiles f oper v))"
| "build_condition_q compiles _ = Inl AttributeError"

text \<open>One group: \<open>None\<close> when a condition of it is invalid.\<close>

fun build_conditions :: "(string \<Rightarrow> bool) \<Rightarrow> q list \<Rightarrow> json list \<Rightarrow> q list option res" where
  "build_conditions compiles acc [] = Inr (Some acc)"
| "build_conditions compiles acc (c # cs) =
     (case build_condition_q compiles c of
        Inl e \<Rightarrow> Inl e
      | Inr None \<Rightarrow> Inr None
      | Inr (Some q) \<Rightarrow> build_conditions compiles (acc @ [q]) cs)"

fun joined :: "(q \<Rightarrow> q \<Rightarrow> q) \<Rightarrow> q list \<Rightarrow> q option" where
  "joined f [] = None"
| "joined f (q # qs) = Some (foldl f q qs)"

fun or_conditions :: "(string \<Rightarrow> bool) \<Rightarrow> q list \<Rightarrow> json list \<Rightarrow> q list res" where
  "or_conditions compiles acc [] = Inr acc"
| "or_conditions compiles acc (grp # groups) =
     (if \<not> truthy grp then or_conditions compiles acc groups
      else case py_iter grp of
        Inl e \<Rightarrow> Inl e
      | Inr conds \<Rightarrow>
        (case build_conditions compiles [] conds of
           Inl e \<Rightarrow> Inl e
         | Inr None \<Rightarrow> or_conditions compiles acc groups
         | Inr (Some qs) \<Rightarrow>
             or_conditions compiles
               (case joined Q_and qs of None \<Rightarrow> acc | Some q \<Rightarrow> acc @ [q]) groups))"

definition build_q_filter :: "(string \<Rightarrow> bool) \<Rightarrow> json list \<Rightarrow> q option res" where
  "build_q_filter compiles rules =
     (case or_conditions compiles [] rules of Inl e \<Rightarrow> Inl e | Inr qs \<Rightarrow> Inr (joined Q_or qs))"

text \<open>The database: the lookups it accepts (another one makes \<open>filter\<close> raise) and the rows.\<close>

record 'row q_db =
  qd_orm :: "'row orm"
  qd_ok :: "string \<Rightarrow> lookup \<Rightarrow> json \<Rightarrow> bool"

fun q_ok :: "(string \<Rightarrow> lookup \<Rightarrow> json \<Rightarrow> bool) \<Rightarrow> q \<Rightarrow> bool" where
  "q_ok ok (Q_leaf f l v) = ok f l v"
| "q_ok ok (Q_not p) = q_ok ok p"
| "q_ok ok (Q_and p p') = (q_ok ok p \<and> q_ok ok p')"
| "q_ok ok (Q_or p p') = (q_ok ok p \<and> q_ok ok p')"

definition match_events_to_strategy :: "'row q_db \<Rightarrow> 'row list \<Rightarrow> json list \<Rightarrow> 'row list" where
  "match_events_to_strategy m rows rules =
     (if rules = [] then rows
      else case build_q_filter (orm_regex (qd_orm m)) rules of
        Inl _ \<Rightarrow> []
      | Inr None \<Rightarrow> []
      | Inr (Some q) \<Rightarrow> if q_ok (qd_ok m) q then filter (\<lambda>r. q_holds (qd_orm m) r q) rows else [])"

section \<open>Evaluation in memory\<close>

text \<open>\<open>me_attr\<close> reads an attribute that is not one of the modelled columns, \<open>me_repr\<close> is the text
  of a container, \<open>me_float\<close> a conversion to a number, and \<open>me_search\<close> compiles a pattern
  (\<open>None\<close> when that fails) and searches a text, ignoring the case.\<close>

record mem_env =
  me_attr :: "event \<Rightarrow> string \<Rightarrow> json option"
  me_repr :: "json \<Rightarrow> string"
  me_float :: "json \<Rightarrow> rat option"
  me_search :: "string \<Rightarrow> (string \<Rightarrow> bool) option"

fun jopt :: "string option \<Rightarrow> json" where
  "jopt None = JNull"
| "jopt (Some s) = JStr s"

definition event_columns :: "event \<Rightarrow> (string \<times> json) list" where
  "event_columns e =
     [(''event_id'', JStr (ev_event_id e)), (''title'', JStr (ev_title e)),
      (''description'', jopt (ev_description e)), (''level'', JStr (ev_level e)),
      (''service'', jopt (ev_service e)), (''event_type'', JInt (ev_event_type e)),
      (''tags'', ev_tags e), (''location'', jopt (ev_location e)),
      (''external_id'', jopt (ev_external_id e)), (''labels'', ev_labels e),
      (''enrichment'', JObj (ev_enrichment e)), (''rule_id'', jopt (ev_rule_id e)),
      (''item'', jopt (ev_item e)), (''resource_id'', jopt (ev_resource_id e)),
      (''resource_type'', jopt (ev_resource_type e)), (''resource_name'', jopt (ev_resource_name e)),
      (''push_source_id'', JStr (ev_push_source_id e)), (''source_id'', JInt (int (ev_source_pk e)))]"

text \<open>\<open>getattr(event, name)\<close> where there is such an attribute.\<close>

definition event_attr :: "mem_env \<Rightarrow> event \<Rightarrow> string \<Rightarrow> json option" where
  "event_attr env e f = (case map_of (event_columns e) f of Some v \<Rightarrow> Some v | None \<Rightarrow> me_attr env e f)"

text \<open>\<open>field_name in d\<close> and \<open>d[field_name]\<close> for \<open>d = labels or {}\<close>: a list or a text that contains
  the name is indexed with it, which raises.\<close>

fun dict_value :: "json \<Rightarrow> string \<Rightarrow> json option res" where
  "dict_value (JObj kvs) f = Inr (map_of kvs f)"
| "dict_value (JList xs) f = (if JStr f \<in> set xs then Inl TypeError else Inr None)"
| "dict_value (JStr s) f = (if s \<noteq> [] \<and> substr_in f s then Inl TypeError else Inr None)"
| "dict_value j f = (if truthy j then Inl TypeError else Inr None)"

definition get_field_value :: "mem_env \<Rightarrow> event \<Rightarrow> string \<Rightarrow> json res" where
  "get_field_value env e f =
     (if f = ''source__name'' then Inr (JStr (ev_source_name e))
      else case event_attr env e f of
        Some v \<Rightarrow> Inr v
      | None \<Rightarrow>
        (case dict_value (ev_labels e) f of
           Inl x \<Rightarrow> Inl x
         | Inr (Some v) \<Rightarrow> Inr v
         | Inr None \<Rightarrow>
           (case dict_value (ev_tags e) f of
              Inl x \<Rightarrow> Inl x
            | Inr (Some v) \<Rightarrow> Inr v
            | Inr None \<Rightarrow> Inr JNull)))"

fun to_str :: "mem_env \<Rightarrow> json \<Rightarrow> string" where
  "to_str env JNull = []"
| "to_str env (JStr s) = s"
| "to_str env (JInt i) = str_int i"
| "to_str env (JBool b) = (if b then ''True'' else ''False'')"
| "to_str env j = me_repr env j"

definition equal_values :: "mem_env \<Rightarrow> json \<Rightarrow> json \<Rightarrow> bool" where
  "equal_values env l r =
     (if l = JNull \<and> r = JNull then True
      else if l = JNull \<or> r = JNull then False
      else to_str env l = to_str env r)"

definition icontains_value :: "mem_env \<Rightarrow> json \<Rightarrow> json \<Rightarrow> bool" where
  "icontains_value env haystack needle =
     (if none_or_empty needle then False
      else substr_in (lower (to_str env needle)) (lower (to_str env haystack)))"

definition numeric_compare :: "mem_env \<Rightarrow> json \<Rightarrow> json \<Rightarrow> (rat \<Rightarrow> rat \<Rightarrow> bool) \<Rightarrow> bool" where
  "numeric_compare env l r cmp =
     (case me_float env l of
        None \<Rightarrow> False
      | Some x \<Rightarrow> (case me_float env r of None \<Rightarrow> False | Some y \<Rightarrow> cmp x y))"

fun list_items :: "json \<Rightarrow> json list" where
  "list_items (JList vs) = vs"
| "list_items _ = []"

definition eval_lookup :: "mem_env \<Rightarrow> json \<Rightarrow> django_op \<Rightarrow> json \<Rightarrow> bool" where
  "eval_lookup env x oper v =
     (if v = JNull \<and> oper \<noteq> D_ne then False
      else case oper of
        D_exact \<Rightarrow> equal_values env x v
      | D_ne \<Rightarrow> \<not> equal_values env x v
      | D_icontains \<Rightarrow> icontains_value env x v
      | D_not_contains \<Rightarrow> if none_or_empty v then False else \<not> icontains_value env x v
      | D_iregex \<Rightarrow>
          if \<not> truthy v then False
          else (case me_search env (to_str env v) of None \<Rightarrow> False | Some search \<Rightarrow> search (to_str env x))
      | D_in \<Rightarrow> if is_list v then list_ex (equal_values env x) (list_items v) else False
      | D_not_in \<Rightarrow> if is_list v then \<not> list_ex (equal_values env x) (list_items v) else False
      | D_gt \<Rightarrow> numeric_compare env x v (\<lambda>a b. a > b)
      | D_gte \<Rightarrow> numeric_compare env x v (\<lambda>a b. a \<ge> b)
      | D_lt \<Rightarrow> numeric_compare env x v (\<lambda>a b. a < b)
      | D_lte \<Rightarrow> numeric_compare env x v (\<lambda>a b. a \<le> b))"

text \<open>A key that is neither text nor unhashable ends in \<open>hasattr\<close> with a \<open>TypeError\<close>.\<close>

fun eval_condition :: "mem_env \<Rightarrow> event \<Rightarrow> json \<Rightarrow> bool res" where
  "eval_condition env e (JObj kvs) =
     (let key = rule_get kvs ''key'' JNull; operator = rule_get kvs ''operator'' JNull;
          v = rule_get kvs ''value'' JNull
      in if \<not> truthy key \<or> operator = JNull then Inr False
         else case op_of operator of
           Inl x \<Rightarrow> Inl x
         | Inr None \<Rightarrow> Inr False
         | Inr (Some oper) \<Rightarrow>
           (case key of
              JStr _ \<Rightarrow>
                (case field_name key of
                   Inl x \<Rightarrow> Inl x
                 | Inr f \<Rightarrow>
                   (case get_field_value env e f of
                      Inl x \<Rightarrow> Inl x
                    | Inr w \<Rightarrow> Inr (eval_lookup env w oper v)))
            | _ \<Rightarrow> Inl TypeError))"
| "eval_condition env e _ = Inl AttributeError"

text \<open>\<open>all(...)\<close> stops at the first condition that fails.\<close>

fun all_conditions :: "mem_env \<Rightarrow> event \<Rightarrow> json list \<Rightarrow> bool res" where
  "all_conditions env e [] = Inr True"
| "all_conditions env e (c # cs) =
     (case eval_condition env e c of
        Inl x \<Rightarrow> Inl x
      | Inr False \<Rightarrow> Inr False
      | Inr True \<Rightarrow> all_conditions env e cs)"

fun match_groups :: "mem_env \<Rightarrow> event \<Rightarrow> json list \<Rightarrow> bool res" where
  "match_groups env e [] = Inr False"
| "match_groups env e (grp # groups) =
     (if \<not> truthy grp then match_groups env e groups
      else case py_iter grp of
        Inl x \<Rightarrow> Inl x
      | Inr conds \<Rightarrow>
        (case all_conditions env e conds of
           Inl x \<Rightarrow> Inl x
         | Inr True \<Rightarrow> Inr True
         | Inr False \<Rightarrow> match_groups env e groups))"

definition match_in_memory :: "mem_env \<Rightarrow> event \<Rightarrow> json list \<Rightarrow> bool" where
  "match_in_memory env e rules =
     (case match_groups env e rules of Inl _ \<Rightarrow> False | Inr b \<Rightarrow> b)"

section \<open>Text columns\<close>

text \<open>The text columns of the field map, all of which an event has.\<close>

definition text_fields :: "string list" where
  "text_fields = filter (\<lambda>f. f \<noteq> ''event_type'') (map snd FIELD_MAP)"

definition field_value :: "event \<Rightarrow> string \<Rightarrow> json" where
  "field_value e f =
     (if f = ''source__name'' then JStr (ev_source_name e)
      else case map_of (event_columns e) f of Some v \<Rightarrow> v | None \<Rightarrow> JNull)"

lemma text_field_value: "f \<in> set text_fields \<Longrightarrow> get_field_value env e f = Inr (field_value e f)"
  by (auto simp: text_fields_def FIELD_MAP_def get_field_value_def field_value_def event_attr_def event_columns_def)

section \<open>Where the two matchers differ\<close>

definition probe_event :: event where
  "probe_event = \<lparr>ev_pk = 1, ev_event_id = ''E1'', ev_source_pk = 1, ev_source_id = ''src'',
     ev_source_name = ''zabbix'', ev_level = ''1'', ev_title = ''CPU high'', ev_external_id = Some ''x'',
     ev_action = EA_CREATED, ev_start_time = Some 5, ev_end_time = None, ev_received_at = 6,
     ev_item = Some ''cpu'', ev_resource_id = None, ev_resource_type = None, ev_resource_name = Some ''h1'',
     ev_labels = JObj [], ev_enrichment = [], ev_status = E_RECEIVED, ev_description = None,
     ev_service = None, ev_location = None, ev_push_source_id = ''default'', ev_event_type = 0,
     ev_rule_id = None, ev_tags = JObj [], ev_team = [],
     ev_ingest_key = None\<rparr>"

definition probe_env :: mem_env where
  "probe_env = \<lparr>me_attr = (\<lambda>_ _. None), me_repr = (\<lambda>_. ''[]''), me_float = (\<lambda>_. None),
     me_search = (\<lambda>p. Some (substr_in (lower p) \<circ> lower))\<rparr>"

definition probe_db :: "event q_db" where
  "probe_db = \<lparr>qd_orm = \<lparr>orm_sat = (\<lambda>e f l v. case l of
        L_exact \<Rightarrow> equal_values probe_env (field_value e f) v
      | L_icontains \<Rightarrow> v = JStr [] \<or> icontains_value probe_env (field_value e f) v
      | L_in \<Rightarrow> list_ex (equal_values probe_env (field_value e f)) (list_items v)
      | L_iregex \<Rightarrow> (case v of JStr p \<Rightarrow> substr_in (lower p) (lower (to_str probe_env (field_value e f))) | _ \<Rightarrow> False)
      | _ \<Rightarrow> False), orm_regex = (\<lambda>_. True)\<rparr>, qd_ok = (\<lambda>_ _ _. True)\<rparr>"

definition probe_rules :: "json list" where
  "probe_rules =
     [JList [JObj [(''key'', JStr ''level''), (''operator'', JStr ''in''), (''value'', JList [JInt 0])]],
      JList [JObj [(''key'', JStr ''source''), (''operator'', JStr ''ne''), (''value'', JStr ''nagios'')],
             JObj [(''key'', JStr ''title''), (''operator'', JStr ''contains''), (''value'', JStr ''cpu'')]]]"

lemma probe_rules_agree:
  "match_events_to_strategy probe_db [probe_event] probe_rules = [probe_event] \<and>
   match_in_memory probe_env probe_event probe_rules"
  by code_simp

text \<open>Without rules a strategy selects every event in the database and none in memory; an empty
  text is contained in every value for the database and in none in memory.\<close>

lemma empty_rules_differ:
  "match_events_to_strategy m rows [] = rows \<and> match_in_memory env e [] = False"
  by (simp add: match_events_to_strategy_def match_in_memory_def)

lemma empty_text_differs:
  "let rules = [JList [JObj [(''key'', JStr ''title''), (''operator'', JStr ''contains''), (''value'', JStr [])]]] in
   match_events_to_strategy probe_db [probe_event] rules = [probe_event] \<and>
   match_in_memory probe_env probe_event rules = False"
  by code_simp

end
