(* ===== verification/Alert_Builder.thy ===== *)
theory Alert_Builder
  imports Samples Strategy_Match
begin

text \<open>
  Building alerts from aggregated events: the windows of strategies
  (\<open>aggregation/window/factory.py\<close>, \<open>parse_aggregation_window_size\<close> of \<open>utils/util.py\<close>), team ids
  (\<open>utils/permission_scope.py\<close>) and \<open>aggregation/builder/alert_builder.py\<close>: the level of an alert, the
  fields it inherits from its events, and the creation or update of the one active alert of a
  fingerprint. The class attribute with the event ids known of an alert is part of the state.
\<close>

section \<open>Windows\<close>

definition MAX_AGGREGATION_WINDOW_SIZE_MINUTES :: int where
  "MAX_AGGREGATION_WINDOW_SIZE_MINUTES = 1440"

definition DEFAULT_WINDOW_SIZE :: int where
  "DEFAULT_WINDOW_SIZE = 10"

definition DEFAULT_SESSION_TIMEOUT :: int where
  "DEFAULT_SESSION_TIMEOUT = 10"

text \<open>\<open>parse_aggregation_window_size\<close>; the flag tells whether the value was replaced.\<close>

fun parse_aggregation_window_size :: "int \<Rightarrow> bool \<Rightarrow> json \<Rightarrow> (int \<times> bool) res" where
  "parse_aggregation_window_size dflt clamp JNull = Inr (dflt, False)"
| "parse_aggregation_window_size dflt clamp (JInt n) =
     (if n \<le> 0 then (if clamp then Inr (dflt, True) else Inl ValueError)
      else if n > MAX_AGGREGATION_WINDOW_SIZE_MINUTES
        then (if clamp then Inr (MAX_AGGREGATION_WINDOW_SIZE_MINUTES, True) else Inl ValueError)
      else Inr (n, False))"
| "parse_aggregation_window_size dflt clamp _ = (if clamp then Inr (dflt, True) else Inl ValueError)"

text \<open>The timeout of a session is the value of the configuration, as it is.\<close>

record window_config =
  wc_session :: bool
  wc_size :: int
  wc_timeout :: json

definition create_from_strategy :: "strategy \<Rightarrow> window_config res" where
  "create_from_strategy g =
     (let params = py_or (sg_params g) (JObj []) in
      case jget params ''window_size'' JNull of
        Inl e \<Rightarrow> Inl e
      | Inr raw \<Rightarrow>
        (case parse_aggregation_window_size DEFAULT_WINDOW_SIZE True raw of
           Inl e \<Rightarrow> Inl e
         | Inr (wsize, _) \<Rightarrow>
           (case jget params ''time_out'' (JBool False) of
              Inl e \<Rightarrow> Inl e
            | Inr time_out \<Rightarrow>
              (case jget params ''time_minutes'' (JInt DEFAULT_SESSION_TIMEOUT) of
                 Inl e \<Rightarrow> Inl e
               | Inr timeout \<Rightarrow>
                   let sliding = \<lparr>wc_session = False, wc_size = wsize, wc_timeout = JInt 0\<rparr> in
                   if \<not> truthy time_out then Inr sliding
                   else (case py_int (py_or timeout (JInt 0)) of
                     Inl e \<Rightarrow> Inl e
                   | Inr n \<Rightarrow>
                       Inr (if n > 0 then \<lparr>wc_session = True, wc_size = wsize, wc_timeout = timeout\<rparr>
                            else sliding))))))"

text \<open>\<open>timedelta(minutes=x)\<close> takes numbers only.\<close>

definition get_session_end_time :: "int \<Rightarrow> window_config \<Rightarrow> int res" where
  "get_session_end_time now w =
     (case py_num (py_or (wc_timeout w) (JInt (wc_size w))) of
        Inl e \<Rightarrow> Inl e
      | Inr n \<Rightarrow> Inr (now + minutes n))"

section \<open>Teams\<close>

fun team_ids :: "json list \<Rightarrow> int list res" where
  "team_ids [] = Inr []"
| "team_ids (x # xs) =
     (case py_int x of
        Inl _ \<Rightarrow> Inl ValueError
      | Inr i \<Rightarrow> (case team_ids xs of Inl e \<Rightarrow> Inl e | Inr ns \<Rightarrow> Inr (i # ns)))"

definition normalize_team_ids :: "json \<Rightarrow> int list res" where
  "normalize_team_ids team =
     (if none_or_empty team then Inr []
      else case team of JList xs \<Rightarrow> team_ids xs | _ \<Rightarrow> Inl ValueError)"

definition get_safe_strategy_team :: "strategy \<Rightarrow> json list" where
  "get_safe_strategy_team g =
     (case normalize_team_ids (sg_dispatch_team g) of Inl _ \<Rightarrow> [] | Inr ns \<Rightarrow> map JInt ns)"

section \<open>Levels\<close>

text \<open>The levels of type \<open>alert\<close> are loaded once and are an argument here.\<close>

definition map_event_level_to_alert :: "int list \<Rightarrow> json \<Rightarrow> string" where
  "map_event_level_to_alert valid level =
     (case py_int level of
        Inl _ \<Rightarrow> ''0''
      | Inr n \<Rightarrow>
          if valid = [] then ''0''
          else if n \<in> set valid then str_int n
          else
            let levels = sort (remdups valid) in
            if n < hd levels then str_int (hd levels)
            else if n > last levels then str_int (last levels)
            else str_int (last (filter (\<lambda>l. l < n) levels)))"

section \<open>Inherited fields\<close>

fun get_unique_scalar_value :: "'a option list \<Rightarrow> 'a option" where
  "get_unique_scalar_value [] = None"
| "get_unique_scalar_value (v # vs) = (if list_all (\<lambda>w. w = v) vs then v else None)"

definition merge_payload :: "string \<times> json \<Rightarrow> (string \<times> json) list \<Rightarrow> (string \<times> json) list" where
  "merge_payload p merged =
     (if fst p \<notin> fst ` set merged \<and> truthy (snd p) then merged @ [p] else merged)"

definition merge_enrichment :: "event list \<Rightarrow> (string \<times> json) list" where
  "merge_enrichment es = fold (\<lambda>e. fold merge_payload (ev_enrichment e)) es []"

text \<open>\<open>json.dumps(x, sort_keys=True)\<close> identifies exactly the documents that differ in the order of
  the keys only: the canonical form has them sorted.\<close>

function canon :: "json \<Rightarrow> json" where
  "canon (JList xs) = JList (map canon xs)"
| "canon (JObj kvs) = JObj (sort_key fst (map (\<lambda>p. (fst p, canon (snd p))) kvs))"
| "canon JNull = JNull"
| "canon (JBool b) = JBool b"
| "canon (JInt i) = JInt i"
| "canon (JStr s) = JStr s"
  by pat_completeness auto

lemma size_json_pair: "p \<in> set kvs \<Longrightarrow> size (snd p) < Suc (size_list (size_prod (\<lambda>_. 0) size) kvs)"
proof -
  assume p: "p \<in> set kvs"
  have "size (snd p) \<le> size_prod (\<lambda>_. 0) size p" by (cases p) simp
  with p have "size (snd p) \<le> size_list (size_prod (\<lambda>_. 0) size) kvs" by (rule size_list_estimation')
  then show ?thesis by simp
qed

termination canon
  by (relation "measure size") (auto simp: less_Suc_eq_le size_list_estimation' size_json_pair)

definition labels_of :: "event \<Rightarrow> json" where
  "labels_of e = py_or (ev_labels e) (JObj [])"

definition get_consistent_labels :: "event list \<Rightarrow> json" where
  "get_consistent_labels es =
     (case es of
        [] \<Rightarrow> JObj []
      | e # _ \<Rightarrow> if list_all (\<lambda>x. canon (labels_of x) = canon (labels_of e)) es then labels_of e else JObj [])"

record std_fields =
  sf_source_name :: "string option"
  sf_resource_id :: "string option"
  sf_resource_name :: "string option"
  sf_resource_type :: "string option"
  sf_item :: "string option"
  sf_labels :: json
  sf_enrichment :: "(string \<times> json) list"

definition resolve_standard_fields :: "event list \<Rightarrow> std_fields" where
  "resolve_standard_fields es =
     \<lparr>sf_source_name = get_unique_scalar_value (map (\<lambda>e. Some (ev_source_name e)) es),
      sf_resource_id = get_unique_scalar_value (map ev_resource_id es),
      sf_resource_name = get_unique_scalar_value (map ev_resource_name es),
      sf_resource_type = get_unique_scalar_value (map ev_resource_type es),
      sf_item = get_unique_scalar_value (map ev_item es),
      sf_labels = get_consistent_labels es,
      sf_enrichment = merge_enrichment es\<rparr>"

text \<open>\<open>s.split(c)\<close>.\<close>

fun split_on :: "char \<Rightarrow> string \<Rightarrow> string list" where
  "split_on c [] = [[]]"
| "split_on c (x # xs) =
     (if x = c then [] # split_on c xs
      else case split_on c xs of [] \<Rightarrow> [[x]] | w # ws \<Rightarrow> (x # w) # ws)"

definition dimension_values :: "mem_env \<Rightarrow> string \<Rightarrow> event list \<Rightarrow> string list" where
  "dimension_values env name es =
     remdups (concat (map (\<lambda>e.
       case event_attr env e name of
         None \<Rightarrow> []
       | Some v \<Rightarrow> if v = JNull then []
                   else let t = strip (to_str env v) in if t = [] then [] else [t]) es))"

definition resolve_dimensions :: "mem_env \<Rightarrow> event list \<Rightarrow> string \<Rightarrow> (string \<times> string) list" where
  "resolve_dimensions env es field =
     (if es = [] \<or> field = [] then []
      else fold (\<lambda>name dims. case dimension_values env name es of
                   [v] \<Rightarrow> tsave fst (name, v) dims
                 | _ \<Rightarrow> dims)
             (filter (\<lambda>n. n \<noteq> []) (map strip (split_on CHR '','' field))) [])"

section \<open>Creating and updating\<close>

text \<open>A row of the aggregation query.\<close>

record agg_result =
  ag_fingerprint :: string
  ag_event_ids :: "string list"
  ag_alert_level :: json
  ag_alert_title :: "string option"
  ag_alert_description :: "string option"
  ag_first_event_time :: "int option"
  ag_last_event_time :: "int option"

text \<open>\<open>_alert_event_cache\<close>: the event ids known of an alert.\<close>

type_synonym event_cache = "(nat \<times> string list) list"

definition get_events_by_ids :: "string list \<Rightarrow> db \<Rightarrow> event list" where
  "get_events_by_ids ids s = sort_key ev_pk (filter (\<lambda>e. ev_event_id e \<in> set ids) (db_events s))"

text \<open>The primary key of a new row.\<close>

definition next_pk :: "db \<Rightarrow> nat" where
  "next_pk s = next_key al_pk (db_alerts s)"

text \<open>The default title, in UTF-8.\<close>

definition default_title :: string where
  "default_title = [CHR 0xE8, CHR 0x81, CHR 0x9A, CHR 0xE5, CHR 0x90, CHR 0x88, CHR 0xE5, CHR 0x91, CHR 0x8A,
     CHR 0xE8, CHR 0xAD, CHR 0xA6]"

definition str_or :: "string option \<Rightarrow> string \<Rightarrow> string" where
  "str_or x d = (case x of None \<Rightarrow> d | Some s \<Rightarrow> if s = [] then d else s)"

text \<open>The row of a new alert; \<open>observed\<close> says that its session starts with an observation.\<close>

definition new_alert ::
  "int list \<Rightarrow> mem_env \<Rightarrow> int \<Rightarrow> string \<Rightarrow> agg_result \<Rightarrow> strategy \<Rightarrow> string \<Rightarrow> bool \<Rightarrow> bool \<Rightarrow> int option \<Rightarrow> db \<Rightarrow> alert" where
  "new_alert levels env now aid r g field session observed end_time s =
     (let es = get_events_by_ids (ag_event_ids r) s; std = resolve_standard_fields es in
      \<lparr>al_pk = next_pk s, al_alert_id = aid, al_status = A_UNASSIGNED,
       al_level = map_event_level_to_alert levels (ag_alert_level r),
       al_events = map ev_pk es, al_created_at = now, al_updated_at = now,
       al_title = str_or (ag_alert_title r) default_title,
       al_content = str_or (ag_alert_description r) [],
       al_first_event_time = ag_first_event_time r, al_last_event_time = ag_last_event_time r,
       al_operate = None, al_operator = [], al_fingerprint = ag_fingerprint r,
       al_rule_id = Some (str_int (sg_id g)), al_is_session_alert = session,
       al_session_status = (if observed then Some S_OBSERVING else None),
       al_session_end_time = end_time, al_team = get_safe_strategy_team g,
       al_source_name = sf_source_name std, al_resource_id = sf_resource_id std,
       al_resource_name = sf_resource_name std, al_resource_type = sf_resource_type std,
       al_item = sf_item std, al_labels = sf_labels std, al_enrichment = sf_enrichment std,
       al_group_by_field = Some field, al_dimensions = resolve_dimensions env es field\<rparr>)"

text \<open>\<open>uid\<close> is the text of the new UUID. A used \<open>alert_id\<close> violates the unique constraint.\<close>

definition create_new_alert ::
  "int list \<Rightarrow> mem_env \<Rightarrow> int \<Rightarrow> string \<Rightarrow> agg_result \<Rightarrow> strategy \<Rightarrow> string \<Rightarrow> event_cache \<times> db
   \<Rightarrow> alert res \<times> event_cache \<times> db" where
  "create_new_alert levels env now uid r g field st =
     (case st of (cache, s) \<Rightarrow>
        (case create_from_strategy g of
           Inl e \<Rightarrow> (Inl e, st)
         | Inr w \<Rightarrow>
             let observed = wc_session w \<and> truthy (wc_timeout w); aid = ''ALERT-'' @ uid in
             (case (if observed then map_sum id Some (get_session_end_time now w) else Inr None) of
                Inl e \<Rightarrow> (Inl e, st)
              | Inr end_time \<Rightarrow>
                  if aid \<in> al_alert_id ` set (db_alerts s) then (Inl IntegrityError, st)
                  else
                    let a = new_alert levels env now aid r g field (wc_session w) observed end_time s in
                    (Inr a,
                     (if get_events_by_ids (ag_event_ids r) s = [] then cache
                      else tsave fst (al_pk a, ag_event_ids r) cache),
                     emit (ActionDispatch aid ''created'') (save_alert a s)))))"

definition linked_ids :: "alert \<Rightarrow> event_cache \<Rightarrow> db \<Rightarrow> string list" where
  "linked_ids a cache s =
     (case map_of cache (al_pk a) of Some ids \<Rightarrow> ids | None \<Rightarrow> map ev_event_id (events_of a s))"

definition link_new_events :: "alert \<Rightarrow> string list \<Rightarrow> event_cache \<Rightarrow> db \<Rightarrow> alert \<times> event_cache" where
  "link_new_events a ids cache s =
     (if ids = [] then (a, cache)
      else
        let known = linked_ids a cache s;
            new = filter (\<lambda>i. i \<notin> set known) ids;
            pks = map ev_pk (filter (\<lambda>e. ev_event_id e \<in> set new) (db_events s))
        in (a\<lparr>al_events := al_events a @ filter (\<lambda>k. k \<notin> set (al_events a)) pks\<rparr>,
            tsave fst (al_pk a, known @ new) cache))"

text \<open>The end of the observation of a session alert moves with every update.\<close>

definition extended_end :: "int \<Rightarrow> alert \<Rightarrow> strategy \<Rightarrow> int option res" where
  "extended_end now a g =
     (if al_is_session_alert a \<and> al_session_status a = Some S_OBSERVING then
        (case jget (py_or (sg_params g) (JObj [])) ''time_out'' (JBool False) of
           Inl e \<Rightarrow> Inl e
         | Inr time_out \<Rightarrow>
             if \<not> truthy time_out then Inr (al_session_end_time a)
             else (case create_from_strategy g of
               Inl e \<Rightarrow> Inl e
             | Inr w \<Rightarrow> map_sum id Some (get_session_end_time now w)))
      else Inr (al_session_end_time a))"

definition updated_alert :: "int list \<Rightarrow> mem_env \<Rightarrow> int \<Rightarrow> agg_result \<Rightarrow> int option \<Rightarrow> alert \<Rightarrow> db \<Rightarrow> alert" where
  "updated_alert levels env now r end_time a s =
     (let es = sort_key ev_pk (events_of a s); std = resolve_standard_fields es in
      a\<lparr>al_last_event_time := ag_last_event_time r,
        al_level := map_event_level_to_alert levels (ag_alert_level r),
        al_updated_at := now, al_session_end_time := end_time,
        al_source_name := sf_source_name std, al_resource_id := sf_resource_id std,
        al_resource_name := sf_resource_name std, al_resource_type := sf_resource_type std,
        al_item := sf_item std, al_labels := sf_labels std, al_enrichment := sf_enrichment std,
        al_dimensions := resolve_dimensions env es (str_or (al_group_by_field a) [])\<rparr>)"

definition update_existing_alert ::
  "int list \<Rightarrow> mem_env \<Rightarrow> int \<Rightarrow> alert \<Rightarrow> agg_result \<Rightarrow> strategy \<Rightarrow> event_cache \<times> db
   \<Rightarrow> alert res \<times> event_cache \<times> db" where
  "update_existing_alert levels env now a r g st =
     (case st of (cache, s) \<Rightarrow>
        (case extended_end now a g of
           Inl e \<Rightarrow> (Inl e, st)
         | Inr end_time \<Rightarrow>
             let (a1, cache') = link_new_events a (ag_event_ids r) cache s;
                 a2 = updated_alert levels env now r end_time a1 s
             in (Inr a2, cache', save_alert a2 s)))"

definition active_with :: "string \<Rightarrow> db \<Rightarrow> alert list" where
  "active_with fp s = filter (\<lambda>a. al_fingerprint a = fp \<and> al_status a \<in> set ACTIVATE_STATUS) (db_alerts s)"

definition create_or_update_alert ::
  "int list \<Rightarrow> mem_env \<Rightarrow> int \<Rightarrow> string \<Rightarrow> agg_result \<Rightarrow> strategy \<Rightarrow> string \<Rightarrow> event_cache \<times> db
   \<Rightarrow> alert res \<times> event_cache \<times> db" where
  "create_or_update_alert levels env now uid r g field st =
     (case sort_key (\<lambda>a. - al_updated_at a) (active_with (ag_fingerprint r) (snd st)) of
        a # _ \<Rightarrow> update_existing_alert levels env now a r g st
      | [] \<Rightarrow> create_new_alert levels env now uid r g field st)"

section \<open>Windows and levels\<close>

lemma parse_window_bounds:
  "parse_aggregation_window_size dflt True raw = Inr (n, b) \<Longrightarrow> 1 \<le> dflt \<Longrightarrow> dflt \<le> 1440 \<Longrightarrow> 1 \<le> n \<and> n \<le> 1440"
  by (cases raw) (auto simp: MAX_AGGREGATION_WINDOW_SIZE_MINUTES_def split: if_splits)

lemma create_from_strategy_bounds:
  assumes "create_from_strategy g = Inr w"
  shows "1 \<le> wc_size w \<and> wc_size w \<le> 1440"
proof -
  obtain raw where r: "jget (py_or (sg_params g) (JObj [])) ''window_size'' JNull = Inr raw"
    using assms by (auto simp: create_from_strategy_def Let_def split: sum.splits)
  obtain n b where p: "parse_aggregation_window_size DEFAULT_WINDOW_SIZE True raw = Inr (n, b)"
    using assms r by (auto simp: create_from_strategy_def Let_def split: sum.splits)
  have "wc_size w = n" using assms r p
    by (auto simp: create_from_strategy_def Let_def split: sum.splits if_splits)
  with parse_window_bounds[OF p] show ?thesis by (simp add: DEFAULT_WINDOW_SIZE_def)
qed

lemma sorted_last: "sorted xs \<Longrightarrow> xs \<noteq> [] \<Longrightarrow> \<forall>v \<in> set xs. v \<le> last xs"
  by (induction xs) (auto split: if_splits)

lemma level_of_sorted:
  fixes n :: int
  assumes "sorted ls" "ls \<noteq> []" "\<not> n < hd ls" "\<not> n > last ls" "n \<notin> set ls"
  shows "last (filter (\<lambda>l. l < n) ls) \<in> set ls \<and> last (filter (\<lambda>l. l < n) ls) \<le> n \<and>
    (\<forall>v \<in> set ls. v \<le> n \<longrightarrow> v \<le> last (filter (\<lambda>l. l < n) ls))"
proof -
  let ?f = "filter (\<lambda>l. l < n) ls"
  have "hd ls \<in> set ls" using assms(2) by simp
  then have "hd ls \<noteq> n" using assms(5) by blast
  then have "hd ls \<in> set ?f" using assms(3) \<open>hd ls \<in> set ls\<close> by simp
  then have ne: "?f \<noteq> []" by (metis empty_iff empty_set)
  then have m: "last ?f \<in> set ?f" by (rule last_in_set)
  have "sorted ?f" using assms(1) by (rule sorted_wrt_filter)
  then have top: "\<forall>v \<in> set ?f. v \<le> last ?f"
    using ne by (intro sorted_last)
  have "\<forall>v \<in> set ls. v \<le> n \<longrightarrow> v \<in> set ?f"
    using assms(5) by (auto simp: order_le_less)
  with top m show ?thesis by auto
qed

lemma map_level_correct:
  assumes "py_int level = Inr n" "valid \<noteq> []"
  shows "\<exists>l \<in> set valid. map_event_level_to_alert valid level = str_int l \<and>
    (if \<exists>v \<in> set valid. v \<le> n then l \<le> n \<and> (\<forall>v \<in> set valid. v \<le> n \<longrightarrow> v \<le> l)
     else \<forall>v \<in> set valid. l \<le> v)"
proof -
  define ls where "ls = sort (remdups valid)"
  have s: "sorted ls" "set ls = set valid" "ls \<noteq> []"
    using assms(2) by (auto simp: ls_def simp flip: set_empty)
  have h: "hd ls \<in> set valid" "\<forall>v \<in> set valid. hd ls \<le> v"
    using s by (cases ls, simp, simp, force)+
  have la: "last ls \<in> set valid" using s by (metis last_in_set)
  have lm: "\<forall>v \<in> set valid. v \<le> last ls"
    using s sorted_last[OF s(1,3)] by simp
  have e: "map_event_level_to_alert valid level =
      (if n \<in> set valid then str_int n else if n < hd ls then str_int (hd ls)
       else if n > last ls then str_int (last ls) else str_int (last (filter (\<lambda>l. l < n) ls)))"
    using assms by (simp add: map_event_level_to_alert_def ls_def Let_def)
  consider "n \<in> set valid" | "n \<notin> set valid" "n < hd ls" | "n \<notin> set valid" "\<not> n < hd ls" "n > last ls"
    | "n \<notin> set valid" "\<not> n < hd ls" "\<not> n > last ls" by blast
  then show ?thesis
  proof cases
    case 1
    then show ?thesis using e by auto
  next
    case 2
    then have "\<not> (\<exists>v \<in> set valid. v \<le> n)" using h(2) by fastforce
    then show ?thesis using 2 e h by auto
  next
    case 3
    have ex: "\<exists>v \<in> set valid. v \<le> n" using la 3(3) by (meson order_less_imp_le)
    show ?thesis using 3 e la lm ex by (intro bexI[of _ "last ls"]) auto
  next
    case 4
    from level_of_sorted[OF s(1,3) 4(2,3)] 4(1) s(2)
    have l: "last (filter (\<lambda>l. l < n) ls) \<in> set valid" "last (filter (\<lambda>l. l < n) ls) \<le> n"
      "\<forall>v \<in> set valid. v \<le> n \<longrightarrow> v \<le> last (filter (\<lambda>l. l < n) ls)" by auto
    show ?thesis using 4 e l by (intro bexI[of _ "last (filter (\<lambda>l. l < n) ls)"]) auto
  qed
qed

section \<open>Effect of building\<close>

lemma next_pk_fresh: "next_pk s \<notin> al_pk ` set (db_alerts s)"
  by (simp add: next_pk_def next_key_fresh)

lemma new_alert_fields [simp]:
  "al_pk (new_alert levels env now aid r g field ses obs et s) = next_pk s"
  "al_alert_id (new_alert levels env now aid r g field ses obs et s) = aid"
  "al_status (new_alert levels env now aid r g field ses obs et s) = A_UNASSIGNED"
  "al_operator (new_alert levels env now aid r g field ses obs et s) = []"
  "al_fingerprint (new_alert levels env now aid r g field ses obs et s) = ag_fingerprint r"
  "al_events (new_alert levels env now aid r g field ses obs et s) = map ev_pk (get_events_by_ids (ag_event_ids r) s)"
  "al_is_session_alert (new_alert levels env now aid r g field ses obs et s) = ses"
  "al_session_status (new_alert levels env now aid r g field ses obs et s) = (if obs then Some S_OBSERVING else None)"
  by (simp_all add: new_alert_def Let_def)

lemma updated_alert_fields [simp]:
  "al_pk (updated_alert levels env now r et a s) = al_pk a"
  "al_alert_id (updated_alert levels env now r et a s) = al_alert_id a"
  "al_status (updated_alert levels env now r et a s) = al_status a"
  "al_operator (updated_alert levels env now r et a s) = al_operator a"
  "al_fingerprint (updated_alert levels env now r et a s) = al_fingerprint a"
  "al_events (updated_alert levels env now r et a s) = al_events a"
  by (simp_all add: updated_alert_def Let_def)

lemma link_new_fields [simp]:
  "al_pk (fst (link_new_events a ids cache s)) = al_pk a"
  "al_alert_id (fst (link_new_events a ids cache s)) = al_alert_id a"
  "al_status (fst (link_new_events a ids cache s)) = al_status a"
  "al_operator (fst (link_new_events a ids cache s)) = al_operator a"
  "al_fingerprint (fst (link_new_events a ids cache s)) = al_fingerprint a"
  by (simp_all add: link_new_events_def Let_def)

text \<open>A successful creation appends one row with fresh keys; a failure changes nothing.\<close>

definition created :: "agg_result \<Rightarrow> event_cache \<times> db \<Rightarrow> alert \<Rightarrow> event_cache \<times> db \<Rightarrow> bool" where
  "created r st a st' \<longleftrightarrow> (case st of (cache, s) \<Rightarrow> case st' of (cache', t) \<Rightarrow>
     t = emit (ActionDispatch (al_alert_id a) ''created'') (s\<lparr>db_alerts := db_alerts s @ [a]\<rparr>) \<and>
     al_pk a \<notin> al_pk ` set (db_alerts s) \<and> al_alert_id a \<notin> al_alert_id ` set (db_alerts s) \<and>
     al_status a = A_UNASSIGNED \<and> al_operator a = [] \<and> al_fingerprint a = ag_fingerprint r \<and>
     al_events a = map ev_pk (get_events_by_ids (ag_event_ids r) s) \<and>
     (cache' = cache \<and> get_events_by_ids (ag_event_ids r) s = [] \<or>
      cache' = tsave fst (al_pk a, ag_event_ids r) cache))"

lemma create_new_effect:
  assumes "create_new_alert levels env now uid r g field (cache, s) = (x, st')"
  shows "(\<exists>e. x = Inl e \<and> st' = (cache, s)) \<or> (\<exists>a. x = Inr a \<and> created r (cache, s) a st')"
proof -
  have "created r (cache, s) (new_alert levels env now aid r g field ses obs et s)
      (if get_events_by_ids (ag_event_ids r) s = [] then cache
         else tsave fst (next_pk s, ag_event_ids r) cache,
       emit (ActionDispatch aid ''created'') (save_alert (new_alert levels env now aid r g field ses obs et s) s))"
    if "aid \<notin> al_alert_id ` set (db_alerts s)" for aid ses obs et
    using next_pk_fresh[of s] that by (simp add: created_def save_alert_def tsave_def)
  then show ?thesis using assms
    by (auto simp: create_new_alert_def Let_def split: sum.splits if_splits)
qed

text \<open>An update keeps identity, state and operators of the alert and only adds events.\<close>

lemma update_existing_effect:
  assumes "update_existing_alert levels env now a r g (cache, s) = (x, st')"
  shows "(\<exists>e. x = Inl e \<and> st' = (cache, s)) \<or>
    (\<exists>b. x = Inr b \<and> st' = (snd (link_new_events a (ag_event_ids r) cache s), save_alert b s) \<and>
       al_pk b = al_pk a \<and> al_alert_id b = al_alert_id a \<and>
       al_status b = al_status a \<and> al_operator b = al_operator a \<and> al_fingerprint b = al_fingerprint a \<and>
       al_events b = al_events (fst (link_new_events a (ag_event_ids r) cache s)))"
  using assms
  by (auto simp: update_existing_alert_def Let_def case_prod_beta split: sum.splits)

lemma build_effect:
  assumes "create_or_update_alert levels env now uid r g field (cache, s) = (x, st')"
  shows "(\<exists>e. x = Inl e \<and> st' = (cache, s)) \<or>
    (\<exists>a. x = Inr a \<and> active_with (ag_fingerprint r) s = [] \<and> created r (cache, s) a st') \<or>
    (\<exists>a b. x = Inr b \<and> a \<in> set (active_with (ag_fingerprint r) s) \<and>
       st' = (snd (link_new_events a (ag_event_ids r) cache s), save_alert b s) \<and>
       al_pk b = al_pk a \<and> al_alert_id b = al_alert_id a \<and>
       al_status b = al_status a \<and> al_operator b = al_operator a \<and> al_fingerprint b = al_fingerprint a \<and>
       al_events b = al_events (fst (link_new_events a (ag_event_ids r) cache s)))"
proof (cases "sort_key (\<lambda>a. - al_updated_at a) (active_with (ag_fingerprint r) s)")
  case Nil
  then have "active_with (ag_fingerprint r) s = []" by (metis set_empty set_sort)
  moreover have "create_new_alert levels env now uid r g field (cache, s) = (x, st')"
    using assms Nil by (simp add: create_or_update_alert_def)
  ultimately show ?thesis using create_new_effect by blast
next
  case (Cons a as)
  then have "a \<in> set (active_with (ag_fingerprint r) s)" by (metis list.set_intros(1) set_sort)
  moreover have "update_existing_alert levels env now a r g (cache, s) = (x, st')"
    using assms Cons by (simp add: create_or_update_alert_def)
  ultimately show ?thesis using update_existing_effect[of levels env now a r g cache s x st'] by blast
qed

lemma active_withD:
  "a \<in> set (active_with fp s) \<Longrightarrow> a \<in> set (db_alerts s) \<and> al_fingerprint a = fp \<and> al_status a \<in> set ACTIVATE_STATUS"
  by (simp add: active_with_def)

section \<open>One active alert per fingerprint\<close>

definition active_unique :: "db \<Rightarrow> bool" where
  "active_unique s \<longleftrightarrow> distinct (map al_fingerprint (filter (\<lambda>a. al_status a \<in> set ACTIVATE_STATUS) (db_alerts s)))"

lemma tsave_same_columns:
  assumes "keyed key t" "a \<in> set t" "key b = key a" "P b = P a" "f b = f a"
  shows "map f (filter P (tsave key b t)) = map f (filter P t)"
proof -
  let ?h = "\<lambda>x. if key x = key b then b else x"
  have h: "x = a" if "x \<in> set t" "key x = key b" for x
    using keyed_inj[OF assms(1) that(1) assms(2)] that(2) assms(3) by simp
  have "tsave key b t = map ?h t" using assms(2,3) by (auto simp: tsave_def)
  moreover have "map f (filter P (map ?h xs)) = map f (filter P xs)" if "set xs \<subseteq> set t" for xs
    using that h assms(4,5) by (induction xs) auto
  ultimately show ?thesis by simp
qed

lemma created_wf:
  assumes "wf_db s" "created r (cache, s) a (cache', t)"
  shows "wf_db t"
  using assms by (auto simp: wf_db_def created_def keyed_def)

text \<open>Aggregation never leaves two active alerts with the same fingerprint: building keeps the
  database well formed and the fingerprints of active alerts distinct, whatever the strategy,
  the result of the query and the state of the cache.\<close>

lemma building_keeps_unique:
  assumes "wf_db s" "active_unique s"
    and "create_or_update_alert levels env now uid r g field (cache, s) = (x, cache', t)"
  shows "wf_db t \<and> active_unique t"
proof -
  consider "t = s" | a where "active_with (ag_fingerprint r) s = []" "created r (cache, s) a (cache', t)"
    | a b where "a \<in> set (active_with (ag_fingerprint r) s)" "t = save_alert b s" "al_pk b = al_pk a"
        "al_alert_id b = al_alert_id a" "al_status b = al_status a" "al_fingerprint b = al_fingerprint a"
    using build_effect[OF assms(3)] by blast
  then show ?thesis
  proof cases
    case 1
    then show ?thesis using assms(1,2) by simp
  next
    case (2 a)
    have "active_unique t"
      using 2 assms(2) by (auto simp: active_unique_def created_def active_with_def filter_empty_conv)
    then show ?thesis using created_wf[OF assms(1) 2(2)] by simp
  next
    case (3 a b)
    note a = active_withD[OF 3(1)]
    have "wf_db t" using wf_db_save_alert[OF assms(1) conjunct1[OF a] 3(3,4)] 3(2) by simp
    moreover have "map al_fingerprint (filter (\<lambda>a. al_status a \<in> set ACTIVATE_STATUS) (tsave al_pk b (db_alerts s))) =
        map al_fingerprint (filter (\<lambda>a. al_status a \<in> set ACTIVATE_STATUS) (db_alerts s))"
      using assms(1) a 3 by (intro tsave_same_columns) (auto simp: wf_db_def)
    ultimately show ?thesis using assms(2) 3(2) by (simp add: active_unique_def save_alert_def)
  qed
qed

definition sample_result :: "string \<Rightarrow> agg_result" where
  "sample_result fp = \<lparr>ag_fingerprint = fp, ag_event_ids = [''E1''], ag_alert_level = JStr ''5'',
     ag_alert_title = Some ''cpu'', ag_alert_description = None, ag_first_event_time = Some 5,
     ag_last_event_time = Some 9\<rparr>"

definition build_db :: db where
  "build_db = sample_db\<lparr>db_events := [probe_event]\<rparr>"

lemma build_db_wf: "wf_db build_db"
  by (simp add: build_db_def sample_defs wf_db_def keyed_def)

lemma one_active_alert_sample:
  "active_unique (snd (snd (create_or_update_alert [0, 1, 2] probe_env 10 ''U1'' (sample_result ''g'') sample_strategy
     ''service'' ([], build_db)))) \<and>
   length (db_alerts (snd (snd (create_or_update_alert [0, 1, 2] probe_env 10 ''U1'' (sample_result ''g'') sample_strategy
     ''service'' ([], build_db))))) = 2"
proof -
  have u: "active_unique build_db" by code_simp
  obtain x c t where b: "create_or_update_alert [0, 1, 2] probe_env 10 ''U1'' (sample_result ''g'') sample_strategy
     ''service'' ([], build_db) = (x, c, t)" by (metis prod.collapse)
  have "length (db_alerts (snd (snd (create_or_update_alert [0, 1, 2] probe_env 10 ''U1'' (sample_result ''g'')
     sample_strategy ''service'' ([], build_db))))) = 2" by code_simp
  with building_keeps_unique[OF build_db_wf u b] b show ?thesis by simp
qed

section \<open>What is built\<close>

text \<open>The cache is right: what it lists of an existing alert is linked to it, and it lists existing
  alerts only.\<close>

definition cache_ok :: "event_cache \<Rightarrow> db \<Rightarrow> bool" where
  "cache_ok cache s \<longleftrightarrow> fst ` set cache \<subseteq> al_pk ` set (db_alerts s) \<and>
     (\<forall>k ids a e. map_of cache k = Some ids \<longrightarrow> alert_by_pk k s = Some a \<longrightarrow> e \<in> set (db_events s) \<longrightarrow>
        ev_event_id e \<in> set ids \<longrightarrow> ev_pk e \<in> set (al_events a))"

lemma linked_ids_right:
  assumes "cache_ok cache s" "keyed ev_event_id (db_events s)" "alert_by_pk (al_pk a) s = Some a"
    "e \<in> set (db_events s)" "ev_event_id e \<in> set (linked_ids a cache s)"
  shows "ev_pk e \<in> set (al_events a)"
proof (cases "map_of cache (al_pk a)")
  case None
  then obtain e' where "e' \<in> set (events_of a s)" "ev_event_id e' = ev_event_id e"
    using assms(5) by (auto simp: linked_ids_def)
  then have "e' = e" "ev_pk e' \<in> set (al_events a)"
    using keyed_inj[OF assms(2), of e' e] assms(4) by (auto simp: events_of_def)
  then show ?thesis by simp
next
  case (Some ids)
  then show ?thesis using assms unfolding cache_ok_def by (simp add: linked_ids_def)
qed

lemma link_new_right:
  assumes "cache_ok cache s" "keyed ev_event_id (db_events s)" "alert_by_pk (al_pk a) s = Some a"
    "link_new_events a ids cache s = (b, cache')" "e \<in> set (db_events s)"
  shows "ev_event_id e \<in> set ids \<Longrightarrow> ev_pk e \<in> set (al_events b)"
    "set (al_events a) \<subseteq> set (al_events b)"
    "map_of cache' (al_pk a) = Some ids' \<Longrightarrow> ev_event_id e \<in> set ids' \<Longrightarrow> ev_pk e \<in> set (al_events b)"
proof -
  have new: "ev_pk e \<in> set (al_events b)" if "ev_event_id e \<in> set ids" "ids \<noteq> []"
  proof (cases "ev_event_id e \<in> set (linked_ids a cache s)")
    case True
    then show ?thesis using linked_ids_right[OF assms(1-3,5)] assms(4) that(2)
      by (auto simp: link_new_events_def Let_def)
  next
    case False
    then show ?thesis using assms(4,5) that by (auto simp: link_new_events_def Let_def)
  qed
  then show "ev_event_id e \<in> set ids \<Longrightarrow> ev_pk e \<in> set (al_events b)" by (cases ids) auto
  show sub: "set (al_events a) \<subseteq> set (al_events b)"
    using assms(4) by (auto simp: link_new_events_def Let_def split: if_splits)
  show "ev_pk e \<in> set (al_events b)" if "map_of cache' (al_pk a) = Some ids'" "ev_event_id e \<in> set ids'"
  proof (cases "ids = []")
    case True
    then have "b = a" "cache' = cache" using assms(4) by (simp_all add: link_new_events_def)
    then show ?thesis using assms(1,3,5) that unfolding cache_ok_def by blast
  next
    case False
    then have "ids' = linked_ids a cache s @ filter (\<lambda>i. i \<notin> set (linked_ids a cache s)) ids"
      using assms(4) that(1) by (auto simp: link_new_events_def Let_def map_of_tsave)
    then show ?thesis
      using that(2) new False sub linked_ids_right[OF assms(1-3,5)] by auto
  qed
qed

lemma created_cache_ok:
  assumes "cache_ok cache s" "created r (cache, s) a (cache', t)"
  shows "cache_ok cache' t"
proof -
  have t: "db_alerts t = db_alerts s @ [a]" "db_events t = db_events s" and f: "al_pk a \<notin> al_pk ` set (db_alerts s)"
    and ev: "al_events a = map ev_pk (get_events_by_ids (ag_event_ids r) s)"
    using assms(2) by (simp_all add: created_def)
  have c: "cache' = cache \<or> cache' = tsave fst (al_pk a, ag_event_ids r) cache"
    using assms(2) by (auto simp: created_def)
  have k: "fst ` set cache \<subseteq> al_pk ` set (db_alerts s)" using assms(1) by (simp add: cache_ok_def)
  have "ev_pk e \<in> set (al_events b)"
    if m: "map_of cache' k = Some ids" "alert_by_pk k t = Some b" "e \<in> set (db_events t)" "ev_event_id e \<in> set ids"
    for k ids b e
  proof (cases "k = al_pk a")
    case True
    have "map_of cache k = None" using True k f by (auto simp: map_of_eq_None_iff)
    then have "ids = ag_event_ids r" using m(1) c True by (auto simp: map_of_tsave)
    moreover have "b = a" using m(2) t(1) f True by (simp add: tfind_append)
    ultimately show ?thesis using m(3,4) t(2) ev by (simp add: get_events_by_ids_def)
  next
    case False
    then have "map_of cache k = Some ids" using m(1) c by (auto simp: map_of_tsave)
    moreover have "alert_by_pk k s = Some b" using m(2) t(1) False by (auto simp: tfind_append split: if_splits)
    ultimately show ?thesis using assms(1) m(3,4) t(2) unfolding cache_ok_def by simp
  qed
  moreover have "fst ` set cache' \<subseteq> al_pk ` set (db_alerts t)"
  proof -
    have "fst ` set cache' \<subseteq> insert (al_pk a) (fst ` set cache)"
      using c by (elim disjE) (simp_all add: keys_tsave subset_insertI)
    then show ?thesis using k t(1) by auto
  qed
  ultimately show ?thesis by (simp add: cache_ok_def)
qed

lemma updated_cache_ok:
  assumes "cache_ok cache s" "keyed ev_event_id (db_events s)" "alert_by_pk (al_pk a) s = Some a"
    and "al_pk b = al_pk a" "al_events b = al_events (fst (link_new_events a ids cache s))"
  shows "cache_ok (snd (link_new_events a ids cache s)) (save_alert b s)"
proof -
  obtain a1 cache' where l: "link_new_events a ids cache s = (a1, cache')" by fastforce
  have c: "cache' = cache \<or> (\<exists>v. cache' = tsave fst (al_pk a, v) cache)"
    using l by (auto simp: link_new_events_def Let_def split: if_splits)
  have pk: "al_pk a \<in> al_pk ` set (db_alerts s)" using tfind_in[OF assms(3)] by simp
  have k: "fst ` set cache \<subseteq> al_pk ` set (db_alerts s)" using assms(1) by (simp add: cache_ok_def)
  have "fst ` set cache' \<subseteq> insert (al_pk a) (fst ` set cache)"
    using c by (elim disjE exE) (simp_all add: keys_tsave subset_insertI)
  also have "\<dots> \<subseteq> al_pk ` set (db_alerts s)" using pk k by simp
  finally have keys: "fst ` set cache' \<subseteq> al_pk ` set (db_alerts s)" .
  have "ev_pk e \<in> set (al_events d)"
    if m: "map_of cache' k = Some ids'" "alert_by_pk k (save_alert b s) = Some d" "e \<in> set (db_events s)"
      "ev_event_id e \<in> set ids'" for k ids' d e
  proof (cases "k = al_pk a")
    case True
    then have "d = b" using m(2) assms(4) by (simp add: row_simps)
    then show ?thesis using link_new_right(3)[OF assms(1-3) l m(3)] m(1,4) True assms(5) l by simp
  next
    case False
    then have "map_of cache k = Some ids'" "alert_by_pk k s = Some d"
      using m(1,2) c assms(4) by (auto simp: map_of_tsave row_simps)
    then show ?thesis using assms(1) m(3,4) unfolding cache_ok_def by blast
  qed
  then show ?thesis using keys l assms(4) pk
    unfolding cache_ok_def by (simp add: save_alert_def keys_tsave insert_absorb)
qed

lemma build_alert_spec:
  assumes "wf_db s" "keyed ev_event_id (db_events s)" "cache_ok cache s"
    and "create_or_update_alert levels env now uid r g field (cache, s) = (Inr a, cache', t)"
  shows "cache_ok cache' t \<and> alert_by_pk (al_pk a) t = Some a \<and> al_fingerprint a = ag_fingerprint r \<and>
    al_status a \<in> set ACTIVATE_STATUS \<and>
    (\<forall>e \<in> set (db_events s). ev_event_id e \<in> set (ag_event_ids r) \<longrightarrow> ev_pk e \<in> set (al_events a)) \<and>
    (\<forall>k. k \<noteq> al_pk a \<longrightarrow> alert_by_pk k t = alert_by_pk k s) \<and>
    (if active_with (ag_fingerprint r) s = []
     then alert_by_pk (al_pk a) s = None \<and> al_status a = A_UNASSIGNED \<and> al_operator a = []
     else \<exists>b \<in> set (active_with (ag_fingerprint r) s). al_pk b = al_pk a \<and> al_alert_id b = al_alert_id a \<and>
       al_status b = al_status a \<and> al_operator b = al_operator a \<and> set (al_events b) \<subseteq> set (al_events a))"
proof -
  consider "active_with (ag_fingerprint r) s = []" "created r (cache, s) a (cache', t)"
    | b where "b \<in> set (active_with (ag_fingerprint r) s)" "t = save_alert a s"
        "cache' = snd (link_new_events b (ag_event_ids r) cache s)" "al_pk a = al_pk b"
        "al_alert_id a = al_alert_id b" "al_status a = al_status b" "al_operator a = al_operator b"
        "al_fingerprint a = al_fingerprint b" "al_events a = al_events (fst (link_new_events b (ag_event_ids r) cache s))"
    using build_effect[OF assms(4)] by blast
  then show ?thesis
  proof cases
    case 1
    then have c: "db_alerts t = db_alerts s @ [a]" "al_pk a \<notin> al_pk ` set (db_alerts s)" "al_status a = A_UNASSIGNED"
      "al_operator a = []" "al_fingerprint a = ag_fingerprint r"
      "al_events a = map ev_pk (get_events_by_ids (ag_event_ids r) s)" by (simp_all add: created_def)
    have n: "alert_by_pk (al_pk a) s = None" using c(2) by (simp add: tfind_None)
    have "alert_by_pk k t = alert_by_pk k s" if "k \<noteq> al_pk a" for k
      using c(1) that tfind_None[of al_pk k "db_alerts s"] by (auto simp: tfind_append)
    with n show ?thesis using created_cache_ok[OF assms(3) 1(2)] 1(1) c
      by (auto simp: tfind_append get_events_by_ids_def ACTIVATE_STATUS_def)
  next
    case (2 b)
    note act = active_withD[OF 2(1)]
    have row: "alert_by_pk (al_pk b) s = Some b" using assms(1) act by (simp add: wf_db_def tfind_iff)
    obtain b1 c1 where l: "link_new_events b (ag_event_ids r) cache s = (b1, c1)" by fastforce
    have "cache_ok cache' t" using updated_cache_ok[OF assms(3,2) row 2(4,9)] 2(2,3) by simp
    moreover have "\<forall>e \<in> set (db_events s). ev_event_id e \<in> set (ag_event_ids r) \<longrightarrow> ev_pk e \<in> set (al_events a)"
      using link_new_right(1)[OF assms(3,2) row l] 2(9) l by simp
    moreover have "set (al_events b) \<subseteq> set (al_events a)"
      using 2(9) l by (auto simp: link_new_events_def Let_def split: if_splits)
    moreover have "active_with (ag_fingerprint r) s \<noteq> []" using 2(1) by auto
    ultimately show ?thesis using 2 act by (auto simp: row_simps)
  qed
qed

lemma build_alert_frame:
  assumes "create_or_update_alert levels env now uid r g field (cache, s) = (Inr a, cache', t)"
  shows "t = (if active_with (ag_fingerprint r) s = [] then emit (ActionDispatch (al_alert_id a) ''created'') (save_alert a s)
    else save_alert a s)"
proof -
  consider "active_with (ag_fingerprint r) s = []" "created r (cache, s) a (cache', t)"
    | b where "b \<in> set (active_with (ag_fingerprint r) s)" "t = save_alert a s"
    using build_effect[OF assms] by blast
  then show ?thesis by cases (auto simp: created_def save_alert_def tsave_def)
qed

text \<open>C21: a built alert is stored, has the fingerprint of the result, is active and is linked to all
  events of the result. Without an active alert of the fingerprint it is a new unassigned alert, and the
  dispatch of the actions for its creation is queued; otherwise it is the existing one, which keeps its
  identity, state, operators and events. Nothing else in the database changes: the other alerts, the
  events, tasks, policies, strategies and logs stay as they are. The cache stays right.\<close>

theorem build_alert_correct:
  assumes "wf_db s" "keyed ev_event_id (db_events s)" "cache_ok cache s"
    and "create_or_update_alert levels env now uid r g field (cache, s) = (Inr a, cache', t)"
  shows "cache_ok cache' t \<and> alert_by_pk (al_pk a) t = Some a \<and> al_fingerprint a = ag_fingerprint r \<and>
    al_status a \<in> set ACTIVATE_STATUS \<and>
    (\<forall>e \<in> set (db_events s). ev_event_id e \<in> set (ag_event_ids r) \<longrightarrow> ev_pk e \<in> set (al_events a)) \<and>
    (\<forall>k. k \<noteq> al_pk a \<longrightarrow> alert_by_pk k t = alert_by_pk k s) \<and>
    t = s\<lparr>db_alerts := db_alerts t, db_outbox := db_outbox t\<rparr> \<and>
    (if active_with (ag_fingerprint r) s = []
     then alert_by_pk (al_pk a) s = None \<and> al_status a = A_UNASSIGNED \<and> al_operator a = [] \<and>
       db_outbox t = db_outbox s @ [ActionDispatch (al_alert_id a) ''created'']
     else (\<exists>b \<in> set (active_with (ag_fingerprint r) s). al_pk b = al_pk a \<and> al_alert_id b = al_alert_id a \<and>
       al_status b = al_status a \<and> al_operator b = al_operator a \<and> set (al_events b) \<subseteq> set (al_events a)) \<and>
       db_outbox t = db_outbox s)"
proof -
  note spec = build_alert_spec[OF assms]
  have "t = s\<lparr>db_alerts := db_alerts t, db_outbox := db_outbox t\<rparr> \<and>
      db_outbox t = (if active_with (ag_fingerprint r) s = []
        then db_outbox s @ [ActionDispatch (al_alert_id a) ''created''] else db_outbox s)"
    using build_alert_frame[OF assms(4)] by (simp add: save_alert_def emit_def split: if_splits)
  note frame = this
  show ?thesis
  proof (cases "active_with (ag_fingerprint r) s = []")
    case True
    from spec frame show ?thesis unfolding if_P[OF True] by (elim conjE, intro conjI) assumption+
  next
    case False
    from spec frame show ?thesis unfolding if_not_P[OF False] by (elim conjE, intro conjI) assumption+
  qed
qed

theorem build_alert_witness:
  "map_option al_events (alert_by_pk 2 (snd (snd (create_or_update_alert [0, 1, 2] probe_env 10 ''U1''
     (sample_result ''g'') sample_strategy ''service'' ([], build_db))))) = Some [1] \<and>
   map_option al_status (alert_by_pk 1 (snd (snd (create_or_update_alert [0, 1, 2] probe_env 10 ''U1''
     (sample_result ''f'') sample_strategy ''service'' ([], build_db))))) = Some A_PENDING"
proof -
  have w: "keyed ev_event_id (db_events build_db)" "cache_ok [] build_db"
    by (simp_all add: build_db_def keyed_def cache_ok_def)
  let ?b = "\<lambda>fp. create_or_update_alert [0, 1, 2] probe_env 10 ''U1'' (sample_result fp) sample_strategy ''service'' ([], build_db)"
  have g: "map_sum (\<lambda>_. ()) (\<lambda>a. (al_pk a, al_events a)) (fst (?b ''g'')) = Inr (2, [1])"
    "map_sum (\<lambda>_. ()) (\<lambda>a. (al_pk a, al_status a)) (fst (?b ''f'')) = Inr (1, A_PENDING)" by code_simp+
  obtain a c t where b: "?b ''g'' = (Inr a, c, t)" "al_pk a = 2" "al_events a = [1]"
    using g(1) by (cases "?b ''g''"; cases "fst (?b ''g'')") auto
  obtain a' c' t' where b': "?b ''f'' = (Inr a', c', t')" "al_pk a' = 1" "al_status a' = A_PENDING"
    using g(2) by (cases "?b ''f''"; cases "fst (?b ''f'')") auto
  from build_alert_correct[OF build_db_wf w b(1)] build_alert_correct[OF build_db_wf w b'(1)] b b' show ?thesis by simp
qed

text \<open>The level of an alert is one of the configured alert levels: the level of the events if it is
  configured, otherwise the nearest more severe one, and the most severe one if there is none. A
  level that is no number or a missing configuration gives the most severe level 0.\<close>

theorem alert_level_correct:
  "(case py_int level of
      Inl _ \<Rightarrow> map_event_level_to_alert valid level = ''0''
    | Inr n \<Rightarrow>
        if valid = [] then map_event_level_to_alert valid level = ''0''
        else list_ex (\<lambda>l. map_event_level_to_alert valid level = str_int l \<and>
               (if list_ex (\<lambda>v. v \<le> n) valid then l = Max (set (filter (\<lambda>v. v \<le> n) valid))
                else l = Min (set valid))) valid)"
proof (cases "py_int level")
  case (Inl e)
  then show ?thesis by (simp add: map_event_level_to_alert_def)
next
  case (Inr n)
  show ?thesis
  proof (cases "valid = []")
    case True
    then show ?thesis using Inr by (simp add: map_event_level_to_alert_def)
  next
    case False
    from map_level_correct[OF Inr False] obtain l where l: "l \<in> set valid"
      "map_event_level_to_alert valid level = str_int l"
      "if \<exists>v \<in> set valid. v \<le> n then l \<le> n \<and> (\<forall>v \<in> set valid. v \<le> n \<longrightarrow> v \<le> l) else \<forall>v \<in> set valid. l \<le> v"
      by blast
    define P where "P = (\<lambda>l. map_event_level_to_alert valid level = str_int l \<and>
        (if list_ex (\<lambda>v. v \<le> n) valid then l = Max (set (filter (\<lambda>v. v \<le> n) valid)) else l = Min (set valid)))"
    have "P l"
      using l by (auto simp: P_def list_ex_iff intro!: Max_eqI[symmetric] Min_eqI[symmetric] split: if_splits)
    then have "list_ex P valid" using l(1) by (auto simp: list_ex_iff)
    then show ?thesis using Inr False by (simp add: P_def)
  qed
qed

end
