(* ===== verification/Heartbeat.thy ===== *)
theory Heartbeat
  imports Alert_Builder Reminder
begin

text \<open>
  Missing-heartbeat detection: the part of \<open>aggregation/processor/aggregation_processor.py\<close> that
  handles strategies of type \<open>missing_detection\<close>, with
  \<open>aggregation/builder/synthetic_alert_builder.py\<close>. A strategy listens for events; when none arrives
  before the deadline of its cron expression, an alert is created, and the next heartbeat recovers
  it. The runtime state of the detection lives in the parameters of the strategy.

  Parameters: \<open>croniter\<close> (next and previous time of an expression, in the cron time zone), the text of
  an instant and its parser, MD5, the database of the strategy matcher and the attributes of
  events. Instants with a time zone are compared as instants, so zones appear in \<open>croniter\<close> only.
\<close>

record hb_env =
  hb_next :: "string \<Rightarrow> int \<Rightarrow> int res"
  hb_prev :: "string \<Rightarrow> int \<Rightarrow> int res"
  hb_iso :: "int \<Rightarrow> string"
  hb_parse :: "string \<Rightarrow> int option"
  hb_md5 :: "string \<Rightarrow> string"
  hb_mem :: mem_env
  hb_db :: "event q_db"

section \<open>Synthetic alerts\<close>

definition MISSING_DETECTION :: string where
  "MISSING_DETECTION = ''missing_detection''"

definition build_fingerprint :: "hb_env \<Rightarrow> int \<Rightarrow> string" where
  "build_fingerprint h sid = hb_md5 h (MISSING_DETECTION @ '':'' @ str_int sid)"

definition is_word :: "char \<Rightarrow> bool" where
  "is_word c \<longleftrightarrow> (let n = (of_char c :: nat) in
     48 \<le> n \<and> n \<le> 57 \<or> 65 \<le> n \<and> n \<le> 90 \<or> 97 \<le> n \<and> n \<le> 122 \<or> n = 95)"

text \<open>A match of the placeholder pattern at the beginning of a text: the name of the variable and the
  rest of the text.\<close>

definition match_placeholder :: "string \<Rightarrow> (string \<times> string) option" where
  "match_placeholder s =
     (if \<not> prefix ''{{'' s then None
      else
        let t = lstrip (drop 2 s); name = takeWhile is_word t; u = lstrip (dropWhile is_word t) in
        if name \<noteq> [] \<and> prefix ''}}'' u then Some (name, drop 2 u) else None)"

lemma match_placeholder_shorter: "match_placeholder s = Some (n, u) \<Longrightarrow> length u < length s"
proof -
  assume m: "match_placeholder s = Some (n, u)"
  have p: "prefix ''{{'' s" using m by (auto simp: match_placeholder_def split: if_splits)
  then have "length s \<ge> 2" by (auto simp: prefix_def)
  moreover have "u = drop 2 (lstrip (dropWhile is_word (lstrip (drop 2 s))))"
    using m by (auto simp: match_placeholder_def Let_def split: if_splits)
  then have "length u \<le> length (drop 2 s)"
    using length_lstrip[of "dropWhile is_word (lstrip (drop 2 s))"] length_lstrip[of "drop 2 s"]
      length_dropWhile_le[of is_word "lstrip (drop 2 s)"] by simp
  ultimately show "length u < length s" by simp
qed

text \<open>\<open>re.sub\<close>: the leftmost match is replaced, and the search goes on behind it.\<close>

function substitute :: "(string \<Rightarrow> string) \<Rightarrow> string \<Rightarrow> string" where
  "substitute f [] = []"
| "substitute f (c # cs) =
     (case match_placeholder (c # cs) of
        Some (name, rest) \<Rightarrow> f name @ substitute f rest
      | None \<Rightarrow> c # substitute f cs)"
  by pat_completeness auto
termination
  by (relation "measure (\<lambda>(f, s). length s)") (auto dest: match_placeholder_shorter)

definition template_value :: "mem_env \<Rightarrow> (string \<times> json) list \<Rightarrow> string \<Rightarrow> string" where
  "template_value env context name = (case map_of context name of None \<Rightarrow> [] | Some v \<Rightarrow> to_str env v)"

fun render_template :: "mem_env \<Rightarrow> (string \<times> json) list \<Rightarrow> json \<Rightarrow> string res" where
  "render_template env context (JStr s) = Inr (substitute (template_value env context) s)"
| "render_template env context j = (if truthy j then Inl TypeError else Inr [])"

definition find_active_alert :: "hb_env \<Rightarrow> strategy \<Rightarrow> db \<Rightarrow> alert option" where
  "find_active_alert h g s =
     (case sort_key (\<lambda>a. - al_updated_at a)
             (filter (\<lambda>a. al_rule_id a = Some (str_int (sg_id g)) \<and> al_group_by_field a = Some MISSING_DETECTION \<and>
                          al_fingerprint a = build_fingerprint h (sg_id g) \<and> al_status a \<in> set ACTIVATE_STATUS)
                (db_alerts s)) of
        [] \<Rightarrow> None
      | a # _ \<Rightarrow> Some a)"

definition missing_title :: string where
  "missing_title = [CHR 0xE7, CHR 0xBC, CHR 0xBA, CHR 0xE5, CHR 0xA4, CHR 0xB1, CHR 0xE6, CHR 0xA3, CHR 0x80, CHR 0xE6, CHR 0x9F, CHR 0xA5, CHR 0xE5, CHR 0x91, CHR 0x8A, CHR 0xE8, CHR 0xAD, CHR 0xA6]"

text \<open>The text column that stores a value of the context.\<close>

definition text_column :: "mem_env \<Rightarrow> (string \<times> json) list \<Rightarrow> string \<Rightarrow> string option" where
  "text_column env context k =
     (case map_of context k of None \<Rightarrow> None | Some v \<Rightarrow> if v = JNull then None else Some (to_str env v))"

definition synthetic_alert ::
  "hb_env \<Rightarrow> strategy \<Rightarrow> (string \<times> json) list \<Rightarrow> string \<Rightarrow> string \<Rightarrow> string \<Rightarrow> string \<Rightarrow> int \<Rightarrow> db \<Rightarrow> alert" where
  "synthetic_alert h g context aid level title content now s =
     \<lparr>al_pk = next_pk s, al_alert_id = aid, al_status = A_UNASSIGNED, al_level = level, al_events = [],
      al_created_at = now, al_updated_at = now, al_title = (if title = [] then missing_title else title),
      al_content = content, al_first_event_time = Some now, al_last_event_time = Some now,
      al_operate = None, al_operator = [], al_fingerprint = build_fingerprint h (sg_id g),
      al_rule_id = Some (str_int (sg_id g)), al_is_session_alert = False, al_session_status = None,
      al_session_end_time = None, al_team = get_safe_strategy_team g, al_source_name = None,
      al_resource_id = text_column (hb_mem h) context ''resource_id'',
      al_resource_name = text_column (hb_mem h) context ''resource_name'',
      al_resource_type = text_column (hb_mem h) context ''resource_type'',
      al_item = text_column (hb_mem h) context ''item'', al_labels = JObj context, al_enrichment = [],
      al_group_by_field = Some MISSING_DETECTION, al_dimensions = []\<rparr>"

text \<open>\<open>params.get(k) or {}\<close> where the code goes on with the methods of a dict.\<close>

definition dict_param :: "(string \<times> json) list \<Rightarrow> string \<Rightarrow> (string \<times> json) list res" where
  "dict_param params k =
     (case py_or (rule_get params k JNull) (JObj []) of JObj kvs \<Rightarrow> Inr kvs | _ \<Rightarrow> Inl AttributeError)"

definition create_alert ::
  "hb_env \<Rightarrow> strategy \<Rightarrow> (string \<times> json) list \<Rightarrow> int \<Rightarrow> string \<Rightarrow> db \<Rightarrow> alert res \<times> db" where
  "create_alert h g params now uid s =
     (case find_active_alert h g s of
        Some a \<Rightarrow> (Inr a, s)
      | None \<Rightarrow>
        (case dict_param params ''alert_template'' of
           Inl e \<Rightarrow> (Inl e, s)
         | Inr template \<Rightarrow>
           (case dict_param params ''last_heartbeat_context'' of
              Inl e \<Rightarrow> (Inl e, s)
            | Inr context \<Rightarrow>
              (case render_template (hb_mem h) context (rule_get template ''title'' (JStr [])) of
                 Inl e \<Rightarrow> (Inl e, s)
               | Inr title \<Rightarrow>
                 (case render_template (hb_mem h) context (rule_get template ''description'' (JStr [])) of
                    Inl e \<Rightarrow> (Inl e, s)
                  | Inr content \<Rightarrow>
                      let aid = ''ALERT-'' @ uid;
                          level = to_str (hb_mem h) (py_or (rule_get template ''level'' JNull) (JStr ''0''));
                          a = synthetic_alert h g context aid level title content now s
                      in if aid \<in> al_alert_id ` set (db_alerts s) then (Inl IntegrityError, s)
                         else (Inr a, save_alert a s))))))"

section \<open>The runtime state\<close>

definition WAITING :: json where "WAITING = JStr ''waiting''"
definition MONITORING :: json where "MONITORING = JStr ''monitoring''"
definition ALERTING :: json where "ALERTING = JStr ''alerting''"
definition IMMEDIATE :: json where "IMMEDIATE = JStr ''immediate''"
definition FIRST_HEARTBEAT :: json where "FIRST_HEARTBEAT = JStr ''first_heartbeat''"

type_synonym params = "(string \<times> json) list"

definition set_param :: "string \<Rightarrow> json \<Rightarrow> params \<Rightarrow> params" where
  "set_param k v p = tsave fst (k, v) p"

definition set_default :: "string \<Rightarrow> json \<Rightarrow> params \<Rightarrow> params" where
  "set_default k v p = (case map_of p k of None \<Rightarrow> p @ [(k, v)] | Some _ \<Rightarrow> p)"

definition get_param :: "params \<Rightarrow> string \<Rightarrow> json" where
  "get_param p k = rule_get p k JNull"

definition load_params :: "strategy \<Rightarrow> params res" where
  "load_params g =
     (case py_or (sg_params g) (JObj []) of
        JObj kvs \<Rightarrow>
          Inr (set_default ''alert_template'' (JObj []) (set_default ''last_heartbeat_context'' JNull
            (set_default ''last_heartbeat_time'' JNull (set_default ''heartbeat_status'' WAITING
            (set_default ''auto_recovery'' (JBool True) (set_default ''activation_mode'' FIRST_HEARTBEAT
            (set_default ''grace_period'' (JInt 0) (set_default ''cron_expr'' (JStr [])
            (set_default ''check_mode'' (JStr ''cron'') kvs)))))))))
      | _ \<Rightarrow> Inl TypeError)"

definition query_candidate_events :: "strategy \<Rightarrow> db \<Rightarrow> event list" where
  "query_candidate_events g s =
     filter (\<lambda>e. ev_action e = EA_CREATED \<and>
       (case sg_last_execute_time g of
          Some l \<Rightarrow> ev_received_at e > l
        | None \<Rightarrow> ev_received_at e \<ge> sg_created_at g)) (db_events s)"

definition match_heartbeat_events :: "hb_env \<Rightarrow> strategy \<Rightarrow> db \<Rightarrow> event list" where
  "match_heartbeat_events h g s =
     match_events_to_strategy (hb_db h) (query_candidate_events g s) (sg_match_rules g)"

definition latest_heartbeat :: "hb_env \<Rightarrow> strategy \<Rightarrow> db \<Rightarrow> event option" where
  "latest_heartbeat h g s =
     (case sort_key (\<lambda>e. - ev_received_at e) (match_heartbeat_events h g s) of [] \<Rightarrow> None | e # _ \<Rightarrow> Some e)"

definition build_heartbeat_context :: "event \<Rightarrow> json" where
  "build_heartbeat_context e =
     JObj [(''service'', jopt (ev_service e)), (''location'', jopt (ev_location e)),
           (''resource_name'', jopt (ev_resource_name e)), (''resource_id'', jopt (ev_resource_id e)),
           (''resource_type'', jopt (ev_resource_type e)), (''item'', jopt (ev_item e)),
           (''title'', JStr (ev_title e)), (''level'', JStr (ev_level e))]"

definition record_heartbeat :: "hb_env \<Rightarrow> event \<Rightarrow> params \<Rightarrow> params" where
  "record_heartbeat h e p =
     set_param ''last_heartbeat_context'' (build_heartbeat_context e)
       (set_param ''last_heartbeat_time'' (JStr (hb_iso h (ev_received_at e))) p)"

definition activate_if_needed :: "hb_env \<Rightarrow> event option \<Rightarrow> params \<Rightarrow> params" where
  "activate_if_needed h latest p =
     (if get_param p ''heartbeat_status'' \<noteq> WAITING then p
      else if get_param p ''activation_mode'' = IMMEDIATE then set_param ''heartbeat_status'' MONITORING p
      else case latest of
        None \<Rightarrow> p
      | Some e \<Rightarrow> record_heartbeat h e (set_param ''heartbeat_status'' MONITORING p))"

section \<open>The deadline\<close>

definition parse_runtime_datetime :: "hb_env \<Rightarrow> json \<Rightarrow> int option res" where
  "parse_runtime_datetime h v =
     (if \<not> truthy v then Inr None
      else case v of
        JStr t \<Rightarrow> (case hb_parse h t of None \<Rightarrow> Inl ValueError | Some i \<Rightarrow> Inr (Some i))
      | _ \<Rightarrow> Inl TypeError)"

definition monitoring_start :: "strategy \<Rightarrow> params \<Rightarrow> int option \<Rightarrow> int option" where
  "monitoring_start g p seen =
     (if get_param p ''activation_mode'' = IMMEDIATE \<and> seen = None then Some (sg_created_at g) else seen)"

definition cron_deadline :: "hb_env \<Rightarrow> string \<Rightarrow> int \<Rightarrow> int \<Rightarrow> int option \<Rightarrow> int \<Rightarrow> int res" where
  "cron_deadline h cron grace start seen now =
     (case hb_next h cron start of
        Inl e \<Rightarrow> Inl e
      | Inr first_expected \<Rightarrow>
          if now < first_expected then Inr (first_expected + grace)
          else (case hb_prev h cron now of
            Inl e \<Rightarrow> Inl e
          | Inr previous_expected \<Rightarrow>
              if (case seen of None \<Rightarrow> False | Some l \<Rightarrow> l \<ge> previous_expected) then
                (case hb_next h cron previous_expected of
                   Inl e \<Rightarrow> Inl e
                 | Inr next_expected \<Rightarrow> Inr (next_expected + grace))
              else Inr (previous_expected + grace)))"

definition calculate_deadline :: "hb_env \<Rightarrow> strategy \<Rightarrow> params \<Rightarrow> int \<Rightarrow> int option res" where
  "calculate_deadline h g p now =
     (case parse_runtime_datetime h (get_param p ''last_heartbeat_time'') of
        Inl e \<Rightarrow> Inl e
      | Inr seen \<Rightarrow>
        (case monitoring_start g p seen of
           None \<Rightarrow> Inr None
         | Some start \<Rightarrow>
           (case py_int (py_or (get_param p ''grace_period'') (JInt 0)) of
              Inl e \<Rightarrow> Inl e
            | Inr grace \<Rightarrow>
                map_sum id Some (cron_deadline h
                  (to_str (hb_mem h) (py_or (get_param p ''cron_expr'') (JStr []))) (minutes grace) start seen now))))"

section \<open>One run\<close>

definition save_runtime_state :: "strategy \<Rightarrow> params \<Rightarrow> int \<Rightarrow> db \<Rightarrow> db" where
  "save_runtime_state g p now s =
     s\<lparr>db_strategies := tsave sg_id (g\<lparr>sg_params := JObj p, sg_last_execute_time := Some now, sg_updated_at := now\<rparr>)
        (db_strategies s)\<rparr>"

definition recover_missing_alert :: "hb_env \<Rightarrow> strategy \<Rightarrow> int \<Rightarrow> db \<Rightarrow> db" where
  "recover_missing_alert h g now s =
     (case find_active_alert h g s of
        None \<Rightarrow> s
      | Some a \<Rightarrow>
          let a1 = a\<lparr>al_status := A_AUTO_RECOVERY, al_last_event_time := Some now, al_updated_at := now\<rparr>
          in snd (stop_reminder_task a1 (save_alert a1 s)))"

definition trigger_missing_alert ::
  "hb_env \<Rightarrow> strategy \<Rightarrow> params \<Rightarrow> int \<Rightarrow> string \<Rightarrow> db \<Rightarrow> alert res \<times> db" where
  "trigger_missing_alert h g p now uid s =
     (case create_alert h g p now uid s of
        (Inl e, t) \<Rightarrow> (Inl e, t)
      | (Inr a, t) \<Rightarrow> (Inr a, emit (AutoAssign [al_alert_id a]) t))"

text \<open>A heartbeat arrived.\<close>

definition heartbeat_seen :: "hb_env \<Rightarrow> strategy \<Rightarrow> event \<Rightarrow> params \<Rightarrow> int \<Rightarrow> db \<Rightarrow> db" where
  "heartbeat_seen h g e p0 now s =
     (let p = record_heartbeat h e p0 in
      case find_active_alert h g s of
        Some _ \<Rightarrow>
          if truthy (rule_get p ''auto_recovery'' (JBool True))
          then save_runtime_state g (set_param ''heartbeat_status'' MONITORING p) now (recover_missing_alert h g now s)
          else save_runtime_state g p now s
      | None \<Rightarrow> save_runtime_state g (set_param ''heartbeat_status'' MONITORING p) now s)"

text \<open>No heartbeat arrived.\<close>

definition heartbeat_missing :: "hb_env \<Rightarrow> strategy \<Rightarrow> params \<Rightarrow> int \<Rightarrow> string \<Rightarrow> db \<Rightarrow> unit res \<times> db" where
  "heartbeat_missing h g p now uid s =
     (case calculate_deadline h g p now of
        Inl e \<Rightarrow> (Inl e, s)
      | Inr None \<Rightarrow> (Inr (), save_runtime_state g p now s)
      | Inr (Some deadline) \<Rightarrow>
          if now \<le> deadline then (Inr (), save_runtime_state g p now s)
          else (case find_active_alert h g s of
            Some _ \<Rightarrow> (Inr (), save_runtime_state g (set_param ''heartbeat_status'' ALERTING p) now s)
          | None \<Rightarrow>
            (case trigger_missing_alert h g p now uid s of
               (Inl e, t) \<Rightarrow> (Inl e, t)
             | (Inr _, t) \<Rightarrow> (Inr (), save_runtime_state g (set_param ''heartbeat_status'' ALERTING p) now t))))"

definition process_missing_detection_strategy ::
  "hb_env \<Rightarrow> int \<Rightarrow> int \<Rightarrow> string \<Rightarrow> db \<Rightarrow> unit res \<times> db" where
  "process_missing_detection_strategy h sid now uid = atomic (\<lambda>s.
     case tfind sg_id sid (db_strategies s) of
       None \<Rightarrow> (Inl DoesNotExist, s)
     | Some g \<Rightarrow>
       (case load_params g of
          Inl e \<Rightarrow> (Inl e, s)
        | Inr p0 \<Rightarrow>
            let latest = latest_heartbeat h g s; p = activate_if_needed h latest p0 in
            (case latest of
               Some e \<Rightarrow> (Inr (), heartbeat_seen h g e p now s)
             | None \<Rightarrow> heartbeat_missing h g p now uid s)))"

section \<open>Lemmas\<close>

lemma process_missing_error: "process_missing_detection_strategy h sid now uid s = (Inl e, t) \<Longrightarrow> t = s"
  unfolding process_missing_detection_strategy_def by (rule atomic_Inl)

lemma save_runtime_fields [simp]:
  "db_alerts (save_runtime_state g p now s) = db_alerts s"
  "db_events (save_runtime_state g p now s) = db_events s"
  "db_reminders (save_runtime_state g p now s) = db_reminders s"
  "db_escalations (save_runtime_state g p now s) = db_escalations s"
  "db_assignments (save_runtime_state g p now s) = db_assignments s"
  "db_outbox (save_runtime_state g p now s) = db_outbox s"
  "tfind sg_id (sg_id g) (db_strategies (save_runtime_state g p now s)) =
     Some (g\<lparr>sg_params := JObj p, sg_last_execute_time := Some now, sg_updated_at := now\<rparr>)"
  by (simp_all add: save_runtime_state_def tfind_tsave)

lemma find_active_cong: "db_alerts t = db_alerts s \<Longrightarrow> find_active_alert h g t = find_active_alert h g s"
  by (simp add: find_active_alert_def)

definition missing_alert_of :: "hb_env \<Rightarrow> strategy \<Rightarrow> alert \<Rightarrow> bool" where
  "missing_alert_of h g a \<longleftrightarrow> al_rule_id a = Some (str_int (sg_id g)) \<and> al_group_by_field a = Some MISSING_DETECTION \<and>
     al_fingerprint a = build_fingerprint h (sg_id g) \<and> al_status a \<in> set ACTIVATE_STATUS"

lemma find_active_Some:
  "find_active_alert h g s = Some a \<Longrightarrow> a \<in> set (db_alerts s) \<and> missing_alert_of h g a"
proof -
  assume f: "find_active_alert h g s = Some a"
  let ?l = "sort_key (\<lambda>a. - al_updated_at a) (filter (missing_alert_of h g) (db_alerts s))"
  from f obtain as where "?l = a # as"
    unfolding find_active_alert_def missing_alert_of_def by (auto split: list.splits)
  then have "a \<in> set ?l" by simp
  then show ?thesis by simp
qed

lemma find_active_None: "find_active_alert h g s = None \<longleftrightarrow> filter (missing_alert_of h g) (db_alerts s) = []"
proof -
  let ?l = "sort_key (\<lambda>a. - al_updated_at a) (filter (missing_alert_of h g) (db_alerts s))"
  have "find_active_alert h g s = None \<longleftrightarrow> ?l = []"
    unfolding find_active_alert_def missing_alert_of_def by (auto split: list.splits)
  also have "\<dots> \<longleftrightarrow> filter (missing_alert_of h g) (db_alerts s) = []" by (metis set_empty set_sort)
  finally show ?thesis .
qed

lemma find_active_new:
  assumes "find_active_alert h g s = None" "db_alerts t = db_alerts s @ [a]" "missing_alert_of h g a"
  shows "find_active_alert h g t = Some a"
proof -
  have "filter (missing_alert_of h g) (db_alerts t) = [a]"
    using assms by (simp add: find_active_None)
  then show ?thesis
    unfolding find_active_alert_def missing_alert_of_def[symmetric] by simp
qed

lemma create_alert_effect:
  assumes "create_alert h g p now uid s = (Inr a, t)" "find_active_alert h g s = None"
  shows "t = s\<lparr>db_alerts := db_alerts s @ [a]\<rparr> \<and> missing_alert_of h g a \<and> al_status a = A_UNASSIGNED \<and>
    al_operator a = [] \<and> al_pk a \<notin> al_pk ` set (db_alerts s) \<and> al_alert_id a \<notin> al_alert_id ` set (db_alerts s)"
proof -
  have "missing_alert_of h g (synthetic_alert h g c aid l ti co now s) \<and>
      save_alert (synthetic_alert h g c aid l ti co now s) s =
        s\<lparr>db_alerts := db_alerts s @ [synthetic_alert h g c aid l ti co now s]\<rparr>" for c aid l ti co
    using next_pk_fresh[of s]
    by (auto simp: missing_alert_of_def synthetic_alert_def ACTIVATE_STATUS_def save_alert_def tsave_def)
  moreover obtain c aid l ti co where "a = synthetic_alert h g c aid l ti co now s" "t = save_alert a s"
      "aid \<notin> al_alert_id ` set (db_alerts s)"
    using assms by (auto simp: create_alert_def Let_def split: sum.splits if_splits)
  ultimately show ?thesis using next_pk_fresh[of s] by (auto simp: synthetic_alert_def)
qed

section \<open>What a run does\<close>

lemma get_set_param [simp]: "get_param (set_param k v p) j = (if j = k then v else get_param p j)"
  by (simp add: get_param_def set_param_def rule_get_def map_of_tsave)

text \<open>No heartbeat came and the deadline passed.\<close>

definition overdue :: "hb_env \<Rightarrow> strategy \<Rightarrow> int \<Rightarrow> bool" where
  "overdue h g now \<longleftrightarrow>
     (case load_params g of
        Inl _ \<Rightarrow> False
      | Inr p \<Rightarrow> (case calculate_deadline h g (activate_if_needed h None p) now of
          Inr (Some d) \<Rightarrow> d < now
        | _ \<Rightarrow> False))"

lemma run_without_heartbeat:
  assumes "tfind sg_id sid (db_strategies s) = Some g" "latest_heartbeat h g s = None"
    "process_missing_detection_strategy h sid now uid s = (Inr x, t)"
  shows "\<exists>p0. load_params g = Inr p0 \<and> heartbeat_missing h g (activate_if_needed h None p0) now uid s = (Inr x, t)"
  using assms by (auto simp: process_missing_detection_strategy_def split: sum.splits)

lemma missing_effect:
  assumes "heartbeat_missing h g p now uid s = (Inr x, t)"
  shows "if (case calculate_deadline h g p now of Inr (Some d) \<Rightarrow> d < now | _ \<Rightarrow> False) \<and> find_active_alert h g s = None
    then \<exists>a. db_alerts t = db_alerts s @ [a] \<and> db_outbox t = db_outbox s @ [AutoAssign [al_alert_id a]] \<and>
      missing_alert_of h g a \<and> al_status a = A_UNASSIGNED \<and> al_operator a = [] \<and>
      al_pk a \<notin> al_pk ` set (db_alerts s) \<and> al_alert_id a \<notin> al_alert_id ` set (db_alerts s) \<and>
      db_reminders t = db_reminders s \<and> db_escalations t = db_escalations s \<and> db_assignments t = db_assignments s
    else db_alerts t = db_alerts s \<and> db_outbox t = db_outbox s \<and>
      db_reminders t = db_reminders s \<and> db_escalations t = db_escalations s \<and> db_assignments t = db_assignments s"
proof (cases "calculate_deadline h g p now")
  case (Inl e)
  then show ?thesis using assms by (simp add: heartbeat_missing_def)
next
  case (Inr od)
  show ?thesis
  proof (cases "find_active_alert h g s")
    case (Some b)
    then show ?thesis using assms Inr
      by (auto simp: heartbeat_missing_def split: option.splits if_splits)
  next
    case None
    show ?thesis
    proof (cases "\<exists>d. od = Some d \<and> d < now")
      case False
      then show ?thesis using assms Inr None
        by (auto simp: heartbeat_missing_def split: option.splits if_splits)
    next
      case True
      then obtain a u where c: "create_alert h g p now uid s = (Inr a, u)"
        "t = save_runtime_state g (set_param ''heartbeat_status'' ALERTING p) now (emit (AutoAssign [al_alert_id a]) u)"
        using assms Inr None
        by (auto simp: heartbeat_missing_def trigger_missing_alert_def split: prod.splits sum.splits)
      show ?thesis using create_alert_effect[OF c(1) None] c(2) True None Inr by auto
    qed
  qed
qed

text \<open>The schedule of a cron expression, as a set of instants: \<open>croniter\<close> gives the next and the previous
  instant of it. The grace period is shorter than the distance of any two instants.\<close>

definition cron_schedule :: "hb_env \<Rightarrow> string \<Rightarrow> int \<Rightarrow> int set \<Rightarrow> bool" where
  "cron_schedule h cron grace T \<longleftrightarrow>
     (\<forall>i n. hb_next h cron i = Inr n \<longrightarrow> n \<in> T \<and> i < n \<and> (\<forall>e \<in> T. i < e \<longrightarrow> n \<le> e)) \<and>
     (\<forall>i q. hb_prev h cron i = Inr q \<longrightarrow> q \<in> T \<and> q < i \<and> (\<forall>e \<in> T. e < i \<longrightarrow> e \<le> q)) \<and>
     0 \<le> grace \<and> (\<forall>q \<in> T. \<forall>n \<in> T. q < n \<longrightarrow> q + grace < n)"

text \<open>A heartbeat was expected at the last instant of the schedule before now, after the monitoring began
  (with the last heartbeat, or with the strategy when it is activated at once), and the grace period
  has passed since then.\<close>

definition watched_since :: "strategy \<Rightarrow> params \<Rightarrow> int option \<Rightarrow> int option" where
  "watched_since g p seen =
     (case seen of Some l \<Rightarrow> Some l | None \<Rightarrow> if get_param p ''activation_mode'' = IMMEDIATE then Some (sg_created_at g) else None)"

definition heartbeat_missed :: "int set \<Rightarrow> int \<Rightarrow> int option \<Rightarrow> int \<Rightarrow> bool" where
  "heartbeat_missed T grace since now \<longleftrightarrow>
     (\<exists>start e. since = Some start \<and> e \<in> T \<and> start < e \<and> e + grace < now \<and> (\<forall>n \<in> T. e < n \<longrightarrow> now < n))"

lemma deadline_missed:
  assumes "cron_schedule h cron grace T" "now \<notin> T" "cron_deadline h cron grace start seen now = Inr d"
    "seen = None \<or> seen = Some start"
  shows "d < now \<longleftrightarrow> heartbeat_missed T grace (Some start) now"
proof -
  have nx: "n \<in> T \<and> i < n \<and> (\<forall>e \<in> T. i < e \<longrightarrow> n \<le> e)" if "hb_next h cron i = Inr n" for i n
    using assms(1) that by (auto simp: cron_schedule_def)
  have pv: "q \<in> T \<and> q < i \<and> (\<forall>e \<in> T. e < i \<longrightarrow> e \<le> q)" if "hb_prev h cron i = Inr q" for i q
    using assms(1) that by (auto simp: cron_schedule_def)
  have g: "0 \<le> grace" using assms(1) by (simp add: cron_schedule_def)
  obtain first where f: "hb_next h cron start = Inr first" using assms(3) by (auto simp: cron_deadline_def split: sum.splits)
  note first = nx[OF f]
  have missed: "heartbeat_missed T grace (Some start) now \<longleftrightarrow>
      (\<exists>e \<in> T. start < e \<and> e + grace < now \<and> (\<forall>n \<in> T. e < n \<longrightarrow> now < n))"
    by (auto simp: heartbeat_missed_def)
  show ?thesis
  proof (cases "now < first")
    case True
    then have "d = first + grace" using assms(3) f by (simp add: cron_deadline_def)
    moreover have "\<not> heartbeat_missed T grace (Some start) now" using first True g by (fastforce simp: missed)
    ultimately show ?thesis using True g by simp
  next
    case False
    then have late: "first < now" using first assms(2) by (metis linorder_neqE_linordered_idom)
    obtain q where q: "hb_prev h cron now = Inr q" using assms(3) f False by (auto simp: cron_deadline_def split: sum.splits)
    note prev = pv[OF q]
    show ?thesis
    proof (cases "case seen of None \<Rightarrow> False | Some l \<Rightarrow> l \<ge> q")
      case True
      then have "q \<le> start" using assms(4) by auto
      moreover have "first \<le> q" using prev first late by blast
      ultimately show ?thesis using first by simp
    next
      case False
      with assms(3) f q late have d: "d = q + grace" by (simp add: cron_deadline_def split: sum.splits if_splits)
      have "start < q" using prev first late by fastforce
      moreover have "\<forall>n \<in> T. q < n \<longrightarrow> now < n" using prev assms(2) by (metis linorder_neqE_linordered_idom linorder_not_less)
      ultimately have "q + grace < now \<Longrightarrow> heartbeat_missed T grace (Some start) now" using prev by (auto simp: missed)
      moreover have "e = q" if "e \<in> T" "e + grace < now" "\<forall>n \<in> T. e < n \<longrightarrow> now < n" for e
      proof -
        have "e \<le> q" using that(1,2) g prev by simp
        moreover have "\<not> e < q" using that(3) prev by auto
        ultimately show ?thesis by simp
      qed
      then have "heartbeat_missed T grace (Some start) now \<Longrightarrow> q + grace < now" by (auto simp: missed)
      ultimately show ?thesis by (auto simp: d)
    qed
  qed
qed

lemma activated_params: "k \<noteq> ''heartbeat_status'' \<Longrightarrow> get_param (activate_if_needed h None p) k = get_param p k"
  by (simp add: activate_if_needed_def)

lemma overdue_missed:
  assumes "load_params g = Inr p" "parse_runtime_datetime h (get_param p ''last_heartbeat_time'') = Inr seen"
    "py_int (py_or (get_param p ''grace_period'') (JInt 0)) = Inr grace"
    "cron_schedule h (to_str (hb_mem h) (py_or (get_param p ''cron_expr'') (JStr []))) (minutes grace) T" "now \<notin> T"
    "heartbeat_missing h g (activate_if_needed h None p) now uid s = (Inr (), t)"
  shows "overdue h g now \<longleftrightarrow> heartbeat_missed T (minutes grace) (watched_since g p seen) now"
proof -
  let ?p = "activate_if_needed h None p" let ?cron = "to_str (hb_mem h) (py_or (get_param p ''cron_expr'') (JStr []))"
  have m: "monitoring_start g ?p seen = watched_since g p seen"
    by (auto simp: monitoring_start_def watched_since_def activated_params split: option.splits)
  show ?thesis
  proof (cases "watched_since g p seen")
    case None
    then show ?thesis using assms(1,2) m by (simp add: overdue_def calculate_deadline_def activated_params heartbeat_missed_def)
  next
    case (Some start)
    have c: "calculate_deadline h g ?p now = map_sum id Some (cron_deadline h ?cron (minutes grace) start seen now)"
      using assms(2,3) m Some by (simp add: calculate_deadline_def activated_params)
    with assms(6) obtain d where d: "cron_deadline h ?cron (minutes grace) start seen now = Inr d"
      by (cases "cron_deadline h ?cron (minutes grace) start seen now") (auto simp: heartbeat_missing_def)
    have "seen = None \<or> seen = Some start" using Some by (auto simp: watched_since_def split: option.splits)
    from deadline_missed[OF assms(4,5) d this] show ?thesis using assms(1) c d Some by (simp add: overdue_def)
  qed
qed


lemma recover_missing_effect:
  assumes "wf_db s" "find_active_alert h g s = Some a"
  shows "only (al_pk a) s (recover_missing_alert h g now s) \<and>
    alert_by_pk (al_pk a) (recover_missing_alert h g now s) =
      Some (a\<lparr>al_status := A_AUTO_RECOVERY, al_last_event_time := Some now, al_updated_at := now\<rparr>) \<and>
    find_reminder (al_pk a) (recover_missing_alert h g now s) =
      map_option (\<lambda>r. r\<lparr>rm_is_active := False\<rparr>) (find_reminder (al_pk a) s)"
proof -
  define a1 where "a1 = a\<lparr>al_status := A_AUTO_RECOVERY, al_last_event_time := Some now, al_updated_at := now\<rparr>"
  have row: "alert_by_pk (al_pk a) s = Some a"
    using assms(1) find_active_Some[OF assms(2)] by (simp add: wf_db_def tfind_iff)
  have pk: "al_pk a1 = al_pk a" "al_alert_id a1 = al_alert_id a" by (simp_all add: a1_def)
  have t: "recover_missing_alert h g now s = snd (stop_reminder_task a1 (save_alert a1 s))"
    using assms(2) by (simp add: recover_missing_alert_def a1_def Let_def)
  have "only (al_pk a) s (save_alert a1 s)" by (rule only_save_alert[OF row pk])
  then have "only (al_pk a) s (snd (stop_reminder_task a1 (save_alert a1 s)))"
    using stop_reminder_only[of a1 "save_alert a1 s"] pk(1) by (auto intro: only_trans)
  then show ?thesis unfolding t using pk by (simp add: stop_reminder_find row_simps) (simp add: a1_def)
qed

lemma set_default_keeps: "map_of p k = Some v \<Longrightarrow> map_of (set_default j w p) k = Some v"
  by (auto simp: set_default_def map_add_def split: option.splits)

lemma map_of_set_param [simp]: "map_of (set_param k v p) j = (if j = k then Some v else map_of p j)"
  by (simp add: set_param_def map_of_tsave)

lemma set_param_nonempty [simp]: "set_param k v p \<noteq> []"
  by (auto simp: set_param_def tsave_def)

text \<open>Saved parameters that have a value for a key are loaded with it.\<close>

lemma load_saved:
  assumes "sg_params g = JObj p" "map_of p k = Some v"
  shows "\<exists>q. load_params g = Inr q \<and> get_param q k = v"
proof -
  have "py_or (sg_params g) (JObj []) = JObj p" using assms by (cases p) (simp_all add: py_or_def)
  then show ?thesis using assms(2) by (simp add: load_params_def get_param_def rule_get_def set_default_keeps)
qed

lemma run_with_heartbeat:
  assumes "tfind sg_id sid (db_strategies s) = Some g" "latest_heartbeat h g s = Some e" "load_params g = Inr p0"
  shows "process_missing_detection_strategy h sid now uid s =
    (Inr (), heartbeat_seen h g e (activate_if_needed h (Some e) p0) now s)"
  using assms by (simp add: process_missing_detection_strategy_def atomic_def Let_def)

lemma seen_saves:
  "\<exists>p u. heartbeat_seen h g e p0 now s = save_runtime_state g p now u \<and>
     map_of p ''last_heartbeat_time'' = Some (JStr (hb_iso h (ev_received_at e)))"
proof -
  define p where "p = record_heartbeat h e p0"
  have "map_of p ''last_heartbeat_time'' = Some (JStr (hb_iso h (ev_received_at e)))"
    by (simp add: p_def record_heartbeat_def)
  moreover have "map_of (set_param ''heartbeat_status'' v p) ''last_heartbeat_time'' = map_of p ''last_heartbeat_time''" for v
    by simp
  ultimately show ?thesis
    unfolding heartbeat_seen_def Let_def p_def[symmetric] by (cases "find_active_alert h g s") auto
qed

text \<open>C25: the time of a heartbeat survives the trip through the parameters of the strategy: a run that
  finds a heartbeat succeeds, and the next run reads back the very instant the heartbeat was
  received, if the text of the instant is parsed to that instant.\<close>

theorem heartbeat_time_roundtrip:
  assumes "tfind sg_id sid (db_strategies s) = Some g" "latest_heartbeat h g s = Some e" "load_params g = Inr p0"
    and "hb_iso h (ev_received_at e) \<noteq> []" "hb_parse h (hb_iso h (ev_received_at e)) = Some (ev_received_at e)"
  shows "\<exists>t g' p. process_missing_detection_strategy h sid now uid s = (Inr (), t) \<and>
    tfind sg_id sid (db_strategies t) = Some g' \<and> sg_last_execute_time g' = Some now \<and> load_params g' = Inr p \<and>
    parse_runtime_datetime h (get_param p ''last_heartbeat_time'') = Inr (Some (ev_received_at e))"
proof -
  obtain p u where t: "heartbeat_seen h g e (activate_if_needed h (Some e) p0) now s = save_runtime_state g p now u"
    "map_of p ''last_heartbeat_time'' = Some (JStr (hb_iso h (ev_received_at e)))"
    using seen_saves by blast
  define g' where "g' = g\<lparr>sg_params := JObj p, sg_last_execute_time := Some now, sg_updated_at := now\<rparr>"
  have "sg_params g' = JObj p" by (simp add: g'_def)
  from load_saved[OF this t(2)] obtain q where q: "load_params g' = Inr q"
    "get_param q ''last_heartbeat_time'' = JStr (hb_iso h (ev_received_at e))" by blast
  have "sid = sg_id g" using tfind_key[OF assms(1)] by simp
  then have "tfind sg_id sid (db_strategies (save_runtime_state g p now u)) = Some g'" by (simp add: g'_def)
  moreover have "sg_last_execute_time g' = Some now" by (simp add: g'_def)
  moreover have "parse_runtime_datetime h (get_param q ''last_heartbeat_time'') = Inr (Some (ev_received_at e))"
    using assms(4,5) q(2) by (simp add: parse_runtime_datetime_def)
  ultimately show ?thesis using run_with_heartbeat[OF assms(1-3)] t(1) q(1) by auto
qed

text \<open>With automatic recovery the heartbeat ends the active missing-heartbeat alert: its status
  becomes recovered, its reminders stop, and no other alert or task changes.\<close>

theorem heartbeat_recovers_alert:
  assumes "wf_db s" "tfind sg_id sid (db_strategies s) = Some g" "latest_heartbeat h g s = Some e"
    and "load_params g = Inr p0" "truthy (rule_get (record_heartbeat h e (activate_if_needed h (Some e) p0)) ''auto_recovery'' (JBool True))"
    and "find_active_alert h g s = Some a"
    and "process_missing_detection_strategy h sid now uid s = (r, t)"
  shows "r = Inr () \<and> map_option al_status (alert_by_pk (al_pk a) t) = Some A_AUTO_RECOVERY \<and>
    pred_option (\<lambda>r. \<not> rm_is_active r) (find_reminder (al_pk a) t) \<and>
    (\<forall>k. k \<noteq> al_pk a \<longrightarrow> alert_by_pk k t = alert_by_pk k s \<and> find_reminder k t = find_reminder k s)"
proof -
  let ?u = "recover_missing_alert h g now s"
  obtain p where t: "r = Inr ()" "t = save_runtime_state g p now ?u"
    using run_with_heartbeat[OF assms(2-4)] assms(5-7) by (auto simp: heartbeat_seen_def Let_def)
  have f: "alert_by_pk k t = alert_by_pk k ?u" "find_reminder k t = find_reminder k ?u" for k
    by (simp_all add: t(2))
  note eff = recover_missing_effect[OF assms(1,6), of now]
  have o: "only (al_pk a) s ?u" using eff by blast
  show ?thesis using t(1) f eff onlyD(2,3)[OF o] by (auto simp: pred_option_def)
qed

section \<open>Grace periods as long as the interval\<close>

text \<open>The deadline of a missed run is computed from the last tick of the cron expression before now,
  not from the first missed one: when the grace period covers the time since the last tick, which
  is always the case when it is as long as the interval, the deadline never passes and no alert
  is ever raised.\<close>

lemma long_grace_never_overdue:
  assumes "cron_deadline h cron grace start seen now = Inr d" "0 \<le> grace"
    and "\<And>q. hb_prev h cron now = Inr q \<Longrightarrow> now - q \<le> grace"
    and "\<And>q n. hb_prev h cron now = Inr q \<Longrightarrow> hb_next h cron q = Inr n \<Longrightarrow> q \<le> n"
  shows "now \<le> d"
proof (cases "hb_prev h cron now")
  case (Inl e)
  then show ?thesis using assms(1,2) by (auto simp: cron_deadline_def split: sum.splits if_splits)
next
  case (Inr q)
  then show ?thesis using assms(1,2) assms(3)[OF Inr] assms(4)[OF Inr]
    by (fastforce simp: cron_deadline_def split: sum.splits if_splits option.splits)
qed

section \<open>Concrete runs\<close>

text \<open>A heartbeat is expected every ten minutes, with two minutes of grace.\<close>

definition tick_env :: hb_env where
  "tick_env = \<lparr>hb_next = (\<lambda>_ i. Inr ((i div minutes 10 + 1) * minutes 10)),
     hb_prev = (\<lambda>_ i. Inr ((i - 1) div minutes 10 * minutes 10)), hb_iso = str_int,
     hb_parse = (\<lambda>t. case py_int (JStr t) of Inl _ \<Rightarrow> None | Inr i \<Rightarrow> Some i),
     hb_md5 = id, hb_mem = probe_env, hb_db = probe_db\<rparr>"

definition tick_strategy :: strategy where
  "tick_strategy = sample_strategy\<lparr>sg_id := 9, sg_type := ST_MISSING_DETECTION,
     sg_params := JObj [(''cron_expr'', JStr ''*/10 * * * *''), (''grace_period'', JInt 2),
       (''heartbeat_status'', MONITORING), (''last_heartbeat_time'', JStr ''5'')],
     sg_last_execute_time := Some 5\<rparr>"

definition tick_alert :: alert where
  "tick_alert = sample_alert\<lparr>al_rule_id := Some ''9'', al_group_by_field := Some MISSING_DETECTION,
     al_fingerprint := ''missing_detection:9''\<rparr>"

definition silent_db :: db where
  "silent_db = sample_db\<lparr>db_strategies := [tick_strategy]\<rparr>"

definition beating_db :: db where
  "beating_db = sample_db\<lparr>db_strategies := [tick_strategy], db_events := [probe_event], db_alerts := [tick_alert]\<rparr>"

lemma beating_wf: "wf_db beating_db"
  by (simp add: beating_db_def tick_alert_def sample_defs wf_db_def keyed_def)

lemma tick_found:
  "tfind sg_id 9 (db_strategies silent_db) = Some tick_strategy"
  "tfind sg_id 9 (db_strategies beating_db) = Some tick_strategy"
  by (simp_all add: silent_db_def beating_db_def tick_strategy_def tfind_def)

lemma tick_instants:
  fixes i n :: int
  assumes "600000000 dvd n"
  shows "i < n \<Longrightarrow> (i div 600000000 + 1) * 600000000 \<le> n" "n < i \<Longrightarrow> n \<le> (i - 1) div 600000000 * 600000000"
    "i < (i div 600000000 + 1) * 600000000" "(i - 1) div 600000000 * 600000000 < i"
proof -
  obtain k where k: "n = 600000000 * k" using assms by (elim dvdE)
  have d: "600000000 * (j div 600000000) \<le> j \<and> j < 600000000 * (j div 600000000) + 600000000" for j :: int
    by presburger
  show "(i div 600000000 + 1) * 600000000 \<le> n" if "i < n"
  proof -
    have "600000000 * (i div 600000000) < 600000000 * k" using d[of i] k that by linarith
    then have "i div 600000000 + 1 \<le> k" by simp
    from mult_right_mono[OF this, of 600000000] k show ?thesis by (simp add: mult.commute)
  qed
  show "n \<le> (i - 1) div 600000000 * 600000000" if "n < i"
  proof -
    have "600000000 * k < 600000000 * ((i - 1) div 600000000) + 600000000" using d[of "i - 1"] k that by linarith
    then have "600000000 * k < 600000000 * ((i - 1) div 600000000 + 1)" by (simp only: distrib_left mult_1_right)
    then have "k \<le> (i - 1) div 600000000" by simp
    from mult_right_mono[OF this, of 600000000] k show ?thesis by (simp add: mult.commute)
  qed
  show "i < (i div 600000000 + 1) * 600000000" "(i - 1) div 600000000 * 600000000 < i"
    using d[of i] d[of "i - 1"] by (simp_all add: distrib_right mult.commute)
qed

lemma tick_schedule: "cron_schedule tick_env cron (minutes 2) {e. minutes 10 dvd e}"
proof -
  have apart: "q + 120000000 < n" if "600000000 dvd q" "600000000 dvd n" "q < n" for q n :: int
  proof -
    have "600000000 dvd n - q" using that by simp
    then have "600000000 \<le> n - q" using that(3) by (intro zdvd_imp_le) simp_all
    then show ?thesis by simp
  qed
  have m: "minutes 10 = 600000000" "minutes 2 = 120000000" by (simp_all add: minutes_def)
  have nx: "hb_next tick_env cron i = Inr n \<longleftrightarrow> n = (i div 600000000 + 1) * 600000000" for i n
    by (auto simp: tick_env_def m)
  have pv: "hb_prev tick_env cron i = Inr q \<longleftrightarrow> q = (i - 1) div 600000000 * 600000000" for i q
    by (auto simp: tick_env_def m)
  have dv: "600000000 dvd (a * 600000000 :: int)" for a by (rule dvd_triv_right)
  show ?thesis
    unfolding cron_schedule_def m nx pv mem_Collect_eq Ball_def
    using tick_instants dv apart by (intro conjI allI impI) simp_all
qed

text \<open>A job that runs at the very instant of the first expected heartbeat compares with the instant before the
  monitoring began: ten minutes after the start an alert is due, although the grace period has not begun.\<close>

lemma early_alert_at_first_tick: "cron_deadline tick_env ''*/10 * * * *'' (minutes 2) 5 None (minutes 10) = Inr (minutes 2)"
  by code_simp


lemma beat: "latest_heartbeat tick_env tick_strategy beating_db = Some probe_event"
  by code_simp

theorem heartbeat_time_witness:
  "\<exists>t. process_missing_detection_strategy tick_env 9 (minutes 13) ''U1'' beating_db = (Inr (), t) \<and>
     map_option sg_last_execute_time (tfind sg_id 9 (db_strategies t)) = Some (Some (minutes 13))"
proof -
  obtain p where l: "load_params tick_strategy = Inr p"
    by (simp add: load_params_def tick_strategy_def py_or_def)
  have "hb_iso tick_env (ev_received_at probe_event) \<noteq> []"
    "hb_parse tick_env (hb_iso tick_env (ev_received_at probe_event)) = Some (ev_received_at probe_event)" by code_simp+
  from heartbeat_time_roundtrip[OF tick_found(2) beat l this, of "minutes 13" "''U1''"] show ?thesis by auto
qed

theorem heartbeat_recovers_witness:
  "map_option al_status (alert_by_pk 1
     (snd (process_missing_detection_strategy tick_env 9 (minutes 13) ''U1'' beating_db))) = Some A_AUTO_RECOVERY"
proof -
  obtain p where l: "load_params tick_strategy = Inr p"
    by (simp add: load_params_def tick_strategy_def py_or_def)
  have "map_sum (\<lambda>_. ()) (\<lambda>p. truthy (rule_get (record_heartbeat tick_env probe_event
      (activate_if_needed tick_env (Some probe_event) p)) ''auto_recovery'' (JBool True))) (load_params tick_strategy) = Inr True"
    by code_simp
  then have a: "truthy (rule_get (record_heartbeat tick_env probe_event
      (activate_if_needed tick_env (Some probe_event) p)) ''auto_recovery'' (JBool True))" using l by simp
  have f: "find_active_alert tick_env tick_strategy beating_db = Some tick_alert" by code_simp
  obtain r t where "process_missing_detection_strategy tick_env 9 (minutes 13) ''U1'' beating_db = (r, t)" by fastforce
  from heartbeat_recovers_alert[OF beating_wf tick_found(2) beat l a f this] this show ?thesis
    by (simp add: tick_alert_def sample_alert_def)
qed

end
