(* ===== verification/Recovery.thy ===== *)
theory Recovery
  imports Reminder
begin

text \<open>
  Recovery of alerts (\<open>aggregation/recovery\<close>): recovery events are linked to the active alerts
  that contain their created counterparts (\<open>recovery_handler.py\<close>), an alert all of whose
  created events were answered by a later recovery event is recovered (\<open>recovery_checker.py\<close>),
  and session alerts leave their observation (\<open>timeout_checker.py\<close>).
\<close>

section \<open>The recovery check\<close>

definition opt_or :: "'a option \<Rightarrow> 'a option \<Rightarrow> 'a option" where
  "opt_or x y = (case x of None \<Rightarrow> y | Some _ \<Rightarrow> x)"

definition get_created_event_time :: "event \<Rightarrow> int" where
  "get_created_event_time e = the (opt_or (ev_start_time e) (Some (ev_received_at e)))"

definition get_recovery_event_time :: "event \<Rightarrow> int" where
  "get_recovery_event_time e = the (opt_or (ev_end_time e) (opt_or (ev_start_time e) (Some (ev_received_at e))))"

text \<open>An \<open>external_id\<close> counts when it is neither \<open>None\<close> nor empty.\<close>

definition ext_id :: "event \<Rightarrow> string option" where
  "ext_id e = (case ev_external_id e of Some x \<Rightarrow> if x = [] then None else Some x | None \<Rightarrow> None)"

definition is_recovery :: "event \<Rightarrow> bool" where
  "is_recovery e \<longleftrightarrow> ev_action e = EA_RECOVERY \<or> ev_action e = EA_CLOSED"

text \<open>The loop that sorts the events: the created ones, and the index of the recovery events
  by their external id (a dict of lists).\<close>

fun index_events :: "event list \<Rightarrow> event list \<times> (string \<times> event list) list \<Rightarrow> event list \<times> (string \<times> event list) list" where
  "index_events [] st = st"
| "index_events (e # es) (created, idx) =
     index_events es
       (if ev_action e = EA_CREATED then (created @ [e], idx)
        else if \<not> is_recovery e then (created, idx)
        else case ext_id e of
          None \<Rightarrow> (created, idx)
        | Some x \<Rightarrow> (created, tsave fst (x, (case map_of idx x of None \<Rightarrow> [] | Some rs \<Rightarrow> rs) @ [e]) idx))"

definition is_unrecovered :: "(string \<times> event list) list \<Rightarrow> event \<Rightarrow> bool" where
  "is_unrecovered idx e =
     (case ext_id e of
        None \<Rightarrow> True
      | Some x \<Rightarrow>
          \<not> list_ex (\<lambda>r. get_recovery_event_time r > get_created_event_time e)
              (case map_of idx x of None \<Rightarrow> [] | Some rs \<Rightarrow> rs))"

definition check_and_recover_alert :: "int \<Rightarrow> alert \<Rightarrow> db \<Rightarrow> bool \<times> db" where
  "check_and_recover_alert now a s =
     (let all_events = events_of a s in
      if all_events = [] then (False, s)
      else
        let (created, idx) = index_events all_events ([], []) in
        if created = [] \<and> idx = [] then (False, s)
        else if filter (is_unrecovered idx) created \<noteq> [] then (False, s)
        else
          let a1 = a\<lparr>al_status := A_AUTO_RECOVERY,
                     al_session_status := (if al_is_session_alert a \<and> al_session_status a = Some S_OBSERVING
                                           then Some S_RECOVERED else al_session_status a),
                     al_updated_at := now\<rparr>
          in (True, snd (stop_reminder_task a1 (save_alert a1 s))))"

section \<open>Linking recovery events\<close>

definition normalize_value :: "string option \<Rightarrow> string" where
  "normalize_value v = (case v of None \<Rightarrow> [] | Some s \<Rightarrow> strip s)"

type_synonym fallback_key = "nat \<times> string \<times> string \<times> string"

definition build_fallback_key :: "event \<Rightarrow> fallback_key option" where
  "build_fallback_key e =
     (let item = normalize_value (ev_item e);
          resource_name = normalize_value (ev_resource_name e);
          source_id = normalize_value (Some (ev_source_id e))
      in if item = [] \<or> resource_name = [] \<or> source_id = [] then None
         else Some (ev_source_pk e, item, resource_name, source_id))"

definition supports_unique_fallback :: "event \<Rightarrow> bool" where
  "supports_unique_fallback e \<longleftrightarrow>
     normalize_value (ev_resource_id e) = [] \<and> normalize_value (ev_resource_type e) = []"

definition fallback_keys :: "event list \<Rightarrow> fallback_key list" where
  "fallback_keys res =
     concat (map (\<lambda>e. if ext_id e \<noteq> None \<and> supports_unique_fallback e
                      then (case build_fallback_key e of None \<Rightarrow> [] | Some k \<Rightarrow> [k]) else []) res)"

definition external_ids :: "event list \<Rightarrow> string list" where
  "external_ids res = map the (filter (\<lambda>x. x \<noteq> None) (map ext_id res))"

text \<open>The query for the candidates: active alerts with a created event that has one of the
  external ids or one of the fallback keys.\<close>

definition candidate_event :: "string list \<Rightarrow> fallback_key list \<Rightarrow> event \<Rightarrow> bool" where
  "candidate_event ids keys e \<longleftrightarrow> ev_action e = EA_CREATED \<and>
     (ev_external_id e \<in> Some ` set ids \<or>
      list_ex (\<lambda>(src, item, res, _). ev_source_pk e = src \<and> ev_item e = Some item \<and>
                 ev_resource_name e = Some res) keys)"

definition affected_alerts :: "event list \<Rightarrow> db \<Rightarrow> alert list" where
  "affected_alerts res s =
     filter (\<lambda>a. al_status a \<in> set ACTIVATE_STATUS \<and>
                 list_ex (candidate_event (external_ids res) (fallback_keys res)) (events_of a s)) (db_alerts s)"

text \<open>The two indexes, built from the events of the candidates at the beginning.\<close>

definition alerts_by_external_id :: "alert list \<Rightarrow> db \<Rightarrow> string \<Rightarrow> alert list" where
  "alerts_by_external_id as s x =
     concat (map (\<lambda>a. map (\<lambda>_. a) (filter (\<lambda>e. ev_external_id e = Some x) (events_of a s))) as)"

definition alerts_by_fallback_key :: "alert list \<Rightarrow> db \<Rightarrow> fallback_key \<Rightarrow> alert list" where
  "alerts_by_fallback_key as s k =
     concat (map (\<lambda>a. map (\<lambda>_. a)
       (filter (\<lambda>e. build_fallback_key e = Some k \<and> ev_action e = EA_CREATED) (events_of a s))) as)"

text \<open>The alerts a recovery event belongs to: by external id, otherwise a unique alert with the
  same fallback key.\<close>

definition matching_alerts :: "alert list \<Rightarrow> db \<Rightarrow> event \<Rightarrow> alert list" where
  "matching_alerts as s re =
     (case ext_id re of
        None \<Rightarrow> []
      | Some x \<Rightarrow>
          let direct = alerts_by_external_id as s x in
          dedup_on al_pk
            (if direct \<noteq> [] then direct
             else if supports_unique_fallback re then
               (case build_fallback_key re of
                  None \<Rightarrow> []
                | Some k \<Rightarrow>
                    let unique = dedup_on al_pk (alerts_by_fallback_key as s k)
                    in if length unique = 1 then unique else [])
             else []))"

text \<open>The state of the linking loop: the touched alerts in the order of their first touch, the
  event ids known for each alert, and the database.\<close>

type_synonym link_state = "nat list \<times> (nat \<times> string list) list \<times> db"

definition link_event :: "event \<Rightarrow> alert \<Rightarrow> link_state \<Rightarrow> link_state" where
  "link_event re a st =
     (case st of (touched, known, s) \<Rightarrow>
        let ids = (case map_of known (al_pk a) of None \<Rightarrow> [] | Some x \<Rightarrow> x);
            touched' = (if al_pk a \<in> set touched then touched else touched @ [al_pk a])
        in if ev_event_id re \<in> set ids then (touched', known, s)
           else (touched', tsave fst (al_pk a, ev_event_id re # ids) known,
                 (case alert_by_pk (al_pk a) s of
                    None \<Rightarrow> s
                  | Some row \<Rightarrow>
                      if ev_pk re \<in> set (al_events row) then s
                      else save_alert (row\<lparr>al_events := al_events row @ [ev_pk re]\<rparr>) s)))"

definition link_recovery :: "alert list \<Rightarrow> db \<Rightarrow> event \<Rightarrow> link_state \<Rightarrow> link_state" where
  "link_recovery as s0 re st = fold (link_event re) (matching_alerts as s0 re) st"

definition handle_recovery_events :: "event list \<Rightarrow> db \<Rightarrow> nat list \<times> db" where
  "handle_recovery_events res s =
     (if external_ids res = [] \<and> fallback_keys res = [] then ([], s)
      else
        let as = affected_alerts res s in
        if as = [] then ([], s)
        else (case fold (link_recovery as s) res
                     ([], map (\<lambda>a. (al_pk a, map ev_event_id (events_of a s))) as, s) of
                (touched, known, t) \<Rightarrow> (touched, t)))"

text \<open>The callback after the commit: every touched alert is read again and checked.\<close>

definition run_recovery_checks :: "int \<Rightarrow> nat list \<Rightarrow> db \<Rightarrow> db" where
  "run_recovery_checks now touched s =
     fold (\<lambda>k u. case alert_by_pk k u of None \<Rightarrow> u | Some a \<Rightarrow> snd (check_and_recover_alert now a u)) touched s"

section \<open>Session windows\<close>

definition is_observing :: "alert \<Rightarrow> bool" where
  "is_observing a \<longleftrightarrow> al_is_session_alert a \<and> al_session_status a = Some S_OBSERVING \<and>
     al_status a \<in> set ACTIVATE_STATUS"

definition confirm_session_alert :: "int \<Rightarrow> alert \<Rightarrow> db \<Rightarrow> db" where
  "confirm_session_alert now a s =
     emit (AutoAssign [al_alert_id a]) (save_alert (a\<lparr>al_session_status := Some S_CONFIRMED, al_updated_at := now\<rparr>) s)"

definition session_expired :: "int \<Rightarrow> alert \<Rightarrow> bool" where
  "session_expired now a \<longleftrightarrow> (case al_session_end_time a of None \<Rightarrow> False | Some t \<Rightarrow> t \<le> now)"

definition check_session_timeouts :: "int \<Rightarrow> db \<Rightarrow> nat \<times> db" where
  "check_session_timeouts now s =
     (let observing = filter (\<lambda>a. is_observing a \<and> al_session_end_time a \<noteq> None) (db_alerts s);
          due = filter (session_expired now) observing
      in (length due, fold (confirm_session_alert now) due s))"

definition of_strategy :: "int \<Rightarrow> alert \<Rightarrow> bool" where
  "of_strategy sid a \<longleftrightarrow> al_rule_id a = Some (str_int sid) \<and> is_observing a"

definition confirm_observing_alerts_by_strategy :: "int \<Rightarrow> int \<Rightarrow> db \<Rightarrow> nat \<times> db" where
  "confirm_observing_alerts_by_strategy now sid s =
     (let as = filter (of_strategy sid) (db_alerts s);
          t = fold (\<lambda>a. save_alert (a\<lparr>al_session_status := Some S_CONFIRMED, al_updated_at := now\<rparr>)) as s;
          ids = map al_alert_id as
      in (length as, if ids = [] then t else emit (AutoAssign (dedup_on id ids)) t))"

definition close_observing_session_alerts_by_strategy :: "int \<Rightarrow> int \<Rightarrow> db \<Rightarrow> nat \<times> db" where
  "close_observing_session_alerts_by_strategy now sid s =
     (let as = filter (of_strategy sid) (db_alerts s)
      in (length as,
          fold (\<lambda>a. save_alert (a\<lparr>al_status := A_CLOSED, al_session_status := Some S_RECOVERED,
                                  al_updated_at := now\<rparr>)) as s))"

section \<open>The check against its specification\<close>

text \<open>A created event is answered by a recovery or close event with the same external id and a
  later time.\<close>

definition answered :: "event list \<Rightarrow> event \<Rightarrow> bool" where
  "answered es e \<longleftrightarrow> ext_id e \<noteq> None \<and>
     (\<exists>r \<in> set es. is_recovery r \<and> ext_id r = ext_id e \<and>
        get_recovery_event_time r > get_created_event_time e)"

definition recoverable :: "event list \<Rightarrow> bool" where
  "recoverable es \<longleftrightarrow>
     (\<exists>e \<in> set es. ev_action e = EA_CREATED \<or> (is_recovery e \<and> ext_id e \<noteq> None)) \<and>
     (\<forall>e \<in> set es. ev_action e = EA_CREATED \<longrightarrow> answered es e)"

definition looked_up :: "(string \<times> event list) list \<Rightarrow> string \<Rightarrow> event list" where
  "looked_up idx x = (case map_of idx x of None \<Rightarrow> [] | Some rs \<Rightarrow> rs)"

lemma looked_up_Nil [simp]: "looked_up [] x = []"
  by (simp add: looked_up_def)

lemma tsave_nonempty [simp]: "tsave key r t \<noteq> []"
  by (auto simp: tsave_def)

lemma index_events_spec:
  assumes "index_events es (c, idx) = (created, idx')"
  shows "created = c @ filter (\<lambda>e. ev_action e = EA_CREATED) es"
    "looked_up idx' x = looked_up idx x @ filter (\<lambda>e. is_recovery e \<and> ext_id e = Some x) es"
    "idx' = [] \<longleftrightarrow> idx = [] \<and> (\<forall>e \<in> set es. is_recovery e \<longrightarrow> ext_id e = None)"
proof -
  have "created = c @ filter (\<lambda>e. ev_action e = EA_CREATED) es \<and>
    looked_up idx' x = looked_up idx x @ filter (\<lambda>e. is_recovery e \<and> ext_id e = Some x) es \<and>
    (idx' = [] \<longleftrightarrow> idx = [] \<and> (\<forall>e \<in> set es. is_recovery e \<longrightarrow> ext_id e = None))"
    using assms
  proof (induction es arbitrary: c idx)
    case (Cons e es)
    show ?case
    proof (cases "ev_action e = EA_CREATED")
      case True
      with Cons.prems Cons.IH[of "c @ [e]" idx] show ?thesis by (simp add: is_recovery_def)
    next
      case False
      show ?thesis
      proof (cases "is_recovery e \<longrightarrow> ext_id e = None")
        case True
        with False Cons.prems Cons.IH[of c idx] show ?thesis by (cases "is_recovery e") simp_all
      next
        case not_none: False
        then obtain y where r: "is_recovery e" and Some: "ext_id e = Some y" by auto
        let ?idx = "tsave fst (y, looked_up idx y @ [e]) idx"
        have p: "index_events es (c, ?idx) = (created, idx')"
          using Cons.prems False Some r by (simp add: looked_up_def)
        have l: "looked_up ?idx x = looked_up idx x @ (if y = x then [e] else [])"
          by (simp add: looked_up_def map_of_tsave)
        show ?thesis using Cons.IH[OF p] l False Some r by simp
      qed
    qed
  qed simp
  then show "created = c @ filter (\<lambda>e. ev_action e = EA_CREATED) es"
    "looked_up idx' x = looked_up idx x @ filter (\<lambda>e. is_recovery e \<and> ext_id e = Some x) es"
    "idx' = [] \<longleftrightarrow> idx = [] \<and> (\<forall>e \<in> set es. is_recovery e \<longrightarrow> ext_id e = None)" by blast+
qed

lemma unrecovered_iff:
  assumes "index_events es ([], []) = (created, idx)"
  shows "is_unrecovered idx e \<longleftrightarrow> \<not> answered es e"
  using index_events_spec(2)[OF assms]
  by (cases "ext_id e")
     (auto simp: is_unrecovered_def answered_def looked_up_def[symmetric] list_ex_iff)

lemma check_recover_eq:
  "check_and_recover_alert now a s =
     (if recoverable (events_of a s)
      then let a1 = a\<lparr>al_status := A_AUTO_RECOVERY,
                     al_session_status := (if al_is_session_alert a \<and> al_session_status a = Some S_OBSERVING
                                           then Some S_RECOVERED else al_session_status a),
                     al_updated_at := now\<rparr>
           in (True, snd (stop_reminder_task a1 (save_alert a1 s)))
      else (False, s))"
proof -
  obtain created idx where ix: "index_events (events_of a s) ([], []) = (created, idx)" by fastforce
  have cr: "created = filter (\<lambda>e. ev_action e = EA_CREATED) (events_of a s)"
    and ie: "idx = [] \<longleftrightarrow> (\<forall>e \<in> set (events_of a s). is_recovery e \<longrightarrow> ext_id e = None)"
    using index_events_spec(1,3)[OF ix] by simp_all
  have u: "filter (is_unrecovered idx) created = [] \<longleftrightarrow>
      (\<forall>e \<in> set (events_of a s). ev_action e = EA_CREATED \<longrightarrow> answered (events_of a s) e)"
    using unrecovered_iff[OF ix] by (auto simp: filter_empty_conv cr)
  have n: "(events_of a s \<noteq> [] \<and> \<not> (created = [] \<and> idx = [])) \<longleftrightarrow>
      (\<exists>e \<in> set (events_of a s). ev_action e = EA_CREATED \<or> (is_recovery e \<and> ext_id e \<noteq> None))"
    unfolding ie cr by (auto simp: filter_empty_conv)
  show ?thesis
    using n u by (auto simp: check_and_recover_alert_def ix recoverable_def Let_def)
qed

lemma recover_effect:
  assumes "alert_by_pk (al_pk a) s = Some a" "recoverable (events_of a s)"
  shows "only (al_pk a) s (snd (check_and_recover_alert now a s)) \<and>
    (\<exists>b. alert_by_pk (al_pk a) (snd (check_and_recover_alert now a s)) = Some b \<and>
      al_status b = A_AUTO_RECOVERY \<and> al_operator b = al_operator a \<and> al_events b = al_events a) \<and>
    find_reminder (al_pk a) (snd (check_and_recover_alert now a s)) =
      map_option (\<lambda>r. r\<lparr>rm_is_active := False\<rparr>) (find_reminder (al_pk a) s)"
proof -
  define a1 where "a1 = a\<lparr>al_status := A_AUTO_RECOVERY,
                     al_session_status := (if al_is_session_alert a \<and> al_session_status a = Some S_OBSERVING
                                           then Some S_RECOVERED else al_session_status a),
                     al_updated_at := now\<rparr>"
  have pk: "al_pk a1 = al_pk a" "al_alert_id a1 = al_alert_id a" by (simp_all add: a1_def)
  have t: "snd (check_and_recover_alert now a s) = snd (stop_reminder_task a1 (save_alert a1 s))"
    using assms(2) by (simp add: check_recover_eq a1_def Let_def)
  have "only (al_pk a) s (save_alert a1 s)" by (rule only_save_alert[OF assms(1) pk])
  then have "only (al_pk a) s (snd (stop_reminder_task a1 (save_alert a1 s)))"
    using stop_reminder_only[of a1 "save_alert a1 s"] pk(1) by (auto intro: only_trans)
  then show ?thesis unfolding t using pk
    by (simp add: stop_reminder_find row_simps) (simp add: a1_def)
qed

section \<open>What linking changes\<close>

text \<open>Linking appends events of the batch to the event lists of alerts in a set of keys and
  changes nothing else.\<close>

definition linked :: "nat set \<Rightarrow> nat set \<Rightarrow> db \<Rightarrow> db \<Rightarrow> bool" where
  "linked ks es s t \<longleftrightarrow> (wf_db s \<longrightarrow> wf_db t) \<and> db_events t = db_events s \<and>
     db_reminders t = db_reminders s \<and> db_escalations t = db_escalations s \<and>
     (\<forall>k. \<exists>xs. set xs \<subseteq> es \<and> (xs \<noteq> [] \<longrightarrow> k \<in> ks) \<and>
        alert_by_pk k t = map_option (\<lambda>a. a\<lparr>al_events := al_events a @ xs\<rparr>) (alert_by_pk k s))"

lemma linked_refl [simp]: "linked ks es s s"
  by (auto simp: linked_def option.map_ident intro!: exI[of _ "[]"])

lemma linked_trans: "linked ks es s t \<Longrightarrow> linked ks es t u \<Longrightarrow> linked ks es s u"
proof -
  assume st: "linked ks es s t" and tu: "linked ks es t u"
  have "\<exists>xs. set xs \<subseteq> es \<and> (xs \<noteq> [] \<longrightarrow> k \<in> ks) \<and>
      alert_by_pk k u = map_option (\<lambda>a. a\<lparr>al_events := al_events a @ xs\<rparr>) (alert_by_pk k s)" for k
  proof -
    from st obtain xs where xs: "set xs \<subseteq> es" "xs \<noteq> [] \<longrightarrow> k \<in> ks"
      "alert_by_pk k t = map_option (\<lambda>a. a\<lparr>al_events := al_events a @ xs\<rparr>) (alert_by_pk k s)"
      unfolding linked_def by blast
    from tu obtain ys where ys: "set ys \<subseteq> es" "ys \<noteq> [] \<longrightarrow> k \<in> ks"
      "alert_by_pk k u = map_option (\<lambda>a. a\<lparr>al_events := al_events a @ ys\<rparr>) (alert_by_pk k t)"
      unfolding linked_def by blast
    show ?thesis using xs ys
      by (intro exI[of _ "xs @ ys"]) (auto simp: option.map_comp comp_def)
  qed
  with st tu show ?thesis by (simp add: linked_def)
qed

lemma link_event_linked:
  assumes "al_pk a \<in> ks" "ev_pk re \<in> es"
  shows "linked ks es (snd (snd st)) (snd (snd (link_event re a st)))"
proof -
  obtain touched known s where st: "st = (touched, known, s)" by (cases st)
  have "linked ks es s (save_alert (row\<lparr>al_events := al_events row @ [ev_pk re]\<rparr>) s)"
    if row: "alert_by_pk (al_pk a) s = Some row" for row
  proof -
    have pk: "al_pk row = al_pk a" using row by (rule tfind_key)
    let ?t = "save_alert (row\<lparr>al_events := al_events row @ [ev_pk re]\<rparr>) s"
    have "only (al_pk a) s ?t" by (rule only_save_alert[OF row]) simp_all
    then have "wf_db s \<longrightarrow> wf_db ?t" by (auto dest: onlyD(1))
    moreover have "\<exists>xs. set xs \<subseteq> es \<and> (xs \<noteq> [] \<longrightarrow> k \<in> ks) \<and>
        alert_by_pk k ?t = map_option (\<lambda>a. a\<lparr>al_events := al_events a @ xs\<rparr>) (alert_by_pk k s)" for k
    proof (cases "k = al_pk a")
      case True
      then show ?thesis using assms row pk by (intro exI[of _ "[ev_pk re]"]) (simp add: row_simps)
    next
      case False
      then show ?thesis using pk by (intro exI[of _ "[]"]) (simp add: row_simps option.map_ident)
    qed
    ultimately show ?thesis by (simp add: linked_def)
  qed
  then show ?thesis by (auto simp: link_event_def st Let_def split: option.split)
qed

lemma link_events_linked:
  "al_pk ` set as \<subseteq> ks \<Longrightarrow> ev_pk re \<in> es \<Longrightarrow> linked ks es (snd (snd st)) (snd (snd (fold (link_event re) as st)))"
proof (induction as arbitrary: st)
  case (Cons a as)
  then have "linked ks es (snd (snd (link_event re a st))) (snd (snd (fold (link_event re) as (link_event re a st))))"
    by simp
  with link_event_linked[of a ks re es st] Cons.prems show ?case by (auto intro: linked_trans)
qed simp

lemma matching_alerts_subset: "set (matching_alerts as s re) \<subseteq> set as"
  using dedup_on_subset[of al_pk]
  by (auto simp: matching_alerts_def alerts_by_external_id_def alerts_by_fallback_key_def Let_def
      split: option.splits if_splits dest!: subsetD[OF dedup_on_subset])

lemma link_recovery_linked:
  "al_pk ` set as \<subseteq> ks \<Longrightarrow> ev_pk ` set res \<subseteq> es \<Longrightarrow>
   linked ks es (snd (snd st)) (snd (snd (fold (link_recovery as s0) res st)))"
proof (induction res arbitrary: st)
  case (Cons re res)
  have "linked ks es (snd (snd st)) (snd (snd (link_recovery as s0 re st)))"
    unfolding link_recovery_def
    by (rule link_events_linked) (use Cons.prems matching_alerts_subset[of as s0 re] in auto)
  moreover have "linked ks es (snd (snd (link_recovery as s0 re st)))
      (snd (snd (fold (link_recovery as s0) res (link_recovery as s0 re st))))"
    using Cons by simp
  ultimately show ?case by (auto intro: linked_trans)
qed simp

lemma handle_recovery_linked:
  assumes "handle_recovery_events res s = (touched, t)"
  shows "linked (al_pk ` set (affected_alerts res s)) (ev_pk ` set res) s t"
proof -
  let ?as = "affected_alerts res s"
  let ?st = "([], map (\<lambda>a. (al_pk a, map ev_event_id (events_of a s))) ?as, s)"
  have "t = s \<or> t = snd (snd (fold (link_recovery ?as s) res ?st))"
    using assms by (auto simp: handle_recovery_events_def Let_def split: if_splits prod.splits)
  then show ?thesis using link_recovery_linked[of ?as "al_pk ` set ?as" res "ev_pk ` set res" ?st s] by auto
qed

section \<open>Properties\<close>

text \<open>C12: an alert with created events is recovered exactly when every one of them was answered by a
  recovery or close event of the alert with the same non-empty external id and a later time; the indexed
  search decides this. A recovered alert gets its status, its reminder is stopped and nothing else
  changes; otherwise the database stays as it is.\<close>

theorem recovery_check_correct:
  assumes "alert_by_pk (al_pk a) s = Some a" "check_and_recover_alert now a s = (b, t)"
    and "\<exists>e \<in> set (events_of a s). ev_action e = EA_CREATED"
  shows "(b \<longleftrightarrow> (\<forall>e \<in> set (events_of a s). ev_action e = EA_CREATED \<longrightarrow> answered (events_of a s) e)) \<and>
    (\<not> b \<longrightarrow> t = s) \<and>
    (b \<longrightarrow> only (al_pk a) s t \<and>
      (\<exists>c. alert_by_pk (al_pk a) t = Some c \<and> al_status c = A_AUTO_RECOVERY \<and>
         al_operator c = al_operator a \<and> al_events c = al_events a) \<and>
      find_reminder (al_pk a) t = map_option (\<lambda>r. r\<lparr>rm_is_active := False\<rparr>) (find_reminder (al_pk a) s))"
proof -
  have "recoverable (events_of a s) \<longleftrightarrow> (\<forall>e \<in> set (events_of a s). ev_action e = EA_CREATED \<longrightarrow> answered (events_of a s) e)"
    using assms(3) by (auto simp: recoverable_def)
  with assms(2) recover_effect[OF assms(1), of now] show ?thesis
    by (auto simp: check_recover_eq Let_def split: if_splits)
qed

definition down_event :: event where
  "down_event = \<lparr>ev_pk = 1, ev_event_id = ''E1'', ev_source_pk = 1, ev_source_id = ''src'',
     ev_source_name = ''src'', ev_level = ''1'', ev_title = ''cpu'', ev_external_id = Some ''x'',
     ev_action = EA_CREATED, ev_start_time = Some 5, ev_end_time = None, ev_received_at = 6,
     ev_item = Some ''cpu'', ev_resource_id = None, ev_resource_type = None, ev_resource_name = Some ''h1'',
     ev_labels = JObj [], ev_enrichment = [], ev_status = E_RECEIVED, ev_description = None,
     ev_service = None, ev_location = None, ev_push_source_id = ''default'', ev_event_type = 0,
     ev_rule_id = None, ev_tags = JObj [], ev_team = [],
     ev_ingest_key = None\<rparr>"

definition up_event :: event where
  "up_event = down_event\<lparr>ev_pk := 2, ev_event_id := ''E2'', ev_action := EA_RECOVERY, ev_start_time := Some 9\<rparr>"

definition linked_alert :: alert where
  "linked_alert = sample_alert\<lparr>al_events := [1, 2]\<rparr>"

definition recovery_db :: "alert \<Rightarrow> db" where
  "recovery_db a = sample_db\<lparr>db_alerts := [a], db_events := [down_event, up_event]\<rparr>"

theorem recovery_check_witness:
  "fst (check_and_recover_alert 10 linked_alert (recovery_db linked_alert)) \<and>
   answered (events_of linked_alert (recovery_db linked_alert)) down_event"
proof -
  have a: "alert_by_pk (al_pk linked_alert) (recovery_db linked_alert) = Some linked_alert"
    by (simp add: recovery_db_def tfind_def)
  have e: "down_event \<in> set (events_of linked_alert (recovery_db linked_alert))" "ev_action down_event = EA_CREATED"
    by (simp_all add: events_of_def recovery_db_def linked_alert_def down_event_def)
  then have c1: "\<exists>e \<in> set (events_of linked_alert (recovery_db linked_alert)). ev_action e = EA_CREATED" by blast
  obtain b t where c: "check_and_recover_alert 10 linked_alert (recovery_db linked_alert) = (b, t)" by fastforce
  have "fst (check_and_recover_alert 10 linked_alert (recovery_db linked_alert))" by code_simp
  with recovery_check_correct[OF a c c1] c e show ?thesis by simp
qed

text \<open>Linking a batch of recovery events only appends events of the batch to the event
  lists of alerts that were active and contain a matching created event; every other column
  of every alert, all reminders and all escalation tasks stay as they are.\<close>

theorem recovery_linking_confined:
  assumes "wf_db s" "handle_recovery_events res s = (touched, t)"
  shows "wf_db t \<and> db_reminders t = db_reminders s \<and> db_escalations t = db_escalations s \<and>
    (\<forall>k. \<exists>xs. set xs \<subseteq> ev_pk ` set res \<and>
       alert_by_pk k t = map_option (\<lambda>a. a\<lparr>al_events := al_events a @ xs\<rparr>) (alert_by_pk k s) \<and>
       (xs \<noteq> [] \<longrightarrow> (\<exists>a \<in> set (db_alerts s). al_pk a = k \<and> al_status a \<in> set ACTIVATE_STATUS \<and>
          (\<exists>e \<in> set (events_of a s). ev_action e = EA_CREATED))))"
proof -
  have a: "\<exists>a \<in> set (db_alerts s). al_pk a = k \<and> al_status a \<in> set ACTIVATE_STATUS \<and>
      (\<exists>e \<in> set (events_of a s). ev_action e = EA_CREATED)" if "k \<in> al_pk ` set (affected_alerts res s)" for k
    using that by (auto simp: affected_alerts_def candidate_event_def list_ex_iff)
  note l = handle_recovery_linked[OF assms(2), unfolded linked_def]
  have "\<exists>xs. set xs \<subseteq> ev_pk ` set res \<and>
       alert_by_pk k t = map_option (\<lambda>a. a\<lparr>al_events := al_events a @ xs\<rparr>) (alert_by_pk k s) \<and>
       (xs \<noteq> [] \<longrightarrow> (\<exists>a \<in> set (db_alerts s). al_pk a = k \<and> al_status a \<in> set ACTIVATE_STATUS \<and>
          (\<exists>e \<in> set (events_of a s). ev_action e = EA_CREATED)))" for k
  proof -
    from l obtain xs where "set xs \<subseteq> ev_pk ` set res" "xs \<noteq> [] \<longrightarrow> k \<in> al_pk ` set (affected_alerts res s)"
      "alert_by_pk k t = map_option (\<lambda>a. a\<lparr>al_events := al_events a @ xs\<rparr>) (alert_by_pk k s)" by blast
    with a[of k] show ?thesis by blast
  qed
  with l assms(1) show ?thesis by blast
qed

theorem recovery_linking_witness:
  "wf_db (snd (handle_recovery_events [up_event] (recovery_db (sample_alert\<lparr>al_events := [1]\<rparr>)))) \<and>
   map_option al_events (alert_by_pk 1 (snd (handle_recovery_events [up_event]
     (recovery_db (sample_alert\<lparr>al_events := [1]\<rparr>))))) = Some [1, 2]"
proof -
  let ?s = "recovery_db (sample_alert\<lparr>al_events := [1]\<rparr>)"
  have w: "wf_db ?s" by (simp add: recovery_db_def sample_defs wf_db_def keyed_def)
  obtain touched t where h: "handle_recovery_events [up_event] ?s = (touched, t)" by fastforce
  have "map_option al_events (alert_by_pk 1 (snd (handle_recovery_events [up_event] ?s))) = Some [1, 2]"
    by code_simp
  with recovery_linking_confined[OF w h] h show ?thesis by simp
qed

lemma session_timeouts_effect:
  assumes "wf_db s" "check_session_timeouts now s = (n, t)"
  shows "db_alerts t = tupdate (\<lambda>a. is_observing a \<and> session_expired now a)
      (\<lambda>a. a\<lparr>al_session_status := Some S_CONFIRMED, al_updated_at := now\<rparr>) (db_alerts s) \<and>
    n = length (filter (\<lambda>a. is_observing a \<and> session_expired now a) (db_alerts s)) \<and>
    db_outbox t = db_outbox s @ map (\<lambda>a. AutoAssign [al_alert_id a])
      (filter (\<lambda>a. is_observing a \<and> session_expired now a) (db_alerts s))"
proof -
  let ?p = "\<lambda>a. is_observing a \<and> session_expired now a"
  let ?f = "\<lambda>a. a\<lparr>al_session_status := Some S_CONFIRMED, al_updated_at := now\<rparr>"
  have p: "filter (session_expired now) (filter (\<lambda>a. is_observing a \<and> al_session_end_time a \<noteq> None) (db_alerts s)) =
      filter ?p (db_alerts s)"
    by (auto simp: session_expired_def intro!: filter_cong split: option.splits)
  have f: "db_alerts (fold (confirm_session_alert now) as u) = fold (\<lambda>a. tsave al_pk (?f a)) as (db_alerts u)"
    "db_outbox (fold (confirm_session_alert now) as u) = db_outbox u @ map (\<lambda>a. AutoAssign [al_alert_id a]) as" for as u
    by (induction as arbitrary: u) (simp_all add: confirm_session_alert_def)
  have "fold (\<lambda>a. tsave al_pk (?f a)) (filter ?p (db_alerts s)) (db_alerts s) = tupdate ?p ?f (db_alerts s)"
    by (rule fold_tsave_filter) (use assms(1) in \<open>simp_all add: wf_db_def\<close>)
  then show ?thesis using assms(2) p f by (auto simp: check_session_timeouts_def Let_def)
qed

text \<open>The session timeout job confirms exactly the observed active session alerts whose
  window is over, leaves all other alerts unchanged, counts them, and queues one automatic
  assignment per confirmed alert.\<close>

theorem session_timeouts_correct:
  assumes "wf_db s" "check_session_timeouts now s = (n, t)"
  shows "db_alerts t = map (\<lambda>a. if is_observing a \<and> session_expired now a
      then a\<lparr>al_session_status := Some S_CONFIRMED, al_updated_at := now\<rparr> else a) (db_alerts s) \<and>
    n = length (filter (\<lambda>a. is_observing a \<and> session_expired now a) (db_alerts s)) \<and>
    db_outbox t = db_outbox s @ map (\<lambda>a. AutoAssign [al_alert_id a])
      (filter (\<lambda>a. is_observing a \<and> session_expired now a) (db_alerts s))"
  using session_timeouts_effect[OF assms] by (simp add: tupdate_def)

theorem session_timeouts_witness:
  "map al_session_status (db_alerts (snd (check_session_timeouts 50
     (recovery_db (sample_alert\<lparr>al_is_session_alert := True, al_session_status := Some S_OBSERVING,
        al_session_end_time := Some 40\<rparr>))))) = [Some S_CONFIRMED]"
proof -
  let ?a = "sample_alert\<lparr>al_is_session_alert := True, al_session_status := Some S_OBSERVING, al_session_end_time := Some 40\<rparr>"
  have w: "wf_db (recovery_db ?a)" by (simp add: recovery_db_def sample_defs wf_db_def keyed_def)
  obtain n t where h: "check_session_timeouts 50 (recovery_db ?a) = (n, t)" by fastforce
  from session_timeouts_correct[OF w h] h show ?thesis
    by (simp add: recovery_db_def is_observing_def session_expired_def ACTIVATE_STATUS_def sample_alert_def)
qed

section \<open>The check after the commit\<close>

text \<open>The recovery check does not look at the status. An alert that was closed between the
  linking and the callback is reopened as recovered by the callback.\<close>

lemma recovery_overwrites_closed:
  "map_option al_status (alert_by_pk 1 (run_recovery_checks 10 [1]
     (recovery_db (linked_alert\<lparr>al_status := A_CLOSED\<rparr>)))) = Some A_AUTO_RECOVERY"
  by code_simp

text \<open>Without a created event a single recovery event is enough.\<close>

lemma recovery_without_created: "recoverable [up_event]"
  by code_simp

end
