(* ===== verification/Aggregation.thy ===== *)
theory Aggregation
  imports "HOL-Library.Multiset" Heartbeat Recovery
begin

text \<open>
  The periodic aggregation: \<open>aggregation/processor/aggregation_processor.py\<close> (without the detection of
  missing heartbeats, see \<open>Heartbeat\<close>), the dimensions of \<open>serializers/strategy.py\<close>, the query of
  \<open>aggregation/templates\<close> that \<open>aggregation/query/builder.py\<close> renders and \<open>aggregation/engine/connection.py\<close>
  runs, and the task \<open>event_aggregation_alert\<close> of \<open>tasks/tasks.py\<close>.

  Parameters, beside those of \<open>Heartbeat\<close>: \<open>TRY_CAST\<close> of DuckDB, the order in which DuckDB returns the
  groups of a query and the distinct texts of \<open>STRING_AGG\<close> (both are unspecified), the configured
  alert levels (as the class caches them and as they are in the table).
\<close>

record agg_env =
  ae_hb :: hb_env
  ae_cast :: "string \<Rightarrow> int option"
  ae_group_order :: "string option list \<Rightarrow> string option list"
  ae_text_order :: "string list \<Rightarrow> string list"
  ae_levels :: "int list"
  ae_alert_levels :: "int list"

section \<open>Dimensions\<close>

definition ALLOWED_DIMENSIONS :: "string list" where
  "ALLOWED_DIMENSIONS =
     [''event_id'', ''service'', ''location'', ''resource_name'', ''item'', ''external_id'', ''source_id'',
      ''level'', ''title'', ''description'', ''resource_id'', ''resource_type'']"

text \<open>The pattern of dimension names; \<open>$\<close> also matches before a final line break, which the
  preceding \<open>strip\<close> excludes.\<close>

definition DIMENSION_NAME_PATTERN :: "string \<Rightarrow> bool" where
  "DIMENSION_NAME_PATTERN s \<longleftrightarrow>
     (case s of
        [] \<Rightarrow> False
      | c # cs \<Rightarrow> is_word c \<and> \<not> (48 \<le> (of_char c :: nat) \<and> (of_char c :: nat) \<le> 57) \<and>
                   list_all is_word cs \<and> length cs \<le> 63)"

fun valid_dimensions :: "json list \<Rightarrow> string list" where
  "valid_dimensions [] = []"
| "valid_dimensions (JStr s # ds) =
     (let d = strip s in
      if \<not> DIMENSION_NAME_PATTERN d then valid_dimensions ds
      else if d \<notin> set ALLOWED_DIMENSIONS then valid_dimensions ds
      else d # valid_dimensions ds)"
| "valid_dimensions (_ # ds) = valid_dimensions ds"

definition validate_dimensions :: "json \<Rightarrow> string list res" where
  "validate_dimensions raw =
     (if \<not> truthy raw then Inr [''event_id'']
      else case py_iter raw of
        Inl e \<Rightarrow> Inl e
      | Inr ds \<Rightarrow> let v = valid_dimensions ds in Inr (if v = [] then [''event_id''] else v))"

section \<open>The query\<close>

text \<open>A row of the result.\<close>

record raw_result =
  rr_fingerprint :: "string option"
  rr_event_count :: int
  rr_first_event_time :: int
  rr_last_event_time :: int
  rr_alert_level :: "int option"
  rr_event_ids :: "string list"
  rr_alert_title :: "string option"
  rr_first_event_description :: "string option"
  rr_alert_description :: "string option"

text \<open>\<open>NULLIF(CAST(c AS VARCHAR), '')\<close> for a column of the table of events.\<close>

definition column_text :: "event \<Rightarrow> string \<Rightarrow> string option" where
  "column_text e d =
     (case map_of (event_columns e) d of
        Some (JStr s) \<Rightarrow> if s = [] then None else Some s
      | Some (JInt i) \<Rightarrow> Some (str_int i)
      | _ \<Rightarrow> None)"

fun join_with :: "string \<Rightarrow> string list \<Rightarrow> string" where
  "join_with sep [] = []"
| "join_with sep [x] = x"
| "join_with sep (x # y # ys) = x @ sep @ join_with sep (y # ys)"

text \<open>All dimensions present: their names and values; otherwise the external id.\<close>

definition effective_dimension :: "string list \<Rightarrow> event \<Rightarrow> string option" where
  "effective_dimension dims e =
     (if list_all (\<lambda>d. column_text e d \<noteq> None) dims
      then Some (join_with ''|'' (map (\<lambda>d. d @ ''='' @ the (column_text e d)) dims))
      else ev_external_id e)"

text \<open>Aggregate functions ignore \<open>NULL\<close>; a minimum of nothing is \<open>NULL\<close>.\<close>

definition min_of :: "int list \<Rightarrow> int option" where
  "min_of xs = (case xs of [] \<Rightarrow> None | x # ys \<Rightarrow> Some (fold min ys x))"

definition group_row :: "agg_env \<Rightarrow> int \<Rightarrow> string option \<Rightarrow> event list \<Rightarrow> raw_result" where
  "group_row E sid key es =
     \<lparr>rr_fingerprint = map_option (\<lambda>k. str_int sid @ ''|'' @ k) key,
      rr_event_count = int (length es),
      rr_first_event_time = (case map ev_received_at es of [] \<Rightarrow> 0 | x # xs \<Rightarrow> fold min xs x),
      rr_last_event_time = (case map ev_received_at es of [] \<Rightarrow> 0 | x # xs \<Rightarrow> fold max xs x),
      rr_alert_level = min_of (List.map_filter (ae_cast E) (map ev_level es)),
      rr_event_ids = map ev_event_id es,
      rr_alert_title = (case es of [] \<Rightarrow> None | e # _ \<Rightarrow> Some (ev_title e)),
      rr_first_event_description = (case es of [] \<Rightarrow> None | e # _ \<Rightarrow> ev_description e),
      rr_alert_description =
        (case remdups (List.map_filter ev_resource_name es) of
           [] \<Rightarrow> None
         | ns \<Rightarrow> Some (join_with '','' (ae_text_order E ns)))\<rparr>"

text \<open>The rows loaded: the default order of events is by \<open>received_at\<close>, latest first.\<close>

definition load_events_to_memory :: "event list \<Rightarrow> event list" where
  "load_events_to_memory es = sort_key (\<lambda>e. - ev_received_at e) es"

definition windowed :: "int \<Rightarrow> window_config \<Rightarrow> event list \<Rightarrow> event list" where
  "windowed now w es = filter (\<lambda>e. ev_received_at e \<ge> now - minutes (wc_size w) \<and> ev_action e = EA_CREATED) es"

definition execute_query ::
  "agg_env \<Rightarrow> int \<Rightarrow> window_config \<Rightarrow> int \<Rightarrow> string list \<Rightarrow> event list \<Rightarrow> raw_result list" where
  "execute_query E now w sid dims table =
     (let es = windowed now w table in
      map (\<lambda>k. group_row E sid k (filter (\<lambda>e. effective_dimension dims e = k) es))
        (ae_group_order E (remdups (map (effective_dimension dims) es))))"

section \<open>Fingerprints and titles\<close>

text \<open>The strategy id in front of the first bar is dropped.\<close>

definition raw_fingerprint :: "string \<Rightarrow> string" where
  "raw_fingerprint fp = (if CHR ''|'' \<in> set fp then tl (dropWhile (\<lambda>c. c \<noteq> CHR ''|'') fp) else fp)"

definition is_hex :: "char \<Rightarrow> bool" where
  "is_hex c \<longleftrightarrow> (let n = (of_char c :: nat) in
     48 \<le> n \<and> n \<le> 57 \<or> 65 \<le> n \<and> n \<le> 70 \<or> 97 \<le> n \<and> n \<le> 102)"

definition looks_like_md5 :: "string \<Rightarrow> bool" where
  "looks_like_md5 s \<longleftrightarrow> length s = 32 \<and> list_all is_hex s"

text \<open>The texts of the titles and of the description, in UTF-8.\<close>

definition critical_text :: string where
  "critical_text = '' '' @ [CHR 0xE5, CHR 0x8F, CHR 0x91, CHR 0xE7, CHR 0x94, CHR 0x9F, CHR 0xE4, CHR 0xB8, CHR 0xA5,
     CHR 0xE9, CHR 0x87, CHR 0x8D, CHR 0xE9, CHR 0x97, CHR 0xAE, CHR 0xE9, CHR 0xA2, CHR 0x98]"

definition normal_text :: string where
  "normal_text = '' '' @ [CHR 0xE6, CHR 0xA3, CHR 0x80, CHR 0xE6, CHR 0xB5, CHR 0x8B, CHR 0xE5, CHR 0x88, CHR 0xB0,
     CHR 0xE5, CHR 0xBC, CHR 0x82, CHR 0xE5, CHR 0xB8, CHR 0xB8]"

definition scope_text :: string where
  "scope_text = [CHR 0xE5, CHR 0xBD, CHR 0xB1, CHR 0xE5, CHR 0x93, CHR 0x8D, CHR 0xE8, CHR 0x8C, CHR 0x83,
     CHR 0xE5, CHR 0x9B, CHR 0xB4, CHR 0xEF, CHR 0xBC, CHR 0x9A]"

definition build_description :: "raw_result \<Rightarrow> string" where
  "build_description r =
     (let d = strip (str_or (rr_first_event_description r) []) in
      if rr_event_count r = 1 \<and> d \<noteq> [] then d
      else scope_text @ (case rr_alert_description r of None \<Rightarrow> ''None'' | Some t \<Rightarrow> t))"

definition titled :: "string \<Rightarrow> string \<Rightarrow> raw_result \<Rightarrow> raw_result" where
  "titled raw txt r =
     (if looks_like_md5 raw then r
      else r\<lparr>rr_alert_title := Some (raw @ txt), rr_alert_description := Some (build_description r)\<rparr>)"

definition normalize_fingerprint :: "agg_env \<Rightarrow> raw_result \<Rightarrow> raw_result" where
  "normalize_fingerprint E r =
     (case rr_fingerprint r of
        None \<Rightarrow> r
      | Some fp \<Rightarrow>
          if fp = [] then r
          else
            let raw = raw_fingerprint fp;
                levels = sort (map str_int (ae_alert_levels E));
                level = (case rr_alert_level r of None \<Rightarrow> ''None'' | Some l \<Rightarrow> str_int l);
                r1 = r\<lparr>rr_fingerprint := Some (hb_md5 (ae_hb E) raw)\<rparr>
            in (case levels of
                  [] \<Rightarrow> r1
                | critical # others \<Rightarrow>
                    let r2 = (if level = critical then titled raw critical_text r1 else r1)
                    in if level \<in> set others then titled raw normal_text r2 else r2))"

section \<open>Alerts of a strategy\<close>

type_synonym builder = "event_cache \<times> db"

definition to_result :: "string \<Rightarrow> raw_result \<Rightarrow> agg_result" where
  "to_result fp r =
     \<lparr>ag_fingerprint = fp, ag_event_ids = rr_event_ids r,
      ag_alert_level = (case rr_alert_level r of None \<Rightarrow> JNull | Some l \<Rightarrow> JInt l),
      ag_alert_title = rr_alert_title r, ag_alert_description = rr_alert_description r,
      ag_first_event_time = Some (rr_first_event_time r), ag_last_event_time = Some (rr_last_event_time r)\<rparr>"

definition is_existing_alert :: "string \<Rightarrow> db \<Rightarrow> bool" where
  "is_existing_alert fp s \<longleftrightarrow> active_with fp s \<noteq> []"

text \<open>One result, in its transaction: the ids to be assigned and whether the alert recovered. The
  column \<open>fingerprint\<close> is not null.\<close>

definition build_result ::
  "agg_env \<Rightarrow> int \<Rightarrow> string \<Rightarrow> strategy \<Rightarrow> string list \<Rightarrow> raw_result \<Rightarrow> builder \<Rightarrow> (string list \<times> bool) res \<times> builder" where
  "build_result E now uid g dims r0 st =
     (let r = normalize_fingerprint E r0 in
      case rr_fingerprint r of
        None \<Rightarrow> (Inl IntegrityError, st)
      | Some fp \<Rightarrow>
          let is_new = \<not> is_existing_alert fp (snd st) in
          (case create_or_update_alert (ae_levels E) (hb_mem (ae_hb E)) now uid (to_result fp r) g (join_with '','' dims) st of
             (Inl e, cache, _) \<Rightarrow> (Inl e, cache, snd st)
           | (Inr a, cache, t) \<Rightarrow>
               let delayed = al_is_session_alert a \<and> al_session_status a = Some S_OBSERVING;
                   (recovered, u) = check_and_recover_alert now a t
               in (Inr (if is_new \<and> \<not> delayed then [al_alert_id a] else [], recovered), cache, u)))"

record agg_counts =
  ac_success :: nat
  ac_fail :: nat
  ac_recovered :: nat
  ac_new :: "string list"

text \<open>The loop over the results; \<open>i\<close> numbers the UUIDs drawn.\<close>

fun build_results ::
  "agg_env \<Rightarrow> int \<Rightarrow> (nat \<Rightarrow> string) \<Rightarrow> strategy \<Rightarrow> string list \<Rightarrow> nat \<Rightarrow> raw_result list \<Rightarrow> agg_counts \<times> builder
   \<Rightarrow> agg_counts \<times> builder" where
  "build_results E now uids g dims i [] acc = acc"
| "build_results E now uids g dims i (r # rs) (c, st) =
     (case build_result E now (uids i) g dims r st of
        (Inl e, st') \<Rightarrow> build_results E now uids g dims (Suc i) rs (c\<lparr>ac_fail := ac_fail c + 1\<rparr>, st')
      | (Inr (ids, recovered), st') \<Rightarrow>
          build_results E now uids g dims (Suc i) rs
            (c\<lparr>ac_success := ac_success c + 1, ac_recovered := ac_recovered c + (if recovered then 1 else 0),
               ac_new := ac_new c @ ids\<rparr>, st'))"

definition create_or_update_alerts ::
  "agg_env \<Rightarrow> int \<Rightarrow> (nat \<Rightarrow> string) \<Rightarrow> strategy \<Rightarrow> string list \<Rightarrow> raw_result list \<Rightarrow> builder \<Rightarrow> nat \<times> builder" where
  "create_or_update_alerts E now uids g dims rs st =
     (let (c, cache, s) = build_results E now uids g dims 0 rs
            (\<lparr>ac_success = 0, ac_fail = 0, ac_recovered = 0, ac_new = []\<rparr>, st)
      in (ac_success c, cache, if ac_new c = [] then s else emit (AutoAssign (ac_new c)) s))"

definition mark_strategy_executed :: "strategy \<Rightarrow> int \<Rightarrow> db \<Rightarrow> db" where
  "mark_strategy_executed g now s =
     s\<lparr>db_strategies := tupdate (\<lambda>r. sg_id r = sg_id g)
        (\<lambda>r. r\<lparr>sg_last_execute_time := Some now, sg_updated_at := now\<rparr>) (db_strategies s)\<rparr>"

section \<open>One strategy\<close>

definition get_events_for_strategy :: "strategy \<Rightarrow> int \<Rightarrow> db \<Rightarrow> event list res" where
  "get_events_for_strategy g now s =
     (case jget (py_or (sg_params g) (JObj [])) ''window_size'' JNull of
        Inl e \<Rightarrow> Inl e
      | Inr raw \<Rightarrow>
        (case parse_aggregation_window_size DEFAULT_WINDOW_SIZE True raw of
           Inl e \<Rightarrow> Inl e
         | Inr (n, _) \<Rightarrow>
             Inr (filter (\<lambda>e. ev_received_at e \<ge> now - minutes n \<and> ev_action e = EA_CREATED \<and> ev_status e \<noteq> E_SHIELD)
                   (db_events s))))"

definition aggregate_for_dimensions ::
  "agg_env \<Rightarrow> int \<Rightarrow> (nat \<Rightarrow> string) \<Rightarrow> strategy \<Rightarrow> event list \<Rightarrow> string list \<Rightarrow> builder \<Rightarrow> bool \<times> builder" where
  "aggregate_for_dimensions E now uids g events dims st =
     (case st of (cache, s) \<Rightarrow>
        if events = [] then (False, cache, mark_strategy_executed g now s)
        else case create_from_strategy g of
          Inl e \<Rightarrow> (False, st)
        | Inr w \<Rightarrow>
          (case (if wc_session w then get_session_end_time now w else Inr now) of
             Inl e \<Rightarrow> (False, st)
           | Inr _ \<Rightarrow>
               let results = execute_query E now w (sg_id g) dims (load_events_to_memory events) in
               if results = [] then (False, cache, mark_strategy_executed g now s)
               else
                 let (n, cache', t) = create_or_update_alerts E now uids g dims results st
                 in (True, cache', if n > 0 then mark_strategy_executed g now t else t)))"

definition process_aggregated_strategy :: "agg_env \<Rightarrow> int \<Rightarrow> (nat \<Rightarrow> string) \<Rightarrow> strategy \<Rightarrow> builder \<Rightarrow> builder" where
  "process_aggregated_strategy E now uids g st =
     (case st of (cache, s) \<Rightarrow>
        (case get_events_for_strategy g now s of
           Inl e \<Rightarrow> st
         | Inr events \<Rightarrow>
             if events = [] then (cache, mark_strategy_executed g now s)
             else
               let matched = match_events_to_strategy (hb_db (ae_hb E)) events (sg_match_rules g) in
               if matched = [] then (cache, mark_strategy_executed g now s)
               else
                 (case jget (py_or (sg_params g) (JObj [])) ''group_by'' (JList []) of
                    Inl e \<Rightarrow> st
                  | Inr group_by \<Rightarrow>
                    (case validate_dimensions (py_or group_by (JList [JStr ''event_id''])) of
                       Inl e \<Rightarrow> st
                     | Inr dims \<Rightarrow> snd (aggregate_for_dimensions E now uids g matched dims st)))))"

definition process_strategy :: "agg_env \<Rightarrow> int \<Rightarrow> (nat \<Rightarrow> string) \<Rightarrow> strategy \<Rightarrow> builder \<Rightarrow> unit res \<times> builder" where
  "process_strategy E now uids g st =
     (if sg_type g = ST_MISSING_DETECTION then
        (case process_missing_detection_strategy (ae_hb E) (sg_id g) now (uids 0) (snd st) of
           (r, t) \<Rightarrow> (r, fst st, t))
      else (Inr (), process_aggregated_strategy E now uids g st))"

section \<open>The job\<close>

definition get_active_strategies :: "db \<Rightarrow> strategy list" where
  "get_active_strategies s =
     sort_key (\<lambda>g. - sg_updated_at g) (filter (\<lambda>g. sg_is_active g \<and> sg_type g \<noteq> ST_INSTANT) (db_strategies s))"

fun process_strategies ::
  "agg_env \<Rightarrow> int \<Rightarrow> (int \<Rightarrow> nat \<Rightarrow> string) \<Rightarrow> strategy list \<Rightarrow> builder \<Rightarrow> unit res \<times> builder" where
  "process_strategies E now uids [] st = (Inr (), st)"
| "process_strategies E now uids (g # gs) st =
     (case process_strategy E now (uids (sg_id g)) g st of
        (Inl e, st') \<Rightarrow> (Inl e, st')
      | (Inr _, st') \<Rightarrow> process_strategies E now uids gs st')"

text \<open>The cache of the builder is empty before and after the job.\<close>

definition process_aggregation :: "agg_env \<Rightarrow> int \<Rightarrow> (int \<Rightarrow> nat \<Rightarrow> string) \<Rightarrow> db \<Rightarrow> unit res \<times> db" where
  "process_aggregation E now uids s =
     (case process_strategies E now uids (get_active_strategies s) ([], s) of (r, _, t) \<Rightarrow> (r, t))"

text \<open>The periodic task; \<open>locked\<close> says that the previous run still holds the lock.\<close>

definition event_aggregation_alert :: "agg_env \<Rightarrow> int \<Rightarrow> (int \<Rightarrow> nat \<Rightarrow> string) \<Rightarrow> bool \<Rightarrow> db \<Rightarrow> db" where
  "event_aggregation_alert E now uids locked s =
     (if locked then s else snd (check_session_timeouts now (snd (process_aggregation E now uids s))))"

section \<open>Building one result\<close>

lemma recover_frame [simp]: "db_events (snd (check_and_recover_alert now a s)) = db_events s"
  by (simp add: check_recover_eq Let_def stop_reminder_task_def)

lemma filter_tsave_out:
  "\<not> P b \<Longrightarrow> filter P (tsave key b t) = filter (\<lambda>x. P x \<and> key x \<noteq> key b) t"
proof -
  assume "\<not> P b"
  then have "filter P (map (\<lambda>x. if key x = key b then b else x) xs) = filter (\<lambda>x. P x \<and> key x \<noteq> key b) xs" for xs
    by (induction xs) auto
  moreover have "filter P t = filter (\<lambda>x. P x \<and> key x \<noteq> key b) t" if "key b \<notin> key ` set t"
    using that by (intro filter_cong) (auto simp: image_iff)
  ultimately show ?thesis using \<open>\<not> P b\<close> by (simp add: tsave_def)
qed

lemma recover_active_unique: "active_unique s \<Longrightarrow> active_unique (snd (check_and_recover_alert now a s))"
proof (cases "recoverable (events_of a s)")
  case True
  assume u: "active_unique s"
  obtain b where b: "db_alerts (snd (check_and_recover_alert now a s)) = tsave al_pk b (db_alerts s)"
    "al_status b = A_AUTO_RECOVERY"
    using True by (simp add: check_recover_eq Let_def save_alert_def)
  have "\<not> al_status b \<in> set ACTIVATE_STATUS" using b(2) by (simp add: ACTIVATE_STATUS_def)
  from filter_tsave_out[of "\<lambda>a. al_status a \<in> set ACTIVATE_STATUS", OF this, of al_pk "db_alerts s"]
  have "filter (\<lambda>a. al_status a \<in> set ACTIVATE_STATUS) (tsave al_pk b (db_alerts s)) =
      filter (\<lambda>x. al_pk x \<noteq> al_pk b) (filter (\<lambda>a. al_status a \<in> set ACTIVATE_STATUS) (db_alerts s))"
    by (simp add: conj_commute)
  with u show ?thesis by (simp add: active_unique_def b(1) distinct_map_filter del: filter_filter)
qed (simp add: check_recover_eq)

text \<open>The events of the alerts of a fingerprint.\<close>

definition linked_to :: "string \<Rightarrow> event \<Rightarrow> db \<Rightarrow> bool" where
  "linked_to fp e s \<longleftrightarrow> (\<exists>a \<in> set (db_alerts s). al_fingerprint a = fp \<and> ev_pk e \<in> set (al_events a))"

definition agg_inv :: "builder \<Rightarrow> bool" where
  "agg_inv st \<longleftrightarrow> (case st of (cache, s) \<Rightarrow>
     wf_db s \<and> keyed ev_event_id (db_events s) \<and> cache_ok cache s \<and> active_unique s)"

text \<open>A step of the builder: the invariant and links are kept, the events do not change, and only the
  given alert id can be new.\<close>

definition agg_step :: "string set \<Rightarrow> builder \<Rightarrow> builder \<Rightarrow> bool" where
  "agg_step ids st st' \<longleftrightarrow> (agg_inv st \<longrightarrow> agg_inv st' \<and> db_events (snd st') = db_events (snd st) \<and>
     (\<forall>fp e. linked_to fp e (snd st) \<longrightarrow> linked_to fp e (snd st')) \<and>
     al_alert_id ` set (db_alerts (snd st')) \<subseteq> ids \<union> al_alert_id ` set (db_alerts (snd st)))"

lemma agg_step_refl [simp]: "agg_step ids st st"
  by (simp add: agg_step_def)

lemma agg_stepD:
  "agg_step ids st st' \<Longrightarrow> agg_inv st \<Longrightarrow> agg_inv st'"
  "agg_step ids st st' \<Longrightarrow> agg_inv st \<Longrightarrow> db_events (snd st') = db_events (snd st)"
  "agg_step ids st st' \<Longrightarrow> agg_inv st \<Longrightarrow> linked_to fp e (snd st) \<Longrightarrow> linked_to fp e (snd st')"
  "agg_step ids st st' \<Longrightarrow> agg_inv st \<Longrightarrow>
     al_alert_id ` set (db_alerts (snd st')) \<subseteq> ids \<union> al_alert_id ` set (db_alerts (snd st))"
  by (simp_all add: agg_step_def)

lemma agg_step_trans:
  assumes "agg_step ids st st'" "agg_step ids' st' st''"
  shows "agg_step (ids \<union> ids') st st''"
proof -
  have u: "C \<subseteq> (X \<union> Y) \<union> B" if "A \<subseteq> X \<union> B" "C \<subseteq> Y \<union> A" for A B C X Y :: "string set"
    using that by blast
  have "al_alert_id ` set (db_alerts (snd st'')) \<subseteq> (ids \<union> ids') \<union> al_alert_id ` set (db_alerts (snd st))"
    if i: "agg_inv st"
    using u[OF agg_stepD(4)[OF assms(1) i] agg_stepD(4)[OF assms(2) agg_stepD(1)[OF assms(1) i]]] .
  then show ?thesis
    using agg_stepD(1-3)[OF assms(1)] agg_stepD(1-3)[OF assms(2)] unfolding agg_step_def by simp
qed

text \<open>A step that leaves the alerts and the events as they are.\<close>

lemma agg_step_frame:
  assumes "db_alerts t = db_alerts s" "db_events t = db_events s" "wf_db s \<Longrightarrow> wf_db t"
  shows "agg_step ids (cache, s) (cache, t)"
proof -
  have "cache_ok cache t \<longleftrightarrow> cache_ok cache s" by (simp add: cache_ok_def assms(1,2))
  then show ?thesis using assms by (auto simp: agg_step_def agg_inv_def linked_to_def active_unique_def)
qed

lemma recover_step:
  assumes "alert_by_pk (al_pk a) s = Some a"
  shows "agg_step ids (cache, s) (cache, snd (check_and_recover_alert now a s))"
proof (cases "recoverable (events_of a s)")
  case True
  let ?t = "snd (check_and_recover_alert now a s)"
  define b where "b = a\<lparr>al_status := A_AUTO_RECOVERY,
                     al_session_status := (if al_is_session_alert a \<and> al_session_status a = Some S_OBSERVING
                                           then Some S_RECOVERED else al_session_status a),
                     al_updated_at := now\<rparr>"
  have b: "al_pk b = al_pk a" "al_events b = al_events a" "al_fingerprint b = al_fingerprint a"
    "al_alert_id b = al_alert_id a" by (simp_all add: b_def)
  have al: "db_alerts ?t = tsave al_pk b (db_alerts s)"
    using True by (simp add: check_recover_eq b_def Let_def save_alert_def)
  have in_s: "a \<in> set (db_alerts s)" using tfind_in[OF assms] .
  show ?thesis unfolding agg_step_def
  proof (intro impI conjI)
    assume inv: "agg_inv (cache, s)"
    then have wf: "wf_db s" and k: "keyed al_pk (db_alerts s)" by (simp_all add: agg_inv_def wf_db_def)
    have al': "db_alerts ?t = map (\<lambda>x. if al_pk x = al_pk a then b else x) (db_alerts s)"
      using al in_s b(1) by (auto simp: tsave_def)
    have same: "x = a" if "x \<in> set (db_alerts s)" "al_pk x = al_pk a" for x
      using keyed_inj[OF k that(1) in_s that(2)] .
    have o: "only (al_pk a) s ?t" using recover_effect[OF assms True, of now] by blast
    have row: "alert_by_pk j ?t = (if j = al_pk a then Some b else alert_by_pk j s)" for j
      by (simp add: al tfind_tsave b(1))
    have "cache_ok cache ?t"
      using inv onlyD(5)[OF o] assms b(2) unfolding cache_ok_def agg_inv_def
      by (simp add: row)
    then show "agg_inv (cache, ?t)"
      using inv onlyD(1)[OF o wf] recover_active_unique[of s now a] by (simp add: agg_inv_def)
    show "db_events (snd (cache, ?t)) = db_events (snd (cache, s))" by simp
    show "\<forall>fp e. linked_to fp e (snd (cache, s)) \<longrightarrow> linked_to fp e (snd (cache, ?t))"
      using same b(2,3) in_s unfolding linked_to_def by (fastforce simp: al')
    show "al_alert_id ` set (db_alerts (snd (cache, ?t))) \<subseteq> ids \<union> al_alert_id ` set (db_alerts (snd (cache, s)))"
      using same b(4) by (auto simp: al')
  qed
next
  case False
  then show ?thesis by (simp add: check_recover_eq)
qed

lemma create_or_update_ids:
  assumes "create_or_update_alert levels env now uid r g field (cache, s) = (x, cache', t)"
  shows "al_alert_id ` set (db_alerts t) \<subseteq> {''ALERT-'' @ uid} \<union> al_alert_id ` set (db_alerts s)"
proof (cases "sort_key (\<lambda>a. - al_updated_at a) (active_with (ag_fingerprint r) s)")
  case Nil
  have "db_alerts t = db_alerts s \<or> (\<exists>a. db_alerts t = tsave al_pk a (db_alerts s) \<and> al_alert_id a = ''ALERT-'' @ uid)"
    using assms Nil
    by (auto simp: create_or_update_alert_def create_new_alert_def Let_def save_alert_def split: sum.splits if_splits)
  then show ?thesis by (auto simp: tsave_def split: if_splits)
next
  case (Cons a as)
  then have a: "a \<in> set (active_with (ag_fingerprint r) s)" by (metis list.set_intros(1) set_sort)
  have "update_existing_alert levels env now a r g (cache, s) = (x, cache', t)"
    using assms Cons by (simp add: create_or_update_alert_def)
  from update_existing_effect[OF this] have "t = s \<or> (\<exists>b. t = save_alert b s \<and> al_alert_id b = al_alert_id a)"
    by auto
  then show ?thesis using active_withD[OF a] by (auto simp: save_alert_def tsave_def split: if_splits)
qed

lemma create_or_update_total:
  assumes "create_from_strategy g = Inr w" "get_session_end_time now w = Inr x"
    and "''ALERT-'' @ uid \<notin> al_alert_id ` set (db_alerts s)"
  shows "\<exists>a st'. create_or_update_alert levels env now uid r g field (cache, s) = (Inr a, st')"
proof (cases "sort_key (\<lambda>a. - al_updated_at a) (active_with (ag_fingerprint r) s)")
  case Nil
  then show ?thesis using assms by (auto simp: create_or_update_alert_def create_new_alert_def Let_def)
next
  case (Cons a as)
  obtain to where "jget (py_or (sg_params g) (JObj [])) ''time_out'' (JBool False) = Inr to"
    using assms(1) by (auto simp: create_from_strategy_def Let_def split: sum.splits)
  then have "\<exists>y. extended_end now a g = Inr y" using assms(1,2) by (auto simp: extended_end_def)
  then show ?thesis
    using Cons by (auto simp: create_or_update_alert_def update_existing_alert_def Let_def split: prod.splits)
qed

lemma build_events_frame:
  "create_or_update_alert levels env now uid r g field (cache, s) = (x, cache', t) \<Longrightarrow> db_events t = db_events s"
  by (drule build_effect) (auto simp: created_def)

lemma create_or_update_step:
  assumes "create_or_update_alert levels env now uid r g field (cache, s) = (Inr a, cache', t)"
  shows "agg_step {''ALERT-'' @ uid} (cache, s) (cache', t)"
  unfolding agg_step_def
proof (intro impI conjI)
  assume inv: "agg_inv (cache, s)"
  then have wf: "wf_db s" "keyed ev_event_id (db_events s)" "cache_ok cache s" "active_unique s"
    by (simp_all add: agg_inv_def)
  note c = build_alert_spec[OF wf(1-3) assms]
  have u: "wf_db t" "active_unique t" using building_keeps_unique[OF wf(1,4) assms] by simp_all
  show "agg_inv (cache', t)" using c u wf(2) build_events_frame[OF assms] by (simp add: agg_inv_def)
  show "db_events (snd (cache', t)) = db_events (snd (cache, s))" using build_events_frame[OF assms] by simp
  show "al_alert_id ` set (db_alerts (snd (cache', t))) \<subseteq> {''ALERT-'' @ uid} \<union> al_alert_id ` set (db_alerts (snd (cache, s)))"
    using create_or_update_ids[OF assms] by simp
  have "linked_to fp e t" if "linked_to fp e s" for fp e
  proof -
    from that obtain d where d: "d \<in> set (db_alerts s)" "al_fingerprint d = fp" "ev_pk e \<in> set (al_events d)"
      by (auto simp: linked_to_def)
    have row: "alert_by_pk (al_pk d) s = Some d" using wf(1) d(1) by (simp add: wf_db_def tfind_iff)
    show ?thesis
    proof (cases "al_pk d = al_pk a")
      case True
      then have "active_with (ag_fingerprint r) s \<noteq> []" using c row by (auto split: if_splits)
      then obtain b where b: "b \<in> set (active_with (ag_fingerprint r) s)" "al_pk b = al_pk a"
        "set (al_events b) \<subseteq> set (al_events a)" using c by (auto split: if_splits)
      have "b = d" using keyed_inj[of al_pk "db_alerts s" b d] wf(1) d(1) b True active_withD[OF b(1)]
        by (simp add: wf_db_def)
      then have "al_fingerprint a = fp" "ev_pk e \<in> set (al_events a)" using b d c active_withD[OF b(1)] by auto
      moreover have "a \<in> set (db_alerts t)" using c tfind_in[of al_pk "al_pk a" "db_alerts t" a] by blast
      ultimately show ?thesis by (auto simp: linked_to_def)
    next
      case False
      then have "alert_by_pk (al_pk d) t = Some d" using c row by simp
      from tfind_in[OF this] d show ?thesis by (auto simp: linked_to_def)
    qed
  qed
  then show "\<forall>fp e. linked_to fp e (snd (cache, s)) \<longrightarrow> linked_to fp e (snd (cache', t))" by simp
qed

lemma build_result_step:
  assumes "build_result E now uid g dims r st = (x, st')"
  shows "agg_step {''ALERT-'' @ uid} st st'"
proof (cases st)
  case (Pair cache s)
  show ?thesis
  proof (cases x)
    case (Inl e)
    then have "st' = st"
      using assms Pair build_effect[of "ae_levels E" "hb_mem (ae_hb E)" now uid _ g "join_with '','' dims" cache s]
      by (fastforce simp: build_result_def Let_def split: option.splits prod.splits sum.splits)
    then show ?thesis by simp
  next
    case (Inr y)
    then obtain fp a cache' t where c: "create_or_update_alert (ae_levels E) (hb_mem (ae_hb E)) now uid
        (to_result fp (normalize_fingerprint E r)) g (join_with '','' dims) (cache, s) = (Inr a, cache', t)"
      "st' = (cache', snd (check_and_recover_alert now a t))"
      using assms Pair
      by (auto simp: build_result_def Let_def split: option.splits prod.splits sum.splits)
    show ?thesis unfolding agg_step_def
    proof (rule impI)
      assume inv: "agg_inv st"
      then have wf: "wf_db s" "keyed ev_event_id (db_events s)" "cache_ok cache s" by (simp_all add: agg_inv_def Pair)
      have row: "alert_by_pk (al_pk a) t = Some a" using build_alert_spec[OF wf c(1)] by blast
      have "agg_step ({''ALERT-'' @ uid} \<union> {}) st st'"
        unfolding Pair c(2) by (rule agg_step_trans[OF create_or_update_step[OF c(1)] recover_step[OF row]])
      then show "agg_inv st' \<and> db_events (snd st') = db_events (snd st) \<and>
        (\<forall>fp e. linked_to fp e (snd st) \<longrightarrow> linked_to fp e (snd st')) \<and>
        al_alert_id ` set (db_alerts (snd st')) \<subseteq> {''ALERT-'' @ uid} \<union> al_alert_id ` set (db_alerts (snd st))"
        using inv by (simp add: agg_step_def)
    qed
  qed
qed

text \<open>A result with a fingerprint is built when the UUID is fresh and the window of the strategy is
  valid, and its events are linked.\<close>

lemma recover_keeps_links:
  assumes "wf_db t" "alert_by_pk (al_pk a) t = Some a" "ev_pk e \<in> set (al_events a)"
  shows "linked_to (al_fingerprint a) e (snd (check_and_recover_alert now a t))"
proof (cases "recoverable (events_of a t)")
  case True
  obtain b where "db_alerts (snd (check_and_recover_alert now a t)) = tsave al_pk b (db_alerts t)"
    "al_fingerprint b = al_fingerprint a" "al_events b = al_events a"
    using True by (simp add: check_recover_eq Let_def save_alert_def)
  then show ?thesis using assms(3) by (force simp: linked_to_def tsave_def)
next
  case False
  then show ?thesis using tfind_in[OF assms(2)] assms(3) by (auto simp: check_recover_eq linked_to_def)
qed

lemma build_result_links:
  assumes "agg_inv (cache, s)" "create_from_strategy g = Inr w" "get_session_end_time now w = Inr x"
    and "''ALERT-'' @ uid \<notin> al_alert_id ` set (db_alerts s)"
    and "rr_fingerprint (normalize_fingerprint E r) = Some fp"
  shows "\<exists>y st'. build_result E now uid g dims r (cache, s) = (Inr y, st') \<and>
    (\<forall>e \<in> set (db_events s). ev_event_id e \<in> set (rr_event_ids (normalize_fingerprint E r)) \<longrightarrow> linked_to fp e (snd st'))"
proof -
  let ?r = "to_result fp (normalize_fingerprint E r)"
  obtain a cache' t where c: "create_or_update_alert (ae_levels E) (hb_mem (ae_hb E)) now uid ?r g
      (join_with '','' dims) (cache, s) = (Inr a, cache', t)"
    using create_or_update_total[OF assms(2-4)] by (metis prod.collapse)
  have wf: "wf_db s" "keyed ev_event_id (db_events s)" "cache_ok cache s" "active_unique s"
    using assms(1) by (simp_all add: agg_inv_def)
  note b = build_alert_spec[OF wf(1-3) c]
  have t: "wf_db t" using building_keeps_unique[OF wf(1,4) c] by simp
  have fp: "al_fingerprint a = fp" using b by (simp add: to_result_def)
  have "linked_to fp e (snd (check_and_recover_alert now a t))"
    if "e \<in> set (db_events s)" "ev_event_id e \<in> set (rr_event_ids (normalize_fingerprint E r))" for e
    using recover_keeps_links[OF t, of a e now] b that unfolding fp[symmetric] by (simp add: to_result_def)
  then show ?thesis using c assms(5) by (simp add: build_result_def Let_def case_prod_beta)
qed

section \<open>Building all results\<close>

definition drawn :: "(nat \<Rightarrow> string) \<Rightarrow> nat set \<Rightarrow> string set" where
  "drawn uids js = (\<lambda>j. ''ALERT-'' @ uids j) ` js"

lemma agg_step_mono: "agg_step ids st st' \<Longrightarrow> ids \<subseteq> ids' \<Longrightarrow> agg_step ids' st st'"
  unfolding agg_step_def by (meson Un_mono order.refl order.trans)

lemma build_results_step: "agg_step (drawn uids {i..}) st (snd (build_results E now uids g dims i rs (c, st)))"
proof (induction rs arbitrary: i c st)
  case (Cons r rs)
  obtain x st' where b: "build_result E now (uids i) g dims r st = (x, st')" by (metis surj_pair)
  have one: "agg_step {''ALERT-'' @ uids i} st st'" by (rule build_result_step[OF b])
  obtain c' where r: "build_results E now uids g dims i (r # rs) (c, st) = build_results E now uids g dims (Suc i) rs (c', st')"
    using b by (cases x) auto
  have "agg_step ({''ALERT-'' @ uids i} \<union> drawn uids {Suc i..}) st (snd (build_results E now uids g dims i (r # rs) (c, st)))"
    unfolding r by (rule agg_step_trans[OF one Cons.IH])
  moreover have "{''ALERT-'' @ uids i} \<union> drawn uids {Suc i..} \<subseteq> drawn uids {i..}" by (auto simp: drawn_def)
  ultimately show ?case by (rule agg_step_mono)
qed simp

lemma build_results_links:
  assumes "create_from_strategy g = Inr w" "get_session_end_time now w = Inr x" "inj uids"
  shows "agg_inv st \<Longrightarrow> drawn uids {i..} \<inter> al_alert_id ` set (db_alerts (snd st)) = {} \<Longrightarrow>
    r \<in> set rs \<Longrightarrow> rr_fingerprint (normalize_fingerprint E r) = Some fp \<Longrightarrow> e \<in> set (db_events (snd st)) \<Longrightarrow>
    ev_event_id e \<in> set (rr_event_ids (normalize_fingerprint E r)) \<Longrightarrow>
    linked_to fp e (snd (snd (build_results E now uids g dims i rs (c, st))))"
proof (induction rs arbitrary: i c st)
  case (Cons r' rs)
  obtain y st' where b: "build_result E now (uids i) g dims r' st = (y, st')" by (metis surj_pair)
  have one: "agg_step {''ALERT-'' @ uids i} st st'" by (rule build_result_step[OF b])
  obtain c' where n: "build_results E now uids g dims i (r' # rs) (c, st) = build_results E now uids g dims (Suc i) rs (c', st')"
    using b by (cases y) auto
  note inv = agg_stepD(1)[OF one Cons.prems(1)] and ev = agg_stepD(2)[OF one Cons.prems(1)]
  show ?case
  proof (cases "r' = r")
    case True
    obtain cache s where st: "st = (cache, s)" by fastforce
    have f: "''ALERT-'' @ uids i \<notin> al_alert_id ` set (db_alerts s)"
      using Cons.prems(2) by (auto simp: drawn_def st)
    have i: "agg_inv (cache, s)" using Cons.prems(1) by (simp add: st)
    have "linked_to fp e (snd st')"
      using build_result_links[OF i assms(1,2) f Cons.prems(4), of dims] Cons.prems(5,6) b st True by auto
    then show ?thesis unfolding n by (rule agg_stepD(3)[OF build_results_step inv])
  next
    case False
    have sub: "al_alert_id ` set (db_alerts (snd st')) \<subseteq> {''ALERT-'' @ uids i} \<union> al_alert_id ` set (db_alerts (snd st))"
      by (rule agg_stepD(4)[OF one Cons.prems(1)])
    have "''ALERT-'' @ uids i \<notin> drawn uids {Suc i..}" using assms(3) by (auto simp: drawn_def dest: injD)
    moreover have "drawn uids {Suc i..} \<subseteq> drawn uids {i..}" by (auto simp: drawn_def)
    moreover have "D \<inter> B = {}" if "B \<subseteq> {z} \<union> A" "D' \<inter> A = {}" "z \<notin> D" "D \<subseteq> D'" for A B D D' :: "string set" and z
      using that by blast
    ultimately have "drawn uids {Suc i..} \<inter> al_alert_id ` set (db_alerts (snd st')) = {}"
      using sub Cons.prems(2) by metis
    then show ?thesis unfolding n using Cons.IH[OF inv] Cons.prems(3-6) False ev by simp
  qed
qed simp

section \<open>What the query returns\<close>

lemma normalize_ids [simp]: "rr_event_ids (normalize_fingerprint E r) = rr_event_ids r"
  by (auto simp: normalize_fingerprint_def titled_def Let_def split: option.splits list.splits)

lemma normalize_fp: "rr_fingerprint r = Some fp \<Longrightarrow> fp \<noteq> [] \<Longrightarrow>
  rr_fingerprint (normalize_fingerprint E r) = Some (hb_md5 (ae_hb E) (raw_fingerprint fp))"
  by (auto simp: normalize_fingerprint_def titled_def Let_def split: list.splits)

lemma digits_no_bar: "CHR ''|'' \<notin> set (digits_of n)"
proof (induction n rule: digits_of.induct)
  case (1 n)
  have d: "CHR ''|'' \<noteq> char_of (48 + k :: nat)" if "k < 10" for k
  proof
    assume "CHR ''|'' = char_of (48 + k)"
    then have "(of_char CHR ''|'' :: nat) = (48 + k) mod 256" by simp
    then show False using that by simp
  qed
  show ?case using 1 d[of n] d[of "n mod 10"] by (subst digits_of.simps) auto
qed

lemma raw_fingerprint_strategy: "raw_fingerprint (str_int sid @ ''|'' @ k) = k"
proof -
  have n: "CHR ''|'' \<notin> set (str_int sid)" using digits_no_bar by (auto simp: str_int_def)
  have "dropWhile (\<lambda>c. c \<noteq> CHR ''|'') (str_int sid @ ''|'' @ k) = ''|'' @ k"
    using n by (subst dropWhile_append2) auto
  then show ?thesis by (simp add: raw_fingerprint_def)
qed

text \<open>The order of the groups is some order of the given keys.\<close>

definition group_order_ok :: "agg_env \<Rightarrow> bool" where
  "group_order_ok E \<longleftrightarrow> (\<forall>ks. mset (ae_group_order E ks) = mset ks)"

lemma query_has_event:
  assumes "group_order_ok E" "e \<in> set (windowed now w table)" "effective_dimension dims e = Some k"
  shows "\<exists>r \<in> set (execute_query E now w sid dims table). ev_event_id e \<in> set (rr_event_ids r) \<and>
    rr_fingerprint (normalize_fingerprint E r) = Some (hb_md5 (ae_hb E) k)"
proof -
  let ?es = "windowed now w table"
  let ?r = "group_row E sid (Some k) (filter (\<lambda>e. effective_dimension dims e = Some k) ?es)"
  have "set (ae_group_order E ks) = set ks" for ks
    using assms(1) unfolding group_order_ok_def by (metis mset_eq_setD)
  then have "Some k \<in> set (ae_group_order E (remdups (map (effective_dimension dims) ?es)))"
    using assms(2,3) by (force simp: image_iff)
  then have "?r \<in> set (execute_query E now w sid dims table)" by (auto simp: execute_query_def Let_def)
  moreover have "ev_event_id e \<in> set (rr_event_ids ?r)" using assms(2,3) by (auto simp: group_row_def)
  moreover have "rr_fingerprint ?r = Some (str_int sid @ ''|'' @ k)" by (simp add: group_row_def)
  from normalize_fp[OF this, of E] have "rr_fingerprint (normalize_fingerprint E ?r) = Some (hb_md5 (ae_hb E) k)"
    by (simp only: raw_fingerprint_strategy) simp
  ultimately show ?thesis by blast
qed

lemma window_sizes_agree:
  assumes "create_from_strategy g = Inr w" "get_events_for_strategy g now s = Inr es"
  shows "es = filter (\<lambda>e. ev_received_at e \<ge> now - minutes (wc_size w) \<and> ev_action e = EA_CREATED \<and>
    ev_status e \<noteq> E_SHIELD) (db_events s)"
proof -
  obtain raw n b where r: "jget (py_or (sg_params g) (JObj [])) ''window_size'' JNull = Inr raw"
    "parse_aggregation_window_size DEFAULT_WINDOW_SIZE True raw = Inr (n, b)"
    "es = filter (\<lambda>e. ev_received_at e \<ge> now - minutes n \<and> ev_action e = EA_CREATED \<and> ev_status e \<noteq> E_SHIELD) (db_events s)"
    using assms(2) by (auto simp: get_events_for_strategy_def split: sum.splits)
  moreover have "wc_size w = n"
    using assms(1) r(1,2) by (auto simp: create_from_strategy_def Let_def split: sum.splits if_splits)
  ultimately show ?thesis by simp
qed

lemma match_subset: "set (match_events_to_strategy m rows rules) \<subseteq> set rows"
  by (auto simp: match_events_to_strategy_def split: sum.splits option.splits if_splits)

lemma mark_fields [simp]:
  "db_alerts (mark_strategy_executed g now s) = db_alerts s"
  "db_events (mark_strategy_executed g now s) = db_events s"
  "db_outbox (mark_strategy_executed g now s) = db_outbox s"
  by (simp_all add: mark_strategy_executed_def)

lemma mark_wf: "wf_db s \<Longrightarrow> wf_db (mark_strategy_executed g now s)"
  by (simp add: wf_db_def mark_strategy_executed_def keyed_tupdate)

lemma mark_step: "agg_step ids (cache, s) (cache, mark_strategy_executed g now s)"
  by (rule agg_step_frame) (simp_all add: mark_wf)

lemma create_or_update_alerts_step:
  assumes "create_or_update_alerts E now uids g dims rs st = (n, st')"
  shows "agg_step (drawn uids UNIV) st st'"
proof -
  obtain c cache s where b: "build_results E now uids g dims 0 rs
      (\<lparr>ac_success = 0, ac_fail = 0, ac_recovered = 0, ac_new = []\<rparr>, st) = (c, cache, s)" by (metis surj_pair)
  have "agg_step (drawn uids {0..}) st (cache, s)" using build_results_step[of uids 0 st E now g dims rs] b by (metis snd_conv)
  moreover have "agg_step {} (cache, s) st'"
    using assms b by (auto simp: create_or_update_alerts_def intro!: agg_step_frame)
  ultimately have "agg_step (drawn uids {0..} \<union> {}) st st'" by (rule agg_step_trans)
  then show ?thesis by (rule agg_step_mono) (auto simp: drawn_def)
qed

lemma aggregate_step: "agg_step (drawn uids UNIV) st (snd (aggregate_for_dimensions E now uids g events dims st))"
proof (cases st)
  case (Pair cache s)
  have "agg_step (drawn uids UNIV) (cache, s) (cache', if n > 0 then mark_strategy_executed g now t else t)"
    if "create_or_update_alerts E now uids g dims rs (cache, s) = (n, cache', t)" for rs n cache' t
    using agg_step_trans[OF create_or_update_alerts_step[OF that] mark_step[of "{}" cache' t g now]]
      create_or_update_alerts_step[OF that] by simp
  then show ?thesis
    using mark_step[of "drawn uids UNIV" cache s g now] unfolding Pair aggregate_for_dimensions_def
    by (auto simp: Let_def split: sum.splits prod.splits)
qed

lemma aggregated_step: "agg_step (drawn uids UNIV) st (process_aggregated_strategy E now uids g st)"
  using aggregate_step mark_step
  by (cases st) (auto simp: process_aggregated_strategy_def Let_def split: sum.splits)

section \<open>Properties\<close>

text \<open>C17: no event is lost: when the aggregation processes a strategy with a valid window, every event
  of the window that is not shielded, matches the rules of the strategy and has a value for the
  effective dimension is linked, at the end, to an alert with the fingerprint of that value.\<close>

theorem aggregation_links_events:
  assumes "wf_db s" "keyed ev_event_id (db_events s)" "cache_ok cache s" "active_unique s"
    and "get_events_for_strategy g now s = Inr events"
    and "e \<in> set (match_events_to_strategy (hb_db (ae_hb E)) events (sg_match_rules g))"
    and "jget (py_or (sg_params g) (JObj [])) ''group_by'' (JList []) = Inr group_by"
    and "validate_dimensions (py_or group_by (JList [JStr ''event_id''])) = Inr dims"
    and "effective_dimension dims e = Some k"
    and "create_from_strategy g = Inr w" "get_session_end_time now w = Inr x"
    and "inj uids" "\<forall>j. ''ALERT-'' @ uids j \<notin> al_alert_id ` set (db_alerts s)" "group_order_ok E"
    and "process_aggregated_strategy E now uids g (cache, s) = (cache', t)"
  shows "\<exists>a \<in> set (db_alerts t). al_fingerprint a = hb_md5 (ae_hb E) k \<and> ev_pk e \<in> set (al_events a)"
proof -
  define matched where "matched = match_events_to_strategy (hb_db (ae_hb E)) events (sg_match_rules g)"
  define rs where "rs = execute_query E now w (sg_id g) dims (load_events_to_memory matched)"
  have e: "e \<in> set matched" "e \<in> set events"
    using assms(6) subsetD[OF match_subset assms(6)] by (simp_all add: matched_def)
  have ev: "e \<in> set (db_events s)" "e \<in> set (windowed now w (load_events_to_memory matched))"
    using e window_sizes_agree[OF assms(10,5)] by (auto simp: windowed_def load_events_to_memory_def)
  from query_has_event[OF assms(14) ev(2) assms(9), of "sg_id g"]
  obtain r where r: "r \<in> set rs" "ev_event_id e \<in> set (rr_event_ids r)"
    "rr_fingerprint (normalize_fingerprint E r) = Some (hb_md5 (ae_hb E) k)" by (auto simp: rs_def)
  obtain n st' where c: "create_or_update_alerts E now uids g dims rs (cache, s) = (n, st')" by (metis surj_pair)
  have "rs \<noteq> []" "matched \<noteq> []" "events \<noteq> []" using r(1) e by auto
  moreover obtain y where y: "(if wc_session w then get_session_end_time now w else Inr now) = Inr y"
    using assms(11) by fastforce
  moreover have "process_aggregated_strategy E now uids g (cache, s) =
      snd (aggregate_for_dimensions E now uids g matched dims (cache, s))"
    using assms(5,7,8) \<open>events \<noteq> []\<close> \<open>matched \<noteq> []\<close>
    by (simp add: process_aggregated_strategy_def Let_def flip: matched_def)
  ultimately have t: "t = snd st' \<or> t = mark_strategy_executed g now (snd st')"
    using assms(10,15) c by (simp add: aggregate_for_dimensions_def Let_def case_prod_beta flip: rs_def split: if_splits)
  have inv: "agg_inv (cache, s)" using assms(1-4) by (simp add: agg_inv_def)
  have fresh: "drawn uids {0..} \<inter> al_alert_id ` set (db_alerts (snd (cache, s))) = {}"
    using assms(13) by (auto simp: drawn_def)
  have "linked_to (hb_md5 (ae_hb E) k) e (snd st')"
    using build_results_links[OF assms(10-12) inv fresh r(1,3), of e dims
        "\<lparr>ac_success = 0, ac_fail = 0, ac_recovered = 0, ac_new = []\<rparr>"] r(2) ev(1) c
    by (auto simp: create_or_update_alerts_def linked_to_def split: prod.splits)
  with t show ?thesis by (auto simp: linked_to_def)
qed

text \<open>A run on a database with one event: the strategy groups by the event id.\<close>

definition agg_sample :: agg_env where
  "agg_sample = \<lparr>ae_hb = tick_env, ae_cast = (\<lambda>t. case py_int (JStr t) of Inl _ \<Rightarrow> None | Inr i \<Rightarrow> Some i),
     ae_group_order = rev, ae_text_order = id, ae_levels = [0, 1, 2], ae_alert_levels = [0, 1, 2]\<rparr>"

definition sample_uids :: "nat \<Rightarrow> string" where
  "sample_uids j = replicate j CHR ''x''"

lemma sample_uids_fresh:
  "inj sample_uids" "\<forall>j. ''ALERT-'' @ sample_uids j \<notin> al_alert_id ` set (db_alerts build_db)"
  by (auto simp: inj_on_def sample_uids_def build_db_def sample_defs)

lemma agg_sample_order: "group_order_ok agg_sample"
  by (simp add: group_order_ok_def agg_sample_def)

lemma build_db_ok: "keyed ev_event_id (db_events build_db)" "cache_ok [] build_db" "active_unique build_db"
  by (simp_all add: build_db_def keyed_def cache_ok_def active_unique_def sample_db_def)

theorem aggregation_links_witness:
  "\<exists>a \<in> set (db_alerts (snd (process_aggregated_strategy agg_sample 10 sample_uids sample_strategy ([], build_db)))).
     al_fingerprint a = ''event_id=E1'' \<and> 1 \<in> set (al_events a)"
proof -
  obtain cache t where p: "process_aggregated_strategy agg_sample 10 sample_uids sample_strategy ([], build_db) = (cache, t)"
    by (metis surj_pair)
  have "get_events_for_strategy sample_strategy 10 build_db = Inr [probe_event]" by code_simp
  moreover have "probe_event \<in> set (match_events_to_strategy (hb_db (ae_hb agg_sample)) [probe_event] (sg_match_rules sample_strategy))"
    by (simp add: sample_strategy_def match_events_to_strategy_def)
  moreover have "jget (py_or (sg_params sample_strategy) (JObj [])) ''group_by'' (JList []) = Inr (JList [])"
    "validate_dimensions (py_or (JList []) (JList [JStr ''event_id''])) = Inr [''event_id'']"
    "effective_dimension [''event_id''] probe_event = Some ''event_id=E1''"
    "create_from_strategy sample_strategy = Inr \<lparr>wc_session = False, wc_size = 10, wc_timeout = JInt 0\<rparr>"
    "get_session_end_time 10 \<lparr>wc_session = False, wc_size = 10, wc_timeout = JInt 0\<rparr> = Inr (10 + minutes 10)"
    by code_simp+
  ultimately have "\<exists>a \<in> set (db_alerts t). al_fingerprint a = hb_md5 (ae_hb agg_sample) ''event_id=E1'' \<and>
      ev_pk probe_event \<in> set (al_events a)"
    by (rule aggregation_links_events[OF build_db_wf build_db_ok _ _ _ _ _ _ _ sample_uids_fresh agg_sample_order p])
  then show ?thesis using p by (simp add: agg_sample_def tick_env_def probe_event_def)
qed

lemma partition_mset:
  assumes "distinct ks" "f ` set es \<subseteq> set ks"
  shows "mset (concat (map (\<lambda>k. filter (\<lambda>e. f e = k) es) ks)) = mset es"
  using assms(2)
proof (induction es)
  case Nil
  show ?case by (induction ks) auto
next
  case (Cons e es)
  have "mset (concat (map (\<lambda>k. filter (\<lambda>x. f x = k) (e # es)) ks)) =
      mset (concat (map (\<lambda>k. filter (\<lambda>x. f x = k) es) ks)) + (if f e \<in> set ks then {#e#} else {#})"
    using assms(1) by (induction ks) auto
  with Cons show ?case by simp
qed

text \<open>The query partitions the events of the window: the event ids of its rows, taken together, are
  the ids of the events of the window, every one as often as there. No event is counted in two
  groups and none is dropped, whatever the dimensions and the order of the groups.\<close>

theorem query_partitions_events:
  assumes "group_order_ok E"
  shows "mset (concat (map rr_event_ids (execute_query E now w sid dims table))) =
    mset (map ev_event_id (windowed now w table))"
proof -
  let ?es = "windowed now w table"
  define ks where "ks = ae_group_order E (remdups (map (effective_dimension dims) ?es))"
  have m: "mset ks = mset (remdups (map (effective_dimension dims) ?es))"
    using assms by (simp add: ks_def group_order_ok_def)
  have k: "distinct ks" "effective_dimension dims ` set ?es \<subseteq> set ks"
    using m mset_eq_imp_distinct_iff[OF m] mset_eq_setD[OF m] by auto
  have "concat (map rr_event_ids (execute_query E now w sid dims table)) =
      map ev_event_id (concat (map (\<lambda>k. filter (\<lambda>e. effective_dimension dims e = k) ?es) ks))"
    by (simp add: execute_query_def Let_def ks_def[symmetric] map_concat comp_def group_row_def)
  also have "mset \<dots> = image_mset ev_event_id (mset ?es)"
    using partition_mset[OF k] by simp
  finally show ?thesis by simp
qed

theorem query_partitions_witness:
  "mset (concat (map rr_event_ids (execute_query agg_sample 10 \<lparr>wc_session = False, wc_size = 10, wc_timeout = JInt 0\<rparr> 1
     [''service''] [probe_event, probe_event\<lparr>ev_event_id := ''E2'', ev_service := Some ''api''\<rparr>]))) = {#''E1'', ''E2''#}"
proof -
  have "map ev_event_id (windowed 10 \<lparr>wc_session = False, wc_size = 10, wc_timeout = JInt 0\<rparr>
      [probe_event, probe_event\<lparr>ev_event_id := ''E2'', ev_service := Some ''api''\<rparr>]) = [''E1'', ''E2'']" by code_simp
  then show ?thesis by (simp only: query_partitions_events[OF agg_sample_order]) simp
qed

section \<open>Errors of the job\<close>

lemma process_strategies_error:
  "process_strategies E now uids gs st = (Inl e, st') \<Longrightarrow>
   \<exists>xs g ys. gs = xs @ g # ys \<and> sg_type g = ST_MISSING_DETECTION \<and>
     process_strategies E now uids xs st = (Inr (), st') \<and>
     fst (process_missing_detection_strategy (ae_hb E) (sg_id g) now (uids (sg_id g) 0) (snd st')) = Inl e"
proof (induction gs arbitrary: st)
  case (Cons g gs)
  obtain r u where Pair: "process_strategy E now (uids (sg_id g)) g st = (r, u)" by (metis surj_pair)
  show ?case
  proof (cases r)
    case (Inl e')
    then have m: "sg_type g = ST_MISSING_DETECTION" "e' = e" "u = st'"
      using Cons.prems Pair by (auto simp: process_strategy_def split: if_splits)
    obtain t where p: "process_missing_detection_strategy (ae_hb E) (sg_id g) now (uids (sg_id g) 0) (snd st) = (Inl e, t)"
      "st' = (fst st, t)"
      using Pair Inl m by (auto simp: process_strategy_def split: prod.splits)
    have "t = snd st" using process_missing_error[OF p(1)] .
    then have "st' = st" using p(2) by simp
    then show ?thesis using m(1) p(1) by (intro exI[of _ "[]"]) auto
  next
    case (Inr x)
    then have "process_strategies E now uids gs u = (Inl e, st')" using Cons.prems Pair by simp
    from Cons.IH[OF this] obtain xs g' ys where "gs = xs @ g' # ys" "sg_type g' = ST_MISSING_DETECTION"
      "process_strategies E now uids xs u = (Inr (), st')"
      "fst (process_missing_detection_strategy (ae_hb E) (sg_id g') now (uids (sg_id g') 0) (snd st')) = Inl e" by blast
    then show ?thesis using Pair Inr by (intro exI[of _ "g # xs"]) auto
  qed
qed simp

text \<open>C23: errors of the aggregation job: the strategies that aggregate events never stop it, whatever
  their parameters; only a heartbeat strategy whose detection raises does. Then its transaction
  has no effect and the work of the strategies before it is kept.\<close>

theorem job_stops_only_at_heartbeat:
  assumes "process_aggregation E now uids s = (Inl e, t)"
  shows "\<exists>xs g ys cache. get_active_strategies s = xs @ g # ys \<and> sg_type g = ST_MISSING_DETECTION \<and>
    process_strategies E now uids xs ([], s) = (Inr (), cache, t) \<and>
    fst (process_missing_detection_strategy (ae_hb E) (sg_id g) now (uids (sg_id g) 0) t) = Inl e"
proof -
  obtain cache where p: "process_strategies E now uids (get_active_strategies s) ([], s) = (Inl e, cache, t)"
    using assms by (auto simp: process_aggregation_def split: prod.splits)
  from process_strategies_error[OF p] show ?thesis by fastforce
qed

text \<open>A heartbeat strategy whose grace period is no number.\<close>

definition broken_strategy :: strategy where
  "broken_strategy = tick_strategy\<lparr>sg_params := JObj [(''grace_period'', JStr ''soon''),
     (''heartbeat_status'', MONITORING), (''last_heartbeat_time'', JStr ''5'')], sg_updated_at := 7\<rparr>"

definition broken_db :: db where
  "broken_db = build_db\<lparr>db_strategies := [sample_strategy, broken_strategy], db_events := []\<rparr>"

theorem job_stops_witness:
  "fst (process_aggregation agg_sample (minutes 13) (\<lambda>_. sample_uids) broken_db) = Inl ValueError \<and>
   (\<exists>xs g ys. get_active_strategies broken_db = xs @ g # ys \<and> sg_type g = ST_MISSING_DETECTION)"
proof -
  have e: "fst (process_aggregation agg_sample (minutes 13) (\<lambda>_. sample_uids) broken_db) = Inl ValueError" by code_simp
  then obtain t where p: "process_aggregation agg_sample (minutes 13) (\<lambda>_. sample_uids) broken_db = (Inl ValueError, t)"
    by (metis prod.collapse)
  from job_stops_only_at_heartbeat[OF p] e show ?thesis by blast
qed

text \<open>Behind a failing heartbeat strategy nothing is processed: the event of the database is not
  aggregated, although it is without that strategy. The failing strategy keeps its place in the
  order, so the next run stops at it again.\<close>

definition blocked_db :: "strategy list \<Rightarrow> db" where
  "blocked_db gs = broken_db\<lparr>db_events := [probe_event\<lparr>ev_received_at := minutes 9\<rparr>], db_strategies := sample_strategy # gs\<rparr>"

lemma failing_heartbeat_blocks:
  "snd (process_aggregation agg_sample (minutes 9) (\<lambda>_. sample_uids)
     (blocked_db [broken_strategy\<lparr>sg_match_rules := [JNull]\<rparr>])) = blocked_db [broken_strategy\<lparr>sg_match_rules := [JNull]\<rparr>] \<and>
   length (db_alerts (blocked_db [])) = 1 \<and>
   length (db_alerts (snd (process_aggregation agg_sample (minutes 9) (\<lambda>_. sample_uids) (blocked_db [])))) = 2"
proof -
  let ?d = "blocked_db [broken_strategy\<lparr>sg_match_rules := [JNull]\<rparr>]"
  have "process_strategies agg_sample (minutes 9) (\<lambda>_. sample_uids) (get_active_strategies ?d) ([], ?d) =
      (Inl ValueError, [], ?d)" by code_simp
  then have "snd (process_aggregation agg_sample (minutes 9) (\<lambda>_. sample_uids) ?d) = ?d"
    by (simp add: process_aggregation_def)
  moreover have "length (db_alerts (blocked_db [])) = 1"
    "length (db_alerts (snd (process_aggregation agg_sample (minutes 9) (\<lambda>_. sample_uids) (blocked_db [])))) = 2"
    by code_simp+
  ultimately show ?thesis by simp
qed

lemma aggregated_step_all:
  "list_all (\<lambda>g. sg_type g \<noteq> ST_MISSING_DETECTION) gs \<Longrightarrow>
   \<exists>st'. process_strategies E now uids gs st = (Inr (), st') \<and> agg_step UNIV st st'"
proof (induction gs arbitrary: st)
  case (Cons g gs)
  let ?u = "process_aggregated_strategy E now (uids (sg_id g)) g st"
  from Cons obtain st' where r: "process_strategies E now uids gs ?u = (Inr (), st')" "agg_step UNIV ?u st'"
    by fastforce
  have "agg_step (UNIV \<union> UNIV) st st'"
    by (rule agg_step_trans[OF agg_step_mono[OF aggregated_step] r(2)]) simp
  then show ?case using r(1) Cons.prems by (simp add: process_strategy_def)
qed simp

text \<open>C22: a run of the job without heartbeat strategies succeeds and keeps the invariants of the
  builder: the database is well formed, no two active alerts share a fingerprint, and an event
  linked to an alert of some fingerprint stays linked to an alert of it.\<close>

theorem aggregation_job_safe:
  assumes "wf_db s" "keyed ev_event_id (db_events s)" "active_unique s"
    and "list_all (\<lambda>g. sg_type g \<noteq> ST_MISSING_DETECTION) (get_active_strategies s)"
    and "process_aggregation E now uids s = (r, t)"
  shows "r = Inr () \<and> wf_db t \<and> active_unique t \<and>
    (\<forall>a \<in> set (db_alerts s). \<forall>k \<in> set (al_events a).
       (\<exists>b \<in> set (db_alerts t). al_fingerprint b = al_fingerprint a \<and> k \<in> set (al_events b)))"
proof -
  obtain cache where p: "process_strategies E now uids (get_active_strategies s) ([], s) = (r, cache, t)"
    using assms(5) by (auto simp: process_aggregation_def split: prod.splits)
  have st: "agg_step UNIV ([], s) (cache, t)" "r = Inr ()"
    using aggregated_step_all[OF assms(4), of E now uids "([], s)"] p by auto
  have inv: "agg_inv ([], s)" using assms(1-3) by (simp add: agg_inv_def cache_ok_def)
  have "\<exists>b \<in> set (db_alerts t). al_fingerprint b = al_fingerprint a \<and> k \<in> set (al_events b)"
    if "a \<in> set (db_alerts s)" "k \<in> set (al_events a)" for a k
  proof -
    have "linked_to (al_fingerprint a) (probe_event\<lparr>ev_pk := k\<rparr>) (snd ([], s))" using that by (auto simp: linked_to_def)
    from agg_stepD(3)[OF st(1) inv this] show ?thesis by (simp add: linked_to_def)
  qed
  then show ?thesis using agg_stepD(1)[OF st(1) inv] st(2) by (simp add: agg_inv_def)
qed

theorem aggregation_job_witness:
  "fst (process_aggregation agg_sample 10 (\<lambda>_. sample_uids) build_db) = Inr () \<and>
   active_unique (snd (process_aggregation agg_sample 10 (\<lambda>_. sample_uids) build_db))"
proof -
  have n: "list_all (\<lambda>g. sg_type g \<noteq> ST_MISSING_DETECTION) (get_active_strategies build_db)" by code_simp
  obtain r t where p: "process_aggregation agg_sample 10 (\<lambda>_. sample_uids) build_db = (r, t)" by (metis surj_pair)
  from aggregation_job_safe[OF build_db_wf build_db_ok(1,3) n p] p show ?thesis by simp
qed

end
