(* ===== verification/Instant.thy ===== *)
theory Instant
  imports Alert_Builder
begin

text \<open>
  Instant alerts: \<open>aggregation/processor/instant_dispatcher.py\<close> and the task \<open>build_instant_alerts\<close> of
  \<open>tasks/tasks.py\<close>. New events are matched against the strategies of type \<open>instant\<close> in memory, beside
  the aggregation, and every hit becomes an alert at once.

  Parameters: MD5, the attributes of events (\<open>mem_env\<close>), and how \<open>str.format\<close> renders a field with
  attribute access, indexing, a conversion or a format specification. The parsing of the template
  is modelled. The Django cache holds the list of strategies or nothing.
\<close>

section \<open>Templates\<close>

type_synonym fields = "(string \<times> string) list"

record instant_env =
  in_md5 :: "string \<Rightarrow> string"
  in_mem :: mem_env
  in_field :: "string \<Rightarrow> string \<Rightarrow> fields \<Rightarrow> string res"

text \<open>The name of a replacement field, the character that ends it and the rest. Inside brackets all
  characters but the closing bracket are skipped.\<close>

function field_name_of :: "string \<Rightarrow> (string \<times> char \<times> string) res" where
  "field_name_of [] = Inl ValueError"
| "field_name_of (c # cs) =
     (if c = CHR ''{'' then Inl ValueError
      else if c = CHR ''}'' \<or> c = CHR '':'' \<or> c = CHR ''!'' then Inr ([], c, cs)
      else if c = CHR ''['' then
        map_sum id (\<lambda>(n, e, r). (c # takeWhile (\<lambda>x. x \<noteq> CHR '']'') cs @ n, e, r))
          (field_name_of (dropWhile (\<lambda>x. x \<noteq> CHR '']'') cs))
      else map_sum id (\<lambda>(n, e, r). (c # n, e, r)) (field_name_of cs))"
  by pat_completeness auto
termination
  by (relation "measure length") (auto simp: less_Suc_eq_le length_dropWhile_le)

text \<open>A format specification up to the closing brace.\<close>

fun format_spec :: "nat \<Rightarrow> string \<Rightarrow> (string \<times> string) res" where
  "format_spec n [] = Inl ValueError"
| "format_spec n (c # cs) =
     (if c = CHR ''}'' \<and> n = 0 then Inr ([], cs)
      else map_sum id (\<lambda>(t, r). (c # t, r))
        (format_spec (if c = CHR ''{'' then Suc n else if c = CHR ''}'' then n - 1 else n) cs))"

text \<open>The part of a field behind its name.\<close>

fun conversion :: "char \<Rightarrow> string \<Rightarrow> (string \<times> string) res" where
  "conversion e cs =
     (if e = CHR ''}'' then Inr ([], cs)
      else if e = CHR '':'' then map_sum id (\<lambda>(t, r). (CHR '':'' # t, r)) (format_spec 0 cs)
      else case cs of
        x # y # r \<Rightarrow>
          if y = CHR ''}'' then Inr ([CHR ''!'', x], r)
          else if y = CHR '':'' then map_sum id (\<lambda>(t, r). (CHR ''!'' # x # CHR '':'' # t, r)) (format_spec 0 r)
          else Inl ValueError
      | _ \<Rightarrow> Inl ValueError)"

text \<open>The value of a field; positional arguments are never given.\<close>

definition field_text :: "instant_env \<Rightarrow> fields \<Rightarrow> string \<Rightarrow> string \<Rightarrow> string res" where
  "field_text I ctx name spec =
     (if spec \<noteq> [] \<or> CHR ''.'' \<in> set name \<or> CHR ''['' \<in> set name then in_field I name spec ctx
      else if list_all (\<lambda>c. digit c \<noteq> None) name then Inl IndexError
      else case map_of ctx name of None \<Rightarrow> Inl KeyError | Some v \<Rightarrow> Inr v)"

lemma field_name_shorter: "field_name_of s = Inr (n, e, r) \<Longrightarrow> length r < length s"
proof (induction s arbitrary: n rule: field_name_of.induct)
  case (2 c cs)
  have "length r < length cs" if "field_name_of (dropWhile (\<lambda>x. x \<noteq> CHR '']'') cs) = Inr (m, e, r)" "c = CHR ''[''" for m
    using "2.IH"(1)[OF _ _ that(2) that(1)] that(2) length_dropWhile_le[of "\<lambda>x. x \<noteq> CHR '']''" cs] by simp
  with 2 show ?case by (force simp: map_sum_Inr split: if_splits)
qed simp

lemma format_spec_shorter: "format_spec n s = Inr (t, r) \<Longrightarrow> length r < length s"
  by (induction n s arbitrary: t rule: format_spec.induct) (force simp: map_sum_Inr split: if_splits)+

lemma conversion_shorter: "conversion e s = Inr (t, r) \<Longrightarrow> length r \<le> length s"
  by (auto simp: map_sum_Inr split: if_splits list.splits dest!: format_spec_shorter)

lemma field_shorter:
  "field_name_of cs = Inr (n, e, r) \<Longrightarrow> conversion e r = Inr (sp, r') \<Longrightarrow> length r' < Suc (length cs)"
  using field_name_shorter[of cs n e r] conversion_shorter[of e r sp r'] by simp

text \<open>\<open>template.format(**context)\<close>.\<close>

function format_template :: "instant_env \<Rightarrow> fields \<Rightarrow> string \<Rightarrow> string res" where
  "format_template I ctx [] = Inr []"
| "format_template I ctx (c # cs) =
     (if c = CHR ''{'' \<and> (case cs of d # _ \<Rightarrow> d = CHR ''{'' | [] \<Rightarrow> False) then
        map_sum id (\<lambda>t. CHR ''{'' # t) (format_template I ctx (tl cs))
      else if c = CHR ''{'' then
        (case field_name_of cs of
           Inl e \<Rightarrow> Inl e
         | Inr (name, e, rest) \<Rightarrow>
           (case conversion e rest of
              Inl x \<Rightarrow> Inl x
            | Inr (spec, rest') \<Rightarrow>
              (case field_text I ctx name spec of
                 Inl x \<Rightarrow> Inl x
               | Inr v \<Rightarrow> map_sum id (\<lambda>t. v @ t) (format_template I ctx rest'))))
      else if c = CHR ''}'' then
        (if (case cs of d # _ \<Rightarrow> d = CHR ''}'' | [] \<Rightarrow> False)
         then map_sum id (\<lambda>t. CHR ''}'' # t) (format_template I ctx (tl cs)) else Inl ValueError)
      else map_sum id (\<lambda>t. c # t) (format_template I ctx cs))"
  by pat_completeness auto

termination format_template
  by (relation "measure (\<lambda>(I, ctx, s). length s)") (auto simp del: conversion.simps dest: field_shorter)

declare conversion.simps [simp del] format_template.simps [simp del] field_name_of.simps [simp del]

definition event_context :: "event \<Rightarrow> fields" where
  "event_context e =
     [(''service'', str_or (ev_service e) []), (''location'', str_or (ev_location e) []),
      (''resource_name'', str_or (ev_resource_name e) []), (''resource_id'', str_or (ev_resource_id e) []),
      (''resource_type'', str_or (ev_resource_type e) []), (''item'', str_or (ev_item e) []),
      (''title'', ev_title e), (''level'', ev_level e), (''external_id'', str_or (ev_external_id e) [])]"

definition render_event_template :: "instant_env \<Rightarrow> json \<Rightarrow> event \<Rightarrow> string res" where
  "render_event_template I template e =
     (if \<not> truthy template then Inr []
      else case template of
        JStr s \<Rightarrow>
          (case format_template I (event_context e) s of
             Inr t \<Rightarrow> Inr t
           | Inl x \<Rightarrow> if x \<in> {KeyError, IndexError, ValueError} then Inr s else Inl x)
      | _ \<Rightarrow> Inl AttributeError)"

section \<open>Alerts of hits\<close>

definition instant_fingerprint :: "instant_env \<Rightarrow> int \<Rightarrow> string \<Rightarrow> string" where
  "instant_fingerprint I sid eid = in_md5 I (''instant:'' @ str_int sid @ '':'' @ eid)"

text \<open>The default title, in UTF-8.\<close>

definition instant_title :: string where
  "instant_title = [CHR 0xE5, CHR 0x8D, CHR 0xB3, CHR 0xE6, CHR 0x97, CHR 0xB6, CHR 0xE5, CHR 0x91, CHR 0x8A,
     CHR 0xE8, CHR 0xAD, CHR 0xA6]"

text \<open>The row before it is stored: it has no primary key yet.\<close>

definition instant_alert :: "strategy \<Rightarrow> event \<Rightarrow> string \<Rightarrow> string \<Rightarrow> string \<Rightarrow> string \<Rightarrow> int \<Rightarrow> alert" where
  "instant_alert g e fp aid title content now =
     \<lparr>al_pk = 0, al_alert_id = aid, al_status = A_UNASSIGNED, al_level = ev_level e, al_events = [],
      al_created_at = now, al_updated_at = now, al_title = title, al_content = content,
      al_first_event_time = Some (ev_received_at e), al_last_event_time = Some (ev_received_at e),
      al_operate = None, al_operator = [], al_fingerprint = fp, al_rule_id = Some (str_int (sg_id g)),
      al_is_session_alert = False, al_session_status = None, al_session_end_time = None,
      al_team = get_safe_strategy_team g, al_source_name = Some (ev_source_name e),
      al_resource_id = ev_resource_id e, al_resource_name = ev_resource_name e,
      al_resource_type = ev_resource_type e, al_item = ev_item e, al_labels = labels_of e,
      al_enrichment = [], al_group_by_field = Some ''instant'', al_dimensions = []\<rparr>"

definition build_alert_row ::
  "instant_env \<Rightarrow> int \<Rightarrow> string \<Rightarrow> strategy \<Rightarrow> event \<Rightarrow> string \<Rightarrow> alert res" where
  "build_alert_row I now uid g e fp =
     (case jget (py_or (sg_params g) (JObj [])) ''alert_template'' JNull of
        Inl x \<Rightarrow> Inl x
      | Inr raw \<Rightarrow>
        (case jget (py_or raw (JObj [])) ''title'' JNull of
           Inl x \<Rightarrow> Inl x
         | Inr tt \<Rightarrow>
           (case render_event_template I tt e of
              Inl x \<Rightarrow> Inl x
            | Inr title \<Rightarrow>
              (case jget (py_or raw (JObj [])) ''description'' JNull of
                 Inl x \<Rightarrow> Inl x
               | Inr td \<Rightarrow>
                 (case render_event_template I td e of
                    Inl x \<Rightarrow> Inl x
                  | Inr desc \<Rightarrow>
                      Inr (instant_alert g e fp (''ALERT-'' @ uid)
                        (if title \<noteq> [] then title else if ev_title e \<noteq> [] then ev_title e else instant_title)
                        (if desc \<noteq> [] then desc else str_or (ev_description e) []) now))))))"

text \<open>A hit: the id of the strategy and the id of the event.\<close>

type_synonym hit = "int \<times> string"

fun build_rows ::
  "instant_env \<Rightarrow> int \<Rightarrow> (nat \<Rightarrow> string) \<Rightarrow> strategy \<Rightarrow> nat \<Rightarrow> (event \<times> string) list \<Rightarrow> alert list res" where
  "build_rows I now uids g i [] = Inr []"
| "build_rows I now uids g i ((e, fp) # xs) =
     (case build_alert_row I now (uids i) g e fp of
        Inl x \<Rightarrow> Inl x
      | Inr a \<Rightarrow> map_sum id (\<lambda>as. a # as) (build_rows I now uids g (Suc i) xs))"

text \<open>\<open>bulk_create(ignore_conflicts=True)\<close>: a row whose \<open>alert_id\<close> is in use is skipped.\<close>

fun bulk_create :: "alert list \<Rightarrow> db \<Rightarrow> db" where
  "bulk_create [] s = s"
| "bulk_create (a # as) s =
     bulk_create as (if al_alert_id a \<in> al_alert_id ` set (db_alerts s) then s
                     else s\<lparr>db_alerts := db_alerts s @ [a\<lparr>al_pk := next_pk s\<rparr>]\<rparr>)"

text \<open>The rows with the wanted ids are linked to the event of their fingerprint.\<close>

definition link_created :: "string list \<Rightarrow> (string \<times> event) list \<Rightarrow> alert \<Rightarrow> alert" where
  "link_created wanted fp_to_event a =
     (if al_alert_id a \<in> set wanted then
        (case map_of fp_to_event (al_fingerprint a) of
           None \<Rightarrow> a
         | Some e \<Rightarrow> if ev_pk e \<in> set (al_events a) then a else a\<lparr>al_events := al_events a @ [ev_pk e]\<rparr>)
      else a)"

definition store_rows :: "alert list \<Rightarrow> (string \<times> event) list \<Rightarrow> db \<Rightarrow> string list \<times> db" where
  "store_rows rows fp_to_event s =
     (let t = bulk_create rows s; wanted = map al_alert_id rows in
      (map al_alert_id (filter (\<lambda>a. al_alert_id a \<in> set wanted \<and> map_of fp_to_event (al_fingerprint a) \<noteq> None) (db_alerts t)),
       t\<lparr>db_alerts := map (link_created wanted fp_to_event) (db_alerts t)\<rparr>))"

text \<open>The hits of one strategy. The dict from fingerprints to events keeps the last event.\<close>

definition build_bucket ::
  "instant_env \<Rightarrow> int \<Rightarrow> (nat \<Rightarrow> string) \<Rightarrow> strategy \<Rightarrow> event list \<Rightarrow> db \<Rightarrow> string list res \<times> db" where
  "build_bucket I now uids g es s =
     (let targets = map (\<lambda>e. (e, instant_fingerprint I (sg_id g) (ev_event_id e))) es;
          new = filter (\<lambda>(e, fp). active_with fp s = []) targets
      in if new = [] then (Inr [], s)
         else (case build_rows I now uids g 0 new of
                 Inl x \<Rightarrow> (Inl x, s)
               | Inr rows \<Rightarrow>
                   let (ids, t) = store_rows rows (rev (map (\<lambda>(e, fp). (fp, e)) new)) s in (Inr ids, t)))"

definition event_by_id :: "string \<Rightarrow> db \<Rightarrow> event option" where
  "event_by_id eid s = tfind ev_event_id eid (db_events s)"

text \<open>The hits whose strategy and event exist.\<close>

definition live_hits :: "hit list \<Rightarrow> db \<Rightarrow> (strategy \<times> event) list" where
  "live_hits hits s =
     concat (map (\<lambda>(sid, eid).
       case (tfind sg_id sid (db_strategies s), event_by_id eid s) of
         (Some g, Some e) \<Rightarrow> [(g, e)]
       | _ \<Rightarrow> []) hits)"

fun build_buckets ::
  "instant_env \<Rightarrow> int \<Rightarrow> (int \<Rightarrow> nat \<Rightarrow> string) \<Rightarrow> (strategy \<times> event list) list \<Rightarrow> string list \<Rightarrow> db
   \<Rightarrow> string list res \<times> db" where
  "build_buckets I now uids [] ids s = (Inr ids, s)"
| "build_buckets I now uids ((g, es) # bs) ids s =
     (case build_bucket I now (uids (sg_id g)) g es s of
        (Inl x, t) \<Rightarrow> (Inl x, t)
      | (Inr new, t) \<Rightarrow> build_buckets I now uids bs (ids @ new) t)"

definition by_sid :: "(strategy \<times> event) list \<Rightarrow> (strategy \<times> event list) list" where
  "by_sid live =
     map (\<lambda>g. (g, map snd (filter (\<lambda>(g', e). sg_id g' = sg_id g) live))) (dedup_on sg_id (map fst live))"

definition bulk_build_instant_alerts ::
  "instant_env \<Rightarrow> int \<Rightarrow> (int \<Rightarrow> nat \<Rightarrow> string) \<Rightarrow> hit list \<Rightarrow> db \<Rightarrow> string list res \<times> db" where
  "bulk_build_instant_alerts I now uids hits s = build_buckets I now uids (by_sid (live_hits hits s)) [] s"

section \<open>The dispatcher\<close>

definition INSTANT_SYNC_THRESHOLD :: nat where
  "INSTANT_SYNC_THRESHOLD = 50"

definition INSTANT_HIT_CEILING :: nat where
  "INSTANT_HIT_CEILING = 5000"

type_synonym snapshot = "int \<times> json list"

definition instant_strategies :: "db \<Rightarrow> snapshot list" where
  "instant_strategies s =
     map (\<lambda>g. (sg_id g, sg_match_rules g)) (filter (\<lambda>g. sg_is_active g \<and> sg_type g = ST_INSTANT) (db_strategies s))"

text \<open>The strategies and the new content of the cache.\<close>

definition cache_get :: "snapshot list option \<Rightarrow> db \<Rightarrow> snapshot list" where
  "cache_get cached s = (case cached of Some v \<Rightarrow> v | None \<Rightarrow> instant_strategies s)"

definition exclude_shielded :: "event list \<Rightarrow> db \<Rightarrow> event list" where
  "exclude_shielded es s =
     (let shielded = map ev_event_id (filter (\<lambda>e. ev_event_id e \<in> ev_event_id ` set es \<and> ev_status e = E_SHIELD) (db_events s))
      in if shielded = [] then es else filter (\<lambda>e. ev_event_id e \<notin> set shielded) es)"

text \<open>The two loops with the return at the ceiling: the pairs in their order, up to the ceiling.\<close>

fun collect_loop :: "mem_env \<Rightarrow> (event \<times> snapshot) list \<Rightarrow> hit list \<Rightarrow> hit list" where
  "collect_loop env [] hits = hits"
| "collect_loop env ((e, sid, rules) # ps) hits =
     (if match_in_memory env e rules then
        let hits' = hits @ [(sid, ev_event_id e)] in
        if length hits' \<ge> INSTANT_HIT_CEILING then hits' else collect_loop env ps hits'
      else collect_loop env ps hits)"

definition collect_hits :: "mem_env \<Rightarrow> event list \<Rightarrow> snapshot list \<Rightarrow> hit list" where
  "collect_hits env es gs = collect_loop env (concat (map (\<lambda>e. map (\<lambda>g. (e, g)) gs) es)) []"

definition trigger_dispatch_async :: "string list \<Rightarrow> db \<Rightarrow> db" where
  "trigger_dispatch_async ids s = (if ids = [] then s else emit (AutoAssign ids) s)"

definition build_and_trigger ::
  "instant_env \<Rightarrow> int \<Rightarrow> (int \<Rightarrow> nat \<Rightarrow> string) \<Rightarrow> hit list \<Rightarrow> db \<Rightarrow> db" where
  "build_and_trigger I now uids hits s =
     (case bulk_build_instant_alerts I now uids hits s of
        (Inl _, t) \<Rightarrow> t
      | (Inr ids, t) \<Rightarrow> trigger_dispatch_async ids t)"

text \<open>\<open>dispatch\<close> with the cached strategies; \<open>broker\<close> says whether the queue accepts a task. Exceptions
  end it, with what the strategies before have stored. It returns the new cache and database.\<close>

definition dispatch ::
  "instant_env \<Rightarrow> int \<Rightarrow> (int \<Rightarrow> nat \<Rightarrow> string) \<Rightarrow> bool \<Rightarrow> event list list \<Rightarrow> snapshot list option \<times> db
   \<Rightarrow> snapshot list option \<times> db" where
  "dispatch I now uids broker bulk st =
     (case st of (cached, s) \<Rightarrow>
        let created = filter (\<lambda>e. ev_action e = EA_CREATED) (concat bulk);
            events = exclude_shielded created s
        in if events = [] then st
           else
             let gs = cache_get cached s; hits = collect_hits (in_mem I) events gs in
             (Some gs,
              if hits = [] then s
              else if length hits \<le> INSTANT_SYNC_THRESHOLD then build_and_trigger I now uids hits s
              else if broker then emit (BuildInstant hits) s
              else build_and_trigger I now uids hits s))"

text \<open>The task; its payload is what \<open>dispatch\<close> queued. An error leaves it to the retry of the queue.\<close>

definition build_instant_alerts ::
  "instant_env \<Rightarrow> int \<Rightarrow> (int \<Rightarrow> nat \<Rightarrow> string) \<Rightarrow> hit list \<Rightarrow> db \<Rightarrow> nat res \<times> db" where
  "build_instant_alerts I now uids hits s =
     (if hits = [] then (Inr 0, s)
      else case bulk_build_instant_alerts I now uids hits s of
        (Inl x, t) \<Rightarrow> (Inl x, t)
      | (Inr ids, t) \<Rightarrow> (Inr (length ids), trigger_dispatch_async ids t))"

section \<open>What building adds\<close>

lemma instant_alert_fields [simp]:
  "al_alert_id (instant_alert g e fp aid title content now) = aid"
  "al_status (instant_alert g e fp aid title content now) = A_UNASSIGNED"
  "al_operator (instant_alert g e fp aid title content now) = []"
  "al_fingerprint (instant_alert g e fp aid title content now) = fp"
  "al_rule_id (instant_alert g e fp aid title content now) = Some (str_int (sg_id g))"
  by (simp_all add: instant_alert_def)

lemma build_alert_row_fields:
  "build_alert_row I now uid g e fp = Inr a \<Longrightarrow> al_alert_id a = ''ALERT-'' @ uid \<and> al_status a = A_UNASSIGNED \<and>
     al_operator a = [] \<and> al_fingerprint a = fp \<and> al_rule_id a = Some (str_int (sg_id g))"
  by (auto simp: build_alert_row_def split: sum.splits)

lemma build_rows_fields:
  "build_rows I now uids g i xs = Inr rows \<Longrightarrow>
   map al_fingerprint rows = map snd xs \<and> map al_alert_id rows = map (\<lambda>j. ''ALERT-'' @ uids j) [i..<i + length xs] \<and>
   (\<forall>a \<in> set rows. al_status a = A_UNASSIGNED \<and> al_operator a = [] \<and> al_rule_id a = Some (str_int (sg_id g)))"
proof (induction I now uids g i xs arbitrary: rows rule: build_rows.induct)
  case (2 I now uids g i e fp xs)
  obtain a as where r: "build_alert_row I now (uids i) g e fp = Inr a" "build_rows I now uids g (Suc i) xs = Inr as"
    "rows = a # as" using "2.prems" by (auto simp: map_sum_Inr split: sum.splits)
  have u: "[i..<Suc (i + length xs)] = i # [Suc i..<Suc (i + length xs)]" by (rule upt_conv_Cons) simp
  note ih = "2.IH"[OF r(1,2)] and a = build_alert_row_fields[OF r(1)]
  have "map al_fingerprint rows = map snd ((e, fp) # xs)" using ih a r(3) by simp
  moreover have "map al_alert_id rows = map (\<lambda>j. ''ALERT-'' @ uids j) [i..<i + length ((e, fp) # xs)]"
    using ih a r(3) by (simp add: u del: upt_Suc)
  moreover have "\<forall>a \<in> set rows. al_status a = A_UNASSIGNED \<and> al_operator a = [] \<and> al_rule_id a = Some (str_int (sg_id g))"
    using ih a r(3) by simp
  ultimately show ?case by blast
qed simp

text \<open>The stored rows: those of the given rows whose id was free, with fresh keys.\<close>

definition extends :: "alert list \<Rightarrow> alert list \<Rightarrow> db \<Rightarrow> db \<Rightarrow> bool" where
  "extends rows new s t \<longleftrightarrow> t = s\<lparr>db_alerts := db_alerts s @ new\<rparr> \<and>
     subseq (map (\<lambda>a. a\<lparr>al_pk := 0\<rparr>) new) (map (\<lambda>a. a\<lparr>al_pk := 0\<rparr>) rows) \<and> (wf_db s \<longrightarrow> wf_db t)"

lemma bulk_create_extends: "\<exists>new. extends rows new s (bulk_create rows s)"
proof (induction rows arbitrary: s)
  case Nil
  show ?case by (intro exI[of _ "[]"]) (simp add: extends_def)
next
  case (Cons a rows)
  show ?case
  proof (cases "al_alert_id a \<in> al_alert_id ` set (db_alerts s)")
    case True
    obtain new where "extends rows new s (bulk_create rows s)" using Cons by blast
    then have "extends (a # rows) new s (bulk_create rows s)" by (auto simp: extends_def list_emb_Cons)
    moreover have "bulk_create (a # rows) s = bulk_create rows s" using True by simp
    ultimately show ?thesis by metis
  next
    case False
    let ?b = "a\<lparr>al_pk := next_pk s\<rparr>"
    let ?s = "s\<lparr>db_alerts := db_alerts s @ [?b]\<rparr>"
    obtain new where n: "extends rows new ?s (bulk_create rows ?s)" using Cons by blast
    have "wf_db ?s" if "wf_db s" using that False next_pk_fresh[of s] by (auto simp: wf_db_def keyed_def)
    with n have "extends (a # rows) (?b # new) s (bulk_create rows ?s)" by (auto simp: extends_def)
    moreover have "bulk_create (a # rows) s = bulk_create rows ?s" using False by simp
    ultimately show ?thesis by metis
  qed
qed

lemma bulk_create_all:
  "distinct (map al_alert_id rows) \<Longrightarrow> set (map al_alert_id rows) \<inter> al_alert_id ` set (db_alerts s) = {} \<Longrightarrow>
   set (map al_fingerprint rows) \<subseteq> al_fingerprint ` set (filter (\<lambda>b. al_alert_id b \<in> set (map al_alert_id rows)) (db_alerts (bulk_create rows s)))"
proof (induction rows arbitrary: s)
  case (Cons a rows)
  let ?b = "a\<lparr>al_pk := next_pk s\<rparr>"
  let ?s = "s\<lparr>db_alerts := db_alerts s @ [?b]\<rparr>"
  obtain new where n: "extends rows new ?s (bulk_create rows ?s)" using bulk_create_extends by blast
  have b: "?b \<in> set (db_alerts (bulk_create rows ?s))" using n by (simp add: extends_def)
  have c: "bulk_create (a # rows) s = bulk_create rows ?s" using Cons.prems by auto
  have "set (map al_fingerprint rows) \<subseteq>
      al_fingerprint ` set (filter (\<lambda>b. al_alert_id b \<in> set (map al_alert_id rows)) (db_alerts (bulk_create rows ?s)))"
    using Cons.prems by (intro Cons.IH) auto
  moreover have "al_fingerprint a \<in> al_fingerprint ` set (filter (\<lambda>b. al_alert_id b \<in> set (map al_alert_id (a # rows)))
      (db_alerts (bulk_create rows ?s)))"
    using b by (intro image_eqI[of _ _ ?b]) auto
  ultimately show ?case unfolding c by auto
qed simp

text \<open>Building adds unassigned alerts of the given strategies and events; of the other alerts only the
  event lists can change, and no other table does.\<close>

definition linked_only :: "(alert \<Rightarrow> alert) \<Rightarrow> bool" where
  "linked_only h \<longleftrightarrow> (\<forall>a. h a = a\<lparr>al_events := al_events (h a)\<rparr>)"

definition of_hit :: "instant_env \<Rightarrow> (strategy \<times> event) set \<Rightarrow> alert \<Rightarrow> bool" where
  "of_hit I P b \<longleftrightarrow> al_status b = A_UNASSIGNED \<and> al_operator b = [] \<and>
     (\<exists>(g, e) \<in> P. al_fingerprint b = instant_fingerprint I (sg_id g) (ev_event_id e) \<and> al_rule_id b = Some (str_int (sg_id g)))"

definition grown :: "instant_env \<Rightarrow> (strategy \<times> event) set \<Rightarrow> db \<Rightarrow> db \<Rightarrow> bool" where
  "grown I P s t \<longleftrightarrow> (\<exists>h new. linked_only h \<and> list_all (of_hit I P) new \<and>
     t = s\<lparr>db_alerts := map h (db_alerts s) @ new\<rparr> \<and> (wf_db s \<longrightarrow> wf_db t))"

lemma linked_onlyD:
  assumes "linked_only h"
  shows "al_pk (h a) = al_pk a" "al_alert_id (h a) = al_alert_id a" "al_status (h a) = al_status a"
    "al_fingerprint (h a) = al_fingerprint a" "al_operator (h a) = al_operator a" "al_rule_id (h a) = al_rule_id a"
proof -
  have h: "h a = a\<lparr>al_events := al_events (h a)\<rparr>" using assms by (simp add: linked_only_def)
  show "al_pk (h a) = al_pk a" "al_alert_id (h a) = al_alert_id a" "al_status (h a) = al_status a"
    "al_fingerprint (h a) = al_fingerprint a" "al_operator (h a) = al_operator a" "al_rule_id (h a) = al_rule_id a"
    by (subst h, simp)+
qed

lemma link_created_only [simp]: "linked_only (link_created wanted m)"
  by (auto simp: linked_only_def link_created_def split: option.splits)

lemma linked_only_id [simp]: "linked_only (\<lambda>a. a)"
  by (simp add: linked_only_def)

lemma linked_only_comp: "linked_only h \<Longrightarrow> linked_only h' \<Longrightarrow> linked_only (\<lambda>a. h' (h a))"
proof -
  assume "linked_only h" "linked_only h'"
  then have h: "h a = a\<lparr>al_events := al_events (h a)\<rparr>" "h' a = a\<lparr>al_events := al_events (h' a)\<rparr>" for a
    by (simp_all add: linked_only_def)
  have "h' (h a) = a\<lparr>al_events := al_events (h' (h a))\<rparr>" for a
  proof -
    have "h' (h a) = (h a)\<lparr>al_events := al_events (h' (h a))\<rparr>" by (rule h(2))
    also have "\<dots> = a\<lparr>al_events := al_events (h' (h a))\<rparr>" by (subst h(1)) simp
    finally show ?thesis .
  qed
  then show ?thesis by (simp add: linked_only_def)
qed

lemma of_hit_linked: "linked_only h \<Longrightarrow> of_hit I P b \<Longrightarrow> of_hit I P (h b)"
  by (simp add: of_hit_def linked_onlyD)

lemma grown_refl [simp]: "grown I P s s"
  unfolding grown_def by (intro exI[of _ "\<lambda>a. a"] exI[of _ "[]"]) simp

lemma grown_mono: "grown I P s t \<Longrightarrow> P \<subseteq> Q \<Longrightarrow> grown I Q s t"
proof -
  assume "grown I P s t" "P \<subseteq> Q"
  moreover have "of_hit I P b \<Longrightarrow> of_hit I Q b" for b using \<open>P \<subseteq> Q\<close> unfolding of_hit_def by blast
  then have "list_all (of_hit I P) new \<Longrightarrow> list_all (of_hit I Q) new" for new by (simp add: list_all_iff)
  ultimately show ?thesis unfolding grown_def by blast
qed

lemma grown_trans:
  assumes "grown I P s t" "grown I P t u"
  shows "grown I P s u"
proof -
  obtain h new where a: "linked_only h" "list_all (of_hit I P) new"
    "t = s\<lparr>db_alerts := map h (db_alerts s) @ new\<rparr>" "wf_db s \<longrightarrow> wf_db t" using assms(1) unfolding grown_def by blast
  obtain h' new' where b: "linked_only h'" "list_all (of_hit I P) new'"
    "u = t\<lparr>db_alerts := map h' (db_alerts t) @ new'\<rparr>" "wf_db t \<longrightarrow> wf_db u" using assms(2) unfolding grown_def by blast
  have "linked_only (\<lambda>a. h' (h a))" using a(1) b(1) by (rule linked_only_comp)
  moreover have "list_all (of_hit I P) (map h' new @ new')"
    using a(2) b(1,2) of_hit_linked by (auto simp: list_all_iff)
  moreover have "u = s\<lparr>db_alerts := map (\<lambda>a. h' (h a)) (db_alerts s) @ map h' new @ new'\<rparr>" using a(3) b(3) by simp
  moreover have "wf_db s \<longrightarrow> wf_db u" using a(4) b(4) by blast
  ultimately show ?thesis unfolding grown_def by blast
qed

lemma wf_linked: "wf_db s \<Longrightarrow> linked_only h \<Longrightarrow> wf_db (s\<lparr>db_alerts := map h (db_alerts s)\<rparr>)"
  by (simp add: wf_db_def keyed_def linked_onlyD comp_def image_image)

text \<open>The shape of a bucket.\<close>

lemma bucket_shape:
  assumes "build_bucket I now uids g es s = (r, t)"
  shows "t = s \<or> (\<exists>xs rows new h. set xs \<subseteq> (\<lambda>e. (e, instant_fingerprint I (sg_id g) (ev_event_id e))) ` set es \<and>
    xs = filter (\<lambda>(e, fp). active_with fp s = []) (map (\<lambda>e. (e, instant_fingerprint I (sg_id g) (ev_event_id e))) es) \<and>
    build_rows I now uids g 0 xs = Inr rows \<and> extends rows new s (bulk_create rows s) \<and> linked_only h \<and>
    t = s\<lparr>db_alerts := map h (db_alerts s @ new)\<rparr>)"
proof -
  define xs where "xs = filter (\<lambda>(e, fp). active_with fp s = [])
      (map (\<lambda>e. (e, instant_fingerprint I (sg_id g) (ev_event_id e))) es)"
  have eq: "build_bucket I now uids g es s =
      (if xs = [] then (Inr [], s)
       else case build_rows I now uids g 0 xs of
         Inl x \<Rightarrow> (Inl x, s)
       | Inr rows \<Rightarrow> (case store_rows rows (rev (map (\<lambda>(e, fp). (fp, e)) xs)) s of (ids, t) \<Rightarrow> (Inr ids, t)))"
    unfolding build_bucket_def Let_def xs_def by (rule refl)
  show ?thesis
  proof (cases "xs = [] \<or> (\<exists>x. build_rows I now uids g 0 xs = Inl x)")
    case True
    then have "t = s" using assms eq by (auto split: if_splits)
    then show ?thesis by blast
  next
    case False
    then obtain rows where rows: "build_rows I now uids g 0 xs = Inr rows" by (cases "build_rows I now uids g 0 xs") auto
    obtain new where new: "extends rows new s (bulk_create rows s)" using bulk_create_extends by blast
    let ?m = "rev (map (\<lambda>(e, fp). (fp, e)) xs)"
    have "t = snd (store_rows rows ?m s)"
      using assms eq False rows by (auto split: prod.splits)
    then have "t = s\<lparr>db_alerts := map (link_created (map al_alert_id rows) ?m) (db_alerts s @ new)\<rparr>"
      using new by (simp add: store_rows_def Let_def extends_def)
    moreover have "set xs \<subseteq> (\<lambda>e. (e, instant_fingerprint I (sg_id g) (ev_event_id e))) ` set es"
      by (auto simp: xs_def)
    ultimately show ?thesis using rows new link_created_only xs_def by blast
  qed
qed

lemma extends_fields:
  assumes "extends rows new s t" "build_rows I now uids g i xs = Inr rows"
  shows "subseq (map al_fingerprint new) (map snd xs)"
    "b \<in> set new \<Longrightarrow> al_status b = A_UNASSIGNED \<and> al_operator b = [] \<and> al_rule_id b = Some (str_int (sg_id g))"
proof -
  have sub: "subseq (map (\<lambda>a. a\<lparr>al_pk := 0\<rparr>) new) (map (\<lambda>a. a\<lparr>al_pk := 0\<rparr>) rows)" using assms(1) by (simp add: extends_def)
  from subseq_map[OF sub, of al_fingerprint] show "subseq (map al_fingerprint new) (map snd xs)"
    using build_rows_fields[OF assms(2)] by (simp add: comp_def)
  assume b: "b \<in> set new"
  have "b\<lparr>al_pk := 0\<rparr> \<in> set (map (\<lambda>a. a\<lparr>al_pk := 0\<rparr>) new)" using b by simp
  then have "b\<lparr>al_pk := 0\<rparr> \<in> set (map (\<lambda>a. a\<lparr>al_pk := 0\<rparr>) rows)" using list_emb_set[OF sub] by blast
  then obtain a where a: "a \<in> set rows" "b\<lparr>al_pk := 0\<rparr> = a\<lparr>al_pk := 0\<rparr>" by auto
  have "al_status (b\<lparr>al_pk := 0\<rparr>) = al_status (a\<lparr>al_pk := 0\<rparr>)" "al_operator (b\<lparr>al_pk := 0\<rparr>) = al_operator (a\<lparr>al_pk := 0\<rparr>)"
    "al_rule_id (b\<lparr>al_pk := 0\<rparr>) = al_rule_id (a\<lparr>al_pk := 0\<rparr>)" using a(2) by simp_all
  then show "al_status b = A_UNASSIGNED \<and> al_operator b = [] \<and> al_rule_id b = Some (str_int (sg_id g))"
    using build_rows_fields[OF assms(2)] a(1) by simp
qed

lemma bucket_grown:
  assumes "build_bucket I now uids g es s = (r, t)"
  shows "grown I ({g} \<times> set es) s t"
proof -
  consider "t = s" | xs rows new h where
    "set xs \<subseteq> (\<lambda>e. (e, instant_fingerprint I (sg_id g) (ev_event_id e))) ` set es"
    "build_rows I now uids g 0 xs = Inr rows" "extends rows new s (bulk_create rows s)" "linked_only h"
    "t = s\<lparr>db_alerts := map h (db_alerts s @ new)\<rparr>"
    using bucket_shape[OF assms] by blast
  then show ?thesis
  proof cases
    case 1
    then show ?thesis by simp
  next
    case (2 xs rows new h)
    have "of_hit I ({g} \<times> set es) b" if b: "b \<in> set new" for b
    proof -
      have "al_fingerprint b \<in> set (map snd xs)"
        using list_emb_set[OF extends_fields(1)[OF 2(3,2)], of "al_fingerprint b"] b by auto
      then show ?thesis using extends_fields(2)[OF 2(3,2) b] 2(1) by (fastforce simp: of_hit_def)
    qed
    then have "list_all (of_hit I ({g} \<times> set es)) (map h new)"
      using of_hit_linked[OF 2(4)] by (simp add: list_all_iff)
    moreover have "wf_db t" if "wf_db s"
    proof -
      have c: "bulk_create rows s = s\<lparr>db_alerts := db_alerts s @ new\<rparr>" "wf_db (bulk_create rows s)"
        using 2(3) that unfolding extends_def by blast+
      have "wf_db ((bulk_create rows s)\<lparr>db_alerts := map h (db_alerts (bulk_create rows s))\<rparr>)"
        by (rule wf_linked[OF c(2) 2(4)])
      then show ?thesis unfolding 2(5) c(1) by simp
    qed
    ultimately show ?thesis unfolding grown_def using 2(4,5) by (intro exI[of _ h] exI[of _ "map h new"]) simp
  qed
qed

lemma buckets_grown:
  "build_buckets I now uids bs ids s = (r, t) \<Longrightarrow> grown I (\<Union>(g, es) \<in> set bs. {g} \<times> set es) s t"
proof (induction I now uids bs ids s rule: build_buckets.induct)
  case (2 I now uids g es bs ids s)
  obtain x u where b: "build_bucket I now (uids (sg_id g)) g es s = (x, u)" by (metis surj_pair)
  let ?P = "\<Union>(g, es) \<in> set ((g, es) # bs). {g} \<times> set es"
  have one: "grown I ?P s u" by (rule grown_mono[OF bucket_grown[OF b]]) auto
  show ?case
  proof (cases x)
    case (Inl e)
    then show ?thesis using "2.prems" b one by simp
  next
    case (Inr new)
    have "grown I (\<Union>(g, es) \<in> set bs. {g} \<times> set es) u t" using "2.IH"[OF b[symmetric] Inr] "2.prems" b Inr by simp
    then have "grown I ?P u t" by (rule grown_mono) auto
    with one show ?thesis by (rule grown_trans)
  qed
qed simp

lemma live_hitsD:
  assumes "(g, e) \<in> set (live_hits hits s)"
  shows "tfind sg_id (sg_id g) (db_strategies s) = Some g" "event_by_id (ev_event_id e) s = Some e"
    "(sg_id g, ev_event_id e) \<in> set hits"
proof -
  obtain sid eid where h: "(sid, eid) \<in> set hits" "tfind sg_id sid (db_strategies s) = Some g" "event_by_id eid s = Some e"
    using assms by (auto simp: live_hits_def split: option.splits)
  have "sg_id g = sid" "ev_event_id e = eid"
    using tfind_key[OF h(2)] tfind_key[OF h(3)[unfolded event_by_id_def]] .
  with h show "tfind sg_id (sg_id g) (db_strategies s) = Some g" "event_by_id (ev_event_id e) s = Some e"
    "(sg_id g, ev_event_id e) \<in> set hits" by simp_all
qed

lemma live_hitsI:
  "(sid, eid) \<in> set hits \<Longrightarrow> tfind sg_id sid (db_strategies s) = Some g \<Longrightarrow> event_by_id eid s = Some e \<Longrightarrow>
   (g, e) \<in> set (live_hits hits s)"
  by (force simp: live_hits_def)

lemma by_sid_pairs: "(\<Union>(g, es) \<in> set (by_sid (live_hits hits s)). {g} \<times> set es) \<subseteq> set (live_hits hits s)"
proof -
  have same: "g = g'" if "(g, e) \<in> set (live_hits hits s)" "(g', e') \<in> set (live_hits hits s)" "sg_id g = sg_id g'" for g g' e e'
    using live_hitsD(1)[OF that(1)] live_hitsD(1)[OF that(2)] that(3) by (metis option.inject)
  have "(g, e) \<in> set (live_hits hits s)"
    if "(g, es) \<in> set (by_sid (live_hits hits s))" "e \<in> set es" for g e es
  proof -
    note pair = that
    have "g \<in> set (dedup_on sg_id (map fst (live_hits hits s)))" using pair(1) by (auto simp: by_sid_def)
    then have "g \<in> fst ` set (live_hits hits s)" using dedup_on_subset by fastforce
    then obtain e' where "(g, e') \<in> set (live_hits hits s)" by fastforce
    moreover obtain g' where "(g', e) \<in> set (live_hits hits s)" "sg_id g' = sg_id g"
      using pair by (auto simp: by_sid_def)
    ultimately show ?thesis using same[of g e' g' e] by simp
  qed
  then show ?thesis by auto
qed

lemma bulk_build_grown:
  "bulk_build_instant_alerts I now uids hits s = (r, t) \<Longrightarrow> grown I (set (live_hits hits s)) s t"
  unfolding bulk_build_instant_alerts_def by (rule grown_mono[OF buckets_grown by_sid_pairs])

section \<open>No second active alert\<close>

definition active_fps :: "db \<Rightarrow> string list" where
  "active_fps s = map al_fingerprint (filter (\<lambda>a. al_status a \<in> set ACTIVATE_STATUS) (db_alerts s))"

lemma active_with_fps: "active_with fp s \<noteq> [] \<longleftrightarrow> fp \<in> set (active_fps s)"
  by (auto simp: active_with_def active_fps_def filter_empty_conv)

lemma active_unique_fps: "active_unique s \<longleftrightarrow> distinct (active_fps s)"
  by (simp add: active_unique_def active_fps_def)

lemma active_fps_grown:
  assumes "linked_only h" "\<And>b. b \<in> set new \<Longrightarrow> al_status b = A_UNASSIGNED" "db_alerts t = map h (db_alerts s @ new)"
  shows "active_fps t = active_fps s @ map al_fingerprint new"
proof -
  have "filter (\<lambda>a. al_status a \<in> set ACTIVATE_STATUS) new = new"
    using assms(2) by (auto simp: filter_id_conv ACTIVATE_STATUS_def)
  then show ?thesis using assms(1,3) by (simp add: active_fps_def filter_map comp_def linked_onlyD)
qed

lemma subseq_distinct: "subseq xs ys \<Longrightarrow> distinct ys \<Longrightarrow> distinct xs"
proof (induction rule: list_emb.induct)
  case (list_emb_Cons2 x y xs ys)
  then show ?case using list_emb_set[of "(=)" xs ys x] by auto
qed auto

lemma bucket_unique:
  assumes "build_bucket I now uids g es s = (r, t)" "active_unique s"
    and "distinct (map (\<lambda>e. instant_fingerprint I (sg_id g) (ev_event_id e)) es)"
  shows "active_unique t"
proof -
  consider "t = s" | xs rows new h where
    "xs = filter (\<lambda>(e, fp). active_with fp s = []) (map (\<lambda>e. (e, instant_fingerprint I (sg_id g) (ev_event_id e))) es)"
    "build_rows I now uids g 0 xs = Inr rows" "extends rows new s (bulk_create rows s)" "linked_only h"
    "t = s\<lparr>db_alerts := map h (db_alerts s @ new)\<rparr>"
    using bucket_shape[OF assms(1)] by blast
  then show ?thesis
  proof cases
    case 1
    then show ?thesis using assms(2) by simp
  next
    case (2 xs rows new h)
    have f: "active_fps t = active_fps s @ map al_fingerprint new"
      by (rule active_fps_grown[OF 2(4)]) (use extends_fields(2)[OF 2(3,2)] 2(5) in auto)
    have sub: "subseq (map al_fingerprint new) (map snd xs)" by (rule extends_fields(1)[OF 2(3,2)])
    have "distinct (map snd xs)" using assms(3) unfolding 2(1) by (intro distinct_map_filter) (simp add: comp_def)
    moreover have "set (map al_fingerprint new) \<subseteq> set (map snd xs)" using list_emb_set[OF sub] by blast
    moreover have "set (map snd xs) \<inter> set (active_fps s) = {}"
      unfolding 2(1) by (auto simp flip: active_with_fps)
    ultimately show ?thesis
      using assms(2) subseq_distinct[OF sub] by (auto simp: active_unique_fps f)
  qed
qed

lemma buckets_unique:
  "build_buckets I now uids bs ids s = (r, t) \<Longrightarrow> active_unique s \<Longrightarrow>
   \<forall>(g, es) \<in> set bs. distinct (map (\<lambda>e. instant_fingerprint I (sg_id g) (ev_event_id e)) es) \<Longrightarrow> active_unique t"
proof (induction I now uids bs ids s rule: build_buckets.induct)
  case (2 I now uids g es bs ids s)
  obtain x u where b: "build_bucket I now (uids (sg_id g)) g es s = (x, u)" by (metis surj_pair)
  have "active_unique u" using bucket_unique[OF b "2.prems"(2)] "2.prems"(3) by simp
  then show ?case using "2.IH"[OF b[symmetric]] "2.prems" b by (cases x) simp_all
qed simp

lemma distinct_live:
  assumes "distinct hits"
  shows "distinct (map (\<lambda>(g, e). (sg_id g, ev_event_id e)) (live_hits hits s))"
proof -
  have "subseq (map (\<lambda>(g, e). (sg_id g, ev_event_id e)) (live_hits hs s)) hs" for hs
  proof (induction hs)
    case (Cons p hs)
    obtain sid eid where p: "p = (sid, eid)" by fastforce
    show ?case
    proof (cases "\<exists>g e. tfind sg_id sid (db_strategies s) = Some g \<and> event_by_id eid s = Some e")
      case True
      then obtain g e where t: "tfind sg_id sid (db_strategies s) = Some g" "event_by_id eid s = Some e" by blast
      have "sg_id g = sid" "ev_event_id e = eid"
        using tfind_key[OF t(1)] tfind_key[OF t(2)[unfolded event_by_id_def]] .
      then show ?thesis using Cons t by (simp add: p live_hits_def)
    next
      case False
      then have "live_hits (p # hs) s = live_hits hs s" by (auto simp: p live_hits_def split: option.splits)
      then show ?thesis using Cons by (simp add: list_emb_Cons)
    qed
  qed (simp add: live_hits_def)
  then show ?thesis using assms subseq_distinct by blast
qed

text \<open>No two of the given events collide under MD5.\<close>

definition collision_free :: "instant_env \<Rightarrow> hit list \<Rightarrow> bool" where
  "collision_free I hits \<longleftrightarrow> inj_on (\<lambda>(sid, eid). instant_fingerprint I sid eid) (set hits)"

lemma bucket_fps_distinct:
  assumes "distinct hits" "collision_free I hits" "(g, es) \<in> set (by_sid (live_hits hits s))"
  shows "distinct (map (\<lambda>e. instant_fingerprint I (sg_id g) (ev_event_id e)) es)"
proof -
  let ?live = "filter (\<lambda>(g', e). sg_id g' = sg_id g) (live_hits hits s)"
  have es: "es = map snd ?live" using assms(3) by (auto simp: by_sid_def)
  have d: "distinct (map (\<lambda>(g, e). (sg_id g, ev_event_id e)) ?live)"
    using distinct_live[OF assms(1), of s] by (rule distinct_map_filter)
  have "(\<lambda>(g, e). (sg_id g, ev_event_id e)) ` set ?live \<subseteq> set hits" using live_hitsD(3) by fastforce
  then have "inj_on (\<lambda>(sid, eid). instant_fingerprint I sid eid) (set (map (\<lambda>(g, e). (sg_id g, ev_event_id e)) ?live))"
    using assms(2) unfolding collision_free_def by (simp add: inj_on_subset)
  with d have "distinct (map (\<lambda>(sid, eid). instant_fingerprint I sid eid) (map (\<lambda>(g, e). (sg_id g, ev_event_id e)) ?live))"
    by (simp only: distinct_map)
  moreover have "map (\<lambda>(sid, eid). instant_fingerprint I sid eid) (map (\<lambda>(g, e). (sg_id g, ev_event_id e)) ?live) =
      map (\<lambda>e. instant_fingerprint I (sg_id g) (ev_event_id e)) es"
    unfolding es by (auto simp: comp_def)
  ultimately show ?thesis by simp
qed

lemma building_unique:
  assumes "active_unique s" "distinct hits" "collision_free I hits"
    and "bulk_build_instant_alerts I now uids hits s = (r, t)"
  shows "active_unique t"
  using buckets_unique[OF assms(4)[unfolded bulk_build_instant_alerts_def] assms(1)] bucket_fps_distinct[OF assms(2,3)]
  by blast

section \<open>Every hit has an alert\<close>

definition uid_ids :: "(nat \<Rightarrow> string) \<Rightarrow> string set" where
  "uid_ids uids = range (\<lambda>j. ''ALERT-'' @ uids j)"

lemma grown_active: "grown I P s t \<Longrightarrow> fp \<in> set (active_fps s) \<Longrightarrow> fp \<in> set (active_fps t)"
proof -
  assume "grown I P s t" and a: "fp \<in> set (active_fps s)"
  then obtain h new where h: "linked_only h" "db_alerts t = map h (db_alerts s) @ new" by (auto simp: grown_def)
  from a obtain x where x: "x \<in> set (db_alerts s)" "al_status x \<in> set ACTIVATE_STATUS" "fp = al_fingerprint x"
    by (auto simp: active_fps_def)
  have "h x \<in> set (filter (\<lambda>a. al_status a \<in> set ACTIVATE_STATUS) (db_alerts t))" "al_fingerprint (h x) = fp"
    using x h(2) linked_onlyD[OF h(1)] by simp_all
  then show ?thesis unfolding active_fps_def by (metis image_eqI list.set_map)
qed

lemma bucket_ids:
  assumes "build_bucket I now uids g es s = (r, t)"
  shows "al_alert_id ` set (db_alerts t) \<subseteq> uid_ids uids \<union> al_alert_id ` set (db_alerts s)"
proof -
  consider "t = s" | xs rows new h where
    "build_rows I now uids g 0 xs = Inr rows" "extends rows new s (bulk_create rows s)" "linked_only h"
    "t = s\<lparr>db_alerts := map h (db_alerts s @ new)\<rparr>"
    using bucket_shape[OF assms] by blast
  then show ?thesis
  proof cases
    case (2 xs rows new h)
    have "subseq (map (\<lambda>a. a\<lparr>al_pk := 0\<rparr>) new) (map (\<lambda>a. a\<lparr>al_pk := 0\<rparr>) rows)" using 2(2) by (simp add: extends_def)
    from subseq_map[OF this, of al_alert_id] have "subseq (map al_alert_id new) (map al_alert_id rows)" by (simp add: comp_def)
    then have "set (map al_alert_id new) \<subseteq> set (map al_alert_id rows)"
      using list_emb_set[of "(=)" "map al_alert_id new"] by (metis subsetI)
    also have "\<dots> \<subseteq> uid_ids uids" using build_rows_fields[OF 2(1)] by (auto simp: uid_ids_def simp del: upt_Suc)
    finally show ?thesis using 2(3,4) by (auto simp: linked_onlyD)
  qed auto
qed

lemma bucket_active:
  assumes "build_bucket I now uids g es s = (Inr ids, t)" "inj uids" "uid_ids uids \<inter> al_alert_id ` set (db_alerts s) = {}"
    and "e \<in> set es"
  shows "instant_fingerprint I (sg_id g) (ev_event_id e) \<in> set (active_fps t)"
proof (cases "instant_fingerprint I (sg_id g) (ev_event_id e) \<in> set (active_fps s)")
  case True
  then show ?thesis by (rule grown_active[OF bucket_grown[OF assms(1)]])
next
  case False
  define xs where "xs = filter (\<lambda>(e, fp). active_with fp s = [])
      (map (\<lambda>e. (e, instant_fingerprint I (sg_id g) (ev_event_id e))) es)"
  have fp: "instant_fingerprint I (sg_id g) (ev_event_id e) \<in> set (map snd xs)"
    using False assms(4) active_with_fps by (force simp: xs_def)
  then have ne: "xs \<noteq> []" by auto
  obtain rows where rows: "build_rows I now uids g 0 xs = Inr rows"
    using assms(1) ne by (auto simp: build_bucket_def Let_def simp flip: xs_def split: sum.splits)
  note f = build_rows_fields[OF rows]
  let ?m = "rev (map (\<lambda>(e, fp). (fp, e)) xs)"
  let ?h = "link_created (map al_alert_id rows) ?m"
  have t: "db_alerts t = map ?h (db_alerts (bulk_create rows s))"
    using assms(1) ne rows by (auto simp: build_bucket_def Let_def store_rows_def simp flip: xs_def)
  have "set (map al_alert_id rows) \<subseteq> uid_ids uids" using f by (auto simp: uid_ids_def simp del: upt_Suc)
  then have fresh: "set (map al_alert_id rows) \<inter> al_alert_id ` set (db_alerts s) = {}" using assms(3) by blast
  have "distinct (map al_alert_id rows)" using f assms(2) by (simp add: distinct_map inj_on_def)
  from bulk_create_all[OF this fresh] fp f
  obtain b where b: "b \<in> set (db_alerts (bulk_create rows s))" "al_alert_id b \<in> set (map al_alert_id rows)"
    "al_fingerprint b = instant_fingerprint I (sg_id g) (ev_event_id e)" by auto
  obtain new where n: "extends rows new s (bulk_create rows s)" using bulk_create_extends by blast
  have "b \<in> set new" using b(1,2) n fresh by (auto simp: extends_def)
  then have "al_status b = A_UNASSIGNED" using extends_fields(2)[OF n rows] by blast
  then have "?h b \<in> set (filter (\<lambda>a. al_status a \<in> set ACTIVATE_STATUS) (db_alerts t))"
    using b(1) t by (simp add: linked_onlyD ACTIVATE_STATUS_def)
  then show ?thesis unfolding active_fps_def using b(3)
    by (metis (mono_tags, lifting) image_eqI link_created_only linked_onlyD(4) list.set_map)
qed

lemma buckets_active:
  "build_buckets I now uids bs ids s = (Inr ids', t) \<Longrightarrow> inj (\<lambda>(sid, j). uids sid j) \<Longrightarrow>
   distinct (map (\<lambda>(g, es). sg_id g) bs) \<Longrightarrow>
   \<forall>(g, es) \<in> set bs. uid_ids (uids (sg_id g)) \<inter> al_alert_id ` set (db_alerts s) = {} \<Longrightarrow>
   (g, es) \<in> set bs \<Longrightarrow> e \<in> set es \<Longrightarrow> instant_fingerprint I (sg_id g) (ev_event_id e) \<in> set (active_fps t)"
proof (induction I now uids bs ids s rule: build_buckets.induct)
  case (2 I now uids g0 es0 bs ids s)
  obtain new u where b: "build_bucket I now (uids (sg_id g0)) g0 es0 s = (Inr new, u)"
    "build_buckets I now uids bs (ids @ new) u = (Inr ids', t)"
    using "2.prems"(1) by (auto split: prod.splits sum.splits)
  have inj1: "inj (uids (sg_id g0))" using "2.prems"(2) by (auto simp: inj_on_def)
  show ?case
  proof (cases "(g, es) \<in> set bs")
    case True
    have "uid_ids (uids (sg_id g')) \<inter> al_alert_id ` set (db_alerts u) = {}" if g': "(g', es') \<in> set bs" for g' es'
    proof -
      have "sg_id g' \<noteq> sg_id g0" using "2.prems"(3) g' by force
      then have "uid_ids (uids (sg_id g')) \<inter> uid_ids (uids (sg_id g0)) = {}"
        using "2.prems"(2) by (fastforce simp: uid_ids_def inj_on_def)
      moreover have "uid_ids (uids (sg_id g')) \<inter> al_alert_id ` set (db_alerts s) = {}" using "2.prems"(4) g' by fastforce
      ultimately show ?thesis using bucket_ids[OF b(1)] by blast
    qed
    then show ?thesis using "2.IH"[OF b(1)[symmetric] refl b(2) "2.prems"(2)] "2.prems"(3,6) True by fastforce
  next
    case False
    then have "g = g0" "es = es0" using "2.prems"(5) by auto
    then have "instant_fingerprint I (sg_id g) (ev_event_id e) \<in> set (active_fps u)"
      using bucket_active[OF b(1) inj1 _ , of e] "2.prems"(4,6) by auto
    then show ?thesis by (rule grown_active[OF buckets_grown[OF b(2)]])
  qed
qed simp

lemma by_sid_has:
  assumes "(g, e) \<in> set (live_hits hits s)"
  shows "\<exists>g' es. (g', es) \<in> set (by_sid (live_hits hits s)) \<and> sg_id g' = sg_id g \<and> e \<in> set es"
proof -
  let ?es = "\<lambda>g. map snd (filter (\<lambda>(g', e). sg_id g' = sg_id g) (live_hits hits s))"
  have "sg_id g \<in> sg_id ` set (map fst (live_hits hits s))" using assms by force
  then obtain g' where g': "g' \<in> set (dedup_on sg_id (map fst (live_hits hits s)))" "sg_id g' = sg_id g"
    using dedup_on_keys[of sg_id "map fst (live_hits hits s)"] by (metis imageE)
  have "(g', ?es g') \<in> set (by_sid (live_hits hits s))" unfolding by_sid_def set_map by (rule image_eqI[OF refl g'(1)])
  moreover have "e \<in> set (?es g')" using assms g'(2) by force
  ultimately show ?thesis using g'(2) by blast
qed

lemma by_sid_distinct: "distinct (map (\<lambda>(g, es). sg_id g) (by_sid live))"
  using dedup_on_distinct[of sg_id "map fst live"] by (simp add: by_sid_def comp_def)

lemma build_buckets_idle:
  "\<forall>(g, es) \<in> set bs. \<forall>e \<in> set es. instant_fingerprint I (sg_id g) (ev_event_id e) \<in> set (active_fps t) \<Longrightarrow>
   build_buckets I now uids bs ids t = (Inr ids, t)"
proof (induction bs arbitrary: ids)
  case (Cons b bs)
  obtain g es where b: "b = (g, es)" by fastforce
  have "filter (\<lambda>(e, fp). active_with fp t = []) (map (\<lambda>e. (e, instant_fingerprint I (sg_id g) (ev_event_id e))) es) = []"
    using Cons.prems by (auto simp: b filter_empty_conv simp flip: active_with_fps)
  then have "build_bucket I now (uids (sg_id g)) g es t = (Inr [], t)" by (simp add: build_bucket_def Let_def)
  then show ?case using Cons by (simp add: b)
qed simp

section \<open>Properties\<close>

text \<open>C19: building instant alerts is idempotent: after a successful build every hit whose strategy and
  event exist has an active alert with its fingerprint, and building the same hits again, at any
  time and with any UUIDs, reports no new alert and changes nothing. The UUIDs drawn are distinct and new.\<close>

theorem instant_build_idempotent:
  assumes "bulk_build_instant_alerts I now uids hits s = (Inr ids, t)"
    and "inj (\<lambda>(sid, j). uids sid j)" "\<forall>sid j. ''ALERT-'' @ uids sid j \<notin> al_alert_id ` set (db_alerts s)"
  shows "(\<forall>(sid, eid) \<in> set hits. tfind sg_id sid (db_strategies s) \<noteq> None \<longrightarrow> event_by_id eid s \<noteq> None \<longrightarrow>
      active_with (instant_fingerprint I sid eid) t \<noteq> []) \<and>
    bulk_build_instant_alerts I now' uids' hits t = (Inr [], t)"
proof -
  let ?bs = "by_sid (live_hits hits s)"
  note b = assms(1)[unfolded bulk_build_instant_alerts_def]
  have fresh: "\<forall>(g, es) \<in> set ?bs. uid_ids (uids (sg_id g)) \<inter> al_alert_id ` set (db_alerts s) = {}"
    using assms(3) by (auto simp: uid_ids_def)
  have act: "instant_fingerprint I (sg_id g) (ev_event_id e) \<in> set (active_fps t)" if "(g, es) \<in> set ?bs" "e \<in> set es" for g es e
    by (rule buckets_active[OF b assms(2) by_sid_distinct fresh that])
  have "db_strategies t = db_strategies s" "db_events t = db_events s"
    using bulk_build_grown[OF assms(1)] by (auto simp: grown_def)
  then have "live_hits hits t = live_hits hits s" by (simp add: live_hits_def event_by_id_def)
  then have "bulk_build_instant_alerts I now' uids' hits t = (Inr [], t)"
    using act by (simp add: bulk_build_instant_alerts_def) (rule build_buckets_idle, blast)
  moreover have "active_with (instant_fingerprint I sid eid) t \<noteq> []"
    if "(sid, eid) \<in> set hits" "tfind sg_id sid (db_strategies s) = Some g" "event_by_id eid s = Some e" for sid eid g e
  proof -
    note hit = that
    obtain g' es where "(g', es) \<in> set ?bs" "sg_id g' = sg_id g" "e \<in> set es"
      using by_sid_has[OF live_hitsI[OF hit]] by blast
    moreover have "sg_id g = sid" "ev_event_id e = eid"
      using tfind_key[OF hit(2)] tfind_key[OF hit(3)[unfolded event_by_id_def]] .
    ultimately show ?thesis using act by (auto simp: active_with_fps)
  qed
  ultimately show ?thesis by auto
qed

text \<open>Building instant alerts never leaves two active alerts with one fingerprint: if the hits are
  distinct and do not collide under MD5, the fingerprints of active alerts stay distinct and the
  database well formed, also when a template makes the build fail in the middle.\<close>

theorem instant_alerts_unique:
  assumes "wf_db s" "active_unique s" "distinct hits" "collision_free I hits"
    and "bulk_build_instant_alerts I now uids hits s = (r, t)"
  shows "wf_db t \<and> active_unique t"
  using building_unique[OF assms(2-5)] bulk_build_grown[OF assms(5)] assms(1) by (auto simp: grown_def)

lemma collect_hits_from:
  "(sid, eid) \<in> set (collect_loop env ps hits) \<Longrightarrow> (sid, eid) \<in> set hits \<or>
   (\<exists>e rules. (e, sid, rules) \<in> set ps \<and> ev_event_id e = eid \<and> match_in_memory env e rules)"
  by (induction env ps hits rule: collect_loop.induct) (fastforce simp: Let_def split: if_splits)+

lemma excluded_shielded:
  assumes "e \<in> set (exclude_shielded es s)" "x \<in> set (db_events s)" "ev_event_id x = ev_event_id e"
  shows "ev_status x \<noteq> E_SHIELD"
proof
  assume sh: "ev_status x = E_SHIELD"
  define bad where "bad = map ev_event_id (filter (\<lambda>e. ev_event_id e \<in> ev_event_id ` set es \<and> ev_status e = E_SHIELD) (db_events s))"
  have eq: "exclude_shielded es s = (if bad = [] then es else filter (\<lambda>e. ev_event_id e \<notin> set bad) es)"
    by (simp add: exclude_shielded_def bad_def Let_def)
  then have "e \<in> set es" using assms(1) by (auto split: if_splits)
  then have "ev_event_id x \<in> ev_event_id ` set es" using assms(3) by simp
  then have "ev_event_id x \<in> set bad" using assms(2) sh by (simp add: bad_def)
  then have "ev_event_id e \<in> set bad" using assms(3) by simp
  moreover from this have "bad \<noteq> []" by auto
  ultimately show False using assms(1) eq by simp
qed

lemma trigger_alerts [simp]: "db_alerts (trigger_dispatch_async ids s) = db_alerts s"
  by (simp add: trigger_dispatch_async_def)

lemma build_and_trigger_new:
  assumes "a \<in> set (db_alerts (build_and_trigger I now uids hits s))" "al_pk a \<notin> al_pk ` set (db_alerts s)"
  shows "of_hit I (set (live_hits hits s)) a"
proof -
  obtain r t where b: "bulk_build_instant_alerts I now uids hits s = (r, t)" by (metis surj_pair)
  have a: "a \<in> set (db_alerts t)" using assms(1) b by (cases r) (simp_all add: build_and_trigger_def)
  obtain h new where g: "linked_only h" "list_all (of_hit I (set (live_hits hits s))) new"
    "db_alerts t = map h (db_alerts s) @ new" using bulk_build_grown[OF b] by (auto simp: grown_def)
  have "a \<in> set new" using a g(1,3) assms(2) by (auto simp: linked_onlyD)
  then show ?thesis using g(2) by (simp add: list_all_iff)
qed

text \<open>C24: every alert the dispatcher creates is wanted: it is unassigned and comes from an event of the
  batch that is a created event, is not shielded in the database and matches the rules of one of
  the strategies in force; it has the fingerprint of that event and names that strategy.\<close>

theorem instant_alerts_wanted:
  assumes "dispatch I now uids broker bulk (cached, s) = (cached', t)"
    and "a \<in> set (db_alerts t)" "al_pk a \<notin> al_pk ` set (db_alerts s)"
  shows "al_status a = A_UNASSIGNED \<and>
    (\<exists>e \<in> set (concat bulk). \<exists>(sid, rules) \<in> set (cache_get cached s).
       ev_action e = EA_CREATED \<and> match_in_memory (in_mem I) e rules \<and>
       list_all (\<lambda>d. ev_event_id d = ev_event_id e \<longrightarrow> ev_status d \<noteq> E_SHIELD) (db_events s) \<and>
       al_fingerprint a = instant_fingerprint I sid (ev_event_id e) \<and> al_rule_id a = Some (str_int sid))"
proof -
  define es where "es = exclude_shielded (filter (\<lambda>e. ev_action e = EA_CREATED) (concat bulk)) s"
  define hits where "hits = collect_hits (in_mem I) es (cache_get cached s)"
  have "a \<in> set (db_alerts (build_and_trigger I now uids hits s))"
    using assms by (auto simp: dispatch_def Let_def simp flip: es_def hits_def split: if_splits)
  from build_and_trigger_new[OF this assms(3)] obtain g d where a: "al_status a = A_UNASSIGNED"
    "(g, d) \<in> set (live_hits hits s)" "al_fingerprint a = instant_fingerprint I (sg_id g) (ev_event_id d)"
    "al_rule_id a = Some (str_int (sg_id g))" by (auto simp: of_hit_def)
  from live_hitsD(3)[OF a(2)] obtain e rules where e: "e \<in> set es" "(sg_id g, rules) \<in> set (cache_get cached s)"
    "ev_event_id e = ev_event_id d" "match_in_memory (in_mem I) e rules"
    unfolding hits_def collect_hits_def by (auto dest!: collect_hits_from)
  have "e \<in> set (concat bulk)" "ev_action e = EA_CREATED"
    using e(1) by (auto simp: es_def exclude_shielded_def Let_def split: if_splits)
  moreover have "ev_status x \<noteq> E_SHIELD" if "x \<in> set (db_events s)" "ev_event_id x = ev_event_id e" for x
    using excluded_shielded[OF e(1)[unfolded es_def] that] .
  then have "list_all (\<lambda>d. ev_event_id d = ev_event_id e \<longrightarrow> ev_status d \<noteq> E_SHIELD) (db_events s)"
    by (auto simp: list_all_iff)
  ultimately show ?thesis using a(1,3,4) e(2-4)
    by (intro conjI bexI[of _ e] bexI[of _ "(sg_id g, rules)"]) simp_all
qed

text \<open>A strategy for instant alerts with a template, and a batch with one event.\<close>

definition instant_sample :: instant_env where
  "instant_sample = \<lparr>in_md5 = id, in_mem = probe_env, in_field = (\<lambda>_ _ _. Inl AttributeError)\<rparr>"

definition instant_strategy :: "string \<Rightarrow> strategy" where
  "instant_strategy title = sample_strategy\<lparr>sg_id := 4, sg_type := ST_INSTANT, sg_match_rules := probe_rules,
     sg_params := JObj [(''alert_template'', JObj [(''title'', JStr title)])]\<rparr>"

definition instant_db :: db where
  "instant_db = sample_db\<lparr>db_strategies := [instant_strategy ''{item} on {resource_name}''], db_events := [probe_event]\<rparr>"

definition instant_uids :: "int \<Rightarrow> nat \<Rightarrow> string" where
  "instant_uids sid j = (if sid < 0 then ''a'' else ''b'') @ replicate (nat \<bar>sid\<bar>) CHR ''x'' @ ''-'' @ replicate j CHR ''x''"

lemma replicate_dash: "replicate m CHR ''x'' @ CHR ''-'' # u = replicate n CHR ''x'' @ CHR ''-'' # v \<Longrightarrow> m = n \<and> u = v"
proof (induction m arbitrary: n)
  case 0
  then show ?case by (cases n) auto
next
  case (Suc m)
  then show ?case by (cases n) auto
qed

lemma instant_uids_inj: "inj (\<lambda>(sid, j). instant_uids sid j)"
proof (rule injI, clarify)
  fix s j s' j' assume e: "instant_uids s j = instant_uids s' j'"
  then have "(s < 0) = (s' < 0)" by (auto simp: instant_uids_def split: if_splits)
  moreover have "nat \<bar>s\<bar> = nat \<bar>s'\<bar> \<and> replicate j CHR ''x'' = replicate j' CHR ''x''"
    using e calculation by (auto simp: instant_uids_def dest!: replicate_dash split: if_splits)
  ultimately show "s = s' \<and> j = j'" by (auto dest: arg_cong[where f = length])
qed

lemma instant_db_wf: "wf_db instant_db"
  by (simp add: instant_db_def instant_strategy_def sample_defs wf_db_def keyed_def)

theorem instant_build_idempotent_witness:
  "bulk_build_instant_alerts instant_sample 20 instant_uids [(4, ''E1'')]
     (snd (bulk_build_instant_alerts instant_sample 10 instant_uids [(4, ''E1'')] instant_db)) =
   (Inr [], snd (bulk_build_instant_alerts instant_sample 10 instant_uids [(4, ''E1'')] instant_db)) \<and>
   length (db_alerts (snd (bulk_build_instant_alerts instant_sample 10 instant_uids [(4, ''E1'')] instant_db))) = 2"
proof -
  let ?b = "bulk_build_instant_alerts instant_sample 10 instant_uids [(4, ''E1'')] instant_db"
  have "fst ?b = Inr [''ALERT-bxxxx-'']" "length (db_alerts (snd ?b)) = 2" by code_simp+
  then obtain t where b: "?b = (Inr [''ALERT-bxxxx-''], t)" "length (db_alerts t) = 2" by (metis prod.collapse snd_conv)
  have f: "\<forall>sid j. ''ALERT-'' @ instant_uids sid j \<notin> al_alert_id ` set (db_alerts instant_db)"
    by (auto simp: instant_db_def sample_defs)
  from instant_build_idempotent[OF b(1) instant_uids_inj f] b show ?thesis by simp
qed

theorem instant_alerts_unique_witness:
  "active_unique (snd (bulk_build_instant_alerts instant_sample 10 instant_uids [(4, ''E1''), (4, ''E2'')] instant_db))"
proof -
  obtain r t where b: "bulk_build_instant_alerts instant_sample 10 instant_uids [(4, ''E1''), (4, ''E2'')] instant_db = (r, t)"
    by (metis surj_pair)
  have u: "active_unique instant_db" by (simp add: active_unique_def instant_db_def sample_db_def)
  have d: "distinct [(4 :: int, ''E1''), (4, ''E2'')]" "collision_free instant_sample [(4, ''E1''), (4, ''E2'')]"
    by (auto simp: collision_free_def inj_on_def instant_fingerprint_def instant_sample_def)
  from instant_alerts_unique[OF instant_db_wf u d b] b show ?thesis by simp
qed

theorem instant_alerts_wanted_witness:
  "map (\<lambda>a. (al_title a, al_status a)) (tl (db_alerts (snd (dispatch instant_sample 10 instant_uids True [[probe_event]]
     (None, instant_db))))) = [(''cpu on h1'', A_UNASSIGNED)]"
proof -
  let ?d = "dispatch instant_sample 10 instant_uids True [[probe_event]] (None, instant_db)"
  obtain c t where d: "?d = (c, t)" by (metis surj_pair)
  have "map (\<lambda>a. (al_title a, al_pk a)) (tl (db_alerts (snd ?d))) = [(''cpu on h1'', 2)]" by code_simp
  then obtain a where a: "tl (db_alerts t) = [a]" "al_title a = ''cpu on h1''" "al_pk a = 2"
    using d by (cases "tl (db_alerts t)") auto
  have "a \<in> set (db_alerts t)" using a(1) by (metis list.set_intros(1) list.set_sel(2) list.sel(2) list.distinct(1))
  moreover have "al_pk a \<notin> al_pk ` set (db_alerts instant_db)" using a(3) by (simp add: instant_db_def sample_defs)
  ultimately have "al_status a = A_UNASSIGNED" using instant_alerts_wanted[OF d] by blast
  then show ?thesis using a d by simp
qed

text \<open>The check for existing alerts looks at the database before the batch is stored, and the
  fingerprint is not unique there: the same hit twice in one batch gives two active alerts.\<close>

lemma repeated_hit_duplicates:
  "active_fps (snd (bulk_build_instant_alerts instant_sample 10 instant_uids [(4, ''E1''), (4, ''E1'')] instant_db)) =
   [''f'', ''instant:4:E1'', ''instant:4:E1'']"
  by code_simp

text \<open>A template whose field raises another exception than those caught ends the whole batch.\<close>

lemma bad_template_stops_batch:
  "db_alerts (snd (dispatch instant_sample 10 instant_uids True [[probe_event]]
     (None, instant_db\<lparr>db_strategies := [instant_strategy ''{title.owner}'']\<rparr>))) = db_alerts instant_db"
  by code_simp

section \<open>Bounds\<close>

lemma collect_loop_bound: "length hits < INSTANT_HIT_CEILING \<Longrightarrow> length (collect_loop env ps hits) \<le> INSTANT_HIT_CEILING"
  by (induction env ps hits rule: collect_loop.induct) (auto simp: Let_def)

lemma bucket_length:
  assumes "build_bucket I now uids g es s = (r, t)"
  shows "length (db_alerts t) \<le> length (db_alerts s) + length es"
proof -
  let ?targets = "map (\<lambda>e. (e, instant_fingerprint I (sg_id g) (ev_event_id e))) es"
  consider "t = s" | xs rows new h where "xs = filter (\<lambda>(e, fp). active_with fp s = []) ?targets"
    "build_rows I now uids g 0 xs = Inr rows" "extends rows new s (bulk_create rows s)"
    "t = s\<lparr>db_alerts := map h (db_alerts s @ new)\<rparr>"
    using bucket_shape[OF assms] by blast
  then show ?thesis
  proof cases
    case (2 xs rows new h)
    have "length new \<le> length xs" using list_emb_length[OF extends_fields(1)[OF 2(3,2)]] by simp
    also have "length xs \<le> length ?targets" unfolding 2(1) by (rule length_filter_le)
    finally show ?thesis using 2(4) by simp
  qed simp
qed

lemma buckets_length:
  "build_buckets I now uids bs ids s = (r, t) \<Longrightarrow>
   length (db_alerts t) \<le> length (db_alerts s) + sum_list (map (\<lambda>(g, es). length es) bs)"
proof (induction I now uids bs ids s rule: build_buckets.induct)
  case (2 I now uids g es bs ids s)
  obtain x u where b: "build_bucket I now (uids (sg_id g)) g es s = (x, u)" by (metis surj_pair)
  note l = bucket_length[OF b]
  show ?case
  proof (cases x)
    case (Inl e)
    then show ?thesis using "2.prems" b l by simp
  next
    case (Inr new)
    then show ?thesis using "2.IH"[OF b[symmetric] Inr] "2.prems" b l by simp
  qed
qed simp

lemma partition_lengths:
  assumes "distinct ks"
  shows "sum_list (map (\<lambda>k. length (filter (\<lambda>x. f x = k) xs)) ks) \<le> length xs"
proof (induction xs)
  case (Cons x xs)
  have "sum_list (map (\<lambda>k. length (filter (\<lambda>y. f y = k) (x # xs))) ks) =
      sum_list (map (\<lambda>k. length (filter (\<lambda>y. f y = k) xs)) ks) + (if f x \<in> set ks then 1 else 0)"
    using assms by (induction ks) auto
  with Cons show ?case by simp
qed (induction ks, simp_all)

lemma by_sid_lengths: "sum_list (map (\<lambda>(g, es). length es) (by_sid live)) \<le> length live"
proof -
  let ?gs = "dedup_on sg_id (map fst live)"
  have "sum_list (map (\<lambda>(g, es). length es) (by_sid live)) =
      sum_list (map (\<lambda>k. length (filter (\<lambda>p. sg_id (fst p) = k) live)) (map sg_id ?gs))"
    by (simp add: by_sid_def comp_def split_def)
  also have "\<dots> \<le> length live" by (rule partition_lengths[OF dedup_on_distinct])
  finally show ?thesis .
qed

lemma live_hits_length: "length (live_hits hits s) \<le> length hits"
  by (induction hits) (auto simp: live_hits_def split: option.splits)

text \<open>The dispatcher bounds its work: when the queue accepts tasks, one call creates at most
  \<open>INSTANT_SYNC_THRESHOLD\<close> alerts itself, and a task it queues carries more hits than that threshold
  and at most \<open>INSTANT_HIT_CEILING\<close>, whatever the events and strategies.\<close>

theorem instant_dispatch_bounded:
  assumes "dispatch I now uids True bulk (cached, s) = (cached', t)"
  shows "length (db_alerts t) \<le> length (db_alerts s) + INSTANT_SYNC_THRESHOLD \<and>
    (db_outbox t = db_outbox s \<or> (\<exists>ids. db_outbox t = db_outbox s @ [AutoAssign ids]) \<or>
     (\<exists>hits. db_outbox t = db_outbox s @ [BuildInstant hits] \<and> INSTANT_SYNC_THRESHOLD < length hits \<and>
        length hits \<le> INSTANT_HIT_CEILING))"
proof -
  define es where "es = exclude_shielded (filter (\<lambda>e. ev_action e = EA_CREATED) (concat bulk)) s"
  define hits where "hits = collect_hits (in_mem I) es (cache_get cached s)"
  have ceil: "length hits \<le> INSTANT_HIT_CEILING"
    unfolding hits_def collect_hits_def by (rule collect_loop_bound) (simp add: INSTANT_HIT_CEILING_def)
  consider "t = s" | "length hits \<le> INSTANT_SYNC_THRESHOLD" "t = build_and_trigger I now uids hits s"
    | "INSTANT_SYNC_THRESHOLD < length hits" "t = emit (BuildInstant hits) s"
    using assms by (auto simp: dispatch_def Let_def simp flip: es_def hits_def split: if_splits)
  then show ?thesis
  proof cases
    case 2
    obtain r u where b: "bulk_build_instant_alerts I now uids hits s = (r, u)" by (metis surj_pair)
    have "length (db_alerts u) \<le> length (db_alerts s) + length hits"
      using buckets_length[OF b[unfolded bulk_build_instant_alerts_def]] by_sid_lengths[of "live_hits hits s"]
        live_hits_length[of hits s] by simp
    moreover have "db_outbox u = db_outbox s" using bulk_build_grown[OF b] by (auto simp: grown_def)
    moreover have "db_alerts t = db_alerts u" "db_outbox t = db_outbox u \<or> (\<exists>ids. db_outbox t = db_outbox u @ [AutoAssign ids])"
      using 2(2) b by (cases r; auto simp: build_and_trigger_def trigger_dispatch_async_def emit_def)+
    ultimately show ?thesis using 2(1) by auto
  next
    case 3
    then show ?thesis using ceil by (auto simp: emit_def)
  qed simp
qed

theorem instant_dispatch_bounded_witness:
  "length (db_alerts (snd (dispatch instant_sample 10 instant_uids True [[probe_event]] (None, instant_db)))) \<le> 51"
proof -
  obtain c t where d: "dispatch instant_sample 10 instant_uids True [[probe_event]] (None, instant_db) = (c, t)"
    by (metis surj_pair)
  have "length (db_alerts instant_db) = 1" by (simp add: instant_db_def sample_db_def)
  with instant_dispatch_bounded[OF d] d show ?thesis by (simp add: INSTANT_SYNC_THRESHOLD_def)
qed

end
