(* ===== verification/Alert_View.thy ===== *)
theory Alert_View
  imports Alert_Builder
begin

text \<open>
  The requests of \<open>views/alert.py\<close> that write alerts without the operator service: creation,
  replacement, partial update and deletion through \<open>AuthViewSet\<close>
  (\<open>core/utils/viewset_utils.py\<close>) and \<open>AlertModelSerializer\<close> (\<open>serializers/alert.py\<close>). The
  serializer excludes \<open>events\<close>, keeps the key and the times of the row, and writes every other
  column that the request names: the status and the operators too. The parsing of single fields,
  the permission of an instance and the filters of the URL are parameters.
\<close>

section \<open>Requests\<close>

text \<open>Who asks: \<open>request.user\<close>, the cookie of the current team (\<open>None\<close> if it is no number),
  the ids of the user's groups, and the answer of \<open>get_has_permission\<close> for an instance.\<close>

record requester =
  rq_superuser :: bool
  rq_current_team :: "int option"
  rq_groups :: "int list"
  rq_has_permission :: "alert \<Rightarrow> bool"

text \<open>What is asked: the filters of the URL, the organizations in the data (normalised, \<open>None\<close>
  if the data has none) and the fields of the data. Given whether the update is partial,
  \<open>vd_fields\<close> sets the validated fields on an instance, or is the validation error.\<close>

record view_data =
  vd_visible :: "alert \<Rightarrow> bool"
  vd_team :: "int list option"
  vd_fields :: "bool \<Rightarrow> alert \<Rightarrow> alert res"

datatype view_answer = VA_NotFound | VA_PermissionDenied | VA_Refused | VA_Invalid | VA_Ok

text \<open>\<open>get_object\<close> on the query set of the view.\<close>

definition view_object :: "view_data \<Rightarrow> nat \<Rightarrow> db \<Rightarrow> alert option" where
  "view_object d k s = (case alert_by_pk k s of None \<Rightarrow> None
     | Some a \<Rightarrow> if al_session_status a \<in> Some ` set NO_CONFIRMED \<or> \<not> vd_visible d a then None else Some a)"

text \<open>\<open>_validate_org_field_permission\<close>: \<open>False\<close> if it raises.\<close>

definition org_permission :: "requester \<Rightarrow> int list \<Rightarrow> bool" where
  "org_permission u orgs \<longleftrightarrow> rq_superuser u \<or> set orgs \<subseteq> set (rq_groups u)"

section \<open>Writing the row\<close>

text \<open>The columns the serializer does not write, and \<open>auto_now\<close>.\<close>

definition protected :: "int \<Rightarrow> alert \<Rightarrow> alert \<Rightarrow> alert" where
  "protected now a b = b\<lparr>al_pk := al_pk a, al_events := al_events a, al_created_at := al_created_at a,
     al_updated_at := now, al_first_event_time := al_first_event_time a, al_last_event_time := al_last_event_time a\<rparr>"

text \<open>\<open>is_valid\<close>, with the uniqueness of the alert id, and \<open>save\<close>.\<close>

definition serializer_update :: "int \<Rightarrow> bool \<Rightarrow> view_data \<Rightarrow> alert \<Rightarrow> db \<Rightarrow> view_answer \<times> db" where
  "serializer_update now partial d a s =
     (case vd_fields d partial a of
        Inl e \<Rightarrow> (VA_Invalid, s)
      | Inr b \<Rightarrow>
          (if list_ex (\<lambda>c. al_pk c \<noteq> al_pk a \<and> al_alert_id c = al_alert_id b) (db_alerts s) then (VA_Invalid, s)
           else (VA_Ok, save_alert (protected now a b) s)))"

text \<open>\<open>update\<close>: for a superuser the flag \<open>partial\<close> has been taken out of the arguments before
  they are handed to the method of the framework, so the update is not partial.\<close>

definition update_alert :: "int \<Rightarrow> requester \<Rightarrow> bool \<Rightarrow> view_data \<Rightarrow> nat \<Rightarrow> db \<Rightarrow> view_answer \<times> db" where
  "update_alert now u partial d k s =
     (case view_object d k s of
        None \<Rightarrow> (VA_NotFound, s)
      | Some a \<Rightarrow>
          (if rq_superuser u then serializer_update now False d a s
           else (case rq_current_team u of
             None \<Rightarrow> (VA_Refused, s)
           | Some team \<Rightarrow>
               (if JInt team \<notin> set (al_team a) \<or> \<not> rq_has_permission u a then (VA_Refused, s)
                else if \<not> org_permission u (filter (\<lambda>g. JInt g \<notin> set (al_team a)) (case vd_team d of None \<Rightarrow> [] | Some gs \<Rightarrow> gs))
                then (VA_PermissionDenied, s)
                else serializer_update now partial d a s))))"

text \<open>\<open>destroy\<close>: the tasks of the alert go with it.\<close>

definition remove_alert :: "nat \<Rightarrow> db \<Rightarrow> db" where
  "remove_alert k s = s\<lparr>db_alerts := filter (\<lambda>a. al_pk a \<noteq> k) (db_alerts s),
     db_reminders := filter (\<lambda>r. rm_alert r \<noteq> k) (db_reminders s),
     db_escalations := filter (\<lambda>e. es_alert e \<noteq> k) (db_escalations s)\<rparr>"

definition destroy_alert :: "requester \<Rightarrow> view_data \<Rightarrow> nat \<Rightarrow> db \<Rightarrow> view_answer \<times> db" where
  "destroy_alert u d k s =
     (case view_object d k s of
        None \<Rightarrow> (VA_NotFound, s)
      | Some a \<Rightarrow>
          (if rq_superuser u then (VA_Ok, remove_alert k s)
           else if (case rq_current_team u of None \<Rightarrow> 0 | Some t \<Rightarrow> t) \<notin> set (rq_groups u) then (VA_PermissionDenied, s)
           else if \<not> rq_has_permission u a then (VA_Refused, s)
           else (VA_Ok, remove_alert k s)))"

text \<open>\<open>create\<close>: the fields of the data on a row of defaults with a new key.\<close>

definition blank_alert :: "int \<Rightarrow> db \<Rightarrow> alert" where
  "blank_alert now s = \<lparr>al_pk = next_pk s, al_alert_id = [], al_status = A_UNASSIGNED, al_level = [],
     al_events = [], al_created_at = now, al_updated_at = now, al_title = [], al_content = [],
     al_first_event_time = None, al_last_event_time = None, al_operate = None, al_operator = [],
     al_fingerprint = [], al_rule_id = None, al_is_session_alert = False, al_session_status = None,
     al_session_end_time = None, al_team = [], al_source_name = None, al_resource_id = None,
     al_resource_name = None, al_resource_type = None, al_item = None, al_labels = JObj [],
     al_enrichment = [], al_group_by_field = None, al_dimensions = []\<rparr>"

definition create_alert_request :: "int \<Rightarrow> requester \<Rightarrow> view_data \<Rightarrow> db \<Rightarrow> view_answer \<times> db" where
  "create_alert_request now u d s =
     (if \<not> org_permission u (case vd_team d of None \<Rightarrow> [] | Some gs \<Rightarrow> gs) then (VA_PermissionDenied, s)
      else case vd_fields d False (blank_alert now s) of
        Inl e \<Rightarrow> (VA_Invalid, s)
      | Inr b \<Rightarrow>
          (if al_alert_id b \<in> al_alert_id ` set (db_alerts s) then (VA_Invalid, s)
           else (VA_Ok, s\<lparr>db_alerts := db_alerts s @ [protected now (blank_alert now s) b]\<rparr>)))"

section \<open>What the requests do to the rows\<close>

lemma protected_fields [simp]:
  "al_pk (protected now a b) = al_pk a" "al_alert_id (protected now a b) = al_alert_id b"
  "al_status (protected now a b) = al_status b" "al_operator (protected now a b) = al_operator b"
  "al_events (protected now a b) = al_events a"
  by (simp_all add: protected_def)

lemma view_objectD: "view_object d k s = Some a \<Longrightarrow> alert_by_pk k s = Some a"
  by (auto simp: view_object_def split: option.splits if_splits)

lemma keyed_distinct: "keyed key xs \<Longrightarrow> distinct xs"
  by (simp add: keyed_def distinct_map)

lemma wf_db_rewrite:
  assumes "wf_db s" "alert_by_pk (al_pk a') s = Some a" "\<not> list_ex (\<lambda>c. al_pk c \<noteq> al_pk a \<and> al_alert_id c = al_alert_id a') (db_alerts s)"
  shows "wf_db (save_alert a' s)"
proof -
  have pk: "al_pk a' = al_pk a" "a \<in> set (db_alerts s)" using tfind_key[OF assms(2)] tfind_in[OF assms(2)] by simp_all
  let ?f = "\<lambda>x. if al_pk x = al_pk a' then a' else x"
  have w: "wf_db (s\<lparr>db_alerts := xs\<rparr>)"
    if "al_pk ` set xs = al_pk ` set (db_alerts s)" "keyed al_pk xs" "keyed al_alert_id xs" for xs
    using assms(1) that by (simp add: wf_db_def)
  have t: "tsave al_pk a' (db_alerts s) = map ?f (db_alerts s)" using pk by (auto simp: tsave_def)
  have k: "al_pk ` set (map ?f (db_alerts s)) = al_pk ` set (db_alerts s)" "keyed al_pk (map ?f (db_alerts s))"
    using assms(1) map_key_replace[of al_pk a' "db_alerts s"]
    by (simp_all only: wf_db_def keyed_def set_map[symmetric] simp_thms)
  have "keyed al_alert_id (map ?f (db_alerts s))"
    unfolding keyed_def
  proof (subst distinct_map, rule conjI)
    show "distinct (map ?f (db_alerts s))" by (rule keyed_distinct[OF k(2)])
    show "inj_on al_alert_id (set (map ?f (db_alerts s)))"
    proof (rule inj_onI)
      fix x y assume "x \<in> set (map ?f (db_alerts s))" "y \<in> set (map ?f (db_alerts s))" and e: "al_alert_id x = al_alert_id y"
      then obtain c d where c: "c \<in> set (db_alerts s)" "x = ?f c" and d: "d \<in> set (db_alerts s)" "y = ?f d" by auto
      have i: "c = d" if "al_alert_id c = al_alert_id d"
        using assms(1) c(1) d(1) that by (auto simp: wf_db_def intro: keyed_inj)
      have o: "al_alert_id c' \<noteq> al_alert_id a'" if "c' \<in> set (db_alerts s)" "al_pk c' \<noteq> al_pk a" for c'
        using assms(3) that by (auto simp: list_ex_iff)
      show "x = y" using e c d i o pk by (auto split: if_splits)
    qed
  qed
  with w[OF k] show ?thesis by (simp only: save_alert_def t)
qed

lemma serializer_update_effect:
  assumes "wf_db s" "alert_by_pk k s = Some a" "serializer_update now p d a s = (r, t)"
  shows "wf_db t \<and> (\<forall>j. j \<noteq> k \<longrightarrow> alert_by_pk j t = alert_by_pk j s)"
proof (cases "t = s")
  case False
  then obtain b where b: "t = save_alert (protected now a b) s"
    "\<not> list_ex (\<lambda>c. al_pk c \<noteq> al_pk a \<and> al_alert_id c = al_alert_id b) (db_alerts s)"
    using assms(3) by (auto simp: serializer_update_def split: sum.splits if_splits)
  have k: "al_pk a = k" using assms(2) by (rule tfind_key)
  have "wf_db t" unfolding b(1) using assms(1,2) b(2) k by (intro wf_db_rewrite[of s _ a]) simp_all
  then show ?thesis using k by (simp add: b(1) row_simps)
qed (simp add: assms(1))

lemma update_alert_effect:
  assumes "wf_db s" "update_alert now u p d k s = (r, t)"
  shows "wf_db t \<and> (\<forall>j. j \<noteq> k \<longrightarrow> alert_by_pk j t = alert_by_pk j s)"
proof (cases "t = s")
  case False
  then obtain a q where "view_object d k s = Some a" "serializer_update now q d a s = (r, t)"
    using assms(2) by (auto simp: update_alert_def split: option.splits if_splits)
  with assms(1) view_objectD show ?thesis by (intro serializer_update_effect)
qed (simp add: assms(1))

lemma tfind_filter_key: "tfind key j (filter (\<lambda>x. key x \<noteq> k) xs) = (if j = k then None else tfind key j xs)"
  by (induction xs) (auto simp: tfind_def)

lemma destroy_alert_effect:
  assumes "wf_db s" "destroy_alert u d k s = (r, t)"
  shows "wf_db t" "j \<noteq> k \<Longrightarrow> aview j t = aview j s" "r = VA_Ok \<Longrightarrow> aview k t = (None, None, None)"
proof -
  have "t = s \<and> r \<noteq> VA_Ok \<or> t = remove_alert k s"
    using assms(2) by (auto simp: destroy_alert_def split: option.splits if_splits)
  moreover have "wf_db (remove_alert k s)"
    using assms(1) by (auto simp: wf_db_def remove_alert_def keyed_def distinct_map_filter image_subset_iff)
  ultimately show "wf_db t" "j \<noteq> k \<Longrightarrow> aview j t = aview j s" "r = VA_Ok \<Longrightarrow> aview k t = (None, None, None)"
    using assms(1) by (auto simp: aview_def remove_alert_def tfind_filter_key)
qed

lemma create_request_effect:
  assumes "create_alert_request now u d s = (r, t)"
  obtains "t = s" "r \<noteq> VA_Ok"
    | a where "r = VA_Ok" "t = s\<lparr>db_alerts := db_alerts s @ [a]\<rparr>" "al_pk a \<notin> al_pk ` set (db_alerts s)"
        "al_alert_id a \<notin> al_alert_id ` set (db_alerts s)"
proof -
  have f: "al_pk (blank_alert now s) \<notin> al_pk ` set (db_alerts s)" using next_pk_fresh[of s] by (simp add: blank_alert_def)
  show thesis
    using assms that f by (auto simp: create_alert_request_def split: sum.splits if_splits)
qed

text \<open>The state machine of the alerts does not bind these requests: a closed alert can be
  opened again, and an alert in processing can lose its operator.\<close>

definition sample_reopen :: view_data where
  "sample_reopen = \<lparr>vd_visible = (\<lambda>_. True), vd_team = None,
     vd_fields = (\<lambda>partial a. if partial then Inr (a\<lparr>al_status := A_PROCESSING, al_operator := []\<rparr>) else Inl ValidationError)\<rparr>"

definition sample_editor :: requester where
  "sample_editor = \<lparr>rq_superuser = False, rq_current_team = Some 1, rq_groups = [1], rq_has_permission = (\<lambda>_. True)\<rparr>"

lemma update_bypasses_state_machine:
  "map_option (\<lambda>a. (al_status a, al_operator a)) (alert_by_pk 1 (snd (update_alert 9 sample_editor True sample_reopen 1
     (sample_db\<lparr>db_alerts := [sample_alert\<lparr>al_status := A_CLOSED\<rparr>]\<rparr>)))) = Some (A_PROCESSING, [])"
  by code_simp

text \<open>A partial update of a superuser is checked as a replacement: fields that are not sent are
  missing.\<close>

lemma superuser_patch_refused:
  "fst (update_alert 9 (sample_editor\<lparr>rq_superuser := True\<rparr>) True sample_reopen 1 sample_db) = VA_Invalid \<and>
   fst (update_alert 9 sample_editor True sample_reopen 1 sample_db) = VA_Ok"
  by code_simp

end
