(* ===== verification/Lifecycle.thy ===== *)
theory Lifecycle
  imports Auto_Assignment Auto_Close Aggregation Instant Alert_View
begin

text \<open>
  The life of an alert under all components together: manual operations, automatic
  assignment, the escalation and reminder scans, automatic closing, recovery and session
  windows are the steps of one transition system over the database. The locale \<open>alert_system\<close>
  states what every step does to the row of an alert; its consequences for whole runs are
  proved once and hold for the system of all components by interpretation.
\<close>

section \<open>Moves of an alert\<close>

definition final :: "alert_status \<Rightarrow> bool" where
  "final st \<longleftrightarrow> st \<notin> set ACTIVATE_STATUS"

text \<open>The status changes the components make.\<close>

fun status_edge :: "alert_status \<Rightarrow> alert_status \<Rightarrow> bool" where
  "status_edge A_UNASSIGNED A_PENDING = True"
| "status_edge A_PENDING A_PROCESSING = True"
| "status_edge A_PROCESSING A_PENDING = True"
| "status_edge A_PROCESSING A_RESOLVED = True"
| "status_edge x A_CLOSED = (x = A_CLOSED \<or> x \<in> set ACTIVATE_STATUS)"
| "status_edge x A_AUTO_CLOSE = (x = A_AUTO_CLOSE \<or> x \<in> set ACTIVATE_STATUS)"
| "status_edge x A_AUTO_RECOVERY = True"
| "status_edge x y = (x = y)"

definition has_operator :: "alert \<Rightarrow> bool" where
  "has_operator a \<longleftrightarrow> (\<exists>u. JStr u \<in> set (al_operator a))"

text \<open>A move keeps the identity of the alert, follows an edge, and an alert in processing has
  somebody who processes it.\<close>

definition alert_move :: "alert \<Rightarrow> alert \<Rightarrow> bool" where
  "alert_move a b \<longleftrightarrow> al_pk b = al_pk a \<and> al_alert_id b = al_alert_id a \<and>
     status_edge (al_status a) (al_status b) \<and>
     (al_status b = A_PROCESSING \<longrightarrow> (al_status a = A_PROCESSING \<longrightarrow> has_operator a) \<longrightarrow> has_operator b)"

lemma status_edge_refl [simp]: "status_edge x x"
  by (cases x) simp_all

lemma status_edge_final: "status_edge x y \<Longrightarrow> final x \<Longrightarrow> y = x \<or> y = A_AUTO_RECOVERY"
  by (cases x; cases y) (auto simp: final_def ACTIVATE_STATUS_def)

lemma alert_move_refl [simp]: "alert_move a a"
  by (simp add: alert_move_def)

locale alert_system =
  fixes step :: "'s \<Rightarrow> 's \<Rightarrow> bool"
    and inv :: "'s \<Rightarrow> bool"
    and row :: "nat \<Rightarrow> 's \<Rightarrow> alert option"
  assumes step_inv: "inv s \<Longrightarrow> step s t \<Longrightarrow> inv t"
    and step_move: "inv s \<Longrightarrow> step s t \<Longrightarrow> row k s = Some a \<Longrightarrow> \<exists>b. row k t = Some b \<and> alert_move a b"
begin

inductive reaches :: "'s \<Rightarrow> 's \<Rightarrow> bool" where
  here: "reaches s s"
| more: "reaches s t \<Longrightarrow> step t u \<Longrightarrow> reaches s u"

lemma reaches_inv: "reaches s t \<Longrightarrow> inv s \<Longrightarrow> inv t"
  by (induction rule: reaches.induct) (auto intro: step_inv)

lemma reaches_identity:
  "reaches s t \<Longrightarrow> inv s \<Longrightarrow> row k s = Some a \<Longrightarrow>
   \<exists>b. row k t = Some b \<and> al_pk b = al_pk a \<and> al_alert_id b = al_alert_id a"
proof (induction rule: reaches.induct)
  case (more s t u)
  then obtain b where b: "row k t = Some b" "al_pk b = al_pk a" "al_alert_id b = al_alert_id a" by blast
  have "inv t" using more.hyps(1) more.prems(1) by (rule reaches_inv)
  from step_move[OF this more.hyps(2) b(1)] b show ?case by (auto simp: alert_move_def)
qed simp

lemma reaches_final:
  "reaches s t \<Longrightarrow> inv s \<Longrightarrow> row k s = Some a \<Longrightarrow> final (al_status a) \<Longrightarrow>
   \<exists>b. row k t = Some b \<and> (al_status b = al_status a \<or> al_status b = A_AUTO_RECOVERY)"
proof (induction rule: reaches.induct)
  case (more s t u)
  then obtain b where b: "row k t = Some b" "al_status b = al_status a \<or> al_status b = A_AUTO_RECOVERY" by blast
  have "inv t" using more.hyps(1) more.prems(1) by (rule reaches_inv)
  then obtain c where c: "row k u = Some c" "alert_move b c" using step_move more.hyps(2) b(1) by blast
  have "final (al_status b)" using b(2) more.prems(3) by (auto simp: final_def ACTIVATE_STATUS_def)
  then have "al_status c = al_status b \<or> al_status c = A_AUTO_RECOVERY"
    using c(2) status_edge_final by (auto simp: alert_move_def)
  with b(2) c(1) show ?case by auto
qed simp

lemma reaches_operator:
  "reaches s t \<Longrightarrow> inv s \<Longrightarrow> row k s = Some a \<Longrightarrow> (al_status a = A_PROCESSING \<Longrightarrow> has_operator a) \<Longrightarrow>
   \<exists>b. row k t = Some b \<and> (al_status b = A_PROCESSING \<longrightarrow> has_operator b)"
proof (induction rule: reaches.induct)
  case (more s t u)
  then obtain b where b: "row k t = Some b" "al_status b = A_PROCESSING \<longrightarrow> has_operator b" by blast
  have "inv t" using more.hyps(1) more.prems(1) by (rule reaches_inv)
  from step_move[OF this more.hyps(2) b(1)] b(2) show ?case by (auto simp: alert_move_def)
qed simp

end

section \<open>The components keep to the moves\<close>

definition moves :: "db \<Rightarrow> db \<Rightarrow> bool" where
  "moves s t \<longleftrightarrow> wf_db t \<and> (\<forall>k a. alert_by_pk k s = Some a \<longrightarrow> (\<exists>b. alert_by_pk k t = Some b \<and> alert_move a b))"

lemma movesI:
  assumes "wf_db t" "\<And>k a. alert_by_pk k s = Some a \<Longrightarrow> \<exists>b. alert_by_pk k t = Some b \<and> alert_move a b"
  shows "moves s t"
  using assms by (simp add: moves_def)

lemma operator_side_move:
  "b = a\<lparr>al_operator := al_operator b, al_updated_at := al_updated_at b\<rparr> \<Longrightarrow> ops_grow a b \<Longrightarrow> alert_move a b"
proof -
  assume b: "b = a\<lparr>al_operator := al_operator b, al_updated_at := al_updated_at b\<rparr>" and o: "ops_grow a b"
  have "al_pk b = al_pk a" "al_alert_id b = al_alert_id a" "al_status b = al_status a"
    by (subst b, simp)+
  with o show ?thesis by (auto simp: alert_move_def has_operator_def ops_grow_def)
qed

lemma operate_moves:
  assumes "wf_db s" "operate nf now user allowed action aid data s = (r, t)"
  shows "moves s t"
proof (rule movesI)
  show "wf_db t" by (rule op.run_wf[OF assms])
  fix k a assume a: "alert_by_pk k s = Some a"
  show "\<exists>b. alert_by_pk k t = Some b \<and> alert_move a b"
  proof (cases "failed r")
    case True
    then show ?thesis using operate_effect[OF assms] a by simp
  next
    case False
    then obtain op c b where p: "find_alert aid s = Some c" "al_status c = op_source op"
      "op \<noteq> Op_assign \<longrightarrow> JStr user \<in> set (al_operator c)" "only (al_pk c) s t"
      "alert_by_pk (al_pk c) t = Some b" "al_alert_id b = aid" "al_status b = op_target op"
      "op \<notin> {Op_assign, Op_reassign} \<longrightarrow> ops_grow c b"
      using operate_effect[OF assms] by (auto simp: performed_def)
    have c: "alert_by_pk (al_pk c) s = Some c" by (rule wf_db_alert_ids[OF assms(1) p(1)])
    show ?thesis
    proof (cases "k = al_pk c")
      case True
      then have "a = c" using a c by simp
      moreover have "alert_move c b"
        using p(2,3,6-8) tfind_key[OF p(1)] tfind_key[OF p(5)]
        by (cases op) (auto simp: alert_move_def has_operator_def ops_grow_def ACTIVATE_STATUS_def)
      ultimately show ?thesis using p(5) True by blast
    next
      case False
      then show ?thesis using onlyD(2)[OF p(4)] a by simp
    qed
  qed
qed

lemma escalation_moves:
  assumes "wf_db s" "check_and_process_escalations nf now s = (p, e, t)"
  shows "moves s t"
proof (rule movesI)
  show "wf_db t" using escalation_scan_effect[OF assms] by blast
  fix k a assume a: "alert_by_pk k s = Some a"
  have sp: "escalation_spec now (aview k s) (aview k t)" using escalation_scan_effect[OF assms] by blast
  show "\<exists>b. alert_by_pk k t = Some b \<and> alert_move a b"
  proof (cases "find_escalation k s")
    case None
    then show ?thesis using sp a by (simp add: aview_def)
  next
    case (Some task)
    from sp a Some have "alert_by_pk k t = Some a \<or> (\<exists>b. alert_by_pk k t = Some b \<and> ops_grow a b \<and>
        b = a\<lparr>al_operator := al_operator b, al_updated_at := al_updated_at b\<rparr>)"
      by (auto simp: aview_def escalated_view_def split: if_splits sum.splits)
    then show ?thesis using operator_side_move by auto
  qed
qed

lemma reminder_moves:
  assumes "wf_db s" "check_and_process_reminders nf broker now s = (p, c, t)"
  shows "moves s t"
proof (rule movesI)
  note eff = reminder_scan_effect[OF assms]
  show "wf_db t" by (rule eff(1))
  fix k a assume a: "alert_by_pk k s = Some a"
  have "fst (aview k t) = fst (aview k s)" by (subst eff(3)) (rule reminder_next_alert)
  then have "fst (aview k t) = Some a" using a by (simp add: aview_def)
  then show "\<exists>b. alert_by_pk k t = Some b \<and> alert_move a b" by (simp add: aview_def)
qed

lemma assignment_moves:
  assumes "wf_db s" "execute_auto_assignment_for_alerts nf z m setting now ids s = (r, t)"
  shows "moves s t"
proof (rule movesI)
  note st = auto_assignment_step[OF assms, unfolded assign_step_def]
  show "wf_db t" using st assms(1) by blast
  fix k a assume a: "alert_by_pk k s = Some a"
  have "assign_rel (set ids) (aview k s) (aview k t)" using st assms(1) by blast
  then consider "alert_by_pk k t = Some a"
    | b where "alert_by_pk k t = Some b" "al_alert_id b = al_alert_id a" "al_status a = A_UNASSIGNED" "al_status b = A_PENDING"
    using a unfolding assign_rel_def aview_def prod.inject fst_conv by force
  then show "\<exists>b. alert_by_pk k t = Some b \<and> alert_move a b"
  proof cases
    case (2 b)
    have "al_pk a = k" "al_pk b = k" using tfind_key[OF a] tfind_key[OF 2(1)] by simp_all
    with 2 show ?thesis by (simp add: alert_move_def)
  qed simp
qed

lemma auto_close_moves:
  assumes "wf_db s" "auto_close_main now s = (c, e, t)"
  shows "moves s t"
proof (rule movesI)
  note eff = auto_close_main_effect[OF assms]
  show "wf_db t" using eff by blast
  fix k a assume a: "alert_by_pk k s = Some a"
  have "aview k t = auto_close_next (db_strategies s) now (aview k s)" using eff by blast
  then show "\<exists>b. alert_by_pk k t = Some b \<and> alert_move a b"
    using a by (auto simp: aview_def alert_move_def closes_def split: if_splits)
qed

lemma linking_moves:
  assumes "wf_db s" "handle_recovery_events res s = (touched, t)"
  shows "moves s t"
proof (rule movesI)
  note l = handle_recovery_linked[OF assms(2), unfolded linked_def]
  show "wf_db t" using l assms(1) by blast
  fix k a assume a: "alert_by_pk k s = Some a"
  from l obtain xs where "alert_by_pk k t = map_option (\<lambda>a. a\<lparr>al_events := al_events a @ xs\<rparr>) (alert_by_pk k s)"
    by blast
  then show "\<exists>b. alert_by_pk k t = Some b \<and> alert_move a b"
    using a by (simp add: alert_move_def has_operator_def)
qed

lemma recover_moves:
  assumes "wf_db s" "alert_by_pk k s = Some a"
  shows "moves s (snd (check_and_recover_alert now a s))"
proof (cases "recoverable (events_of a s)")
  case True
  have pk: "al_pk a = k" using assms(2) by (rule tfind_key)
  then have r: "alert_by_pk (al_pk a) s = Some a" using assms(2) by simp
  note eff = recover_effect[OF r True, of now]
  let ?t = "snd (check_and_recover_alert now a s)"
  have o: "only k s ?t" using eff pk by simp
  obtain b where b: "alert_by_pk k ?t = Some b" "al_status b = A_AUTO_RECOVERY" using eff pk by auto
  have "al_pk b = k" using b(1) by (rule tfind_key)
  moreover have "al_alert_id b = al_alert_id a" using onlyD(7)[OF o, of k] b(1) assms(2) by simp
  ultimately have m: "alert_move a b" using b(2) pk by (cases "al_status a") (simp_all add: alert_move_def)
  show ?thesis
  proof (rule movesI)
    show "wf_db ?t" using onlyD(1)[OF o assms(1)] .
    show "\<exists>c. alert_by_pk j ?t = Some c \<and> alert_move d c" if "alert_by_pk j s = Some d" for j d
      using that onlyD(2)[OF o, of j] b(1) m assms(2) by (cases "j = k") auto
  qed
next
  case False
  then show ?thesis using assms(1) by (auto simp: check_recover_eq intro: movesI)
qed

text \<open>A bulk update that keeps the keys and makes only moves.\<close>

lemma update_moves:
  assumes "wf_db s" "db_alerts t = tupdate p f (db_alerts s)"
    "db_reminders t = db_reminders s" "db_escalations t = db_escalations s"
    "db_assignments t = db_assignments s" "db_strategies t = db_strategies s"
    "\<And>a. p a \<Longrightarrow> alert_move a (f a)"
  shows "moves s t"
proof (rule movesI)
  have k: "\<And>a. p a \<Longrightarrow> al_pk (f a) = al_pk a" "\<And>a. p a \<Longrightarrow> al_alert_id (f a) = al_alert_id a"
    using assms(7) by (simp_all add: alert_move_def)
  show "wf_db t" using assms(1-6) k by (simp add: wf_db_def keyed_tupdate keys_tupdate)
  show "\<exists>b. alert_by_pk j t = Some b \<and> alert_move a b" if "alert_by_pk j s = Some a" for j a
    using that assms(2,7) k(1) by (simp add: tfind_tupdate)
qed

lemma fold_save_moves:
  assumes "wf_db s" "\<And>a. al_pk (f a) = al_pk a" "\<And>a. p a \<Longrightarrow> alert_move a (f a)"
  shows "moves s (fold (\<lambda>a. save_alert (f a)) (filter p (db_alerts s)) s)"
proof -
  have f: "db_alerts (fold (\<lambda>a. save_alert (f a)) as u) = fold (\<lambda>a. tsave al_pk (f a)) as (db_alerts u)"
    "db_reminders (fold (\<lambda>a. save_alert (f a)) as u) = db_reminders u"
    "db_escalations (fold (\<lambda>a. save_alert (f a)) as u) = db_escalations u"
    "db_assignments (fold (\<lambda>a. save_alert (f a)) as u) = db_assignments u"
    "db_strategies (fold (\<lambda>a. save_alert (f a)) as u) = db_strategies u" for as u
    by (induction as arbitrary: u) simp_all
  have "fold (\<lambda>a. tsave al_pk (f a)) (filter p (db_alerts s)) (db_alerts s) = tupdate p f (db_alerts s)"
    by (rule fold_tsave_filter) (use assms in \<open>simp_all add: wf_db_def\<close>)
  then show ?thesis by (intro update_moves[OF assms(1), where p = p and f = f]) (simp_all add: f assms(3))
qed

lemma timeout_moves:
  assumes "wf_db s" "check_session_timeouts now s = (n, t)"
  shows "moves s t"
proof -
  let ?f = "\<lambda>a. a\<lparr>al_session_status := Some S_CONFIRMED, al_updated_at := now\<rparr>"
  have f: "db_reminders (fold (confirm_session_alert now) as u) = db_reminders u"
    "db_escalations (fold (confirm_session_alert now) as u) = db_escalations u"
    "db_assignments (fold (confirm_session_alert now) as u) = db_assignments u"
    "db_strategies (fold (confirm_session_alert now) as u) = db_strategies u" for as u
    by (induction as arbitrary: u) (simp_all add: confirm_session_alert_def)
  show ?thesis
    using session_timeouts_effect[OF assms] assms(2)
    by (intro update_moves[OF assms(1), where f = ?f])
       (auto simp: check_session_timeouts_def Let_def f alert_move_def has_operator_def)
qed

lemma confirm_moves:
  assumes "wf_db s" "confirm_observing_alerts_by_strategy now sid s = (n, t)"
  shows "moves s t"
proof -
  let ?t = "fold (\<lambda>a. save_alert (a\<lparr>al_session_status := Some S_CONFIRMED, al_updated_at := now\<rparr>))
      (filter (of_strategy sid) (db_alerts s)) s"
  have m: "moves s ?t"
    by (rule fold_save_moves[OF assms(1)]) (simp_all add: alert_move_def has_operator_def)
  have "t = ?t \<or> (\<exists>e. t = emit e ?t)"
    using assms(2) by (auto simp: confirm_observing_alerts_by_strategy_def Let_def split: if_splits)
  with m show ?thesis by (auto simp: moves_def)
qed

lemma close_observing_moves:
  assumes "wf_db s" "close_observing_session_alerts_by_strategy now sid s = (n, t)"
  shows "moves s t"
proof -
  have "moves s (fold (\<lambda>a. save_alert (a\<lparr>al_status := A_CLOSED, al_session_status := Some S_RECOVERED,
      al_updated_at := now\<rparr>)) (filter (of_strategy sid) (db_alerts s)) s)"
    by (rule fold_save_moves[OF assms(1)])
       (auto simp: alert_move_def has_operator_def of_strategy_def is_observing_def)
  then show ?thesis using assms(2) by (simp add: close_observing_session_alerts_by_strategy_def Let_def)
qed

lemma task_table_moves:
  assumes "wf_db s" "db_alerts t = db_alerts s" "wf_db t"
  shows "moves s t"
  using assms by (auto intro: movesI)

lemma create_moves:
  assumes "wf_db s" "al_pk a \<notin> al_pk ` set (db_alerts s)" "al_alert_id a \<notin> al_alert_id ` set (db_alerts s)"
  shows "moves s (s\<lparr>db_alerts := db_alerts s @ [a]\<rparr>)"
proof (rule movesI)
  show "wf_db (s\<lparr>db_alerts := db_alerts s @ [a]\<rparr>)" using assms by (auto simp: wf_db_def keyed_def)
  show "\<exists>c. alert_by_pk k (s\<lparr>db_alerts := db_alerts s @ [a]\<rparr>) = Some c \<and> alert_move b c"
    if "alert_by_pk k s = Some b" for k b
  proof -
    have "k \<in> al_pk ` set (db_alerts s)" using tfind_in[OF that] tfind_key[OF that] by blast
    then show ?thesis using that by (simp add: tfind_append)
  qed
qed

lemma save_moves:
  assumes "wf_db s" "a \<in> set (db_alerts s)" "alert_move a b"
  shows "moves s (save_alert b s)"
proof (rule movesI)
  have b: "al_pk b = al_pk a" "al_alert_id b = al_alert_id a" using assms(3) by (simp_all add: alert_move_def)
  show "wf_db (save_alert b s)" by (rule wf_db_save_alert[OF assms(1,2) b])
  have "alert_by_pk (al_pk a) s = Some a" using assms(1,2) by (simp add: wf_db_def tfind_iff)
  then show "\<exists>d. alert_by_pk k (save_alert b s) = Some d \<and> alert_move c d" if "alert_by_pk k s = Some c" for k c
    using that assms(3) b(1) by (auto simp: row_simps)
qed

lemma moves_emit [simp]: "moves s (emit e t) = moves s t"
  by (auto simp: moves_def)

text \<open>Building alerts, heartbeats and instant alerts.\<close>

lemma build_moves:
  assumes "wf_db s" "create_or_update_alert levels env now uid r g field (cache, s) = (x, cache', t)"
  shows "moves s t \<and> (\<forall>a. x = Inr a \<longrightarrow> alert_by_pk (al_pk a) t = Some a)"
proof -
  consider e where "x = Inl e" "t = s" | a where "x = Inr a" "created r (cache, s) a (cache', t)"
    | a b where "x = Inr b" "a \<in> set (active_with (ag_fingerprint r) s)" "t = save_alert b s" "al_pk b = al_pk a"
        "al_alert_id b = al_alert_id a" "al_status b = al_status a" "al_operator b = al_operator a"
    using build_effect[OF assms(2)] by blast
  then show ?thesis
  proof cases
    case 1
    then show ?thesis using assms(1) by (auto intro: movesI)
  next
    case (2 a)
    then have f: "al_pk a \<notin> al_pk ` set (db_alerts s)" "al_alert_id a \<notin> al_alert_id ` set (db_alerts s)"
      "t = emit (ActionDispatch (al_alert_id a) ''created'') (s\<lparr>db_alerts := db_alerts s @ [a]\<rparr>)"
      by (simp_all add: created_def)
    show ?thesis using create_moves[OF assms(1) f(1,2)] 2(1) f(1) by (auto simp: f(3) tfind_append)
  next
    case (3 a b)
    have "alert_move a b" using 3 by (simp add: alert_move_def has_operator_def)
    with save_moves[OF assms(1) conjunct1[OF active_withD[OF 3(2)]]] 3(1,3) show ?thesis by (auto simp: row_simps)
  qed
qed

lemma runtime_moves: "moves s u \<Longrightarrow> moves s (save_runtime_state g p now u)"
  by (auto simp: moves_def wf_db_def save_runtime_state_def keyed_tsave)

lemma missing_moves:
  assumes "wf_db s" "heartbeat_missing h g p now uid s = (r, t)"
  shows "r = Inr () \<longrightarrow> moves s t"
proof -
  have same: "moves s (save_runtime_state g q now s)" for q
    using assms(1) by (intro runtime_moves) (auto intro: movesI)
  have new: "moves s (save_runtime_state g q now (emit (AutoAssign [al_alert_id a]) u))"
    if "create_alert h g p now uid s = (Inr a, u)" "find_active_alert h g s = None" for q a u
    using create_alert_effect[OF that] create_moves[OF assms(1)] by (auto intro!: runtime_moves)
  show ?thesis
    using assms(2) same new
    by (auto simp: heartbeat_missing_def trigger_missing_alert_def split: sum.splits option.splits if_splits prod.splits)
qed

lemma only_moves:
  assumes "wf_db s" "only k s t" "alert_by_pk k s = Some a" "alert_by_pk k t = Some b" "alert_move a b"
  shows "moves s t"
proof (rule movesI)
  show "wf_db t" using onlyD(1)[OF assms(2,1)] .
  show "\<exists>d. alert_by_pk j t = Some d \<and> alert_move c d" if "alert_by_pk j s = Some c" for j c
    using that assms(3-5) onlyD(2)[OF assms(2), of j] by (cases "j = k") auto
qed

lemma seen_moves:
  assumes "wf_db s"
  shows "moves s (heartbeat_seen h g e p now s)"
proof -
  have same: "moves s (save_runtime_state g q now s)" for q
    using assms by (intro runtime_moves) (auto intro: movesI)
  have "moves s (save_runtime_state g q now (recover_missing_alert h g now s))" if a: "find_active_alert h g s = Some a" for q a
  proof -
    note eff = recover_missing_effect[OF assms a, of now]
    let ?b = "a\<lparr>al_status := A_AUTO_RECOVERY, al_last_event_time := Some now, al_updated_at := now\<rparr>"
    have row: "alert_by_pk (al_pk a) s = Some a"
      using assms find_active_Some[OF a] by (simp add: wf_db_def tfind_iff)
    have "alert_move a ?b" by (cases "al_status a") (simp_all add: alert_move_def)
    with eff row show ?thesis by (intro runtime_moves only_moves[OF assms, of "al_pk a"]) auto
  qed
  with same show ?thesis by (auto simp: heartbeat_seen_def Let_def split: option.splits)
qed

lemma heartbeat_moves:
  assumes "wf_db s" "process_missing_detection_strategy h sid now uid s = (r, t)"
  shows "moves s t"
proof (cases r)
  case (Inl e)
  then have "t = s" using assms(2) process_missing_error by blast
  then show ?thesis using assms(1) by (auto intro: movesI)
next
  case (Inr x)
  then obtain g p0 where p: "tfind sg_id sid (db_strategies s) = Some g" "load_params g = Inr p0"
    using assms(2) by (auto simp: process_missing_detection_strategy_def split: option.splits sum.splits)
  show ?thesis
  proof (cases "latest_heartbeat h g s")
    case None
    obtain q where "heartbeat_missing h g q now uid s = (r, t)"
      using run_without_heartbeat[OF p(1) None] assms(2) Inr by blast
    from missing_moves[OF assms(1) this] show ?thesis using Inr by simp
  next
    case (Some e)
    then show ?thesis using run_with_heartbeat[OF p(1) Some p(2)] assms(2) seen_moves[OF assms(1)] by auto
  qed
qed

lemma instant_moves:
  assumes "wf_db s" "bulk_build_instant_alerts I now uids hits s = (r, t)"
  shows "moves s t"
proof (rule movesI)
  obtain h new where g: "linked_only h" "db_alerts t = map h (db_alerts s) @ new" and w: "wf_db t"
    using bulk_build_grown[OF assms(2)] assms(1) by (auto simp: grown_def)
  show "wf_db t" by (rule w)
  show "\<exists>b. alert_by_pk k t = Some b \<and> alert_move a b" if "alert_by_pk k s = Some a" for k a
  proof -
    have "h a \<in> set (db_alerts t)" "al_pk (h a) = k"
      using tfind_in[OF that] tfind_key[OF that] g linked_onlyD(1)[OF g(1)] by auto
    then have "alert_by_pk k t = Some (h a)" using w by (simp add: wf_db_def tfind_iff)
    moreover have "alert_move a (h a)" by (simp add: alert_move_def has_operator_def linked_onlyD[OF g(1)])
    ultimately show ?thesis by blast
  qed
qed

lemma executed_moves: "wf_db s \<Longrightarrow> moves s (mark_strategy_executed g now s)"
  by (rule task_table_moves) (simp_all add: mark_wf)

section \<open>The system of all components\<close>

text \<open>One step of the alert centre: an operation of a component on the current database, with
  every choice of its arguments, clock reading, formatter, broker, time zone and matcher. New
  events arrive from outside; new alerts are built from them. The set \<open>E\<close> holds the keys of the
  alerts that requests of \<open>Alert_View\<close> may rewrite or delete. Requests on policies, strategies
  and users (\<open>configured\<close>) leave the table of alerts alone and keep the foreign keys.\<close>

inductive centre_step :: "nat set \<Rightarrow> db \<Rightarrow> db \<Rightarrow> bool" for E where
  operated: "operate nf now user allowed action aid data s = (r, t) \<Longrightarrow> centre_step E s t"
| assigned: "execute_auto_assignment_for_alerts nf z m setting now ids s = (r1, t) \<Longrightarrow> centre_step E s t"
| escalated: "check_and_process_escalations nf now s = (p, e, t) \<Longrightarrow> centre_step E s t"
| reminded: "check_and_process_reminders nf broker now s = (p, c, t) \<Longrightarrow> centre_step E s t"
| auto_closed: "auto_close_main now s = (c, e, t) \<Longrightarrow> centre_step E s t"
| timed_out: "check_session_timeouts now s = (n, t) \<Longrightarrow> centre_step E s t"
| confirmed: "confirm_observing_alerts_by_strategy now sid s = (n, t) \<Longrightarrow> centre_step E s t"
| observed_closed: "close_observing_session_alerts_by_strategy now sid s = (n, t) \<Longrightarrow> centre_step E s t"
| linked_events: "handle_recovery_events res s = (touched, t) \<Longrightarrow> centre_step E s t"
| recovered: "alert_by_pk k s = Some a \<Longrightarrow> check_and_recover_alert now a s = (b, t) \<Longrightarrow> centre_step E s t"
| cleaned_reminders: "cleanup_expired_reminders now s = (n, t) \<Longrightarrow> centre_step E s t"
| cleaned_escalations: "cleanup_expired_escalations now s = (n, t) \<Longrightarrow> centre_step E s t"
| received: "centre_step E s (s\<lparr>db_events := es\<rparr>)"
| built: "create_or_update_alert levels env now uid res (g :: strategy) field (cache, s) = (x, cache', t) \<Longrightarrow> centre_step E s t"
| heartbeat: "process_missing_detection_strategy h sid now uid s = (r2, t) \<Longrightarrow> centre_step E s t"
| instant: "bulk_build_instant_alerts I now uids hits s = (r3, t) \<Longrightarrow> centre_step E s t"
| executed: "centre_step E s (mark_strategy_executed g now s)"
| queued: "centre_step E s (emit e s)"
| edited: "k \<in> E \<Longrightarrow> update_alert now u partial d k s = (v, t) \<Longrightarrow> centre_step E s t"
| destroyed: "k \<in> E \<Longrightarrow> destroy_alert u d k s = (v, t) \<Longrightarrow> centre_step E s t"
| inserted: "create_alert_request now u d s = (v, t) \<Longrightarrow> centre_step E s t"
| configured: "db_alerts t = db_alerts s \<Longrightarrow> wf_db t \<Longrightarrow> centre_step E s t"

abbreviation centre_runs :: "nat set \<Rightarrow> db \<Rightarrow> db \<Rightarrow> bool" where
  "centre_runs E \<equiv> alert_system.reaches (centre_step E)"

inductive_cases centre_stepE: "centre_step E s t"

lemma keyed_filter_sub: "keyed key xs \<Longrightarrow> keyed key (filter p xs)"
  by (simp add: keyed_def distinct_map_filter)

lemma cleanup_reminders_moves: "wf_db s \<Longrightarrow> cleanup_expired_reminders now s = (n, t) \<Longrightarrow> moves s t"
  by (rule task_table_moves)
     (auto simp: cleanup_expired_reminders_def Let_def wf_db_def keyed_filter_sub image_subset_iff)

lemma cleanup_escalations_moves: "wf_db s \<Longrightarrow> cleanup_expired_escalations now s = (n, t) \<Longrightarrow> moves s t"
  by (rule task_table_moves)
     (auto simp: cleanup_expired_escalations_def Let_def wf_db_def keyed_filter_sub image_subset_iff)

text \<open>A step moves every alert outside \<open>E\<close>.\<close>

definition moves_outside :: "nat set \<Rightarrow> db \<Rightarrow> db \<Rightarrow> bool" where
  "moves_outside E s t \<longleftrightarrow> wf_db t \<and>
     (\<forall>k a. k \<notin> E \<longrightarrow> alert_by_pk k s = Some a \<longrightarrow> (\<exists>b. alert_by_pk k t = Some b \<and> alert_move a b))"

lemma moves_outsideI: "moves s t \<Longrightarrow> moves_outside E s t"
  by (simp add: moves_def moves_outside_def)

lemma rewritten_outside:
  assumes "k \<in> E" "wf_db t" "\<And>j. j \<noteq> k \<Longrightarrow> alert_by_pk j t = alert_by_pk j s"
  shows "moves_outside E s t"
  unfolding moves_outside_def using assms(2)
proof (intro conjI allI impI)
  fix j a assume "j \<notin> E" "alert_by_pk j s = Some a"
  then show "\<exists>b. alert_by_pk j t = Some b \<and> alert_move a b" using assms(1,3) by (metis alert_move_refl)
qed

lemma view_moves:
  assumes "wf_db s"
  shows "k \<in> E \<Longrightarrow> update_alert now u p d k s = (v, t) \<Longrightarrow> moves_outside E s t"
    and "k \<in> E \<Longrightarrow> destroy_alert u d k s = (v, t) \<Longrightarrow> moves_outside E s t"
    and "create_alert_request now u d s = (v, t) \<Longrightarrow> moves s t"
proof -
  show "moves_outside E s t" if "k \<in> E" "update_alert now u p d k s = (v, t)"
    using update_alert_effect[OF assms that(2)] by (intro rewritten_outside[OF that(1)]) simp_all
  show "moves_outside E s t" if "k \<in> E" "destroy_alert u d k s = (v, t)"
    using destroy_alert_effect(1,2)[OF assms that(2)]
    by (intro rewritten_outside[OF that(1)]) (simp_all add: aview_def)
  show "moves s t" if "create_alert_request now u d s = (v, t)"
  proof (cases rule: create_request_effect[OF that])
    case 1
    then show ?thesis using assms by (auto intro: movesI)
  next
    case (2 a)
    then show ?thesis using create_moves[OF assms 2(3,4)] by simp
  qed
qed

lemma centre_step_moves: "centre_step E s t \<Longrightarrow> wf_db s \<Longrightarrow> moves_outside E s t"
proof (induction rule: centre_step.induct)
  case (recovered k s a now b t)
  then show ?case using recover_moves[of s k a now] by (simp add: moves_outsideI)
next
  case (received s es)
  then show ?case by (intro moves_outsideI task_table_moves) (auto simp: wf_db_def)
next
  case (queued s e)
  then show ?case by (intro moves_outsideI movesI) auto
next
  case (edited k now u partial d s v t)
  then show ?case by (blast intro: view_moves(1))
next
  case (destroyed k u d s v t)
  then show ?case by (blast intro: view_moves(2))
qed (blast intro: moves_outsideI operate_moves assignment_moves escalation_moves reminder_moves auto_close_moves
    timeout_moves confirm_moves close_observing_moves linking_moves cleanup_reminders_moves
    cleanup_escalations_moves build_moves[THEN conjunct1] heartbeat_moves instant_moves executed_moves
    view_moves(3) task_table_moves)+

interpretation centre: alert_system "centre_step E" wf_db "\<lambda>k s. if k \<in> E then None else alert_by_pk k s" for E
proof
  show "wf_db t" if "wf_db s" "centre_step E s t" for s t
    using centre_step_moves[OF that(2,1)] by (simp add: moves_outside_def)
  show "\<exists>b. (if k \<in> E then None else alert_by_pk k t) = Some b \<and> alert_move a b"
    if "wf_db s" "centre_step E s t" "(if k \<in> E then None else alert_by_pk k s) = Some a" for s t k a
    using centre_step_moves[OF that(2,1)] that(3) by (auto simp: moves_outside_def split: if_splits)
qed

section \<open>Programs of several steps\<close>

text \<open>The callback after the commit and the batch request are runs of the system.\<close>

lemma recovery_checks_run:
  "centre_runs W s (run_recovery_checks now ks s)"
proof (induction ks rule: rev_induct)
  case Nil
  then show ?case by (simp add: run_recovery_checks_def centre.reaches.here)
next
  case (snoc k ks)
  let ?u = "run_recovery_checks now ks s"
  show ?case
  proof (cases "alert_by_pk k ?u")
    case None
    with snoc show ?thesis by (simp add: run_recovery_checks_def)
  next
    case (Some a)
    obtain b t where "check_and_recover_alert now a ?u = (b, t)" by fastforce
    with Some have "centre_step W ?u (run_recovery_checks now (ks @ [k]) s)"
      by (auto simp: run_recovery_checks_def intro: centre_step.recovered)
    with snoc show ?thesis by (rule centre.reaches.more)
  qed
qed

lemma batch_run:
  assumes "operator_batch nf now user allowed action aids data s = (b, results, t)"
  shows "centre_runs W s t"
proof -
  have "centre_runs W s (op.run_all nf now user (Some allowed) action data ids s)" for ids
  proof (induction ids rule: rev_induct)
    case Nil
    then show ?case by (simp add: op.run_all_def centre.reaches.here)
  next
    case (snoc aid ids)
    let ?u = "op.run_all nf now user (Some allowed) action data ids s"
    obtain r t where "operate nf now user (Some allowed) action aid data ?u = (r, t)" by fastforce
    then have "centre_step W ?u (op.run_all nf now user (Some allowed) action data (ids @ [aid]) s)"
      by (auto simp: op.run_all_def intro: centre_step.operated)
    with snoc show ?case by (rule centre.reaches.more)
  qed
  then show ?thesis using operator_batch_db[OF assms] by simp
qed

text \<open>The aggregation task and the dispatcher of instant alerts are runs as well.\<close>

lemma reaches_step: "centre_step W s t \<Longrightarrow> centre_runs W s t"
  by (rule centre.reaches.more[OF centre.reaches.here])

lemma reaches_trans: "centre_runs W t u \<Longrightarrow> centre_runs W s t \<Longrightarrow> centre_runs W s u"
  by (induction rule: centre.reaches.induct) (auto intro: centre.reaches.more)

lemma build_result_run:
  assumes "wf_db (snd st)" "build_result E now uid g dims r st = (x, st')"
  shows "centre_runs W (snd st) (snd st')"
proof (cases st)
  case (Pair cache s)
  show ?thesis
  proof (cases x)
    case (Inl e)
    then have "snd st' = s"
      using assms(2) Pair by (auto simp: build_result_def Let_def split: option.splits prod.splits sum.splits)
    then show ?thesis by (simp add: Pair centre.reaches.here)
  next
    case (Inr y)
    then obtain fp a cache' t where c: "create_or_update_alert (ae_levels E) (hb_mem (ae_hb E)) now uid
        (to_result fp (normalize_fingerprint E r)) g (join_with '','' dims) (cache, s) = (Inr a, cache', t)"
      "st' = (cache', snd (check_and_recover_alert now a t))"
      using assms(2) Pair
      by (auto simp: build_result_def Let_def split: option.splits prod.splits sum.splits)
    have wf: "wf_db s" using assms(1) by (simp add: Pair)
    have row: "alert_by_pk (al_pk a) t = Some a" using build_moves[OF wf c(1)] by simp
    have "centre_runs W s t" by (rule reaches_step[OF centre_step.built[OF c(1)]])
    moreover obtain b u where "check_and_recover_alert now a t = (b, u)" by fastforce
    then have "centre_step W t (snd (check_and_recover_alert now a t))" using centre_step.recovered[OF row] by simp
    ultimately show ?thesis using c(2) Pair by (simp add: centre.reaches.more)
  qed
qed

lemma build_results_run:
  "wf_db (snd st) \<Longrightarrow> centre_runs W (snd st) (snd (snd (build_results E now uids g dims i rs (c, st))))"
proof (induction rs arbitrary: i c st)
  case (Cons r rs)
  obtain x st' where b: "build_result E now (uids i) g dims r st = (x, st')" by (metis surj_pair)
  have one: "centre_runs W (snd st) (snd st')" by (rule build_result_run[OF Cons.prems b])
  obtain c' where n: "build_results E now uids g dims i (r # rs) (c, st) = build_results E now uids g dims (Suc i) rs (c', st')"
    using b by (cases x) auto
  show ?case unfolding n by (rule reaches_trans[OF Cons.IH[OF centre.reaches_inv[OF one Cons.prems]] one])
qed (simp add: centre.reaches.here)

lemma reaches_emit: "centre_runs W s t \<Longrightarrow> centre_runs W s (emit e t)"
  by (rule centre.reaches.more[OF _ centre_step.queued])

lemma reaches_executed: "centre_runs W s t \<Longrightarrow> centre_runs W s (mark_strategy_executed g now t)"
  by (rule centre.reaches.more[OF _ centre_step.executed])

lemma create_or_update_alerts_run:
  assumes "wf_db s" "create_or_update_alerts E now uids g dims rs (cache, s) = (n, cache', t)"
  shows "centre_runs W s t"
proof -
  let ?c = "\<lparr>ac_success = 0, ac_fail = 0, ac_recovered = 0, ac_new = []\<rparr>"
  obtain c k u where b: "build_results E now uids g dims 0 rs (?c, cache, s) = (c, k, u)" by (metis surj_pair)
  have "centre_runs W s u" using build_results_run[of "(cache, s)" W E now uids g dims 0 rs ?c] assms(1) b by simp
  then show ?thesis using assms(2) b reaches_emit by (auto simp: create_or_update_alerts_def split: if_splits)
qed

lemma aggregate_run:
  assumes "wf_db s"
  shows "centre_runs W s (snd (snd (aggregate_for_dimensions E now uids g events dims (cache, s))))"
proof -
  have "centre_runs W s (if n > 0 then mark_strategy_executed g now t else t)"
    if "create_or_update_alerts E now uids g dims rs (cache, s) = (n, k, t)" for rs n k t
    using create_or_update_alerts_run[OF assms that] reaches_executed by simp
  then show ?thesis
    using reaches_executed[OF centre.reaches.here, of W s g now] centre.reaches.here[of W s]
    by (auto simp: aggregate_for_dimensions_def Let_def split: sum.splits prod.splits)
qed

lemma strategy_run:
  assumes "wf_db (snd st)" "process_strategy E now uids g st = (r, st')"
  shows "centre_runs W (snd st) (snd st')"
proof (cases "sg_type g = ST_MISSING_DETECTION")
  case True
  then have "process_missing_detection_strategy (ae_hb E) (sg_id g) now (uids 0) (snd st) = (r, snd st')"
    using assms(2) by (auto simp: process_strategy_def split: prod.splits)
  then show ?thesis by (rule reaches_step[OF centre_step.heartbeat])
next
  case False
  obtain cache s where st: "st = (cache, s)" by fastforce
  have "centre_runs W s (snd (process_aggregated_strategy E now uids g (cache, s)))"
    using aggregate_run[of s W] assms(1) reaches_executed[OF centre.reaches.here, of W s g now] centre.reaches.here[of W s]
    by (auto simp: process_aggregated_strategy_def Let_def st split: sum.splits)
  then show ?thesis using assms(2) False by (auto simp: process_strategy_def st)
qed

lemma strategies_run:
  "wf_db (snd st) \<Longrightarrow> centre_runs W (snd st) (snd (snd (process_strategies E now uids gs st)))"
proof (induction gs arbitrary: st)
  case (Cons g gs)
  obtain r st' where p: "process_strategy E now (uids (sg_id g)) g st = (r, st')" by (metis surj_pair)
  have one: "centre_runs W (snd st) (snd st')" by (rule strategy_run[OF Cons.prems p])
  show ?case
  proof (cases r)
    case (Inl e)
    then show ?thesis using p one by simp
  next
    case (Inr x)
    then show ?thesis using p reaches_trans[OF Cons.IH[OF centre.reaches_inv[OF one Cons.prems]] one] by simp
  qed
qed (simp add: centre.reaches.here)

lemma aggregation_task_run:
  assumes "wf_db s"
  shows "centre_runs W s (event_aggregation_alert E now uids locked s)"
proof -
  let ?t = "snd (process_aggregation E now uids s)"
  have "centre_runs W s ?t"
    using strategies_run[of "([], s)" W E now uids "get_active_strategies s"] assms
    by (simp add: process_aggregation_def case_prod_beta)
  moreover have "centre_step W ?t (snd (check_session_timeouts now ?t))"
    by (rule centre_step.timed_out[of now _ "fst (check_session_timeouts now ?t)"]) simp
  ultimately show ?thesis
    by (simp add: event_aggregation_alert_def centre.reaches.here centre.reaches.more)
qed

lemma dispatch_run: "centre_runs W s (snd (dispatch I now uids broker bulk (cached, s)))"
proof -
  have b: "centre_runs W s (build_and_trigger I now uids hits s)" for hits
  proof -
    obtain r t where c: "bulk_build_instant_alerts I now uids hits s = (r, t)" by (metis surj_pair)
    have "centre_runs W s t" by (rule reaches_step[OF centre_step.instant[OF c]])
    then show ?thesis using reaches_emit by (cases r) (simp_all add: build_and_trigger_def c trigger_dispatch_async_def)
  qed
  show ?thesis
    using b reaches_emit[OF centre.reaches.here] centre.reaches.here[of W s] by (simp add: dispatch_def Let_def)
qed

end
