(* ===== verification/Shield.thy ===== *)
theory Shield
  imports Alerts_Data Time_Range Rule_Matcher
begin

text \<open>
  Event shields (\<open>common/shield.py\<close>): the active shields whose time window is open hide the
  events they match, so that no alert is built from them. The database columns are the
  rows' fields through the lookup parameter of the rule matcher.
\<close>

section \<open>Data\<close>

record shield =
  sh_id :: int
  sh_name :: string
  sh_match_type :: match_type
  sh_match_rules :: "json list"
  sh_suppression_time :: json
  sh_is_active :: bool

definition EVENT_FIELD_MAPPING :: field_mapping where
  "EVENT_FIELD_MAPPING =
     [(''source_id'', ''source__source_id''), (''level'', ''level''), (''level_id'', ''level''),
      (''resource_type'', ''resource_type''), (''resource_id'', ''resource_id''),
      (''content'', ''description''), (''title'', ''title''), (''event_id'', ''event_id'')]"

definition shieldable_statuses :: "event_status list" where
  "shieldable_statuses = [E_RECEIVED, E_PENDING]"

record shield_result =
  sr_total :: int
  sr_shielded :: int
  sr_unshielded :: int
  sr_results :: "(nat \<times> int) list"

definition shield_summary :: "nat \<Rightarrow> nat \<Rightarrow> shield_result" where
  "shield_summary n unshielded =
     \<lparr>sr_total = int n, sr_shielded = 0, sr_unshielded = int unshielded, sr_results = []\<rparr>"

section \<open>One shield\<close>

fun get_time_matched_shields :: "zone \<Rightarrow> int \<Rightarrow> shield list \<Rightarrow> shield list res" where
  "get_time_matched_shields z now [] = Inr []"
| "get_time_matched_shields z now (sh # shs) =
     (case is_in_range z (sh_suppression_time sh) now of
        Inl e \<Rightarrow> Inl e
      | Inr b \<Rightarrow>
        (case get_time_matched_shields z now shs of
           Inl e \<Rightarrow> Inl e
         | Inr rest \<Rightarrow> Inr (if b then sh # rest else rest)))"

definition batch_find_matching_events ::
  "event orm \<Rightarrow> string list \<Rightarrow> shield \<Rightarrow> nat list \<Rightarrow> db \<Rightarrow> nat list res" where
  "batch_find_matching_events m ids sh excluded s =
     (let base = filter (\<lambda>e. ev_event_id e \<in> set ids \<and> ev_status e \<in> set shieldable_statuses \<and>
                             ev_pk e \<notin> set excluded) (db_events s)
      in case sh_match_type sh of
           MT_ALL \<Rightarrow> Inr (map ev_pk base)
         | MT_FILTER \<Rightarrow>
             (case filter_queryset m EVENT_FIELD_MAPPING base (sh_match_rules sh) of
                Inl e \<Rightarrow> Inl e
              | Inr es \<Rightarrow> Inr (map ev_pk es))
         | MT_OTHER \<Rightarrow> Inr [])"

text \<open>A query set is evaluated when it is iterated. \<open>events_to_shield\<close> is iterated after the
  update, so it is read from the updated table.\<close>

definition batch_execute_shield :: "nat list \<Rightarrow> shield \<Rightarrow> db \<Rightarrow> (nat \<times> int) list \<times> db" where
  "batch_execute_shield pks sh s =
     (let p = (\<lambda>e. ev_pk e \<in> set pks \<and> ev_status e \<in> set shieldable_statuses);
          s1 = s\<lparr>db_events := tupdate p (\<lambda>e. e\<lparr>ev_status := E_SHIELD\<rparr>) (db_events s)\<rparr>;
          events_to_shield = filter p (db_events s1)
      in (map (\<lambda>e. (ev_pk e, sh_id sh)) events_to_shield, s1))"

section \<open>The check\<close>

text \<open>One round of the loop over the shields: the result list, the set of shielded events and
  the database. An exception skips the shield.\<close>

definition shield_round ::
  "event orm \<Rightarrow> string list \<Rightarrow> shield \<Rightarrow> (nat \<times> int) list \<times> nat list \<times> db
   \<Rightarrow> (nat \<times> int) list \<times> nat list \<times> db" where
  "shield_round m ids sh st =
     (case st of (results, done, s) \<Rightarrow>
        (case batch_find_matching_events m ids sh done s of
           Inl _ \<Rightarrow> st
         | Inr [] \<Rightarrow> st
         | Inr pks \<Rightarrow>
             let (rs, t) = batch_execute_shield pks sh s
             in (results @ rs, map fst rs @ done, t)))"

definition execute_shield_check ::
  "zone \<Rightarrow> event orm \<Rightarrow> int \<Rightarrow> string list \<Rightarrow> shield list \<Rightarrow> db \<Rightarrow> shield_result res \<times> db" where
  "execute_shield_check z m now ids shields s =
     (case get_time_matched_shields z now shields of
        Inl e \<Rightarrow> (Inl e, s)
      | Inr active \<Rightarrow>
          let n = length (filter (\<lambda>e. ev_event_id e \<in> set ids) (db_events s));
              (results, done, t) = fold (shield_round m ids) active ([], [], s)
          in (Inr \<lparr>sr_total = int n, sr_shielded = int (length results),
                   sr_unshielded = int n - int (length results), sr_results = results\<rparr>, t))"

text \<open>The constructor of \<open>EventShieldOperator\<close>: without shields or events it raises.\<close>

definition shield_operator :: "string list \<Rightarrow> shield list \<Rightarrow> db \<Rightarrow> unit res" where
  "shield_operator ids shields s =
     (if shields = [] then Inl ShieldNotFoundError
      else if \<not> list_ex (\<lambda>e. ev_event_id e \<in> set ids) (db_events s) then Inl EventNotFoundError
      else Inr ())"

text \<open>The entry point. \<open>None\<close> means that the active shields are queried here.\<close>

definition execute_shield_check_for_events ::
  "zone \<Rightarrow> event orm \<Rightarrow> int \<Rightarrow> string list \<Rightarrow> shield list option \<Rightarrow> shield list \<Rightarrow> db
   \<Rightarrow> shield_result res \<times> db" where
  "execute_shield_check_for_events z m now ids given all_shields s =
     (let shields = (case given of Some shs \<Rightarrow> shs | None \<Rightarrow> filter sh_is_active all_shields) in
      if ids = [] then (Inr (shield_summary 0 0), s)
      else case shield_operator ids shields s of
        Inl ShieldNotFoundError \<Rightarrow> (Inr (shield_summary (length ids) (length ids)), s)
      | Inl _ \<Rightarrow> (Inr (shield_summary 0 0), s)
      | Inr _ \<Rightarrow> execute_shield_check z m now ids shields s)"

section \<open>What a shield selects\<close>

definition shield_selects :: "event orm \<Rightarrow> shield \<Rightarrow> event \<Rightarrow> bool" where
  "shield_selects m sh e =
     (case sh_match_type sh of
        MT_ALL \<Rightarrow> True
      | MT_FILTER \<Rightarrow>
          (case filter_queryset m EVENT_FIELD_MAPPING [e] (sh_match_rules sh) of Inl _ \<Rightarrow> False | Inr es \<Rightarrow> es \<noteq> [])
      | MT_OTHER \<Rightarrow> False)"

lemma filter_queryset_pointwise:
  "(\<exists>x. \<forall>rows. filter_queryset m fm rows rules = Inl x) \<or>
   (\<exists>P. \<forall>rows. filter_queryset m fm rows rules = Inr (filter P rows))"
proof -
  consider "rules = []" | x where "rules \<noteq> []" "build_combined_q m fm rules = Inl x"
    | "rules \<noteq> []" "build_combined_q m fm rules = Inr None"
    | p where "rules \<noteq> []" "build_combined_q m fm rules = Inr (Some p)"
    by (metis obj_sumE option.exhaust)
  then show ?thesis
  proof cases
    case 1
    then show ?thesis by (intro disjI2 exI[of _ "\<lambda>_. True"]) (simp add: filter_queryset_def)
  next
    case (2 x)
    then show ?thesis by (simp add: filter_queryset_def)
  next
    case 3
    then show ?thesis by (intro disjI2 exI[of _ "\<lambda>_. False"]) (simp add: filter_queryset_def)
  next
    case (4 p)
    then show ?thesis
      by (intro disjI2 exI[of _ "\<lambda>r. q_holds m r p"]) (simp add: filter_queryset_def)
  qed
qed

lemma filter_queryset_selects:
  assumes "filter_queryset m fm rows rules = Inr es"
  shows "es = filter (\<lambda>r. filter_queryset m fm [r] rules = Inr [r]) rows"
proof -
  from filter_queryset_pointwise[of m fm rules] assms obtain P where
    "\<forall>rows. filter_queryset m fm rows rules = Inr (filter P rows)" by auto
  with assms show ?thesis by (auto intro!: filter_cong)
qed

lemma find_matching_selects:
  assumes "batch_find_matching_events m ids sh excluded s = Inr pks"
  shows "pks = map ev_pk (filter (\<lambda>e. ev_event_id e \<in> set ids \<and> ev_status e \<in> set shieldable_statuses \<and>
    ev_pk e \<notin> set excluded \<and> shield_selects m sh e) (db_events s))"
proof (cases "sh_match_type sh")
  case MT_FILTER
  let ?base = "filter (\<lambda>e. ev_event_id e \<in> set ids \<and> ev_status e \<in> set shieldable_statuses \<and>
                             ev_pk e \<notin> set excluded) (db_events s)"
  from assms MT_FILTER obtain es where es: "filter_queryset m EVENT_FIELD_MAPPING ?base (sh_match_rules sh) = Inr es"
    "pks = map ev_pk es"
    by (auto simp: batch_find_matching_events_def Let_def split: sum.splits)
  from filter_queryset_pointwise[of m EVENT_FIELD_MAPPING "sh_match_rules sh"] es(1) obtain P where
    P: "\<And>rows. filter_queryset m EVENT_FIELD_MAPPING rows (sh_match_rules sh) = Inr (filter P rows)" by auto
  then have "shield_selects m sh e \<longleftrightarrow> P e" for e by (simp add: shield_selects_def MT_FILTER)
  then show ?thesis using es P[of ?base] by (simp add: conj_assoc)
qed (use assms in \<open>auto simp: batch_find_matching_events_def shield_selects_def Let_def\<close>)

lemma find_matching_error:
  "batch_find_matching_events m ids sh excluded s = Inl x \<Longrightarrow> \<not> shield_selects m sh e"
  using filter_queryset_pointwise[of m EVENT_FIELD_MAPPING "sh_match_rules sh"]
  by (auto simp: batch_find_matching_events_def shield_selects_def Let_def split: match_type.splits sum.splits)

section \<open>Effect of the loop\<close>

text \<open>An event after the shields of a list: hidden when one of them selects it.\<close>

definition shade :: "event orm \<Rightarrow> string list \<Rightarrow> shield list \<Rightarrow> event \<Rightarrow> event" where
  "shade m ids shields e =
     (if ev_event_id e \<in> set ids \<and> ev_status e \<in> set shieldable_statuses \<and>
         list_ex (\<lambda>sh. shield_selects m sh e) shields
      then e\<lparr>ev_status := E_SHIELD\<rparr> else e)"

lemma execute_results_empty: "fst (batch_execute_shield pks sh s) = []"
  by (auto simp: batch_execute_shield_def Let_def filter_empty_conv tupdate_def shieldable_statuses_def)

lemma shield_round_effect:
  assumes k: "keyed ev_pk (db_events s)"
  shows "shield_round m ids sh (rs, [], s) = (rs, [], s\<lparr>db_events := map (shade m ids [sh]) (db_events s)\<rparr>)"
proof (cases "batch_find_matching_events m ids sh [] s")
  case (Inl x)
  then have "map (shade m ids [sh]) (db_events s) = db_events s"
    using find_matching_error by (auto simp: shade_def intro!: map_idI)
  with Inl show ?thesis by (simp add: shield_round_def)
next
  case (Inr pks)
  let ?sel = "\<lambda>e. ev_event_id e \<in> set ids \<and> ev_status e \<in> set shieldable_statuses \<and> shield_selects m sh e"
  have pks: "pks = map ev_pk (filter ?sel (db_events s))"
    using find_matching_selects[OF Inr] by simp
  have "tupdate (\<lambda>e. ev_pk e \<in> set pks \<and> ev_status e \<in> set shieldable_statuses)
      (\<lambda>e. e\<lparr>ev_status := E_SHIELD\<rparr>) (db_events s) = map (shade m ids [sh]) (db_events s)"
    unfolding tupdate_def
  proof (rule map_cong[OF refl])
    fix e assume e: "e \<in> set (db_events s)"
    have "ev_pk e \<in> set pks \<longleftrightarrow> ?sel e"
    proof
      assume "ev_pk e \<in> set pks"
      then obtain x where "x \<in> set (db_events s)" "?sel x" "ev_pk e = ev_pk x" by (auto simp: pks)
      then show "?sel e" using keyed_inj[OF k e, of x] by simp
    qed (use e in \<open>auto simp: pks\<close>)
    then show "(if ev_pk e \<in> set pks \<and> ev_status e \<in> set shieldable_statuses
        then e\<lparr>ev_status := E_SHIELD\<rparr> else e) = shade m ids [sh] e"
      by (simp add: shade_def conj_commute)
  qed
  then have ex: "batch_execute_shield pks sh s =
      ([], s\<lparr>db_events := map (shade m ids [sh]) (db_events s)\<rparr>)"
    using execute_results_empty[of pks sh s] by (simp add: batch_execute_shield_def Let_def)
  show ?thesis
  proof (cases pks)
    case Nil
    then have "map (shade m ids [sh]) (db_events s) = db_events s"
      using pks by (auto simp: shade_def filter_empty_conv intro!: map_idI)
    with Inr Nil show ?thesis by (simp add: shield_round_def)
  next
    case (Cons a as)
    with Inr ex show ?thesis by (simp add: shield_round_def)
  qed
qed

lemma shade_keeps [simp]: "ev_pk (shade m ids shs e) = ev_pk e" "ev_event_id (shade m ids shs e) = ev_event_id e"
  by (simp_all add: shade_def)

lemma shade_hidden: "ev_status e = E_SHIELD \<Longrightarrow> shade m ids shs e = e"
  by (simp add: shade_def shieldable_statuses_def)

lemma shade_shade: "shade m ids shs (shade m ids [sh] e) = shade m ids (sh # shs) e"
proof (cases "ev_event_id e \<in> set ids \<and> ev_status e \<in> set shieldable_statuses \<and> shield_selects m sh e")
  case True
  then have "shade m ids [sh] e = e\<lparr>ev_status := E_SHIELD\<rparr>" "shade m ids (sh # shs) e = e\<lparr>ev_status := E_SHIELD\<rparr>"
    by (simp_all add: shade_def)
  then show ?thesis by (simp add: shade_hidden)
next
  case False
  then have "shade m ids [sh] e = e" "shade m ids (sh # shs) e = shade m ids shs e"
    by (auto simp: shade_def)
  then show ?thesis by simp
qed

lemma shade_idem: "shade m ids shs (shade m ids shs e) = shade m ids shs e"
  by (cases "shade m ids shs e = e") (simp_all add: shade_def[of m ids shs e] shade_hidden split: if_splits)

lemma shield_fold_effect:
  "keyed ev_pk (db_events s) \<Longrightarrow>
   fold (shield_round m ids) shs (rs, [], s) = (rs, [], s\<lparr>db_events := map (shade m ids shs) (db_events s)\<rparr>)"
proof (induction shs arbitrary: s)
  case Nil
  have "map (shade m ids []) (db_events s) = db_events s" by (auto simp: shade_def intro!: map_idI)
  then show ?case by simp
next
  case (Cons sh shs)
  let ?s = "s\<lparr>db_events := map (shade m ids [sh]) (db_events s)\<rparr>"
  have "map ev_pk (db_events ?s) = map ev_pk (db_events s)" by simp
  with Cons.prems have "keyed ev_pk (db_events ?s)" by (metis keyed_def)
  from Cons.IH[OF this] show ?case
    by (simp add: shield_round_effect[OF Cons.prems] shade_shade comp_def)
qed

lemma time_matched_filter:
  "get_time_matched_shields z now shs = Inr active \<Longrightarrow>
   active = filter (\<lambda>sh. is_in_range z (sh_suppression_time sh) now = Inr True) shs"
  by (induction shs arbitrary: active) (auto split: sum.splits if_splits)

section \<open>Properties\<close>

text \<open>C14: the shield check hides exactly the right events: an event of the request that is new
  or pending becomes shielded when some given shield with an open time window selects it;
  every other event, and everything else in the database, stays as it is.\<close>

theorem shield_check_correct:
  assumes "keyed ev_pk (db_events s)" "execute_shield_check z m now ids shields s = (Inr r, t)"
  shows "t = s\<lparr>db_events := map (shade m ids
    (filter (\<lambda>sh. is_in_range z (sh_suppression_time sh) now = Inr True) shields)) (db_events s)\<rparr>"
  using assms(2) time_matched_filter[of z now shields]
  by (auto simp: execute_shield_check_def shield_fold_effect[OF assms(1)] Let_def split: sum.splits)

definition sample_event :: event where
  "sample_event = \<lparr>ev_pk = 1, ev_event_id = ''E1'', ev_source_pk = 1, ev_source_id = ''src'',
     ev_source_name = ''src'', ev_level = ''1'', ev_title = ''cpu'', ev_external_id = None,
     ev_action = EA_CREATED, ev_start_time = None, ev_end_time = None, ev_received_at = 0,
     ev_item = None, ev_resource_id = None, ev_resource_type = None, ev_resource_name = None,
     ev_labels = JObj [], ev_enrichment = [], ev_status = E_RECEIVED, ev_description = None,
     ev_service = None, ev_location = None, ev_push_source_id = ''default'', ev_event_type = 0,
     ev_rule_id = None, ev_tags = JObj [], ev_team = [],
     ev_ingest_key = None\<rparr>"

definition sample_event_orm :: "event orm" where
  "sample_event_orm = \<lparr>orm_sat = (\<lambda>e f l v. f = ''title'' \<and> v = JStr (ev_title e)), orm_regex = (\<lambda>_. True)\<rparr>"

definition sample_shield :: shield where
  "sample_shield = \<lparr>sh_id = 9, sh_name = ''night'', sh_match_type = MT_FILTER,
     sh_match_rules = [JList [JObj [(''key'', JStr ''title''), (''value'', JStr ''cpu'')]]],
     sh_suppression_time = JObj [], sh_is_active = True\<rparr>"

definition event_db :: "event list \<Rightarrow> db" where
  "event_db es = \<lparr>db_alerts = [], db_events = es, db_assignments = [], db_reminders = [],
     db_escalations = [], db_strategies = [], db_users = [], db_email_channel = None,
     db_logs = [], db_outbox = []\<rparr>"

definition sample_zone0 :: zone where
  "sample_zone0 = \<lparr>zn_local = (\<lambda>t. \<lparr>lt_weekday = 0, lt_day = 1, lt_hour = 0, lt_minute = 0, lt_second = 0\<rparr>),
     zn_instant = (\<lambda>s. None)\<rparr>"

theorem shield_check_witness:
  "map ev_status (db_events (snd (execute_shield_check sample_zone0 sample_event_orm 0 [''E1''] [sample_shield]
     (event_db [sample_event, sample_event\<lparr>ev_pk := 2, ev_event_id := ''E2''\<rparr>])))) = [E_SHIELD, E_RECEIVED]"
proof -
  let ?s = "event_db [sample_event, sample_event\<lparr>ev_pk := 2, ev_event_id := ''E2''\<rparr>]"
  have k: "keyed ev_pk (db_events ?s)" by (simp add: event_db_def keyed_def sample_event_def)
  have r: "is_in_range sample_zone0 (sh_suppression_time sample_shield) 0 = Inr True"
    by (simp add: sample_shield_def is_in_range_def)
  have n: "\<not> isl (fst (execute_shield_check sample_zone0 sample_event_orm 0 [''E1''] [sample_shield] ?s))"
    by (simp add: execute_shield_check_def r Let_def split: prod.split)
  then obtain x t where e: "execute_shield_check sample_zone0 sample_event_orm 0 [''E1''] [sample_shield] ?s = (Inr x, t)"
    by (metis isl_def prod.collapse sum.collapse(2))
  have sel: "shield_selects sample_event_orm sample_shield sample_event"
    by code_simp
  show ?thesis
    using shield_check_correct[OF k e] sel e
    by (simp add: event_db_def shade_def r) (simp add: sample_event_def shieldable_statuses_def)
qed

text \<open>A repeated check changes nothing: once the shields of a request have been applied,
  applying the same shields in the same windows again leaves the database as it is.\<close>

theorem shield_check_idempotent:
  assumes "keyed ev_pk (db_events s)" "execute_shield_check z m now ids shields s = (Inr r, t)"
  shows "snd (execute_shield_check z m now ids shields t) = t"
proof -
  let ?a = "filter (\<lambda>sh. is_in_range z (sh_suppression_time sh) now = Inr True) shields"
  from assms(2) obtain active where act: "get_time_matched_shields z now shields = Inr active"
    by (auto simp: execute_shield_check_def split: sum.splits)
  have active: "active = ?a" using time_matched_filter[OF act] .
  have t: "t = s\<lparr>db_events := map (shade m ids active) (db_events s)\<rparr>"
    using assms(2) act by (auto simp: execute_shield_check_def shield_fold_effect[OF assms(1)] Let_def)
  have "map ev_pk (db_events t) = map ev_pk (db_events s)" by (simp add: t)
  with assms(1) have k: "keyed ev_pk (db_events t)" by (metis keyed_def)
  show ?thesis
    by (simp add: execute_shield_check_def act shield_fold_effect[OF k] Let_def) (simp add: t comp_def shade_idem)
qed

theorem shield_check_idempotent_witness:
  "snd (execute_shield_check sample_zone0 sample_event_orm 0 [''E1''] [sample_shield]
     (snd (execute_shield_check sample_zone0 sample_event_orm 0 [''E1''] [sample_shield] (event_db [sample_event])))) =
   snd (execute_shield_check sample_zone0 sample_event_orm 0 [''E1''] [sample_shield] (event_db [sample_event]))"
proof -
  have k: "keyed ev_pk (db_events (event_db [sample_event]))" by (simp add: event_db_def keyed_def)
  have r: "is_in_range sample_zone0 (sh_suppression_time sample_shield) 0 = Inr True"
    by (simp add: sample_shield_def is_in_range_def)
  have "\<not> isl (fst (execute_shield_check sample_zone0 sample_event_orm 0 [''E1''] [sample_shield] (event_db [sample_event])))"
    by (simp add: execute_shield_check_def r Let_def split: prod.split)
  then obtain x t where e: "execute_shield_check sample_zone0 sample_event_orm 0 [''E1''] [sample_shield] (event_db [sample_event]) = (Inr x, t)"
    by (metis isl_def prod.collapse sum.collapse(2))
  from shield_check_idempotent[OF k e] e show ?thesis by simp
qed

section \<open>The reported numbers\<close>

text \<open>The statistics are always zero: the list of the events to report is read after their
  status was changed, and then none of them passes the status filter any more. The check
  that hides events reports that it hid none.\<close>

lemma shielded_events_zero:
  assumes "keyed ev_pk (db_events s)" "execute_shield_check z m now ids shields s = (Inr r, t)"
  shows "sr_shielded r = 0 \<and> sr_results r = [] \<and> sr_unshielded r = sr_total r"
  using assms(2)
  by (auto simp: execute_shield_check_def shield_fold_effect[OF assms(1)] Let_def split: sum.splits)

end
