(* ===== verification/Incident.thy ===== *)
theory Incident
  imports Alert_Builder
begin

text \<open>
  Incidents group alerts: \<open>service/incident_operator.py\<close> (confirm, close, reopen), the batch request
  \<open>operator\<close> of \<open>views/incident.py\<close> and the requests that add alerts to an incident or remove them.
  Incidents have their own table; their operations do not touch alerts.
\<close>

section \<open>Data\<close>

datatype incident_status = I_PENDING | I_PROCESSING | I_RESOLVED | I_CLOSED

datatype incident_operate = IO_ACKNOWLEDGE | IO_CLOSE | IO_REASSIGN | IO_ASSIGN

record incident =
  ic_pk :: nat
  ic_incident_id :: string
  ic_status :: incident_status
  ic_level :: string
  ic_alerts :: "int list"
  ic_title :: string
  ic_operate :: "incident_operate option"
  ic_operator :: "json list"
  ic_created_at :: int
  ic_updated_at :: int
  ic_updated_by :: string
  ic_team :: "json list"

record incident_db =
  id_incidents :: "incident list"
  id_logs :: "oplog list"

text \<open>Why an operation is refused.\<close>

datatype incident_error = IE_Unsupported | IE_Forbidden | IE_NotFound | IE_Status incident_status

type_synonym incident_result = "incident_error + incident"

section \<open>The operator\<close>

definition is_incident_allowed :: "string list option \<Rightarrow> string \<Rightarrow> bool" where
  "is_incident_allowed allowed iid = (case allowed of None \<Rightarrow> True | Some ids \<Rightarrow> iid \<in> set ids)"

definition get_incident :: "string \<Rightarrow> incident_db \<Rightarrow> incident option" where
  "get_incident iid s = tfind ic_incident_id iid (id_incidents s)"

definition save_incident :: "incident \<Rightarrow> incident_db \<Rightarrow> incident_db" where
  "save_incident i s = s\<lparr>id_incidents := tsave ic_pk i (id_incidents s)\<rparr>"

definition log_incident :: "string \<Rightarrow> log_kind \<Rightarrow> string \<Rightarrow> incident_db \<Rightarrow> incident_db" where
  "log_incident user kind iid s =
     s\<lparr>id_logs := id_logs s @ [\<lparr>lg_operator = user, lg_kind = kind, lg_target = iid\<rparr>]\<rparr>"

definition acknowledge_incident :: "int \<Rightarrow> string \<Rightarrow> string \<Rightarrow> incident_db \<Rightarrow> incident_result \<times> incident_db" where
  "acknowledge_incident now user iid s =
     (case get_incident iid s of
        None \<Rightarrow> (Inl IE_NotFound, s)
      | Some i \<Rightarrow>
          if ic_status i \<noteq> I_PENDING then (Inl (IE_Status (ic_status i)), s)
          else
            let i1 = i\<lparr>ic_status := I_PROCESSING, ic_operate := Some IO_ACKNOWLEDGE, ic_updated_at := now,
                       ic_updated_by := user\<rparr>
            in (Inr i1, log_incident user LogIncidentAck (ic_incident_id i1) (save_incident i1 s)))"

definition close_incident :: "int \<Rightarrow> string \<Rightarrow> string \<Rightarrow> incident_db \<Rightarrow> incident_result \<times> incident_db" where
  "close_incident now user iid s =
     (case get_incident iid s of
        None \<Rightarrow> (Inl IE_NotFound, s)
      | Some i \<Rightarrow>
          if ic_status i \<noteq> I_PROCESSING then (Inl (IE_Status (ic_status i)), s)
          else
            let i1 = i\<lparr>ic_status := I_CLOSED, ic_operate := Some IO_CLOSE, ic_updated_at := now,
                       ic_updated_by := user\<rparr>
            in (Inr i1, log_incident user LogIncidentClose (ic_incident_id i1) (save_incident i1 s)))"

definition reopen_incident :: "int \<Rightarrow> string \<Rightarrow> string \<Rightarrow> incident_db \<Rightarrow> incident_result \<times> incident_db" where
  "reopen_incident now user iid s =
     (case get_incident iid s of
        None \<Rightarrow> (Inl IE_NotFound, s)
      | Some i \<Rightarrow>
          if ic_status i \<noteq> I_CLOSED then (Inl (IE_Status (ic_status i)), s)
          else
            let i1 = i\<lparr>ic_status := I_PROCESSING, ic_operate := Some IO_REASSIGN, ic_updated_at := now,
                       ic_updated_by := user\<rparr>
            in (Inr i1, log_incident user LogIncidentReopen (ic_incident_id i1) (save_incident i1 s)))"

text \<open>\<open>getattr(self, f"_{action}_incident", None)\<close>.\<close>

definition incident_method ::
  "string \<Rightarrow> (int \<Rightarrow> string \<Rightarrow> string \<Rightarrow> incident_db \<Rightarrow> incident_result \<times> incident_db) option" where
  "incident_method action =
     (if action = ''acknowledge'' then Some acknowledge_incident
      else if action = ''close'' then Some close_incident
      else if action = ''reopen'' then Some reopen_incident
      else None)"

definition operate_incident ::
  "int \<Rightarrow> string \<Rightarrow> string list option \<Rightarrow> string \<Rightarrow> string \<Rightarrow> incident_db \<Rightarrow> incident_result \<times> incident_db" where
  "operate_incident now user allowed action iid s =
     (case incident_method action of
        None \<Rightarrow> (Inl IE_Unsupported, s)
      | Some f \<Rightarrow> if \<not> is_incident_allowed allowed iid then (Inl IE_Forbidden, s) else f now user iid s)"

section \<open>The batch request\<close>

datatype verdict = V_all | V_none | V_partly

text \<open>The loop: a later result of the same id replaces the earlier one.\<close>

fun operate_each ::
  "int \<Rightarrow> string \<Rightarrow> string list \<Rightarrow> string \<Rightarrow> string list
   \<Rightarrow> (string \<times> incident_result) list \<times> bool list \<times> incident_db \<Rightarrow> (string \<times> incident_result) list \<times> bool list \<times> incident_db" where
  "operate_each now user allowed action [] acc = acc"
| "operate_each now user allowed action (iid # iids) (results, oks, s) =
     (let (r, t) = (if iid \<notin> set allowed then (Inl IE_Forbidden, s)
                    else operate_incident now user (Some allowed) action iid s)
      in operate_each now user allowed action iids (tsave fst (iid, r) results, oks @ [\<not> isl r], t))"

text \<open>\<open>None\<close>: no id was given.\<close>

definition incident_operator_request ::
  "int \<Rightarrow> string \<Rightarrow> string list \<Rightarrow> string \<Rightarrow> string list \<Rightarrow> incident_db
   \<Rightarrow> (verdict \<times> (string \<times> incident_result) list) option \<times> incident_db" where
  "incident_operator_request now user allowed action iids s =
     (if iids = [] then (None, s)
      else
        let (results, oks, t) = operate_each now user allowed action iids ([], [], s)
        in (Some (if list_all id oks then V_all else if \<not> list_ex id oks then V_none else V_partly, results), t))"

section \<open>Alerts of an incident\<close>

fun int_ids :: "json list \<Rightarrow> int list option" where
  "int_ids [] = Some []"
| "int_ids (x # xs) =
     (case py_int x of
        Inl _ \<Rightarrow> None
      | Inr i \<Rightarrow> map_option (\<lambda>is. i # is) (int_ids xs))"

text \<open>\<open>None\<close> is the answer 400; \<open>Some None\<close> means that the request does not mention alerts.\<close>

definition parse_alert_ids :: "(string \<times> json) list \<Rightarrow> bool \<Rightarrow> int list option option" where
  "parse_alert_ids payload required =
     (case map_of payload ''alert'' of
        None \<Rightarrow> Some None
      | Some (JList xs) \<Rightarrow>
          (case int_ids xs of
             None \<Rightarrow> None
           | Some is \<Rightarrow> if required \<and> is = [] then None else Some (Some is))
      | Some _ \<Rightarrow> None)"

datatype alerts_answer = Denied | Bad_request | Done "int list" "int list"

text \<open>\<open>authorized\<close> is the decision of the permission check, \<open>allowed\<close> the alerts the user may see. A
  request that does not mention alerts raises in \<open>set(None)\<close>. The answer has the ids added and skipped.\<close>

definition add_alerts ::
  "string \<Rightarrow> bool \<Rightarrow> int list \<Rightarrow> (string \<times> json) list \<Rightarrow> incident \<Rightarrow> incident_db \<Rightarrow> alerts_answer res \<times> incident_db" where
  "add_alerts user authorized allowed payload i s =
     (if \<not> authorized then (Inr Denied, s)
      else case parse_alert_ids payload True of
        None \<Rightarrow> (Inr Bad_request, s)
      | Some None \<Rightarrow> (Inl TypeError, s)
      | Some (Some is) \<Rightarrow>
          if \<not> set is \<subseteq> set allowed then (Inr Bad_request, s)
          else
            let new = filter (\<lambda>a. a \<notin> set (ic_alerts i)) (remdups is);
                skipped = filter (\<lambda>a. a \<in> set (ic_alerts i)) (remdups is)
            in (Inr (Done new skipped),
                if new = [] then s
                else log_incident user LogIncidentAddAlerts (ic_incident_id i)
                       (save_incident (i\<lparr>ic_alerts := ic_alerts i @ new\<rparr>) s)))"

definition remove_alerts ::
  "string \<Rightarrow> bool \<Rightarrow> int list \<Rightarrow> (string \<times> json) list \<Rightarrow> incident \<Rightarrow> incident_db \<Rightarrow> alerts_answer res \<times> incident_db" where
  "remove_alerts user authorized allowed payload i s =
     (if \<not> authorized then (Inr Denied, s)
      else case parse_alert_ids payload True of
        None \<Rightarrow> (Inr Bad_request, s)
      | Some None \<Rightarrow> (Inl TypeError, s)
      | Some (Some is) \<Rightarrow>
          if \<not> set is \<subseteq> set allowed then (Inr Bad_request, s)
          else
            let gone = filter (\<lambda>a. a \<in> set (ic_alerts i)) (remdups is);
                absent = filter (\<lambda>a. a \<notin> set (ic_alerts i)) (remdups is)
            in (Inr (Done gone absent),
                if gone = [] then s
                else log_incident user LogIncidentRemoveAlerts (ic_incident_id i)
                       (save_incident (i\<lparr>ic_alerts := filter (\<lambda>a. a \<notin> set gone) (ic_alerts i)\<rparr>) s)))"

text \<open>The checks of \<open>update\<close> before the serializer: \<open>None\<close> lets the request through.\<close>

definition update_refusal :: "bool \<Rightarrow> int list \<Rightarrow> (string \<times> json) list \<Rightarrow> alerts_answer option" where
  "update_refusal authorized allowed payload =
     (if \<not> authorized then Some Denied
      else if (case map_of payload ''team'' of None \<Rightarrow> False | Some v \<Rightarrow> isl (normalize_team_ids v)) then Some Bad_request
      else case parse_alert_ids payload False of
        None \<Rightarrow> Some Bad_request
      | Some None \<Rightarrow> None
      | Some (Some is) \<Rightarrow> Some Bad_request)"

section \<open>The contract of an operation\<close>

definition incident_wf :: "incident_db \<Rightarrow> bool" where
  "incident_wf s \<longleftrightarrow> keyed ic_pk (id_incidents s) \<and> keyed ic_incident_id (id_incidents s)"

definition moved :: "incident_status \<Rightarrow> int \<Rightarrow> string \<Rightarrow> incident \<Rightarrow> incident \<Rightarrow> bool" where
  "moved st now user i j \<longleftrightarrow>
     j = i\<lparr>ic_status := st, ic_operate := ic_operate j, ic_updated_at := now, ic_updated_by := user\<rparr>"

lemma movedD:
  assumes "moved st now user i j"
  shows "ic_pk j = ic_pk i" "ic_incident_id j = ic_incident_id i" "ic_status j = st" "ic_alerts j = ic_alerts i"
    "ic_operator j = ic_operator i" "ic_title j = ic_title i" "ic_team j = ic_team i" "ic_level j = ic_level i"
    "ic_created_at j = ic_created_at i"
proof -
  have j: "j = i\<lparr>ic_status := st, ic_operate := ic_operate j, ic_updated_at := now, ic_updated_by := user\<rparr>"
    using assms by (simp add: moved_def)
  show "ic_pk j = ic_pk i" "ic_incident_id j = ic_incident_id i" "ic_status j = st" "ic_alerts j = ic_alerts i"
    "ic_operator j = ic_operator i" "ic_title j = ic_title i" "ic_team j = ic_team i" "ic_level j = ic_level i"
    "ic_created_at j = ic_created_at i"
    by (subst j, simp)+
qed

lemma save_incident_wf:
  assumes "incident_wf s" "i \<in> set (id_incidents s)" "ic_pk j = ic_pk i" "ic_incident_id j = ic_incident_id i"
  shows "incident_wf (save_incident j s)"
    "get_incident iid (save_incident j s) = (if iid = ic_incident_id i then Some j else get_incident iid s)"
proof -
  have k: "keyed ic_pk (id_incidents s)" "keyed ic_incident_id (id_incidents s)" using assms(1) by (simp_all add: incident_wf_def)
  have m: "tsave ic_pk j (id_incidents s) = map (\<lambda>x. if ic_pk x = ic_pk j then j else x) (id_incidents s)"
    using assms(2,3) by (auto simp: tsave_def)
  have e: "(ic_pk x = ic_pk j) = (ic_incident_id x = ic_incident_id j)" if "x \<in> set (id_incidents s)" for x
    using keyed_inj[OF k(1) that assms(2)] keyed_inj[OF k(2) that assms(2)] assms(3,4) by auto
  have n: "tsave ic_pk j (id_incidents s) = tsave ic_incident_id j (id_incidents s)"
    unfolding m using e assms(2,4) by (auto simp: tsave_def)
  show "incident_wf (save_incident j s)"
    using keyed_tsave[OF k(1), of j] keyed_tsave[OF k(2), of j] n by (simp add: incident_wf_def save_incident_def)
  show "get_incident iid (save_incident j s) = (if iid = ic_incident_id i then Some j else get_incident iid s)"
    using assms(4) by (simp add: get_incident_def save_incident_def n tfind_tsave)
qed

lemma log_incident_simps [simp]:
  "get_incident iid (log_incident user k x s) = get_incident iid s"
  "incident_wf (log_incident user k x s) = incident_wf s"
  "length (id_logs (log_incident user k x s)) = Suc (length (id_logs s))"
  by (simp_all add: log_incident_def get_incident_def incident_wf_def)

lemma save_incident_logs [simp]: "id_logs (save_incident j s) = id_logs s"
  by (simp add: save_incident_def)

locale incident_op =
  fixes run :: "int \<Rightarrow> string \<Rightarrow> string \<Rightarrow> incident_db \<Rightarrow> incident_result \<times> incident_db"
    and source target :: incident_status
    and kind :: log_kind
  assumes missing: "get_incident iid s = None \<Longrightarrow> run now user iid s = (Inl IE_NotFound, s)"
    and wrong: "get_incident iid s = Some i \<Longrightarrow> ic_status i \<noteq> source \<Longrightarrow> run now user iid s = (Inl (IE_Status (ic_status i)), s)"
    and right: "get_incident iid s = Some i \<Longrightarrow> ic_status i = source \<Longrightarrow>
      \<exists>j. moved target now user i j \<and> run now user iid s = (Inr j, log_incident user kind iid (save_incident j s))"
    and moves: "source \<noteq> target"
begin

text \<open>Refused without effect, or performed on its own incident.\<close>

lemma run_effect:
  assumes "incident_wf s" "run now user iid s = (r, t)"
  shows "incident_wf t \<and> (case r of
      Inl e \<Rightarrow> t = s
    | Inr j \<Rightarrow> \<exists>i. get_incident iid s = Some i \<and> ic_status i = source \<and> moved target now user i j \<and>
        get_incident iid t = Some j \<and> (\<forall>x. x \<noteq> iid \<longrightarrow> get_incident x t = get_incident x s) \<and>
        length (id_logs t) = Suc (length (id_logs s)))"
proof (cases "get_incident iid s")
  case None
  then show ?thesis using missing assms by auto
next
  case (Some i)
  have i: "i \<in> set (id_incidents s)" "ic_incident_id i = iid"
    using tfind_in[OF Some[unfolded get_incident_def]] tfind_key[OF Some[unfolded get_incident_def]] .
  show ?thesis
  proof (cases "ic_status i = source")
    case True
    then obtain j where j: "moved target now user i j" "r = Inr j" "t = log_incident user kind iid (save_incident j s)"
      using right[OF Some True, of now user] assms(2) by auto
    note w = save_incident_wf[OF assms(1) i(1) movedD(1,2)[OF j(1)]]
    show ?thesis using w Some True j i(2) by auto
  next
    case False
    then show ?thesis using wrong[OF Some] assms by auto
  qed
qed

lemma run_twice:
  assumes "incident_wf s" "run now user iid s = (Inr j, t)"
  shows "run now' user' iid t = (Inl (IE_Status target), t)"
  using run_effect[OF assms] wrong[of iid t j] movedD(3) moves by fastforce

end

interpretation ack: incident_op acknowledge_incident I_PENDING I_PROCESSING LogIncidentAck
  by unfold_locales (auto simp: acknowledge_incident_def get_incident_def moved_def Let_def dest: tfind_key)

interpretation clo: incident_op close_incident I_PROCESSING I_CLOSED LogIncidentClose
  by unfold_locales (auto simp: close_incident_def get_incident_def moved_def Let_def dest: tfind_key)

interpretation reo: incident_op reopen_incident I_CLOSED I_PROCESSING LogIncidentReopen
  by unfold_locales (auto simp: reopen_incident_def get_incident_def moved_def Let_def dest: tfind_key)

section \<open>Properties\<close>

text \<open>The edges of the state machine.\<close>

definition incident_edges :: "(string \<times> incident_status \<times> incident_status) list" where
  "incident_edges = [(''acknowledge'', I_PENDING, I_PROCESSING), (''close'', I_PROCESSING, I_CLOSED),
     (''reopen'', I_CLOSED, I_PROCESSING)]"

lemma operate_incident_effect:
  assumes "incident_wf s" "operate_incident now user allowed action iid s = (r, t)"
  shows "incident_wf t \<and> (case r of
      Inl e \<Rightarrow> t = s
    | Inr j \<Rightarrow> \<exists>i. is_incident_allowed allowed iid \<and> get_incident iid s = Some i \<and>
        (action, ic_status i, ic_status j) \<in> set incident_edges \<and> moved (ic_status j) now user i j \<and>
        get_incident iid t = Some j \<and> (\<forall>x. x \<noteq> iid \<longrightarrow> get_incident x t = get_incident x s) \<and>
        length (id_logs t) = Suc (length (id_logs s)))"
proof (cases "incident_method action")
  case None
  then show ?thesis using assms by (auto simp: operate_incident_def)
next
  case (Some f)
  show ?thesis
  proof (cases "is_incident_allowed allowed iid")
    case False
    then show ?thesis using assms Some by (auto simp: operate_incident_def)
  next
    case True
    then have f: "f now user iid s = (r, t)" using assms(2) Some by (simp add: operate_incident_def)
    consider "action = ''acknowledge''" "acknowledge_incident now user iid s = (r, t)"
      | "action = ''close''" "close_incident now user iid s = (r, t)"
      | "action = ''reopen''" "reopen_incident now user iid s = (r, t)"
      using Some f by (auto simp: incident_method_def split: if_splits)
    then show ?thesis
    proof cases
      case 1
      then show ?thesis using ack.run_effect[OF assms(1) 1(2)] True movedD(3)
        by (cases r) (fastforce simp: incident_edges_def)+
    next
      case 2
      then show ?thesis using clo.run_effect[OF assms(1) 2(2)] True movedD(3)
        by (cases r) (fastforce simp: incident_edges_def)+
    next
      case 3
      then show ?thesis using reo.run_effect[OF assms(1) 3(2)] True movedD(3)
        by (cases r) (fastforce simp: incident_edges_def)+
    qed
  qed
qed

text \<open>C20: an operation on an incident is either refused and changes nothing, or it follows an edge of
  the state machine (confirm: pending to processing, close: processing to closed, reopen: closed
  to processing) for an incident the user may operate: status, operation, time and user change,
  everything else of it and all other incidents stay, and one log entry is written.\<close>

theorem incident_contract:
  assumes "incident_wf s" "operate_incident now user allowed action iid s = (r, t)"
  shows "incident_wf t \<and> (case r of
      Inl e \<Rightarrow> t = s
    | Inr j \<Rightarrow> \<exists>i. is_incident_allowed allowed iid \<and> get_incident iid s = Some i \<and>
        (action, ic_status i, ic_status j) \<in> set incident_edges \<and>
        j = i\<lparr>ic_status := ic_status j, ic_operate := ic_operate j, ic_updated_at := now, ic_updated_by := user\<rparr> \<and>
        get_incident iid t = Some j \<and> (\<forall>x. x \<noteq> iid \<longrightarrow> get_incident x t = get_incident x s) \<and>
        length (id_logs t) = Suc (length (id_logs s)))"
  using operate_incident_effect[OF assms] unfolding moved_def .

definition sample_incident :: "incident_status \<Rightarrow> incident" where
  "sample_incident st = \<lparr>ic_pk = 1, ic_incident_id = ''I1'', ic_status = st, ic_level = ''1'', ic_alerts = [1, 2],
     ic_title = ''outage'', ic_operate = None, ic_operator = [JStr ''alice''], ic_created_at = 0, ic_updated_at = 0,
     ic_updated_by = ''alice'', ic_team = []\<rparr>"

definition incident_sample :: "incident_status \<Rightarrow> incident_db" where
  "incident_sample st = \<lparr>id_incidents = [sample_incident st, (sample_incident I_PENDING)\<lparr>ic_pk := 2, ic_incident_id := ''I2''\<rparr>],
     id_logs = []\<rparr>"

lemma incident_sample_wf: "incident_wf (incident_sample st)"
  by (simp add: incident_sample_def incident_wf_def keyed_def sample_incident_def)

theorem incident_contract_witness:
  "\<exists>j t. operate_incident 5 ''bob'' (Some [''I1'']) ''acknowledge'' ''I1'' (incident_sample I_PENDING) = (Inr j, t) \<and>
     get_incident ''I1'' t = Some j \<and> ic_status j = I_PROCESSING \<and> get_incident ''I2'' t = get_incident ''I2'' (incident_sample I_PENDING)"
proof -
  let ?o = "operate_incident 5 ''bob'' (Some [''I1'']) ''acknowledge'' ''I1'' (incident_sample I_PENDING)"
  have "map_sum id ic_status (fst ?o) = Inr I_PROCESSING" by code_simp
  then obtain j t where o: "?o = (Inr j, t)" "ic_status j = I_PROCESSING"
    by (cases ?o; cases "fst ?o") auto
  from incident_contract[OF incident_sample_wf o(1)] o show ?thesis by auto
qed

text \<open>Closing and reopening are inverse up to the record of the operation: a processing incident
  that is closed and reopened is processing again, with its alerts, operators, level, title and
  teams, and no other incident has changed.\<close>

theorem close_reopen_roundtrip:
  assumes "incident_wf s" "get_incident iid s = Some i" "ic_status i = I_PROCESSING"
  shows "\<exists>j t k u. close_incident now user iid s = (Inr j, t) \<and> reopen_incident now' user' iid t = (Inr k, u) \<and>
    get_incident iid u = Some (i\<lparr>ic_operate := ic_operate k, ic_updated_at := now', ic_updated_by := user'\<rparr>) \<and>
    (\<forall>x. x \<noteq> iid \<longrightarrow> get_incident x u = get_incident x s)"
proof -
  obtain j t where c: "close_incident now user iid s = (Inr j, t)" using clo.right[OF assms(2,3)] by blast
  note ec = clo.run_effect[OF assms(1) c]
  then have j: "incident_wf t" "get_incident iid t = Some j" "moved I_CLOSED now user i j" using assms(2) by auto
  obtain k u where o: "reopen_incident now' user' iid t = (Inr k, u)"
    using reo.right[OF j(2) movedD(3)[OF j(3)], of now' user'] by blast
  note eo = reo.run_effect[OF j(1) o]
  then have k: "get_incident iid u = Some k" "moved I_PROCESSING now' user' j k" using j(2) by auto
  have "k = j\<lparr>ic_status := I_PROCESSING, ic_operate := ic_operate k, ic_updated_at := now', ic_updated_by := user'\<rparr>"
    using k(2) by (simp add: moved_def)
  also have "j = i\<lparr>ic_status := I_CLOSED, ic_operate := ic_operate j, ic_updated_at := now, ic_updated_by := user\<rparr>"
    using j(3) by (simp add: moved_def)
  finally have "k = i\<lparr>ic_operate := ic_operate k, ic_updated_at := now', ic_updated_by := user'\<rparr>"
    using assms(3) by (cases i) simp
  then show ?thesis using c o k(1) ec eo by auto
qed

theorem close_reopen_witness:
  "map_option ic_status (get_incident ''I1'' (snd (reopen_incident 9 ''bob'' ''I1''
     (snd (close_incident 5 ''bob'' ''I1'' (incident_sample I_PROCESSING)))))) = Some I_PROCESSING"
proof -
  have g: "get_incident ''I1'' (incident_sample I_PROCESSING) = Some (sample_incident I_PROCESSING)"
    by (simp add: get_incident_def incident_sample_def tfind_def sample_incident_def)
  have st: "ic_status (sample_incident I_PROCESSING) = I_PROCESSING" by (simp add: sample_incident_def)
  from close_reopen_roundtrip[OF incident_sample_wf g st, of 5 "''bob''" 9 "''bob''"] st show ?thesis by auto
qed

text \<open>Runs of operations of any users.\<close>

inductive incident_run :: "incident_db \<Rightarrow> incident_db \<Rightarrow> bool" where
  start: "incident_run s s"
| step: "incident_run s t \<Longrightarrow> operate_incident now user allowed action iid t = (r, u) \<Longrightarrow> incident_run s u"

lemma incident_run_status:
  "incident_run s t \<Longrightarrow> incident_wf s \<Longrightarrow> get_incident iid s = Some i \<Longrightarrow> incident_wf t \<and>
   (\<exists>j. get_incident iid t = Some j \<and> ic_alerts j = ic_alerts i \<and> ic_operator j = ic_operator i \<and>
      (ic_status j = ic_status i \<or> ic_status j \<in> {I_PROCESSING, I_CLOSED}) \<and>
      (ic_status i = I_RESOLVED \<longrightarrow> ic_status j = I_RESOLVED))"
proof (induction rule: incident_run.induct)
  case (step s t now user allowed action x r u)
  then obtain j where j: "incident_wf t" "get_incident iid t = Some j" "ic_alerts j = ic_alerts i"
    "ic_operator j = ic_operator i" "ic_status j = ic_status i \<or> ic_status j \<in> {I_PROCESSING, I_CLOSED}"
    "ic_status i = I_RESOLVED \<longrightarrow> ic_status j = I_RESOLVED" by blast
  note e = operate_incident_effect[OF j(1) step.hyps(2)]
  show ?case
  proof (cases "isl r \<or> x \<noteq> iid")
    case True
    then show ?thesis using e j by (cases r) auto
  next
    case False
    then obtain k where k: "(action, ic_status j, ic_status k) \<in> set incident_edges" "moved (ic_status k) now user j k"
      "get_incident iid u = Some k" using e j(2) by (cases r) auto
    show ?thesis using k(1,3) movedD(4,5)[OF k(2)] j e by (auto simp: incident_edges_def)
  qed
qed simp

text \<open>In every run of operations an incident keeps its alerts and operators, a confirmed incident
  never becomes pending again, and a resolved one stays resolved.\<close>

theorem incident_never_pending_again:
  assumes "incident_wf s" "incident_run s t" "get_incident iid s = Some i" "ic_status i \<noteq> I_PENDING"
  shows "\<exists>j. get_incident iid t = Some j \<and> ic_status j \<noteq> I_PENDING \<and> ic_alerts j = ic_alerts i \<and>
    ic_operator j = ic_operator i \<and> (ic_status i = I_RESOLVED \<longrightarrow> ic_status j = I_RESOLVED)"
  using incident_run_status[OF assms(2,1,3)] assms(4) by auto

theorem incident_never_pending_witness:
  "map_option (\<lambda>j. ic_status j = I_PENDING) (get_incident ''I1'' (snd (operate_incident 5 ''bob'' None ''close'' ''I1''
     (incident_sample I_PROCESSING)))) = Some False"
proof -
  have g: "get_incident ''I1'' (incident_sample I_PROCESSING) = Some (sample_incident I_PROCESSING)"
    by (simp add: get_incident_def incident_sample_def tfind_def sample_incident_def)
  have st: "ic_status (sample_incident I_PROCESSING) \<noteq> I_PENDING" by (simp add: sample_incident_def)
  obtain r u where o: "operate_incident 5 ''bob'' None ''close'' ''I1'' (incident_sample I_PROCESSING) = (r, u)" by fastforce
  from incident_never_pending_again[OF incident_sample_wf incident_run.step[OF incident_run.start o] g st] o
  show ?thesis by auto
qed

section \<open>Properties of the requests\<close>

lemma int_ids_ints: "int_ids (map JInt is) = Some is"
  by (induction "is") simp_all

text \<open>Removing the alerts that a request added restores the incident: if the alerts of the request
  are visible to the user, adding reports exactly the new ones, and removing those reports them
  all and leaves the list of alerts as it was before.\<close>

theorem add_remove_roundtrip:
  assumes "incident_wf s" "get_incident iid s = Some i"
    and "add_alerts user True allowed payload i s = (Inr (Done new skipped), t)" "new \<noteq> []"
  shows "\<exists>j. get_incident iid t = Some j \<and> set (ic_alerts j) = set (ic_alerts i) \<union> set new \<and>
    (\<exists>u. remove_alerts user True allowed [(''alert'', JList (map JInt new))] j t = (Inr (Done new []), u) \<and>
      get_incident iid u = Some i)"
proof -
  obtain "is" where p: "parse_alert_ids payload True = Some (Some is)" "set is \<subseteq> set allowed"
    "new = filter (\<lambda>a. a \<notin> set (ic_alerts i)) (remdups is)"
    "t = log_incident user LogIncidentAddAlerts (ic_incident_id i) (save_incident (i\<lparr>ic_alerts := ic_alerts i @ new\<rparr>) s)"
    using assms(3,4) by (auto simp: add_alerts_def Let_def split: option.splits if_splits)
  define j where "j = i\<lparr>ic_alerts := ic_alerts i @ new\<rparr>"
  have i: "i \<in> set (id_incidents s)" "ic_incident_id i = iid"
    using tfind_in[OF assms(2)[unfolded get_incident_def]] tfind_key[OF assms(2)[unfolded get_incident_def]] .
  have jf: "ic_pk j = ic_pk i" "ic_incident_id j = ic_incident_id i" "ic_alerts j = ic_alerts i @ new"
    by (simp_all add: j_def)
  note w = save_incident_wf[OF assms(1) i(1) jf(1,2)]
  have t: "incident_wf t" "get_incident iid t = Some j" using w i(2) by (simp_all add: p(4) j_def)
  have jm: "j \<in> set (id_incidents t)" using tfind_in[OF t(2)[unfolded get_incident_def]] .
  have q: "parse_alert_ids [(''alert'', JList (map JInt new))] True = Some (Some new)"
    using assms(4) by (simp add: parse_alert_ids_def int_ids_ints)
  have d: "remdups new = new" "set new \<subseteq> set allowed" "filter (\<lambda>a. a \<in> set (ic_alerts j)) new = new"
    "filter (\<lambda>a. a \<notin> set (ic_alerts j)) new = []" "filter (\<lambda>a. a \<notin> set new) (ic_alerts j) = ic_alerts i"
  proof -
    have n: "distinct new" "set new \<subseteq> set is" "set new \<inter> set (ic_alerts i) = {}" by (auto simp: p(3))
    then show "remdups new = new" "set new \<subseteq> set allowed" "filter (\<lambda>a. a \<in> set (ic_alerts j)) new = new"
      "filter (\<lambda>a. a \<notin> set (ic_alerts j)) new = []" "filter (\<lambda>a. a \<notin> set new) (ic_alerts j) = ic_alerts i"
      using p(2) by (auto simp: jf(3) distinct_remdups_id filter_id_conv filter_empty_conv)
  qed
  define k where "k = j\<lparr>ic_alerts := ic_alerts i\<rparr>"
  have ki: "k = i" by (simp add: k_def j_def)
  have "ic_pk k = ic_pk j" "ic_incident_id k = ic_incident_id j" by (simp_all add: k_def)
  note v = save_incident_wf(2)[OF t(1) jm this, of iid]
  have "remove_alerts user True allowed [(''alert'', JList (map JInt new))] j t =
      (Inr (Done new []), log_incident user LogIncidentRemoveAlerts (ic_incident_id j) (save_incident k t))"
    unfolding remove_alerts_def q option.case Let_def k_def d(1,3-5) using assms(4) d(2) by simp
  moreover have "get_incident iid (log_incident user LogIncidentRemoveAlerts (ic_incident_id j) (save_incident k t)) = Some i"
    using v i(2) jf(2) ki by simp
  ultimately show ?thesis using t(2) jf(3) by auto
qed

theorem add_remove_witness:
  "\<exists>t. add_alerts ''bob'' True [1, 3] [(''alert'', JList [JInt 3, JStr ''1''])] (sample_incident I_PENDING) (incident_sample I_PENDING)
     = (Inr (Done [3] [1]), t) \<and>
   map_option (\<lambda>j. set (ic_alerts j)) (get_incident ''I1'' t) = Some {1, 2, 3}"
proof -
  let ?a = "add_alerts ''bob'' True [1, 3] [(''alert'', JList [JInt 3, JStr ''1''])] (sample_incident I_PENDING) (incident_sample I_PENDING)"
  have "fst ?a = Inr (Done [3] [1])" by code_simp
  then obtain t where a: "?a = (Inr (Done [3] [1]), t)" by (metis prod.collapse)
  have g: "get_incident ''I1'' (incident_sample I_PENDING) = Some (sample_incident I_PENDING)"
    by (simp add: get_incident_def incident_sample_def tfind_def sample_incident_def)
  from add_remove_roundtrip[OF incident_sample_wf g a] a show ?thesis by (auto simp: sample_incident_def)
qed

text \<open>An update that mentions alerts is refused even if the user may see all of them: the condition on
  the unauthorized alerts, which the other requests have, is missing.\<close>

lemma update_with_alerts_refused:
  "map_of payload ''alert'' = Some v \<Longrightarrow> update_refusal True allowed payload = Some Bad_request"
  by (auto simp: update_refusal_def parse_alert_ids_def split: option.splits json.splits)

text \<open>A request that does not mention alerts raises although they are required.\<close>

lemma missing_alerts_raise:
  "map_of payload ''alert'' = None \<Longrightarrow> fst (add_alerts user True allowed payload i s) = Inl TypeError \<and>
     fst (remove_alerts user True allowed payload i s) = Inl TypeError"
  by (simp add: add_alerts_def remove_alerts_def parse_alert_ids_def)

end
