(* ===== verification/Enrichment.thy ===== *)
theory Enrichment
  imports Alert_Builder "HOL-Library.Product_Lexorder" "HOL-Library.Multiset"
begin

text \<open>
  Enrichment of events with data of other systems (\<open>alerts/enrichment\<close>): the rules that select
  events (\<open>matcher.py\<close>), the binding of event fields to the parameters of a query (\<open>keys.py\<close>),
  the projection of the records found (\<open>projection.py\<close>), the CMDB provider
  (\<open>providers/cmdb.py\<close>) and the engine that treats a batch of events with one query per rule
  and a cache of positive and negative answers (\<open>engine.py\<close>). The engine is shown to compute
  what a separate lookup per event would.

  Parameters: the text of a container and of an instant, the regular expressions, MD5, the
  registry of providers and the remote procedure call to the CMDB. An entry of the cache does
  not expire while a batch is treated.
\<close>

section \<open>Values of an event\<close>

text \<open>The mapped event is a dict; beside JSON values it holds instants, and the number that \<open>float\<close>
  reads from a text of digits.\<close>

datatype pyval = PJ json | PT int | PF string

type_synonym edict = "(string \<times> pyval) list"

record enrich_env =
  en_repr :: "json \<Rightarrow> string"
  en_time :: "int \<Rightarrow> string"
  en_float :: "string \<Rightarrow> string"
  en_search :: "string \<Rightarrow> (string \<Rightarrow> bool) option"
  en_md5 :: "json \<Rightarrow> string"

text \<open>\<open>str(x)\<close>.\<close>

fun py_str :: "(json \<Rightarrow> string) \<Rightarrow> json \<Rightarrow> string" where
  "py_str rp (JStr s) = s"
| "py_str rp (JInt i) = str_int i"
| "py_str rp (JBool b) = (if b then ''True'' else ''False'')"
| "py_str rp JNull = ''None''"
| "py_str rp j = rp j"

fun val_str :: "enrich_env \<Rightarrow> pyval \<Rightarrow> string" where
  "val_str E (PJ j) = py_str (en_repr E) j"
| "val_str E (PT t) = en_time E t"
| "val_str E (PF s) = en_float E s"

text \<open>\<open>event.get(k)\<close> with a key from a JSON document.\<close>

definition edict_get :: "edict \<Rightarrow> json \<Rightarrow> pyval option res" where
  "edict_get d k =
     (case k of
        JStr s \<Rightarrow> Inr (map_of d s)
      | _ \<Rightarrow> if hashable k then Inr None else Inl TypeError)"

definition blank :: "pyval \<Rightarrow> bool" where
  "blank v \<longleftrightarrow> v = PJ JNull \<or> v = PJ (JStr [])"

section \<open>Selecting events\<close>

definition eq_ops :: "json list" where
  "eq_ops = [JStr ''eq'', JStr ([CHR 0xE7, CHR 0xAD, CHR 0x89, CHR 0xE4, CHR 0xBA, CHR 0x8E])]"

definition contains_ops :: "json list" where
  "contains_ops = [JStr ''contains'', JStr ([CHR 0xE5, CHR 0x8C, CHR 0x85, CHR 0xE5, CHR 0x90, CHR 0xAB])]"

definition not_contains_ops :: "json list" where
  "not_contains_ops = [JStr ''not_contains'',
     JStr ([CHR 0xE4, CHR 0xB8, CHR 0x8D, CHR 0xE5, CHR 0x8C, CHR 0x85, CHR 0xE5, CHR 0x90, CHR 0xAB])]"

definition re_ops :: "json list" where
  "re_ops = [JStr ''re'', JStr ([CHR 0xE6, CHR 0xAD, CHR 0xA3, CHR 0xE5, CHR 0x88, CHR 0x99]), JStr ''regex'']"

definition in_ops :: "json list" where
  "in_ops = [JStr ''in'',
     JStr ([CHR 0xE5, CHR 0xAD, CHR 0x97, CHR 0xE4, CHR 0xB8, CHR 0xAD, CHR 0xE4, CHR 0xB8, CHR 0xB2])]"

text \<open>\<open>_cmp\<close>.\<close>

definition value_cmp :: "enrich_env \<Rightarrow> pyval \<Rightarrow> json \<Rightarrow> json \<Rightarrow> bool" where
  "value_cmp E actual operator expected =
     (let a = (if actual = PJ JNull then [] else val_str E actual);
          e = (if expected = JNull then [] else py_str (en_repr E) expected);
          member = (case expected of JList xs \<Rightarrow> JStr a \<in> set xs | _ \<Rightarrow> substr_in a e)
      in if operator \<in> set eq_ops then a = e
         else if operator \<in> set ne_aliases then a \<noteq> e
         else if operator \<in> set contains_ops then substr_in (lower e) (lower a)
         else if operator \<in> set not_contains_ops then \<not> substr_in (lower e) (lower a)
         else if operator \<in> set re_ops then (case en_search E e of None \<Rightarrow> False | Some f \<Rightarrow> f a)
         else if operator \<in> set in_ops then member
         else if operator = JStr ''not_in'' then \<not> member
         else False)"

fun match_cond :: "enrich_env \<Rightarrow> edict \<Rightarrow> json \<Rightarrow> bool res" where
  "match_cond E d (JObj c) =
     (case edict_get d (rule_get c ''key'' JNull) of
        Inl x \<Rightarrow> Inl x
      | Inr None \<Rightarrow> Inr False
      | Inr (Some v) \<Rightarrow>
          if blank v then Inr False
          else Inr (value_cmp E v (rule_get c ''operator'' (JStr ''eq'')) (rule_get c ''value'' JNull)))"
| "match_cond E d _ = Inl AttributeError"

fun match_conds :: "enrich_env \<Rightarrow> edict \<Rightarrow> json list \<Rightarrow> bool res" where
  "match_conds E d [] = Inr True"
| "match_conds E d (c # cs) =
     (case match_cond E d c of
        Inl x \<Rightarrow> Inl x
      | Inr b \<Rightarrow> if b then match_conds E d cs else Inr False)"

definition match_group :: "enrich_env \<Rightarrow> edict \<Rightarrow> json \<Rightarrow> bool res" where
  "match_group E d g = (case py_iter g of Inl x \<Rightarrow> Inl x | Inr cs \<Rightarrow> match_conds E d cs)"

text \<open>\<open>any(... for group in match_rules if group)\<close>.\<close>

fun match_any :: "enrich_env \<Rightarrow> edict \<Rightarrow> json list \<Rightarrow> bool res" where
  "match_any E d [] = Inr False"
| "match_any E d (g # gs) =
     (if \<not> truthy g then match_any E d gs
      else case match_group E d g of
        Inl x \<Rightarrow> Inl x
      | Inr b \<Rightarrow> if b then Inr True else match_any E d gs)"

definition event_matches :: "enrich_env \<Rightarrow> edict \<Rightarrow> json \<Rightarrow> bool res" where
  "event_matches E d rules =
     (if \<not> truthy rules then Inr True
      else case py_iter rules of Inl x \<Rightarrow> Inl x | Inr gs \<Rightarrow> match_any E d gs)"

section \<open>Binding keys\<close>

type_synonym bkey = "(string \<times> string) list"

fun bind_params :: "enrich_env \<Rightarrow> edict \<Rightarrow> (string \<times> json) list \<Rightarrow> bkey option res" where
  "bind_params E d [] = Inr (Some [])"
| "bind_params E d ((p, f) # bs) =
     (case edict_get d f of
        Inl x \<Rightarrow> Inl x
      | Inr None \<Rightarrow> Inr None
      | Inr (Some v) \<Rightarrow>
          if blank v then Inr None
          else map_sum id (map_option (\<lambda>ps. (p, val_str E v) # ps)) (bind_params E d bs))"

definition resolve_binding :: "enrich_env \<Rightarrow> edict \<Rightarrow> json \<Rightarrow> bkey option res" where
  "resolve_binding E d binding =
     (case binding of
        JObj bs \<Rightarrow> map_sum id (\<lambda>r. if r = Some [] then None else r) (bind_params E d bs)
      | _ \<Rightarrow> Inl AttributeError)"

definition build_binding_key :: "bkey \<Rightarrow> bkey" where
  "build_binding_key params = sort params"

section \<open>Projection\<close>

type_synonym crecord = "(string \<times> json) list"

text \<open>A key of a dict as the JSON column stores it.\<close>

fun json_key :: "json \<Rightarrow> string res" where
  "json_key (JStr s) = Inr s"
| "json_key (JInt i) = Inr (str_int i)"
| "json_key (JBool b) = Inr (if b then ''true'' else ''false'')"
| "json_key JNull = Inr ''null''"
| "json_key _ = Inl TypeError"

fun project_items :: "crecord \<Rightarrow> json list \<Rightarrow> crecord \<Rightarrow> crecord res" where
  "project_items r [] out = Inr out"
| "project_items r (JObj item # items) out =
     (let src = rule_get item ''source'' JNull in
      case src of
        JStr f \<Rightarrow>
          (case map_of r f of
             None \<Rightarrow> project_items r items out
           | Some v \<Rightarrow>
               (case json_key (py_or (rule_get item ''as'' JNull) src) of
                  Inl x \<Rightarrow> Inl x
                | Inr k \<Rightarrow> project_items r items (tsave fst (k, v) out)))
      | _ \<Rightarrow> if hashable src then project_items r items out else Inl TypeError)"
| "project_items r (_ # items) out = Inl AttributeError"

definition project_one :: "crecord \<Rightarrow> json \<Rightarrow> crecord res" where
  "project_one r projection =
     (if \<not> truthy projection then Inr r
      else case py_iter projection of Inl x \<Rightarrow> Inl x | Inr items \<Rightarrow> project_items r items [])"

fun project_all :: "crecord list \<Rightarrow> json \<Rightarrow> crecord list res" where
  "project_all [] projection = Inr []"
| "project_all (r # rs) projection =
     (case project_one r projection of
        Inl x \<Rightarrow> Inl x
      | Inr p \<Rightarrow> map_sum id (\<lambda>ps. p # ps) (project_all rs projection))"

text \<open>\<open>{k: [p[k] for p in projected if k in p] for k in keys}\<close>; the order of the keys of a set is
  not specified, the model takes the order of their first occurrence.\<close>

definition list_columns :: "crecord list \<Rightarrow> crecord" where
  "list_columns ps =
     map (\<lambda>k. (k, JList (concat (map (\<lambda>p. case map_of p k of None \<Rightarrow> [] | Some v \<Rightarrow> [v]) ps))))
       (dedup_on id (concat (map (map fst) ps)))"

definition project :: "crecord list \<Rightarrow> json \<Rightarrow> string \<Rightarrow> crecord res" where
  "project records projection on_multiple =
     (if records = [] then Inr []
      else case project_all records projection of
        Inl x \<Rightarrow> Inl x
      | Inr ps \<Rightarrow>
          Inr (if length ps = 1 then hd ps
               else if on_multiple = ''list'' then list_columns ps
               else if on_multiple = ''merge'' then fold (\<lambda>p m. fold (tsave fst) p m) ps []
               else hd ps))"

section \<open>The CMDB provider\<close>

text \<open>The answer of a provider: the records of each key. \<open>fetched.get(key) or []\<close> reads it.\<close>

type_synonym fetched = "(bkey \<times> crecord list) list"

definition records_of :: "fetched \<Rightarrow> bkey \<Rightarrow> crecord list" where
  "records_of m k = (case map_of m k of None \<Rightarrow> [] | Some rs \<Rightarrow> rs)"

type_synonym provider = "bkey list \<Rightarrow> json \<Rightarrow> fetched res"

text \<open>The remote call \<open>search_instances_batch\<close>: by ids (\<open>True\<close>) or by names, of one model.\<close>

type_synonym cmdb_rpc = "bool \<Rightarrow> string \<Rightarrow> string list \<Rightarrow> (string \<times> crecord) list res"

definition param :: "bkey \<Rightarrow> string \<Rightarrow> string" where
  "param k p = (case map_of k p of None \<Rightarrow> [] | Some v \<Rightarrow> v)"

text \<open>What a key asks for: by id, by name, or nothing.\<close>

definition key_query :: "bkey \<Rightarrow> (bool \<times> string \<times> string) option" where
  "key_query k =
     (if param k ''model_id'' = [] then None
      else if param k ''_id'' \<noteq> [] then Some (True, param k ''model_id'', param k ''_id'')
      else if param k ''inst_name'' \<noteq> [] then Some (False, param k ''model_id'', param k ''inst_name'')
      else None)"

text \<open>\<open>by_model_ids\<close> and \<open>by_model_names\<close>: the values to look up, grouped by model.\<close>

definition add_query :: "bool \<Rightarrow> bkey \<Rightarrow> (string \<times> string list) list \<Rightarrow> (string \<times> string list) list" where
  "add_query by k by_model =
     (case key_query k of
        Some (b, m, v) \<Rightarrow>
          if b = by then tsave fst (m, (case map_of by_model m of None \<Rightarrow> [] | Some vs \<Rightarrow> vs) @ [v]) by_model
          else by_model
      | None \<Rightarrow> by_model)"

definition queries :: "bool \<Rightarrow> bkey list \<Rightarrow> (string \<times> string list) list" where
  "queries by keys = fold (add_query by) keys []"

text \<open>One remote call: the instances found are added to \<open>fetched\<close>; a failure is logged.\<close>

definition run_query ::
  "cmdb_rpc \<Rightarrow> bool \<Rightarrow> string \<times> string list \<Rightarrow> ((string \<times> string) \<times> crecord) list
   \<Rightarrow> ((string \<times> string) \<times> crecord) list" where
  "run_query rpc by q found =
     (case q of (m, vs) \<Rightarrow>
        (case rpc by m vs of
           Inl _ \<Rightarrow> found
         | Inr res \<Rightarrow> fold (\<lambda>(v, inst). tsave fst ((m, v), inst)) res found))"

definition cmdb_fetch_batch :: "cmdb_rpc \<Rightarrow> provider" where
  "cmdb_fetch_batch rpc keys config =
     (let found = fold (run_query rpc False) (queries False keys) (fold (run_query rpc True) (queries True keys) [])
      in Inr (map (\<lambda>k. (k, case key_query k of
                              None \<Rightarrow> []
                            | Some (_, m, v) \<Rightarrow>
                                (case map_of found (m, v) of
                                   None \<Rightarrow> [] | Some inst \<Rightarrow> if inst = [] then [] else [inst]))) keys))"

section \<open>The engine\<close>

record enrich_rule =
  er_match_rules :: json
  er_provider_type :: string
  er_input_binding :: json
  er_provider_config :: json
  er_output_projection :: json
  er_on_multiple :: string
  er_namespace :: string

definition resolved_namespace :: "enrich_rule \<Rightarrow> string" where
  "resolved_namespace r = (if er_namespace r = [] then er_provider_type r else er_namespace r)"

definition MAX_KEYS_PER_BATCH :: nat where
  "MAX_KEYS_PER_BATCH = 500"

text \<open>The cache: \<open>None\<close> stands for the sentinel of a negative answer.\<close>

type_synonym cache = "(string \<times> crecord list option) list"

text \<open>\<open>_cache_key\<close>. The document is dumped with sorted keys, so the configuration counts up to the
  order of its keys.\<close>

definition cache_key :: "enrich_env \<Rightarrow> string \<Rightarrow> json \<Rightarrow> bkey \<Rightarrow> string" where
  "cache_key E pt cfg k =
     ''enrich:'' @ en_md5 E (JObj [(''cfg'', canon cfg),
        (''key'', JList (map (\<lambda>(p, v). JList [JStr p, JStr v]) k)), (''pt'', JStr pt)])"

text \<open>Step 1: the events of each key, as positions in the batch.\<close>

fun bind_events :: "enrich_env \<Rightarrow> enrich_rule \<Rightarrow> (nat \<times> edict) list \<Rightarrow> (bkey \<times> nat list) list
  \<Rightarrow> (bkey \<times> nat list) list res" where
  "bind_events E r [] acc = Inr acc"
| "bind_events E r ((i, d) # ds) acc =
     (case event_matches E d (er_match_rules r) of
        Inl x \<Rightarrow> Inl x
      | Inr b \<Rightarrow>
          if \<not> b then bind_events E r ds acc
          else (case resolve_binding E d (er_input_binding r) of
                  Inl x \<Rightarrow> Inl x
                | Inr None \<Rightarrow> bind_events E r ds acc
                | Inr (Some ps) \<Rightarrow>
                    let k = build_binding_key ps in
                    bind_events E r ds
                      (tsave fst (k, (case map_of acc k of None \<Rightarrow> [] | Some is \<Rightarrow> is) @ [i]) acc)))"

text \<open>Step 2: the records found in the cache, and the keys that are not in it.\<close>

fun read_cache :: "enrich_env \<Rightarrow> enrich_rule \<Rightarrow> cache \<Rightarrow> bkey list \<Rightarrow> fetched \<times> bkey list" where
  "read_cache E r c [] = ([], [])"
| "read_cache E r c (k # ks) =
     (let (recs, miss) = read_cache E r c ks in
      case map_of c (cache_key E (er_provider_type r) (er_provider_config r) k) of
        Some None \<Rightarrow> ((k, []) # recs, miss)
      | Some (Some rs) \<Rightarrow> ((k, rs) # recs, miss)
      | None \<Rightarrow> (recs, k # miss))"

text \<open>Step 3: the other keys are asked of the provider, and the answers stored, the empty ones too;
  a provider that fails counts as one that found nothing.\<close>

definition store_answer :: "enrich_env \<Rightarrow> enrich_rule \<Rightarrow> fetched \<Rightarrow> bkey \<Rightarrow> cache \<Rightarrow> cache" where
  "store_answer E r m k c =
     (let rs = records_of m k in
      tsave fst (cache_key E (er_provider_type r) (er_provider_config r) k, if rs = [] then None else Some rs) c)"

definition fetch_missing ::
  "enrich_env \<Rightarrow> (string \<Rightarrow> provider option) \<Rightarrow> enrich_rule \<Rightarrow> bkey list \<Rightarrow> cache \<Rightarrow> (fetched \<times> cache) res" where
  "fetch_missing E registry r miss c =
     (if miss = [] then Inr ([], c)
      else case registry (er_provider_type r) of
        None \<Rightarrow> Inl KeyError
      | Some fetch_batch \<Rightarrow>
          let m = (case fetch_batch miss (er_provider_config r) of Inl _ \<Rightarrow> [] | Inr m \<Rightarrow> m)
          in Inr (map (\<lambda>k. (k, records_of m k)) miss, fold (store_answer E r m) miss c))"

text \<open>\<open>event.setdefault("enrichment", {})[namespace] = projected\<close>.\<close>

definition set_enrichment :: "string \<Rightarrow> crecord \<Rightarrow> edict \<Rightarrow> edict res" where
  "set_enrichment ns p d =
     (case map_of d ''enrichment'' of
        None \<Rightarrow> Inr (d @ [(''enrichment'', PJ (JObj [(ns, JObj p)]))])
      | Some (PJ (JObj kvs)) \<Rightarrow> Inr (tsave fst (''enrichment'', PJ (JObj (tsave fst (ns, JObj p) kvs))) d)
      | Some _ \<Rightarrow> Inl TypeError)"

fun write_events :: "string \<Rightarrow> crecord \<Rightarrow> nat list \<Rightarrow> edict list \<Rightarrow> unit res \<times> edict list" where
  "write_events ns p [] ds = (Inr (), ds)"
| "write_events ns p (i # is) ds =
     (case set_enrichment ns p (ds ! i) of
        Inl x \<Rightarrow> (Inl x, ds)
      | Inr d \<Rightarrow> write_events ns p is (ds[i := d]))"

text \<open>Step 4: an exception leaves the events written before.\<close>

fun write_keys :: "enrich_rule \<Rightarrow> (bkey \<times> nat list) list \<Rightarrow> fetched \<Rightarrow> bkey list \<Rightarrow> edict list
  \<Rightarrow> unit res \<times> edict list" where
  "write_keys r groups recs [] ds = (Inr (), ds)"
| "write_keys r groups recs (k # ks) ds =
     (case project (records_of recs k) (er_output_projection r) (er_on_multiple r) of
        Inl x \<Rightarrow> (Inl x, ds)
      | Inr p \<Rightarrow>
          if p = [] then write_keys r groups recs ks ds
          else (case write_events (resolved_namespace r) p (the (map_of groups k)) ds of
                  (Inl x, ds') \<Rightarrow> (Inl x, ds')
                | (Inr _, ds') \<Rightarrow> write_keys r groups recs ks ds'))"

definition apply_rule ::
  "enrich_env \<Rightarrow> (string \<Rightarrow> provider option) \<Rightarrow> enrich_rule \<Rightarrow> edict list \<times> cache
   \<Rightarrow> unit res \<times> edict list \<times> cache" where
  "apply_rule E registry r st =
     (case st of (ds, c) \<Rightarrow>
        (case bind_events E r (enumerate 0 ds) [] of
           Inl x \<Rightarrow> (Inl x, ds, c)
         | Inr groups \<Rightarrow>
             if groups = [] then (Inr (), ds, c)
             else
               let all_keys = take MAX_KEYS_PER_BATCH (map fst groups);
                   (cached, miss) = read_cache E r c all_keys
               in case fetch_missing E registry r miss c of
                    Inl x \<Rightarrow> (Inl x, ds, c)
                  | Inr (new, c') \<Rightarrow>
                      let (res, ds') = write_keys r groups (cached @ new) all_keys ds in (res, ds', c')))"

text \<open>\<open>enrich_batch\<close>: a rule that fails is logged, and the next one is tried.\<close>

definition enrich_batch ::
  "enrich_env \<Rightarrow> (string \<Rightarrow> provider option) \<Rightarrow> enrich_rule list \<Rightarrow> edict list \<times> cache \<Rightarrow> edict list \<times> cache" where
  "enrich_batch E registry rules st = fold (\<lambda>r st. snd (apply_rule E registry r st)) rules st"

section \<open>Only the enrichment of an event changes\<close>

definition same_fields :: "edict \<Rightarrow> edict \<Rightarrow> bool" where
  "same_fields d d' \<longleftrightarrow> (\<forall>k. k \<noteq> ''enrichment'' \<longrightarrow> map_of d' k = map_of d k)"

lemma same_fields_refl [simp]: "same_fields d d"
  by (simp add: same_fields_def)

lemma same_fields_trans: "same_fields d e \<Longrightarrow> same_fields e f \<Longrightarrow> same_fields d f"
  by (simp add: same_fields_def)

lemma set_enrichment_fields: "set_enrichment ns p d = Inr d' \<Longrightarrow> same_fields d d'"
  by (auto simp: set_enrichment_def same_fields_def map_of_tsave map_add_def
      split: option.splits pyval.splits json.splits)

abbreviation same_batch :: "edict list \<Rightarrow> edict list \<Rightarrow> bool" where
  "same_batch \<equiv> list_all2 same_fields"

lemma same_batch_refl [simp]: "same_batch ds ds"
  by (simp add: list_all2_refl)

lemma same_batch_trans: "same_batch ds es \<Longrightarrow> same_batch es fs \<Longrightarrow> same_batch ds fs"
  by (rule list_all2_trans[OF same_fields_trans])

lemma write_events_fields: "write_events ns p is ds = (res, ds') \<Longrightarrow> same_batch ds ds'"
proof (induction ns p "is" ds rule: write_events.induct)
  case (2 ns p i "is" ds)
  show ?case
  proof (cases "set_enrichment ns p (ds ! i)")
    case (Inr d)
    have "same_batch ds (ds[i := d])"
      using set_enrichment_fields[OF Inr] by (cases "i < length ds") (auto simp: list_all2_conv_all_nth nth_list_update)
    with 2(1)[OF Inr] 2(2) Inr show ?thesis by (auto intro: same_batch_trans)
  qed (use 2(2) in simp)
qed simp

lemma write_keys_fields: "write_keys r g recs ks ds = (res, ds') \<Longrightarrow> same_batch ds ds'"
proof (induction ks arbitrary: ds)
  case (Cons k ks)
  show ?case
  proof (cases "project (records_of recs k) (er_output_projection r) (er_on_multiple r)")
    case (Inr p)
    obtain res1 ds1 where w: "write_events (resolved_namespace r) p (the (map_of g k)) ds = (res1, ds1)"
      by fastforce
    from write_events_fields[OF w] Cons.IH[of ds1] Cons.IH[of ds] Cons.prems Inr w show ?thesis
      by (auto split: if_splits sum.splits intro: same_batch_trans)
  qed (use Cons.prems in simp)
qed simp

lemma apply_rule_fields: "same_batch ds (fst (snd (apply_rule E registry r (ds, c))))"
  by (auto simp: apply_rule_def Let_def split: sum.splits prod.splits dest: write_keys_fields)

lemma enrich_batch_fields: "same_batch ds (fst (enrich_batch E registry rules (ds, c)))"
proof (induction rules arbitrary: ds c)
  case (Cons r rules)
  obtain ds1 c1 where a: "snd (apply_rule E registry r (ds, c)) = (ds1, c1)" by fastforce
  then have "same_batch ds ds1" using apply_rule_fields[of ds E registry r c] by simp
  with Cons[of ds1 c1] a show ?case by (auto simp: enrich_batch_def intro: same_batch_trans)
qed (simp add: enrich_batch_def)

section \<open>One event at a time\<close>

text \<open>The key of an event under a rule, and its enrichment by a lookup of its own.\<close>

definition event_key :: "enrich_env \<Rightarrow> enrich_rule \<Rightarrow> edict \<Rightarrow> bkey option" where
  "event_key E r d =
     (case event_matches E d (er_match_rules r) of
        Inr True \<Rightarrow>
          (case resolve_binding E d (er_input_binding r) of
             Inr (Some ps) \<Rightarrow> Some (build_binding_key ps) | _ \<Rightarrow> None)
      | _ \<Rightarrow> None)"

definition put_enrichment :: "string \<Rightarrow> crecord \<Rightarrow> edict \<Rightarrow> edict" where
  "put_enrichment ns p d = (case set_enrichment ns p d of Inr d' \<Rightarrow> d' | Inl _ \<Rightarrow> d)"

definition write_projection :: "enrich_rule \<Rightarrow> crecord list \<Rightarrow> edict \<Rightarrow> edict" where
  "write_projection r rs d =
     (case project rs (er_output_projection r) (er_on_multiple r) of
        Inr p \<Rightarrow> if p = [] then d else put_enrichment (resolved_namespace r) p d
      | Inl _ \<Rightarrow> d)"

definition enrich_event :: "enrich_env \<Rightarrow> (json \<Rightarrow> bkey \<Rightarrow> crecord list) \<Rightarrow> enrich_rule \<Rightarrow> edict \<Rightarrow> edict" where
  "enrich_event E look r d =
     (case event_key E r d of
        None \<Rightarrow> d
      | Some k \<Rightarrow> write_projection r (look (er_provider_config r) k) d)"

text \<open>A rule as the editor writes it: groups of conditions on named fields, parameters bound to
  named fields, projected fields with textual names. The enrichment itself is not a field of a
  condition or a binding.\<close>

fun plain_cond :: "json \<Rightarrow> bool" where
  "plain_cond (JObj c) = (case map_of c ''key'' of Some (JStr f) \<Rightarrow> f \<noteq> ''enrichment'' | _ \<Rightarrow> False)"
| "plain_cond _ = False"

fun plain_and :: "json \<Rightarrow> bool" where
  "plain_and (JList cs) = list_all plain_cond cs"
| "plain_and _ = False"

fun plain_match :: "json \<Rightarrow> bool" where
  "plain_match (JList gs) = list_all plain_and gs"
| "plain_match _ = False"

fun plain_field :: "json \<Rightarrow> bool" where
  "plain_field (JStr f) = (f \<noteq> ''enrichment'')"
| "plain_field _ = False"

fun plain_binding :: "json \<Rightarrow> bool" where
  "plain_binding (JObj bs) = list_all (\<lambda>(p, f). plain_field f) bs"
| "plain_binding _ = False"

fun plain_item :: "json \<Rightarrow> bool" where
  "plain_item (JObj c) =
     (is_text (rule_get c ''source'' JNull) \<and> (rule_get c ''as'' JNull = JNull \<or> is_text (rule_get c ''as'' JNull)))"
| "plain_item _ = False"

fun plain_projection :: "json \<Rightarrow> bool" where
  "plain_projection (JList is) = list_all plain_item is"
| "plain_projection _ = False"

definition plain_rule :: "enrich_rule \<Rightarrow> bool" where
  "plain_rule r \<longleftrightarrow> plain_match (er_match_rules r) \<and> plain_binding (er_input_binding r) \<and>
     plain_projection (er_output_projection r)"

text \<open>Such a rule never raises, and looks only at fields that enrichment leaves alone.\<close>

lemma plain_cond_total: "plain_cond c \<Longrightarrow> \<exists>b. match_cond E d c = Inr b"
  by (cases c) (auto simp: rule_get_def edict_get_def split: option.splits json.splits)

lemma plain_conds_total: "list_all plain_cond cs \<Longrightarrow> \<exists>b. match_conds E d cs = Inr b"
proof (induction cs)
  case (Cons c cs)
  obtain b where "match_cond E d c = Inr b" using plain_cond_total[of c E d] Cons.prems by auto
  then show ?case using Cons by (cases b) auto
qed auto

lemma plain_any_total: "list_all plain_and gs \<Longrightarrow> \<exists>b. match_any E d gs = Inr b"
proof (induction gs)
  case (Cons g gs)
  from Cons.prems obtain cs where g: "g = JList cs" "list_all plain_cond cs" by (cases g) auto
  obtain b where "match_conds E d cs = Inr b" using plain_conds_total[OF g(2)] by blast
  then show ?case using Cons g by (cases b) (auto simp: match_group_def)
qed auto

lemma plain_match_total: "plain_match m \<Longrightarrow> \<exists>b. event_matches E d m = Inr b"
  using plain_any_total[of _ E d] by (cases m) (auto simp: event_matches_def)

lemma plain_params_total: "list_all (\<lambda>(p, f). plain_field f) bs \<Longrightarrow> \<exists>x. bind_params E d bs = Inr x"
proof (induction bs)
  case (Cons b bs)
  obtain p f where b: "b = (p, JStr f)" using Cons.prems by (cases b; cases "snd b") auto
  obtain x where "bind_params E d bs = Inr x" using Cons by auto
  then show ?case by (auto simp: b edict_get_def split: option.splits)
qed simp

lemma plain_binding_total: "plain_binding b \<Longrightarrow> \<exists>x. resolve_binding E d b = Inr x"
  using plain_params_total[of _ E d] by (cases b) (fastforce simp: resolve_binding_def)+

lemma plain_items_total: "list_all plain_item is \<Longrightarrow> \<exists>x. project_items r is out = Inr x"
proof (induction "is" arbitrary: out)
  case (Cons i "is")
  from Cons.prems obtain c where i: "i = JObj c" by (cases i) auto
  with Cons.prems obtain f where f: "rule_get c ''source'' JNull = JStr f"
    by (cases "rule_get c ''source'' JNull") auto
  have "\<exists>k. json_key (py_or (rule_get c ''as'' JNull) (JStr f)) = Inr k"
    using Cons.prems by (cases "rule_get c ''as'' JNull") (auto simp: i py_or_def)
  then show ?case using Cons by (auto simp: i f split: option.splits)
qed simp

lemma plain_project_total: "plain_projection p \<Longrightarrow> \<exists>x. project rs p m = Inr x"
proof -
  assume a: "plain_projection p"
  have one: "\<exists>x. project_one r p = Inr x" for r
    using a plain_items_total[of _ r "[]"] by (cases p) (auto simp: project_one_def)
  have "\<exists>x. project_all rs p = Inr x"
  proof (induction rs)
    case (Cons r rs)
    with one[of r] show ?case by auto
  qed simp
  then show ?thesis by (auto simp: project_def)
qed

lemma plain_cond_fields: "plain_cond c \<Longrightarrow> same_fields d d' \<Longrightarrow> match_cond E d' c = match_cond E d c"
  by (cases c) (auto simp: rule_get_def edict_get_def same_fields_def split: option.splits json.splits)

lemma plain_any_fields:
  "list_all plain_and gs \<Longrightarrow> same_fields d d' \<Longrightarrow> match_any E d' gs = match_any E d gs"
proof (induction gs)
  case (Cons g gs)
  from Cons.prems obtain cs where g: "g = JList cs" "list_all plain_cond cs" by (cases g) auto
  from g(2) have "match_conds E d' cs = match_conds E d cs"
    using Cons.prems(2) by (induction cs) (auto simp: plain_cond_fields split: sum.splits)
  with Cons g(1) show ?case by (simp add: match_group_def split: sum.splits)
qed simp

lemma plain_params_fields:
  "list_all (\<lambda>(p, f). plain_field f) bs \<Longrightarrow> same_fields d d' \<Longrightarrow> bind_params E d' bs = bind_params E d bs"
proof (induction bs)
  case (Cons b bs)
  obtain p f where b: "b = (p, JStr f)" "f \<noteq> ''enrichment''" using Cons.prems by (cases b; cases "snd b") auto
  then show ?case using Cons by (simp add: edict_get_def same_fields_def split: option.splits)
qed simp

lemma event_key_fields:
  assumes "plain_rule r" "same_fields d d'"
  shows "event_key E r d' = event_key E r d"
proof -
  obtain gs where g: "er_match_rules r = JList gs" "list_all plain_and gs"
    using assms(1) by (cases "er_match_rules r") (auto simp: plain_rule_def)
  obtain bs where b: "er_input_binding r = JObj bs" "list_all (\<lambda>(p, f). plain_field f) bs"
    using assms(1) by (cases "er_input_binding r") (auto simp: plain_rule_def)
  have "event_matches E d' (er_match_rules r) = event_matches E d (er_match_rules r)"
    using plain_any_fields[OF g(2) assms(2)] by (simp add: event_matches_def g)
  moreover have "resolve_binding E d' (er_input_binding r) = resolve_binding E d (er_input_binding r)"
    using plain_params_fields[OF b(2) assms(2)] by (simp add: resolve_binding_def b)
  ultimately show ?thesis by (auto simp: event_key_def split: sum.splits bool.splits)
qed

lemma put_enrichment_fields: "same_fields d (put_enrichment ns p d)"
  using set_enrichment_fields[of ns p d] by (auto simp: put_enrichment_def split: sum.splits)

lemma enrich_event_fields: "same_fields d (enrich_event E look r d)"
  by (auto simp: enrich_event_def write_projection_def put_enrichment_fields split: option.splits sum.splits)

section \<open>The batch against single lookups\<close>

abbreviation positions :: "(bkey \<times> nat list) list \<Rightarrow> bkey \<Rightarrow> nat list" where
  "positions g k \<equiv> (case map_of g k of None \<Rightarrow> [] | Some is \<Rightarrow> is)"

lemma bind_events_spec:
  assumes "plain_rule r"
  shows "\<exists>g. bind_events E r ids acc = Inr g \<and>
    (\<forall>k. positions g k = positions acc k @ map fst (filter (\<lambda>(i, d). event_key E r d = Some k) ids)) \<and>
    fst ` set g = fst ` set acc \<union> {k. \<exists>(i, d) \<in> set ids. event_key E r d = Some k} \<and>
    (distinct (map fst acc) \<longrightarrow> distinct (map fst g))"
proof (induction ids arbitrary: acc)
  case (Cons p ids)
  obtain i d where p: "p = (i, d)" by fastforce
  obtain b where b: "event_matches E d (er_match_rules r) = Inr b"
    using plain_match_total assms unfolding plain_rule_def by blast
  obtain x where x: "resolve_binding E d (er_input_binding r) = Inr x"
    using plain_binding_total assms unfolding plain_rule_def by blast
  show ?case
  proof (cases "event_key E r d")
    case None
    then have "bind_events E r (p # ids) acc = bind_events E r ids acc"
      using b x by (auto simp: p event_key_def split: if_splits option.splits bool.splits)
    with Cons[of acc] None show ?thesis by (auto simp: p)
  next
    case (Some k)
    let ?acc = "tsave fst (k, positions acc k @ [i]) acc"
    have e: "bind_events E r (p # ids) acc = bind_events E r ids ?acc"
      using b x Some by (auto simp: p event_key_def Let_def split: if_splits option.splits bool.splits)
    have ks: "fst ` set ?acc = insert k (fst ` set acc)" by (simp add: keys_tsave)
    have dst: "distinct (map fst acc) \<longrightarrow> distinct (map fst ?acc)"
      using keyed_tsave[of fst acc "(k, positions acc k @ [i])"] by (simp add: keyed_def)
    have pos: "positions ?acc k' = positions acc k' @ (if k' = k then [i] else [])" for k'
      by (simp add: map_of_tsave)
    from Cons[of ?acc] obtain g where g: "bind_events E r ids ?acc = Inr g"
      "\<forall>k'. positions g k' = positions ?acc k' @ map fst (filter (\<lambda>(i, d). event_key E r d = Some k') ids)"
      "fst ` set g = fst ` set ?acc \<union> {k. \<exists>(i, d) \<in> set ids. event_key E r d = Some k}"
      "distinct (map fst ?acc) \<longrightarrow> distinct (map fst g)" by blast
    have "positions g k' = positions acc k' @ map fst (filter (\<lambda>(i, d). event_key E r d = Some k') (p # ids))" for k'
      using g(2) pos[of k'] Some by (simp add: p)
    moreover have "fst ` set g = fst ` set acc \<union> {k. \<exists>(i, d) \<in> set (p # ids). event_key E r d = Some k}"
      using g(3) ks Some by (auto simp: p)
    ultimately show ?thesis using e g(1,4) dst by auto
  qed
qed simp

definition dict_enrichment :: "edict \<Rightarrow> bool" where
  "dict_enrichment d \<longleftrightarrow> (case map_of d ''enrichment'' of None \<Rightarrow> True | Some (PJ (JObj _)) \<Rightarrow> True | _ \<Rightarrow> False)"

lemma set_enrichment_total:
  "dict_enrichment d \<Longrightarrow> set_enrichment ns p d = Inr (put_enrichment ns p d) \<and> dict_enrichment (put_enrichment ns p d)"
  by (auto simp: dict_enrichment_def put_enrichment_def set_enrichment_def map_of_tsave map_add_def
      split: option.splits pyval.splits json.splits)

lemma write_events_spec:
  assumes "distinct is" "\<forall>i \<in> set is. i < length ds \<and> dict_enrichment (ds ! i)"
  shows "write_events ns p is ds =
    (Inr (), map (\<lambda>(i, d). if i \<in> set is then put_enrichment ns p d else d) (enumerate 0 ds))"
  using assms
proof (induction "is" arbitrary: ds)
  case Nil
  have "map (\<lambda>(i, d). d) (enumerate 0 ds) = ds" by (intro nth_equalityI) (simp_all add: nth_enumerate_eq)
  then show ?case by simp
next
  case (Cons i "is")
  let ?ds = "ds[i := put_enrichment ns p (ds ! i)]"
  have "write_events ns p (i # is) ds = write_events ns p is ?ds"
    using Cons.prems set_enrichment_total by simp
  also have "\<dots> = (Inr (), map (\<lambda>(j, d). if j \<in> set is then put_enrichment ns p d else d) (enumerate 0 ?ds))"
    using Cons.prems by (intro Cons.IH) (auto simp: nth_list_update)
  also have "map (\<lambda>(j, d). if j \<in> set is then put_enrichment ns p d else d) (enumerate 0 ?ds) =
      map (\<lambda>(j, d). if j \<in> set (i # is) then put_enrichment ns p d else d) (enumerate 0 ds)"
    using Cons.prems by (intro nth_equalityI) (auto simp: nth_enumerate_eq nth_list_update)
  finally show ?case .
qed

lemma write_projection_dict: "dict_enrichment d \<Longrightarrow> dict_enrichment (write_projection r rs d)"
  using set_enrichment_total by (auto simp: write_projection_def split: sum.splits)

lemma write_keys_spec:
  assumes "plain_projection (er_output_projection r)" "distinct ks" "\<forall>d \<in> set ds. dict_enrichment d"
    "\<forall>k \<in> set ks. map_of g k \<noteq> None \<and> distinct (positions g k) \<and>
       (\<forall>i. i \<in> set (positions g k) \<longleftrightarrow> i < length ds \<and> kf i = Some k)"
  shows "write_keys r g recs ks ds =
    (Inr (), map (\<lambda>(i, d). case kf i of
        Some k \<Rightarrow> if k \<in> set ks then write_projection r (records_of recs k) d else d | None \<Rightarrow> d) (enumerate 0 ds))"
  using assms(2-4)
proof (induction ks arbitrary: ds)
  case Nil
  show ?case by (auto simp: nth_enumerate_eq intro!: nth_equalityI split: option.splits)
next
  case (Cons k ks)
  let ?rs = "records_of recs k" and ?is = "the (map_of g k)"
  let ?ds = "map (\<lambda>(i, d). if kf i = Some k then write_projection r ?rs d else d) (enumerate 0 ds)"
  obtain p where p: "project ?rs (er_output_projection r) (er_on_multiple r) = Inr p"
    using plain_project_total[OF assms(1)] by blast
  from Cons.prems have "is": "distinct ?is" "\<forall>i. i \<in> set ?is \<longleftrightarrow> i < length ds \<and> kf i = Some k" by auto
  have ds: "?ds = (if p = [] then ds
      else map (\<lambda>(i, d). if i \<in> set ?is then put_enrichment (resolved_namespace r) p d else d) (enumerate 0 ds))"
    using "is"(2) by (intro nth_equalityI) (auto simp: nth_enumerate_eq write_projection_def p)
  have w: "write_events (resolved_namespace r) p ?is ds =
      (Inr (), map (\<lambda>(i, d). if i \<in> set ?is then put_enrichment (resolved_namespace r) p d else d) (enumerate 0 ds))"
    using "is" Cons.prems(2) by (intro write_events_spec) auto
  have "write_keys r g recs (k # ks) ds = write_keys r g recs ks ?ds"
    unfolding ds using p w by simp
  also have "\<dots> = (Inr (), map (\<lambda>(i, d). case kf i of
        Some k \<Rightarrow> if k \<in> set ks then write_projection r (records_of recs k) d else d | None \<Rightarrow> d) (enumerate 0 ?ds))"
  proof (rule Cons.IH)
    show "\<forall>d \<in> set ?ds. dict_enrichment d"
      using Cons.prems(2) write_projection_dict by (auto simp: set_conv_nth nth_enumerate_eq)
    show "\<forall>k \<in> set ks. map_of g k \<noteq> None \<and> distinct (positions g k) \<and>
       (\<forall>i. i \<in> set (positions g k) \<longleftrightarrow> i < length ?ds \<and> kf i = Some k)"
      using Cons.prems(3) by simp
  qed (use Cons.prems(1) in simp)
  also have "map (\<lambda>(i, d). case kf i of
        Some k \<Rightarrow> if k \<in> set ks then write_projection r (records_of recs k) d else d | None \<Rightarrow> d) (enumerate 0 ?ds) =
      map (\<lambda>(i, d). case kf i of
        Some k' \<Rightarrow> if k' \<in> set (k # ks) then write_projection r (records_of recs k') d else d | None \<Rightarrow> d) (enumerate 0 ds)"
    using Cons.prems(1) by (intro nth_equalityI) (auto simp: nth_enumerate_eq split: option.splits)
  finally show ?case .
qed

text \<open>A cache agrees with the lookups of the keys under consideration.\<close>

type_synonym ckey = "string \<times> json \<times> bkey"

definition ckey_of :: "enrich_env \<Rightarrow> ckey \<Rightarrow> string" where
  "ckey_of E t = (case t of (pt, cfg, k) \<Rightarrow> cache_key E pt cfg k)"

definition cache_agrees :: "enrich_env \<Rightarrow> (json \<Rightarrow> bkey \<Rightarrow> crecord list) \<Rightarrow> ckey set \<Rightarrow> cache \<Rightarrow> bool" where
  "cache_agrees E look K c \<longleftrightarrow>
     (\<forall>(pt, cfg, k) \<in> K. \<forall>v. map_of c (cache_key E pt cfg k) = Some v \<longrightarrow>
        (case v of None \<Rightarrow> [] | Some rs \<Rightarrow> rs) = look cfg k)"

lemma cache_agreesD:
  assumes "cache_agrees E look K c" "(pt, cfg, k) \<in> K" "map_of c (cache_key E pt cfg k) = Some v"
  shows "(case v of None \<Rightarrow> [] | Some rs \<Rightarrow> rs) = look cfg k"
  using assms unfolding cache_agrees_def by fast

lemma read_cache_spec:
  assumes "cache_agrees E look K c" "\<forall>k \<in> set ks. (er_provider_type r, er_provider_config r, k) \<in> K"
    "read_cache E r c ks = (recs, miss)"
  shows "set miss \<subseteq> set ks \<and> fst ` set recs \<union> set miss = set ks \<and>
    (\<forall>(k, rs) \<in> set recs. rs = look (er_provider_config r) k)"
  using assms(2,3)
proof (induction ks arbitrary: recs miss)
  case (Cons k ks)
  obtain recs1 miss1 where 1: "read_cache E r c ks = (recs1, miss1)" by fastforce
  have IH: "set miss1 \<subseteq> set ks \<and> fst ` set recs1 \<union> set miss1 = set ks \<and>
      (\<forall>(k, rs) \<in> set recs1. rs = look (er_provider_config r) k)"
    using Cons.prems by (intro Cons.IH[OF _ 1]) simp
  have k: "(er_provider_type r, er_provider_config r, k) \<in> K" using Cons.prems by simp
  have *: "recs = (k, look (er_provider_config r) k) # recs1 \<and> miss = miss1 \<or> recs = recs1 \<and> miss = k # miss1"
  proof (cases "map_of c (cache_key E (er_provider_type r) (er_provider_config r) k)")
    case None
    with Cons.prems(2) 1 show ?thesis by simp
  next
    case (Some v)
    from cache_agreesD[OF assms(1) k Some] Cons.prems(2) 1 Some show ?thesis by (cases v) auto
  qed
  then have "fst ` set recs \<union> set miss = insert k (fst ` set recs1 \<union> set miss1)" by auto
  with IH have "fst ` set recs \<union> set miss = set (k # ks)" by simp
  moreover have "\<forall>(k, rs) \<in> set recs. rs = look (er_provider_config r) k" using * IH by auto
  ultimately show ?case by blast
qed simp

lemma store_answer_agrees:
  assumes "cache_agrees E look K c" "inj_on (ckey_of E) K" "(er_provider_type r, er_provider_config r, k) \<in> K"
    "records_of m k = look (er_provider_config r) k"
  shows "cache_agrees E look K (store_answer E r m k c)"
  unfolding cache_agrees_def
proof (clarify)
  fix pt cfg k' v
  assume k': "(pt, cfg, k') \<in> K" and
    v: "map_of (store_answer E r m k c) (cache_key E pt cfg k') = Some v"
  show "(case v of None \<Rightarrow> [] | Some rs \<Rightarrow> rs) = look cfg k'"
  proof (cases "cache_key E pt cfg k' = cache_key E (er_provider_type r) (er_provider_config r) k")
    case True
    then have "(pt, cfg, k') = (er_provider_type r, er_provider_config r, k)"
      using inj_onD[OF assms(2) _ k' assms(3)] by (simp add: ckey_of_def)
    with v assms(4) show ?thesis by (auto simp: store_answer_def Let_def map_of_tsave split: if_splits)
  next
    case False
    with v have "map_of c (cache_key E pt cfg k') = Some v"
      by (simp add: store_answer_def Let_def map_of_tsave)
    then show ?thesis by (rule cache_agreesD[OF assms(1) k'])
  qed
qed

lemma store_answers_agree:
  assumes "inj_on (ckey_of E) K"
    "\<forall>k \<in> set ks. (er_provider_type r, er_provider_config r, k) \<in> K \<and> records_of m k = look (er_provider_config r) k"
  shows "cache_agrees E look K c \<Longrightarrow> cache_agrees E look K (fold (store_answer E r m) ks c)"
  using assms(2) by (induction ks arbitrary: c) (simp_all add: store_answer_agrees[OF _ assms(1)])

lemma records_of_all:
  assumes "\<forall>(k, rs) \<in> set m. rs = f k" "k \<in> fst ` set m"
  shows "records_of m k = f k"
proof -
  obtain rs where "map_of m k = Some rs" using assms(2) by (metis map_of_eq_None_iff option.exhaust)
  with assms(1) show ?thesis by (auto simp: records_of_def dest!: map_of_SomeD)
qed

text \<open>The keys of one request bind the same parameters, to texts that are not empty.\<close>

definition uniform :: "bkey list \<Rightarrow> bool" where
  "uniform ks \<longleftrightarrow> (\<exists>ps. \<forall>k \<in> set ks. map fst k = ps \<and> [] \<notin> snd ` set k)"

definition texts_nonempty :: "enrich_env \<Rightarrow> bool" where
  "texts_nonempty E \<longleftrightarrow> (\<forall>j. en_repr E j \<noteq> []) \<and> (\<forall>t. en_time E t \<noteq> []) \<and> (\<forall>s. en_float E s \<noteq> [])"

lemma val_str_nonempty: "texts_nonempty E \<Longrightarrow> \<not> blank v \<Longrightarrow> val_str E v \<noteq> []"
proof (cases v)
  case (PJ j)
  assume "texts_nonempty E" "\<not> blank v"
  with PJ show ?thesis
    by (cases j) (auto simp: texts_nonempty_def blank_def str_int_def digits_of_nonempty)
qed (simp_all add: texts_nonempty_def)

lemma bind_params_names:
  "texts_nonempty E \<Longrightarrow> bind_params E d bs = Inr (Some ps) \<Longrightarrow> map fst ps = map fst bs \<and> [] \<notin> snd ` set ps"
proof (induction bs arbitrary: ps)
  case (Cons b bs)
  obtain p f where b: "b = (p, f)" by fastforce
  with Cons.prems obtain v ps1 where "edict_get d f = Inr (Some v)" "\<not> blank v"
    "bind_params E d bs = Inr (Some ps1)" "ps = (p, val_str E v) # ps1"
    by (auto split: sum.splits option.splits if_splits simp: map_sum_Inr eq_commute[of "Some ps"])
  with Cons.IH[of ps1] Cons.prems(1) val_str_nonempty[of E v] show ?case by (auto simp: b)
qed simp

lemma sort_fst: "map fst (sort (ps :: bkey)) = sort (map fst ps)"
proof (rule properties_for_sort[symmetric])
  show "mset (map fst (sort ps)) = mset (map fst ps)" by simp
  have "sorted_wrt (\<lambda>x y. fst x \<le> fst y) (sort ps)"
    by (rule sorted_wrt_mono_rel[OF _ sorted_sort]) (auto simp: less_eq_prod_def)
  then show "sorted (map fst (sort ps))" by (simp add: sorted_map)
qed

lemma event_key_names:
  assumes "texts_nonempty E" "event_key E r d = Some k" "er_input_binding r = JObj bs"
  shows "map fst k = sort (map fst bs) \<and> [] \<notin> snd ` set k"
proof -
  from assms(2,3) obtain ps where "bind_params E d bs = Inr (Some ps)" "k = sort ps"
    by (auto simp: event_key_def resolve_binding_def build_binding_key_def map_sum_Inr
        split: sum.splits bool.splits option.splits if_splits)
  with bind_params_names[OF assms(1)] sort_fst[of ps] show ?thesis by auto
qed

text \<open>The interface of a provider (\<open>EnrichmentProvider\<close>): it answers, and the records of a key do not
  depend on the other keys of the request.\<close>

locale enrichment_provider =
  fixes fetch :: provider
    and look :: "json \<Rightarrow> bkey \<Rightarrow> crecord list"
  assumes fetch_answers: "\<exists>m. fetch ks cfg = Inr m"
    and fetch_look: "uniform ks \<Longrightarrow> fetch ks cfg = Inr m \<Longrightarrow> k \<in> set ks \<Longrightarrow> records_of m k = look cfg k"
begin

lemma fetch_missing_spec:
  assumes "registry (er_provider_type r) = Some fetch" "inj_on (ckey_of E) K" "cache_agrees E look K c"
    "\<forall>k \<in> set miss. (er_provider_type r, er_provider_config r, k) \<in> K" "uniform miss"
  shows "\<exists>c'. fetch_missing E registry r miss c = Inr (map (\<lambda>k. (k, look (er_provider_config r) k)) miss, c') \<and>
    cache_agrees E look K c'"
proof (cases "miss = []")
  case False
  obtain m where m: "fetch miss (er_provider_config r) = Inr m" using fetch_answers by blast
  have l: "\<forall>k \<in> set miss. records_of m k = look (er_provider_config r) k" using fetch_look[OF assms(5) m] by blast
  have "cache_agrees E look K (fold (store_answer E r m) miss c)"
    using assms(2-4) l by (intro store_answers_agree) auto
  with False l show ?thesis by (auto simp: fetch_missing_def assms(1) m)
qed (simp add: fetch_missing_def assms(3))

lemma apply_rule_spec:
  assumes "registry (er_provider_type r) = Some fetch" "inj_on (ckey_of E) K" "cache_agrees E look K c"
    "plain_rule r" "\<forall>d \<in> set ds. dict_enrichment d"
    "\<forall>d \<in> set ds. \<forall>k. event_key E r d = Some k \<longrightarrow> (er_provider_type r, er_provider_config r, k) \<in> K"
    "card {k. \<exists>d \<in> set ds. event_key E r d = Some k} \<le> MAX_KEYS_PER_BATCH" "texts_nonempty E"
  shows "\<exists>c'. apply_rule E registry r (ds, c) = (Inr (), map (enrich_event E look r) ds, c') \<and> cache_agrees E look K c'"
proof -
  let ?cfg = "er_provider_config r" and ?kf = "\<lambda>i. event_key E r (ds ! i)"
  let ?ids = "enumerate 0 ds"
  obtain g where g: "bind_events E r ?ids [] = Inr g"
    "\<forall>k. positions g k = map fst (filter (\<lambda>(i, d). event_key E r d = Some k) ?ids)"
    "fst ` set g = {k. \<exists>(i, d) \<in> set ?ids. event_key E r d = Some k}" "distinct (map fst g)"
    using bind_events_spec[OF assms(4), of E ?ids "[]"] by auto
  have ks: "fst ` set g = {k. \<exists>d \<in> set ds. event_key E r d = Some k}"
  proof -
    have "set ds = snd ` set ?ids" by (metis list.set_map map_snd_enumerate)
    then show ?thesis unfolding g(3) by (simp add: split_def)
  qed
  then have "card (set (map fst g)) \<le> MAX_KEYS_PER_BATCH" using assms(7) by simp
  then have all: "take MAX_KEYS_PER_BATCH (map fst g) = map fst g"
    using distinct_card[OF g(4)] by simp
  show ?thesis
  proof (cases "g = []")
    case True
    then have "event_key E r d = None" if "d \<in> set ds" for d
      using ks that by (cases "event_key E r d") auto
    then have "map (enrich_event E look r) ds = ds" by (simp add: enrich_event_def map_idI)
    with True g(1) assms(3) show ?thesis by (simp add: apply_rule_def)
  next
    case False
    obtain cached miss where rc: "read_cache E r c (map fst g) = (cached, miss)" by fastforce
    have inK: "\<forall>k \<in> set (map fst g). (er_provider_type r, ?cfg, k) \<in> K" using assms(6) ks by auto
    note rcs = read_cache_spec[OF assms(3) inK rc]
    with inK have mK: "\<forall>k \<in> set miss. (er_provider_type r, ?cfg, k) \<in> K" by blast
    obtain bs where bs: "er_input_binding r = JObj bs"
      using assms(4) by (cases "er_input_binding r") (auto simp: plain_rule_def)
    have "\<forall>k \<in> set miss. map fst k = sort (map fst bs) \<and> [] \<notin> snd ` set k"
    proof
      fix k assume "k \<in> set miss"
      then obtain d where "event_key E r d = Some k" using rcs ks by auto
      then show "map fst k = sort (map fst bs) \<and> [] \<notin> snd ` set k" by (rule event_key_names[OF assms(8) _ bs])
    qed
    then have "uniform miss" unfolding uniform_def by blast
    from fetch_missing_spec[of registry r, OF assms(1-3) mK this] obtain c' where
      f: "fetch_missing E registry r miss c = Inr (map (\<lambda>k. (k, look ?cfg k)) miss, c')" "cache_agrees E look K c'"
      by blast
    let ?recs = "cached @ map (\<lambda>k. (k, look ?cfg k)) miss"
    have recs: "records_of ?recs k = look ?cfg k" if "k \<in> set (map fst g)" for k
    proof (rule records_of_all)
      show "\<forall>(k, rs) \<in> set ?recs. rs = look ?cfg k" using rcs by auto
      have "fst ` set ?recs = fst ` set cached \<union> set miss" by (simp add: image_Un image_image)
      then show "k \<in> fst ` set ?recs" using rcs that by simp
    qed
    have pos: "i \<in> set (positions g k) \<longleftrightarrow> i < length ds \<and> ?kf i = Some k" for i k
      using g(2)[rule_format, of k] by (auto simp: in_set_enumerate_eq image_iff)
    have dst: "distinct (positions g k)" for k
      using g(2)[rule_format, of k] distinct_enumerate[of 0 ds]
      by (metis distinct_map_filter map_fst_enumerate distinct_upt)
    have "write_keys r g ?recs (map fst g) ds = (Inr (), map (\<lambda>(i, d). case ?kf i of
        Some k \<Rightarrow> if k \<in> set (map fst g) then write_projection r (records_of ?recs k) d else d | None \<Rightarrow> d) ?ids)"
    proof (rule write_keys_spec)
      show "plain_projection (er_output_projection r)" using assms(4) by (simp add: plain_rule_def)
      show "\<forall>k \<in> set (map fst g). map_of g k \<noteq> None \<and> distinct (positions g k) \<and>
          (\<forall>i. i \<in> set (positions g k) \<longleftrightarrow> i < length ds \<and> ?kf i = Some k)"
        using pos dst by (auto simp: map_of_eq_None_iff)
    qed (use g(4) assms(5) in auto)
    also have "map (\<lambda>(i, d). case ?kf i of
        Some k \<Rightarrow> if k \<in> set (map fst g) then write_projection r (records_of ?recs k) d else d | None \<Rightarrow> d) ?ids =
      map (enrich_event E look r) ds"
    proof (rule nth_equalityI)
      fix i assume "i < length (map (\<lambda>(i, d). case ?kf i of
        Some k \<Rightarrow> if k \<in> set (map fst g) then write_projection r (records_of ?recs k) d else d | None \<Rightarrow> d) ?ids)"
      then have i: "i < length ds" by simp
      have "?kf i = Some k \<Longrightarrow> k \<in> set (map fst g)" for k using ks i by auto
      then show "map (\<lambda>(i, d). case ?kf i of
        Some k \<Rightarrow> if k \<in> set (map fst g) then write_projection r (records_of ?recs k) d else d | None \<Rightarrow> d) ?ids ! i =
        map (enrich_event E look r) ds ! i"
        using i recs by (auto simp: nth_enumerate_eq enrich_event_def split: option.split)
    qed simp
    finally show ?thesis using False g(1) all rc f by (simp add: apply_rule_def)
  qed
qed


lemma enrich_batch_spec:
  assumes "inj_on (ckey_of E) K" "texts_nonempty E"
    "\<forall>r \<in> set rules. registry (er_provider_type r) = Some fetch \<and> plain_rule r \<and>
       card {k. \<exists>d \<in> set ds. event_key E r d = Some k} \<le> MAX_KEYS_PER_BATCH \<and>
       (\<forall>d \<in> set ds. \<forall>k. event_key E r d = Some k \<longrightarrow> (er_provider_type r, er_provider_config r, k) \<in> K)"
    "cache_agrees E look K c" "\<forall>d \<in> set ds. dict_enrichment d"
  shows "\<exists>c'. enrich_batch E registry rules (ds, c) = (map (fold (enrich_event E look) rules) ds, c') \<and>
    cache_agrees E look K c'"
  using assms(3-5)
proof (induction rules arbitrary: ds c)
  case (Cons r rules)
  let ?ds = "map (enrich_event E look r) ds"
  have r: "registry (er_provider_type r) = Some fetch" "plain_rule r"
    "card {k. \<exists>d \<in> set ds. event_key E r d = Some k} \<le> MAX_KEYS_PER_BATCH"
    "\<forall>d \<in> set ds. \<forall>k. event_key E r d = Some k \<longrightarrow> (er_provider_type r, er_provider_config r, k) \<in> K"
    using Cons.prems(1) by auto
  from apply_rule_spec[of registry r, OF r(1) assms(1) Cons.prems(2) r(2) Cons.prems(3) r(4,3) assms(2)]
  obtain c1 where a: "apply_rule E registry r (ds, c) = (Inr (), ?ds, c1)" "cache_agrees E look K c1" by blast
  have same: "event_key E r' (enrich_event E look r d) = event_key E r' d" if "r' \<in> set rules" for r' d
    using Cons.prems(1) that by (intro event_key_fields enrich_event_fields) auto
  have keys: "{k. \<exists>d \<in> set ?ds. event_key E r' d = Some k} = {k. \<exists>d \<in> set ds. event_key E r' d = Some k}"
    if "r' \<in> set rules" for r'
    using same[OF that] by auto
  have "\<forall>d \<in> set ?ds. dict_enrichment d"
    using Cons.prems(3) by (auto simp: enrich_event_def write_projection_dict split: option.splits)
  moreover have "\<forall>r \<in> set rules. registry (er_provider_type r) = Some fetch \<and> plain_rule r \<and>
       card {k. \<exists>d \<in> set ?ds. event_key E r d = Some k} \<le> MAX_KEYS_PER_BATCH \<and>
       (\<forall>d \<in> set ?ds. \<forall>k. event_key E r d = Some k \<longrightarrow> (er_provider_type r, er_provider_config r, k) \<in> K)"
    using Cons.prems(1) keys same by simp
  ultimately obtain c' where
    "enrich_batch E registry rules (?ds, c1) = (map (fold (enrich_event E look) rules) ?ds, c')" "cache_agrees E look K c'"
    using Cons.IH[of ?ds c1] a(2) by blast
  with a(1) show ?case by (auto simp: enrich_batch_def)
qed (simp add: enrich_batch_def)

end

section \<open>The CMDB provider keeps the interface\<close>

text \<open>A CMDB as the provider expects it, that answers every request from its instances: \<open>inst_of\<close> gives
  the instance of a model with an id (\<open>True\<close>) or a name. The function that the CMDB application
  registers (\<open>cmdb/nats/nats.py\<close>) takes its arguments in another form.\<close>

definition rpc_of :: "(bool \<Rightarrow> string \<Rightarrow> string \<Rightarrow> crecord option) \<Rightarrow> cmdb_rpc" where
  "rpc_of inst_of by m vs = Inr (concat (map (\<lambda>v. case inst_of by m v of None \<Rightarrow> [] | Some inst \<Rightarrow> [(v, inst)]) vs))"

definition cmdb_look :: "(bool \<Rightarrow> string \<Rightarrow> string \<Rightarrow> crecord option) \<Rightarrow> json \<Rightarrow> bkey \<Rightarrow> crecord list" where
  "cmdb_look inst_of cfg k =
     (case key_query k of
        None \<Rightarrow> []
      | Some (by, m, v) \<Rightarrow> (case inst_of by m v of None \<Rightarrow> [] | Some inst \<Rightarrow> if inst = [] then [] else [inst]))"

lemma found_one:
  "map_of (fold (\<lambda>(v, inst). tsave fst ((m0, v), inst))
      (concat (map (\<lambda>v. case inst_of by m0 v of None \<Rightarrow> [] | Some inst \<Rightarrow> [(v, inst)]) vs)) found) (m, v) =
    (if m = m0 \<and> v \<in> set vs \<and> inst_of by m v \<noteq> None then inst_of by m v else map_of found (m, v))"
  by (induction vs arbitrary: found) (auto simp: map_of_tsave split: option.splits)

lemma found_all:
  "map_of (fold (run_query (rpc_of inst_of) by) qs found) (m, v) =
    (if (\<exists>vs. (m, vs) \<in> set qs \<and> v \<in> set vs) \<and> inst_of by m v \<noteq> None then inst_of by m v else map_of found (m, v))"
proof (induction qs arbitrary: found)
  case (Cons q qs)
  obtain m0 vs where q: "q = (m0, vs)" by fastforce
  show ?case using Cons[of "run_query (rpc_of inst_of) by q found"]
    by (auto simp: q run_query_def rpc_of_def found_one)
qed simp

lemma queries_has:
  "(\<exists>vs. (m, vs) \<in> set (fold (add_query by) ks acc) \<and> v \<in> set vs) \<longleftrightarrow>
   (\<exists>vs. (m, vs) \<in> set acc \<and> v \<in> set vs) \<or> (\<exists>k \<in> set ks. key_query k = Some (by, m, v))"
  if "distinct (map fst acc)"
  using that
proof (induction ks arbitrary: acc)
  case (Cons k ks)
  have look: "(\<exists>vs. (m, vs) \<in> set acc' \<and> v \<in> set vs) \<longleftrightarrow> v \<in> set (case map_of acc' m of None \<Rightarrow> [] | Some vs \<Rightarrow> vs)"
    if "distinct (map fst acc')" for acc' :: "(string \<times> string list) list"
    using that by (auto split: option.splits dest: map_of_SomeD simp: map_of_eq_None_iff image_iff)
  have d: "distinct (map fst (add_query by k acc))"
    using Cons.prems keyed_tsave[of fst acc] by (auto simp: add_query_def keyed_def split: option.splits prod.splits)
  have "v \<in> set (case map_of (add_query by k acc) m of None \<Rightarrow> [] | Some vs \<Rightarrow> vs) \<longleftrightarrow>
      v \<in> set (case map_of acc m of None \<Rightarrow> [] | Some vs \<Rightarrow> vs) \<or> key_query k = Some (by, m, v)"
    by (auto simp: add_query_def map_of_tsave split: option.splits prod.splits)
  then show ?case using Cons.IH[OF d] look[OF d] look[OF Cons.prems] by auto
qed simp

lemma param_uniform:
  assumes "map fst k = ps" "[] \<notin> snd ` set k"
  shows "param k p = [] \<longleftrightarrow> p \<notin> set ps"
proof -
  have "map_of k p = None \<longleftrightarrow> p \<notin> set ps" using assms(1) by (metis list.set_map map_of_eq_None_iff)
  moreover have "v \<noteq> []" if "map_of k p = Some v" for v
    using map_of_SomeD[OF that] assms(2) by force
  ultimately show ?thesis
    by (cases "map_of k p") (auto simp: param_def)
qed

lemma uniform_kind:
  assumes "uniform ks" "k \<in> set ks" "k' \<in> set ks" "key_query k = Some (b, m, v)" "key_query k' = Some (b', m', v')"
  shows "b = b'"
  using assms param_uniform by (auto simp: uniform_def key_query_def split: if_splits)

lemma cmdb_fetch_look:
  assumes "uniform ks" "cmdb_fetch_batch (rpc_of inst_of) ks cfg = Inr m" "k \<in> set ks"
  shows "records_of m k = cmdb_look inst_of cfg k"
proof -
  define found where "found = fold (run_query (rpc_of inst_of) False) (queries False ks)
      (fold (run_query (rpc_of inst_of) True) (queries True ks) [])"
  have f: "map_of found (md, v) = (if \<exists>k \<in> set ks. key_query k = Some (b, md, v) then inst_of b md v else None)"
    if "\<forall>k \<in> set ks. \<forall>b' m v. key_query k = Some (b', m, v) \<longrightarrow> b' = b" for b md v
    unfolding found_def using that
    by (cases b) (auto simp: found_all queries_def queries_has)
  have "(\<forall>(k', rs) \<in> set m. rs = cmdb_look inst_of cfg k')"
  proof (clarify)
    fix k' rs assume k': "(k', rs) \<in> set m"
    then have in_ks: "k' \<in> set ks" using assms(2) by (auto simp: cmdb_fetch_batch_def Let_def)
    show "rs = cmdb_look inst_of cfg k'"
    proof (cases "key_query k'")
      case None
      with k' assms(2) show ?thesis by (auto simp: cmdb_fetch_batch_def Let_def cmdb_look_def)
    next
      case (Some q)
      obtain b md v where q: "q = (b, md, v)" by (cases q) auto
      with Some in_ks have "\<forall>k \<in> set ks. \<forall>b' m v. key_query k = Some (b', m, v) \<longrightarrow> b' = b"
        using uniform_kind[OF assms(1)] by blast
      from f[OF this, of md v] Some q in_ks have "map_of found (md, v) = inst_of b md v" by auto
      with k' assms(2) Some q show ?thesis
        by (auto simp: cmdb_fetch_batch_def Let_def cmdb_look_def found_def[symmetric])
    qed
  qed
  moreover have "fst ` set m = set ks" using assms(2) by (auto simp: cmdb_fetch_batch_def Let_def image_image)
  ultimately show ?thesis using assms(3) by (intro records_of_all) auto
qed

interpretation cmdb: enrichment_provider "cmdb_fetch_batch (rpc_of inst_of)" "cmdb_look inst_of" for inst_of
proof
  show "\<exists>m. cmdb_fetch_batch (rpc_of inst_of) ks cfg = Inr m" for ks cfg by (simp add: cmdb_fetch_batch_def Let_def)
qed (rule cmdb_fetch_look)

section \<open>Properties\<close>

text \<open>The rules of a batch are well formed, belong to the provider type \<open>pt\<close>, bind at most 500 keys
  each, and the keys are among \<open>K\<close>.\<close>

definition batch_within :: "enrich_env \<Rightarrow> string \<Rightarrow> ckey set \<Rightarrow> enrich_rule list \<Rightarrow> edict list \<Rightarrow> bool" where
  "batch_within E pt K rules ds \<longleftrightarrow>
     (\<forall>r \<in> set rules. er_provider_type r = pt \<and> plain_rule r \<and>
        card {k. \<exists>d \<in> set ds. event_key E r d = Some k} \<le> MAX_KEYS_PER_BATCH \<and>
        (\<forall>d \<in> set ds. \<forall>k. event_key E r d = Some k \<longrightarrow> (pt, er_provider_config r, k) \<in> K)) \<and>
     (\<forall>d \<in> set ds. dict_enrichment d)"

text \<open>With a provider of this kind the result of a batch is that of a lookup for every single event,
  rule by rule, and the cache stays right. The application registers no provider, and the registered
  remote function takes other arguments, so this describes the engine and not yet the application.\<close>

lemma enrichment_batch_correct:
  assumes "batch_within E pt K rules ds" "registry pt = Some (cmdb_fetch_batch (rpc_of inst_of))"
    "inj_on (ckey_of E) K" "texts_nonempty E" "cache_agrees E (cmdb_look inst_of) K c"
  shows "\<exists>c'. enrich_batch E registry rules (ds, c) =
      (map (fold (enrich_event E (cmdb_look inst_of)) rules) ds, c') \<and> cache_agrees E (cmdb_look inst_of) K c'"
  using assms(1,2) by (intro cmdb.enrich_batch_spec[OF assms(3,4) _ assms(5)]) (auto simp: batch_within_def)

definition sample_enrich_env :: enrich_env where
  "sample_enrich_env = \<lparr>en_repr = (\<lambda>_. ''[]''), en_time = (\<lambda>_. ''now''), en_float = (\<lambda>_. ''0.0''), en_search = (\<lambda>_. None), en_md5 = (\<lambda>_. ''m'')\<rparr>"

definition host_rule :: enrich_rule where
  "host_rule = \<lparr>er_match_rules = JList [JList [JObj [(''key'', JStr ''resource_type''), (''value'', JStr ''host'')]]],
     er_provider_type = ''cmdb'',
     er_input_binding = JObj [(''model_id'', JStr ''resource_type''), (''_id'', JStr ''resource_id'')],
     er_provider_config = JObj [], er_output_projection = JList [JObj [(''source'', JStr ''owner'')]],
     er_on_multiple = ''first'', er_namespace = []\<rparr>"

definition host_event :: "string \<Rightarrow> edict" where
  "host_event t = [(''title'', PJ (JStr t)), (''resource_type'', PJ (JStr ''host'')), (''resource_id'', PJ (JInt 7)),
     (''enrichment'', PJ (JObj []))]"

definition host_key :: bkey where
  "host_key = [(''_id'', ''7''), (''model_id'', ''host'')]"

definition host_inst :: "bool \<Rightarrow> string \<Rightarrow> string \<Rightarrow> crecord option" where
  "host_inst by m v = (if by \<and> m = ''host'' \<and> v = ''7'' then Some [(''owner'', JStr ''alice'')] else None)"

lemmas enrich_sample_defs = sample_enrich_env_def host_rule_def host_event_def host_key_def

lemma host_event_key: "event_key sample_enrich_env host_rule (host_event t) = Some host_key"
  by (simp add: enrich_sample_defs event_key_def event_matches_def match_group_def rule_get_def edict_get_def
      blank_def value_cmp_def eq_ops_def resolve_binding_def build_binding_key_def str_int_def digits_of.simps
      less_eq_prod_def less_prod_def) code_simp

lemma enrichment_batch_sample:
  "fst (enrich_batch sample_enrich_env (\<lambda>_. Some (cmdb_fetch_batch (rpc_of host_inst))) [host_rule]
      ([host_event ''a'', host_event ''b''], [])) =
    map (enrich_event sample_enrich_env (cmdb_look host_inst) host_rule) [host_event ''a'', host_event ''b''] \<and>
   map_of (enrich_event sample_enrich_env (cmdb_look host_inst) host_rule (host_event ''a'')) ''enrichment'' =
    Some (PJ (JObj [(''cmdb'', JObj [(''owner'', JStr ''alice'')])]))"
proof -
  let ?K = "{(''cmdb'', JObj [], host_key)}"
  have keys: "{k. \<exists>d \<in> set [host_event ''a'', host_event ''b'']. event_key sample_enrich_env host_rule d = Some k} = {host_key}"
    by (auto simp: host_event_key)
  have "plain_rule host_rule" by (simp add: host_rule_def plain_rule_def rule_get_def)
  then have b: "batch_within sample_enrich_env ''cmdb'' ?K [host_rule] [host_event ''a'', host_event ''b'']"
    using keys unfolding batch_within_def
    by (auto simp: MAX_KEYS_PER_BATCH_def host_event_key dict_enrichment_def) (simp_all add: enrich_sample_defs)
  have t: "texts_nonempty sample_enrich_env" by (simp add: texts_nonempty_def sample_enrich_env_def)
  have "map_of (enrich_event sample_enrich_env (cmdb_look host_inst) host_rule (host_event ''a'')) ''enrichment'' =
    Some (PJ (JObj [(''cmdb'', JObj [(''owner'', JStr ''alice'')])]))"
    by (simp add: enrich_event_def host_event_key) code_simp
  with enrichment_batch_correct[OF b _ _ t, where registry = "\<lambda>_. Some (cmdb_fetch_batch (rpc_of host_inst))"
      and inst_of = host_inst and c = "[]"]
  show ?thesis by (force simp: cache_agrees_def)
qed

text \<open>The registry is filled by the module of the CMDB provider, and no module of the application
  imports it: without a provider every rule with a key to look up ends in a \<open>KeyError\<close>, and the
  events stay as they are.\<close>

lemma unregistered_provider:
  "fst (snd (apply_rule E (\<lambda>_. None) r (ds, []))) = ds"
proof -
  have rc: "read_cache E r [] ks = ([], ks)" for ks by (induction ks) simp_all
  show ?thesis
    by (auto simp: apply_rule_def Let_def rc fetch_missing_def split: sum.splits prod.splits)
qed

text \<open>An outage of the provider is remembered like a negative answer.\<close>

lemma failure_cached_as_miss:
  assumes "registry (er_provider_type r) = Some (\<lambda>_ _. Inl e)" "fetch_missing E registry r [k] [] = Inr (recs, c)"
  shows "read_cache E r c [k] = ([(k, [])], [])"
  using assms by (auto simp: fetch_missing_def store_answer_def records_of_def Let_def map_of_tsave)

end
