(* ===== verification/Action.thy ===== *)
theory Action
  imports Enrichment Samples
begin

text \<open>
  Automatic actions on alerts (\<open>alerts/action\<close>): when something happens to an alert, the engine
  (\<open>engine.py\<close>) evaluates the active rules on the flattened alert (\<open>payload.py\<close>) and starts a job
  on the host of the alert (\<open>handlers/job.py\<close>, \<open>resolver.py\<close>, \<open>target_resolver.py\<close>); the job
  application reports the result with a signed callback (\<open>views/action.py\<close> and
  \<open>job_mgmt/utils/callback_signer.py\<close>). Executions are rows of their own; a unique key makes the
  automatic execution of a rule for an event of an alert happen at most once.

  Parameters: the remote calls to the job and node applications, HMAC, the base addresses of the
  settings and, from \<open>Enrichment\<close>, the text of containers and the regular expressions.
\<close>

section \<open>State\<close>

record action_rule =
  ar_id :: int
  ar_name :: string
  ar_is_active :: bool
  ar_team :: json
  ar_match_rules :: json
  ar_trigger_events :: json
  ar_scope :: string
  ar_action_type :: string
  ar_action_config :: json

datatype exec_status = X_PENDING | X_RUNNING | X_SUCCESS | X_FAILED | X_CONFIG_ERROR

text \<open>The column \<open>result\<close>; messages are represented by what they report.\<close>

datatype exec_result = XR_Empty | XR_Error py_exc | XR_NoScript | XR_Refused json | XR_Callback "(string \<times> json) list"

record action_execution =
  ax_id :: nat
  ax_rule :: "int option"
  ax_alert :: nat
  ax_trigger_event :: string
  ax_trigger_type :: string
  ax_idempotency_key :: "string option"
  ax_status :: exec_status
  ax_action_type :: string
  ax_job_task_id :: "int option"
  ax_job_detail_url :: "string option"
  ax_result :: exec_result
  ax_operator :: "string option"

text \<open>The executions beside the database of the alert centre, and the requests sent to the job
  application with the execution they belong to.\<close>

record action_db =
  ad_db :: db
  ad_rules :: "action_rule list"
  ad_execs :: "action_execution list"
  ad_jobs :: "(nat \<times> json) list"

record action_env =
  ae_enrich :: enrich_env
  ae_get_script :: "json \<Rightarrow> json res"
  ae_node_list :: "json \<Rightarrow> json res"
  ae_script_execute :: "json \<Rightarrow> json res"
  ae_self_base_url :: string
  ae_web_base_url :: string

definition save_exec :: "action_execution \<Rightarrow> action_db \<Rightarrow> action_db" where
  "save_exec x s = s\<lparr>ad_execs := tsave ax_id x (ad_execs s)\<rparr>"

section \<open>The payload\<close>

type_synonym payload = "(string \<times> json) list"

definition join_path :: "string \<Rightarrow> string \<Rightarrow> string" where
  "join_path pre k = (if pre = [] then k else pre @ ''.'' @ k)"

fun flatten :: "string \<Rightarrow> json \<Rightarrow> payload \<Rightarrow> payload"
and flatten_items :: "string \<Rightarrow> (string \<times> json) list \<Rightarrow> payload \<Rightarrow> payload" where
  "flatten pre (JObj kvs) out = flatten_items pre kvs out"
| "flatten pre v out = tsave fst (pre, v) out"
| "flatten_items pre [] out = out"
| "flatten_items pre ((k, v) # kvs) out = flatten_items pre kvs (flatten (join_path pre k) v out)"

definition top_fields :: "alert \<Rightarrow> payload" where
  "top_fields a =
     [(''alert_id'', JStr (al_alert_id a)), (''title'', JStr (al_title a)), (''content'', JStr (al_content a)),
      (''level'', JStr (al_level a)), (''status'', JStr (alert_status_str (al_status a))),
      (''resource_id'', jopt (al_resource_id a)), (''resource_name'', jopt (al_resource_name a)),
      (''resource_type'', jopt (al_resource_type a)), (''item'', jopt (al_item a)),
      (''source_name'', jopt (al_source_name a))]"

definition build_match_payload :: "alert \<Rightarrow> payload" where
  "build_match_payload a =
     flatten ''enrichment'' (JObj (al_enrichment a))
       (flatten ''labels'' (py_or (al_labels a) (JObj [])) (top_fields a))"

definition edict_of :: "payload \<Rightarrow> edict" where
  "edict_of p = map (\<lambda>(k, v). (k, PJ v)) p"

text \<open>\<open>payload.get(path)\<close>.\<close>

definition resolve_field :: "payload \<Rightarrow> json \<Rightarrow> json res" where
  "resolve_field p path =
     (case path of
        JStr s \<Rightarrow> Inr (case map_of p s of None \<Rightarrow> JNull | Some v \<Rightarrow> v)
      | _ \<Rightarrow> if hashable path then Inr JNull else Inl TypeError)"

section \<open>Parameters and targets\<close>

text \<open>\<open>{p["name"]: p for p in script_params}\<close>.\<close>

fun param_defaults :: "json list \<Rightarrow> (json \<times> json) list \<Rightarrow> (json \<times> json) list res" where
  "param_defaults [] acc = Inr acc"
| "param_defaults (p # ps) acc =
     rbind (jitem p ''name'') (\<lambda>n.
       if hashable n then param_defaults ps (tsave fst (py_key n, p) acc) else Inl TypeError)"

definition default_value :: "(json \<times> json) list \<Rightarrow> json \<Rightarrow> json res" where
  "default_value defaults name =
     (if \<not> hashable name then Inl TypeError
      else case map_of defaults (py_key name) of
        Some (JObj kvs) \<Rightarrow> (case map_of kvs ''default'' of Some v \<Rightarrow> Inr v | None \<Rightarrow> Inl ConfigError)
      | _ \<Rightarrow> Inl ConfigError)"

definition param_value :: "payload \<Rightarrow> (json \<times> json) list \<Rightarrow> json \<Rightarrow> json res" where
  "param_value p defaults b =
     rbind (jitem b ''name'') (\<lambda>name.
     rbind (jget b ''from'' JNull) (\<lambda>from.
     rbind (jget b ''value'' JNull) (\<lambda>v.
     rbind (if from = JStr ''const'' then Inr v
            else rbind (resolve_field p v) (\<lambda>w. if w = JNull then default_value defaults name else Inr w)) (\<lambda>w.
       Inr (JObj [(''name'', name), (''value'', w)])))))"

fun param_values :: "payload \<Rightarrow> (json \<times> json) list \<Rightarrow> json list \<Rightarrow> json list res" where
  "param_values p defaults [] = Inr []"
| "param_values p defaults (b # bs) =
     rbind (param_value p defaults b) (\<lambda>v. rbind (param_values p defaults bs) (\<lambda>vs. Inr (v # vs)))"

definition resolve_params :: "payload \<Rightarrow> json \<Rightarrow> json \<Rightarrow> json list res" where
  "resolve_params p bindings script_params =
     rbind (py_iter (py_or script_params (JList []))) (\<lambda>ps.
     rbind (param_defaults ps []) (\<lambda>defaults.
     rbind (py_iter (py_or bindings (JList []))) (\<lambda>bs. param_values p defaults bs)))"

text \<open>The nodes whose address is the host's, as texts.\<close>

fun exact_nodes :: "(json \<Rightarrow> string) \<Rightarrow> json \<Rightarrow> json list \<Rightarrow> json list res" where
  "exact_nodes str host [] = Inr []"
| "exact_nodes str host (n # ns) =
     rbind (jget n ''ip'' JNull) (\<lambda>ip.
     rbind (exact_nodes str host ns) (\<lambda>rest. Inr (if str ip = str host then n # rest else rest)))"

definition node_query :: "json \<Rightarrow> json list \<Rightarrow> json" where
  "node_query host team =
     JObj ([(''ip'', host), (''skip_permission'', JBool True), (''page'', JInt 1), (''page_size'', JInt 50)] @
       (if team = [] then [] else [(''organization_ids'', JList team)]))"

definition resolve_node_target :: "action_env \<Rightarrow> json \<Rightarrow> json \<Rightarrow> json res" where
  "resolve_node_target A host team =
     (let str = py_str (en_repr (ae_enrich A)) in
      if \<not> truthy host then Inl ConfigError
      else
        rbind (if truthy team then py_iter team else Inr []) (\<lambda>orgs.
        rbind (ae_node_list A (node_query host orgs)) (\<lambda>r.
        rbind (jget (py_or r (JObj [])) ''nodes'' (JList [])) (\<lambda>ns.
        rbind (py_iter ns) (\<lambda>nodes.
        rbind (exact_nodes str host nodes) (\<lambda>exact.
          case exact of
            [n] \<Rightarrow>
              rbind (jitem n ''id'') (\<lambda>i.
              rbind (jget n ''name'' JNull) (\<lambda>name.
              rbind (jitem n ''ip'') (\<lambda>ip.
              rbind (jget n ''operating_system'' JNull) (\<lambda>os.
              rbind (jget n ''cloud_region'' JNull) (\<lambda>region.
                Inr (JObj [(''node_id'', i), (''name'', name), (''ip'', JStr (str ip)), (''os'', os),
                  (''cloud_region_id'', region)]))))))
          | _ \<Rightarrow> Inl ConfigError))))))"

section \<open>The job handler\<close>

definition rstrip_slash :: "string \<Rightarrow> string" where
  "rstrip_slash s = rev (dropWhile (\<lambda>c. c = CHR ''/'') (rev s))"

definition callback_url :: "action_env \<Rightarrow> string" where
  "callback_url A = rstrip_slash (ae_self_base_url A) @ ''/api/v1/alerts/api/action_callback/''"

definition job_url :: "action_env \<Rightarrow> json \<Rightarrow> string" where
  "job_url A task_id =
     rstrip_slash (ae_web_base_url A) @ ''/job/execution/'' @ py_str (en_repr (ae_enrich A)) task_id"

text \<open>The name of the job begins with the words for automatic action, in UTF-8.\<close>

definition job_name :: "action_rule \<Rightarrow> alert \<Rightarrow> string" where
  "job_name r a =
     [CHR 0xE5, CHR 0x91, CHR 0x8A, CHR 0xE8, CHR 0xAD, CHR 0xA6, CHR 0xE5, CHR 0x8A, CHR 0xA8, CHR 0xE4,
      CHR 0xBD, CHR 0x9C] @ ''-'' @ ar_name r @ ''-'' @ al_alert_id a"

text \<open>\<open>(binding.get("host_field") or "ip_addr").strip()\<close>, with the prefix of the labels unless it is a
  path.\<close>

definition host_lookup_key :: "json \<Rightarrow> string res" where
  "host_lookup_key field =
     (case py_or field (JStr ''ip_addr'') of
        JStr s \<Rightarrow> let f = strip s in Inr (if CHR ''.'' \<in> set f then f else ''labels.'' @ f)
      | _ \<Rightarrow> Inl AttributeError)"

text \<open>Everything before the request: \<open>None\<close> when the script does not exist.\<close>

definition prepare_job :: "action_env \<Rightarrow> action_rule \<Rightarrow> alert \<Rightarrow> json option res" where
  "prepare_job A r a =
     (let cfg = py_or (ar_action_config r) (JObj []); p = build_match_payload a in
      rbind (jget cfg ''script_id'' JNull) (\<lambda>sid.
      rbind (ae_get_script A sid) (\<lambda>script.
        if \<not> truthy script then Inr None
        else
          rbind (jget cfg ''target_binding'' (JObj [])) (\<lambda>binding.
          rbind (jget binding ''host_field'' JNull) (\<lambda>hf.
          rbind (host_lookup_key hf) (\<lambda>key.
          rbind (resolve_field p (JStr key)) (\<lambda>host.
          rbind (resolve_node_target A host (ar_team r)) (\<lambda>target.
          rbind (jget cfg ''param_bindings'' (JList [])) (\<lambda>pb.
          rbind (jget script ''params'' (JList [])) (\<lambda>sp.
          rbind (resolve_params p pb sp) (\<lambda>params.
          rbind (jitem script ''script_type'') (\<lambda>stype.
          rbind (jitem script ''content'') (\<lambda>content.
          rbind (jget cfg ''timeout'' JNull) (\<lambda>ct.
          rbind (jget script ''timeout'' (JInt 600)) (\<lambda>st.
          rbind (py_iter (py_or (ar_team r) (JList []))) (\<lambda>team.
            Inr (Some (JObj [(''name'', JStr (job_name r a)), (''target_source'', JStr ''node_mgmt''),
              (''target_list'', JList [target]), (''script_type'', stype), (''script_content'', content),
              (''params'', JList params), (''timeout'', if truthy ct then ct else st), (''team'', JList team),
              (''callback_url'', JStr (callback_url A))]))))))))))))))))))"

text \<open>The answer of the job application: refused (with the default message in UTF-8), or the id of the task. An id that is no integer
  makes the save raise, and the save of the failure too.\<close>

definition job_refused :: string where
  "job_refused = [CHR 0xE4, CHR 0xBD, CHR 0x9C, CHR 0xE4, CHR 0xB8, CHR 0x9A, CHR 0xE8, CHR 0xA7, CHR 0xA6, CHR 0xE5,
     CHR 0x8F, CHR 0x91, CHR 0xE5, CHR 0xA4, CHR 0xB1, CHR 0xE8, CHR 0xB4, CHR 0xA5]"

definition job_answer :: "json \<Rightarrow> (json + json) res" where
  "job_answer r =
     (let resp = py_or r (JObj []) in
      rbind (jget resp ''result'' JNull) (\<lambda>ok.
        if \<not> truthy ok then rbind (jget resp ''message'' (JStr job_refused)) (\<lambda>m. Inr (Inl m))
        else rbind (jitem resp ''data'') (\<lambda>d. rbind (jitem d ''task_id'') (\<lambda>t. Inr (Inr t)))))"

text \<open>The column \<open>job_task_id\<close>.\<close>

definition task_column :: "json \<Rightarrow> int option res" where
  "task_column t = (if t = JNull then Inr None else map_sum id Some (py_int t))"

definition failed_exec :: "py_exc \<Rightarrow> action_execution \<Rightarrow> action_execution" where
  "failed_exec e x =
     (if e = ConfigError then x\<lparr>ax_status := X_CONFIG_ERROR, ax_result := XR_Error e\<rparr>
      else x\<lparr>ax_status := X_FAILED, ax_result := XR_Error e\<rparr>)"

definition execute_job ::
  "action_env \<Rightarrow> action_rule \<Rightarrow> alert \<Rightarrow> action_execution \<Rightarrow> action_db \<Rightarrow> unit res \<times> action_db" where
  "execute_job A r a x s =
     (case prepare_job A r a of
        Inl e \<Rightarrow> (Inr (), save_exec (failed_exec e x) s)
      | Inr None \<Rightarrow> (Inr (), save_exec (x\<lparr>ax_status := X_CONFIG_ERROR, ax_result := XR_NoScript\<rparr>) s)
      | Inr (Some data) \<Rightarrow>
          let s1 = s\<lparr>ad_jobs := ad_jobs s @ [(ax_id x, data)]\<rparr> in
          (case rbind (ae_script_execute A data) job_answer of
             Inl e \<Rightarrow> (Inr (), save_exec (failed_exec e x) s1)
           | Inr (Inl m) \<Rightarrow> (Inr (), save_exec (x\<lparr>ax_status := X_FAILED, ax_result := XR_Refused m\<rparr>) s1)
           | Inr (Inr t) \<Rightarrow>
               (case task_column t of
                  Inl e \<Rightarrow> (Inl e, s1)
                | Inr tid \<Rightarrow>
                    (Inr (), save_exec (x\<lparr>ax_job_task_id := tid, ax_job_detail_url := Some (job_url A t),
                                          ax_status := X_RUNNING\<rparr>) s1))))"

section \<open>The engine\<close>

text \<open>\<open>set(xs or [])\<close> of a JSON value, as the list of the keys of its elements.\<close>

definition py_set :: "json \<Rightarrow> json list res" where
  "py_set v = rbind (py_iter (py_or v (JList []))) (\<lambda>xs. if list_all hashable xs then Inr (map py_key xs) else Inl TypeError)"

text \<open>\<open>event_name in (trigger_events or [])\<close>.\<close>

fun triggers :: "string \<Rightarrow> json \<Rightarrow> bool res" where
  "triggers ev (JList xs) = Inr (JStr ev \<in> set xs)"
| "triggers ev (JStr s) = Inr (s \<noteq> [] \<and> substr_in ev s)"
| "triggers ev (JObj kvs) = Inr (ev \<in> fst ` set kvs)"
| "triggers ev j = (if truthy j then Inl TypeError else Inr False)"

text \<open>Whether a rule applies to an alert.\<close>

definition rule_applies :: "action_env \<Rightarrow> alert \<Rightarrow> json list \<Rightarrow> string \<Rightarrow> action_rule \<Rightarrow> bool res" where
  "rule_applies A a teams ev r =
     rbind (triggers ev (ar_trigger_events r)) (\<lambda>t.
       if \<not> t then Inr False
       else rbind (py_set (ar_team r)) (\<lambda>rt.
         if teams \<noteq> [] \<and> rt \<noteq> [] \<and> set teams \<inter> set rt = {} then Inr False
         else event_matches (ae_enrich A) (edict_of (build_match_payload a)) (ar_match_rules r)))"

definition idempotency_key :: "action_rule \<Rightarrow> alert \<Rightarrow> string \<Rightarrow> string" where
  "idempotency_key r a ev = str_int (ar_id r) @ '':'' @ al_alert_id a @ '':'' @ ev"

definition new_execution ::
  "action_rule \<Rightarrow> alert \<Rightarrow> string \<Rightarrow> string \<Rightarrow> string option \<Rightarrow> string option \<Rightarrow> action_db \<Rightarrow> action_execution" where
  "new_execution r a ev ttype key operator s =
     \<lparr>ax_id = next_key ax_id (ad_execs s), ax_rule = Some (ar_id r), ax_alert = al_pk a, ax_trigger_event = ev,
      ax_trigger_type = ttype, ax_idempotency_key = key, ax_status = X_PENDING,
      ax_action_type = ar_action_type r, ax_job_task_id = None, ax_job_detail_url = None,
      ax_result = XR_Empty, ax_operator = operator\<rparr>"

text \<open>The registry of handlers knows one type.\<close>

definition run_handler ::
  "action_env \<Rightarrow> action_rule \<Rightarrow> alert \<Rightarrow> action_execution \<Rightarrow> action_db \<Rightarrow> unit res \<times> action_db" where
  "run_handler A r a x s = (if ar_action_type r = ''job'' then execute_job A r a x s else (Inl KeyError, s))"

definition action_dispatch ::
  "action_env \<Rightarrow> action_rule \<Rightarrow> alert \<Rightarrow> string \<Rightarrow> action_db \<Rightarrow> unit res \<times> action_db" where
  "action_dispatch A r a ev s =
     (let key = idempotency_key r a ev in
      if Some key \<in> ax_idempotency_key ` set (ad_execs s) then (Inr (), s)
      else
        let x = new_execution r a ev ''auto'' (Some key) None s;
            s1 = save_exec x s;
            s2 = s1\<lparr>ad_db := add_log \<lparr>lg_operator = ''system'', lg_kind = LogActionExecute, lg_target = al_alert_id a\<rparr> (ad_db s1)\<rparr>
        in run_handler A r a x s2)"

text \<open>The loop over the rules: an exception ends it.\<close>

fun evaluate_rules ::
  "action_env \<Rightarrow> alert \<Rightarrow> json list \<Rightarrow> string \<Rightarrow> action_rule list \<Rightarrow> action_db \<Rightarrow> unit res \<times> action_db" where
  "evaluate_rules A a teams ev [] s = (Inr (), s)"
| "evaluate_rules A a teams ev (r # rs) s =
     (case rule_applies A a teams ev r of
        Inl e \<Rightarrow> (Inl e, s)
      | Inr b \<Rightarrow>
          if \<not> b then evaluate_rules A a teams ev rs s
          else (case action_dispatch A r a ev s of
                  (Inl e, t) \<Rightarrow> (Inl e, t)
                | (Inr _, t) \<Rightarrow> evaluate_rules A a teams ev rs t))"

definition evaluate :: "action_env \<Rightarrow> alert \<Rightarrow> string \<Rightarrow> action_db \<Rightarrow> unit res \<times> action_db" where
  "evaluate A a ev s =
     (case py_set (JList (al_team a)) of
        Inl e \<Rightarrow> (Inl e, s)
      | Inr teams \<Rightarrow>
          evaluate_rules A a teams ev (filter (\<lambda>r. ar_is_active r \<and> ar_scope r = ''alert'') (ad_rules s)) s)"

text \<open>The queued task: exceptions are logged.\<close>

definition process_alert_actions :: "action_env \<Rightarrow> string \<Rightarrow> string \<Rightarrow> action_db \<Rightarrow> action_db" where
  "process_alert_actions A aid ev s =
     (case find_alert aid (ad_db s) of
        None \<Rightarrow> s
      | Some a \<Rightarrow> snd (evaluate A a ev s))"

section \<open>Requests\<close>

datatype action_answer = AA_NotFound | AA_Done nat | AA_Raised

definition manual_trigger ::
  "action_env \<Rightarrow> string \<Rightarrow> string \<Rightarrow> int \<Rightarrow> action_db \<Rightarrow> action_answer \<times> action_db" where
  "manual_trigger A user aid rid s =
     (case (find_alert aid (ad_db s), tfind ar_id rid (ad_rules s)) of
        (Some a, Some r) \<Rightarrow>
          let x = new_execution r a ''manual'' ''manual'' None (Some user) s in
          (case run_handler A r a x (save_exec x s) of
             (Inl _, t) \<Rightarrow> (AA_Raised, t)
           | (Inr _, t) \<Rightarrow> (AA_Done (ax_id x), t))
      | _ \<Rightarrow> (AA_NotFound, s))"

text \<open>The signature: an HMAC of the timestamp and the document with sorted keys.\<close>

definition sign_callback :: "(int \<Rightarrow> json \<Rightarrow> string) \<Rightarrow> json \<Rightarrow> int \<Rightarrow> string" where
  "sign_callback hmac payload ts = hmac ts (canon payload)"

definition verify_callback_signature :: "(int \<Rightarrow> json \<Rightarrow> string) \<Rightarrow> int \<Rightarrow> json \<Rightarrow> int \<Rightarrow> string \<Rightarrow> bool" where
  "verify_callback_signature hmac now payload ts sig =
     (if \<bar>now - ts\<bar> > 300 then False else sig = sign_callback hmac payload ts)"

fun is_dict :: "json \<Rightarrow> bool" where
  "is_dict (JObj _) = True"
| "is_dict _ = False"

text \<open>The headers are absent (\<open>None\<close>) or texts.\<close>

definition verify_job_signature ::
  "(int \<Rightarrow> json \<Rightarrow> string) \<Rightarrow> int \<Rightarrow> string option \<Rightarrow> string option \<Rightarrow> json \<Rightarrow> bool" where
  "verify_job_signature hmac now ts sig data =
     (case (ts, sig) of
        (Some t, Some g) \<Rightarrow>
          if t = [] \<or> g = [] then False
          else (case parse_int t of
                  Inl _ \<Rightarrow> False
                | Inr n \<Rightarrow> verify_callback_signature hmac now (if is_dict data then data else JObj []) n g)
      | _ \<Rightarrow> False)"

text \<open>\<open>filter(job_task_id=task_id).order_by("-id").first()\<close>: \<open>None\<close> selects the rows without a task; a
  value that is no integer raises.\<close>

definition exec_of_task :: "json \<Rightarrow> action_db \<Rightarrow> action_execution option res" where
  "exec_of_task t s =
     rbind (task_column t) (\<lambda>tid.
       let xs = filter (\<lambda>x. ax_job_task_id x = tid) (ad_execs s) in
       Inr (if xs = [] then None else Some (last (sort_key ax_id xs))))"

datatype callback_answer = CB_Forbidden | CB_Ok | CB_Raised

definition action_callback ::
  "(int \<Rightarrow> json \<Rightarrow> string) \<Rightarrow> int \<Rightarrow> string option \<Rightarrow> string option \<Rightarrow> json \<Rightarrow> action_db \<Rightarrow> callback_answer \<times> action_db" where
  "action_callback hmac now ts sig data s =
     (if \<not> verify_job_signature hmac now ts sig data then (CB_Forbidden, s)
      else
        (case data of
           JObj kvs \<Rightarrow>
             (case exec_of_task (rule_get kvs ''task_id'' JNull) s of
                Inl _ \<Rightarrow> (CB_Raised, s)
              | Inr None \<Rightarrow> (CB_Ok, s)
              | Inr (Some x) \<Rightarrow>
                  let st = rule_get kvs ''status'' JNull in
                  (CB_Ok, save_exec (x\<lparr>ax_status := (if st = JStr ''success'' then X_SUCCESS else X_FAILED),
                     ax_result := XR_Callback [(''total_count'', rule_get kvs ''total_count'' JNull),
                       (''success_count'', rule_get kvs ''success_count'' JNull),
                       (''failed_count'', rule_get kvs ''failed_count'' JNull),
                       (''finished_at'', rule_get kvs ''finished_at'' JNull), (''raw_status'', st)]\<rparr>) s))
         | _ \<Rightarrow> (CB_Raised, s)))"

section \<open>What the payload says\<close>

text \<open>The value at a path of keys in a document; dicts themselves are not values.\<close>

fun json_at :: "json \<Rightarrow> string list \<Rightarrow> json option" where
  "json_at (JObj kvs) [] = None"
| "json_at (JObj kvs) (k # ks) = (case map_of kvs k of None \<Rightarrow> None | Some v \<Rightarrow> json_at v ks)"
| "json_at j [] = Some j"
| "json_at j (k # ks) = None"

fun path_string :: "string \<Rightarrow> string list \<Rightarrow> string" where
  "path_string pre [] = pre"
| "path_string pre (k # ks) = path_string (join_path pre k) ks"

definition dotless :: "string \<Rightarrow> bool" where
  "dotless k \<longleftrightarrow> CHR ''.'' \<notin> set k"

text \<open>Documents whose keys are distinct and contain no dot.\<close>

fun plain_json :: "json \<Rightarrow> bool" and plain_items :: "(string \<times> json) list \<Rightarrow> bool" where
  "plain_json (JObj kvs) = (distinct (map fst kvs) \<and> plain_items kvs)"
| "plain_json j = True"
| "plain_items [] = True"
| "plain_items ((k, v) # kvs) = (dotless k \<and> plain_json v \<and> plain_items kvs)"

definition dot_parts :: "string list \<Rightarrow> string" where
  "dot_parts ks = concat (map (\<lambda>k. CHR ''.'' # k) ks)"

lemma path_dots: "pre \<noteq> [] \<Longrightarrow> path_string pre ks = pre @ dot_parts ks"
  by (induction ks arbitrary: pre) (simp_all add: join_path_def dot_parts_def)

lemma dot_parts_simps [simp]: "dot_parts [] = []" "dot_parts (k # ks) = CHR ''.'' # k @ dot_parts ks"
  by (simp_all add: dot_parts_def)

lemma dotless_prefix:
  assumes "dotless j" "dotless k" "j @ dot_parts js = k @ dot_parts ks"
  shows "j = k \<and> dot_parts js = dot_parts ks"
proof -
  have cut: "takeWhile (\<lambda>c. c \<noteq> CHR ''.'') (i @ dot_parts is) = i" if "dotless i" for i "is"
  proof -
    have "takeWhile (\<lambda>c. c \<noteq> CHR ''.'') (dot_parts is) = []" by (cases "is") simp_all
    then show ?thesis using that by (induction i) (auto simp: dotless_def)
  qed
  from assms(3) have "j = k" using cut[OF assms(1), of js] cut[OF assms(2), of ks] by metis
  with assms(3) show ?thesis by simp
qed

lemma dot_parts_inj:
  "list_all dotless js \<Longrightarrow> list_all dotless ks \<Longrightarrow> dot_parts js = dot_parts ks \<Longrightarrow> js = ks"
proof (induction js arbitrary: ks)
  case Nil
  then show ?case by (cases ks) auto
next
  case (Cons j js)
  then obtain k ks' where ks: "ks = k # ks'" by (cases ks) auto
  with Cons.prems have "j = k \<and> dot_parts js = dot_parts ks'" by (intro dotless_prefix) auto
  with Cons ks show ?case by auto
qed

lemma flatten_frame:
  fixes v :: json and kvs :: "(string \<times> json) list"
  shows "plain_json v \<Longrightarrow> pre \<noteq> [] \<Longrightarrow> (\<And>ks. list_all dotless ks \<Longrightarrow> q \<noteq> pre @ dot_parts ks) \<Longrightarrow>
      map_of (flatten pre v out) q = map_of out q"
    and "plain_items kvs \<Longrightarrow> pre \<noteq> [] \<Longrightarrow>
      (\<And>k ks. k \<in> fst ` set kvs \<Longrightarrow> list_all dotless ks \<Longrightarrow> q \<noteq> pre @ dot_parts (k # ks)) \<Longrightarrow>
      map_of (flatten_items pre kvs out) q = map_of out q"
proof (induction pre v out and pre kvs out arbitrary: q and q rule: flatten_flatten_items.induct)
  case (1 pre kvs out)
  have d: "plain_items kvs \<Longrightarrow> k \<in> fst ` set kvs \<Longrightarrow> dotless k" for k kvs by (induction kvs) force+
  show ?case unfolding flatten.simps
  proof (rule 1(1))
    fix k ks assume "k \<in> fst ` set kvs" "list_all dotless ks"
    then have "list_all dotless (k # ks)" using d[of kvs k] 1(2) by simp
    then show "q \<noteq> pre @ dot_parts (k # ks)" by (rule 1(4))
  qed (use 1(2,3) in simp_all)
next
  case (4 pre k v kvs out)
  have "map_of (flatten (join_path pre k) v out) q = map_of out q"
    using 4(1) 4(3-5) by (auto simp: join_path_def)
  moreover have "map_of (flatten_items pre kvs (flatten (join_path pre k) v out)) q =
      map_of (flatten (join_path pre k) v out) q"
    using 4(2) 4(3-5) by auto
  ultimately show ?case by simp
qed (auto simp: map_of_tsave, (metis dot_parts_simps(1) list.pred_inject(1))+)

lemma dot_parts_Nil: "dot_parts ks = [] \<longleftrightarrow> ks = []"
  by (cases ks) simp_all

lemma json_at_scalar: "\<not> is_dict j \<Longrightarrow> json_at j ks = (if ks = [] then Some j else None)"
  by (cases j; cases ks) simp_all

lemma flatten_value:
  fixes v :: json and kvs :: "(string \<times> json) list"
  shows "plain_json v \<Longrightarrow> pre \<noteq> [] \<Longrightarrow> list_all dotless ks \<Longrightarrow>
      map_of (flatten pre v out) (pre @ dot_parts ks) =
      (case json_at v ks of Some w \<Rightarrow> Some w | None \<Rightarrow> map_of out (pre @ dot_parts ks))"
    and "distinct (map fst kvs) \<Longrightarrow> plain_items kvs \<Longrightarrow> pre \<noteq> [] \<Longrightarrow> list_all dotless ks \<Longrightarrow>
      map_of (flatten_items pre kvs out) (pre @ dot_parts ks) =
      (case json_at (JObj kvs) ks of Some w \<Rightarrow> Some w | None \<Rightarrow> map_of out (pre @ dot_parts ks))"
proof (induction pre v out and pre kvs out arbitrary: ks and ks rule: flatten_flatten_items.induct)
  case (3 pre out)
  then show ?case by (cases ks) simp_all
next
  case (4 pre k v kvs out)
  let ?out = "flatten (join_path pre k) v out" and ?q = "pre @ dot_parts ks"
  have rest: "map_of (flatten_items pre kvs ?out) ?q = (case json_at (JObj kvs) ks of Some w \<Rightarrow> Some w | None \<Rightarrow> map_of ?out ?q)"
    using 4 by simp
  show ?case
  proof (cases "\<exists>ks'. ks = k # ks'")
    case True
    then obtain ks' where ks: "ks = k # ks'" by blast
    have "map_of kvs k = None" using 4(3) by (simp add: map_of_eq_None_iff)
    moreover have "map_of ?out ?q = (case json_at v ks' of Some w \<Rightarrow> Some w | None \<Rightarrow> map_of out ?q)"
      using 4(1)[of ks'] 4(4-6) by (simp add: join_path_def ks split: option.splits)
    ultimately show ?thesis using rest by (simp add: ks)
  next
    case False
    have "map_of ?out ?q = map_of out ?q"
    proof (rule flatten_frame(1))
      fix js assume js: "list_all dotless js"
      show "?q \<noteq> join_path pre k @ dot_parts js"
      proof
        assume "?q = join_path pre k @ dot_parts js"
        then have "dot_parts ks = dot_parts (k # js)" using 4(5) by (simp add: join_path_def)
        then have "ks = k # js" using 4(4,6) js by (intro dot_parts_inj) auto
        with False show False by simp
      qed
    qed (use 4(4,5) in \<open>auto simp: join_path_def\<close>)
    with False rest show ?thesis by (cases ks) (auto split: option.splits)
  qed
qed (simp_all add: map_of_tsave dot_parts_Nil json_at_scalar)

lemma payload_labels:
  assumes "plain_json (py_or (al_labels a) (JObj []))" "plain_json (JObj (al_enrichment a))" "list_all dotless (k # ks)"
  shows "map_of (build_match_payload a) (''labels'' @ dot_parts (k # ks)) = json_at (py_or (al_labels a) (JObj [])) (k # ks)"
proof -
  let ?q = "''labels'' @ dot_parts (k # ks)" and ?l = "flatten ''labels'' (py_or (al_labels a) (JObj [])) (top_fields a)"
  have "map_of (build_match_payload a) ?q = map_of ?l ?q"
    unfolding build_match_payload_def by (rule flatten_frame(1)) (use assms(2) in auto)
  moreover have "map_of (top_fields a) ?q = None" by (auto simp: top_fields_def)
  ultimately show ?thesis using flatten_value(1)[OF assms(1) _ assms(3), of "''labels''" "top_fields a"]
    by (simp split: option.splits)
qed

lemma payload_enrichment:
  assumes "plain_json (py_or (al_labels a) (JObj []))" "plain_json (JObj (al_enrichment a))" "list_all dotless (k # ks)"
  shows "map_of (build_match_payload a) (''enrichment'' @ dot_parts (k # ks)) = json_at (JObj (al_enrichment a)) (k # ks)"
proof -
  let ?q = "''enrichment'' @ dot_parts (k # ks)" and ?l = "flatten ''labels'' (py_or (al_labels a) (JObj [])) (top_fields a)"
  have "map_of ?l ?q = map_of (top_fields a) ?q" by (rule flatten_frame(1)) (use assms(1) in auto)
  also have "\<dots> = None" by (auto simp: top_fields_def)
  finally show ?thesis
    using flatten_value(1)[OF assms(2) _ assms(3), of "''enrichment''" ?l]
    by (simp add: build_match_payload_def split: option.splits)
qed

section \<open>Executions\<close>

text \<open>Rows have distinct ids and, if any, distinct idempotency keys; a request belongs to a row, and a
  row has sent at most one.\<close>

definition exec_keys :: "action_execution list \<Rightarrow> string list" where
  "exec_keys xs = concat (map (\<lambda>x. case ax_idempotency_key x of None \<Rightarrow> [] | Some k \<Rightarrow> [k]) xs)"

definition action_inv :: "action_db \<Rightarrow> bool" where
  "action_inv s \<longleftrightarrow> keyed ax_id (ad_execs s) \<and> distinct (exec_keys (ad_execs s)) \<and>
     distinct (map fst (ad_jobs s)) \<and> fst ` set (ad_jobs s) \<subseteq> ax_id ` set (ad_execs s)"

text \<open>What one operation may do: rows keep their identity, new rows are appended, requests are
  appended, and only for new rows.\<close>

definition same_identity :: "action_execution \<Rightarrow> action_execution \<Rightarrow> bool" where
  "same_identity x y \<longleftrightarrow> ax_id y = ax_id x \<and> ax_rule y = ax_rule x \<and> ax_alert y = ax_alert x \<and>
     ax_trigger_event y = ax_trigger_event x \<and> ax_trigger_type y = ax_trigger_type x \<and>
     ax_idempotency_key y = ax_idempotency_key x"

definition action_grow :: "action_db \<Rightarrow> action_db \<Rightarrow> bool" where
  "action_grow s t \<longleftrightarrow> (action_inv s \<longrightarrow> action_inv t) \<and>
     (\<exists>ys zs. ad_execs t = ys @ zs \<and> list_all2 same_identity (ad_execs s) ys) \<and>
     (\<exists>js. ad_jobs t = ad_jobs s @ js \<and> fst ` set js \<inter> ax_id ` set (ad_execs s) = {})"

lemma same_identity_refl [simp]: "same_identity x x"
  by (simp add: same_identity_def)

lemma same_identity_all: "list_all2 same_identity xs xs"
  by (simp add: list_all2_refl)

lemma same_ids: "list_all2 same_identity xs ys \<Longrightarrow> map ax_id ys = map ax_id xs \<and>
    map ax_idempotency_key ys = map ax_idempotency_key xs"
  by (induction rule: list_all2_induct) (auto simp: same_identity_def)

lemma action_growI:
  assumes "action_inv s \<Longrightarrow> action_inv t" "ad_execs t = ys @ zs" "list_all2 same_identity (ad_execs s) ys"
    "ad_jobs t = ad_jobs s @ js" "fst ` set js \<inter> ax_id ` set (ad_execs s) = {}"
  shows "action_grow s t"
  unfolding action_grow_def using assms by blast

lemma action_grow_refl [simp]: "action_grow s s"
  using same_identity_all by (auto simp: action_grow_def)

lemma action_grow_trans:
  assumes "action_grow s t" "action_grow t u"
  shows "action_grow s u"
proof -
  obtain ys zs where t: "ad_execs t = ys @ zs" "list_all2 same_identity (ad_execs s) ys"
    using assms(1) by (auto simp: action_grow_def)
  obtain ys' zs' where u: "ad_execs u = ys' @ zs'" "list_all2 same_identity (ys @ zs) ys'"
    using assms(2) t(1) by (auto simp: action_grow_def)
  from u(2) obtain v w where vw: "ys' = v @ w" "list_all2 same_identity ys v" by (auto simp: list_all2_append1)
  have "list_all2 same_identity (ad_execs s) v"
    by (rule list_all2_trans[OF _ t(2) vw(2)]) (simp add: same_identity_def)
  moreover have "ad_execs u = v @ (w @ zs')" using u(1) vw(1) by simp
  moreover have "ax_id ` set (ad_execs s) \<subseteq> ax_id ` set (ad_execs t)"
    using same_ids[OF t(2)] t(1) by (metis Un_upper1 image_Un list.set_map set_append)
  moreover obtain js where js: "ad_jobs t = ad_jobs s @ js" "fst ` set js \<inter> ax_id ` set (ad_execs s) = {}"
    using assms(1) by (auto simp: action_grow_def)
  moreover obtain js' where js': "ad_jobs u = ad_jobs t @ js'" "fst ` set js' \<inter> ax_id ` set (ad_execs t) = {}"
    using assms(2) by (auto simp: action_grow_def)
  ultimately have "ad_jobs u = ad_jobs s @ (js @ js')" "fst ` set (js @ js') \<inter> ax_id ` set (ad_execs s) = {}"
    by (simp, simp only: set_append image_Un, blast)
  moreover have "action_inv s \<longrightarrow> action_inv u" using assms by (simp add: action_grow_def)
  ultimately show ?thesis
    unfolding action_grow_def using \<open>list_all2 same_identity (ad_execs s) v\<close> \<open>ad_execs u = v @ (w @ zs')\<close> by blast
qed

lemma grow_new:
  assumes "ad_execs t = ad_execs s @ [y]" "ax_id y = next_key ax_id (ad_execs s)"
    "ax_idempotency_key y = None \<or> ax_idempotency_key y \<notin> ax_idempotency_key ` set (ad_execs s)"
    "ad_jobs t = ad_jobs s \<or> ad_jobs t = ad_jobs s @ [(ax_id y, d)]"
  shows "action_grow s t"
proof -
  have fresh: "ax_id y \<notin> ax_id ` set (ad_execs s)" using assms(2) next_key_fresh by metis
  have keys: "k \<in> set (exec_keys xs) \<longleftrightarrow> Some k \<in> ax_idempotency_key ` set xs" for k xs
    by (auto simp: exec_keys_def image_iff split: option.splits)
  have "distinct (exec_keys (ad_execs t))" if "distinct (exec_keys (ad_execs s))"
    using that assms(3) keys[of _ "ad_execs s"]
    by (cases "ax_idempotency_key y") (simp_all add: assms(1) exec_keys_def)
  moreover have "distinct (map fst (ad_jobs t)) \<and> fst ` set (ad_jobs t) \<subseteq> ax_id ` set (ad_execs t)"
    if "distinct (map fst (ad_jobs s))" "fst ` set (ad_jobs s) \<subseteq> ax_id ` set (ad_execs s)"
    using assms(4)
  proof
    assume "ad_jobs t = ad_jobs s @ [(ax_id y, d)]"
    moreover have "ax_id y \<notin> fst ` set (ad_jobs s)" using that(2) fresh by blast
    ultimately show ?thesis using that assms(1) by (simp, blast)
  qed (use that assms(1) in \<open>simp, blast\<close>)
  ultimately have "action_inv s \<longrightarrow> action_inv t"
    using fresh assms(1) by (simp add: action_inv_def keyed_def)
  moreover have "\<exists>js. ad_jobs t = ad_jobs s @ js \<and> fst ` set js \<inter> ax_id ` set (ad_execs s) = {}"
    using assms(4) fresh by auto
  moreover have "\<exists>ys zs. ad_execs t = ys @ zs \<and> list_all2 same_identity (ad_execs s) ys"
    using assms(1) same_identity_all by blast
  ultimately show ?thesis by (simp add: action_grow_def)
qed

lemma failed_identity [simp]: "same_identity x (failed_exec e x)"
  by (simp add: same_identity_def failed_exec_def)

lemma handler_shape:
  assumes "run_handler A r a x s = (res, t)"
  shows "\<exists>y. same_identity x y \<and> (ad_execs t = ad_execs s \<or> ad_execs t = tsave ax_id y (ad_execs s)) \<and>
    ad_db t = ad_db s \<and> ad_rules t = ad_rules s \<and>
    (ad_jobs t = ad_jobs s \<or>
     (\<exists>d. prepare_job A r a = Inr (Some d) \<and> ad_jobs t = ad_jobs s @ [(ax_id x, d)]))"
proof (cases "ar_action_type r = ''job''")
  case True
  have id: "same_identity x (x\<lparr>ax_status := st, ax_result := rs\<rparr>)"
      "same_identity x (x\<lparr>ax_job_task_id := tid, ax_job_detail_url := u, ax_status := st\<rparr>)" for st rs tid u
    by (simp_all add: same_identity_def)
  from True assms have e: "execute_job A r a x s = (res, t)" by (simp add: run_handler_def)
  show ?thesis
  proof (cases "prepare_job A r a")
    case (Inl x1)
    with e show ?thesis by (auto simp: execute_job_def save_exec_def intro!: exI[of _ "failed_exec x1 x"])
  next
    case (Inr od)
    show ?thesis
    proof (cases od)
      case None
      with e Inr id(1) show ?thesis by (fastforce simp: execute_job_def save_exec_def)
    next
      case (Some d)
      let ?s = "s\<lparr>ad_jobs := ad_jobs s @ [(ax_id x, d)]\<rparr>"
      have "\<exists>y. same_identity x y \<and> (t = ?s \<or> t = save_exec y ?s)"
      proof (cases "rbind (ae_script_execute A d) job_answer")
        case (Inl x1)
        with e Inr Some show ?thesis by (auto simp: execute_job_def Let_def intro!: exI[of _ "failed_exec x1 x"])
      next
        case ans: (Inr ans)
        show ?thesis
        proof (cases ans)
          case (Inl m)
          with ans e Inr Some id(1) show ?thesis by (fastforce simp: execute_job_def Let_def)
        next
          case (Inr tk)
          with ans e \<open>prepare_job A r a = Inr od\<close> Some have "t = ?s \<or> (\<exists>tid. t = save_exec (x\<lparr>ax_job_task_id := tid,
              ax_job_detail_url := Some (job_url A tk), ax_status := X_RUNNING\<rparr>) ?s)"
            by (cases "task_column tk") (auto simp: execute_job_def Let_def)
          with id(2) same_identity_refl show ?thesis by blast
        qed
      qed
      then show ?thesis using Inr Some by (auto simp: save_exec_def)
    qed
  qed
qed (use assms in \<open>auto simp: run_handler_def intro!: exI[of _ x]\<close>)

lemma tsave_new_row: "ax_id x = next_key ax_id xs \<Longrightarrow> tsave ax_id x xs = xs @ [x]"
  using next_key_fresh[of ax_id xs] by (simp add: tsave_def)

lemma tsave_last: "ax_id x = next_key ax_id xs \<Longrightarrow> ax_id y = ax_id x \<Longrightarrow> tsave ax_id y (xs @ [x]) = xs @ [y]"
proof -
  assume a: "ax_id x = next_key ax_id xs" "ax_id y = ax_id x"
  then have "\<forall>z \<in> set xs. ax_id z \<noteq> ax_id y" using next_key_fresh[of ax_id xs] by (metis imageI)
  then have "map (\<lambda>z. if ax_id z = ax_id y then y else z) xs = xs" by (intro map_idI) auto
  with a show ?thesis by (simp add: tsave_def)
qed

text \<open>A new row and its handler.\<close>

lemma handled_row:
  assumes "x = new_execution r a ev tt key op s" "ad_execs s1 = ad_execs s @ [x]" "ad_jobs s1 = ad_jobs s"
    "run_handler A r a x s1 = (res, t)" "key = None \<or> key \<notin> ax_idempotency_key ` set (ad_execs s)"
  shows "action_grow s t" "ad_db t = ad_db s1" "ad_rules t = ad_rules s1"
    "\<exists>y. same_identity x y \<and> ad_execs t = ad_execs s @ [y]"
    "ad_jobs t = ad_jobs s \<or> (\<exists>d. prepare_job A r a = Inr (Some d) \<and> ad_jobs t = ad_jobs s @ [(ax_id x, d)])"
proof -
  have x: "ax_id x = next_key ax_id (ad_execs s)" "ax_idempotency_key x = key"
    by (simp_all add: assms(1) new_execution_def)
  obtain y where y: "same_identity x y" "ad_execs t = ad_execs s1 \<or> ad_execs t = tsave ax_id y (ad_execs s1)"
    "ad_db t = ad_db s1" "ad_rules t = ad_rules s1"
    "ad_jobs t = ad_jobs s1 \<or> (\<exists>d. prepare_job A r a = Inr (Some d) \<and> ad_jobs t = ad_jobs s1 @ [(ax_id x, d)])"
    using handler_shape[OF assms(4)] by blast
  have "ad_execs t = ad_execs s @ [x] \<or> ad_execs t = ad_execs s @ [y]"
    using y(1,2) assms(2) tsave_last[OF x(1)] by (auto simp: same_identity_def)
  then obtain z where z: "same_identity x z" "ad_execs t = ad_execs s @ [z]" using y(1) by auto
  then show "\<exists>y. same_identity x y \<and> ad_execs t = ad_execs s @ [y]" by blast
  show "ad_db t = ad_db s1" "ad_rules t = ad_rules s1" using y by simp_all
  show jobs: "ad_jobs t = ad_jobs s \<or> (\<exists>d. prepare_job A r a = Inr (Some d) \<and> ad_jobs t = ad_jobs s @ [(ax_id x, d)])"
    using y(5) assms(3) by simp
  show "action_grow s t"
    by (rule grow_new[OF z(2), where d = "the (the_inv Inr (prepare_job A r a))"])
       (use z(1) x assms(5) jobs in \<open>auto simp: same_identity_def the_inv_f_f\<close>)
qed

lemma grow_keys: "action_grow s t \<Longrightarrow> ax_idempotency_key ` set (ad_execs s) \<subseteq> ax_idempotency_key ` set (ad_execs t)"
proof -
  assume "action_grow s t"
  then obtain ys zs where "ad_execs t = ys @ zs" "list_all2 same_identity (ad_execs s) ys"
    by (auto simp: action_grow_def)
  then show ?thesis using same_ids[of "ad_execs s" ys] by (metis Un_upper1 image_Un list.set_map set_append)
qed

text \<open>A request that was sent has a reason: an active rule for alerts that applies, and whose key was
  not used before.\<close>

definition justified ::
  "action_env \<Rightarrow> alert \<Rightarrow> json list \<Rightarrow> string \<Rightarrow> action_rule list \<Rightarrow> action_db \<Rightarrow> json \<Rightarrow> bool" where
  "justified A a teams ev rules s d \<longleftrightarrow>
     (\<exists>r \<in> set rules. rule_applies A a teams ev r = Inr True \<and> prepare_job A r a = Inr (Some d) \<and>
        Some (idempotency_key r a ev) \<notin> ax_idempotency_key ` set (ad_execs s))"

lemma dispatch_effect:
  assumes "action_dispatch A r a ev s = (res, t)"
  shows "action_grow s t \<and> ad_rules t = ad_rules s \<and> db_alerts (ad_db t) = db_alerts (ad_db s) \<and>
    (ad_jobs t = ad_jobs s \<or> (Some (idempotency_key r a ev) \<notin> ax_idempotency_key ` set (ad_execs s) \<and>
       (\<exists>i d. prepare_job A r a = Inr (Some d) \<and> ad_jobs t = ad_jobs s @ [(i, d)])))"
proof (cases "Some (idempotency_key r a ev) \<in> ax_idempotency_key ` set (ad_execs s)")
  case True
  with assms show ?thesis by (simp add: action_dispatch_def)
next
  case False
  let ?x = "new_execution r a ev ''auto'' (Some (idempotency_key r a ev)) None s"
  let ?s = "(save_exec ?x s)\<lparr>ad_db := add_log \<lparr>lg_operator = ''system'', lg_kind = LogActionExecute,
      lg_target = al_alert_id a\<rparr> (ad_db (save_exec ?x s))\<rparr>"
  have "ax_id ?x = next_key ax_id (ad_execs s)" by (simp add: new_execution_def)
  then have e: "ad_execs ?s = ad_execs s @ [?x]" by (simp add: save_exec_def tsave_new_row)
  have h: "run_handler A r a ?x ?s = (res, t)"
    using assms False by (simp add: action_dispatch_def Let_def)
  have k: "Some (idempotency_key r a ev) = None \<or>
      Some (idempotency_key r a ev) \<notin> ax_idempotency_key ` set (ad_execs s)" using False by simp
  note hr = handled_row[OF refl e _ h k]
  have "ad_jobs ?s = ad_jobs s" by (simp add: save_exec_def)
  from hr[OF this] False show ?thesis by (auto simp: save_exec_def)
qed

lemma evaluate_rules_effect:
  assumes "evaluate_rules A a teams ev rules s = (res, t)"
  shows "action_grow s t \<and> ad_rules t = ad_rules s \<and> db_alerts (ad_db t) = db_alerts (ad_db s) \<and>
    (\<exists>js. ad_jobs t = ad_jobs s @ js \<and> (\<forall>(i, d) \<in> set js. justified A a teams ev rules s d))"
  using assms
proof (induction rules arbitrary: s)
  case (Cons r rules)
  have mono: "justified A a teams ev (r # rules) s d" if "justified A a teams ev rules u d" "action_grow s u" for u d
    using that(1) grow_keys[OF that(2)] unfolding justified_def by (meson list.set_intros(2) subsetD)
  show ?case
  proof (cases "rule_applies A a teams ev r")
    case (Inr b)
    show ?thesis
    proof (cases b)
      case True
      obtain res1 u where d: "action_dispatch A r a ev s = (res1, u)" by fastforce
      from dispatch_effect[OF d] have u: "action_grow s u" "ad_rules u = ad_rules s"
        "db_alerts (ad_db u) = db_alerts (ad_db s)" by blast+
      from dispatch_effect[OF d] obtain js where js: "ad_jobs u = ad_jobs s @ js"
        "\<forall>(i, d) \<in> set js. justified A a teams ev (r # rules) s d"
        using Inr True by (fastforce simp: justified_def)
      show ?thesis
      proof (cases res1)
        case (Inl e)
        with d Inr True Cons.prems have "t = u" by simp
        with u js show ?thesis by blast
      next
        case ok: (Inr e)
        with d Inr True Cons.prems have "evaluate_rules A a teams ev rules u = (res, t)" by simp
        from Cons.IH[OF this] obtain js' where t: "action_grow u t" "ad_rules t = ad_rules u"
          "db_alerts (ad_db t) = db_alerts (ad_db u)" "ad_jobs t = ad_jobs u @ js'"
          "\<forall>(i, d) \<in> set js'. justified A a teams ev rules u d" by blast
        have "ad_jobs t = ad_jobs s @ (js @ js')" using t(4) js(1) by simp
        moreover have "\<forall>(i, d) \<in> set (js @ js'). justified A a teams ev (r # rules) s d"
          using js(2) t(5) mono[OF _ u(1)] by auto
        ultimately show ?thesis using u t action_grow_trans by metis
      qed
    next
      case False
      with Inr Cons.prems have "evaluate_rules A a teams ev rules s = (res, t)" by simp
      from Cons.IH[OF this] mono[OF _ action_grow_refl] show ?thesis by fastforce
    qed
  qed (use Cons.prems in simp)
qed simp

lemma evaluate_effect:
  assumes "evaluate A a ev s = (res, t)"
  shows "action_grow s t \<and> ad_rules t = ad_rules s \<and> db_alerts (ad_db t) = db_alerts (ad_db s)"
proof (cases "py_set (JList (al_team a))")
  case (Inl x1)
  with assms show ?thesis by (simp add: evaluate_def)
next
  case (Inr x2)
  with assms evaluate_rules_effect show ?thesis by (auto simp: evaluate_def)
qed

lemma manual_effect: "action_grow s (snd (manual_trigger A user aid rid s))"
proof -
  have "action_grow s t"
    if "run_handler A r a x (save_exec x s) = (res, t)" "x = new_execution r a ''manual'' ''manual'' None (Some user) s"
    for r a x res t
  proof -
    have "ax_id x = next_key ax_id (ad_execs s)" by (simp add: that(2) new_execution_def)
    then have "ad_execs (save_exec x s) = ad_execs s @ [x]" by (simp add: save_exec_def tsave_new_row)
    from handled_row(1)[OF that(2) this _ that(1)] show ?thesis by (simp add: save_exec_def)
  qed
  then show ?thesis
    by (auto simp: manual_trigger_def Let_def split: option.splits prod.splits sum.splits)
qed

lemma exec_of_task_row:
  assumes "exec_of_task tk s = Inr (Some x)"
  shows "x \<in> set (ad_execs s) \<and> task_column tk = Inr (ax_job_task_id x) \<and>
    (\<forall>y \<in> set (ad_execs s). ax_job_task_id y = ax_job_task_id x \<longrightarrow> ax_id y \<le> ax_id x)"
proof -
  from assms obtain tid where tid: "task_column tk = Inr tid" by (auto simp: exec_of_task_def rbind_Inr)
  let ?xs = "filter (\<lambda>x. ax_job_task_id x = tid) (ad_execs s)"
  from assms tid have x: "?xs \<noteq> []" "x = last (sort_key ax_id ?xs)"
    by (auto simp: exec_of_task_def Let_def split: if_splits)
  have ne: "sort_key ax_id ?xs \<noteq> []" using x(1) by (metis set_sort set_empty)
  then have "x \<in> set (sort_key ax_id ?xs)" unfolding x(2) by (rule last_in_set)
  then have in_xs: "x \<in> set ?xs" by simp
  have "ax_id y \<le> ax_id x" if y: "y \<in> set ?xs" for y
  proof -
    obtain i where i: "i < length (sort_key ax_id ?xs)" "sort_key ax_id ?xs ! i = y"
      using y in_set_conv_nth[of y "sort_key ax_id ?xs"] by auto
    have "sorted (map ax_id (sort_key ax_id ?xs))" by simp
    with i ne show ?thesis
      using sorted_nth_mono[of "map ax_id (sort_key ax_id ?xs)" i "length (sort_key ax_id ?xs) - 1"]
      by (simp add: x(2) last_conv_nth)
  qed
  with in_xs tid show ?thesis by auto
qed

text \<open>A callback changes at most one row, its status and its result.\<close>

lemma callback_shape:
  assumes "action_callback hmac now ts sig data s = (ans, t)"
  shows "t = s \<or> (\<exists>kvs x st rs. verify_job_signature hmac now ts sig data \<and> data = JObj kvs \<and>
    exec_of_task (rule_get kvs ''task_id'' JNull) s = Inr (Some x) \<and>
    st = (if rule_get kvs ''status'' JNull = JStr ''success'' then X_SUCCESS else X_FAILED) \<and>
    t = save_exec (x\<lparr>ax_status := st, ax_result := rs\<rparr>) s)"
  using assms by (auto simp: action_callback_def Let_def split: if_splits json.splits sum.splits option.splits)

lemma save_exec_grow:
  assumes "x \<in> set (ad_execs s)" "same_identity x y" "action_inv s"
  shows "action_grow s (save_exec y s)"
proof -
  have k: "keyed ax_id (ad_execs s)" using assms(3) by (simp add: action_inv_def)
  let ?f = "\<lambda>z. if ax_id z = ax_id y then y else z"
  have present: "tsave ax_id y (ad_execs s) = map ?f (ad_execs s)"
    using assms(1,2) by (auto simp: tsave_def same_identity_def)
  have "same_identity z (?f z)" if "z \<in> set (ad_execs s)" for z
  proof (cases "ax_id z = ax_id y")
    case True
    then have "z = x" using keyed_inj[OF k that assms(1)] assms(2) by (simp add: same_identity_def)
    with assms(2) show ?thesis by simp
  qed simp
  then have l: "list_all2 same_identity (ad_execs s) (map ?f (ad_execs s))"
    by (simp add: list_all2_map2 list_all2_same)
  from same_ids[OF l] have "exec_keys (map ?f (ad_execs s)) = exec_keys (ad_execs s)"
    unfolding exec_keys_def by (metis (no_types, lifting) map_map comp_def map_eq_conv list.map_comp)
  moreover have "map ax_id (map ?f (ad_execs s)) = map ax_id (ad_execs s)" using same_ids[OF l] by blast
  moreover from this have "ax_id ` set (map ?f (ad_execs s)) = ax_id ` set (ad_execs s)" by (metis list.set_map)
  moreover have "ad_execs (save_exec y s) = map ?f (ad_execs s)" "ad_jobs (save_exec y s) = ad_jobs s"
    by (simp_all add: save_exec_def present)
  ultimately have "action_inv (save_exec y s)"
    using assms(3) unfolding action_inv_def keyed_def by metis
  moreover have "ad_execs (save_exec y s) = map ?f (ad_execs s) @ []" by (simp add: save_exec_def present)
  moreover have "ad_jobs (save_exec y s) = ad_jobs s @ []" by (simp add: save_exec_def)
  ultimately show ?thesis using l by (intro action_growI[where js = "[]"]) auto
qed

section \<open>Runs\<close>

text \<open>Queued tasks, manual triggers and callbacks in any order, while users edit the rules and the rest
  of the alert centre works on its own tables.\<close>

inductive action_step :: "action_db \<Rightarrow> action_db \<Rightarrow> bool" where
  processed: "action_step s (process_alert_actions A aid ev s)"
| triggered: "action_step s (snd (manual_trigger A user aid rid s))"
| called_back: "action_step s (snd (action_callback hmac now ts sig data s))"
| elsewhere: "action_step s (s\<lparr>ad_db := d, ad_rules := rs\<rparr>)"

inductive_cases action_stepE: "action_step s t"

lemma action_step_grow: "action_step s t \<Longrightarrow> action_inv s \<Longrightarrow> action_grow s t"
proof (induction rule: action_step.induct)
  case (processed s A aid ev)
  show ?case
  proof (cases "find_alert aid (ad_db s)")
    case (Some a)
    then show ?thesis using evaluate_effect[of A a ev s] by (cases "evaluate A a ev s") (simp add: process_alert_actions_def)
  qed (simp add: process_alert_actions_def)
next
  case (triggered s A user aid rid)
  show ?case by (rule manual_effect)
next
  case (called_back s hmac now ts sig data)
  obtain ans t where c: "action_callback hmac now ts sig data s = (ans, t)" by fastforce
  from callback_shape[OF c] show ?case
  proof
    assume "\<exists>kvs x st rs. verify_job_signature hmac now ts sig data \<and> data = JObj kvs \<and>
      exec_of_task (rule_get kvs ''task_id'' JNull) s = Inr (Some x) \<and>
      st = (if rule_get kvs ''status'' JNull = JStr ''success'' then X_SUCCESS else X_FAILED) \<and>
      t = save_exec (x\<lparr>ax_status := st, ax_result := rs\<rparr>) s"
    then obtain x st rs kvs where "exec_of_task (rule_get kvs ''task_id'' JNull) s = Inr (Some x)"
      "t = save_exec (x\<lparr>ax_status := st, ax_result := rs\<rparr>) s" by blast
    moreover have "same_identity x (x\<lparr>ax_status := st, ax_result := rs\<rparr>)" by (simp add: same_identity_def)
    ultimately show ?thesis using exec_of_task_row save_exec_grow called_back c by simp blast
  qed (simp add: c)
next
  case (elsewhere s rs d)
  have "action_inv (s\<lparr>ad_db := d, ad_rules := rs\<rparr>) = action_inv s" by (simp add: action_inv_def)
  then show ?case
    using same_identity_all by (intro action_growI[where js = "[]" and ys = "ad_execs s" and zs = "[]"]) simp_all
qed

inductive action_run :: "action_db \<Rightarrow> action_db \<Rightarrow> bool" where
  stay: "action_run s s"
| onward: "action_run s t \<Longrightarrow> action_step t u \<Longrightarrow> action_run s u"

lemma action_run_grow: "action_run s t \<Longrightarrow> action_inv s \<Longrightarrow> action_grow s t"
proof (induction rule: action_run.induct)
  case (onward s t u)
  then have "action_inv t" by (simp add: action_grow_def)
  with onward action_step_grow action_grow_trans show ?case by blast
qed simp

text \<open>The requests sent for one idempotency key.\<close>

definition jobs_for :: "string \<Rightarrow> action_db \<Rightarrow> (nat \<times> json) list" where
  "jobs_for key s = filter (\<lambda>(i, d). \<exists>x \<in> set (ad_execs s). ax_id x = i \<and> ax_idempotency_key x = Some key) (ad_jobs s)"

lemma one_row_per_key:
  assumes "action_inv s" "x \<in> set (ad_execs s)" "y \<in> set (ad_execs s)"
    "ax_idempotency_key x = Some k" "ax_idempotency_key y = Some k"
  shows "x = y"
proof -
  have "distinct (exec_keys xs) \<Longrightarrow> x \<in> set xs \<Longrightarrow> y \<in> set xs \<Longrightarrow> x = y" for xs
    using assms(4,5) by (induction xs) (auto simp: exec_keys_def split: option.splits)
  then show ?thesis using assms(1-3) by (auto simp: action_inv_def)
qed

lemma at_most_one_job: "action_inv s \<Longrightarrow> length (jobs_for key s) \<le> 1"
proof -
  assume inv: "action_inv s"
  have d: "distinct (map fst (jobs_for key s))"
    using inv by (auto simp: action_inv_def jobs_for_def distinct_map_filter)
  have "p = q" if "p \<in> set (map fst (jobs_for key s))" "q \<in> set (map fst (jobs_for key s))" for p q
    using that one_row_per_key[OF inv] unfolding jobs_for_def by (auto) metis
  then have "card (set (map fst (jobs_for key s))) \<le> Suc 0" by (subst card_le_Suc0_iff_eq) blast+
  then show ?thesis using distinct_card[OF d] by simp
qed

section \<open>The target of a job\<close>

text \<open>The node application knows exactly one node with the address of the host, and that is the target.\<close>

definition only_node :: "action_env \<Rightarrow> json \<Rightarrow> json \<Rightarrow> bool" where
  "only_node A host tgt \<longleftrightarrow>
     (let str = py_str (en_repr (ae_enrich A)) in
      \<exists>orgs reply ns nodes n. ae_node_list A (node_query host orgs) = Inr reply \<and>
        jget (py_or reply (JObj [])) ''nodes'' (JList []) = Inr ns \<and> py_iter ns = Inr nodes \<and>
        filter (\<lambda>m. \<exists>ip. jget m ''ip'' JNull = Inr ip \<and> str ip = str host) nodes = [n] \<and>
        jitem tgt ''node_id'' = jitem n ''id'' \<and> jitem tgt ''ip'' = Inr (JStr (str host)))"

lemma exact_nodes_filter:
  "exact_nodes str host ns = Inr es \<Longrightarrow> es = filter (\<lambda>m. \<exists>ip. jget m ''ip'' JNull = Inr ip \<and> str ip = str host) ns"
  by (induction ns arbitrary: es) (auto simp: rbind_Inr)

lemma jitem_jget: "jitem n k = Inr v \<Longrightarrow> jget n k d = Inr v"
  by (cases n) (auto split: option.splits)

lemma resolve_target_spec:
  assumes "resolve_node_target A host team = Inr tgt"
  shows "truthy host \<and> only_node A host tgt"
proof -
  let ?str = "py_str (en_repr (ae_enrich A))"
  from assms have host: "truthy host" by (auto simp: resolve_node_target_def Let_def split: if_splits)
  with assms obtain orgs reply ns nodes exact where
    r: "ae_node_list A (node_query host orgs) = Inr reply"
      "jget (py_or reply (JObj [])) ''nodes'' (JList []) = Inr ns" "py_iter ns = Inr nodes"
      "exact_nodes ?str host nodes = Inr exact" and
    e: "(case exact of
            [n] \<Rightarrow>
              rbind (jitem n ''id'') (\<lambda>i.
              rbind (jget n ''name'' JNull) (\<lambda>name.
              rbind (jitem n ''ip'') (\<lambda>ip.
              rbind (jget n ''operating_system'' JNull) (\<lambda>os.
              rbind (jget n ''cloud_region'' JNull) (\<lambda>region.
                Inr (JObj [(''node_id'', i), (''name'', name), (''ip'', JStr (?str ip)), (''os'', os),
                  (''cloud_region_id'', region)]))))))
          | _ \<Rightarrow> Inl ConfigError) = Inr tgt"
    by (simp add: resolve_node_target_def Let_def rbind_Inr) blast
  from e obtain n i ip name os region where n: "exact = [n]" "jitem n ''id'' = Inr i" "jitem n ''ip'' = Inr ip"
    "tgt = JObj [(''node_id'', i), (''name'', name), (''ip'', JStr (?str ip)), (''os'', os), (''cloud_region_id'', region)]"
    by (auto simp: rbind_Inr split: list.splits)
  have f: "filter (\<lambda>m. \<exists>ip. jget m ''ip'' JNull = Inr ip \<and> ?str ip = ?str host) nodes = [n]"
    using exact_nodes_filter[OF r(4)] n(1) by simp
  then have "n \<in> set (filter (\<lambda>m. \<exists>ip. jget m ''ip'' JNull = Inr ip \<and> ?str ip = ?str host) nodes)" by simp
  then have "?str ip = ?str host" using jitem_jget[OF n(3), of JNull] by auto
  with host r f n show ?thesis unfolding only_node_def Let_def by fastforce
qed

lemma prepare_job_spec:
  assumes "prepare_job A r a = Inr (Some d)"
  shows "\<exists>host tgt. jitem d ''target_list'' = Inr (JList [tgt]) \<and> truthy host \<and> only_node A host tgt \<and>
    (\<exists>q. map_of (build_match_payload a) q = Some host)"
proof -
  from assms obtain key host tgt where k: "resolve_field (build_match_payload a) (JStr key) = Inr host"
    "resolve_node_target A host (ar_team r) = Inr tgt" "jitem d ''target_list'' = Inr (JList [tgt])"
    by (auto simp: prepare_job_def Let_def rbind_Inr split: if_splits)
  from resolve_target_spec[OF k(2)] have "truthy host" "only_node A host tgt" by auto
  with k show ?thesis by (auto simp: resolve_field_def split: option.splits)
qed

section \<open>Properties\<close>

text \<open>C26: whatever tasks are repeated, whoever triggers rules by hand, and whatever callbacks arrive,
  an event of an alert makes a rule run at most one job: there is at most one execution with its
  idempotency key, and at most one request was sent for it.\<close>

theorem action_at_most_once:
  assumes "action_inv s" "action_run s t"
  shows "length (jobs_for (idempotency_key r a ev) t) \<le> 1 \<and>
    (\<forall>x \<in> set (ad_execs t). \<forall>y \<in> set (ad_execs t). ax_idempotency_key x = Some (idempotency_key r a ev) \<longrightarrow>
       ax_idempotency_key y = Some (idempotency_key r a ev) \<longrightarrow> x = y)"
proof -
  have "action_inv t" using action_run_grow[OF assms(2,1)] assms(1) by (simp add: action_grow_def)
  then show ?thesis using at_most_one_job one_row_per_key by blast
qed

definition act_env :: action_env where
  "act_env = \<lparr>ae_enrich = sample_enrich_env,
     ae_get_script = (\<lambda>_. Inr (JObj [(''script_type'', JStr ''shell''), (''content'', JStr ''ls'')])),
     ae_node_list = (\<lambda>_. Inr (JObj [(''nodes'', JList [JObj [(''id'', JStr ''n1''), (''ip'', JStr ''10.0.0.1'')]])])),
     ae_script_execute = (\<lambda>_. Inr (JObj [(''result'', JBool True), (''data'', JObj [(''task_id'', JInt 5)])])),
     ae_self_base_url = [], ae_web_base_url = []\<rparr>"

definition act_rule :: action_rule where
  "act_rule = \<lparr>ar_id = 1, ar_name = ''r'', ar_is_active = True, ar_team = JList [JInt 1], ar_match_rules = JList [],
     ar_trigger_events = JList [JStr ''created''], ar_scope = ''alert'', ar_action_type = ''job'',
     ar_action_config = JObj [(''script_id'', JInt 1)]\<rparr>"

definition act_alert :: alert where
  "act_alert = sample_alert\<lparr>al_labels := JObj [(''ip_addr'', JStr ''10.0.0.1'')]\<rparr>"

definition act_db :: action_db where
  "act_db = \<lparr>ad_db = sample_db\<lparr>db_alerts := [act_alert]\<rparr>, ad_rules = [act_rule], ad_execs = [], ad_jobs = []\<rparr>"

definition act_done :: action_db where
  "act_done = process_alert_actions act_env ''A1'' ''created'' act_db"

lemma act_db_inv: "action_inv act_db"
  by (simp add: act_db_def action_inv_def keyed_def exec_keys_def)

lemma act_alert_found: "find_alert ''A1'' (ad_db act_db) = Some act_alert"
  by (simp add: act_db_def act_alert_def tfind_def sample_alert_def)

theorem action_at_most_once_witness:
  "length (jobs_for (idempotency_key act_rule act_alert ''created'')
     (process_alert_actions act_env ''A1'' ''created'' act_done)) \<le> 1 \<and> length (ad_jobs act_done) = 1"
proof -
  have "action_run act_db (process_alert_actions act_env ''A1'' ''created'' act_done)"
    unfolding act_done_def
    by (rule action_run.onward[OF action_run.onward[OF action_run.stay action_step.processed] action_step.processed])
  moreover have "length (ad_jobs act_done) = 1" by code_simp
  ultimately show ?thesis using action_at_most_once[OF act_db_inv] by blast
qed

text \<open>C27: the task of an alert sends a request to the job application only for an active rule that
  applies to the alert and has not run for this event before, and the job runs on the one node that
  the node application knows under an address taken from the alert.\<close>

theorem automatic_jobs_justified:
  assumes "find_alert aid (ad_db s) = Some a" "py_set (JList (al_team a)) = Inr teams"
  shows "\<exists>js. ad_jobs (process_alert_actions A aid ev s) = ad_jobs s @ js \<and>
    (\<forall>(i, d) \<in> set js. \<exists>r \<in> set (ad_rules s). ar_is_active r \<and> ar_scope r = ''alert'' \<and>
       rule_applies A a teams ev r = Inr True \<and>
       Some (idempotency_key r a ev) \<notin> ax_idempotency_key ` set (ad_execs s) \<and>
       (\<exists>host tgt. jitem d ''target_list'' = Inr (JList [tgt]) \<and> truthy host \<and> only_node A host tgt \<and>
          (\<exists>q. map_of (build_match_payload a) q = Some host)))"
proof -
  let ?rules = "filter (\<lambda>r. ar_is_active r \<and> ar_scope r = ''alert'') (ad_rules s)"
  obtain res t where e: "evaluate_rules A a teams ev ?rules s = (res, t)" by fastforce
  then have t: "process_alert_actions A aid ev s = t"
    using assms by (simp add: process_alert_actions_def evaluate_def)
  from evaluate_rules_effect[OF e] obtain js where "ad_jobs t = ad_jobs s @ js"
    "\<forall>(i, d) \<in> set js. justified A a teams ev ?rules s d" by blast
  with prepare_job_spec t show ?thesis unfolding justified_def by fastforce
qed

theorem automatic_jobs_witness:
  "\<exists>js. ad_jobs act_done = ad_jobs act_db @ js \<and> js \<noteq> [] \<and>
    (\<forall>(i, d) \<in> set js. \<exists>host tgt. jitem d ''target_list'' = Inr (JList [tgt]) \<and> only_node act_env host tgt)"
proof -
  have "py_set (JList (al_team act_alert)) = Inr [JInt 1]" by code_simp
  from automatic_jobs_justified[OF act_alert_found this, of act_env "''created''"]
  obtain js where js: "ad_jobs act_done = ad_jobs act_db @ js"
    "\<forall>(i, d) \<in> set js. \<exists>host tgt. jitem d ''target_list'' = Inr (JList [tgt]) \<and> only_node act_env host tgt"
    unfolding act_done_def by fastforce
  moreover have "length (ad_jobs act_done) = 1" by code_simp
  ultimately show ?thesis by (auto simp: act_db_def)
qed

text \<open>C28: a callback that changes anything carries a signature of its own data with a timestamp at most
  300 seconds away, and changes status and result of one execution only: the latest one with the
  reported task; the status says success exactly when the job reports it.\<close>

theorem callback_authentic:
  assumes "action_callback hmac now ts sig data s = (ans, t)" "t \<noteq> s"
  shows "\<exists>n kvs x st rs. ts \<noteq> None \<and> parse_int (the ts) = Inr n \<and> \<bar>now - n\<bar> \<le> 300 \<and> sig = Some (hmac n (canon data)) \<and>
    data = JObj kvs \<and> x \<in> set (ad_execs s) \<and> task_column (rule_get kvs ''task_id'' JNull) = Inr (ax_job_task_id x) \<and>
    (\<forall>y \<in> set (ad_execs s). ax_job_task_id y = ax_job_task_id x \<longrightarrow> ax_id y \<le> ax_id x) \<and>
    t = save_exec (x\<lparr>ax_status := st, ax_result := rs\<rparr>) s \<and> st \<in> {X_SUCCESS, X_FAILED} \<and>
    (st = X_SUCCESS \<longleftrightarrow> rule_get kvs ''status'' JNull = JStr ''success'')"
proof -
  from callback_shape[OF assms(1)] assms(2) obtain kvs x st rs where
    v: "verify_job_signature hmac now ts sig data" and d: "data = JObj kvs"
      "exec_of_task (rule_get kvs ''task_id'' JNull) s = Inr (Some x)"
      "st = (if rule_get kvs ''status'' JNull = JStr ''success'' then X_SUCCESS else X_FAILED)"
      "t = save_exec (x\<lparr>ax_status := st, ax_result := rs\<rparr>) s" by blast
  from v d(1) obtain n where "ts \<noteq> None" "parse_int (the ts) = Inr n" "\<bar>now - n\<bar> \<le> 300" "sig = Some (hmac n (canon data))"
    by (auto simp: verify_job_signature_def verify_callback_signature_def sign_callback_def
        split: option.splits if_splits sum.splits)
  with exec_of_task_row[OF d(2)] d show ?thesis
    by (intro exI[of _ n] exI[of _ kvs] exI[of _ x] exI[of _ st] exI[of _ rs]) auto
qed

definition act_hmac :: "int \<Rightarrow> json \<Rightarrow> string" where
  "act_hmac ts d = ''sig''"

definition act_report :: json where
  "act_report = JObj [(''task_id'', JInt 5), (''status'', JStr ''success'')]"

theorem callback_authentic_witness:
  "\<exists>x \<in> set (ad_execs act_done). ax_job_task_id x = Some 5 \<and>
     map ax_status (ad_execs (snd (action_callback act_hmac 1000 (Some ''900'') (Some ''sig'') act_report act_done))) = [X_SUCCESS]"
proof -
  obtain ans t where c: "action_callback act_hmac 1000 (Some ''900'') (Some ''sig'') act_report act_done = (ans, t)" by fastforce
  have st: "map ax_status (ad_execs (snd (action_callback act_hmac 1000 (Some ''900'') (Some ''sig'') act_report act_done))) = [X_SUCCESS]"
    by code_simp
  have "map ax_status (ad_execs act_done) = [X_RUNNING]" by code_simp
  with st c have "t \<noteq> act_done" by auto
  from callback_authentic[OF c this] obtain kvs x where "act_report = JObj kvs" "x \<in> set (ad_execs act_done)"
    "task_column (rule_get kvs ''task_id'' JNull) = Inr (ax_job_task_id x)" by blast
  with st show ?thesis by (auto simp: act_report_def rule_get_def task_column_def intro!: bexI[of _ x])
qed

text \<open>The headers of the job application (\<open>get_signed_headers\<close>).\<close>

definition get_signed_headers :: "(int \<Rightarrow> json \<Rightarrow> string) \<Rightarrow> int \<Rightarrow> json \<Rightarrow> string option \<times> string option" where
  "get_signed_headers hmac now payload = (Some (str_int now), Some (sign_callback hmac payload now))"

text \<open>Headers signed by the job application are accepted for five minutes, also when the document
  arrives with its keys in another order.\<close>

theorem signed_callback_accepted:
  assumes "get_signed_headers hmac now payload = (ts, sig)" "0 \<le> now" "now \<le> later" "later \<le> now + 300"
    "is_dict data" "canon data = canon payload" "hmac now (canon payload) \<noteq> []"
  shows "verify_job_signature hmac later ts sig data"
proof -
  have "str_int now \<noteq> []" using assms(2) by (simp add: str_int_def)
  with assms parse_int_str[OF assms(2)] show ?thesis
    by (auto simp: get_signed_headers_def verify_job_signature_def verify_callback_signature_def sign_callback_def)
qed

theorem signed_callback_witness:
  "verify_job_signature act_hmac 1200 (Some ''1000'') (Some ''sig'')
     (JObj [(''status'', JStr ''success''), (''task_id'', JInt 5)])"
proof -
  have h: "get_signed_headers act_hmac 1000 act_report = (Some ''1000'', Some ''sig'')" by code_simp
  have c: "canon (JObj [(''status'', JStr ''success''), (''task_id'', JInt 5)]) = canon act_report"
    by (simp add: act_report_def)
  show ?thesis using signed_callback_accepted[OF h _ _ _ _ c, of 1200] by (simp add: act_hmac_def)
qed

text \<open>A rule whose evaluation raises ends the task: the rules behind it are not evaluated.\<close>

lemma broken_rule_blocks:
  "rule_applies A a teams ev r = Inl e \<Longrightarrow> evaluate_rules A a teams ev (r # rs) s = (Inl e, s)"
  by simp

text \<open>A signed callback without a task id reaches the latest execution that never started a job.\<close>

lemma callback_without_task:
  "map ax_status (ad_execs (snd (action_callback act_hmac 1000 (Some ''900'') (Some ''sig'')
     (JObj [(''status'', JStr ''success'')])
     (act_db\<lparr>ad_execs := [(new_execution act_rule act_alert ''created'' ''auto'' None None act_db)\<lparr>ax_status := X_CONFIG_ERROR\<rparr>]\<rparr>)))) = [X_SUCCESS]"
  by code_simp

text \<open>A field path of a rule, a parameter binding or a target binding reads the nested value of the
  labels or of the enrichment of the alert, and nothing where the path does not exist.\<close>

theorem payload_paths:
  assumes "plain_json (py_or (al_labels a) (JObj []))" "plain_json (JObj (al_enrichment a))" "ks \<noteq> []" "list_all dotless ks"
  shows "resolve_field (build_match_payload a) (JStr (path_string ''labels'' ks)) =
      Inr (case json_at (py_or (al_labels a) (JObj [])) ks of Some v \<Rightarrow> v | None \<Rightarrow> JNull) \<and>
    resolve_field (build_match_payload a) (JStr (path_string ''enrichment'' ks)) =
      Inr (case json_at (JObj (al_enrichment a)) ks of Some v \<Rightarrow> v | None \<Rightarrow> JNull)"
proof -
  obtain k ks' where ks: "ks = k # ks'" using assms(3) by (cases ks) auto
  with assms(4) have d: "list_all dotless (k # ks')" by simp
  have p: "path_string ''labels'' ks = ''labels'' @ dot_parts (k # ks')"
    "path_string ''enrichment'' ks = ''enrichment'' @ dot_parts (k # ks')" unfolding ks by (rule path_dots, simp)+
  have "map_of (build_match_payload a) (path_string ''labels'' ks) = json_at (py_or (al_labels a) (JObj [])) ks"
    unfolding p unfolding ks by (rule payload_labels[OF assms(1,2) d])
  moreover have "map_of (build_match_payload a) (path_string ''enrichment'' ks) = json_at (JObj (al_enrichment a)) ks"
    unfolding p unfolding ks by (rule payload_enrichment[OF assms(1,2) d])
  ultimately show ?thesis by (simp only: resolve_field_def json.case)
qed

theorem payload_paths_witness:
  "resolve_field (build_match_payload act_alert) (JStr ''labels.ip_addr'') = Inr (JStr ''10.0.0.1'')"
proof -
  have "plain_json (py_or (al_labels act_alert) (JObj []))" "plain_json (JObj (al_enrichment act_alert))"
    by (simp_all add: act_alert_def sample_alert_def py_or_def dotless_def)
  from payload_paths[OF this, of "[''ip_addr'']"] show ?thesis
    by (simp add: dotless_def join_path_def) (simp add: act_alert_def py_or_def)
qed

end
