(* ===== verification/Source_Secrets.thy ===== *)
theory Source_Secrets
  imports Enrichment
begin

text \<open>
  The sources that push events and their secrets (\<open>models/alert_source.py\<close>, \<open>utils/util.py\<close>, the
  requests on team secrets of \<open>views/alert_source.py\<close>), and the first half of the source adapter
  (\<open>common/source_adapter/base.py\<close>): its construction and the authentication, which also decides to
  which team the events of a request belong.

  A team secret is an encrypted document with the secret of the source and the id of the team.
  Parameters: Fernet (a token may be different each time), \<open>json.dumps\<close> and \<open>json.loads\<close>, and the
  text of a container; \<open>tokens_ok\<close> is what the code relies on.
\<close>

section \<open>Sources and secrets\<close>

record alert_source =
  so_pk :: nat
  so_source_id :: string
  so_source_type :: string
  so_name :: string
  so_secret :: string
  so_team_secrets :: "(string \<times> string) list"
  so_mapping :: "(string \<times> string) list"
  so_is_active :: bool
  so_is_effective :: bool
  so_is_delete :: bool

record secret_env =
  se_encrypt :: "nat \<Rightarrow> string \<Rightarrow> string"
  se_decrypt :: "string \<Rightarrow> string option"
  se_dumps :: "json \<Rightarrow> string"
  se_loads :: "string \<Rightarrow> json option"
  se_repr :: "json \<Rightarrow> string"

definition build_team_secret_payload :: "secret_env \<Rightarrow> string \<Rightarrow> string \<Rightarrow> string" where
  "build_team_secret_payload E source_secret team_id =
     se_dumps E (JObj [(''source_secret'', JStr source_secret), (''team_id'', JStr team_id)])"

definition encode_team_secret :: "secret_env \<Rightarrow> nat \<Rightarrow> string \<Rightarrow> string \<Rightarrow> string" where
  "encode_team_secret E n source_secret team_id =
     se_encrypt E n (build_team_secret_payload E source_secret team_id)"

text \<open>The secret of the source and the id of the team in a token; \<open>None\<close> for anything else.\<close>

definition decode_team_secret :: "secret_env \<Rightarrow> string \<Rightarrow> (string \<times> string) option res" where
  "decode_team_secret E token =
     (if token = [] then Inr None
      else case se_decrypt E token of
        None \<Rightarrow> Inr None
      | Some text \<Rightarrow>
          (case se_loads E text of
             None \<Rightarrow> Inr None
           | Some data \<Rightarrow>
               rbind (jget data ''source_secret'' JNull) (\<lambda>s.
               rbind (jget data ''team_id'' JNull) (\<lambda>t.
                 Inr (if \<not> truthy s \<or> none_or_empty t then None
                      else Some (py_str (se_repr E) s, py_str (se_repr E) t))))))"

text \<open>\<open>int(team_id)\<close>, or the text itself.\<close>

definition team_value :: "string \<Rightarrow> json" where
  "team_value t = (case parse_int t of Inr i \<Rightarrow> JInt i | Inl _ \<Rightarrow> JStr t)"

fun resolve_loop :: "secret_env \<Rightarrow> string \<Rightarrow> json \<Rightarrow> (string \<times> string) list \<Rightarrow> json list res" where
  "resolve_loop E source_secret secret [] = Inr []"
| "resolve_loop E source_secret secret ((team_id, team_secret) # rest) =
     (if JStr team_secret \<noteq> secret then resolve_loop E source_secret secret rest
      else case decode_team_secret E team_secret of
        Inl e \<Rightarrow> Inl e
      | Inr None \<Rightarrow> resolve_loop E source_secret secret rest
      | Inr (Some (s, t)) \<Rightarrow>
          if s \<noteq> source_secret then resolve_loop E source_secret secret rest
          else if t \<noteq> team_id then resolve_loop E source_secret secret rest
          else Inr [team_value t])"

definition resolve_team_from_secret :: "secret_env \<Rightarrow> alert_source \<Rightarrow> json \<Rightarrow> json list res" where
  "resolve_team_from_secret E src secret =
     (if \<not> truthy secret then Inr [] else resolve_loop E (so_secret src) secret (so_team_secrets src))"

section \<open>The adapter\<close>

record adapter =
  ap_source :: alert_source
  ap_secret :: json
  ap_trusted :: bool
  ap_info_level :: string
  ap_levels :: "string list"
  ap_team :: "json list"

text \<open>The ids of the event levels: the greatest one stands for information.\<close>

definition get_event_level :: "int list \<Rightarrow> (string \<times> string list) res" where
  "get_event_level levels =
     (if levels = [] then Inl ValueError else Inr (str_int (last (sort levels)), map str_int (sort levels)))"

definition new_adapter :: "secret_env \<Rightarrow> int list \<Rightarrow> alert_source \<Rightarrow> json \<Rightarrow> bool \<Rightarrow> adapter res" where
  "new_adapter E levels src secret trusted =
     rbind (get_event_level levels) (\<lambda>(info, ls).
     rbind (resolve_team_from_secret E src secret) (\<lambda>team.
       Inr \<lparr>ap_source = src, ap_secret = secret, ap_trusted = trusted, ap_info_level = info,
            ap_levels = ls, ap_team = team\<rparr>))"

definition SNMP_TRAP_SOURCE_ID :: string where
  "SNMP_TRAP_SOURCE_ID = ''snmp_trap''"

definition DEFAULT_GROUP_ID :: int where
  "DEFAULT_GROUP_ID = 1"

text \<open>\<open>self.secret in self.team_secrets\<close> looks the value up in a set.\<close>

definition authenticate :: "adapter \<Rightarrow> adapter res" where
  "authenticate a =
     (let src = ap_source a; secret = ap_secret a in
      if \<not> hashable secret then Inl TypeError
      else if secret \<in> (JStr \<circ> snd) ` set (so_team_secrets src) then
        (if ap_team a = [] then Inl AuthenticationSourceError else Inr a)
      else if so_source_id src = SNMP_TRAP_SOURCE_ID \<and> truthy secret \<and> secret = JStr (so_secret src) then
        Inr (a\<lparr>ap_team := [JInt DEFAULT_GROUP_ID]\<rparr>)
      else Inl AuthenticationSourceError)"

section \<open>Requests on team secrets\<close>

datatype secret_answer = SA_BadRequest | SA_NotFound | SA_Secret string string | SA_Removed string

text \<open>\<open>team_id\<close> is the value of the request, \<open>JNull\<close> when it is absent.\<close>

definition add_team_secret :: "secret_env \<Rightarrow> nat \<Rightarrow> json \<Rightarrow> alert_source \<Rightarrow> secret_answer \<times> alert_source" where
  "add_team_secret E n team_id src =
     (if so_source_id src = SNMP_TRAP_SOURCE_ID then (SA_BadRequest, src)
      else if team_id = JNull then (SA_BadRequest, src)
      else
        let tid = py_str (se_repr E) team_id in
        if tid \<in> fst ` set (so_team_secrets src) then (SA_BadRequest, src)
        else
          let sec = encode_team_secret E n (so_secret src) tid in
          (SA_Secret tid sec, src\<lparr>so_team_secrets := tsave fst (tid, sec) (so_team_secrets src)\<rparr>))"

definition regenerate_team_secret :: "secret_env \<Rightarrow> nat \<Rightarrow> json \<Rightarrow> alert_source \<Rightarrow> secret_answer \<times> alert_source" where
  "regenerate_team_secret E n team_id src =
     (if so_source_id src = SNMP_TRAP_SOURCE_ID then (SA_BadRequest, src)
      else if team_id = JNull then (SA_BadRequest, src)
      else
        let tid = py_str (se_repr E) team_id in
        if tid \<notin> fst ` set (so_team_secrets src) then (SA_NotFound, src)
        else
          let sec = encode_team_secret E n (so_secret src) tid in
          (SA_Secret tid sec, src\<lparr>so_team_secrets := tsave fst (tid, sec) (so_team_secrets src)\<rparr>))"

definition remove_team_secret :: "secret_env \<Rightarrow> json \<Rightarrow> alert_source \<Rightarrow> secret_answer \<times> alert_source" where
  "remove_team_secret E team_id src =
     (if team_id = JNull then (SA_BadRequest, src)
      else
        let tid = py_str (se_repr E) team_id in
        if tid \<notin> fst ` set (so_team_secrets src) then (SA_NotFound, src)
        else (SA_Removed tid, src\<lparr>so_team_secrets := filter (\<lambda>(t, _). t \<noteq> tid) (so_team_secrets src)\<rparr>))"

section \<open>Whom a secret stands for\<close>

text \<open>What the code relies on: a token is not empty and decrypts to what was encrypted, and a document
  is read back from its text.\<close>

definition tokens_ok :: "secret_env \<Rightarrow> bool" where
  "tokens_ok E \<longleftrightarrow>
     (\<forall>n x. se_encrypt E n x \<noteq> [] \<and> se_decrypt E (se_encrypt E n x) = Some x) \<and>
     (\<forall>s t. se_loads E (se_dumps E (JObj [(''source_secret'', JStr s), (''team_id'', JStr t)])) =
        Some (JObj [(''source_secret'', JStr s), (''team_id'', JStr t)]))"

lemma decode_encode:
  "tokens_ok E \<Longrightarrow> s \<noteq> [] \<Longrightarrow>
   decode_team_secret E (encode_team_secret E n s t) = Inr (if t = [] then None else Some (s, t))"
  by (simp add: tokens_ok_def decode_team_secret_def encode_team_secret_def build_team_secret_payload_def none_or_empty_def)

text \<open>Every secret names the source and its own team. A secret for the empty id is never accepted.\<close>

definition names_team :: "secret_env \<Rightarrow> string \<Rightarrow> string \<times> string \<Rightarrow> bool" where
  "names_team E s p \<longleftrightarrow> snd p \<noteq> [] \<and>
     decode_team_secret E (snd p) = Inr (if fst p = [] then None else Some (s, fst p))"

definition secrets_ok :: "secret_env \<Rightarrow> alert_source \<Rightarrow> bool" where
  "secrets_ok E src \<longleftrightarrow> so_secret src \<noteq> [] \<and> keyed fst (so_team_secrets src) \<and>
     (\<forall>p \<in> set (so_team_secrets src). names_team E (so_secret src) p)"

text \<open>A team comes from an entry whose token names the source and the team.\<close>

lemma resolve_loop_sound:
  "resolve_loop E s secret xs = Inr (v # vs) \<Longrightarrow>
   \<exists>tid sec. (tid, sec) \<in> set xs \<and> secret = JStr sec \<and> decode_team_secret E sec = Inr (Some (s, tid)) \<and>
     v # vs = [team_value tid]"
  by (induction xs) (auto split: if_splits sum.splits option.splits)

lemma resolve_sound:
  "resolve_team_from_secret E src secret = Inr team \<Longrightarrow> team \<noteq> [] \<Longrightarrow>
   \<exists>tid sec. (tid, sec) \<in> set (so_team_secrets src) \<and> secret = JStr sec \<and>
     decode_team_secret E sec = Inr (Some (so_secret src, tid)) \<and> team = [team_value tid]"
  by (cases team) (auto simp: resolve_team_from_secret_def dest: resolve_loop_sound split: if_splits)

lemma resolve_loop_found:
  "\<forall>p \<in> set xs. names_team E s p \<Longrightarrow> (t, x) \<in> set xs \<Longrightarrow> t \<noteq> [] \<Longrightarrow> resolve_loop E s (JStr x) xs = Inr [team_value t]"
proof (induction xs)
  case (Cons p xs)
  obtain u sec where p: "p = (u, sec)" by fastforce
  have d: "decode_team_secret E x = Inr (Some (s, t))"
    using Cons.prems by (auto simp: names_team_def)
  have u: "decode_team_secret E sec = Inr (if u = [] then None else Some (s, u))"
    using Cons.prems(1) p by (simp add: names_team_def)
  show ?case
  proof (cases "sec = x")
    case True
    with d u have "u = t" by (auto split: if_splits)
    with True d p show ?thesis by simp
  next
    case False
    then have "(t, x) \<in> set xs" using Cons.prems(2) p by simp
    with Cons False p show ?thesis by simp
  qed
qed simp

lemma resolve_loop_absent:
  "\<forall>p \<in> set xs. names_team E s p \<Longrightarrow> \<forall>t. (t, x) \<in> set xs \<longrightarrow> t = [] \<Longrightarrow> resolve_loop E s (JStr x) xs = Inr []"
  by (induction xs) (auto simp: names_team_def)

lemma resolve_registered:
  assumes "secrets_ok E src" "(t, x) \<in> set (so_team_secrets src)" "t \<noteq> []"
  shows "resolve_team_from_secret E src (JStr x) = Inr [team_value t]"
proof -
  from assms have "\<forall>p \<in> set (so_team_secrets src). names_team E (so_secret src) p" "x \<noteq> []"
    by (auto simp: secrets_ok_def names_team_def)
  with resolve_loop_found[OF this(1) assms(2,3)] show ?thesis by (simp add: resolve_team_from_secret_def)
qed

lemma resolve_unregistered:
  assumes "secrets_ok E src" "\<forall>t. (t, x) \<in> set (so_team_secrets src) \<longrightarrow> t = []"
  shows "resolve_team_from_secret E src (JStr x) = Inr []"
  using assms resolve_loop_absent[of "so_team_secrets src" E "so_secret src" x]
  by (simp add: resolve_team_from_secret_def secrets_ok_def)

section \<open>The life of a secret\<close>

lemma tsave_keyed_in:
  "keyed fst xs \<Longrightarrow> p \<in> set (tsave fst (k, v) xs) \<Longrightarrow> p = (k, v) \<or> p \<in> set xs \<and> fst p \<noteq> k"
  by (auto simp: tsave_def split: if_splits)

inductive secret_step :: "secret_env \<Rightarrow> secret_answer \<Rightarrow> alert_source \<Rightarrow> alert_source \<Rightarrow> bool" for E where
  added: "add_team_secret E n t src = (r, src') \<Longrightarrow> secret_step E r src src'"
| regenerated: "regenerate_team_secret E n t src = (r, src') \<Longrightarrow> secret_step E r src src'"
| removed: "remove_team_secret E t src = (r, src') \<Longrightarrow> secret_step E r src src'"

text \<open>A sequence of requests, with their answers in order.\<close>

inductive secret_run :: "secret_env \<Rightarrow> alert_source \<Rightarrow> secret_answer list \<Rightarrow> alert_source \<Rightarrow> bool" for E src0 where
  start: "secret_run E src0 [] src0"
| more: "secret_run E src0 rs src \<Longrightarrow> secret_step E r src src' \<Longrightarrow> secret_run E src0 (rs @ [r]) src'"

text \<open>What the holder of the answers knows: the secret each team was given last.\<close>

fun hand_out :: "secret_answer \<Rightarrow> (string \<rightharpoonup> string) \<Rightarrow> (string \<rightharpoonup> string)" where
  "hand_out (SA_Secret t s) m = m(t \<mapsto> s)"
| "hand_out (SA_Removed t) m = m(t := None)"
| "hand_out r m = m"

lemma map_of_drop: "map_of (filter (\<lambda>(t, _). t \<noteq> k) xs) = (map_of xs)(k := None)"
  by (induction xs) auto

lemma secret_step_hand_out:
  "secret_step E r src src' \<Longrightarrow> map_of (so_team_secrets src') = hand_out r (map_of (so_team_secrets src))"
  by (cases rule: secret_step.cases, assumption)
    (auto simp: add_team_secret_def regenerate_team_secret_def remove_team_secret_def map_of_tsave map_of_drop Let_def fun_eq_iff
      split: if_splits)

lemma secrets_ok_save:
  assumes "tokens_ok E" "secrets_ok E src"
  shows "secrets_ok E (src\<lparr>so_team_secrets := tsave fst (t, encode_team_secret E n (so_secret src) t) (so_team_secrets src)\<rparr>)"
proof -
  let ?p = "(t, encode_team_secret E n (so_secret src) t)"
  have "names_team E (so_secret src) ?p"
    using assms decode_encode[OF assms(1), of "so_secret src" n t]
    by (simp add: names_team_def secrets_ok_def tokens_ok_def encode_team_secret_def)
  moreover have "keyed fst (so_team_secrets src)" using assms(2) by (simp add: secrets_ok_def)
  ultimately show ?thesis
    using assms(2) tsave_keyed_in[of "so_team_secrets src" _ t] keyed_tsave[of fst "so_team_secrets src"]
    by (simp add: secrets_ok_def) blast
qed

lemma secret_step_ok:
  assumes "secret_step E r src src'" "tokens_ok E" "secrets_ok E src"
  shows "secrets_ok E src' \<and> so_secret src' = so_secret src \<and> so_source_id src' = so_source_id src"
  using assms(1)
proof cases
  case (added n t)
  with secrets_ok_save[OF assms(2,3)] assms(3) show ?thesis
    by (auto simp: add_team_secret_def Let_def split: if_splits)
next
  case (regenerated n t)
  with secrets_ok_save[OF assms(2,3)] assms(3) show ?thesis
    by (auto simp: regenerate_team_secret_def Let_def split: if_splits)
next
  case (removed t)
  with assms(3) show ?thesis
    by (auto simp: remove_team_secret_def secrets_ok_def keyed_filter Let_def split: if_splits)
qed

lemma secret_run_ok:
  assumes "secret_run E src rs src'" "tokens_ok E" "secrets_ok E src"
  shows "secrets_ok E src' \<and> so_secret src' = so_secret src \<and> so_source_id src' = so_source_id src \<and>
    map_of (so_team_secrets src') = fold hand_out rs (map_of (so_team_secrets src))"
  using assms by (induction rule: secret_run.induct) (auto dest: secret_step_ok secret_step_hand_out)

text \<open>The team of the events of a request with this secret.\<close>

definition accepted_team :: "secret_env \<Rightarrow> int list \<Rightarrow> alert_source \<Rightarrow> json \<Rightarrow> json list res" where
  "accepted_team E levels src secret = map_sum id ap_team (rbind (new_adapter E levels src secret False) authenticate)"

lemma new_adapter_levels:
  "levels \<noteq> [] \<Longrightarrow> new_adapter E levels src secret trusted =
     map_sum id (\<lambda>team. \<lparr>ap_source = src, ap_secret = secret, ap_trusted = trusted, ap_info_level = str_int (last (sort levels)),
       ap_levels = map str_int (sort levels), ap_team = team\<rparr>) (resolve_team_from_secret E src secret)"
  by (cases "resolve_team_from_secret E src secret") (simp_all add: new_adapter_def get_event_level_def)

lemma accepted_eq:
  assumes "levels \<noteq> []" "resolve_team_from_secret E src (JStr x) = Inr team" "so_source_id src \<noteq> SNMP_TRAP_SOURCE_ID"
  shows "accepted_team E levels src (JStr x) =
    (if x \<in> snd ` set (so_team_secrets src) \<and> team \<noteq> [] then Inr team else Inl AuthenticationSourceError)"
proof -
  have "JStr x \<in> (JStr \<circ> snd) ` set (so_team_secrets src) \<longleftrightarrow> x \<in> snd ` set (so_team_secrets src)" by auto
  with assms show ?thesis by (simp add: accepted_team_def new_adapter_levels authenticate_def Let_def)
qed

text \<open>C29: whatever secrets are added, regenerated and removed, a text is accepted exactly when it is the
  secret that a team of the source was given last, and then the events belong to that team: a new
  secret works at once, and a replaced or removed one does not work any more.\<close>

theorem secret_lifecycle:
  assumes "tokens_ok E" "secrets_ok E src0" "secret_run E src0 rs src" "levels \<noteq> []"
    "so_source_id src0 \<noteq> SNMP_TRAP_SOURCE_ID"
  shows "accepted_team E levels src (JStr x) = Inr team \<longleftrightarrow>
    (\<exists>t. t \<noteq> [] \<and> fold hand_out rs (map_of (so_team_secrets src0)) t = Some x \<and> team = [team_value t])"
proof -
  from secret_run_ok[OF assms(3,1,2)] assms(5) have ok: "secrets_ok E src" "so_source_id src \<noteq> SNMP_TRAP_SOURCE_ID"
    and given: "fold hand_out rs (map_of (so_team_secrets src0)) = map_of (so_team_secrets src)" by auto
  have m: "map_of (so_team_secrets src) t = Some x \<longleftrightarrow> (t, x) \<in> set (so_team_secrets src)" for t
    using ok(1) by (intro map_of_eq_Some_iff) (auto simp: secrets_ok_def keyed_def)
  show ?thesis
  proof (cases "\<exists>t. (t, x) \<in> set (so_team_secrets src) \<and> t \<noteq> []")
    case True
    then obtain t where t: "(t, x) \<in> set (so_team_secrets src)" "t \<noteq> []" by blast
    then have "x \<in> snd ` set (so_team_secrets src)" by force
    with accepted_eq[OF assms(4) resolve_registered[OF ok(1) t] ok(2)]
    have e: "accepted_team E levels src (JStr x) = Inr [team_value t]" by simp
    have u: "team_value u = team_value t" if "(u, x) \<in> set (so_team_secrets src)" "u \<noteq> []" for u
      using resolve_registered[OF ok(1) that] resolve_registered[OF ok(1) t] by simp
    have "accepted_team E levels src (JStr x) = Inr team \<longleftrightarrow> team = [team_value t]" unfolding e by auto
    also have "\<dots> \<longleftrightarrow> (\<exists>u. u \<noteq> [] \<and> (u, x) \<in> set (so_team_secrets src) \<and> team = [team_value u])"
      using t u by metis
    finally show ?thesis unfolding given m .
  next
    case False
    then have "resolve_team_from_secret E src (JStr x) = Inr []" by (intro resolve_unregistered[OF ok(1)]) blast
    from accepted_eq[OF assms(4) this ok(2)] have "accepted_team E levels src (JStr x) \<noteq> Inr team" by simp
    with False show ?thesis unfolding given m by blast
  qed
qed

text \<open>A transparent encryption for concrete evaluation: the length of the first text in unary, then
  both texts.\<close>

definition toy_dumps :: "json \<Rightarrow> string" where
  "toy_dumps j =
     (case j of
        JObj [(_, JStr s), (_, JStr t)] \<Rightarrow> replicate (length s) (CHR ''a'') @ CHR ''b'' # s @ t
      | _ \<Rightarrow> [])"

definition toy_loads :: "string \<Rightarrow> json option" where
  "toy_loads x =
     (let n = length (takeWhile (\<lambda>c. c = CHR ''a'') x); r = drop (n + 1) x
      in Some (JObj [(''source_secret'', JStr (take n r)), (''team_id'', JStr (drop n r))]))"

definition toy_tokens :: secret_env where
  "toy_tokens = \<lparr>se_encrypt = (\<lambda>n s. ''k'' @ s), se_decrypt = (\<lambda>t. if t = [] then None else Some (tl t)),
     se_dumps = toy_dumps, se_loads = toy_loads, se_repr = (\<lambda>_. ''[]'')\<rparr>"

lemma toy_tokens_ok: "tokens_ok toy_tokens"
  by (simp add: tokens_ok_def toy_tokens_def toy_dumps_def toy_loads_def takeWhile_append)

definition toy_source :: alert_source where
  "toy_source = \<lparr>so_pk = 1, so_source_id = ''restful'', so_source_type = ''restful'', so_name = ''restful'',
     so_secret = ''s'', so_team_secrets = [],
     so_mapping = map (\<lambda>k. (k, k)) [''title'', ''level'', ''item'', ''start_time'', ''labels'', ''external_id'', ''action''],
     so_is_active = True, so_is_effective = True, so_is_delete = False\<rparr>"

definition toy_registered :: alert_source where
  "toy_registered = snd (add_team_secret toy_tokens 0 (JInt 7) toy_source)"

theorem secret_lifecycle_witness:
  "accepted_team toy_tokens [1] toy_registered (JStr ''kabs7'') = Inr [JInt 7]"
proof -
  have ok: "secrets_ok toy_tokens toy_source" by (simp add: secrets_ok_def toy_source_def keyed_def)
  let ?r = "fst (add_team_secret toy_tokens 0 (JInt 7) toy_source)"
  have r: "?r = SA_Secret ''7'' ''kabs7''" by code_simp
  have "secret_step toy_tokens ?r toy_source toy_registered"
    unfolding toy_registered_def by (rule secret_step.added) (rule surjective_pairing)
  from secret_run.more[OF secret_run.start this, unfolded r]
  have "secret_run toy_tokens toy_source [SA_Secret ''7'' ''kabs7''] toy_registered" by simp
  moreover have "so_source_id toy_source \<noteq> SNMP_TRAP_SOURCE_ID" by code_simp
  ultimately have "accepted_team toy_tokens [1] toy_registered (JStr ''kabs7'') = Inr [JInt 7] \<longleftrightarrow>
    (\<exists>t. t \<noteq> [] \<and> fold hand_out [SA_Secret ''7'' ''kabs7''] (map_of (so_team_secrets toy_source)) t = Some ''kabs7'' \<and>
      [JInt 7] = [team_value t])"
    by (intro secret_lifecycle[OF toy_tokens_ok ok]) simp_all
  moreover have "[JInt 7] = [team_value ''7'']" by code_simp
  ultimately show ?thesis by (auto simp: exI[of _ "''7''"])
qed

text \<open>When the secret of the source changes, every team secret issued before is refused until it is
  regenerated.\<close>

lemma rotation_revokes:
  assumes "secrets_ok E src" "levels \<noteq> []" "s \<noteq> so_secret src" "so_source_id src \<noteq> SNMP_TRAP_SOURCE_ID"
  shows "accepted_team E levels (src\<lparr>so_secret := s\<rparr>) (JStr x) = Inl AuthenticationSourceError"
proof -
  have "resolve_loop E s (JStr x) xs = Inr []" if "\<forall>p \<in> set xs. names_team E (so_secret src) p" for xs
    using that assms(3) by (induction xs) (auto simp: names_team_def split: if_splits)
  with assms(1) have "resolve_team_from_secret E (src\<lparr>so_secret := s\<rparr>) (JStr x) = Inr []"
    by (simp add: secrets_ok_def resolve_team_from_secret_def)
  from accepted_eq[OF assms(2) this] assms(4) show ?thesis by simp
qed

end
