(* ===== verification/Source_Payloads.thy ===== *)
theory Source_Payloads
  imports Enrichment
begin

text \<open>
  The payloads of the sources that push events (\<open>common/source_adapter/\<close>): the common form, the
  webhook of Zabbix (\<open>zabbix.py\<close>) and the one of the Alertmanager (\<open>prometheus.py\<close>) are turned into
  a list of events in the common form. An exception is a \<open>ValueError\<close> where the code raises one, and
  the error of the built-in operation where the payload has another shape than expected.

  Parameters: the text of a container, and the parser of ISO timestamps: the seconds since the
  epoch, \<open>None\<close> for a text that is no timestamp, and a \<open>ValueError\<close> for an impossible date.
\<close>

record payload_env =
  pe_repr :: "json \<Rightarrow> string"
  pe_seconds :: "string \<Rightarrow> int option res"

section \<open>The common form\<close>

abbreviation pget :: "(string \<times> json) list \<Rightarrow> string \<Rightarrow> json" where
  "pget p k \<equiv> rule_get p k JNull"

text \<open>\<open>d.get(a) or d.get(b) or ...\<close>: the first value that is not empty, or the last one.\<close>

fun first_of :: "json list \<Rightarrow> json" where
  "first_of [] = JNull"
| "first_of [v] = v"
| "first_of (v # w # vs) = (if truthy v then v else first_of (w # vs))"

definition event_list :: "(string \<times> json) list \<Rightarrow> json list" where
  "event_list p = (case rule_get p ''events'' (JList []) of JList xs \<Rightarrow> xs | _ \<Rightarrow> [])"

definition base_normalize :: "(string \<times> json) list \<Rightarrow> json list res" where
  "base_normalize p = (if event_list p = [] then Inl ValueError else Inr (event_list p))"

section \<open>Zabbix\<close>

definition zabbix_action :: "string \<Rightarrow> json" where
  "zabbix_action event_value = JStr (if event_value = ''0'' then ''recovery'' else ''created'')"

text \<open>The event has an external id, or gets the id of the problem.\<close>

definition zabbix_problem :: "payload_env \<Rightarrow> (string \<times> json) list \<Rightarrow> (string \<times> json) list res" where
  "zabbix_problem P ev =
     (if truthy (pget ev ''external_id'') then Inr ev
      else
        rbind (if truthy (first_of [pget ev ''problem_id'', pget ev ''problemId''])
               then Inr (first_of [pget ev ''problem_id'', pget ev ''problemId''])
               else jget (rule_get ev ''labels'' (JObj [])) ''problem_id'' JNull) (\<lambda>problem.
          if \<not> truthy problem then Inl ValueError
          else Inr (tsave fst (''external_id'', JStr (py_str (pe_repr P) problem)) ev)))"

definition zabbix_single :: "payload_env \<Rightarrow> (string \<times> json) list \<Rightarrow> (string \<times> json) list \<Rightarrow> json list res" where
  "zabbix_single P p ev =
     rbind (zabbix_problem P ev) (\<lambda>ev.
       Inr [JObj (if truthy (pget ev ''action'') then ev
                  else tsave fst (''action'',
                         zabbix_action (strip (py_str (pe_repr P)
                           (first_of [pget p ''EventValue'', pget ev ''event_value'', JStr []])))) ev)])"

definition zabbix_flat :: "payload_env \<Rightarrow> (string \<times> json) list \<Rightarrow> json \<Rightarrow> json" where
  "zabbix_flat P p problem =
     (let str = (\<lambda>k d. py_str (pe_repr P) (rule_get p k d)); host = str ''HostId'' (JStr []) in
      JObj [(''title'', first_of [pget p ''Subject'', pget p ''title'', JStr ''Zabbix Alert'']),
        (''description'', first_of [pget p ''Message'', pget p ''description'']),
        (''level'', JStr (str ''Severity'' (JStr ''3''))),
        (''item'', first_of [pget p ''TriggerName'', pget p ''item'']),
        (''start_time'', pget p ''start_time''),
        (''labels'', JObj [(''problem_id'', JStr (py_str (pe_repr P) problem)),
           (''event_id'', JStr (str ''EventId'' (JStr []))), (''trigger_id'', JStr (str ''TriggerId'' (JStr []))),
           (''host_id'', JStr host), (''host_name'', rule_get p ''HostName'' (JStr []))]),
        (''rule_id'', pget p ''TriggerId''),
        (''external_id'', JStr (py_str (pe_repr P) problem)),
        (''resource_id'', if host = [] then JNull else JStr host),
        (''resource_name'', pget p ''HostName''),
        (''resource_type'', pget p ''ResourceType''),
        (''action'', zabbix_action (strip (str ''EventValue'' (JStr [])))),
        (''service'', pget p ''service''), (''location'', pget p ''location''),
        (''tags'', rule_get p ''Tags'' (JObj []))])"

definition zabbix_normalize :: "payload_env \<Rightarrow> (string \<times> json) list \<Rightarrow> json list res" where
  "zabbix_normalize P p =
     (if event_list p \<noteq> [] then Inr (event_list p)
      else case pget p ''event'' of
        JObj ev \<Rightarrow> zabbix_single P p ev
      | _ \<Rightarrow>
          let problem = first_of [pget p ''ProblemId'', pget p ''problem_id''] in
          if \<not> truthy problem then Inl ValueError else Inr [zabbix_flat P p problem])"

section \<open>Prometheus\<close>

definition map_prometheus_severity :: "payload_env \<Rightarrow> json \<Rightarrow> string" where
  "map_prometheus_severity P severity =
     (let s = lower (py_str (pe_repr P) (py_or severity (JStr []))) in
      if s = ''critical'' \<or> s = ''high'' then ''0''
      else if s = ''warning'' then ''1''
      else if s = ''info'' then ''2''
      else ''3'')"

definition map_prometheus_status :: "payload_env \<Rightarrow> json \<Rightarrow> string" where
  "map_prometheus_status P status =
     (if lower (py_str (pe_repr P) (py_or status (JStr []))) = ''resolved'' then ''recovery'' else ''created'')"

definition prom_external_id :: "payload_env \<Rightarrow> (string \<times> json) list \<Rightarrow> (string \<times> json) list \<Rightarrow> string option" where
  "prom_external_id P labels alert =
     (let x = first_of [pget alert ''external_id'', pget labels ''external_id''] in
      if truthy x then Some (py_str (pe_repr P) x) else None)"

text \<open>\<open>_iso_to_timestamp\<close>: a value that is not empty must be a text.\<close>

definition iso_to_timestamp :: "payload_env \<Rightarrow> json \<Rightarrow> json res" where
  "iso_to_timestamp P v =
     (if \<not> truthy v then Inr JNull
      else case v of
        JStr s \<Rightarrow> map_sum id (\<lambda>r. case r of None \<Rightarrow> JNull | Some n \<Rightarrow> JStr (str_int n)) (pe_seconds P s)
      | _ \<Rightarrow> Inl TypeError)"

text \<open>\<open>{**a, **b}\<close>: both have to be dicts.\<close>

definition dict_merge :: "json \<Rightarrow> json \<Rightarrow> (string \<times> json) list res" where
  "dict_merge a b = (case (a, b) of (JObj x, JObj y) \<Rightarrow> Inr (fold (tsave fst) y x) | _ \<Rightarrow> Inl TypeError)"

definition prom_resource :: "(string \<times> json) list \<Rightarrow> json" where
  "prom_resource labels =
     first_of [pget labels ''instance'', pget labels ''pod'', pget labels ''node'', pget labels ''service'', pget labels ''job'']"

definition prom_event ::
  "payload_env \<Rightarrow> json \<Rightarrow> json \<Rightarrow> json \<Rightarrow> json \<Rightarrow> json res" where
  "prom_event P common_labels common_annotations receiver alert =
     (case alert of
        JObj al \<Rightarrow>
          rbind (dict_merge common_labels (py_or (rule_get al ''labels'' (JObj [])) (JObj []))) (\<lambda>labels.
          rbind (dict_merge common_annotations (py_or (rule_get al ''annotations'' (JObj [])) (JObj []))) (\<lambda>annotations.
          rbind (iso_to_timestamp P (pget al ''startsAt'')) (\<lambda>starts.
          rbind (iso_to_timestamp P (pget al ''endsAt'')) (\<lambda>ends.
            let str = py_str (pe_repr P);
                alertname = first_of [pget labels ''alertname'', pget annotations ''alertname'', JStr ''Prometheus Alert''];
                resource = prom_resource labels
            in Inr (JObj ([
                (''title'', if truthy resource then JStr (str alertname @ '' ('' @ str resource @ '')'') else alertname),
                (''description'', first_of [pget annotations ''description'', pget annotations ''summary'', alertname]),
                (''level'', JStr (map_prometheus_severity P (pget labels ''severity''))),
                (''item'', alertname), (''start_time'', starts), (''end_time'', ends), (''labels'', JObj labels),
                (''rule_id'', alertname), (''push_source_id'', receiver),
                (''resource_name'', resource), (''resource_id'', resource),
                (''resource_type'', pget labels ''resource_type''),
                (''action'', JStr (map_prometheus_status P (pget al ''status''))),
                (''service'', first_of [pget labels ''service'', pget labels ''job'']),
                (''location'', first_of [pget labels ''cluster'', pget labels ''region'']),
                (''tags'', rule_get labels ''tags'' (JObj []))] @
                (case prom_external_id P labels al of
                   None \<Rightarrow> [] | Some x \<Rightarrow> if x = [] then [] else [(''external_id'', JStr x)])))))))
      | _ \<Rightarrow> Inl AttributeError)"

fun prom_events :: "payload_env \<Rightarrow> json \<Rightarrow> json \<Rightarrow> json \<Rightarrow> json list \<Rightarrow> json list res" where
  "prom_events P cl ca receiver [] = Inr []"
| "prom_events P cl ca receiver (a # as) =
     rbind (prom_event P cl ca receiver a) (\<lambda>e. rbind (prom_events P cl ca receiver as) (\<lambda>es. Inr (e # es)))"

definition prometheus_normalize :: "payload_env \<Rightarrow> (string \<times> json) list \<Rightarrow> json list res" where
  "prometheus_normalize P p =
     (if event_list p \<noteq> [] then Inr (event_list p)
      else case rule_get p ''alerts'' (JList []) of
        JList (a # as) \<Rightarrow>
          prom_events P (py_or (rule_get p ''commonLabels'' (JObj [])) (JObj []))
            (py_or (rule_get p ''commonAnnotations'' (JObj [])) (JObj [])) (pget p ''receiver'') (a # as)
      | _ \<Rightarrow> Inl ValueError)"

text \<open>The factory: the types of sources that have an adapter.\<close>

definition normalize_payload :: "payload_env \<Rightarrow> string \<Rightarrow> (string \<times> json) list \<Rightarrow> json list res" where
  "normalize_payload P source_type p =
     (if source_type = ''prometheus'' then prometheus_normalize P p
      else if source_type = ''zabbix'' then zabbix_normalize P p
      else base_normalize p)"

definition adapter_types :: "string list" where
  "adapter_types = [''restful'', ''nats'', ''prometheus'', ''zabbix'']"

end
