(* ===== verification/Ingest.thy ===== *)
theory Ingest
  imports Source_Secrets Source_Payloads Shield Instant Recovery Auto_Close
begin

text \<open>
  The way of events into the alert centre (\<open>common/source_adapter/base.py\<close>, \<open>views/receiver.py\<close>,
  \<open>receive_alert_events\<close> of \<open>nats/nats.py\<close>): a request is authenticated, its events are mapped to
  the columns of the model, enriched, given an id, a team and a key, stored unless a row with the
  key exists, and handed to the shields, the instant alerts and the recovery.

  A mapping names columns of the standard mapping; other columns of the model are not modelled, so
  any other name is refused like a name that is no column. Parameters: beside those of the
  components used, the conversion of timestamps, what \<open>float\<close> accepts, MD5 and SHA-256, and the
  text of an instant, which depends on its time zone: an instant of the source has the local one, an
  instant filled in by the server is in UTC (the flag).
\<close>

section \<open>State\<close>

record ingest_env =
  ie_enrich :: enrich_env
  ie_registry :: "string \<Rightarrow> provider option"
  ie_secrets :: secret_env
  ie_payload :: payload_env
  ie_epoch :: "bool \<Rightarrow> int \<Rightarrow> int option"
  ie_float :: "string \<Rightarrow> bool"
  ie_md5 :: "string \<Rightarrow> string"
  ie_sha :: "json \<Rightarrow> string"
  ie_iso :: "bool \<Rightarrow> int \<Rightarrow> string"
  ie_zone :: zone
  ie_orm :: "event orm"
  ie_instant :: instant_env

record ingest_state =
  ig_db :: db
  ig_sources :: "alert_source list"
  ig_levels :: "int list"
  ig_shields :: "shield list"
  ig_rules :: "enrich_rule list"
  ig_cache :: cache
  ig_snapshots :: "snapshot list option"

text \<open>The ids drawn during a request: of its events and of its instant alerts.\<close>

record draws =
  dr_events :: "nat \<Rightarrow> string"
  dr_alerts :: "int \<Rightarrow> nat \<Rightarrow> string"
  dr_broker :: bool

section \<open>Mapping to columns\<close>

abbreviation istr :: "ingest_env \<Rightarrow> pyval \<Rightarrow> string" where
  "istr I v \<equiv> val_str (ie_enrich I) v"

fun pv_truthy :: "pyval \<Rightarrow> bool" where
  "pv_truthy (PJ j) = truthy j"
| "pv_truthy (PT t) = True"
| "pv_truthy (PF s) = (\<exists>c \<in> set s. c \<noteq> CHR ''0'')"

fun pv_hashable :: "pyval \<Rightarrow> bool" where
  "pv_hashable (PJ j) = hashable j"
| "pv_hashable v = True"

text \<open>\<open>timestamp_to_datetime\<close>: thirteen characters are milliseconds; anything that cannot be converted
  is the present time. The length of a number raises, which is caught as well.\<close>

definition timestamp_to_datetime :: "ingest_env \<Rightarrow> int \<Rightarrow> json \<Rightarrow> int" where
  "timestamp_to_datetime I now v =
     (case v of
        JStr s \<Rightarrow>
          (case parse_int s of
             Inl _ \<Rightarrow> now
           | Inr n \<Rightarrow> (case ie_epoch I (length s = 13) n of None \<Rightarrow> now | Some t \<Rightarrow> t))
      | _ \<Rightarrow> now)"

definition isdigit :: "string \<Rightarrow> bool" where
  "isdigit s \<longleftrightarrow> s \<noteq> [] \<and> list_all (\<lambda>c. digit c \<noteq> None) s"

definition convert_field :: "ingest_env \<Rightarrow> int \<Rightarrow> string \<Rightarrow> json \<Rightarrow> pyval" where
  "convert_field I now key v =
     (if truthy v \<and> (key = ''start_time'' \<or> key = ''end_time'') then PT (timestamp_to_datetime I now v)
      else if key = ''value'' then (case v of JStr s \<Rightarrow> if isdigit s then PF s else PJ v | _ \<Rightarrow> PJ v)
      else PJ v)"

text \<open>\<open>v == 0\<close>.\<close>

definition is_zero :: "json \<Rightarrow> bool" where
  "is_zero v \<longleftrightarrow> v = JInt 0 \<or> v = JBool False"

text \<open>The value of one column: \<open>None\<close> drops the event, \<open>Some None\<close> skips the column.\<close>

definition column_value :: "adapter \<Rightarrow> json \<Rightarrow> string \<Rightarrow> string \<Rightarrow> json option option res" where
  "column_value A ev key field =
     rbind (jget ev field JNull) (\<lambda>v.
       if key = ''title'' then Inr (if truthy v then Some (Some v) else None)
       else if key = ''level'' then
         Inr (Some (Some (if \<not> truthy v \<or> v \<notin> JStr ` set (ap_levels A) then JStr (ap_info_level A) else v)))
       else if \<not> truthy v \<and> \<not> is_zero v then
         rbind (jget ev ''labels'' (JObj [])) (\<lambda>label.
         rbind (jget label field JNull) (\<lambda>w. Inr (Some (if truthy w then Some w else None))))
       else Inr (Some (Some v)))"

fun map_fields :: "ingest_env \<Rightarrow> adapter \<Rightarrow> int \<Rightarrow> json \<Rightarrow> (string \<times> string) list \<Rightarrow> edict \<Rightarrow> edict option res" where
  "map_fields I A now ev [] out = Inr (Some out)"
| "map_fields I A now ev ((key, field) # rest) out =
     rbind (column_value A ev key field) (\<lambda>r.
       case r of
         None \<Rightarrow> Inr None
       | Some None \<Rightarrow> map_fields I A now ev rest out
       | Some (Some v) \<Rightarrow> map_fields I A now ev rest (tsave fst (key, convert_field I now key v) out))"

definition add_start_time :: "int \<Rightarrow> edict \<Rightarrow> edict" where
  "add_start_time now d =
     (case map_of d ''start_time'' of
        Some v \<Rightarrow>
          if pv_truthy v then d
          else tsave fst (''_start_time_synthesized'', PJ (JBool True)) (tsave fst (''start_time'', PT now) d)
      | None \<Rightarrow> tsave fst (''_start_time_synthesized'', PJ (JBool True)) (tsave fst (''start_time'', PT now) d))"

text \<open>\<open>None\<close> is the empty dict of an event without a title.\<close>

definition mapping_fields_to_event :: "ingest_env \<Rightarrow> adapter \<Rightarrow> int \<Rightarrow> json \<Rightarrow> edict option res" where
  "mapping_fields_to_event I A now ev =
     map_sum id (map_option (add_start_time now)) (map_fields I A now ev (so_mapping (ap_source A)) [])"

definition setdefault_enrichment :: "edict \<Rightarrow> edict" where
  "setdefault_enrichment d = (if ''enrichment'' \<in> fst ` set d then d else d @ [(''enrichment'', PJ (JObj []))])"

text \<open>The first loop of \<open>create_events\<close>: events without a title and events whose mapping raises are
  left out.\<close>

fun map_events :: "ingest_env \<Rightarrow> adapter \<Rightarrow> int \<Rightarrow> json list \<Rightarrow> (edict \<times> json) list" where
  "map_events I A now [] = []"
| "map_events I A now (ev # evs) =
     (case mapping_fields_to_event I A now ev of
        Inr (Some d) \<Rightarrow> (setdefault_enrichment d, ev) # map_events I A now evs
      | _ \<Rightarrow> map_events I A now evs)"

section \<open>Building events\<close>

record new_event =
  ne_data :: edict
  ne_synthesized :: bool
  ne_push_source_id :: pyval
  ne_event_id :: string
  ne_team :: "json list"
  ne_external_id :: pyval
  ne_ingest_key :: "string option"

definition attr :: "edict \<Rightarrow> string \<Rightarrow> pyval \<Rightarrow> pyval" where
  "attr d k v = (case map_of d k of None \<Rightarrow> v | Some w \<Rightarrow> w)"

definition ingest_columns :: "string list" where
  "ingest_columns = [''title'', ''description'', ''level'', ''item'', ''start_time'', ''end_time'', ''labels'', ''rule_id'',
     ''external_id'', ''push_source_id'', ''resource_id'', ''resource_name'', ''resource_type'', ''value'', ''action'',
     ''service'', ''tags'', ''location'', ''enrichment'']"

abbreviation action_of :: "edict \<Rightarrow> pyval" where
  "action_of d \<equiv> attr d ''action'' (PJ (JStr ''created''))"

definition str_or_empty :: "ingest_env \<Rightarrow> pyval \<Rightarrow> string" where
  "str_or_empty I v = (if pv_truthy v then istr I v else [])"

definition generate_external_id :: "ingest_env \<Rightarrow> edict \<Rightarrow> string \<Rightarrow> string" where
  "generate_external_id I d source_id =
     ie_md5 I (str_or_empty I (attr d ''item'' (PJ JNull)) @ ''|'' @ str_or_empty I (attr d ''resource_id'' (PJ JNull)) @ ''|'' @
       str_or_empty I (attr d ''resource_name'' (PJ JNull)) @ ''|'' @ str_or_empty I (attr d ''resource_type'' (PJ JNull)) @
       ''|'' @ source_id)"

definition normalize_lookup_value :: "ingest_env \<Rightarrow> pyval \<Rightarrow> string" where
  "normalize_lookup_value I v = (if v = PJ JNull then [] else strip (istr I v))"

text \<open>The created events of a source with an item and a resource name.\<close>

definition same_object :: "nat \<Rightarrow> string \<Rightarrow> string \<Rightarrow> event \<Rightarrow> bool" where
  "same_object src item name e \<longleftrightarrow>
     ev_action e = EA_CREATED \<and> ev_source_pk e = src \<and> ev_item e = Some item \<and> ev_resource_name e = Some name"

text \<open>The one external id that a candidate alert has for the object.\<close>

definition only_external_id :: "nat \<Rightarrow> string \<Rightarrow> string \<Rightarrow> alert \<Rightarrow> db \<Rightarrow> string list" where
  "only_external_id src item name a s =
     (let ids = remdups (map the (filter (\<lambda>x. x \<noteq> None) (map ext_id (filter (same_object src item name) (events_of a s)))))
      in if length ids = 1 then ids else [])"

definition resolve_recovery_external_id :: "ingest_env \<Rightarrow> adapter \<Rightarrow> edict \<Rightarrow> db \<Rightarrow> string option" where
  "resolve_recovery_external_id I A d s =
     (let src = so_pk (ap_source A);
          norm = (\<lambda>k. normalize_lookup_value I (attr d k (PJ JNull)));
          item = norm ''item''; name = norm ''resource_name''
      in if action_of d \<noteq> PJ (JStr ''recovery'') \<and> action_of d \<noteq> PJ (JStr ''closed'') then None
         else if item = [] \<or> name = [] \<or> norm ''resource_id'' \<noteq> [] \<or> norm ''resource_type'' \<noteq> [] then None
         else
           let candidates = filter (\<lambda>a. al_status a \<in> set ACTIVATE_STATUS \<and>
                              list_ex (same_object src item name) (events_of a s)) (db_alerts s);
               matched = remdups (concat (map (\<lambda>a. only_external_id src item name a s) candidates))
           in if length matched = 1 then Some (hd matched) else None)"

definition resolve_event_team :: "adapter \<Rightarrow> (string \<times> json) list \<Rightarrow> json list" where
  "resolve_event_team A ev =
     (if ap_trusted A \<and> ''organizations'' \<in> fst ` set ev then
        (case normalize_team_ids (rule_get ev ''organizations'' JNull) of
           Inl _ \<Rightarrow> []
         | Inr requested \<Rightarrow>
             map JInt (filter (\<lambda>i. str_int i \<in> fst ` set (so_team_secrets (ap_source A))) requested))
      else ap_team A)"

definition push_source :: "(string \<times> json) list \<Rightarrow> edict \<Rightarrow> pyval" where
  "push_source ev d =
     (let own = attr d ''push_source_id'' (PJ (JStr ''default'')) in
      if truthy (rule_get ev ''push_source_id'' JNull) then PJ (rule_get ev ''push_source_id'' JNull)
      else if pv_truthy own then own
      else if truthy (rule_get ev ''source_id'' JNull) then PJ (rule_get ev ''source_id'' JNull)
      else PJ (JStr ''default''))"

text \<open>\<open>Event(**data)\<close> and \<open>add_base_fields\<close>.\<close>

definition build_event :: "ingest_env \<Rightarrow> adapter \<Rightarrow> string \<Rightarrow> db \<Rightarrow> edict \<Rightarrow> json \<Rightarrow> new_event res" where
  "build_event I A uid s data raw =
     (let d = filter (\<lambda>(k, _). k \<noteq> ''_start_time_synthesized'') data;
          x = attr d ''external_id'' (PJ JNull)
      in if \<not> fst ` set d \<subseteq> set ingest_columns then Inl TypeError
         else case raw of
           JObj ev \<Rightarrow>
             Inr \<lparr>ne_data = d, ne_synthesized = pv_truthy (attr data ''_start_time_synthesized'' (PJ (JBool False))),
                  ne_push_source_id = push_source ev d, ne_event_id = ''EVENT-'' @ uid, ne_team = resolve_event_team A ev,
                  ne_external_id =
                    (if \<not> pv_truthy x \<or> strip (istr I x) = [] then
                       (case resolve_recovery_external_id I A d s of
                          Some y \<Rightarrow> PJ (JStr y)
                        | None \<Rightarrow> PJ (JStr (generate_external_id I d (so_source_id (ap_source A)))))
                     else x),
                  ne_ingest_key = None\<rparr>
         | _ \<Rightarrow> Inl AttributeError)"

text \<open>The second loop: events that cannot be built are left out.\<close>

definition build_events :: "ingest_env \<Rightarrow> adapter \<Rightarrow> (nat \<Rightarrow> string) \<Rightarrow> db \<Rightarrow> (edict \<times> json) list \<Rightarrow> new_event list" where
  "build_events I A uids s ds =
     concat (map (\<lambda>(i, d, raw). case build_event I A (uids i) s d raw of Inl _ \<Rightarrow> [] | Inr e \<Rightarrow> [e]) (enumerate 0 ds))"

section \<open>The ingest key\<close>

definition normalize_ingest_component :: "ingest_env \<Rightarrow> pyval \<Rightarrow> string" where
  "normalize_ingest_component I v = (if v = PJ JNull then [] else strip (istr I v))"

fun start_text :: "ingest_env \<Rightarrow> bool \<Rightarrow> pyval \<Rightarrow> string" where
  "start_text I utc (PT t) = ie_iso I utc t"
| "start_text I utc v = istr I v"

definition build_ingest_key :: "ingest_env \<Rightarrow> nat \<Rightarrow> pyval \<Rightarrow> pyval \<Rightarrow> pyval \<Rightarrow> bool \<Rightarrow> pyval \<Rightarrow> string option" where
  "build_ingest_key I src push ext act utc start =
     (if src = 0 \<or> \<not> pv_truthy ext \<or> \<not> pv_truthy act \<or> \<not> pv_truthy start then None
      else Some (ie_sha I (JObj [(''action'', JStr (normalize_ingest_component I act)),
        (''external_id'', JStr (normalize_ingest_component I ext)),
        (''push_source_id'', JStr (normalize_ingest_component I push)),
        (''source_id'', JInt (int src)), (''start_time'', JStr (start_text I utc start))])))"

text \<open>\<open>start_time.replace(second=0, microsecond=0)\<close>.\<close>

fun floor_minute :: "pyval \<Rightarrow> pyval" where
  "floor_minute (PT t) = PT (t - t mod 60000000)"
| "floor_minute v = v"

definition build_ingress_dedup_key :: "ingest_env \<Rightarrow> nat \<Rightarrow> new_event \<Rightarrow> string option" where
  "build_ingress_dedup_key I src e =
     (let start = attr (ne_data e) ''start_time'' (PJ JNull) in
      build_ingest_key I src (ne_push_source_id e) (ne_external_id e) (action_of (ne_data e)) (ne_synthesized e)
        (if ne_synthesized e then floor_minute start else start))"

definition with_key :: "ingest_env \<Rightarrow> nat \<Rightarrow> new_event \<Rightarrow> new_event" where
  "with_key I src e = e\<lparr>ne_ingest_key := build_ingress_dedup_key I src e\<rparr>"

section \<open>Storing events\<close>

text \<open>The loop that drops repeated keys of a batch; events without a key are kept.\<close>

fun unique_events :: "string list \<Rightarrow> new_event list \<Rightarrow> new_event list" where
  "unique_events seen [] = []"
| "unique_events seen (e # es) =
     (case ne_ingest_key e of
        None \<Rightarrow> e # unique_events seen es
      | Some k \<Rightarrow> if k \<in> set seen then unique_events seen es else e # unique_events (k # seen) es)"

definition has_key :: "new_event \<Rightarrow> bool" where
  "has_key e \<longleftrightarrow> ne_ingest_key e \<noteq> None \<and> ne_ingest_key e \<noteq> Some []"

text \<open>The keys of the batch that are in the database already. The sources and pushers are compared as
  sets: with those of any event of the batch.\<close>

definition existing_keys :: "ingest_env \<Rightarrow> nat \<Rightarrow> new_event list \<Rightarrow> db \<Rightarrow> string option list" where
  "existing_keys I src es s =
     map ev_ingest_key (filter (\<lambda>r. ev_source_pk r = src \<and>
       ev_push_source_id r \<in> (istr I \<circ> ne_push_source_id) ` set (filter has_key es) \<and>
       ev_ingest_key r \<in> ne_ingest_key ` set (filter has_key es)) (db_events s))"

fun action_column :: "string \<Rightarrow> event_action" where
  "action_column s =
     (if s = ''created'' then EA_CREATED
      else if s = ''recovery'' then EA_RECOVERY
      else if s = ''closed'' then EA_CLOSED
      else EA_OTHER s)"

definition text_column :: "ingest_env \<Rightarrow> edict \<Rightarrow> string \<Rightarrow> string option" where
  "text_column I d k = (case map_of d k of None \<Rightarrow> None | Some v \<Rightarrow> if v = PJ JNull then None else Some (istr I v))"

fun json_column :: "pyval option \<Rightarrow> json" where
  "json_column (Some (PJ j)) = j"
| "json_column _ = JObj []"

text \<open>The columns with a type of their own raise when a value does not fit.\<close>

fun time_column :: "pyval option \<Rightarrow> int option res" where
  "time_column None = Inr None"
| "time_column (Some (PT t)) = Inr (Some t)"
| "time_column (Some (PJ JNull)) = Inr None"
| "time_column (Some v) = Inl TypeError"

fun float_column :: "ingest_env \<Rightarrow> pyval option \<Rightarrow> unit res" where
  "float_column I (Some (PJ (JStr s))) = (if ie_float I s then Inr () else Inl ValueError)"
| "float_column I (Some (PJ (JList xs))) = Inl TypeError"
| "float_column I (Some (PJ (JObj xs))) = Inl TypeError"
| "float_column I v = Inr ()"

definition event_row :: "ingest_env \<Rightarrow> adapter \<Rightarrow> int \<Rightarrow> new_event \<Rightarrow> event res" where
  "event_row I A now e =
     (let d = ne_data e; src = ap_source A in
      rbind (time_column (map_of d ''start_time'')) (\<lambda>start.
      rbind (time_column (map_of d ''end_time'')) (\<lambda>stop.
      rbind (float_column I (map_of d ''value'')) (\<lambda>_.
        Inr \<lparr>ev_pk = 0, ev_event_id = ne_event_id e, ev_source_pk = so_pk src, ev_source_id = so_source_id src,
             ev_source_name = so_name src, ev_level = istr I (attr d ''level'' (PJ (JStr []))),
             ev_title = istr I (attr d ''title'' (PJ (JStr []))), ev_external_id = Some (istr I (ne_external_id e)),
             ev_action = action_column (istr I (action_of d)), ev_start_time = start, ev_end_time = stop,
             ev_received_at = now, ev_item = text_column I d ''item'', ev_resource_id = text_column I d ''resource_id'',
             ev_resource_type = text_column I d ''resource_type'', ev_resource_name = text_column I d ''resource_name'',
             ev_labels = json_column (map_of d ''labels''),
             ev_enrichment = (case json_column (map_of d ''enrichment'') of JObj kvs \<Rightarrow> kvs | _ \<Rightarrow> []),
             ev_status = E_RECEIVED, ev_description = text_column I d ''description'',
             ev_service = text_column I d ''service'', ev_location = text_column I d ''location'',
             ev_push_source_id = istr I (ne_push_source_id e), ev_event_type = 0,
             ev_rule_id = text_column I d ''rule_id'', ev_tags = json_column (map_of d ''tags''),
             ev_team = ne_team e, ev_ingest_key = ne_ingest_key e\<rparr>))))"

fun event_rows :: "ingest_env \<Rightarrow> adapter \<Rightarrow> int \<Rightarrow> new_event list \<Rightarrow> event list res" where
  "event_rows I A now [] = Inr []"
| "event_rows I A now (e # es) =
     rbind (event_row I A now e) (\<lambda>r. rbind (event_rows I A now es) (\<lambda>rs. Inr (r # rs)))"

text \<open>The unique constraints: the event id, and source, pusher and key (where there is a key).\<close>

definition conflicts :: "event \<Rightarrow> event \<Rightarrow> bool" where
  "conflicts r row \<longleftrightarrow> ev_event_id r = ev_event_id row \<or>
     (ev_ingest_key row \<noteq> None \<and> ev_ingest_key r = ev_ingest_key row \<and> ev_source_pk r = ev_source_pk row \<and>
      ev_push_source_id r = ev_push_source_id row)"

text \<open>\<open>bulk_create(batch, ignore_conflicts=True)\<close>: rows that violate a constraint are left out.\<close>

definition insert_event :: "event \<Rightarrow> db \<Rightarrow> db" where
  "insert_event row s =
     (if list_ex (\<lambda>r. conflicts r row) (db_events s) then s
      else s\<lparr>db_events := db_events s @ [row\<lparr>ev_pk := next_key ev_pk (db_events s)\<rparr>]\<rparr>)"

fun insert_batches :: "ingest_env \<Rightarrow> adapter \<Rightarrow> int \<Rightarrow> new_event list list \<Rightarrow> db \<Rightarrow> unit res \<times> db" where
  "insert_batches I A now [] s = (Inr (), s)"
| "insert_batches I A now (b # bs) s =
     (case event_rows I A now b of
        Inl e \<Rightarrow> (Inl e, s)
      | Inr rows \<Rightarrow> insert_batches I A now bs (fold insert_event rows s))"

definition bulk_save_events ::
  "ingest_env \<Rightarrow> adapter \<Rightarrow> int \<Rightarrow> new_event list \<Rightarrow> db \<Rightarrow> event list list res \<times> db" where
  "bulk_save_events I A now events s =
     (let src = so_pk (ap_source A);
          unique = unique_events [] (map (with_key I src) events)
      in if list_ex (\<lambda>e. has_key e \<and> \<not> pv_hashable (ne_push_source_id e)) unique then (Inl TypeError, s)
         else
           let existing = existing_keys I src unique s;
               to_create = filter (\<lambda>e. \<not> (ne_ingest_key e \<noteq> None \<and> ne_ingest_key e \<in> set existing)) unique
           in if to_create = [] then (Inr [], s)
              else (case insert_batches I A now (split_list to_create 100) s of
                      (Inl e, t) \<Rightarrow> (Inl e, t)
                    | (Inr _, t) \<Rightarrow>
                        (Inr (split_list (filter (\<lambda>r. ev_event_id r \<in> ne_event_id ` set to_create) (db_events t)) 100), t)))"

definition create_events ::
  "ingest_env \<Rightarrow> adapter \<Rightarrow> int \<Rightarrow> draws \<Rightarrow> json list \<Rightarrow> ingest_state \<Rightarrow> event list list res \<times> ingest_state" where
  "create_events I A now D evs S =
     (let ds = map_events I A now evs in
      case enrich_batch (ie_enrich I) (ie_registry I) (ig_rules S) (map fst ds, ig_cache S) of
        (ds', c) \<Rightarrow>
          let events = build_events I A (dr_events D) (ig_db S) (zip ds' (map snd ds)) in
          (case bulk_save_events I A now events (ig_db S) of
             (r, t) \<Rightarrow> (r, S\<lparr>ig_db := t, ig_cache := c\<rparr>)))"

section \<open>After the events are stored\<close>

definition get_active_shields :: "shield list \<Rightarrow> shield list option" where
  "get_active_shields shields =
     (let active = filter sh_is_active shields in if active = [] then None else Some active)"

text \<open>The shields: an exception is logged and the next batch is treated.\<close>

definition event_operator :: "ingest_env \<Rightarrow> int \<Rightarrow> shield list \<Rightarrow> event list list \<Rightarrow> db \<Rightarrow> db" where
  "event_operator I now shields bulk s =
     fold (\<lambda>b s. snd (execute_shield_check_for_events (ie_zone I) (ie_orm I) now (map ev_event_id b)
                        (get_active_shields shields) shields s)) bulk s"

definition ingest_recovery :: "int \<Rightarrow> event list list \<Rightarrow> db \<Rightarrow> db" where
  "ingest_recovery now bulk s =
     fold (\<lambda>b s. let rs = filter is_recovery b in
                 if rs = [] then s
                 else (case handle_recovery_events rs s of (touched, t) \<Rightarrow> run_recovery_checks now touched t)) bulk s"

definition adapter_main ::
  "ingest_env \<Rightarrow> adapter \<Rightarrow> int \<Rightarrow> draws \<Rightarrow> json list \<Rightarrow> ingest_state \<Rightarrow> unit res \<times> ingest_state" where
  "adapter_main I A now D evs S =
     (case create_events I A now D evs S of
        (Inl e, T) \<Rightarrow> (Inl e, T)
      | (Inr bulk, T) \<Rightarrow>
          if bulk = [] then (Inr (), T)
          else
            let s1 = event_operator I now (ig_shields T) bulk (ig_db T);
                (snaps, s2) = dispatch (ie_instant I) now (dr_alerts D) (dr_broker D) bulk (ig_snapshots T, s1);
                s3 = ingest_recovery now bulk s2
            in (Inr (), T\<lparr>ig_db := s3, ig_snapshots := snaps\<rparr>))"

section \<open>Requests\<close>

datatype receive_answer = RA_BadRequest | RA_Forbidden | RA_ServerError | RA_Success

fun answer_of :: "unit res \<Rightarrow> receive_answer" where
  "answer_of (Inr _) = RA_Success"
| "answer_of (Inl e) =
     (if e = AuthenticationSourceError then RA_Forbidden
      else if e = ValueError then RA_BadRequest else RA_ServerError)"

definition usable_source :: "ingest_env \<Rightarrow> json \<Rightarrow> alert_source \<Rightarrow> bool" where
  "usable_source I sid src \<longleftrightarrow> so_source_id src = py_str (en_repr (ie_enrich I)) sid \<and> so_is_active src \<and>
     so_is_effective src \<and> \<not> so_is_delete src"

text \<open>The part of \<open>_receive_events\<close> after the source was found.\<close>

definition receive_from ::
  "ingest_env \<Rightarrow> int \<Rightarrow> draws \<Rightarrow> alert_source \<Rightarrow> json \<Rightarrow> (string \<times> json) list \<Rightarrow> ingest_state \<Rightarrow> receive_answer \<times> ingest_state" where
  "receive_from I now D src secret data S =
     (case (if so_source_type src \<notin> set adapter_types then Inl ValueError
            else rbind (new_adapter (ie_secrets I) (ig_levels S) src secret False) (\<lambda>A.
                 rbind (normalize_payload (ie_payload I) (so_source_type src) data) (\<lambda>evs. Inr (A, evs)))) of
        Inl e \<Rightarrow> (answer_of (Inl e), S)
      | Inr (A, evs) \<Rightarrow>
          if evs = [] \<or> \<not> truthy secret then (RA_BadRequest, S)
          else (case authenticate A of
                  Inl e \<Rightarrow> (answer_of (Inl e), S)
                | Inr A' \<Rightarrow> (case adapter_main I A' now D evs S of (r, T) \<Rightarrow> (answer_of r, T))))"

text \<open>The source in the address or in the document, and the secret in the header or in the document.\<close>

definition request_source_id :: "string option \<Rightarrow> (string \<times> json) list \<Rightarrow> json" where
  "request_source_id path data =
     (case path of Some p \<Rightarrow> if p = [] then rule_get data ''source_id'' JNull else JStr p
                 | None \<Rightarrow> rule_get data ''source_id'' JNull)"

definition request_secret :: "string option \<Rightarrow> (string \<times> json) list \<Rightarrow> json" where
  "request_secret header data =
     (case header of Some h \<Rightarrow> if h = [] then rule_get data ''secret'' JNull else JStr h
                   | None \<Rightarrow> rule_get data ''secret'' JNull)"

definition wrong_type :: "string option \<Rightarrow> alert_source \<Rightarrow> bool" where
  "wrong_type expected_type src \<longleftrightarrow> expected_type \<noteq> None \<and> expected_type \<noteq> Some [] \<and> expected_type \<noteq> Some (so_source_type src)"

text \<open>\<open>body\<close> is the result of \<open>json.loads\<close>, \<open>path\<close> the source in the address, \<open>header\<close> the secret of the
  request.\<close>

definition receive_events ::
  "ingest_env \<Rightarrow> int \<Rightarrow> draws \<Rightarrow> string option \<Rightarrow> string option \<Rightarrow> string option \<Rightarrow> json option \<Rightarrow> ingest_state
   \<Rightarrow> receive_answer \<times> ingest_state" where
  "receive_events I now D path expected_type header body S =
     (case body of
        Some (JObj data) \<Rightarrow>
          let given = rule_get data ''source_id'' JNull; sid = request_source_id path data in
          if truthy sid \<and> truthy given \<and> given \<noteq> sid then (RA_BadRequest, S)
          else if \<not> truthy sid then (RA_BadRequest, S)
          else (case find (usable_source I sid) (ig_sources S) of
                  None \<Rightarrow> (RA_BadRequest, S)
                | Some src \<Rightarrow>
                    if wrong_type expected_type src then (RA_BadRequest, S)
                    else receive_from I now D src (request_secret header data) data S)
      | _ \<Rightarrow> (RA_BadRequest, S))"

text \<open>The internal channel. \<open>dict(event or {})\<close> also accepts a list of pairs, which is not modelled.\<close>

definition tag_pusher :: "json \<Rightarrow> json \<Rightarrow> json res" where
  "tag_pusher pusher ev =
     (case py_or ev (JObj []) of
        JObj kvs \<Rightarrow> Inr (JObj (if ''push_source_id'' \<in> fst ` set kvs then kvs else kvs @ [(''push_source_id'', pusher)]))
      | _ \<Rightarrow> Inl ValueError)"

fun tag_all :: "json \<Rightarrow> json list \<Rightarrow> json list res" where
  "tag_all pusher [] = Inr []"
| "tag_all pusher (e # es) = rbind (tag_pusher pusher e) (\<lambda>x. rbind (tag_all pusher es) (\<lambda>xs. Inr (x # xs)))"

definition receive_alert_events ::
  "ingest_env \<Rightarrow> int \<Rightarrow> draws \<Rightarrow> json \<Rightarrow> json \<Rightarrow> json \<Rightarrow> ingest_state \<Rightarrow> bool \<times> ingest_state" where
  "receive_alert_events I now D source_id events pusher S =
     (if \<not> truthy source_id \<or> \<not> truthy events \<or> \<not> truthy pusher then (False, S)
      else case find (\<lambda>src. usable_source I source_id src \<and> so_source_type src = ''nats'') (ig_sources S) of
        None \<Rightarrow> (False, S)
      | Some src \<Rightarrow>
          (case rbind (py_iter events) (\<lambda>evs. rbind (tag_all pusher evs) (\<lambda>evs.
                rbind (new_adapter (ie_secrets I) (ig_levels S) src (JStr []) (pusher = JStr ''lite-monitor'')) (\<lambda>A.
                  Inr (A, evs)))) of
             Inl _ \<Rightarrow> (False, S)
           | Inr (A, evs) \<Rightarrow>
               (case adapter_main I A now D evs S of
                  (Inl _, T) \<Rightarrow> (False, T)
                | (Inr _, T) \<Rightarrow> (True, T))))"

end
