(* ===== verification/Ingest_Samples.thy ===== *)
theory Ingest_Samples
  imports Ingest Samples
begin

text \<open>
  Concrete requests for the properties of the ingestion: a source with a secret for one team, a source
  of the internal channel, an empty database, and environment parameters that compute.
\<close>

definition toy_ingest :: ingest_env where
  "toy_ingest = \<lparr>ie_enrich = sample_enrich_env, ie_registry = (\<lambda>_. None), ie_secrets = toy_tokens,
     ie_payload = \<lparr>pe_repr = (\<lambda>_. ''[]''), pe_seconds = (\<lambda>_. Inr None)\<rparr>,
     ie_epoch = (\<lambda>_ n. Some n), ie_float = (\<lambda>_. False),
     ie_md5 = (\<lambda>s. ''h'' @ s), ie_sha = (\<lambda>_. ''k''), ie_iso = (\<lambda>_ t. str_int t), ie_zone = sample_zone0,
     ie_orm = sample_event_orm, ie_instant = instant_sample\<rparr>"

definition toy_draws :: draws where
  "toy_draws = \<lparr>dr_events = (\<lambda>i. replicate i CHR ''x''), dr_alerts = instant_uids, dr_broker = True\<rparr>"

definition toy_nats :: alert_source where
  "toy_nats = toy_registered\<lparr>so_pk := 2, so_source_id := ''nats'', so_source_type := ''nats''\<rparr>"

definition toy_ingest_state :: ingest_state where
  "toy_ingest_state = \<lparr>ig_db = event_db [], ig_sources = [toy_registered, toy_nats], ig_levels = [1, 3], ig_shields = [],
     ig_rules = [], ig_cache = [], ig_snapshots = Some []\<rparr>"

definition toy_event :: json where
  "toy_event = JObj [(''title'', JStr ''cpu''), (''level'', JStr ''9''), (''start_time'', JStr ''17''),
     (''external_id'', JStr ''x1''), (''action'', JStr ''created'')]"

definition toy_body :: "(string \<times> json) list" where
  "toy_body = [(''source_id'', JStr ''restful''), (''events'', JList [toy_event])]"

definition toy_internal :: json where
  "toy_internal = JObj [(''title'', JStr ''disk''), (''organizations'', JList [JInt 7, JInt 8])]"

lemmas toy_ingest_defs = toy_ingest_def toy_draws_def toy_nats_def toy_ingest_state_def toy_event_def toy_body_def
  toy_internal_def

definition toy_receive :: "int \<Rightarrow> ingest_state \<Rightarrow> receive_answer \<times> ingest_state" where
  "toy_receive now = receive_events toy_ingest now toy_draws None None (Some ''kabs7'') (Some (JObj toy_body))"

definition toy_send :: "ingest_state \<Rightarrow> bool \<times> ingest_state" where
  "toy_send = receive_alert_events toy_ingest 5 toy_draws (JStr ''nats'') (JList [toy_internal]) (JStr ''lite-monitor'')"

definition event_view :: "event \<Rightarrow> string \<times> string \<times> json list \<times> string option" where
  "event_view r = (ev_title r, ev_level r, ev_team r, ev_ingest_key r)"

lemma toy_received:
  "fst (toy_receive 5 toy_ingest_state) = RA_Success"
  "map event_view (db_events (ig_db (snd (toy_receive 5 toy_ingest_state)))) =
     [(''cpu'', ''3'', [JInt 7], Some ''k'')]"
  by code_simp+

lemma toy_sent:
  "map event_view (db_events (ig_db (snd (toy_send toy_ingest_state)))) = [(''disk'', ''3'', [JInt 7], Some ''k'')]"
  by code_simp

end
