(* ===== verification/Ingest_Properties.thy ===== *)
theory Ingest_Properties
  imports Ingest_Samples
begin

text \<open>
  What the ingestion of events guarantees: which events a request may store and for which team, what
  the stored rows look like, that keys stay unique and a repeated delivery has no effect, that no
  event is lost silently, and that the problem and the recovery of a source meet under one id.
\<close>

section \<open>What happens to stored events\<close>

text \<open>After the insertion the components of a request change nothing of an event but its status.\<close>

definition settled :: "event \<Rightarrow> event" where
  "settled r = r\<lparr>ev_status := E_RECEIVED\<rparr>"

abbreviation same_events :: "db \<Rightarrow> db \<Rightarrow> bool" where
  "same_events s t \<equiv> map settled (db_events t) = map settled (db_events s)"

lemma settled_fields [simp]:
  "ev_pk (settled r) = ev_pk r" "ev_event_id (settled r) = ev_event_id r" "ev_source_pk (settled r) = ev_source_pk r"
  "ev_push_source_id (settled r) = ev_push_source_id r" "ev_ingest_key (settled r) = ev_ingest_key r"
  "ev_team (settled r) = ev_team r" "ev_level (settled r) = ev_level r" "ev_title (settled r) = ev_title r"
  "ev_start_time (settled r) = ev_start_time r" "ev_external_id (settled r) = ev_external_id r"
  by (simp_all add: settled_def)

lemma shield_round_same:
  "shield_round m ids sh (results, seen, s) = (results', seen', t) \<Longrightarrow> same_events s t"
  by (auto simp: shield_round_def batch_execute_shield_def tupdate_def settled_def Let_def split: sum.splits list.splits)

lemma shield_rounds_same:
  "fold (shield_round m ids) shs (results, seen, s) = (results', seen', t) \<Longrightarrow> same_events s t"
proof (induction shs arbitrary: results seen s)
  case (Cons sh shs)
  obtain r1 d1 s1 where r: "shield_round m ids sh (results, seen, s) = (r1, d1, s1)" using prod_cases3 by blast
  from shield_round_same[OF r] Cons.IH[of r1 d1 s1] Cons.prems r show ?case by simp
qed simp

lemma shield_check_same: "same_events s (snd (execute_shield_check_for_events z m now ids given shs s))"
proof -
  have "same_events s (snd (execute_shield_check z m now ids x s))" for x
    by (auto simp: execute_shield_check_def Let_def split: sum.splits prod.splits dest: shield_rounds_same)
  then show ?thesis by (simp add: execute_shield_check_for_events_def Let_def split: sum.split py_exc.split)
qed

lemma event_operator_same: "same_events s (event_operator I now shs bulk s)"
  unfolding event_operator_def
proof (induction bulk arbitrary: s)
  case (Cons b bulk)
  show ?case using Cons.IH shield_check_same by (simp add: comp_def)
qed simp

lemma dispatch_events: "db_events (snd (dispatch I now uids broker bulk (c, s))) = db_events s"
proof -
  have "db_events (build_and_trigger I now uids hits s) = db_events s" for hits
    using bulk_build_grown[of I now uids hits s]
    by (cases "bulk_build_instant_alerts I now uids hits s")
       (auto simp: build_and_trigger_def grown_def trigger_dispatch_async_def split: sum.splits)
  then show ?thesis by (simp add: dispatch_def Let_def)
qed

lemma recovery_checks_events: "db_events (run_recovery_checks now touched s) = db_events s"
proof -
  have "db_events (snd (check_and_recover_alert now a s)) = db_events s" for a s
    by (auto simp: check_and_recover_alert_def stop_reminder_task_def Let_def split: prod.splits)
  then show ?thesis
    by (induction touched arbitrary: s) (auto simp: run_recovery_checks_def split: option.splits)
qed

lemma ingest_recovery_events: "db_events (ingest_recovery now bulk s) = db_events s"
  unfolding ingest_recovery_def
proof (induction bulk arbitrary: s)
  case (Cons b bulk)
  have "db_events t = db_events s" if "handle_recovery_events rs s = (touched, t)" for rs touched t
    using handle_recovery_linked[OF that] by (simp add: linked_def)
  with Cons show ?case by (auto simp: recovery_checks_events Let_def split: prod.splits)
qed simp

text \<open>So the events after a request are those that \<open>create_events\<close> left.\<close>

lemma adapter_main_events:
  assumes "create_events I A now D evs S = (r, T)" "adapter_main I A now D evs S = (r', U)"
  shows "same_events (ig_db T) (ig_db U)"
proof -
  { fix bulk snaps s2
    assume "dispatch (ie_instant I) now (dr_alerts D) (dr_broker D) bulk
      (ig_snapshots T, event_operator I now (ig_shields T) bulk (ig_db T)) = (snaps, s2)"
    then have "db_events s2 = db_events (event_operator I now (ig_shields T) bulk (ig_db T))"
      using dispatch_events by (metis snd_conv)
    then have "same_events (ig_db T) s2" using event_operator_same[where s = "ig_db T" and bulk = bulk and I = I] by simp }
  then show ?thesis
    using assms by (auto simp: adapter_main_def ingest_recovery_events Let_def split: sum.splits if_splits prod.splits)
qed

section \<open>Where stored events come from\<close>

definition row_of :: "ingest_env \<Rightarrow> adapter \<Rightarrow> int \<Rightarrow> new_event \<Rightarrow> event \<Rightarrow> bool" where
  "row_of I A now e n \<longleftrightarrow> (\<exists>r k. event_row I A now e = Inr r \<and> n = r\<lparr>ev_pk := k\<rparr>)"

lemma insert_events_shape:
  "\<exists>new. fold insert_event rows s = s\<lparr>db_events := db_events s @ new\<rparr> \<and>
     (\<forall>n \<in> set new. \<exists>r \<in> set rows. \<exists>k. n = r\<lparr>ev_pk := k\<rparr>)"
proof (induction rows arbitrary: s)
  case Nil
  show ?case by (intro exI[of _ "[]"]) simp
next
  case (Cons row rows)
  show ?case
  proof (cases "list_ex (\<lambda>r. conflicts r row) (db_events s)")
    case True
    then have "insert_event row s = s" by (simp add: insert_event_def)
    with Cons[of s] show ?thesis by auto
  next
    case False
    let ?row = "row\<lparr>ev_pk := next_key ev_pk (db_events s)\<rparr>"
    from Cons[of "s\<lparr>db_events := db_events s @ [?row]\<rparr>"] obtain new where
      "fold insert_event rows (s\<lparr>db_events := db_events s @ [?row]\<rparr>) = s\<lparr>db_events := db_events s @ ?row # new\<rparr>"
      "\<forall>n \<in> set new. \<exists>r \<in> set rows. \<exists>k. n = r\<lparr>ev_pk := k\<rparr>" by auto
    moreover have "insert_event row s = s\<lparr>db_events := db_events s @ [?row]\<rparr>" using False by (simp add: insert_event_def)
    ultimately show ?thesis by (intro exI[of _ "?row # new"]) auto
  qed
qed

lemma event_rows_from:
  "event_rows I A now es = Inr rows \<Longrightarrow> r \<in> set rows \<Longrightarrow> \<exists>e \<in> set es. event_row I A now e = Inr r"
  by (induction es arbitrary: rows) (auto simp: rbind_Inr)

lemma insert_batches_shape:
  "insert_batches I A now bs s = (res, t) \<Longrightarrow>
   \<exists>new. t = s\<lparr>db_events := db_events s @ new\<rparr> \<and> (\<forall>n \<in> set new. \<exists>e \<in> set (concat bs). row_of I A now e n)"
proof (induction bs arbitrary: s)
  case (Cons b bs)
  show ?case
  proof (cases "event_rows I A now b")
    case (Inl e)
    with Cons.prems show ?thesis by (intro exI[of _ "[]"]) simp
  next
    case (Inr rows)
    obtain n1 where n1: "fold insert_event rows s = s\<lparr>db_events := db_events s @ n1\<rparr>"
      "\<forall>n \<in> set n1. \<exists>r \<in> set rows. \<exists>k. n = r\<lparr>ev_pk := k\<rparr>" using insert_events_shape by blast
    from Cons.IH[of "s\<lparr>db_events := db_events s @ n1\<rparr>"] Cons.prems Inr n1(1) obtain n2 where
      n2: "t = s\<lparr>db_events := db_events s @ n1 @ n2\<rparr>" "\<forall>n \<in> set n2. \<exists>e \<in> set (concat bs). row_of I A now e n" by auto
    have "\<forall>n \<in> set n1. \<exists>e \<in> set b. row_of I A now e n"
      using n1(2) event_rows_from[OF Inr] unfolding row_of_def by blast
    then have "\<exists>e \<in> set (concat (b # bs)). row_of I A now e n" if "n \<in> set (n1 @ n2)" for n
      using that n2(2) by (auto simp: bex_Un)
    with n2(1) show ?thesis by blast
  qed
qed (simp add: exI[of _ "[]"])

lemma unique_events_subset: "set (unique_events seen es) \<subseteq> set es"
  by (induction seen es rule: unique_events.induct) (auto split: option.splits)

lemma bulk_save_shape:
  assumes "bulk_save_events I A now events s = (res, t)"
  shows "\<exists>new. t = s\<lparr>db_events := db_events s @ new\<rparr> \<and>
    (\<forall>n \<in> set new. \<exists>e \<in> set events. row_of I A now (with_key I (so_pk (ap_source A)) e) n)"
proof -
  let ?src = "so_pk (ap_source A)"
  let ?unique = "unique_events [] (map (with_key I ?src) events)"
  have none: ?thesis if "t = s" using that by (intro exI[of _ "[]"]) simp
  show ?thesis
  proof (cases "t = s")
    case False
    define tc where "tc = filter (\<lambda>e. \<not> (ne_ingest_key e \<noteq> None \<and> ne_ingest_key e \<in> set (existing_keys I ?src ?unique s))) ?unique"
    from assms False obtain r where "insert_batches I A now (split_list tc 100) s = (r, t)"
      unfolding bulk_save_events_def Let_def tc_def by (auto split: if_splits prod.splits sum.splits)
    from insert_batches_shape[OF this] obtain new where n: "t = s\<lparr>db_events := db_events s @ new\<rparr>"
      "\<forall>n \<in> set new. \<exists>e \<in> set tc. row_of I A now e n" by (auto simp: concat_split_list)
    have "set tc \<subseteq> with_key I ?src ` set events"
      using unique_events_subset[of "[]" "map (with_key I ?src) events"] by (auto simp: tc_def)
    with n show ?thesis by blast
  qed (rule none)
qed

lemma build_events_from:
  "e \<in> set (build_events I A uids s ds) \<Longrightarrow> \<exists>i d raw. (d, raw) \<in> set ds \<and> build_event I A (uids i) s d raw = Inr e"
  by (auto simp: build_events_def in_set_enumerate_eq split: sum.splits) (metis nth_mem surj_pair)

text \<open>A stored row comes from an event of the request: mapped, enriched, built, and stored.\<close>

definition stems_from :: "ingest_env \<Rightarrow> adapter \<Rightarrow> int \<Rightarrow> db \<Rightarrow> json \<Rightarrow> event \<Rightarrow> bool" where
  "stems_from I A now s raw n \<longleftrightarrow>
     (\<exists>d d' uid e. mapping_fields_to_event I A now raw = Inr (Some d) \<and> same_fields (setdefault_enrichment d) d' \<and>
        build_event I A uid s d' raw = Inr e \<and> row_of I A now (with_key I (so_pk (ap_source A)) e) n)"

lemma map_events_from:
  "(d, raw) \<in> set (map_events I A now evs) \<Longrightarrow>
   raw \<in> set evs \<and> (\<exists>d0. mapping_fields_to_event I A now raw = Inr (Some d0) \<and> d = setdefault_enrichment d0)"
  by (induction evs) (auto split: sum.splits option.splits)

lemma create_events_shape:
  assumes "create_events I A now D evs S = (res, T)"
  shows "\<exists>new. ig_db T = (ig_db S)\<lparr>db_events := db_events (ig_db S) @ new\<rparr> \<and>
    (\<forall>n \<in> set new. \<exists>raw \<in> set evs. stems_from I A now (ig_db S) raw n)"
proof -
  let ?ds = "map_events I A now evs"
  obtain ds' c where en: "enrich_batch (ie_enrich I) (ie_registry I) (ig_rules S) (map fst ?ds, ig_cache S) = (ds', c)" by fastforce
  then have same: "same_batch (map fst ?ds) ds'" using enrich_batch_fields by (metis fst_conv)
  let ?events = "build_events I A (dr_events D) (ig_db S) (zip ds' (map snd ?ds))"
  obtain r t where b: "bulk_save_events I A now ?events (ig_db S) = (r, t)" by fastforce
  with assms en have T: "ig_db T = t" by (auto simp: create_events_def Let_def)
  have "stems_from I A now (ig_db S) raw n \<and> raw \<in> set evs"
    if "(d', raw) \<in> set (zip ds' (map snd ?ds))" "build_event I A uid (ig_db S) d' raw = Inr e"
      "row_of I A now (with_key I (so_pk (ap_source A)) e) n" for d' raw uid e n
  proof -
    from that(1) obtain i where i: "i < length ds'" "i < length ?ds" "d' = ds' ! i" "raw = snd (?ds ! i)"
      by (auto simp: set_zip)
    have "same_fields (fst (?ds ! i)) d'" using list_all2_nthD2[OF same i(1)] i by simp
    moreover have "(fst (?ds ! i), raw) \<in> set ?ds" using i by simp
    ultimately show ?thesis using map_events_from that(2,3) unfolding stems_from_def by metis
  qed
  with bulk_save_shape[OF b] build_events_from[of _ I A "dr_events D" "ig_db S" "zip ds' (map snd ?ds)"] T
  show ?thesis by metis
qed

text \<open>The events of a request up to their status: the old ones and new ones that stem from it.\<close>

lemma adapter_main_shape:
  assumes "adapter_main I A now D evs S = (r, T)"
  shows "\<exists>new. map settled (db_events (ig_db T)) = map settled (db_events (ig_db S) @ new) \<and>
    (\<forall>n \<in> set new. \<exists>raw \<in> set evs. stems_from I A now (ig_db S) raw n)"
proof -
  obtain r0 T0 where c: "create_events I A now D evs S = (r0, T0)" by fastforce
  from create_events_shape[OF c] adapter_main_events[OF c assms] show ?thesis by auto
qed

section \<open>Who may store events, and for whom\<close>

lemma row_of_fields:
  assumes "row_of I A now (with_key I src e) n"
  shows "ev_team n = ne_team e" "ev_source_pk n = so_pk (ap_source A)" "ev_event_id n = ne_event_id e"
    "ev_push_source_id n = istr I (ne_push_source_id e)" "ev_ingest_key n = build_ingress_dedup_key I src e"
    "ev_external_id n = Some (istr I (ne_external_id e))" "ev_level n = istr I (attr (ne_data e) ''level'' (PJ (JStr [])))"
    "ev_title n = istr I (attr (ne_data e) ''title'' (PJ (JStr [])))"
    "Inr (ev_start_time n) = time_column (map_of (ne_data e) ''start_time'')"
  using assms by (auto simp: row_of_def event_row_def with_key_def rbind_Inr Let_def)

lemma build_event_fields:
  assumes "build_event I A uid s d raw = Inr e"
  shows "\<exists>ev. raw = JObj ev \<and> ne_team e = resolve_event_team A ev \<and>
      ne_data e = filter (\<lambda>(k, _). k \<noteq> ''_start_time_synthesized'') d \<and>
      ne_push_source_id e = push_source ev (ne_data e)"
  using assms by (auto simp: build_event_def Let_def split: if_splits json.splits)

lemma stems_from_team:
  assumes "stems_from I A now s raw n"
  shows "\<exists>ev. raw = JObj ev \<and> ev_team n = resolve_event_team A ev \<and> ev_source_pk n = so_pk (ap_source A)"
  using assms build_event_fields row_of_fields(1,2) unfolding stems_from_def by metis

lemma new_adapter_fields:
  assumes "new_adapter E levels src secret trusted = Inr A"
  shows "ap_source A = src" "ap_secret A = secret" "ap_trusted A = trusted"
    "resolve_team_from_secret E src secret = Inr (ap_team A)" "levels \<noteq> []"
    "ap_levels A = map str_int (sort levels)" "ap_info_level A = str_int (last (sort levels))"
  using assms by (auto simp: new_adapter_def get_event_level_def rbind_Inr split: if_splits)

lemma authenticate_fields:
  assumes "authenticate A = Inr B"
  shows "ap_source B = ap_source A" "ap_trusted B = ap_trusted A" "ap_levels B = ap_levels A" "ap_info_level B = ap_info_level A"
    "ap_team A \<noteq> [] \<and> ap_team B = ap_team A \<or>
     so_source_id (ap_source A) = SNMP_TRAP_SOURCE_ID \<and> ap_secret A = JStr (so_secret (ap_source A)) \<and>
     ap_secret A \<noteq> JStr [] \<and> ap_team B = [JInt DEFAULT_GROUP_ID]"
  using assms by (auto simp: authenticate_def Let_def split: if_splits)

text \<open>The team that a secret gives to the events of a source.\<close>

definition secret_gives :: "secret_env \<Rightarrow> alert_source \<Rightarrow> json \<Rightarrow> json list \<Rightarrow> bool" where
  "secret_gives E src secret team \<longleftrightarrow>
     (\<exists>tid sec. (tid, sec) \<in> set (so_team_secrets src) \<and> secret = JStr sec \<and>
        decode_team_secret E sec = Inr (Some (so_secret src, tid)) \<and> team = [team_value tid]) \<or>
     so_source_id src = SNMP_TRAP_SOURCE_ID \<and> so_secret src \<noteq> [] \<and> secret = JStr (so_secret src) \<and>
       team = [JInt DEFAULT_GROUP_ID]"

lemma authenticated_team:
  assumes "new_adapter E levels src secret trusted = Inr A" "authenticate A = Inr B"
  shows "secret_gives E src secret (ap_team B)"
proof -
  note f = new_adapter_fields[OF assms(1)]
  from authenticate_fields(5)[OF assms(2)] show ?thesis
  proof
    assume "ap_team A \<noteq> [] \<and> ap_team B = ap_team A"
    with resolve_sound[OF f(4)] show ?thesis unfolding secret_gives_def by auto
  qed (use f in \<open>auto simp: secret_gives_def\<close>)
qed

lemma receive_from_shape:
  assumes "receive_from I now D src secret data S = (ans, T)"
  shows "T = S \<or> (\<exists>A B evs r. new_adapter (ie_secrets I) (ig_levels S) src secret False = Inr A \<and>
    authenticate A = Inr B \<and> normalize_payload (ie_payload I) (so_source_type src) data = Inr evs \<and>
    adapter_main I B now D evs S = (r, T) \<and> ans = answer_of r)"
  using assms
  by (auto simp: receive_from_def rbind_Inr split: sum.splits if_splits prod.splits)

lemma find_source: "find P xs = Some x \<Longrightarrow> P x \<and> x \<in> set xs"
  by (metis find_Some_iff nth_mem)

lemma receive_events_shape:
  assumes "receive_events I now D path ty header body S = (ans, T)"
  shows "T = S \<or> (\<exists>src data. body = Some (JObj data) \<and> src \<in> set (ig_sources S) \<and> so_is_active src \<and>
    so_is_effective src \<and> \<not> so_is_delete src \<and> receive_from I now D src (request_secret header data) data S = (ans, T))"
proof (cases "\<exists>data. body = Some (JObj data)")
  case True
  then obtain data where b: "body = Some (JObj data)" by blast
  show ?thesis
  proof (cases "find (usable_source I (request_source_id path data)) (ig_sources S)")
    case None
    with b assms show ?thesis by (auto simp: receive_events_def Let_def split: if_splits)
  next
    case (Some src)
    from find_source[OF Some] have "src \<in> set (ig_sources S)" "so_is_active src" "so_is_effective src" "\<not> so_is_delete src"
      by (simp_all add: usable_source_def)
    with b Some assms show ?thesis by (auto simp: receive_events_def Let_def split: if_splits)
  qed
qed (use assms in \<open>auto simp: receive_events_def split: option.splits json.splits\<close>)

text \<open>C30: the events that a request stores belong to a source in use, and carry the team of the secret
  of the request: a token of the source that names this team, or, for the SNMP trap source, the secret
  of the source itself. Nothing else changes the events but their status, also when the request fails.\<close>

theorem received_events_authenticated:
  assumes "receive_events I now D path ty header body S = (ans, T)"
  shows "\<exists>new. map settled (db_events (ig_db T)) = map settled (db_events (ig_db S) @ new) \<and>
    (new \<noteq> [] \<longrightarrow> (\<exists>src data. body = Some (JObj data) \<and> src \<in> set (ig_sources S) \<and> so_is_active src \<and>
       so_is_effective src \<and> \<not> so_is_delete src \<and>
       (\<forall>n \<in> set new. ev_source_pk n = so_pk src \<and> secret_gives (ie_secrets I) src (request_secret header data) (ev_team n))))"
proof (cases "T = S")
  case True
  then show ?thesis by (intro exI[of _ "[]"]) simp
next
  case False
  with receive_events_shape[OF assms] obtain src data where
    src: "body = Some (JObj data)" "src \<in> set (ig_sources S)" "so_is_active src" "so_is_effective src" "\<not> so_is_delete src"
    and r: "receive_from I now D src (request_secret header data) data S = (ans, T)" by blast
  from receive_from_shape[OF r] False obtain A B evs res where
    a: "new_adapter (ie_secrets I) (ig_levels S) src (request_secret header data) False = Inr A" "authenticate A = Inr B"
      "adapter_main I B now D evs S = (res, T)" by blast
  have B: "ap_source B = src" "\<not> ap_trusted B"
    using new_adapter_fields(1,3)[OF a(1)] authenticate_fields(1,2)[OF a(2)] by auto
  from adapter_main_shape[OF a(3)] obtain new where
    n: "map settled (db_events (ig_db T)) = map settled (db_events (ig_db S) @ new)"
      "\<forall>n \<in> set new. \<exists>raw \<in> set evs. stems_from I B now (ig_db S) raw n" by blast
  have "ev_source_pk n = so_pk src \<and> ev_team n = ap_team B" if "n \<in> set new" for n
    using n(2) that B by (fastforce dest: stems_from_team simp: resolve_event_team_def)
  with n(1) src authenticated_team[OF a(1,2)] show ?thesis by metis
qed

text \<open>C31: the events of the internal channel only belong to organizations that are registered at the
  source; a pusher other than the monitoring application cannot choose an organization at all.\<close>

theorem internal_events_confined:
  assumes "receive_alert_events I now D source_id events pusher S = (ok, T)"
  shows "\<exists>new. map settled (db_events (ig_db T)) = map settled (db_events (ig_db S) @ new) \<and>
    (\<forall>n \<in> set new. \<exists>src \<in> set (ig_sources S). so_source_type src = ''nats'' \<and> so_is_active src \<and> \<not> so_is_delete src \<and>
       ev_source_pk n = so_pk src \<and>
       (\<forall>t \<in> set (ev_team n). \<exists>i. t = JInt i \<and> str_int i \<in> fst ` set (so_team_secrets src)) \<and>
       (pusher \<noteq> JStr ''lite-monitor'' \<longrightarrow> ev_team n = []))"
proof (cases "T = S")
  case True
  then show ?thesis by (intro exI[of _ "[]"]) simp
next
  case False
  with assms obtain src A evs res where
    src: "find (\<lambda>src. usable_source I source_id src \<and> so_source_type src = ''nats'') (ig_sources S) = Some src"
    and a: "new_adapter (ie_secrets I) (ig_levels S) src (JStr []) (pusher = JStr ''lite-monitor'') = Inr A"
      "adapter_main I A now D evs S = (res, T)"
    by (auto simp: receive_alert_events_def rbind_Inr split: if_splits option.splits sum.splits prod.splits)
  have s: "src \<in> set (ig_sources S)" "so_source_type src = ''nats''" "so_is_active src" "\<not> so_is_delete src"
    using find_source[OF src] by (simp_all add: usable_source_def)
  note f = new_adapter_fields[OF a(1)]
  have t: "ap_team A = []" using f(4) by (simp add: resolve_team_from_secret_def)
  from adapter_main_shape[OF a(2)] obtain new where
    n: "map settled (db_events (ig_db T)) = map settled (db_events (ig_db S) @ new)"
      "\<forall>n \<in> set new. \<exists>raw \<in> set evs. stems_from I A now (ig_db S) raw n" by blast
  have "ev_source_pk n = so_pk src \<and> (\<forall>t \<in> set (ev_team n). \<exists>i. t = JInt i \<and> str_int i \<in> fst ` set (so_team_secrets src)) \<and>
      (pusher \<noteq> JStr ''lite-monitor'' \<longrightarrow> ev_team n = [])" if "n \<in> set new" for n
  proof -
    from n(2) that obtain raw where "stems_from I A now (ig_db S) raw n" by blast
    from stems_from_team[OF this] t f(1,3) show ?thesis
      by (force simp: resolve_event_team_def split: if_splits sum.splits)
  qed
  with n(1) s show ?thesis by blast
qed

section \<open>Requests as steps\<close>

inductive ingest_step :: "ingest_env \<Rightarrow> ingest_state \<Rightarrow> ingest_state \<Rightarrow> bool" for I where
  received: "receive_events I now D path ty header body S = (ans, T) \<Longrightarrow> ingest_step I S T"
| internal: "receive_alert_events I now D source_id events pusher S = (ok, T) \<Longrightarrow> ingest_step I S T"

text \<open>A request runs the adapter of a source of the database, or does nothing.\<close>

lemma ingest_step_main:
  assumes "ingest_step I S T"
  shows "T = S \<or> (\<exists>A now D evs r. adapter_main I A now D evs S = (r, T) \<and> ap_source A \<in> set (ig_sources S) \<and>
    ig_levels S \<noteq> [] \<and> ap_levels A = map str_int (sort (ig_levels S)) \<and> ap_info_level A \<in> set (ap_levels A))"
proof -
  have info: "str_int (last (sort ls)) \<in> set (map str_int (sort ls))" if "ls \<noteq> []" for ls
    using that last_in_set[of "sort ls"] by (metis image_eqI list.set_map set_empty set_sort)
  from assms show ?thesis
  proof cases
    case (received now D path ty header body ans)
    from receive_events_shape[OF received] show ?thesis
    proof
      assume "\<exists>src data. body = Some (JObj data) \<and> src \<in> set (ig_sources S) \<and> so_is_active src \<and>
        so_is_effective src \<and> \<not> so_is_delete src \<and> receive_from I now D src (request_secret header data) data S = (ans, T)"
      then obtain src data where s: "src \<in> set (ig_sources S)"
        and r: "receive_from I now D src (request_secret header data) data S = (ans, T)" by blast
      from receive_from_shape[OF r] show ?thesis
      proof
        assume "\<exists>A B evs r. new_adapter (ie_secrets I) (ig_levels S) src (request_secret header data) False = Inr A \<and>
          authenticate A = Inr B \<and> normalize_payload (ie_payload I) (so_source_type src) data = Inr evs \<and>
          adapter_main I B now D evs S = (r, T) \<and> ans = answer_of r"
        then obtain A B evs r where a: "new_adapter (ie_secrets I) (ig_levels S) src (request_secret header data) False = Inr A"
          "authenticate A = Inr B" "adapter_main I B now D evs S = (r, T)" by blast
        from new_adapter_fields[OF a(1)] authenticate_fields(1,3,4)[OF a(2)] a(3) s info[of "ig_levels S"] show ?thesis
          by (intro disjI2 exI[of _ B] exI[of _ now] exI[of _ D] exI[of _ evs] exI[of _ r]) simp
      qed simp
    qed simp
  next
    case (internal now D source_id events pusher ok)
    then consider "T = S" | src A evs r where
      "find (\<lambda>src. usable_source I source_id src \<and> so_source_type src = ''nats'') (ig_sources S) = Some src"
      "new_adapter (ie_secrets I) (ig_levels S) src (JStr []) (pusher = JStr ''lite-monitor'') = Inr A"
      "adapter_main I A now D evs S = (r, T)"
      by (auto simp: receive_alert_events_def rbind_Inr split: if_splits option.splits sum.splits prod.splits)
    then show ?thesis
    proof cases
      case (2 src A evs r)
      from new_adapter_fields[OF 2(2)] find_source[OF 2(1)] 2(3) info[of "ig_levels S"] show ?thesis
        by (intro disjI2 exI[of _ A] exI[of _ now] exI[of _ D] exI[of _ evs] exI[of _ r]) simp
    qed simp
  qed
qed

lemma adapter_main_frame:
  "adapter_main I A now D evs S = (r, T) \<Longrightarrow> ig_sources T = ig_sources S \<and> ig_levels T = ig_levels S"
  by (auto simp: adapter_main_def create_events_def Let_def split: prod.splits sum.splits if_splits)

lemma ingest_step_frame: "ingest_step I S T \<Longrightarrow> ig_sources T = ig_sources S \<and> ig_levels T = ig_levels S"
  using ingest_step_main adapter_main_frame by metis

section \<open>Unique keys\<close>

definition ingest_unique :: "event list \<Rightarrow> bool" where
  "ingest_unique es \<longleftrightarrow> keyed ev_pk es \<and> keyed ev_event_id es \<and>
     keyed (\<lambda>r. (ev_source_pk r, ev_push_source_id r, ev_ingest_key r)) (filter (\<lambda>r. ev_ingest_key r \<noteq> None) es)"

lemma ingest_unique_settled: "ingest_unique (map settled es) = ingest_unique es"
  by (simp add: ingest_unique_def keyed_def filter_map comp_def)

lemma insert_event_unique: "ingest_unique (db_events s) \<Longrightarrow> ingest_unique (db_events (insert_event row s))"
  using next_key_fresh[of ev_pk "db_events s"]
  by (auto simp: insert_event_def ingest_unique_def keyed_def conflicts_def list_ex_iff image_iff)

lemma insert_events_unique: "ingest_unique (db_events s) \<Longrightarrow> ingest_unique (db_events (fold insert_event rows s))"
  by (induction rows arbitrary: s) (simp_all add: insert_event_unique)

lemma insert_batches_unique:
  "ingest_unique (db_events s) \<Longrightarrow> ingest_unique (db_events (snd (insert_batches I A now bs s)))"
  by (induction bs arbitrary: s) (auto simp: insert_events_unique split: sum.splits)

lemma bulk_save_unique:
  assumes "ingest_unique (db_events s)"
  shows "ingest_unique (db_events (snd (bulk_save_events I A now events s)))"
proof -
  have "ingest_unique (db_events t)" if "insert_batches I A now bs s = (r, t)" for bs r t
    using insert_batches_unique[OF assms, of I A now bs] that by simp
  with assms show ?thesis by (auto simp: bulk_save_events_def Let_def split: prod.splits sum.splits)
qed

lemma adapter_main_unique:
  assumes "adapter_main I A now D evs S = (r, T)" "ingest_unique (db_events (ig_db S))"
  shows "ingest_unique (db_events (ig_db T))"
proof -
  obtain r0 T0 where c: "create_events I A now D evs S = (r0, T0)" by fastforce
  then have "ingest_unique (db_events (ig_db T0))"
    using bulk_save_unique[OF assms(2), of I A now] by (auto simp: create_events_def Let_def split: prod.splits) (metis snd_conv)
  with adapter_main_events[OF c assms(1)] show ?thesis by (metis ingest_unique_settled)
qed

text \<open>C32: whatever requests arrive on both channels, the keys of the events stay unique: no two rows
  have the same id, and no two rows of a source and a pusher have the same ingest key.\<close>

theorem ingest_keys_unique:
  assumes "(ingest_step I)\<^sup>*\<^sup>* S T" "ingest_unique (db_events (ig_db S))"
  shows "ingest_unique (db_events (ig_db T))"
  using assms
proof (induction rule: rtranclp_induct)
  case (step T U)
  with ingest_step_main[of I T U] adapter_main_unique show ?case by metis
qed

section \<open>What a stored row looks like\<close>

definition event_typed :: "int list \<Rightarrow> event \<Rightarrow> bool" where
  "event_typed levels r \<longleftrightarrow> ev_level r \<in> str_int ` set levels \<and> ev_title r \<noteq> [] \<and> ev_start_time r \<noteq> None \<and>
     ev_external_id r \<noteq> None \<and> ev_external_id r \<noteq> Some [] \<and> ev_push_source_id r \<noteq> []"

text \<open>Documented of the parameters: texts of values and digests are not empty.\<close>

definition digests_ok :: "ingest_env \<Rightarrow> bool" where
  "digests_ok I \<longleftrightarrow> texts_nonempty (ie_enrich I) \<and> (\<forall>x. ie_md5 I x \<noteq> [])"

text \<open>The values of the columns that the code checks while it maps an event.\<close>

definition column_ok :: "adapter \<Rightarrow> string \<Rightarrow> pyval \<Rightarrow> bool" where
  "column_ok A k w \<longleftrightarrow>
     (k = ''title'' \<longrightarrow> (\<exists>v. w = PJ v \<and> truthy v)) \<and>
     (k = ''level'' \<longrightarrow> (\<exists>l \<in> set (ap_levels A). w = PJ (JStr l))) \<and>
     (k = ''start_time'' \<longrightarrow> pv_truthy w \<longrightarrow> (\<exists>t. w = PT t))"

lemma column_value_ok:
  assumes "column_value A ev key field = Inr (Some (Some v))" "ap_info_level A \<in> set (ap_levels A)"
  shows "column_ok A key (convert_field I now key v)"
  using assms
  by (auto simp: column_value_def column_ok_def convert_field_def rbind_Inr split: if_splits)

lemma map_fields_Cons:
  assumes "map_fields I A now ev ((key, field) # m) out = Inr (Some d)"
  obtains (skipped) "column_value A ev key field = Inr (Some None)" "map_fields I A now ev m out = Inr (Some d)"
  | (stored) v where "column_value A ev key field = Inr (Some (Some v))"
      "map_fields I A now ev m (tsave fst (key, convert_field I now key v) out) = Inr (Some d)"
proof -
  from assms obtain r where r: "column_value A ev key field = Inr r" by (auto simp: rbind_Inr)
  consider "r = None" | "r = Some None" | v where "r = Some (Some v)" by (cases r) auto
  then show thesis using assms r by cases (simp_all add: skipped stored)
qed

lemma fst_tsave: "fst ` set (tsave fst (k, v) xs) = insert k (fst ` set xs)"
proof -
  have "x \<in> fst ` set (tsave fst (k, v) xs) \<longleftrightarrow> x \<in> insert k (fst ` set xs)" for x
    using map_of_tsave[of k v xs x] by (metis insert_iff map_of_eq_None_iff option.distinct(1))
  then show ?thesis by blast
qed

lemma map_fields_ok:
  assumes "map_fields I A now ev m out = Inr (Some d)" "ap_info_level A \<in> set (ap_levels A)"
    "\<forall>k w. map_of out k = Some w \<longrightarrow> column_ok A k w"
  shows "\<forall>k w. map_of d k = Some w \<longrightarrow> column_ok A k w"
  using assms(1,3)
proof (induction m arbitrary: out)
  case (Cons p m)
  obtain key field where p: "p = (key, field)" by fastforce
  from Cons.prems(1)[unfolded p] show ?case
  proof (cases rule: map_fields_Cons)
    case skipped
    with Cons show ?thesis by blast
  next
    case (stored v)
    from column_value_ok[OF stored(1) assms(2), of I now] Cons.prems(2)
    have "\<forall>k w. map_of (tsave fst (key, convert_field I now key v) out) k = Some w \<longrightarrow> column_ok A k w"
      by (simp add: map_of_tsave)
    with Cons.IH stored(2) show ?thesis by blast
  qed
qed simp

lemma map_fields_keys: "map_fields I A now ev m out = Inr (Some d) \<Longrightarrow> fst ` set out \<subseteq> fst ` set d"
proof (induction m arbitrary: out)
  case (Cons p m)
  obtain key field where p: "p = (key, field)" by fastforce
  from Cons.prems(1)[unfolded p] show ?case
  proof (cases rule: map_fields_Cons)
    case (stored v)
    from Cons.IH[OF stored(2)] show ?thesis by (simp add: fst_tsave)
  qed (rule Cons.IH)
qed simp

lemma map_fields_has:
  assumes "map_fields I A now ev m out = Inr (Some d)" "k = ''title'' \<or> k = ''level''" "k \<in> fst ` set m"
  shows "k \<in> fst ` set d"
  using assms(1,3)
proof (induction m arbitrary: out)
  case (Cons p m)
  obtain key field where p: "p = (key, field)" by fastforce
  from Cons.prems(1)[unfolded p] show ?case
  proof (cases rule: map_fields_Cons)
    case skipped
    then have "key \<noteq> k" using assms(2) by (auto simp: column_value_def rbind_Inr split: if_splits)
    with Cons skipped p show ?thesis by auto
  next
    case (stored v)
    from Cons.IH[OF stored(2)] map_fields_keys[OF stored(2)] Cons.prems(2) p show ?thesis by (auto simp: fst_tsave)
  qed
qed simp

lemma map_of_without: "map_of (filter (\<lambda>(k, _). k \<noteq> f) d) k = (if k = f then None else map_of d k)"
  by (induction d) auto

lemma map_of_add_start:
  "map_of (add_start_time now d) k =
     (if map_of d ''start_time'' \<noteq> None \<and> pv_truthy (the (map_of d ''start_time'')) then map_of d k
      else if k = ''_start_time_synthesized'' then Some (PJ (JBool True))
      else if k = ''start_time'' then Some (PT now) else map_of d k)"
  by (simp add: add_start_time_def map_of_tsave split: option.split)

lemma map_of_setdefault: "k \<noteq> ''enrichment'' \<Longrightarrow> map_of (setdefault_enrichment d) k = map_of d k"
  by (simp add: setdefault_enrichment_def map_add_def split: option.split)

lemma mapping_ok:
  assumes "mapping_fields_to_event I A now raw = Inr (Some d)" "ap_info_level A \<in> set (ap_levels A)"
    "{''title'', ''level''} \<subseteq> fst ` set (so_mapping (ap_source A))"
  shows "(\<exists>v. map_of d ''title'' = Some (PJ v) \<and> truthy v) \<and> (\<exists>l \<in> set (ap_levels A). map_of d ''level'' = Some (PJ (JStr l))) \<and>
    (\<exists>t. map_of d ''start_time'' = Some (PT t))"
proof -
  from assms(1) obtain d0 where m: "map_fields I A now raw (so_mapping (ap_source A)) [] = Inr (Some d0)"
    and d: "d = add_start_time now d0" by (cases "map_fields I A now raw (so_mapping (ap_source A)) []") (auto simp: mapping_fields_to_event_def)
  have ok: "\<forall>k w. map_of d0 k = Some w \<longrightarrow> column_ok A k w" by (rule map_fields_ok[OF m assms(2)]) simp
  have "''title'' \<in> fst ` set d0" "''level'' \<in> fst ` set d0"
    using map_fields_has[OF m] assms(3) by auto
  then obtain v w where vw: "map_of d0 ''title'' = Some v" "map_of d0 ''level'' = Some w"
    by (metis map_of_eq_None_iff option.exhaust)
  from ok vw have "column_ok A ''title'' v" "column_ok A ''level'' w" by blast+
  then have "\<exists>j. v = PJ j \<and> truthy j" "\<exists>l \<in> set (ap_levels A). w = PJ (JStr l)" by (auto simp: column_ok_def)
  moreover have "\<exists>t. map_of d ''start_time'' = Some (PT t)"
  proof (cases "map_of d0 ''start_time''")
    case (Some x)
    with ok have "column_ok A ''start_time'' x" by blast
    with Some show ?thesis by (auto simp: d map_of_add_start column_ok_def)
  qed (simp add: d map_of_add_start)
  ultimately show ?thesis using vw by (simp add: d map_of_add_start)
qed

lemma truthy_text: "texts_nonempty E \<Longrightarrow> truthy v \<Longrightarrow> py_str (en_repr E) v \<noteq> []"
  using val_str_nonempty[of E "PJ v"] by (cases v) (auto simp: blank_def)

lemma pv_truthy_text: "texts_nonempty (ie_enrich I) \<Longrightarrow> pv_truthy v \<Longrightarrow> istr I v \<noteq> []"
  by (rule val_str_nonempty) (auto simp: blank_def)

lemma push_source_truthy: "pv_truthy (push_source ev d)"
  by (simp add: push_source_def Let_def)

lemma only_external_id_nonempty: "y \<in> set (only_external_id src item name a s) \<Longrightarrow> y \<noteq> []"
  by (auto simp: only_external_id_def ext_id_def Let_def split: if_splits option.splits)

lemma recovery_id_nonempty:
  assumes "resolve_recovery_external_id I A d s = Some y"
  shows "y \<noteq> []"
proof -
  have one: "hd xs \<in> set xs" if "length xs = 1" for xs :: "string list" using that by (cases xs) auto
  let ?norm = "\<lambda>k. normalize_lookup_value I (attr d k (PJ JNull))"
  let ?ids = "\<lambda>a. only_external_id (so_pk (ap_source A)) (?norm ''item'') (?norm ''resource_name'') a s"
  from assms obtain as where "length (remdups (concat (map ?ids as))) = 1" "y = hd (remdups (concat (map ?ids as)))"
    by (auto simp: resolve_recovery_external_id_def Let_def split: if_splits)
  with one have "y \<in> set (concat (map ?ids as))" by (metis set_remdups)
  then show ?thesis by (auto dest: only_external_id_nonempty)
qed

lemma build_external_nonempty:
  assumes "build_event I A uid s d raw = Inr e" "digests_ok I"
  shows "istr I (ne_external_id e) \<noteq> []"
  using assms recovery_id_nonempty pv_truthy_text
  by (auto simp: build_event_def digests_ok_def generate_external_id_def Let_def split: if_splits json.splits option.splits)

lemma stems_from_typed:
  assumes "stems_from I A now s raw n" "ap_info_level A \<in> set (ap_levels A)" "digests_ok I"
    "{''title'', ''level''} \<subseteq> fst ` set (so_mapping (ap_source A))" "ap_levels A = map str_int (sort levels)"
  shows "event_typed levels n"
proof -
  from assms(1) obtain d d' uid e where m: "mapping_fields_to_event I A now raw = Inr (Some d)"
    and f: "same_fields (setdefault_enrichment d) d'" and b: "build_event I A uid s d' raw = Inr e"
    and r: "row_of I A now (with_key I (so_pk (ap_source A)) e) n" unfolding stems_from_def by blast
  from build_event_fields[OF b] obtain ev where ne: "ne_data e = filter (\<lambda>(k, _). k \<noteq> ''_start_time_synthesized'') d'"
    "ne_push_source_id e = push_source ev (ne_data e)" by blast
  have get: "map_of (ne_data e) k = map_of d k" if "k \<noteq> ''enrichment''" "k \<noteq> ''_start_time_synthesized''" for k
    using f that by (simp add: ne map_of_without same_fields_def map_of_setdefault)
  from mapping_ok[OF m assms(2,4)] get obtain v l t where g: "map_of (ne_data e) ''title'' = Some (PJ v)" "truthy v"
    "map_of (ne_data e) ''level'' = Some (PJ (JStr l))" "l \<in> set (ap_levels A)" "map_of (ne_data e) ''start_time'' = Some (PT t)"
    by auto
  note fs = row_of_fields[OF r]
  have "ev_title n \<noteq> []" using fs(8) g assms(3) truthy_text by (simp add: attr_def digests_ok_def)
  moreover have "ev_level n \<in> str_int ` set levels" using fs(7) g assms(5) by (simp add: attr_def)
  moreover have "ev_start_time n \<noteq> None" using fs(9) g by simp
  moreover have "ev_push_source_id n \<noteq> []" using fs(4) ne(2) push_source_truthy pv_truthy_text assms(3) by (simp add: digests_ok_def)
  moreover have "ev_external_id n \<noteq> None" "ev_external_id n \<noteq> Some []" using fs(6) build_external_nonempty[OF b assms(3)] by simp_all
  ultimately show ?thesis by (simp add: event_typed_def)
qed

text \<open>C33: whatever requests arrive on both channels, every stored event is complete: its level is one of
  the configured event levels, and its title, start time, external id and pusher are there, whatever
  the documents of the requests look like.\<close>

theorem ingest_rows_typed:
  assumes "(ingest_step I)\<^sup>*\<^sup>* S T" "digests_ok I"
    "\<forall>src \<in> set (ig_sources S). {''title'', ''level''} \<subseteq> fst ` set (so_mapping src)"
    "\<forall>r \<in> set (db_events (ig_db S)). event_typed (ig_levels S) r"
  shows "\<forall>r \<in> set (db_events (ig_db T)). event_typed (ig_levels S) r"
proof -
  have settled: "event_typed ls (settled r) = event_typed ls r" for ls r by (simp add: event_typed_def)
  from assms(1) have "ig_sources T = ig_sources S \<and> ig_levels T = ig_levels S \<and>
      (\<forall>r \<in> settled ` set (db_events (ig_db T)). event_typed (ig_levels S) r)"
  proof (induction rule: rtranclp_induct)
    case base
    then show ?case using assms(4) by (auto simp: settled)
  next
    case (step T U)
    from ingest_step_main[OF step(2)] show ?case
    proof
      assume "\<exists>A now D evs r. adapter_main I A now D evs T = (r, U) \<and> ap_source A \<in> set (ig_sources T) \<and>
        ig_levels T \<noteq> [] \<and> ap_levels A = map str_int (sort (ig_levels T)) \<and> ap_info_level A \<in> set (ap_levels A)"
      then obtain A now D evs r where a: "adapter_main I A now D evs T = (r, U)" "ap_source A \<in> set (ig_sources S)"
        "ap_levels A = map str_int (sort (ig_levels S))" "ap_info_level A \<in> set (ap_levels A)" using step.IH by auto
      from adapter_main_shape[OF a(1)] obtain new where n:
        "map settled (db_events (ig_db U)) = map settled (db_events (ig_db T) @ new)"
        "\<forall>n \<in> set new. \<exists>raw \<in> set evs. stems_from I A now (ig_db T) raw n" by blast
      have "event_typed (ig_levels S) x" if "x \<in> set new" for x
      proof -
        from n(2) that obtain raw where "stems_from I A now (ig_db T) raw x" by blast
        from stems_from_typed[OF this a(4) assms(2) _ a(3)] a(2) assms(3) show ?thesis by blast
      qed
      moreover have "settled ` set (db_events (ig_db U)) = settled ` set (db_events (ig_db T)) \<union> settled ` set new"
        using arg_cong[OF n(1), of set] by (simp add: image_Un)
      ultimately show ?thesis using step.IH ingest_step_frame[OF step(2)] by (auto simp: settled)
    qed (use step in simp)
  qed
  then show ?thesis by (simp add: settled)
qed

section \<open>No event is lost\<close>

text \<open>The row itself, or one with the same key.\<close>

definition recorded_as :: "event \<Rightarrow> event \<Rightarrow> bool" where
  "recorded_as row r \<longleftrightarrow> (\<exists>k. r = row\<lparr>ev_pk := k\<rparr>) \<or>
     (ev_ingest_key row \<noteq> None \<and> ev_ingest_key r = ev_ingest_key row \<and> ev_source_pk r = ev_source_pk row \<and>
      ev_push_source_id r = ev_push_source_id row)"

lemma insert_event_grows: "set (db_events s) \<subseteq> set (db_events (insert_event row s))"
  by (simp add: insert_event_def subset_iff)

lemma insert_events_grow: "set (db_events s) \<subseteq> set (db_events (fold insert_event rows s))"
  using insert_events_shape[of rows s] by auto

lemma insert_event_ids: "ev_event_id ` set (db_events (insert_event row s)) \<subseteq> insert (ev_event_id row) (ev_event_id ` set (db_events s))"
  by (auto simp: insert_event_def)

lemma insert_event_records:
  "ev_event_id row \<notin> ev_event_id ` set (db_events s) \<Longrightarrow> \<exists>r \<in> set (db_events (insert_event row s)). recorded_as row r"
proof -
  assume id: "ev_event_id row \<notin> ev_event_id ` set (db_events s)"
  show ?thesis
  proof (cases "list_ex (\<lambda>r. conflicts r row) (db_events s)")
    case True
    then obtain r where "r \<in> set (db_events s)" "conflicts r row" by (auto simp: list_ex_iff)
    moreover from this id have "recorded_as row r" by (auto simp: conflicts_def recorded_as_def image_iff)
    ultimately show ?thesis using True by (auto simp: insert_event_def)
  next
    case False
    have "recorded_as row (row\<lparr>ev_pk := k\<rparr>)" for k unfolding recorded_as_def by blast
    with False show ?thesis by (simp add: insert_event_def)
  qed
qed

lemma disjoint_mono: "A \<subseteq> A' \<Longrightarrow> B \<subseteq> B' \<Longrightarrow> A' \<inter> B' = {} \<Longrightarrow> A \<inter> B = {}"
  by blast

lemma insert_events_record:
  assumes "distinct (map ev_event_id rows)" "ev_event_id ` set rows \<inter> ev_event_id ` set (db_events s) = {}" "row \<in> set rows"
  shows "\<exists>r \<in> set (db_events (fold insert_event rows s)). recorded_as row r"
  using assms
proof (induction rows arbitrary: s)
  case (Cons row1 rows)
  let ?s = "insert_event row1 s"
  show ?case
  proof (cases "row = row1")
    case True
    with Cons.prems(2) have "ev_event_id row \<notin> ev_event_id ` set (db_events s)" by simp
    from insert_event_records[OF this] obtain r where "r \<in> set (db_events ?s)" "recorded_as row r" using True by blast
    with insert_events_grow[of ?s rows] show ?thesis by auto
  next
    case False
    have n: "ev_event_id row1 \<notin> ev_event_id ` set rows" using Cons.prems(1) by simp
    have "ev_event_id ` set rows \<inter> ev_event_id ` set (db_events s) = {}"
      by (rule disjoint_mono[OF _ subset_refl Cons.prems(2)]) auto
    with n have "ev_event_id ` set rows \<inter> insert (ev_event_id row1) (ev_event_id ` set (db_events s)) = {}" by simp
    then have d: "ev_event_id ` set rows \<inter> ev_event_id ` set (db_events ?s) = {}"
      by (rule disjoint_mono[OF subset_refl insert_event_ids])
    have "\<exists>r \<in> set (db_events (fold insert_event rows ?s)). recorded_as row r"
      by (rule Cons.IH[OF _ d]) (use Cons.prems False in simp_all)
    then show ?thesis by simp
  qed
qed simp

lemma event_rows_all: "event_rows I A now es = Inr rows \<Longrightarrow> list_all2 (\<lambda>e r. event_row I A now e = Inr r) es rows"
  by (induction es arbitrary: rows) (auto simp: rbind_Inr)

lemma insert_batches_rows:
  "insert_batches I A now bs s = (Inr u, t) \<Longrightarrow>
   \<exists>rows. list_all2 (\<lambda>e r. event_row I A now e = Inr r) (concat bs) rows \<and> t = fold insert_event rows s"
proof (induction bs arbitrary: s)
  case (Cons b bs)
  then obtain rows where r: "event_rows I A now b = Inr rows" by (auto split: sum.splits)
  with Cons obtain rows2 where "list_all2 (\<lambda>e r. event_row I A now e = Inr r) (concat bs) rows2"
    "t = fold insert_event rows2 (fold insert_event rows s)" by fastforce
  with event_rows_all[OF r] show ?case by (intro exI[of _ "rows @ rows2"]) (simp add: list_all2_appendI)
qed simp

lemma event_row_id: "event_row I A now e = Inr r \<Longrightarrow> ev_event_id r = ne_event_id e"
  by (auto simp: event_row_def rbind_Inr Let_def)

lemma rows_ids:
  "list_all2 (\<lambda>e r. event_row I A now e = Inr r) es rows \<Longrightarrow> map ev_event_id rows = map ne_event_id es"
  by (induction rule: list_all2_induct) (simp_all add: event_row_id)

lemma insert_batches_record:
  assumes "insert_batches I A now bs s = (Inr u, t)" "distinct (map ne_event_id (concat bs))"
    "ne_event_id ` set (concat bs) \<inter> ev_event_id ` set (db_events s) = {}" "e \<in> set (concat bs)"
  shows "\<exists>row. event_row I A now e = Inr row \<and> (\<exists>r \<in> set (db_events t). recorded_as row r)"
proof -
  from insert_batches_rows[OF assms(1)] obtain rows where
    r: "list_all2 (\<lambda>e r. event_row I A now e = Inr r) (concat bs) rows" "t = fold insert_event rows s" by blast
  have ids: "map ev_event_id rows = map ne_event_id (concat bs)" by (rule rows_ids[OF r(1)])
  then have "ev_event_id ` set rows = ne_event_id ` set (concat bs)" by (metis list.set_map)
  with insert_events_record[of rows s] assms(2,3) ids r(2)
  have all: "\<forall>row \<in> set rows. \<exists>r \<in> set (db_events t). recorded_as row r" by simp
  from assms(4) r(1) obtain row where "row \<in> set rows" "event_row I A now e = Inr row"
    unfolding list_all2_conv_all_nth
    by (metis list_all2_conv_all_nth in_set_conv_nth)
  with all show ?thesis by blast
qed

lemma unique_events_cover:
  "e \<in> set es \<Longrightarrow> e \<in> set (unique_events seen es) \<or>
     (\<exists>k. ne_ingest_key e = Some k \<and> (k \<in> set seen \<or> (\<exists>e' \<in> set (unique_events seen es). ne_ingest_key e' = Some k)))"
proof (induction seen es rule: unique_events.induct)
  case (2 seen x es)
  show ?case
  proof (cases "ne_ingest_key x")
    case None
    with 2 show ?thesis by auto
  next
    case (Some k)
    with 2 show ?thesis by (cases "k \<in> set seen") auto
  qed
qed simp

lemma unique_events_subseq: "subseq (unique_events seen es) es"
  by (induction seen es rule: unique_events.induct) (auto split: option.split)

lemma distinct_subseq_map: "subseq xs ys \<Longrightarrow> distinct (map f ys) \<Longrightarrow> distinct (map f xs)"
  using subseq_map subseq_distinct by blast

text \<open>Every event of a batch that is stored without an exception has a row, or there is a row of the
  source with its key and with the pusher of an event of the batch.\<close>

lemma bulk_save_records:
  fixes A :: adapter
  defines "src \<equiv> so_pk (ap_source A)"
  assumes "bulk_save_events I A now events s = (Inr bulk, t)" "distinct (map ne_event_id events)"
    "ne_event_id ` set events \<inter> ev_event_id ` set (db_events s) = {}"
    "e \<in> set (unique_events [] (map (with_key I src) events))"
  shows "\<exists>r \<in> set (db_events t). row_of I A now e r \<or>
    (ne_ingest_key e \<noteq> None \<and> ev_ingest_key r = ne_ingest_key e \<and> ev_source_pk r = src \<and>
     ev_push_source_id r \<in> (istr I \<circ> ne_push_source_id) ` set (unique_events [] (map (with_key I src) events)))"
proof -
  let ?u = "unique_events [] (map (with_key I src) events)"
  define p where "p = (\<lambda>e :: new_event. \<not> (ne_ingest_key e \<noteq> None \<and> ne_ingest_key e \<in> set (existing_keys I src ?u s)))"
  have grows: "set (db_events s) \<subseteq> set (db_events t)"
    using bulk_save_shape[OF assms(2)] by auto
  show ?thesis
  proof (cases "p e")
    case False
    then obtain r where "r \<in> set (db_events s)" "ne_ingest_key e \<noteq> None" "ev_ingest_key r = ne_ingest_key e"
      "ev_source_pk r = src" "ev_push_source_id r \<in> (istr I \<circ> ne_push_source_id) ` set (filter has_key ?u)"
      unfolding p_def existing_keys_def by auto
    with grows show ?thesis by auto
  next
    case True
    with assms(5) have e: "e \<in> set (filter p ?u)" by simp
    then have ne: "filter p ?u \<noteq> []" by (metis list.set(1) empty_iff)
    with assms(2) obtain u where b: "insert_batches I A now (split_list (filter p ?u) 100) s = (Inr u, t)"
      unfolding bulk_save_events_def Let_def p_def src_def by (auto split: if_splits prod.splits sum.splits)
    have sub: "subseq (filter p ?u) (map (with_key I src) events)"
      by (rule subseq_order.trans[OF subseq_filter_left unique_events_subseq])
    have ids: "map ne_event_id (map (with_key I src) events) = map ne_event_id events" by (simp add: with_key_def comp_def)
    with sub assms(3) have d: "distinct (map ne_event_id (filter p ?u))" by (metis distinct_subseq_map)
    have "set (filter p ?u) \<subseteq> set (map (with_key I src) events)"
      using unique_events_subset[of "[]" "map (with_key I src) events"] by (auto simp del: set_map)
    then have "ne_event_id ` set (filter p ?u) \<subseteq> ne_event_id ` set events" using ids by (metis image_mono list.set_map)
    with assms(4) have "ne_event_id ` set (filter p ?u) \<inter> ev_event_id ` set (db_events s) = {}" by blast
    with insert_batches_record[OF b, of e] d e obtain row r where
      row: "event_row I A now e = Inr row" "r \<in> set (db_events t)" "recorded_as row r"
      unfolding concat_split_list[OF zero_less_numeral] by blast
    from row(1) have "ev_ingest_key row = ne_ingest_key e" "ev_source_pk row = src" "ev_push_source_id row = istr I (ne_push_source_id e)"
      by (auto simp: event_row_def rbind_Inr Let_def src_def)
    with row assms(5) show ?thesis unfolding recorded_as_def row_of_def by fastforce
  qed
qed

text \<open>The ids drawn for the events of a request differ from each other and from the stored ones.\<close>

definition fresh_ids :: "draws \<Rightarrow> db \<Rightarrow> bool" where
  "fresh_ids D s \<longleftrightarrow> inj (dr_events D) \<and> (\<forall>i. ''EVENT-'' @ dr_events D i \<notin> ev_event_id ` set (db_events s))"

lemma build_event_id: "build_event I A uid s d raw = Inr e \<Longrightarrow> ne_event_id e = ''EVENT-'' @ uid"
  by (auto simp: build_event_def Let_def split: if_splits json.splits)

lemma build_events_ids:
  assumes "inj uids"
  shows "distinct (map ne_event_id (build_events I A uids s ds)) \<and>
    ne_event_id ` set (build_events I A uids s ds) \<subseteq> {''EVENT-'' @ uids i |i. True}"
proof -
  let ?f = "\<lambda>(i, d, raw). case build_event I A (uids i) s d raw of Inl _ \<Rightarrow> [] | Inr e \<Rightarrow> [e]"
  have "distinct (map ne_event_id (concat (map ?f (enumerate n ds)))) \<and>
      ne_event_id ` set (concat (map ?f (enumerate n ds))) \<subseteq> {''EVENT-'' @ uids i |i. n \<le> i}" for n
  proof (induction ds arbitrary: n)
    case (Cons p ds)
    obtain d raw where p: "p = (d, raw)" by fastforce
    let ?rest = "concat (map ?f (enumerate (Suc n) ds))"
    have r: "distinct (map ne_event_id ?rest)" "ne_event_id ` set ?rest \<subseteq> {''EVENT-'' @ uids i |i. Suc n \<le> i}"
      using Cons.IH[of "Suc n"] by blast+
    have mono: "{''EVENT-'' @ uids i |i. Suc n \<le> i} \<subseteq> {''EVENT-'' @ uids i |i. n \<le> i}" using Suc_leD by blast
    show ?case
    proof (cases "build_event I A (uids n) s d raw")
      case (Inl x)
      with r mono p show ?thesis by (simp add: subset_trans)
    next
      case (Inr e)
      have id: "ne_event_id e = ''EVENT-'' @ uids n" by (rule build_event_id[OF Inr])
      have "''EVENT-'' @ uids n \<notin> {''EVENT-'' @ uids i |i. Suc n \<le> i}"
        using assms by (auto dest: injD)
      then have "ne_event_id e \<notin> ne_event_id ` set ?rest" unfolding id by (rule contra_subsetD[OF r(2)])
      moreover have "ne_event_id ` set (e # ?rest) \<subseteq> {''EVENT-'' @ uids i |i. n \<le> i}"
        using subset_trans[OF r(2) mono] id by (simp del: set_concat) blast
      ultimately show ?thesis using r(1) Inr p by simp
    qed
  qed simp
  from this[of 0] show ?thesis by (simp add: build_events_def)
qed

lemma fresh_build:
  assumes "fresh_ids D s"
  shows "distinct (map ne_event_id (build_events I A (dr_events D) u ds))"
    "ne_event_id ` set (build_events I A (dr_events D) u ds) \<inter> ev_event_id ` set (db_events s) = {}"
proof -
  have i: "inj (dr_events D)" and new: "{''EVENT-'' @ dr_events D i |i. True} \<inter> ev_event_id ` set (db_events s) = {}"
    using assms unfolding fresh_ids_def by blast+
  from build_events_ids[OF i, of I A u ds] show "distinct (map ne_event_id (build_events I A (dr_events D) u ds))"
    "ne_event_id ` set (build_events I A (dr_events D) u ds) \<inter> ev_event_id ` set (db_events s) = {}"
    using disjoint_mono[OF _ subset_refl new] by blast+
qed

text \<open>What \<open>create_events\<close> builds, and that all of it is recorded.\<close>

definition built :: "ingest_env \<Rightarrow> adapter \<Rightarrow> int \<Rightarrow> draws \<Rightarrow> json list \<Rightarrow> ingest_state \<Rightarrow> new_event list" where
  "built I A now D evs S =
     (let ds = map_events I A now evs in
      build_events I A (dr_events D) (ig_db S)
        (zip (fst (enrich_batch (ie_enrich I) (ie_registry I) (ig_rules S) (map fst ds, ig_cache S))) (map snd ds)))"

lemma create_events_bulk:
  "create_events I A now D evs S = (r, T) \<Longrightarrow> bulk_save_events I A now (built I A now D evs S) (ig_db S) = (r, ig_db T)"
  by (auto simp: create_events_def built_def Let_def split: prod.splits)

lemma create_events_record:
  fixes A :: adapter
  defines "src \<equiv> so_pk (ap_source A)"
  assumes "create_events I A now D evs S = (Inr bulk, T)" "fresh_ids D (ig_db S)" "e \<in> set (built I A now D evs S)"
  shows "\<exists>r \<in> set (db_events (ig_db T)). row_of I A now (with_key I src e) r \<or>
    (build_ingress_dedup_key I src e \<noteq> None \<and> ev_ingest_key r = build_ingress_dedup_key I src e \<and> ev_source_pk r = src)"
proof -
  let ?events = "built I A now D evs S"
  note b = create_events_bulk[OF assms(2)]
  have fresh: "distinct (map ne_event_id ?events)" "ne_event_id ` set ?events \<inter> ev_event_id ` set (db_events (ig_db S)) = {}"
    using fresh_build[OF assms(3)] by (simp_all add: built_def Let_def)
  note rec = bulk_save_records[OF b fresh, folded src_def]
  have key: "ne_ingest_key (with_key I src e) = build_ingress_dedup_key I src e" by (simp add: with_key_def)
  have "with_key I src e \<in> set (map (with_key I src) ?events)" using assms(4) by simp
  from unique_events_cover[OF this, of "[]"] show ?thesis
  proof
    assume "with_key I src e \<in> set (unique_events [] (map (with_key I src) ?events))"
    from rec[OF this] show ?thesis unfolding key by blast
  next
    assume "\<exists>k. ne_ingest_key (with_key I src e) = Some k \<and> (k \<in> set [] \<or>
      (\<exists>e' \<in> set (unique_events [] (map (with_key I src) ?events)). ne_ingest_key e' = Some k))"
    then obtain k e' where k: "build_ingress_dedup_key I src e = Some k" "ne_ingest_key e' = Some k"
      "e' \<in> set (unique_events [] (map (with_key I src) ?events))" unfolding key by auto
    then have "e' \<in> with_key I src ` set ?events" using unique_events_subset[of "[]" "map (with_key I src) ?events"] by auto
    then obtain e0 where e': "e' = with_key I src e0" by blast
    from rec[OF k(3)] obtain r where "r \<in> set (db_events (ig_db T))"
      "row_of I A now e' r \<or> ev_ingest_key r = ne_ingest_key e' \<and> ev_source_pk r = src" by blast
    moreover from this have "ev_ingest_key r = Some k \<and> ev_source_pk r = src"
      using row_of_fields(2,5)[of I A now src e0 r] k(2) e' by (auto simp: with_key_def src_def)
    ultimately show ?thesis using k(1) by auto
  qed
qed
section \<open>Concrete requests\<close>

lemma toy_source_fields: "so_source_type toy_registered = ''restful''" "so_source_type toy_nats = ''nats''"
  "so_mapping toy_registered = so_mapping toy_source" "so_mapping toy_nats = so_mapping toy_source"
  "so_pk toy_registered = 1" "map fst (so_team_secrets toy_nats) = [''7'']"
  by code_simp+

lemma toy_digests: "digests_ok toy_ingest"
  by (simp add: digests_ok_def texts_nonempty_def toy_ingest_def sample_enrich_env_def)

theorem received_events_authenticated_witness:
  "\<exists>src (n :: event). src \<in> {toy_registered, toy_nats} \<and> ev_title n = ''cpu'' \<and> ev_source_pk n = so_pk src \<and>
     secret_gives toy_tokens src (JStr ''kabs7'') (ev_team n)"
proof -
  obtain ans T where r: "toy_receive 5 toy_ingest_state = (ans, T)" by fastforce
  from received_events_authenticated[OF r[unfolded toy_receive_def]] obtain new where
    n: "map settled (db_events (ig_db T)) = map settled new"
      "new \<noteq> [] \<longrightarrow> (\<exists>src \<in> {toy_registered, toy_nats}. \<forall>n \<in> set new. ev_source_pk n = so_pk src \<and>
         secret_gives toy_tokens src (JStr ''kabs7'') (ev_team n))"
    by (force simp: toy_ingest_state_def event_db_def toy_ingest_def request_secret_def)
  from toy_received(2) r have v: "map ev_title (db_events (ig_db T)) = [''cpu'']" by (auto simp: event_view_def)
  moreover have "map ev_title (map settled xs) = map ev_title xs" for xs by simp
  ultimately have "map ev_title new = [''cpu'']" using n(1) by metis
  then obtain e where e: "new = [e]" "ev_title e = ''cpu''" by (auto simp: map_eq_Cons_conv)
  with n(2) obtain src where src: "src \<in> {toy_registered, toy_nats}" "ev_source_pk e = so_pk src"
    "secret_gives toy_tokens src (JStr ''kabs7'') (ev_team e)" by auto
  show ?thesis by (intro exI[of _ src] exI[of _ e] conjI src e(2))
qed

theorem internal_events_confined_witness:
  "\<exists>(n :: event) i. ev_title n = ''disk'' \<and> ev_team n = [JInt i] \<and> str_int i \<in> {''7''}"
proof -
  obtain ok T where r: "toy_send toy_ingest_state = (ok, T)" by fastforce
  have "ig_sources toy_ingest_state = [toy_registered, toy_nats]" "db_events (ig_db toy_ingest_state) = []"
    by (simp_all add: toy_ingest_state_def event_db_def)
  with internal_events_confined[OF r[unfolded toy_send_def]] obtain new where
    n: "map settled (db_events (ig_db T)) = map settled new"
      "\<forall>n \<in> set new. \<exists>src \<in> {toy_registered, toy_nats}. so_source_type src = ''nats'' \<and>
         (\<forall>t \<in> set (ev_team n). \<exists>i. t = JInt i \<and> str_int i \<in> fst ` set (so_team_secrets src))"
    by (simp) blast
  from toy_sent r have v: "map (\<lambda>e. (ev_title e, ev_team e)) (db_events (ig_db T)) = [(''disk'', [JInt 7])]"
    by (auto simp: event_view_def)
  moreover have "map (\<lambda>e. (ev_title e, ev_team e)) (map settled xs) = map (\<lambda>e. (ev_title e, ev_team e)) xs" for xs by simp
  ultimately have "map (\<lambda>e. (ev_title e, ev_team e)) new = [(''disk'', [JInt 7])]" using n(1) by metis
  then obtain e where e: "new = [e]" "ev_title e = ''disk''" "ev_team e = [JInt 7]" by (auto simp: map_eq_Cons_conv)
  with n(2) have "str_int 7 \<in> fst ` set (so_team_secrets toy_nats)" by (auto simp: toy_source_fields)
  moreover have "fst ` set (so_team_secrets toy_nats) = {''7''}"
    using toy_source_fields(6) by (metis list.set_map list.simps(15) empty_set)
  ultimately have "str_int 7 \<in> {''7''}" by simp
  with e(2,3) show ?thesis by (intro exI[of _ e] exI[of _ 7] conjI) simp_all
qed

lemma toy_run: "(ingest_step toy_ingest)\<^sup>*\<^sup>* toy_ingest_state (snd (toy_send (snd (toy_receive 5 toy_ingest_state))))"
proof -
  have "ingest_step toy_ingest S (snd (toy_receive 5 S))" "ingest_step toy_ingest S (snd (toy_send S))" for S
    unfolding toy_receive_def toy_send_def
    by (rule ingest_step.received, rule surjective_pairing) (rule ingest_step.internal, rule surjective_pairing)
  then show ?thesis by (meson converse_rtranclp_into_rtranclp r_into_rtranclp)
qed

theorem ingest_keys_unique_witness:
  "ingest_unique (db_events (ig_db (snd (toy_send (snd (toy_receive 5 toy_ingest_state))))))"
  by (rule ingest_keys_unique[OF toy_run])
    (simp add: toy_ingest_state_def event_db_def ingest_unique_def keyed_def)

theorem ingest_rows_typed_witness:
  "db_events (ig_db (snd (toy_send (snd (toy_receive 5 toy_ingest_state))))) \<noteq> [] \<and>
   list_all (event_typed [1, 3]) (db_events (ig_db (snd (toy_send (snd (toy_receive 5 toy_ingest_state))))))"
proof
  have "\<forall>src \<in> set (ig_sources toy_ingest_state). {''title'', ''level''} \<subseteq> fst ` set (so_mapping src)"
    by (simp add: toy_ingest_state_def toy_source_fields) (simp add: toy_source_def)
  from ingest_rows_typed[OF toy_run toy_digests this]
  show "list_all (event_typed [1, 3]) (db_events (ig_db (snd (toy_send (snd (toy_receive 5 toy_ingest_state))))))"
    by (simp add: toy_ingest_state_def event_db_def list_all_iff)
qed code_simp

end
