(* ===== verification/Ingest_Delivery.thy ===== *)
theory Ingest_Delivery
  imports Ingest_Properties
begin

text \<open>
  What a source may rely on: no event of an accepted request is lost, and a request that is
  delivered again changes nothing.
\<close>

section \<open>Events that are not dropped\<close>

text \<open>An event with a title whose labels, if there are any, are a dict.\<close>

definition presentable :: "alert_source \<Rightarrow> json \<Rightarrow> bool" where
  "presentable src raw \<longleftrightarrow> (\<exists>kvs l. raw = JObj kvs \<and> rule_get kvs ''labels'' (JObj []) = JObj l \<and>
     (\<forall>f. (''title'', f) \<in> set (so_mapping src) \<longrightarrow> truthy (rule_get kvs f JNull)))"

definition standard_columns :: "alert_source \<Rightarrow> bool" where
  "standard_columns src \<longleftrightarrow> fst ` set (so_mapping src) \<subseteq> set ingest_columns"

lemma jget_dict: "jget (JObj kvs) k d = Inr (rule_get kvs k d)"
  by (simp add: rule_get_def)

lemma column_value_present:
  assumes "rule_get kvs ''labels'' (JObj []) = JObj l" "key = ''title'' \<Longrightarrow> truthy (rule_get kvs field JNull)"
  shows "\<exists>r. column_value A (JObj kvs) key field = Inr (Some r)"
  using assms by (simp add: column_value_def jget_dict del: jget.simps)

lemma map_fields_present:
  assumes "rule_get kvs ''labels'' (JObj []) = JObj l" "\<forall>f. (''title'', f) \<in> set m \<longrightarrow> truthy (rule_get kvs f JNull)"
  shows "\<exists>d. map_fields I A now (JObj kvs) m out = Inr (Some d)"
  using assms(2)
proof (induction m arbitrary: out)
  case (Cons p m)
  obtain key field where p: "p = (key, field)" by fastforce
  from Cons.prems p have "key = ''title'' \<Longrightarrow> truthy (rule_get kvs field JNull)" by simp
  from column_value_present[OF assms(1) this] obtain r where "column_value A (JObj kvs) key field = Inr (Some r)" by blast
  with Cons p show ?case by (cases r) auto
qed simp

lemma map_fields_columns:
  "map_fields I A now ev m out = Inr (Some d) \<Longrightarrow> fst ` set d \<subseteq> fst ` set m \<union> fst ` set out"
proof (induction m arbitrary: out)
  case (Cons p m)
  obtain key field where p: "p = (key, field)" by fastforce
  from Cons.prems[unfolded p] show ?case
  proof (cases rule: map_fields_Cons)
    case skipped
    from Cons.IH[OF skipped(2)] p show ?thesis by auto
  next
    case (stored v)
    from Cons.IH[OF stored(2)] p show ?thesis by (simp add: fst_tsave)
  qed
qed simp

lemma mapping_columns:
  assumes "mapping_fields_to_event I A now raw = Inr (Some d)"
  shows "fst ` set d \<subseteq> fst ` set (so_mapping (ap_source A)) \<union> {''start_time'', ''_start_time_synthesized''}"
proof -
  from assms obtain d0 where m: "map_fields I A now raw (so_mapping (ap_source A)) [] = Inr (Some d0)"
    and d: "d = add_start_time now d0"
    by (cases "map_fields I A now raw (so_mapping (ap_source A)) []") (auto simp: mapping_fields_to_event_def)
  from map_fields_columns[OF m] show ?thesis
    unfolding d add_start_time_def by (auto simp: fst_tsave split: option.splits)
qed

lemma same_fields_columns: "same_fields d d' \<Longrightarrow> fst ` set d' \<subseteq> insert ''enrichment'' (fst ` set d)"
proof
  fix k
  assume s: "same_fields d d'" and "k \<in> fst ` set d'"
  then have "map_of d' k \<noteq> None" by (metis map_of_eq_None_iff)
  with s have "k = ''enrichment'' \<or> map_of d k \<noteq> None" by (metis same_fields_def)
  then show "k \<in> insert ''enrichment'' (fst ` set d)" by (metis insert_iff map_of_eq_None_iff)
qed

lemma build_event_total:
  assumes "mapping_fields_to_event I A now (JObj kvs) = Inr (Some d)" "same_fields (setdefault_enrichment d) d'"
    "standard_columns (ap_source A)"
  shows "\<exists>e. build_event I A uid s d' (JObj kvs) = Inr e"
proof -
  have "fst ` set d' \<subseteq> insert ''enrichment'' (fst ` set (setdefault_enrichment d))"
    by (rule same_fields_columns[OF assms(2)])
  also have "\<dots> \<subseteq> set ingest_columns \<union> {''_start_time_synthesized''}"
    using mapping_columns[OF assms(1)] assms(3)
    by (auto simp: setdefault_enrichment_def standard_columns_def ingest_columns_def)
  finally have "fst ` set (filter (\<lambda>(k, _). k \<noteq> ''_start_time_synthesized'') d') \<subseteq> set ingest_columns" by auto
  then show ?thesis by (simp add: build_event_def Let_def)
qed

lemma presentable_mapped:
  assumes "presentable (ap_source A) raw"
  shows "\<exists>kvs d. raw = JObj kvs \<and> mapping_fields_to_event I A now raw = Inr (Some d)"
proof -
  from assms obtain kvs l where r: "raw = JObj kvs" "rule_get kvs ''labels'' (JObj []) = JObj l"
    "\<forall>f. (''title'', f) \<in> set (so_mapping (ap_source A)) \<longrightarrow> truthy (rule_get kvs f JNull)"
    unfolding presentable_def by blast
  from map_fields_present[OF r(2,3)] obtain d where "map_fields I A now raw (so_mapping (ap_source A)) [] = Inr (Some d)"
    unfolding r(1) by blast
  with r(1) show ?thesis by (simp add: mapping_fields_to_event_def)
qed

lemma map_events_mem:
  "raw \<in> set evs \<Longrightarrow> mapping_fields_to_event I A now raw = Inr (Some d) \<Longrightarrow>
   (setdefault_enrichment d, raw) \<in> set (map_events I A now evs)"
  by (induction evs) (auto split: sum.splits option.splits)

lemma build_events_mem:
  assumes "(d, raw) \<in> set ds" "\<And>uid. \<exists>e. build_event I A uid s d raw = Inr e"
  shows "\<exists>e uid. e \<in> set (build_events I A uids s ds) \<and> build_event I A uid s d raw = Inr e"
proof -
  from assms(1) obtain i where i: "i < length ds" "ds ! i = (d, raw)" by (metis in_set_conv_nth)
  from assms(2)[of "uids i"] obtain e where e: "build_event I A (uids i) s d raw = Inr e" by blast
  have "(i, d, raw) \<in> set (enumerate 0 ds)" using i by (simp add: in_set_enumerate_eq)
  with e show ?thesis by (auto simp: build_events_def intro!: exI[of _ e] exI[of _ "uids i"] bexI[of _ "(i, d, raw)"])
qed

lemma enriched_same: "same_batch ds (fst (enrich_batch E registry rules (ds, c)))"
  by (rule enrich_batch_fields)

lemma built_mem:
  assumes "raw \<in> set evs" "raw = JObj kvs" "mapping_fields_to_event I A now raw = Inr (Some d)" "standard_columns (ap_source A)"
  shows "\<exists>e uid d'. e \<in> set (built I A now D evs S) \<and> same_fields (setdefault_enrichment d) d' \<and>
    build_event I A uid (ig_db S) d' raw = Inr e"
proof -
  let ?ds = "map_events I A now evs"
  let ?ds' = "fst (enrich_batch (ie_enrich I) (ie_registry I) (ig_rules S) (map fst ?ds, ig_cache S))"
  have same: "same_batch (map fst ?ds) ?ds'" by (rule enriched_same)
  then have len: "length ?ds' = length ?ds" by (metis length_map list_all2_lengthD)
  from map_events_mem[OF assms(1,3)] obtain i where i: "i < length ?ds" "?ds ! i = (setdefault_enrichment d, raw)"
    by (metis in_set_conv_nth)
  have "map fst ?ds ! i = setdefault_enrichment d" using i by simp
  then have f: "same_fields (setdefault_enrichment d) (?ds' ! i)" using list_all2_nthD[OF same, of i] i by simp
  have m: "(?ds' ! i, raw) \<in> set (zip ?ds' (map snd ?ds))" using i len by (auto simp: set_zip intro!: exI[of _ i])
  from build_event_total[OF assms(3)[unfolded assms(2)] f assms(4)]
  have "\<And>uid. \<exists>e. build_event I A uid (ig_db S) (?ds' ! i) raw = Inr e" unfolding assms(2) .
  from build_events_mem[OF m this, of "dr_events D"] f show ?thesis unfolding built_def Let_def by blast
qed

text \<open>The key an event of a request gets when its batch is stored.\<close>

definition key_of_raw :: "ingest_env \<Rightarrow> adapter \<Rightarrow> int \<Rightarrow> db \<Rightarrow> json \<Rightarrow> string \<Rightarrow> bool" where
  "key_of_raw I A now s raw k \<longleftrightarrow>
     (\<exists>d d' uid e. mapping_fields_to_event I A now raw = Inr (Some d) \<and> same_fields (setdefault_enrichment d) d' \<and>
        build_event I A uid s d' raw = Inr e \<and> build_ingress_dedup_key I (so_pk (ap_source A)) e = Some k)"

lemma adapter_main_ok:
  assumes "adapter_main I A now D evs S = (Inr u, T)"
  shows "\<exists>bulk T0. create_events I A now D evs S = (Inr bulk, T0) \<and> same_events (ig_db T0) (ig_db T)"
proof -
  obtain r T0 where c: "create_events I A now D evs S = (r, T0)" by fastforce
  with assms obtain bulk where "r = Inr bulk" by (auto simp: adapter_main_def split: sum.splits)
  with c adapter_main_events[OF c assms] show ?thesis by blast
qed

lemma adapter_records:
  assumes "adapter_main I A now D evs S = (Inr u, T)" "raw \<in> set evs" "presentable (ap_source A) raw"
    "standard_columns (ap_source A)" "fresh_ids D (ig_db S)"
  shows "\<exists>r \<in> set (db_events (ig_db T)). ev_source_pk r = so_pk (ap_source A) \<and>
    ((\<exists>n. settled r = settled n \<and> stems_from I A now (ig_db S) raw n) \<or>
     (\<exists>k. ev_ingest_key r = Some k \<and> key_of_raw I A now (ig_db S) raw k))"
proof -
  from presentable_mapped[OF assms(3), of I now] obtain kvs d where
    m: "raw = JObj kvs" "mapping_fields_to_event I A now raw = Inr (Some d)" by blast
  from built_mem[OF assms(2) m assms(4)] obtain e uid d' where e: "e \<in> set (built I A now D evs S)"
    "same_fields (setdefault_enrichment d) d'" "build_event I A uid (ig_db S) d' raw = Inr e" by blast
  from adapter_main_ok[OF assms(1)] obtain bulk T0 where c: "create_events I A now D evs S = (Inr bulk, T0)"
    and same: "same_events (ig_db T0) (ig_db T)" by blast
  from create_events_record[OF c assms(5) e(1)] obtain r where r: "r \<in> set (db_events (ig_db T0))"
    "row_of I A now (with_key I (so_pk (ap_source A)) e) r \<or>
     build_ingress_dedup_key I (so_pk (ap_source A)) e \<noteq> None \<and>
     ev_ingest_key r = build_ingress_dedup_key I (so_pk (ap_source A)) e \<and> ev_source_pk r = so_pk (ap_source A)" by blast
  have "settled r \<in> set (map settled (db_events (ig_db T0)))" using r(1) by simp
  then obtain r' where r': "r' \<in> set (db_events (ig_db T))" "settled r' = settled r"
    unfolding same[symmetric] by auto
  have keep: "ev_source_pk r' = ev_source_pk r" "ev_ingest_key r' = ev_ingest_key r"
    using r'(2) by (metis settled_fields(3), metis settled_fields(5))
  from r(2) show ?thesis
  proof
    assume "row_of I A now (with_key I (so_pk (ap_source A)) e) r"
    then have "stems_from I A now (ig_db S) raw r" "ev_source_pk r = so_pk (ap_source A)"
      using m e row_of_fields(2) unfolding stems_from_def by blast+
    with r' keep show ?thesis by metis
  next
    assume k: "build_ingress_dedup_key I (so_pk (ap_source A)) e \<noteq> None \<and>
     ev_ingest_key r = build_ingress_dedup_key I (so_pk (ap_source A)) e \<and> ev_source_pk r = so_pk (ap_source A)"
    then obtain k where "build_ingress_dedup_key I (so_pk (ap_source A)) e = Some k" by blast
    with m e have "key_of_raw I A now (ig_db S) raw k" unfolding key_of_raw_def by blast
    with k r' keep \<open>_ = Some k\<close> show ?thesis by auto
  qed
qed

text \<open>C34: when a request is answered with success, every one of its events that has a title (and no
  labels that are not a dict) is in the database: as a row that stems from it, or, for a repeated
  event, as a row of the source with the key the event has.\<close>

theorem no_event_lost:
  assumes "receive_events I now D path ty header body S = (RA_Success, T)" "body = Some (JObj data)"
    "find (usable_source I (request_source_id path data)) (ig_sources S) = Some src" "standard_columns src"
    "normalize_payload (ie_payload I) (so_source_type src) data = Inr evs" "raw \<in> set evs" "presentable src raw"
    "fresh_ids D (ig_db S)"
  shows "\<exists>A. ap_source A = src \<and> (\<exists>r \<in> set (db_events (ig_db T)). ev_source_pk r = so_pk src \<and>
    ((\<exists>n. settled r = settled n \<and> stems_from I A now (ig_db S) raw n) \<or>
     (\<exists>k. ev_ingest_key r = Some k \<and> key_of_raw I A now (ig_db S) raw k)))"
proof -
  from assms(1-3) have "receive_from I now D src (request_secret header data) data S = (RA_Success, T)"
    by (auto simp: receive_events_def Let_def split: if_splits)
  then obtain A B res where a: "new_adapter (ie_secrets I) (ig_levels S) src (request_secret header data) False = Inr A"
    "authenticate A = Inr B" "adapter_main I B now D evs S = (res, T)" "answer_of res = RA_Success"
    using assms(5) by (auto simp: receive_from_def rbind_Inr split: sum.splits if_splits prod.splits)
  then obtain u where u: "res = Inr u" by (cases res) (auto split: if_splits)
  have src: "ap_source B = src" using new_adapter_fields(1)[OF a(1)] authenticate_fields(1)[OF a(2)] by simp
  from adapter_records[OF a(3)[unfolded u] assms(6), unfolded src, OF assms(7,4,8)] src show ?thesis by blast
qed

section \<open>A repeated delivery\<close>

text \<open>An event that means the same whenever it arrives: its mapping does not read the clock (it carries
  its own start time), it has an action, and its external id does not depend on the alerts.\<close>

definition own_identity :: "ingest_env \<Rightarrow> edict \<Rightarrow> bool" where
  "own_identity I d \<longleftrightarrow> pv_truthy (action_of d) \<and>
     (pv_truthy (attr d ''external_id'' (PJ JNull)) \<and> strip (istr I (attr d ''external_id'' (PJ JNull))) \<noteq> [] \<or>
      action_of d \<noteq> PJ (JStr ''recovery'') \<and> action_of d \<noteq> PJ (JStr ''closed''))"

definition repeatable :: "ingest_env \<Rightarrow> alert_source \<Rightarrow> json \<Rightarrow> bool" where
  "repeatable I src raw \<longleftrightarrow> (\<forall>A. ap_source A = src \<longrightarrow>
     (\<forall>now now'. mapping_fields_to_event I A now raw = mapping_fields_to_event I A now' raw) \<and>
     (\<forall>now d. mapping_fields_to_event I A now raw = Inr (Some d) \<longrightarrow>
        own_identity I d \<and> pv_truthy (attr d ''start_time'' (PJ JNull))))"

definition alike :: "ingest_env \<Rightarrow> nat \<Rightarrow> new_event \<Rightarrow> new_event \<Rightarrow> bool" where
  "alike I src e e' \<longleftrightarrow> build_ingress_dedup_key I src e = build_ingress_dedup_key I src e' \<and>
     build_ingress_dedup_key I src e \<noteq> None \<and> ne_push_source_id e = ne_push_source_id e'"

lemma attr_cong: "map_of d k = map_of d' k \<Longrightarrow> attr d k v = attr d' k v"
  by (simp add: attr_def)

lemma same_fields_keys: "same_fields d d' \<Longrightarrow> k \<noteq> ''enrichment'' \<Longrightarrow> k \<in> fst ` set d' \<longleftrightarrow> k \<in> fst ` set d"
  by (metis map_of_eq_None_iff same_fields_def)

lemma resolve_none:
  "action_of d \<noteq> PJ (JStr ''recovery'') \<Longrightarrow> action_of d \<noteq> PJ (JStr ''closed'') \<Longrightarrow> resolve_recovery_external_id I A d s = None"
  by (simp add: resolve_recovery_external_id_def Let_def)

definition final_external_id :: "ingest_env \<Rightarrow> adapter \<Rightarrow> edict \<Rightarrow> pyval" where
  "final_external_id I A d =
     (let x = attr d ''external_id'' (PJ JNull) in
      if \<not> pv_truthy x \<or> strip (istr I x) = []
      then PJ (JStr (generate_external_id I d (so_source_id (ap_source A)))) else x)"

lemma build_event_identity:
  assumes "build_event I A uid s d raw = Inr e" "own_identity I (ne_data e)"
  shows "ne_external_id e = final_external_id I A (ne_data e)"
    "ne_synthesized e = pv_truthy (attr d ''_start_time_synthesized'' (PJ (JBool False)))"
proof -
  from build_event_fields[OF assms(1)] obtain ev where ev: "raw = JObj ev" by blast
  let ?d = "filter (\<lambda>(k, _). k \<noteq> ''_start_time_synthesized'') d"
  let ?x = "attr d ''external_id'' (PJ JNull)"
  have x: "attr ?d ''external_id'' (PJ JNull) = ?x" by (simp add: attr_def map_of_without)
  from assms(1) have e: "ne_data e = ?d" "ne_synthesized e = pv_truthy (attr d ''_start_time_synthesized'' (PJ (JBool False)))"
    "ne_external_id e = (if \<not> pv_truthy ?x \<or> strip (istr I ?x) = [] then
        (case resolve_recovery_external_id I A ?d s of Some y \<Rightarrow> PJ (JStr y)
         | None \<Rightarrow> PJ (JStr (generate_external_id I ?d (so_source_id (ap_source A))))) else ?x)"
    by (auto simp: build_event_def ev x Let_def split: if_split_asm)
  show "ne_synthesized e = pv_truthy (attr d ''_start_time_synthesized'' (PJ (JBool False)))" by (rule e(2))
  show "ne_external_id e = final_external_id I A (ne_data e)"
  proof (cases "pv_truthy ?x \<and> strip (istr I ?x) \<noteq> []")
    case False
    with assms(2) have "resolve_recovery_external_id I A ?d s = None"
      by (intro resolve_none) (simp_all add: own_identity_def e(1) x)
    with e show ?thesis by (simp add: final_external_id_def x Let_def)
  qed (simp add: e final_external_id_def x Let_def)
qed

lemma final_external_truthy:
  assumes "digests_ok I"
  shows "pv_truthy (final_external_id I A d)"
  using assms by (simp add: final_external_id_def generate_external_id_def digests_ok_def Let_def)

lemma build_event_alike:
  fixes A :: adapter
  defines "src \<equiv> so_pk (ap_source A)"
  assumes "mapping_fields_to_event I A now raw = Inr (Some d)" "own_identity I d" "pv_truthy (attr d ''start_time'' (PJ JNull))"
    "same_fields (setdefault_enrichment d) d1" "same_fields (setdefault_enrichment d) d2"
    "build_event I A u1 s1 d1 raw = Inr e1" "build_event I A u2 s2 d2 raw = Inr e2" "digests_ok I" "src \<noteq> 0"
  shows "alike I src e1 e2"
proof -
  from build_event_fields[OF assms(7)] obtain ev where ev: "raw = JObj ev"
    "ne_data e1 = filter (\<lambda>(k, _). k \<noteq> ''_start_time_synthesized'') d1" "ne_push_source_id e1 = push_source ev (ne_data e1)" by blast
  from build_event_fields[OF assms(8)] ev(1) have e2:
    "ne_data e2 = filter (\<lambda>(k, _). k \<noteq> ''_start_time_synthesized'') d2" "ne_push_source_id e2 = push_source ev (ne_data e2)" by auto
  have at: "attr (ne_data e1) k v = attr d k v" "attr (ne_data e2) k v = attr d k v"
    if "k \<noteq> ''enrichment''" "k \<noteq> ''_start_time_synthesized''" for k v
    using that assms(5,6) by (auto intro!: attr_cong simp: ev(2) e2(1) map_of_without same_fields_def map_of_setdefault)
  have flag: "attr d1 ''_start_time_synthesized'' v = attr d2 ''_start_time_synthesized'' v" for v
    using assms(5,6) by (intro attr_cong) (simp add: same_fields_def)
  have own: "own_identity I (ne_data e1)" "own_identity I (ne_data e2)"
    using assms(3) by (simp_all add: own_identity_def at)
  note id1 = build_event_identity[OF assms(7) own(1)] and id2 = build_event_identity[OF assms(8) own(2)]
  have gen: "generate_external_id I (ne_data e1) x = generate_external_id I (ne_data e2) x" for x
    by (simp add: generate_external_id_def at)
  have ext: "ne_external_id e1 = ne_external_id e2"
    unfolding id1(1) id2(1) by (simp add: final_external_id_def gen at Let_def)
  have push: "ne_push_source_id e1 = ne_push_source_id e2" unfolding ev(3) e2(2) by (simp add: push_source_def at)
  have synth: "ne_synthesized e1 = ne_synthesized e2" unfolding id1(2) id2(2) flag ..
  have key: "build_ingress_dedup_key I src e1 = build_ingress_dedup_key I src e2"
    unfolding build_ingress_dedup_key_def ext push synth by (simp add: at)
  have truthy: "pv_truthy (action_of (ne_data e1))" "pv_truthy (ne_external_id e1)"
    using own(1) final_external_truthy[OF assms(9)] unfolding id1(1) own_identity_def by simp_all
  have start: "pv_truthy (attr (ne_data e1) ''start_time'' (PJ JNull))" using assms(4) by (simp add: at)
  have "pv_truthy (floor_minute v) = pv_truthy v" for v by (cases v) auto
  with truthy start assms(10) have "build_ingress_dedup_key I src e1 \<noteq> None"
    by (simp add: build_ingress_dedup_key_def build_ingest_key_def Let_def)
  with key push show ?thesis by (simp add: alike_def)
qed

lemma build_event_same_error:
  assumes "same_fields d d1" "same_fields d d2"
  shows "isl (build_event I A u1 s1 d1 raw) = isl (build_event I A u2 s2 d2 raw)"
proof -
  let ?keys = "\<lambda>d. fst ` set (filter (\<lambda>(k, _). k \<noteq> ''_start_time_synthesized'') d)"
  have k: "k \<in> ?keys d \<longleftrightarrow> k \<noteq> ''_start_time_synthesized'' \<and> k \<in> fst ` set d" for d :: edict and k by force
  have "k \<in> ?keys d1 \<longleftrightarrow> k \<in> ?keys d2" if "k \<noteq> ''enrichment''" for k
    using same_fields_keys[OF assms(1) that] same_fields_keys[OF assms(2) that] unfolding k by simp
  then have eq: "insert ''enrichment'' (?keys d1) = insert ''enrichment'' (?keys d2)" by (intro set_eqI) (metis insert_iff)
  have e: "''enrichment'' \<in> set ingest_columns" by (simp add: ingest_columns_def)
  have "?keys d \<subseteq> set ingest_columns \<longleftrightarrow> insert ''enrichment'' (?keys d) \<subseteq> set ingest_columns" for d :: edict
    unfolding insert_subset using e by (simp only: simp_thms)
  with eq have "?keys d1 \<subseteq> set ingest_columns \<longleftrightarrow> ?keys d2 \<subseteq> set ingest_columns" by (simp only:)
  then show ?thesis by (cases raw) (simp_all add: build_event_def Let_def)
qed

text \<open>Two builds of the same events pair up, event by event.\<close>

lemma concat_pair:
  assumes "list_all2 Q xs ys" "\<And>x y. Q x y \<Longrightarrow> list_all2 R (f x) (g y)"
  shows "list_all2 R (concat (map f xs)) (concat (map g ys))"
  using assms(1) by (induction rule: list_all2_induct) (auto intro: list_all2_appendI assms(2))

lemma map_events_elem:
  "p \<in> set (map_events I A now evs) \<Longrightarrow>
   snd p \<in> set evs \<and> (\<exists>d. mapping_fields_to_event I A now (snd p) = Inr (Some d) \<and> fst p = setdefault_enrichment d)"
  using map_events_from[of "fst p" "snd p" I A now evs] by simp

lemma map_events_cong:
  "\<forall>raw \<in> set evs. mapping_fields_to_event I A now raw = mapping_fields_to_event I A now' raw \<Longrightarrow>
   map_events I A now evs = map_events I A now' evs"
  by (induction evs) (auto split: sum.split option.split)

lemma build_events_pair:
  assumes "length ds1 = length ds" "length ds2 = length ds"
    "\<And>i. i < length ds \<Longrightarrow> list_all2 R
       (case build_event I A (us i) s1 (ds1 ! i) (snd (ds ! i)) of Inl _ \<Rightarrow> [] | Inr e \<Rightarrow> [e])
       (case build_event I A (vs i) s2 (ds2 ! i) (snd (ds ! i)) of Inl _ \<Rightarrow> [] | Inr e \<Rightarrow> [e])"
  shows "list_all2 R (build_events I A us s1 (zip ds1 (map snd ds))) (build_events I A vs s2 (zip ds2 (map snd ds)))"
  unfolding build_events_def
proof (rule concat_pair)
  let ?Q = "\<lambda>(i, d1, r1) (j, d2, r2). j = i \<and> i < length ds \<and> d1 = ds1 ! i \<and> d2 = ds2 ! i \<and> r1 = snd (ds ! i) \<and> r2 = snd (ds ! i)"
  show "list_all2 ?Q (enumerate 0 (zip ds1 (map snd ds))) (enumerate 0 (zip ds2 (map snd ds)))"
    using assms(1,2) by (auto simp: list_all2_conv_all_nth nth_enumerate_eq)
  show "list_all2 R ((\<lambda>(i, d, raw). case build_event I A (us i) s1 d raw of Inl _ \<Rightarrow> [] | Inr e \<Rightarrow> [e]) x)
      ((\<lambda>(i, d, raw). case build_event I A (vs i) s2 d raw of Inl _ \<Rightarrow> [] | Inr e \<Rightarrow> [e]) y)" if "?Q x y" for x y
    using that assms(3) by (auto split: prod.splits)
qed

lemma built_pair:
  assumes "\<forall>raw \<in> set evs. repeatable I (ap_source A) raw" "digests_ok I" "so_pk (ap_source A) \<noteq> 0"
  shows "list_all2 (alike I (so_pk (ap_source A))) (built I A now D evs S) (built I A now' D' evs S')"
proof -
  let ?ds = "map_events I A now evs"
  have ds: "map_events I A now' evs = ?ds"
    by (rule map_events_cong) (use assms(1) in \<open>auto simp: repeatable_def\<close>)
  let ?ds1 = "fst (enrich_batch (ie_enrich I) (ie_registry I) (ig_rules S) (map fst ?ds, ig_cache S))"
  let ?ds2 = "fst (enrich_batch (ie_enrich I) (ie_registry I) (ig_rules S') (map fst ?ds, ig_cache S'))"
  have same: "same_batch (map fst ?ds) ?ds1" "same_batch (map fst ?ds) ?ds2" by (rule enriched_same)+
  then have len: "length ?ds1 = length ?ds" "length ?ds2 = length ?ds" by (metis length_map list_all2_lengthD)+
  show ?thesis
    unfolding built_def Let_def ds
  proof (rule build_events_pair[OF len])
    fix i
    assume i: "i < length ?ds"
    then have f: "same_fields (fst (?ds ! i)) (?ds1 ! i)" "same_fields (fst (?ds ! i)) (?ds2 ! i)"
      using list_all2_nthD[OF same(1), of i] list_all2_nthD[OF same(2), of i] by simp_all
    from map_events_elem[OF nth_mem[OF i]] obtain d where d: "snd (?ds ! i) \<in> set evs"
      "mapping_fields_to_event I A now (snd (?ds ! i)) = Inr (Some d)" "fst (?ds ! i) = setdefault_enrichment d" by blast
    from assms(1) d(1,2) have own: "own_identity I d" "pv_truthy (attr d ''start_time'' (PJ JNull))"
      unfolding repeatable_def by blast+
    note f' = f[unfolded d(3)]
    show "list_all2 (alike I (so_pk (ap_source A)))
       (case build_event I A (dr_events D i) (ig_db S) (?ds1 ! i) (snd (?ds ! i)) of Inl _ \<Rightarrow> [] | Inr e \<Rightarrow> [e])
       (case build_event I A (dr_events D' i) (ig_db S') (?ds2 ! i) (snd (?ds ! i)) of Inl _ \<Rightarrow> [] | Inr e \<Rightarrow> [e])"
      using build_event_same_error[OF f, of I A "dr_events D i" "ig_db S" "snd (?ds ! i)" "dr_events D' i" "ig_db S'"]
        build_event_alike[OF d(2) own f', of "dr_events D i" "ig_db S" _ "dr_events D' i" "ig_db S'"] assms(2,3)
      by (auto split: sum.splits)
  qed
qed

text \<open>Pairs are dropped together.\<close>

definition twins :: "new_event \<Rightarrow> new_event \<Rightarrow> bool" where
  "twins e e' \<longleftrightarrow> ne_ingest_key e = ne_ingest_key e' \<and> ne_ingest_key e \<noteq> None \<and> ne_push_source_id e = ne_push_source_id e'"

lemma alike_twins: "alike I src x y \<Longrightarrow> twins (with_key I src x) (with_key I src y)"
  unfolding alike_def twins_def by (elim conjE) (simp add: with_key_def del: not_None_eq)

lemma twins_key: "twins x y \<Longrightarrow> \<exists>k. ne_ingest_key x = Some k \<and> ne_ingest_key y = Some k"
  by (metis option.exhaust twins_def)

lemma alike_keyed: "list_all2 (alike I src) es es' \<Longrightarrow> list_all2 twins (map (with_key I src) es) (map (with_key I src) es')"
  by (induction rule: list_all2_induct) (simp_all add: alike_twins)

lemma unique_twins: "list_all2 twins es es' \<Longrightarrow> list_all2 twins (unique_events seen es) (unique_events seen es')"
proof (induction es es' arbitrary: seen rule: list_all2_induct)
  case (Cons x xs y ys)
  from twins_key[OF Cons(1)] obtain k where "ne_ingest_key x = Some k" "ne_ingest_key y = Some k" by blast
  with Cons show ?case by simp
qed simp

lemma twins_sets:
  assumes "list_all2 twins es es'"
  shows "ne_push_source_id ` set es = ne_push_source_id ` set es'" "ne_ingest_key ` set es = ne_ingest_key ` set es'"
    "None \<notin> ne_ingest_key ` set es'"
  using assms by (induction rule: list_all2_induct) (auto simp: twins_def)

lemma ingest_key_nonempty:
  "\<forall>x. ie_sha I x \<noteq> [] \<Longrightarrow> ne_ingest_key (with_key I src e) \<noteq> None \<Longrightarrow> has_key (with_key I src e)"
  by (auto simp: has_key_def with_key_def build_ingress_dedup_key_def build_ingest_key_def Let_def split: if_splits)

text \<open>A batch all of whose keys are stored under pushers of the batch is stored again without effect.\<close>

lemma bulk_save_again:
  fixes A :: adapter
  defines "src \<equiv> so_pk (ap_source A)"
  assumes "\<forall>x. ie_sha I x \<noteq> []" "None \<notin> ne_ingest_key ` set (unique_events [] (map (with_key I src) events))"
    "\<forall>e \<in> set (unique_events [] (map (with_key I src) events)). pv_hashable (ne_push_source_id e)"
    "\<forall>e \<in> set (unique_events [] (map (with_key I src) events)). \<exists>r \<in> set (db_events s).
       ev_ingest_key r = ne_ingest_key e \<and> ev_source_pk r = src \<and>
       ev_push_source_id r \<in> (istr I \<circ> ne_push_source_id) ` set (unique_events [] (map (with_key I src) events))"
  shows "bulk_save_events I A now events s = (Inr [], s)"
proof -
  let ?u = "unique_events [] (map (with_key I src) events)"
  have hk: "filter has_key ?u = ?u"
  proof (rule filter_True, rule ballI)
    fix e
    assume e: "e \<in> set ?u"
    then obtain e0 where "e = with_key I src e0" using unique_events_subset[of "[]" "map (with_key I src) events"] by auto
    moreover have "ne_ingest_key e \<noteq> None" using assms(3) e by (metis image_eqI)
    ultimately show "has_key e" using ingest_key_nonempty[OF assms(2)] by blast
  qed
  have "ne_ingest_key e \<in> set (existing_keys I src ?u s)" if "e \<in> set ?u" for e
  proof -
    from assms(5) that obtain r where "r \<in> set (db_events s)" "ev_ingest_key r = ne_ingest_key e" "ev_source_pk r = src"
      "ev_push_source_id r \<in> (istr I \<circ> ne_push_source_id) ` set ?u" by blast
    moreover from this(2) that have "ev_ingest_key r \<in> ne_ingest_key ` set ?u" by simp
    ultimately have "ev_ingest_key r \<in> set (existing_keys I src ?u s)"
      unfolding existing_keys_def hk set_map set_filter by blast
    with \<open>ev_ingest_key r = ne_ingest_key e\<close> show ?thesis by simp
  qed
  then have "filter (\<lambda>e. \<not> (ne_ingest_key e \<noteq> None \<and> ne_ingest_key e \<in> set (existing_keys I src ?u s))) ?u = []"
    using assms(3) by (simp add: filter_empty_conv del: not_None_eq) (metis image_eqI)
  moreover have "\<not> list_ex (\<lambda>e. has_key e \<and> \<not> pv_hashable (ne_push_source_id e)) ?u"
    using assms(4) by (auto simp: list_ex_iff)
  ultimately show ?thesis by (simp add: bulk_save_events_def src_def[symmetric] Let_def)
qed

text \<open>What the first delivery leaves for the second one.\<close>

lemma row_of_twin: "row_of I A now (with_key I src e) r \<Longrightarrow>
    ev_ingest_key r = ne_ingest_key (with_key I src e) \<and> ev_source_pk r = so_pk (ap_source A) \<and>
    ev_push_source_id r = istr I (ne_push_source_id (with_key I src e))"
  using row_of_fields(2,4,5)[of I A now src e r] by (simp add: with_key_def)

lemma first_delivery_keys:
  fixes A :: adapter
  defines "src \<equiv> so_pk (ap_source A)"
  assumes "bulk_save_events I A now events s = (Inr bulk, t)" "distinct (map ne_event_id events)"
    "ne_event_id ` set events \<inter> ev_event_id ` set (db_events s) = {}"
    "e \<in> set (unique_events [] (map (with_key I src) events))"
  shows "\<exists>r \<in> set (db_events t). ev_ingest_key r = ne_ingest_key e \<and> ev_source_pk r = src \<and>
    ev_push_source_id r \<in> (istr I \<circ> ne_push_source_id) ` set (unique_events [] (map (with_key I src) events))"
proof -
  from bulk_save_records[OF assms(2-4), folded src_def, OF assms(5)] obtain r where r: "r \<in> set (db_events t)"
    "row_of I A now e r \<or> (ne_ingest_key e \<noteq> None \<and> ev_ingest_key r = ne_ingest_key e \<and> ev_source_pk r = src \<and>
      ev_push_source_id r \<in> (istr I \<circ> ne_push_source_id) ` set (unique_events [] (map (with_key I src) events)))" by blast
  have "e \<in> set (map (with_key I src) events)" using assms(5) unique_events_subset by blast
  then obtain e0 where e0: "e = with_key I src e0" by auto
  from r(2) have "ev_ingest_key r = ne_ingest_key e \<and> ev_source_pk r = src \<and>
    ev_push_source_id r \<in> (istr I \<circ> ne_push_source_id) ` set (unique_events [] (map (with_key I src) events))"
  proof
    assume "row_of I A now e r"
    from row_of_twin[OF this[unfolded e0]] have k: "ev_ingest_key r = ne_ingest_key e" "ev_source_pk r = src"
      "ev_push_source_id r = (istr I \<circ> ne_push_source_id) e" by (simp_all add: e0 src_def)
    from k(3) assms(5) have "ev_push_source_id r \<in> (istr I \<circ> ne_push_source_id) ` set (unique_events [] (map (with_key I src) events))"
      by (rule image_eqI)
    with k show ?thesis by blast
  qed blast
  with r(1) show ?thesis by blast
qed

lemma bulk_save_hashable:
  assumes "\<forall>x. ie_sha I x \<noteq> []" "bulk_save_events I A now events s = (Inr bulk, t)"
    "e \<in> set (unique_events [] (map (with_key I (so_pk (ap_source A))) events))" "ne_ingest_key e \<noteq> None"
  shows "pv_hashable (ne_push_source_id e)"
proof -
  have "e \<in> set (map (with_key I (so_pk (ap_source A))) events)" using assms(3) unique_events_subset by blast
  then have "has_key e" using ingest_key_nonempty[OF assms(1)] assms(4) by auto
  with assms(2,3) show ?thesis by (auto simp: bulk_save_events_def list_ex_iff Let_def split: if_splits)
qed

lemma image_counterpart: "f ` A = f ` B \<Longrightarrow> y \<in> B \<Longrightarrow> \<exists>x \<in> A. f x = f y"
  by (metis imageE imageI)

lemma adapter_main_again:
  assumes "adapter_main I A now D evs S = (Inr u, T)" "fresh_ids D (ig_db S)" "digests_ok I" "\<forall>x. ie_sha I x \<noteq> []"
    "so_pk (ap_source A) \<noteq> 0" "\<forall>raw \<in> set evs. repeatable I (ap_source A) raw"
  shows "\<exists>U. adapter_main I A now' D' evs T = (Inr (), U) \<and> ig_db U = ig_db T"
proof -
  let ?src = "so_pk (ap_source A)"
  let ?e1 = "built I A now D evs S" and ?e2 = "built I A now' D' evs T"
  let ?u1 = "unique_events [] (map (with_key I ?src) ?e1)" and ?u2 = "unique_events [] (map (with_key I ?src) ?e2)"
  have tw: "list_all2 twins ?u1 ?u2" by (rule unique_twins[OF alike_keyed[OF built_pair[OF assms(6,3,5)]]])
  note sets = twins_sets[OF tw]
  from adapter_main_ok[OF assms(1)] obtain bulk T0 where c: "create_events I A now D evs S = (Inr bulk, T0)"
    and same: "same_events (ig_db T0) (ig_db T)" by blast
  note b = create_events_bulk[OF c]
  have fresh: "distinct (map ne_event_id ?e1)" "ne_event_id ` set ?e1 \<inter> ev_event_id ` set (db_events (ig_db S)) = {}"
    using fresh_build[OF assms(2)] by (simp_all add: built_def Let_def)
  have pushes: "(istr I \<circ> ne_push_source_id) ` set ?u1 = (istr I \<circ> ne_push_source_id) ` set ?u2"
    unfolding image_comp[symmetric] sets(1) ..
  have stored: "\<exists>r \<in> set (db_events (ig_db T)). ev_ingest_key r = ne_ingest_key e' \<and> ev_source_pk r = ?src \<and>
      ev_push_source_id r \<in> (istr I \<circ> ne_push_source_id) ` set ?u2" if "e' \<in> set ?u2" for e'
  proof -
    from image_counterpart[OF sets(2) that] obtain e where e: "e \<in> set ?u1" "ne_ingest_key e = ne_ingest_key e'" by blast
    from first_delivery_keys[OF b fresh e(1)] obtain r where r: "r \<in> set (db_events (ig_db T0))"
      "ev_ingest_key r = ne_ingest_key e" "ev_source_pk r = ?src" "ev_push_source_id r \<in> (istr I \<circ> ne_push_source_id) ` set ?u1" by blast
    have "settled r \<in> set (map settled (db_events (ig_db T0)))" using r(1) by simp
    then obtain r' where "r' \<in> set (db_events (ig_db T))" "settled r' = settled r" unfolding same[symmetric] by auto
    moreover from this(2) have "ev_ingest_key r' = ev_ingest_key r" "ev_source_pk r' = ev_source_pk r"
      "ev_push_source_id r' = ev_push_source_id r" by (metis settled_fields(5), metis settled_fields(3), metis settled_fields(4))
    ultimately show ?thesis using r(2-4) e(2) unfolding pushes by (intro bexI[of _ r']) simp_all
  qed
  have hash: "\<forall>e \<in> set ?u2. pv_hashable (ne_push_source_id e)"
  proof
    fix e'
    assume e': "e' \<in> set ?u2"
    from image_counterpart[OF sets(1) this] obtain e where e: "e \<in> set ?u1" "ne_push_source_id e = ne_push_source_id e'" by blast
    from image_counterpart[OF sets(2)[symmetric] e(1)] sets(3) have "ne_ingest_key e \<noteq> None" by (metis imageI)
    from bulk_save_hashable[OF assms(4) b e(1) this] e(2) show "pv_hashable (ne_push_source_id e')" by simp
  qed
  have again: "bulk_save_events I A now' ?e2 (ig_db T) = (Inr [], ig_db T)"
    by (rule bulk_save_again[OF assms(4) sets(3) hash]) (use stored in blast)
  obtain r U where c2: "create_events I A now' D' evs T = (r, U)" by fastforce
  from create_events_bulk[OF c2] again have "r = Inr []" "ig_db U = ig_db T" by simp_all
  with c2 show ?thesis by (auto simp: adapter_main_def)
qed

text \<open>C35: a source may deliver a request again: if its events carry their own time and identity, the
  second delivery, at any later time, is answered with success as well and changes nothing in the
  database, neither events nor alerts.\<close>

theorem redelivery_harmless:
  assumes "receive_events I now D path ty header body S = (RA_Success, T)" "body = Some (JObj data)"
    "find (usable_source I (request_source_id path data)) (ig_sources S) = Some src"
    "normalize_payload (ie_payload I) (so_source_type src) data = Inr evs" "\<forall>raw \<in> set evs. repeatable I src raw"
    "fresh_ids D (ig_db S)" "digests_ok I" "\<forall>x. ie_sha I x \<noteq> []" "so_pk src \<noteq> 0"
  shows "\<exists>U. receive_events I now' D' path ty header body T = (RA_Success, U) \<and> ig_db U = ig_db T"
proof -
  let ?secret = "request_secret header data"
  from assms(1-3) have r: "receive_from I now D src ?secret data S = (RA_Success, T)"
    by (auto simp: receive_events_def Let_def split: if_splits)
  then obtain A B res where a: "new_adapter (ie_secrets I) (ig_levels S) src ?secret False = Inr A"
    "authenticate A = Inr B" "adapter_main I B now D evs S = (res, T)" "answer_of res = RA_Success" "evs \<noteq> []" "truthy ?secret"
    "so_source_type src \<in> set adapter_types"
    using assms(4) by (auto simp: receive_from_def rbind_Inr split: sum.splits if_splits prod.splits)
  then obtain u where u: "res = Inr u" by (cases res) (auto split: if_splits)
  have src: "ap_source B = src" using new_adapter_fields(1)[OF a(1)] authenticate_fields(1)[OF a(2)] by simp
  have frame: "ig_sources T = ig_sources S" "ig_levels T = ig_levels S" using adapter_main_frame[OF a(3)] by simp_all
  from adapter_main_again[OF a(3)[unfolded u] assms(6-8), unfolded src, OF assms(9,5)] obtain U where
    U: "adapter_main I B now' D' evs T = (Inr (), U)" "ig_db U = ig_db T" by blast
  then have "receive_from I now' D' src ?secret data T = (RA_Success, U)"
    using a assms(4) by (simp add: receive_from_def frame)
  moreover have "receive_events I now' D' path ty header body T = receive_from I now' D' src ?secret data T"
    using assms(1-3) frame by (auto simp: receive_events_def Let_def split: if_splits)
  ultimately show ?thesis using U(2) by auto
qed
section \<open>The request of the sample\<close>

lemma toy_request:
  "find (usable_source toy_ingest (request_source_id None toy_body)) (ig_sources toy_ingest_state) = Some toy_registered"
  "normalize_payload (ie_payload toy_ingest) (so_source_type toy_registered) toy_body = Inr [toy_event]"
  by code_simp+

lemma toy_fresh: "fresh_ids toy_draws (ig_db toy_ingest_state)"
  by (simp add: fresh_ids_def toy_draws_def toy_ingest_state_def event_db_def inj_def)

theorem no_event_lost_witness:
  "\<exists>A :: adapter. \<exists>r :: event. ap_source A = toy_registered \<and> ev_source_pk r = 1 \<and>
     ((\<exists>n. settled r = settled n \<and> stems_from toy_ingest A 5 (event_db []) toy_event n) \<or>
      (\<exists>k. ev_ingest_key r = Some k \<and> key_of_raw toy_ingest A 5 (event_db []) toy_event k))"
proof -
  from toy_received(1) obtain T where r: "toy_receive 5 toy_ingest_state = (RA_Success, T)" by (metis prod.collapse)
  have c: "standard_columns toy_registered"
    by (simp add: standard_columns_def toy_source_fields) (simp add: toy_source_def ingest_columns_def)
  have "presentable toy_registered toy_event"
    by (simp add: presentable_def toy_source_fields) (simp add: toy_source_def toy_event_def rule_get_def)
  from no_event_lost[OF r[unfolded toy_receive_def] refl toy_request(1) c toy_request(2) _ this toy_fresh]
  obtain A r where "ap_source A = toy_registered" "ev_source_pk r = so_pk toy_registered"
    "(\<exists>n. settled r = settled n \<and> stems_from toy_ingest A 5 (ig_db toy_ingest_state) toy_event n) \<or>
     (\<exists>k. ev_ingest_key r = Some k \<and> key_of_raw toy_ingest A 5 (ig_db toy_ingest_state) toy_event k)" by auto
  moreover have "ig_db toy_ingest_state = event_db []" by (simp add: toy_ingest_state_def)
  ultimately show ?thesis using toy_source_fields(5) by metis
qed

lemma toy_repeatable: "repeatable toy_ingest toy_registered toy_event"
proof -
  have "mapping_fields_to_event toy_ingest A now toy_event =
      Inr (Some [(''title'', PJ (JStr ''cpu'')), (''level'', PJ (JStr (if JStr ''9'' \<in> JStr ` set (ap_levels A) then ''9'' else ap_info_level A))),
        (''start_time'', PT 17), (''external_id'', PJ (JStr ''x1'')), (''action'', PJ (JStr ''created''))])"
    if "ap_source A = toy_registered" for A now
    using that by (simp add: mapping_fields_to_event_def toy_source_fields toy_source_def toy_event_def column_value_def
      convert_field_def is_zero_def) code_simp
  then show ?thesis by (simp add: repeatable_def own_identity_def attr_def)
qed

theorem redelivery_harmless_witness:
  "\<exists>T. toy_receive 9 (snd (toy_receive 5 toy_ingest_state)) = (RA_Success, T) \<and>
     ig_db T = ig_db (snd (toy_receive 5 toy_ingest_state)) \<and> db_events (ig_db T) \<noteq> []"
proof -
  from toy_received(1) obtain T where r: "toy_receive 5 toy_ingest_state = (RA_Success, T)" by (metis prod.collapse)
  have "\<forall>x. ie_sha toy_ingest x \<noteq> []" by (simp add: toy_ingest_def)
  with redelivery_harmless[OF r[unfolded toy_receive_def] refl toy_request _ toy_fresh toy_digests] toy_repeatable
  obtain U where u: "toy_receive 9 T = (RA_Success, U)" "ig_db U = ig_db T"
    by (fastforce simp: toy_receive_def toy_source_fields)
  moreover from toy_received(2) r have "db_events (ig_db T) \<noteq> []" by auto
  ultimately show ?thesis using r by simp
qed

end
