(* ===== verification/Ingest_Sources.thy ===== *)
theory Ingest_Sources
  imports Ingest_Delivery
begin

text \<open>
  Sources that report a problem and its end in two requests: the two events have to meet under one
  external id. Concrete cases in which the ingestion drops or misreads what it receives.
\<close>

section \<open>The columns of an event\<close>

lemma map_fields_column:
  assumes "map_fields I A now ev m out = Inr (Some d)" "distinct (map fst m)"
  shows "map_of d k = (case map_of m k of None \<Rightarrow> map_of out k
    | Some field \<Rightarrow> (case column_value A ev k field of
        Inr (Some (Some v)) \<Rightarrow> Some (convert_field I now k v) | _ \<Rightarrow> map_of out k))"
  using assms
proof (induction m arbitrary: out)
  case (Cons p m)
  obtain key field where p: "p = (key, field)" by fastforce
  have key: "map_of m key = None" using Cons.prems(2) by (simp add: p map_of_eq_None_iff)
  from Cons.prems(1)[unfolded p] show ?case
  proof (cases rule: map_fields_Cons)
    case skipped
    from Cons.IH[OF skipped(2)] Cons.prems(2) skipped(1) key show ?thesis by (simp add: p)
  next
    case (stored v)
    from Cons.IH[OF stored(2)] Cons.prems(2) stored(1) key show ?thesis
      by (auto simp: p map_of_tsave split: option.splits sum.splits)
  qed
qed simp

text \<open>The mapping that a source gets when it is created names every column by itself.\<close>

definition standard_mapping :: "alert_source \<Rightarrow> string set \<Rightarrow> bool" where
  "standard_mapping src ks \<longleftrightarrow> distinct (map fst (so_mapping src)) \<and> (\<forall>(k, f) \<in> set (so_mapping src). f = k) \<and>
     ks \<subseteq> fst ` set (so_mapping src)"

definition plain_column :: "string \<Rightarrow> bool" where
  "plain_column k \<longleftrightarrow> k \<notin> {''title'', ''level'', ''start_time'', ''end_time'', ''value'', ''enrichment'', ''_start_time_synthesized''}"

lemma stored_column:
  assumes "mapping_fields_to_event I A now raw = Inr (Some d)" "standard_mapping (ap_source A) ks" "plain_column k" "k \<in> ks"
    "same_fields (setdefault_enrichment d) d'" "build_event I A uid s d' raw = Inr e"
  shows "map_of (ne_data e) k = (case column_value A raw k k of Inr (Some (Some v)) \<Rightarrow> Some (PJ v) | _ \<Rightarrow> None)"
proof -
  from assms(1) obtain d0 where m: "map_fields I A now raw (so_mapping (ap_source A)) [] = Inr (Some d0)" "d = add_start_time now d0"
    by (cases "map_fields I A now raw (so_mapping (ap_source A)) []") (auto simp: mapping_fields_to_event_def)
  from assms(2,4) have "map_of (so_mapping (ap_source A)) k = Some k"
    by (fastforce simp: standard_mapping_def intro!: map_of_is_SomeI)
  with map_fields_column[OF m(1)] assms(2,3)
  have "map_of d0 k = (case column_value A raw k k of Inr (Some (Some v)) \<Rightarrow> Some (PJ v) | _ \<Rightarrow> None)"
    by (auto simp: standard_mapping_def plain_column_def convert_field_def split: sum.splits option.splits)
  moreover have "map_of d k = map_of d0 k"
    using assms(3) by (auto simp: m(2) add_start_time_def plain_column_def map_of_tsave split: option.splits)
  moreover have "map_of d' k = map_of d k"
    using assms(3,5) by (simp add: same_fields_def plain_column_def map_of_setdefault)
  moreover from build_event_fields[OF assms(6)] have "ne_data e = filter (\<lambda>(k, _). k \<noteq> ''_start_time_synthesized'') d'" by blast
  ultimately show ?thesis using assms(3) by (simp add: map_of_without plain_column_def)
qed

section \<open>One external id for a problem and its end\<close>

text \<open>An event that names its resource by the id and by the name alike is never matched to an alert
  when its external id is missing: its id is computed from its columns.\<close>

lemma resolve_same_resource:
  "attr d ''resource_id'' (PJ JNull) = attr d ''resource_name'' (PJ JNull) \<Longrightarrow> resolve_recovery_external_id I A d s = None"
  by (simp add: resolve_recovery_external_id_def Let_def)

lemma build_event_external:
  assumes "build_event I A uid s d raw = Inr e" "resolve_recovery_external_id I A (ne_data e) s = None"
  shows "ne_external_id e = final_external_id I A (ne_data e)"
proof -
  let ?d = "filter (\<lambda>(k, _). k \<noteq> ''_start_time_synthesized'') d"
  from build_event_fields[OF assms(1)] have d: "ne_data e = ?d" by blast
  have x: "attr d ''external_id'' v = attr ?d ''external_id'' v" for v by (simp add: attr_def map_of_without)
  from assms(1) have "ne_external_id e = (let x = attr ?d ''external_id'' (PJ JNull) in
      if \<not> pv_truthy x \<or> strip (istr I x) = [] then
        (case resolve_recovery_external_id I A ?d s of Some y \<Rightarrow> PJ (JStr y)
         | None \<Rightarrow> PJ (JStr (generate_external_id I ?d (so_source_id (ap_source A))))) else x)"
    by (auto simp: build_event_def x Let_def split: if_split_asm json.splits)
  with assms(2) show ?thesis by (simp add: final_external_id_def d Let_def)
qed

definition id_columns :: "string set" where
  "id_columns = {''external_id'', ''item'', ''resource_id'', ''resource_name'', ''resource_type''}"

lemma final_external_cong:
  assumes "ap_source A = ap_source B" "\<forall>k \<in> id_columns. map_of d k = map_of d' k"
  shows "final_external_id I A d = final_external_id I B d'"
proof -
  have at: "attr d k v = attr d' k v" if "k \<in> id_columns" for k v using assms(2) that by (simp add: attr_def)
  have "generate_external_id I d x = generate_external_id I d' x" for x
    by (simp add: generate_external_id_def at id_columns_def)
  moreover have "attr d ''external_id'' v = attr d' ''external_id'' v" for v by (rule at) (simp add: id_columns_def)
  ultimately show ?thesis by (simp add: final_external_id_def assms(1) Let_def)
qed

text \<open>The fields of an alarm that a second report of it repeats: its labels, its annotations and its own
  id; the status, the times and everything else may change.\<close>

definition same_alarm :: "(string \<times> json) list \<Rightarrow> (string \<times> json) list \<Rightarrow> bool" where
  "same_alarm a b \<longleftrightarrow> (\<forall>k \<in> {''labels'', ''annotations''}. rule_get a k (JObj []) = rule_get b k (JObj [])) \<and>
     pget a ''external_id'' = pget b ''external_id''"

lemma rule_get_Cons: "rule_get ((k, v) # xs) k' d = (if k = k' then v else rule_get xs k' d)" "rule_get [] k' d = d"
  by (simp_all add: rule_get_def)

lemma prom_event_form:
  assumes "prom_event P cl ca rc (JObj a) = Inr raw"
  shows "\<exists>kvs labels anns. raw = JObj kvs \<and> rule_get kvs ''labels'' (JObj []) = JObj labels \<and>
    dict_merge cl (py_or (rule_get a ''labels'' (JObj [])) (JObj [])) = Inr labels \<and>
    dict_merge ca (py_or (rule_get a ''annotations'' (JObj [])) (JObj [])) = Inr anns \<and>
    pget kvs ''item'' = first_of [pget labels ''alertname'', pget anns ''alertname'', JStr ''Prometheus Alert''] \<and>
    pget kvs ''resource_id'' = prom_resource labels \<and> pget kvs ''resource_name'' = prom_resource labels \<and>
    pget kvs ''resource_type'' = pget labels ''resource_type'' \<and>
    pget kvs ''external_id'' = (case prom_external_id P labels a of None \<Rightarrow> JNull | Some x \<Rightarrow> if x = [] then JNull else JStr x)"
  using assms
  by (clarsimp simp: prom_event_def rbind_Inr Let_def simp del: first_of.simps)
    (simp add: rule_get_Cons del: first_of.simps split: option.split)

lemma column_value_dict_cong:
  assumes "rule_get kvs ''labels'' (JObj []) = rule_get kvs' ''labels'' (JObj [])" "pget kvs k = pget kvs' k" "plain_column k"
  shows "column_value A (JObj kvs) k k = column_value B (JObj kvs') k k"
  using assms by (simp add: column_value_def plain_column_def jget_dict del: jget.simps)

lemma plain_id_columns: "k \<in> id_columns \<Longrightarrow> plain_column k"
  by (auto simp: id_columns_def plain_column_def)

lemma prom_event_columns:
  assumes "prom_event P cl ca rc (JObj a) = Inr raw" "prom_event P cl ca rc' (JObj b) = Inr raw'" "same_alarm a b" "k \<in> id_columns"
  shows "column_value A raw k k = column_value B raw' k k"
proof -
  from prom_event_form[OF assms(1)] obtain kvs labels anns where x: "raw = JObj kvs" "rule_get kvs ''labels'' (JObj []) = JObj labels"
    "dict_merge cl (py_or (rule_get a ''labels'' (JObj [])) (JObj [])) = Inr labels"
    "dict_merge ca (py_or (rule_get a ''annotations'' (JObj [])) (JObj [])) = Inr anns"
    "pget kvs ''item'' = first_of [pget labels ''alertname'', pget anns ''alertname'', JStr ''Prometheus Alert'']"
    "pget kvs ''resource_id'' = prom_resource labels" "pget kvs ''resource_name'' = prom_resource labels"
    "pget kvs ''resource_type'' = pget labels ''resource_type''"
    "pget kvs ''external_id'' = (case prom_external_id P labels a of None \<Rightarrow> JNull | Some x \<Rightarrow> if x = [] then JNull else JStr x)"
    by blast
  from prom_event_form[OF assms(2)] obtain kvs' labels' anns' where y: "raw' = JObj kvs'" "rule_get kvs' ''labels'' (JObj []) = JObj labels'"
    "dict_merge cl (py_or (rule_get b ''labels'' (JObj [])) (JObj [])) = Inr labels'"
    "dict_merge ca (py_or (rule_get b ''annotations'' (JObj [])) (JObj [])) = Inr anns'"
    "pget kvs' ''item'' = first_of [pget labels' ''alertname'', pget anns' ''alertname'', JStr ''Prometheus Alert'']"
    "pget kvs' ''resource_id'' = prom_resource labels'" "pget kvs' ''resource_name'' = prom_resource labels'"
    "pget kvs' ''resource_type'' = pget labels' ''resource_type''"
    "pget kvs' ''external_id'' = (case prom_external_id P labels' b of None \<Rightarrow> JNull | Some x \<Rightarrow> if x = [] then JNull else JStr x)"
    by blast
  have l: "labels' = labels" "anns' = anns" using x(3,4) y(3,4) assms(3) by (simp_all add: same_alarm_def)
  have "prom_external_id P labels a = prom_external_id P labels b" using assms(3) by (simp add: prom_external_id_def same_alarm_def)
  with x(5-9) y(5-9) have "\<forall>k \<in> id_columns. pget kvs k = pget kvs' k"
    unfolding l by (simp add: id_columns_def del: first_of.simps)
  moreover have "rule_get kvs ''labels'' (JObj []) = rule_get kvs' ''labels'' (JObj [])" by (simp add: x(2) y(2) l)
  ultimately show ?thesis
    unfolding x(1) y(1) using column_value_dict_cong[OF _ _ plain_id_columns[OF assms(4)]] assms(4) by blast
qed

lemma prom_resource_fields:
  "prom_event P cl ca rc (JObj a) = Inr (JObj kvs) \<Longrightarrow> pget kvs ''resource_name'' = pget kvs ''resource_id''"
  using prom_event_form[of P cl ca rc a "JObj kvs"] by auto

lemma truthy_column:
  "truthy (pget kvs k) \<Longrightarrow> plain_column k \<Longrightarrow> column_value A (JObj kvs) k k = Inr (Some (Some (pget kvs k)))"
  by (simp add: column_value_def plain_column_def jget_dict del: jget.simps)

text \<open>C36: an alarm and its clearing, reported by Prometheus in two notifications, get one external id,
  whatever is in the database and however much later the clearing arrives: the recovery finds the
  alert of the alarm.\<close>

theorem prometheus_alarm_and_clearing_meet:
  assumes "prom_event P cl ca rc (JObj a) = Inr raw" "prom_event P cl ca rc' (JObj b) = Inr (JObj kvs)" "same_alarm a b"
    "truthy (pget kvs ''resource_id'')" "ap_source A = ap_source B" "standard_mapping (ap_source A) id_columns"
    "mapping_fields_to_event I A now raw = Inr (Some d)" "mapping_fields_to_event I B now' (JObj kvs) = Inr (Some d')"
    "same_fields (setdefault_enrichment d) d1" "same_fields (setdefault_enrichment d') d1'"
    "build_event I A uid s d1 raw = Inr e" "build_event I B uid' s' d1' (JObj kvs) = Inr e'"
  shows "ne_external_id e = ne_external_id e'"
proof -
  have B: "standard_mapping (ap_source B) id_columns" using assms(5,6) by simp
  note c = stored_column[OF assms(7,6) plain_id_columns _ assms(9,11)] stored_column[OF assms(8) B plain_id_columns _ assms(10,12)]
  have same: "\<forall>k \<in> id_columns. map_of (ne_data e) k = map_of (ne_data e') k"
    using c prom_event_columns[OF assms(1-3), of _ A B] by simp
  have r: "''resource_id'' \<in> id_columns" "''resource_name'' \<in> id_columns" by (simp_all add: id_columns_def)
  have "attr (ne_data e') ''resource_id'' (PJ JNull) = attr (ne_data e') ''resource_name'' (PJ JNull)"
    using truthy_column[of kvs, OF _ plain_id_columns] prom_resource_fields[OF assms(2)] assms(4) c(2) r by (simp add: attr_def)
  moreover from this same r have "attr (ne_data e) ''resource_id'' (PJ JNull) = attr (ne_data e) ''resource_name'' (PJ JNull)"
    by (simp add: attr_def)
  ultimately show ?thesis
    using build_event_external[OF assms(11) resolve_same_resource] build_event_external[OF assms(12) resolve_same_resource]
      final_external_cong[OF assms(5) same] by simp
qed
definition prom_source :: alert_source where
  "prom_source = toy_source\<lparr>so_source_id := ''prometheus'', so_source_type := ''prometheus'',
     so_mapping := map (\<lambda>k. (k, k)) [''title'', ''level'', ''external_id'', ''item'', ''resource_id'', ''resource_name'',
       ''resource_type'', ''action'']\<rparr>"

definition prom_alarm :: "string \<Rightarrow> (string \<times> json) list" where
  "prom_alarm status = [(''status'', JStr status), (''labels'', JObj [(''alertname'', JStr ''HighCpu''), (''instance'', JStr ''h1'')])]"

definition prom_adapter :: adapter where
  "prom_adapter = \<lparr>ap_source = prom_source, ap_secret = JStr ''kabs7'', ap_trusted = False, ap_info_level = ''3'',
     ap_levels = [''1'', ''3''], ap_team = [JInt 7]\<rparr>"

definition prom_raw :: "string \<Rightarrow> json" where
  "prom_raw status = (case prom_event (ie_payload toy_ingest) (JObj []) (JObj []) JNull (JObj (prom_alarm status)) of
     Inr j \<Rightarrow> j | Inl _ \<Rightarrow> JNull)"

definition prom_mapped :: "string \<Rightarrow> edict" where
  "prom_mapped status = (case mapping_fields_to_event toy_ingest prom_adapter 5 (prom_raw status) of
     Inr (Some d) \<Rightarrow> setdefault_enrichment d | _ \<Rightarrow> [])"

definition prom_built :: "string \<Rightarrow> db \<Rightarrow> new_event option" where
  "prom_built status s = (case build_event toy_ingest prom_adapter ''u'' s (prom_mapped status) (prom_raw status) of
     Inr e \<Rightarrow> Some e | Inl _ \<Rightarrow> None)"

theorem prometheus_alarm_and_clearing_meet_witness:
  "\<exists>e e'. prom_built ''firing'' (event_db []) = Some e \<and> prom_built ''resolved'' (event_db [sample_event]) = Some e' \<and>
     ne_external_id e = ne_external_id e' \<and> action_of (ne_data e) = PJ (JStr ''created'') \<and>
     action_of (ne_data e') = PJ (JStr ''recovery'')"
proof -
  have r0: "prom_raw ''firing'' \<noteq> JNull" "prom_raw ''resolved'' \<noteq> JNull" by code_simp+
  have r1: "prom_mapped ''firing'' \<noteq> []" "prom_mapped ''resolved'' \<noteq> []" by code_simp+
  have "case prom_raw ''resolved'' of JObj kvs \<Rightarrow> truthy (pget kvs ''resource_id'') | _ \<Rightarrow> False" by code_simp
  moreover have "map_option (\<lambda>e. action_of (ne_data e)) (prom_built ''firing'' (event_db [])) = Some (PJ (JStr ''created''))" by code_simp
  moreover have "map_option (\<lambda>e. action_of (ne_data e)) (prom_built ''resolved'' (event_db [sample_event])) = Some (PJ (JStr ''recovery''))"
    by code_simp
  ultimately obtain kvs e e' where k: "prom_raw ''resolved'' = JObj kvs" "truthy (pget kvs ''resource_id'')"
    and e: "prom_built ''firing'' (event_db []) = Some e" "action_of (ne_data e) = PJ (JStr ''created'')"
      "prom_built ''resolved'' (event_db [sample_event]) = Some e'" "action_of (ne_data e') = PJ (JStr ''recovery'')"
    by (auto split: json.splits)
  have p: "prom_event (ie_payload toy_ingest) (JObj []) (JObj []) JNull (JObj (prom_alarm st)) = Inr (prom_raw st)"
    "\<exists>d. mapping_fields_to_event toy_ingest prom_adapter 5 (prom_raw st) = Inr (Some d) \<and> prom_mapped st = setdefault_enrichment d"
    if "st \<in> {''firing'', ''resolved''}" for st
    using that r0 r1 by (auto simp: prom_raw_def prom_mapped_def split: sum.splits option.splits)
  obtain d d' where d: "mapping_fields_to_event toy_ingest prom_adapter 5 (prom_raw ''firing'') = Inr (Some d)"
    "prom_mapped ''firing'' = setdefault_enrichment d"
    "mapping_fields_to_event toy_ingest prom_adapter 5 (JObj kvs) = Inr (Some d')"
    "prom_mapped ''resolved'' = setdefault_enrichment d'" using p(2)[of "''firing''"] p(2)[of "''resolved''"] k(1) by auto
  have b: "build_event toy_ingest prom_adapter ''u'' (event_db []) (setdefault_enrichment d) (prom_raw ''firing'') = Inr e"
    "build_event toy_ingest prom_adapter ''u'' (event_db [sample_event]) (setdefault_enrichment d') (JObj kvs) = Inr e'"
    using e(1,3) k(1) by (auto simp: prom_built_def d split: sum.splits)
  have a: "same_alarm (prom_alarm ''firing'') (prom_alarm ''resolved'')"
    by (simp add: same_alarm_def prom_alarm_def rule_get_Cons)
  have m: "standard_mapping (ap_source prom_adapter) id_columns"
    by (auto simp: standard_mapping_def prom_adapter_def prom_source_def id_columns_def)
  from prometheus_alarm_and_clearing_meet[OF p(1) p(1)[of "''resolved''", unfolded k(1)] a k(2) refl m d(1,3) same_fields_refl same_fields_refl b]
  show ?thesis using e by simp
qed

section \<open>What is dropped or misread\<close>

text \<open>The labels are only asked for a column that the event lacks; then \<open>labels: null\<close> raises, and the
  event is left out although it has a title.\<close>

lemma null_labels_raise:
  assumes "map_of kvs ''labels'' = Some JNull" "plain_column k" "\<not> truthy (pget kvs k)" "\<not> is_zero (pget kvs k)"
  shows "column_value A (JObj kvs) k k = Inl AttributeError"
  using assms by (simp add: column_value_def plain_column_def jget_dict rule_get_def del: jget.simps) (simp add: jget.simps)

text \<open>A number as start time is taken for the present time, and the event counts as one with a time of
  its own.\<close>

lemma number_as_time_ignored: "timestamp_to_datetime I now (JInt n) = now"
  by (simp add: timestamp_to_datetime_def)

text \<open>An end time of zero is kept as the number, and a value that is no number as its text: the row is
  refused, and with it its whole batch.\<close>

lemma zero_end_time_refused:
  assumes "map_of (ne_data e) ''start_time'' = Some (PT t)" "map_of (ne_data e) ''end_time'' = Some (convert_field I now ''end_time'' (JInt 0))"
  shows "event_row I A now e = Inl TypeError"
  using assms by (simp add: event_row_def convert_field_def Let_def)

lemma percent_value_refuses_batch:
  assumes "e \<in> set es" "map_of (ne_data e) ''value'' = Some (convert_field I now ''value'' (JStr ''95%''))" "\<not> ie_float I ''95%''"
  shows "isl (event_rows I A now es)"
  using assms(1)
proof (induction es)
  case (Cons x es)
  have "isl (rbind (time_column s) (\<lambda>a. rbind (time_column t) (\<lambda>b. rbind (Inl ValueError) f)))" for s t and f :: "unit \<Rightarrow> event res"
    by (cases "time_column s"; cases "time_column t") simp_all
  moreover have "float_column I (map_of (ne_data e) ''value'') = Inl ValueError"
    using assms(2,3) by (simp add: convert_field_def isdigit_def)
  ultimately have "isl (event_row I A now e)" by (simp add: event_row_def Let_def)
  with Cons show ?case
    by (cases "event_row I A now x"; cases "event_rows I A now es") auto
qed simp

text \<open>A zero as \<open>EventValue\<close> is the end of the problem in the flat form, and its begin in the nested one.\<close>

lemma zabbix_integer_zero:
  "zabbix_normalize (ie_payload toy_ingest) [(''event'', JObj [(''problem_id'', JStr ''p'')]), (''EventValue'', JInt 0)] =
     Inr [JObj [(''problem_id'', JStr ''p''), (''external_id'', JStr ''p''), (''action'', JStr ''created'')]]"
  "map_sum id (map (\<lambda>ev. case ev of JObj kvs \<Rightarrow> pget kvs ''action'' | _ \<Rightarrow> JNull))
     (zabbix_normalize (ie_payload toy_ingest) [(''problem_id'', JStr ''p''), (''EventValue'', JInt 0)]) = Inr [JStr ''recovery'']"
  by code_simp+

end
