(* ===== verification/Units.thy ===== *)
theory Units
  imports Prelude Complex_Main
begin

text \<open>
  The conversion of metric values between units (\<open>monitor/utils/unit_converter.py\<close>,
  \<open>monitor/constants/unit_converter.py\<close>). A unit belongs to at most one system; a value is converted
  by the quotient of the multipliers of the two units.

  A float is an exact rational number, an infinity or NaN: rounding and overflow are not modelled.
  The micro sign of the code appears in UTF-8.
\<close>

section \<open>Floats\<close>

datatype fval = Fin rat | Inf bool | NaN

text \<open>\<open>x < y\<close> and \<open>x == y\<close>; a comparison with NaN is false.\<close>

fun f_less :: "fval \<Rightarrow> fval \<Rightarrow> bool" where
  "f_less (Fin a) (Fin b) = (a < b)"
| "f_less (Fin a) (Inf up) = up"
| "f_less (Inf up) (Fin b) = (\<not> up)"
| "f_less (Inf u) (Inf v) = (\<not> u \<and> v)"
| "f_less _ _ = False"

fun f_eq :: "fval \<Rightarrow> fval \<Rightarrow> bool" where
  "f_eq NaN _ = False"
| "f_eq x y = (x = y)"

text \<open>Multiplication with a positive factor.\<close>

fun f_scale :: "rat \<Rightarrow> fval \<Rightarrow> fval" where
  "f_scale k (Fin a) = Fin (a * k)"
| "f_scale k v = v"

section \<open>Systems of units\<close>

datatype scale = Base nat | Steps "nat list"

definition micro_s :: string where
  "micro_s = [CHR 0xC2, CHR 0xB5, CHR ''s'']"

definition UNIT_SYSTEMS :: "(string \<times> string list \<times> scale) list" where
  "UNIT_SYSTEMS =
     [(''percent'', [''percent''], Base 1),
      (''count'', [''counts'', ''thousand'', ''million'', ''billion'', ''trillion'', ''quadrillion'', ''quintillion'',
         ''sextillion'', ''septillion''], Base 1000),
      (''data_bits'', [''bits'', ''kilobits'', ''megabits'', ''gigabits'', ''terabits'', ''petabits''], Base 1000),
      (''data_bytes'', [''bytes'', ''kibibytes'', ''mebibytes'', ''gibibytes'', ''tebibytes'', ''pebibytes''], Base 1024),
      (''data_rate_bits'', [''bitps'', ''kbitps'', ''mbitps'', ''gbitps'', ''tbitps'', ''pbitps''], Base 1000),
      (''datarate_bytes'', [''byteps'', ''kibyteps'', ''mibyteps'', ''gibyteps'', ''tibyteps'', ''pibyteps''], Base 1024),
      (''time'', [''ns'', micro_s, ''ms'', ''s'', ''m'', ''h'', ''d''], Steps [1, 1000, 1000, 1000, 60, 60, 24]),
      (''hertz'', [''hertz'', ''kilohertz'', ''megahertz''], Base 1000)]"

definition STANDALONE_UNITS :: "string list" where
  "STANDALONE_UNITS = [''none'', ''cps'', ''msps'', ''celsius'', ''fahrenheit'', ''kelvin'', ''watts'', ''volts'']"

text \<open>All names stand for themselves but one alias.\<close>

definition UNIT_ID_TO_NAME :: "(string \<times> string) list" where
  "UNIT_ID_TO_NAME =
     map (\<lambda>u. (u, u)) (STANDALONE_UNITS @ concat (map (fst \<circ> snd) UNIT_SYSTEMS)) @ [(''us'', micro_s)]"

definition normalize_unit :: "string \<Rightarrow> string" where
  "normalize_unit u =
     (if u = [] then ''none''
      else let l = lower (strip u) in case map_of UNIT_ID_TO_NAME l of Some n \<Rightarrow> n | None \<Rightarrow> l)"

definition detect_unit_system :: "string \<Rightarrow> string option" where
  "detect_unit_system u =
     (let n = normalize_unit u in
      if n \<in> set STANDALONE_UNITS then None
      else map_option fst (find (\<lambda>(_, units, _). n \<in> set units) UNIT_SYSTEMS))"

text \<open>How a unit is written; the degree sign in UTF-8.\<close>

definition DISPLAY_UNIT_MAPPING :: "(string \<times> string) list" where
  "DISPLAY_UNIT_MAPPING =
     (let deg = [CHR 0xC2, CHR 0xB0] in
      zip [''percent'', ''counts'', ''thousand'', ''million'', ''billion'', ''trillion'', ''quadrillion'', ''quintillion'',
           ''sextillion'', ''septillion'']
          [''%'', [], ''K'', ''Mil'', ''Bil'', ''Tri'', ''Quadr'', ''Quint'', ''Sext'', ''Sept''] @
      zip [''bits'', ''kilobits'', ''megabits'', ''gigabits'', ''terabits'', ''petabits'']
          [''b'', ''Kb'', ''Mb'', ''Gb'', ''Tb'', ''Pb''] @
      zip [''bytes'', ''kibibytes'', ''mebibytes'', ''gibibytes'', ''tebibytes'', ''pebibytes'']
          [''B'', ''KiB'', ''MiB'', ''GiB'', ''TiB'', ''PiB''] @
      zip [''bitps'', ''kbitps'', ''mbitps'', ''gbitps'', ''tbitps'', ''pbitps'']
          [''b/s'', ''Kb/s'', ''Mb/s'', ''Gb/s'', ''Tb/s'', ''Pb/s''] @
      zip [''byteps'', ''kibyteps'', ''mibyteps'', ''gibyteps'', ''tibyteps'', ''pibyteps'']
          [''B/s'', ''KiB/s'', ''MiB/s'', ''GiB/s'', ''TiB/s'', ''PiB/s''] @
      zip [''ns'', micro_s, ''ms'', ''s'', ''m'', ''h'', ''d''] [''ns'', micro_s, ''ms'', ''s'', ''min'', ''hour'', ''day''] @
      [(''cps'', ''cps''), (''hertz'', ''Hz''), (''kilohertz'', ''KHz''), (''megahertz'', ''MHz''), (''msps'', ''ms/s''),
       (''celsius'', deg @ ''C''), (''fahrenheit'', deg @ ''F''), (''kelvin'', ''K''), (''watts'', ''W''), (''volts'', ''V''),
       (''none'', [])])"

definition get_display_unit :: "string \<Rightarrow> string" where
  "get_display_unit u =
     (let n = normalize_unit u in case map_of DISPLAY_UNIT_MAPPING n of Some d \<Rightarrow> d | None \<Rightarrow> n)"

definition unit_index :: "string \<Rightarrow> string list \<Rightarrow> nat" where
  "unit_index u units = length (takeWhile (\<lambda>x. x \<noteq> u) units)"

text \<open>The special cases of the code for time and percentages.\<close>

definition calculate_unit_multiplier :: "string \<Rightarrow> string \<Rightarrow> rat" where
  "calculate_unit_multiplier u system =
     (case map_of UNIT_SYSTEMS system of
        None \<Rightarrow> 1
      | Some (units, sc) \<Rightarrow>
          if u \<notin> set units then 1
          else let i = unit_index u units in
            if system = ''time'' then
              (case sc of Steps ms \<Rightarrow> prod_list (map of_nat (take i (drop 1 ms))) | Base _ \<Rightarrow> 1)
            else if system = ''percent'' then
              (if u = ''percentunit'' then 1 else if u = ''percent'' then 1 / 100 else 1)
            else (case sc of Base b \<Rightarrow> of_nat b ^ i | Steps _ \<Rightarrow> 1))"

definition is_convertible :: "string \<Rightarrow> string \<Rightarrow> bool" where
  "is_convertible source target =
     (normalize_unit source = normalize_unit target \<or>
      (detect_unit_system (normalize_unit source) \<noteq> None \<and>
       detect_unit_system (normalize_unit source) = detect_unit_system (normalize_unit target)))"

text \<open>Values that cannot be converted are returned as they are.\<close>

definition convert_values :: "fval list \<Rightarrow> string \<Rightarrow> string \<Rightarrow> fval list" where
  "convert_values vs source target =
     (let s = normalize_unit source; t = normalize_unit target in
      if vs = [] then []
      else if s = t then vs
      else if detect_unit_system s \<noteq> detect_unit_system t then vs
      else case detect_unit_system s of
        None \<Rightarrow> vs
      | Some system \<Rightarrow>
          let k = calculate_unit_multiplier s system; l = calculate_unit_multiplier t system in
          if l = 0 then vs else map (f_scale (k / l)) vs)"

section \<open>Choosing a unit\<close>

datatype unit_strategy = SU_median | SU_max | SU_mean | SU_p95

definition reference_value :: "rat list \<Rightarrow> unit_strategy \<Rightarrow> rat" where
  "reference_value vs st =
     (let xs = sort vs; n = length xs in
      case st of
        SU_max \<Rightarrow> Max (set vs)
      | SU_mean \<Rightarrow> sum_list vs / of_nat n
      | SU_p95 \<Rightarrow> xs ! min (n * 95 div 100) (n - 1)
      | SU_median \<Rightarrow> if odd n then xs ! (n div 2) else (xs ! (n div 2 - 1) + xs ! (n div 2)) / 2)"

fun best_unit :: "rat \<Rightarrow> string \<Rightarrow> string list \<Rightarrow> string \<Rightarrow> rat \<Rightarrow> string" where
  "best_unit base system [] best magnitude = best"
| "best_unit base system (u # us) best magnitude =
     (let m = \<bar>base / calculate_unit_multiplier u system\<bar> in
      if 1 \<le> m \<and> m < 1000 then u
      else if \<bar>m - 100\<bar> < \<bar>magnitude - 100\<bar> then best_unit base system us u m
      else best_unit base system us best magnitude)"

text \<open>\<open>None\<close> stands for \<open>None\<close> and NaN.\<close>

definition suggest_unit :: "rat option list \<Rightarrow> string \<Rightarrow> unit_strategy \<Rightarrow> string" where
  "suggest_unit vs source st =
     (let valid = map the (filter (\<lambda>v. v \<noteq> None) vs); s = normalize_unit source in
      if valid = [] then source
      else case detect_unit_system s of
        None \<Rightarrow> source
      | Some system \<Rightarrow>
          (case map_of UNIT_SYSTEMS system of
             None \<Rightarrow> source
           | Some (units, _) \<Rightarrow>
               let r = reference_value valid st in
               best_unit (r * calculate_unit_multiplier s system) system units s \<bar>r\<bar>))"

section \<open>Conversion\<close>

lemma multiplier_positive: "0 < calculate_unit_multiplier u system"
proof (cases "map_of UNIT_SYSTEMS system")
  case (Some p)
  obtain units sc where p: "p = (units, sc)" by fastforce
  have "\<forall>(n, us, sc) \<in> set UNIT_SYSTEMS. (case sc of Base b \<Rightarrow> 0 < b | Steps ms \<Rightarrow> \<forall>m \<in> set ms. 0 < m)"
    by (simp add: UNIT_SYSTEMS_def)
  with Some p have sc: "case sc of Base b \<Rightarrow> 0 < b | Steps ms \<Rightarrow> \<forall>m \<in> set ms. 0 < m" by (auto dest: map_of_SomeD)
  have pos: "0 < prod_list (map of_nat ms :: rat list)" if "\<forall>m \<in> set ms. 0 < m" for ms
    using that by (induction ms) auto
  have sub: "\<forall>m \<in> set (take i (drop 1 ms)). 0 < m" if "\<forall>m \<in> set ms. 0 < m" for i and ms :: "nat list"
    using that by (meson in_set_dropD in_set_takeD)
  show ?thesis
    using sc pos[OF sub] by (simp add: calculate_unit_multiplier_def Some p Let_def split: scale.splits)
qed (simp add: calculate_unit_multiplier_def)

lemma f_scale_scale: "f_scale k (f_scale l v) = f_scale (l * k) v"
  by (cases v) simp_all

lemma f_scale_one [simp]: "f_scale 1 v = v"
  by (cases v) simp_all

lemma f_less_scale: "0 < k \<Longrightarrow> f_less (f_scale k x) (f_scale k y) = f_less x y"
  by (cases x; cases y) simp_all

lemma f_eq_scale: "0 < k \<Longrightarrow> f_eq (f_scale k x) (f_scale k y) = f_eq x y"
  by (cases x; cases y) simp_all

text \<open>A conversion multiplies by one positive factor, the identity when nothing is converted.\<close>

definition factor :: "string \<Rightarrow> string \<Rightarrow> rat" where
  "factor source target =
     (let s = normalize_unit source; t = normalize_unit target in
      if s = t \<or> detect_unit_system s \<noteq> detect_unit_system t then 1
      else case detect_unit_system s of
        None \<Rightarrow> 1
      | Some system \<Rightarrow> calculate_unit_multiplier s system / calculate_unit_multiplier t system)"

lemma factor_positive: "0 < factor source target"
  by (simp add: factor_def Let_def multiplier_positive split: option.split)

lemma convert_scales: "convert_values vs source target = map (f_scale (factor source target)) vs"
proof -
  have nz: "calculate_unit_multiplier u system \<noteq> 0" for u system using multiplier_positive[of u system] by simp
  have one: "map (f_scale 1) vs = vs" by (induction vs) simp_all
  show ?thesis using one by (auto simp: convert_values_def factor_def Let_def nz split: option.splits)
qed

lemma factor_compose: "is_convertible u v \<Longrightarrow> is_convertible v w \<Longrightarrow> factor u v * factor v w = factor u w"
  using multiplier_positive[THEN less_imp_neq]
  by (auto simp: factor_def is_convertible_def Let_def split: option.splits)

text \<open>The suggested unit shows the reference value between 1 and 1000 whenever a unit of the system does.\<close>

lemma best_unit_ideal:
  assumes "\<exists>u \<in> set us. 1 \<le> \<bar>base / calculate_unit_multiplier u system\<bar> \<and> \<bar>base / calculate_unit_multiplier u system\<bar> < 1000"
  shows "\<exists>u \<in> set us. best_unit base system us best m = u \<and> 1 \<le> \<bar>base / calculate_unit_multiplier u system\<bar> \<and>
    \<bar>base / calculate_unit_multiplier u system\<bar> < 1000"
  using assms by (induction us arbitrary: best m) (auto simp: Let_def)

lemma best_unit_in: "best_unit base system us best m \<in> insert best (set us)"
  by (induction us arbitrary: best m) (auto simp: Let_def)

end
