(* ===== verification/Monitor_Data.thy ===== *)
theory Monitor_Data
  imports Units
begin

text \<open>
  The data of the monitoring application (\<open>monitor/models/\<close>, \<open>monitor/constants/\<close>): policies that
  watch a metric, the alerts and events they raise, the baselines of known metric instances, the
  snapshots of an alert, notification channels. The database is a record of tables.

  The documents of a policy are typed as its serializer (\<open>serializers/monitor_policy.py\<close>) requires.
  A series is one row of the answer of the metric store. The raw data of an event is the series it
  was found in. Log entries keep what later code reads: the action, the channel and the outcome.
\<close>

section \<open>Metric data\<close>

record series =
  sr_metric :: "(string \<times> string) list"
  sr_values :: "(int \<times> string) list"

text \<open>A label of a metric instance: its value, \<open>None\<close>, or the NaN of a missing cell of a data frame.\<close>

datatype label = L_str string | L_none | L_nan

text \<open>The result of \<open>ast.literal_eval\<close>: a tuple, another literal (given by its text), or an exception.\<close>

datatype literal = Lit_tuple "label list" | Lit_other string | Lit_error

section \<open>Policies\<close>

record period =
  pd_type :: string
  pd_value :: int

record threshold =
  th_method :: string
  th_value :: fval
  th_level :: string

record label_filter =
  lf_name :: string
  lf_method :: string
  lf_value :: "string option"

datatype query_condition =
    QC_pmq string "string list option"
  | QC_metric nat "label_filter list"

datatype policy_source = NoSource | SourceInstances "string list" | SourceOrganizations "int list" | SourceOther string

record policy =
  mp_id :: nat
  mp_name :: string
  mp_object :: nat
  mp_object_name :: string
  mp_organizations :: "int list"
  mp_alert_name :: string
  mp_collect_type :: string
  mp_query :: query_condition
  mp_source :: policy_source
  mp_period :: "period option"
  mp_group_algorithm :: string
  mp_algorithm :: string
  mp_group_by :: "string list"
  mp_threshold :: "threshold list"
  mp_trigger_count :: int
  mp_recovery_condition :: int
  mp_metric_unit :: string
  mp_calculation_unit :: string
  mp_no_data_period :: "period option"
  mp_no_data_level :: string
  mp_no_data_alert_name :: string
  mp_no_data_recovery_period :: "period option"
  mp_notice :: bool
  mp_notice_type_ids :: "int list"
  mp_notice_users :: "string list"
  mp_enable :: bool
  mp_enable_alerts :: "string list"
  mp_last_run_time :: "int option"

text \<open>A metric; \<open>mt_dimensions\<close> pairs names with display names, \<open>mt_enum\<close> is the decoded unit of an
  enumeration.\<close>

record metric =
  mt_id :: nat
  mt_name :: string
  mt_display_name :: string
  mt_query :: string
  mt_data_type :: string
  mt_instance_id_keys :: "string list"
  mt_dimensions :: "(string \<times> string) list"
  mt_enum :: "(int \<times> string) list"

record instance_row =
  mi_id :: string
  mi_name :: string
  mi_object :: nat
  mi_is_deleted :: bool
  mi_auto :: bool
  mi_active :: bool

section \<open>Alerts and events\<close>

datatype ma_status = M_NEW | M_CLOSED | M_RECOVERED

datatype ma_kind = MK_ALERT | MK_NO_DATA

datatype notice_action = N_CREATED | N_UPGRADED | N_RECOVERED | N_CLOSED

record operation_log =
  ol_action :: notice_action
  ol_reason :: string
  ol_operator :: string
  ol_time :: "int option"

record notice_log =
  nl_time :: int
  nl_action :: notice_action
  nl_channel :: int
  nl_alert_center :: bool
  nl_success :: bool

record monitor_alert =
  ma_id :: nat
  ma_policy :: nat
  ma_instance :: string
  ma_instance_name :: string
  ma_metric_instance :: string
  ma_dimensions :: "(string \<times> label) list"
  ma_kind :: ma_kind
  ma_level :: string
  ma_value :: "fval option"
  ma_content :: string
  ma_status :: ma_status
  ma_start :: "int option"
  ma_end :: "int option"
  ma_operator :: string
  ma_info_count :: int
  ma_operation_logs :: "operation_log list"
  ma_notice_type_ids :: "int list"
  ma_notice_users :: "string list"
  ma_notice_logs :: "notice_log list"
  ma_notified :: bool
  ma_retry_count :: int

record monitor_event =
  me_id :: string
  me_alert :: nat
  me_policy :: nat
  me_instance :: string
  me_metric_instance :: string
  me_dimensions :: "(string \<times> label) list"
  me_value :: "fval option"
  me_level :: string
  me_content :: string
  me_time :: "int option"

text \<open>An event as the detection gives it, before it is stored.\<close>

record found_event =
  fe_metric_instance :: string
  fe_instance :: string
  fe_dimensions :: "(string \<times> label) list"
  fe_value :: "fval option"
  fe_level :: string
  fe_content :: string
  fe_raw :: "series option"

datatype snapshot_entry =
    SE_pre int series
  | SE_event string "int option" int series
  | SE_info int series
  | SE_no_data int

record metric_snapshot =
  sn_alert :: nat
  sn_policy :: nat
  sn_instance :: string
  sn_entries :: "snapshot_entry list"

record baseline =
  bl_policy :: nat
  bl_instance :: string
  bl_metric_instance :: string

section \<open>Channels and messages\<close>

record channel =
  ch_id :: int
  ch_type :: string
  ch_method_name :: string

text \<open>A message about one alert, or the documents of alerts for the alert centre.\<close>

datatype message =
    Msg_notice string string "string list"
  | Msg_alert_center "json list"

section \<open>The database\<close>

record monitor_db =
  md_policies :: "policy list"
  md_metrics :: "metric list"
  md_instances :: "instance_row list"
  md_instance_orgs :: "(string \<times> int) list"
  md_alerts :: "monitor_alert list"
  md_events :: "monitor_event list"
  md_raw :: "(string \<times> series) list"
  md_snapshots :: "metric_snapshot list"
  md_baselines :: "baseline list"
  md_channels :: "channel list"
  md_sent :: "(int \<times> message) list"

text \<open>Parameters: the metric store (its answer to a range query), \<open>float\<close>, \<open>str\<close> and formatting of
  floats, \<open>str\<close> of a tuple and \<open>ast.literal_eval\<close>, \<open>string.Template.safe_substitute\<close> (the raw row has
  lower priority than the named variables), the answer of a channel to the n-th message, and the text
  of an alert's JSON value.\<close>

record monitor_env =
  mo_query :: "string \<Rightarrow> int \<Rightarrow> int \<Rightarrow> string \<Rightarrow> series list res"
  mo_float :: "string \<Rightarrow> fval res"
  mo_float_str :: "fval \<Rightarrow> string"
  mo_two_digits :: "fval \<Rightarrow> string"
  mo_trunc :: "fval \<Rightarrow> int res"
  mo_str :: "label list \<Rightarrow> string"
  mo_eval :: "string \<Rightarrow> literal"
  mo_substitute :: "string \<Rightarrow> series option \<Rightarrow> (string \<times> string) list \<Rightarrow> string"
  mo_send :: "nat \<Rightarrow> int \<Rightarrow> message \<Rightarrow> json res"
  mo_json :: "fval \<Rightarrow> json"

text \<open>What the code relies on: \<open>literal_eval\<close> reads back the text of a tuple of texts and \<open>None\<close>, and
  raises on a NaN in it; different tuples have different texts, none of them empty.\<close>

definition tuples_ok :: "monitor_env \<Rightarrow> bool" where
  "tuples_ok M \<longleftrightarrow> inj (mo_str M) \<and> (\<forall>t. mo_str M t \<noteq> []) \<and>
     (\<forall>t. mo_eval M (mo_str M t) = (if L_nan \<in> set t then Lit_error else Lit_tuple t))"

section \<open>Constants\<close>

definition MAX_BACKFILL_COUNT :: int where
  "MAX_BACKFILL_COUNT = 30"

text \<open>In microseconds, as all instants.\<close>

definition MAX_BACKFILL :: int where
  "MAX_BACKFILL = 24 * 3600 * 1000000"

definition level_weight :: "string \<Rightarrow> int" where
  "level_weight l =
     (case map_of [(''warning'', 2), (''error'', 3), (''critical'', 4), (''no_data'', 5)] l of None \<Rightarrow> 0 | Some w \<Rightarrow> w)"

definition threshold_method :: "string \<Rightarrow> (fval \<Rightarrow> fval \<Rightarrow> bool) option" where
  "threshold_method m =
     map_of [(''>'', \<lambda>x y. f_less y x), (''<'', \<lambda>x y. f_less x y), (''='', f_eq), (''!='', \<lambda>x y. \<not> f_eq x y),
       (''>='', \<lambda>x y. f_less y x \<or> f_eq x y), (''<='', \<lambda>x y. f_less x y \<or> f_eq x y)] m"

section \<open>Well-formedness\<close>

text \<open>One active alert for a policy, a metric instance and a kind of alert; alerts and policies have
  unique keys.\<close>

definition active_alert_key :: "monitor_alert \<Rightarrow> nat \<times> string \<times> ma_kind" where
  "active_alert_key a = (ma_policy a, ma_metric_instance a, ma_kind a)"

definition is_new :: "monitor_alert \<Rightarrow> bool" where
  "is_new a \<longleftrightarrow> ma_status a = M_NEW"

definition wf_monitor :: "monitor_db \<Rightarrow> bool" where
  "wf_monitor s \<longleftrightarrow> keyed ma_id (md_alerts s) \<and> keyed mp_id (md_policies s) \<and>
     keyed active_alert_key (filter is_new (md_alerts s))"

end
