(* ===== verification/Monitor_Query.thy ===== *)
theory Monitor_Query
  imports Monitor_Data
begin

text \<open>
  The queries of a policy (\<open>monitor/tasks/utils/policy_methods.py\<close>, \<open>monitor/tasks/utils/metric_query.py\<close>,
  \<open>monitor/tasks/services/policy_scan/metric_query.py\<close>): periods, the text of a query with its label
  filters, and what is made of the answer of the metric store.
\<close>

section \<open>Periods\<close>

definition period_to_seconds :: "period option \<Rightarrow> int res" where
  "period_to_seconds p =
     (case p of
        None \<Rightarrow> Inl BaseAppException
      | Some d \<Rightarrow>
          if pd_type d = ''min'' then Inr (pd_value d * 60)
          else if pd_type d = ''hour'' then Inr (pd_value d * 3600)
          else if pd_type d = ''day'' then Inr (pd_value d * 86400)
          else Inl BaseAppException)"

definition format_period :: "period option \<Rightarrow> string res" where
  "format_period p =
     (case p of
        None \<Rightarrow> Inl BaseAppException
      | Some d \<Rightarrow>
          (case map_of [(''min'', ''m''), (''hour'', ''h''), (''day'', ''d'')] (pd_type d) of
             None \<Rightarrow> Inl BaseAppException
           | Some u \<Rightarrow> Inr (str_int (pd_value d) @ u)))"

text \<open>The text of a period: digits and a unit.\<close>

definition read_period :: "string \<Rightarrow> (nat \<times> nat) option" where
  "read_period s =
     (if s = [] \<or> butlast s = [] \<or> list_ex (\<lambda>c. digit c = None) (butlast s) then None
      else case (parse_digits False 0 (butlast s),
                 map_of [(CHR ''m'', 60), (CHR ''h'', 3600), (CHR ''d'', 86400)] (last s)) of
        (Some n, Some u) \<Rightarrow> Some (n, u)
      | _ \<Rightarrow> None)"

text \<open>The resolution of the inner query: a thirtieth of the period, at least a second.\<close>

definition period_step :: "string \<Rightarrow> string res" where
  "period_step p =
     (case read_period p of
        None \<Rightarrow> Inl BaseAppException
      | Some (n, u) \<Rightarrow>
          let seconds = max 1 (n * u div 30) in
          Inr (if seconds mod 3600 = 0 then digits_of (seconds div 3600) @ ''h''
               else if seconds mod 60 = 0 then digits_of (seconds div 60) @ ''m''
               else digits_of seconds @ ''s''))"

section \<open>The text of a query\<close>

definition GROUP_AGGREGATION_ALGORITHMS :: "string list" where
  "GROUP_AGGREGATION_ALGORITHMS = [''sum'', ''avg'', ''max'', ''min'', ''count'']"

definition WINDOW_AGGREGATION_ALGORITHMS :: "string list" where
  "WINDOW_AGGREGATION_ALGORITHMS = [''max_over_time'', ''min_over_time'', ''avg_over_time'', ''sum_over_time'',
     ''count_over_time'', ''last_over_time'']"

definition LEGACY_ALGORITHM_MAPPING :: "(string \<times> string \<times> string) list" where
  "LEGACY_ALGORITHM_MAPPING =
     [(''avg'', ''avg'', ''avg_over_time''), (''avg_over_time'', ''avg'', ''avg_over_time''),
      (''max'', ''max'', ''max_over_time''), (''max_over_time'', ''max'', ''max_over_time''),
      (''min'', ''min'', ''min_over_time''), (''min_over_time'', ''min'', ''min_over_time''),
      (''sum'', ''sum'', ''sum_over_time''), (''sum_over_time'', ''sum'', ''sum_over_time''),
      (''count'', ''count'', ''last_over_time''), (''count_over_time'', ''count'', ''count_over_time''),
      (''last_over_time'', ''avg'', ''last_over_time'')]"

definition normalize_policy_algorithms :: "string \<Rightarrow> string \<Rightarrow> (string \<times> string) res" where
  "normalize_policy_algorithms algorithm group_algorithm =
     (if group_algorithm \<noteq> [] then
        (if group_algorithm \<notin> set GROUP_AGGREGATION_ALGORITHMS then Inl BaseAppException
         else if algorithm \<notin> set WINDOW_AGGREGATION_ALGORITHMS then Inl BaseAppException
         else Inr (group_algorithm, algorithm))
      else case map_of LEGACY_ALGORITHM_MAPPING algorithm of
        None \<Rightarrow> Inl BaseAppException
      | Some p \<Rightarrow> Inr p)"

definition build_policy_query :: "string \<Rightarrow> string \<Rightarrow> string \<Rightarrow> string \<Rightarrow> string \<Rightarrow> string res" where
  "build_policy_query algorithm query step group_by group_algorithm =
     rbind (normalize_policy_algorithms algorithm group_algorithm) (\<lambda>(g, a).
       if group_by = [] then Inl BaseAppException
       else rbind (period_step step) (\<lambda>inner.
         Inr (a @ ''(('' @ g @ ''('' @ query @ '') by ('' @ group_by @ ''))['' @ step @ '':'' @ inner @ ''])'')))"

text \<open>The methods of \<open>METHOD\<close>: each one builds the query for its own name.\<close>

definition run_method ::
  "monitor_env \<Rightarrow> string \<Rightarrow> string \<Rightarrow> int \<Rightarrow> int \<Rightarrow> string \<Rightarrow> string \<Rightarrow> string \<Rightarrow> series list res" where
  "run_method M algorithm query start stop step group_by group_algorithm =
     (if algorithm \<notin> fst ` set LEGACY_ALGORITHM_MAPPING then Inl BaseAppException
      else rbind (build_policy_query algorithm query step group_by group_algorithm) (\<lambda>q. mo_query M q start stop step))"

section \<open>Label filters\<close>

fun escape_label_value :: "string \<Rightarrow> string" where
  "escape_label_value [] = []"
| "escape_label_value (c # cs) =
     (if c = CHR 0x5C then [CHR 0x5C, CHR 0x5C] else if c = CHR 0x22 then [CHR 0x5C, CHR 0x22] else [c]) @ escape_label_value cs"

definition label_start :: "char \<Rightarrow> bool" where
  "label_start c \<longleftrightarrow> (let n = (of_char c :: nat) in 65 \<le> n \<and> n \<le> 90 \<or> 97 \<le> n \<and> n \<le> 122 \<or> n = 95)"

definition label_char :: "char \<Rightarrow> bool" where
  "label_char c \<longleftrightarrow> label_start c \<or> digit c \<noteq> None"

text \<open>The dollar of the pattern also matches before a line feed at the end.\<close>

definition label_name_ok :: "string \<Rightarrow> bool" where
  "label_name_ok s =
     (let t = (if s \<noteq> [] \<and> last s = CHR 0x0A then butlast s else s) in
      case t of [] \<Rightarrow> False | c # cs \<Rightarrow> label_start c \<and> list_all label_char cs)"

definition format_filter :: "label_filter \<Rightarrow> string res" where
  "format_filter f =
     (if \<not> label_name_ok (lf_name f) then Inl ValueError
      else if lf_method f \<notin> set [''='', ''!='', ''=~'', ''!~''] then Inl ValueError
      else Inr (lf_name f @ lf_method f @ CHR 0x22 # escape_label_value (case lf_value f of None \<Rightarrow> [] | Some v \<Rightarrow> v) @ [CHR 0x22]))"

fun format_filters :: "label_filter list \<Rightarrow> string list res" where
  "format_filters [] = Inr []"
| "format_filters (f # fs) = rbind (format_filter f) (\<lambda>x. rbind (format_filters fs) (\<lambda>xs. Inr (x # xs)))"

fun join_texts :: "string \<Rightarrow> string list \<Rightarrow> string" where
  "join_texts sep [] = []"
| "join_texts sep [x] = x"
| "join_texts sep (x # xs) = x @ sep @ join_texts sep xs"

definition format_to_vm_filter :: "label_filter list \<Rightarrow> string res" where
  "format_to_vm_filter fs = map_sum id (join_texts '','') (format_filters fs)"

text \<open>\<open>s.replace(old, new)\<close> for a text \<open>old\<close> that is not empty.\<close>

function py_replace :: "string \<Rightarrow> string \<Rightarrow> string \<Rightarrow> string" where
  "py_replace old new [] = []"
| "py_replace old new (c # cs) =
     (if old \<noteq> [] \<and> prefix old (c # cs) then new @ py_replace old new (drop (length old) (c # cs))
      else c # py_replace old new cs)"
  by pat_completeness auto

termination
  by (relation "measure (\<lambda>(_, _, s). length s)") (auto simp: less_Suc_eq_le neq_Nil_conv)

section \<open>The query service\<close>

text \<open>The keys of a metric instance and the metric, if the policy names one.\<close>

definition set_monitor_obj_instance_key :: "policy \<Rightarrow> monitor_db \<Rightarrow> (string list \<times> metric option) res" where
  "set_monitor_obj_instance_key p s =
     (case mp_query p of
        QC_pmq _ keys \<Rightarrow>
          Inr (if mp_collect_type p = ''trap'' then [''source'']
               else (case keys of Some ks \<Rightarrow> ks | None \<Rightarrow> [''instance_id'']), None)
      | QC_metric i _ \<Rightarrow>
          (case tfind mt_id i (md_metrics s) of
             None \<Rightarrow> Inl BaseAppException
           | Some m \<Rightarrow> Inr (mt_instance_id_keys m, Some m)))"

definition format_pmq :: "policy \<Rightarrow> metric option \<Rightarrow> string res" where
  "format_pmq p metric =
     (case mp_query p of
        QC_pmq q _ \<Rightarrow> Inr q
      | QC_metric _ fs \<Rightarrow>
          (case metric of
             None \<Rightarrow> Inl AttributeError
           | Some m \<Rightarrow> rbind (format_to_vm_filter fs) (\<lambda>x.
               let y = (if x \<noteq> [] \<and> last x = CHR '','' then butlast x else x) in
               Inr (py_replace ''__$labels__'' y (mt_query m)))))"

text \<open>The window ends at the time of the scan and covers as many periods as points are wanted.\<close>

definition query_aggregation_metrics ::
  "monitor_env \<Rightarrow> policy \<Rightarrow> metric option \<Rightarrow> int \<Rightarrow> period option \<Rightarrow> int \<Rightarrow> series list res" where
  "query_aggregation_metrics M p metric time period points =
     rbind (period_to_seconds period) (\<lambda>seconds.
     rbind (format_pmq p metric) (\<lambda>query.
     rbind (format_period period) (\<lambda>step.
       let stop = time div 1000000; n = max 1 points in
       run_method M (mp_algorithm p) query (stop - seconds * n) stop step (join_texts '','' (mp_group_by p)) (mp_group_algorithm p))))"

definition query_raw_metrics ::
  "monitor_env \<Rightarrow> policy \<Rightarrow> metric option \<Rightarrow> int \<Rightarrow> period option \<Rightarrow> series list res" where
  "query_raw_metrics M p metric time period =
     rbind (period_to_seconds period) (\<lambda>seconds.
     rbind (format_pmq p metric) (\<lambda>query.
     rbind (format_period period) (\<lambda>step.
       let stop = time div 1000000 in mo_query M query (stop - seconds) stop step)))"

fun read_floats :: "monitor_env \<Rightarrow> (int \<times> string) list \<Rightarrow> fval list res" where
  "read_floats M [] = Inr []"
| "read_floats M ((t, x) # vs) = rbind (mo_float M x) (\<lambda>f. rbind (read_floats M vs) (\<lambda>fs. Inr (f # fs)))"

text \<open>The loop that rewrites the values in place: when a value is no number it stops, and the series
  behind it keep their unit.\<close>

fun convert_series :: "monitor_env \<Rightarrow> string \<Rightarrow> string \<Rightarrow> series list \<Rightarrow> series list" where
  "convert_series M source target [] = []"
| "convert_series M source target (r # rs) =
     (case read_floats M (sr_values r) of
        Inl _ \<Rightarrow> r # rs
      | Inr fs \<Rightarrow>
          r\<lparr>sr_values := zip (map fst (sr_values r)) (map (mo_float_str M) (convert_values fs source target))\<rparr>
          # convert_series M source target rs)"

definition unit_conversion_enabled :: "policy \<Rightarrow> bool" where
  "unit_conversion_enabled p \<longleftrightarrow>
     mp_metric_unit p \<noteq> [] \<and> mp_calculation_unit p \<noteq> [] \<and> mp_metric_unit p \<noteq> mp_calculation_unit p"

definition convert_metric_values :: "monitor_env \<Rightarrow> policy \<Rightarrow> series list \<Rightarrow> series list" where
  "convert_metric_values M p rs =
     (if \<not> unit_conversion_enabled p then rs
      else if \<not> is_convertible (mp_metric_unit p) (mp_calculation_unit p) then rs
      else convert_series M (mp_metric_unit p) (mp_calculation_unit p) rs)"

definition policy_display_unit :: "policy \<Rightarrow> string" where
  "policy_display_unit p =
     (if unit_conversion_enabled p then get_display_unit (mp_calculation_unit p)
      else if mp_metric_unit p \<noteq> [] then get_display_unit (mp_metric_unit p)
      else [])"

definition get_enum_value_map :: "metric option \<Rightarrow> (int \<times> string) list" where
  "get_enum_value_map metric =
     (case metric of None \<Rightarrow> [] | Some m \<Rightarrow> if mt_data_type m = ''Enum'' then mt_enum m else [])"

text \<open>The tuple of labels by which the no-data detection and the baselines name a metric instance.\<close>

definition group_tuple :: "policy \<Rightarrow> series \<Rightarrow> label list" where
  "group_tuple p r = map (\<lambda>k. case map_of (sr_metric r) k of Some v \<Rightarrow> L_str v | None \<Rightarrow> L_none) (mp_group_by p)"

definition instance_of_tuple :: "monitor_env \<Rightarrow> label list \<Rightarrow> string" where
  "instance_of_tuple M t = (case t of [] \<Rightarrow> [] | x # _ \<Rightarrow> mo_str M [x])"

fun format_aggregation ::
  "monitor_env \<Rightarrow> policy \<Rightarrow> (string \<times> string) list \<Rightarrow> series list \<Rightarrow> (string \<times> fval \<times> series) list \<Rightarrow> (string \<times> fval \<times> series) list res" where
  "format_aggregation M p imap [] out = Inr out"
| "format_aggregation M p imap (r # rs) out =
     (let t = group_tuple p r in
      if imap \<noteq> [] \<and> instance_of_tuple M t \<notin> fst ` set imap then format_aggregation M p imap rs out
      else if sr_values r = [] then Inl IndexError
      else rbind (mo_float M (snd (last (sr_values r)))) (\<lambda>v.
        format_aggregation M p imap rs (tsave fst (mo_str M t, v, r) out)))"

definition format_aggregation_metrics ::
  "monitor_env \<Rightarrow> policy \<Rightarrow> (string \<times> string) list \<Rightarrow> series list \<Rightarrow> (string \<times> fval \<times> series) list res" where
  "format_aggregation_metrics M p imap rs = format_aggregation M p imap rs []"

section \<open>What a filter contains\<close>

text \<open>The escaping ends no text early: every quote and every backslash of a value follows a backslash
  of its own. A line feed is not escaped, although the query language allows none in a quoted text.\<close>

lemma escape_label_value_map:
  "escape_label_value v = concat (map (\<lambda>c. if c = CHR 0x5C \<or> c = CHR 0x22 then [CHR 0x5C, c] else [c]) v)"
  by (induction v) auto

lemma line_feed_in_value: "CHR 0x0A \<in> set v \<Longrightarrow> CHR 0x0A \<in> set (escape_label_value v)"
  by (auto simp: escape_label_value_map)

text \<open>A line feed after the name of a label passes the check: \<open>$\<close> also matches before it.\<close>

lemma line_feed_in_label:
  "label_name_ok (''host'' @ [CHR 0x0A]) \<and> \<not> label_char (CHR 0x0A) \<and> \<not> label_name_ok (''ho'' @ CHR 0x0A # ''st'')"
  by code_simp

end
