(* ===== verification/Monitor_Detect.thy ===== *)
theory Monitor_Detect
  imports Monitor_Query
begin

text \<open>
  The detection (\<open>monitor/utils/dimension.py\<close>, \<open>monitor/tasks/utils/policy_calculate.py\<close> and the first
  half of \<open>monitor/tasks/services/policy_scan/alert_detector.py\<close>): from the series of the metric store
  to events. A series whose last values all satisfy a threshold gives an event of the highest level
  that fits, any other series an info event; a known metric instance without data gives a no-data
  event.
\<close>

section \<open>Dimensions\<close>

fun label_text :: "label \<Rightarrow> string" where
  "label_text (L_str s) = s"
| "label_text L_none = ''None''"
| "label_text L_nan = ''nan''"

definition build_dimensions :: "label list \<Rightarrow> string list \<Rightarrow> (string \<times> label) list" where
  "build_dimensions t keys = fold (tsave fst) (zip keys t) []"

definition parse_dimensions :: "monitor_env \<Rightarrow> string \<Rightarrow> string list \<Rightarrow> (string \<times> label) list" where
  "parse_dimensions M s keys =
     (if keys = [] then [] else case mo_eval M s of Lit_tuple t \<Rightarrow> build_dimensions t keys | _ \<Rightarrow> [])"

definition tuple_instance :: "monitor_env \<Rightarrow> label list \<Rightarrow> string" where
  "tuple_instance M t = (case t of x # _ \<Rightarrow> mo_str M [x] | [] \<Rightarrow> mo_str M [])"

definition extract_monitor_instance_id :: "monitor_env \<Rightarrow> string \<Rightarrow> string" where
  "extract_monitor_instance_id M s =
     (case mo_eval M s of Lit_error \<Rightarrow> s | Lit_tuple t \<Rightarrow> tuple_instance M t | Lit_other x \<Rightarrow> x)"

text \<open>The dimensions behind the first key.\<close>

definition format_dimension_str :: "(string \<times> label) list \<Rightarrow> string list \<Rightarrow> string" where
  "format_dimension_str dims keys =
     (if dims = [] then []
      else let first = (if keys \<noteq> [] then hd keys else fst (hd dims)) in
        join_texts '', '' (map (\<lambda>(k, v). k @ '':'' @ label_text v) (filter (\<lambda>(k, _). k \<noteq> first) dims)))"

definition format_dimension_value :: "(string \<times> label) list \<Rightarrow> string list \<Rightarrow> (string \<times> string) list \<Rightarrow> string" where
  "format_dimension_value dims keys names =
     (if dims = [] then []
      else join_texts '','' (map (\<lambda>k.
        (case map_of names k of Some n \<Rightarrow> if n = [] then k else n | None \<Rightarrow> k) @ '':'' @
        (case map_of dims k of Some L_none \<Rightarrow> [] | Some v \<Rightarrow> label_text v | None \<Rightarrow> []))
        (filter (\<lambda>k. k \<in> fst ` set dims) keys)))"

definition metric_vars :: "(string \<times> label) list \<Rightarrow> (string \<times> string) list" where
  "metric_vars dims = map (\<lambda>(k, v). (''metric__'' @ k, label_text v)) dims"

definition sub_keys :: "policy \<Rightarrow> string list" where
  "sub_keys p = filter (\<lambda>k. k \<noteq> ''instance_id'') (mp_group_by p)"

definition metric_display_name :: "policy \<Rightarrow> metric option \<Rightarrow> string" where
  "metric_display_name p metric =
     (case metric of
        Some m \<Rightarrow> if mt_display_name m \<noteq> [] then mt_display_name m else mt_name m
      | None \<Rightarrow> (case mp_query p of QC_metric i _ \<Rightarrow> digits_of i | QC_pmq _ _ \<Rightarrow> []))"

definition dimension_name_map :: "metric option \<Rightarrow> (string \<times> string) list" where
  "dimension_name_map metric = (case metric of None \<Rightarrow> [] | Some m \<Rightarrow> filter (\<lambda>(n, _). n \<noteq> []) (mt_dimensions m))"

text \<open>\<open>instances_map.get(i, i)\<close>, and the resource with its dimensions.\<close>

definition resource_name :: "(string \<times> string) list \<Rightarrow> string \<Rightarrow> string" where
  "resource_name imap i = (case map_of imap i of Some n \<Rightarrow> n | None \<Rightarrow> i)"

definition display_name :: "string \<Rightarrow> string \<Rightarrow> string" where
  "display_name resource dims = (if dims = [] then resource else resource @ '' - '' @ dims)"

section \<open>The data frame\<close>

text \<open>A label that no series has is no column of the frame; a label that a series lacks is NaN. A frame
  with rows but none of the columns raises.\<close>

definition has_label :: "string \<Rightarrow> series \<Rightarrow> bool" where
  "has_label k r \<longleftrightarrow> k \<in> fst ` set (sr_metric r)"

definition cell :: "series \<Rightarrow> string \<Rightarrow> label" where
  "cell r k = (case map_of (sr_metric r) k of Some v \<Rightarrow> L_str v | None \<Rightarrow> L_nan)"

definition vm_to_dataframe :: "string list \<Rightarrow> series list \<Rightarrow> (label list \<times> series) list res" where
  "vm_to_dataframe keys rs =
     (let cols = filter (\<lambda>k. list_ex (has_label k) rs) (if keys = [] then [''instance_id''] else keys) in
      if keys = [] \<and> cols = [] then Inl KeyError
      else if cols = [] \<and> rs \<noteq> [] then Inl ValueError
      else Inr (map (\<lambda>r. (map (cell r) cols, r)) rs))"

section \<open>Thresholds\<close>

text \<open>\<open>values[-n:]\<close>.\<close>

definition last_values :: "int \<Rightarrow> 'a list \<Rightarrow> 'a list" where
  "last_values n vs = (if 0 < n then drop (length vs - nat n) vs else drop (nat (- n)) vs)"

fun all_satisfy :: "monitor_env \<Rightarrow> (fval \<Rightarrow> fval \<Rightarrow> bool) \<Rightarrow> fval \<Rightarrow> (int \<times> string) list \<Rightarrow> bool res" where
  "all_satisfy M f limit [] = Inr True"
| "all_satisfy M f limit ((t, x) # vs) =
     rbind (mo_float M x) (\<lambda>v. if f v limit then all_satisfy M f limit vs else Inr False)"

text \<open>The first threshold that all values satisfy.\<close>

fun first_threshold :: "monitor_env \<Rightarrow> threshold list \<Rightarrow> (int \<times> string) list \<Rightarrow> threshold option res" where
  "first_threshold M [] vs = Inr None"
| "first_threshold M (th # ths) vs =
     (case threshold_method (th_method th) of
        None \<Rightarrow> Inl BaseAppException
      | Some f \<Rightarrow> rbind (all_satisfy M f (th_value th) vs) (\<lambda>ok.
          if ok then Inr (Some th) else first_threshold M ths vs))"

definition sorted_thresholds :: "threshold list \<Rightarrow> threshold list" where
  "sorted_thresholds ths = sort_key (\<lambda>th. - level_weight (th_level th)) ths"

definition format_value_with_unit :: "monitor_env \<Rightarrow> fval \<Rightarrow> string \<Rightarrow> (int \<times> string) list \<Rightarrow> string res" where
  "format_value_with_unit M v unit enum =
     (if enum = [] then Inr (mo_two_digits M v @ unit)
      else rbind (mo_trunc M v) (\<lambda>i. Inr (case map_of enum i of Some n \<Rightarrow> n | None \<Rightarrow> mo_two_digits M v @ unit)))"

record detect_context =
  dc_object :: string
  dc_metric_name :: string
  dc_instances :: "(string \<times> string) list"
  dc_keys :: "string list"
  dc_names :: "(string \<times> string) list"
  dc_unit :: string
  dc_enum :: "(int \<times> string) list"

definition row_event ::
  "monitor_env \<Rightarrow> detect_context \<Rightarrow> label list \<Rightarrow> series \<Rightarrow> fval option \<Rightarrow> string \<Rightarrow> string \<Rightarrow> found_event" where
  "row_event M C t raw v level body =
     \<lparr>fe_metric_instance = mo_str M t, fe_instance = tuple_instance M t, fe_dimensions = build_dimensions t (dc_keys C),
      fe_value = v, fe_level = level, fe_content = body, fe_raw = Some raw\<rparr>"

definition alert_content ::
  "monitor_env \<Rightarrow> detect_context \<Rightarrow> string \<Rightarrow> label list \<Rightarrow> series \<Rightarrow> string \<Rightarrow> string \<Rightarrow> string" where
  "alert_content M C template t raw level shown =
     (let dims = build_dimensions t (dc_keys C); resource = resource_name (dc_instances C) (tuple_instance M t) in
      mo_substitute M template (Some raw)
        ([(''monitor_object'', dc_object C),
          (''instance_name'', display_name resource (format_dimension_str dims (dc_keys C))),
          (''resource_name'', resource), (''metric_name'', dc_metric_name C), (''level'', level), (''value'', shown),
          (''dimension_value'', format_dimension_value dims (filter (\<lambda>k. k \<noteq> ''instance_id'') (dc_keys C)) (dc_names C))] @
         metric_vars dims))"

text \<open>One row: \<open>None\<close> when it has too few values, else an alert event or an info event. The value of an
  info event is not read by anything and is left out.\<close>

definition row_result ::
  "monitor_env \<Rightarrow> detect_context \<Rightarrow> string \<Rightarrow> threshold list \<Rightarrow> int \<Rightarrow> label list \<times> series \<Rightarrow> (found_event + found_event) option res" where
  "row_result M C template ths n row =
     (case row of (t, r) \<Rightarrow>
        let vs = last_values n (sr_values r); raw = r\<lparr>sr_values := vs\<rparr> in
        if int (length vs) < n then Inr None
        else rbind (first_threshold M (sorted_thresholds ths) vs) (\<lambda>hit.
          if vs = [] then Inl IndexError
          else case hit of
            Some th \<Rightarrow>
              rbind (mo_float M (snd (last vs))) (\<lambda>v.
              rbind (format_value_with_unit M v (dc_unit C) (dc_enum C)) (\<lambda>shown.
                Inr (Some (Inl (row_event M C t raw (Some v) (th_level th)
                  (alert_content M C template t raw (th_level th) shown))))))
          | None \<Rightarrow> Inr (Some (Inr (row_event M C t raw None ''info'' ''info'')))))"

fun calculate_alerts ::
  "monitor_env \<Rightarrow> detect_context \<Rightarrow> string \<Rightarrow> threshold list \<Rightarrow> int \<Rightarrow> (label list \<times> series) list
   \<Rightarrow> (found_event list \<times> found_event list) res" where
  "calculate_alerts M C template ths n [] = Inr ([], [])"
| "calculate_alerts M C template ths n (row # rows) =
     rbind (row_result M C template ths n row) (\<lambda>r.
     rbind (calculate_alerts M C template ths n rows) (\<lambda>(alerts, infos).
       Inr (case r of
              None \<Rightarrow> (alerts, infos)
            | Some (Inl e) \<Rightarrow> (e # alerts, infos)
            | Some (Inr e) \<Rightarrow> (alerts, e # infos))))"

definition in_scope :: "monitor_env \<Rightarrow> (string \<times> string) list \<Rightarrow> found_event \<Rightarrow> bool" where
  "in_scope M imap e \<longleftrightarrow> extract_monitor_instance_id M (fe_metric_instance e) \<in> fst ` set imap"

definition trigger_count :: "policy \<Rightarrow> int" where
  "trigger_count p = (if mp_trigger_count p = 0 then 1 else mp_trigger_count p)"

definition threshold_context :: "policy \<Rightarrow> metric option \<Rightarrow> (string \<times> string) list \<Rightarrow> detect_context" where
  "threshold_context p metric imap =
     \<lparr>dc_object = mp_object_name p, dc_metric_name = metric_display_name p metric, dc_instances = imap,
      dc_keys = mp_group_by p, dc_names = dimension_name_map metric, dc_unit = policy_display_unit p,
      dc_enum = get_enum_value_map metric\<rparr>"

definition detect_threshold_alerts ::
  "monitor_env \<Rightarrow> policy \<Rightarrow> metric option \<Rightarrow> (string \<times> string) list \<Rightarrow> int \<Rightarrow> (found_event list \<times> found_event list) res" where
  "detect_threshold_alerts M p metric imap time =
     (let n = trigger_count p in
      rbind (query_aggregation_metrics M p metric time (mp_period p) n) (\<lambda>rs.
      rbind (vm_to_dataframe (mp_group_by p) (convert_metric_values M p rs)) (\<lambda>rows.
      rbind (calculate_alerts M (threshold_context p metric imap) (mp_alert_name p) (mp_threshold p) n rows) (\<lambda>(alerts, infos).
        Inr (if mp_source p \<noteq> NoSource then (filter (in_scope M imap) alerts, filter (in_scope M imap) infos)
             else (alerts, infos))))))"

section \<open>Missing data\<close>

text \<open>The metric instances that should have data: the baselines, or the instances when there are none.
  The order of a set is not defined; the model takes the order of the table.\<close>

definition baseline_keys :: "(string \<times> string) list \<Rightarrow> (string \<times> string) list \<Rightarrow> string list" where
  "baseline_keys bmap imap = (if bmap = [] then dedup_on id (map fst imap) else dedup_on id (map fst bmap))"

definition no_data_event ::
  "monitor_env \<Rightarrow> policy \<Rightarrow> metric option \<Rightarrow> (string \<times> string) list \<Rightarrow> (string \<times> string) list \<Rightarrow> string \<Rightarrow> found_event" where
  "no_data_event M p metric bmap imap key =
     (let inst = (case map_of bmap key of
                    Some i \<Rightarrow> if i = [] then extract_monitor_instance_id M key else i
                  | None \<Rightarrow> extract_monitor_instance_id M key);
          resource = resource_name imap inst; dims = parse_dimensions M key (mp_group_by p)
      in \<lparr>fe_metric_instance = key, fe_instance = inst, fe_dimensions = dims, fe_value = None, fe_level = ''no_data'',
          fe_content = mo_substitute M (if mp_no_data_alert_name p = [] then ''no data'' else mp_no_data_alert_name p) None
            ([(''metric_instance_id'', key), (''monitor_instance_id'', inst),
              (''instance_name'', display_name resource (format_dimension_str dims [])), (''resource_name'', resource),
              (''monitor_object'', mp_object_name p), (''metric_name'', metric_display_name p metric),
              (''level'', if mp_no_data_level p = [] then ''warning'' else mp_no_data_level p), (''value'', []),
              (''dimension_value'', format_dimension_value dims (sub_keys p) (dimension_name_map metric))] @
             metric_vars dims),
          fe_raw = None\<rparr>)"

definition build_no_data_events ::
  "monitor_env \<Rightarrow> policy \<Rightarrow> metric option \<Rightarrow> (string \<times> string) list \<Rightarrow> (string \<times> string) list
   \<Rightarrow> (string \<times> fval \<times> series) list \<Rightarrow> found_event list" where
  "build_no_data_events M p metric bmap imap data =
     map (no_data_event M p metric bmap imap) (filter (\<lambda>k. k \<notin> fst ` set data) (baseline_keys bmap imap))"

definition detect_no_data_alerts ::
  "monitor_env \<Rightarrow> policy \<Rightarrow> metric option \<Rightarrow> (string \<times> string) list \<Rightarrow> (string \<times> string) list \<Rightarrow> int \<Rightarrow> found_event list res" where
  "detect_no_data_alerts M p metric bmap imap time =
     (if mp_no_data_period p = None \<or> mp_source p = NoSource then Inr []
      else
        rbind (query_aggregation_metrics M p metric time (mp_no_data_period p) 1) (\<lambda>rs.
        rbind (format_aggregation_metrics M p imap rs) (\<lambda>data.
          Inr (build_no_data_events M p metric bmap imap data))))"

end
