(* ===== verification/Monitor_Notify.thy ===== *)
theory Monitor_Notify
  imports Monitor_Data
begin

text \<open>
  What other people learn about a monitor alert (\<open>monitor/services/alert_lifecycle_notify.py\<close>):
  messages to the channels of the alert, documents for the alert centre, the notice log of the alert
  and the flag by which a failed delivery to the alert centre is repeated.

  The alerts are the objects the caller holds; their notice logs are written back from there. Texts
  of errors and names of channels in the logs are left out, and a message to people is given by its
  action, the content of the alert and the receivers. Failures of the database are not modelled, so
  only sending can fail.
\<close>

section \<open>Tables\<close>

abbreviation ma_find :: "nat \<Rightarrow> monitor_db \<Rightarrow> monitor_alert option" where
  "ma_find i s \<equiv> tfind ma_id i (md_alerts s)"

definition update_alerts :: "nat set \<Rightarrow> (monitor_alert \<Rightarrow> monitor_alert) \<Rightarrow> monitor_db \<Rightarrow> monitor_db" where
  "update_alerts ids f s = s\<lparr>md_alerts := tupdate (\<lambda>a. ma_id a \<in> ids) f (md_alerts s)\<rparr>"

definition find_channel :: "int \<Rightarrow> monitor_db \<Rightarrow> channel option" where
  "find_channel i s = tfind ch_id i (md_channels s)"

text \<open>Sending a message: what is sent is recorded, the answer is the channel's.\<close>

definition send_msg :: "monitor_env \<Rightarrow> int \<Rightarrow> message \<Rightarrow> monitor_db \<Rightarrow> json res \<times> monitor_db" where
  "send_msg M c m s = (mo_send M (length (md_sent s)) c m, s\<lparr>md_sent := md_sent s @ [(c, m)]\<rparr>)"

section \<open>Documents and answers\<close>

definition alert_center_action :: "notice_action \<Rightarrow> string" where
  "alert_center_action a =
     (case a of N_CREATED \<Rightarrow> ''created'' | N_UPGRADED \<Rightarrow> ''created'' | N_RECOVERED \<Rightarrow> ''recovery'' | N_CLOSED \<Rightarrow> ''closed'')"

definition alert_center_level :: "string \<Rightarrow> string" where
  "alert_center_level l =
     (case map_of [(''critical'', ''0''), (''error'', ''1''), (''warning'', ''2''), (''info'', ''3''), (''no_data'', ''2'')] l of
        Some n \<Rightarrow> n | None \<Rightarrow> ''3'')"

definition status_text :: "ma_status \<Rightarrow> string" where
  "status_text st = (case st of M_NEW \<Rightarrow> ''new'' | M_CLOSED \<Rightarrow> ''closed'' | M_RECOVERED \<Rightarrow> ''recovered'')"

definition resolve_alert_organizations :: "policy option \<Rightarrow> monitor_alert \<Rightarrow> monitor_db \<Rightarrow> int list" where
  "resolve_alert_organizations p a s =
     (let orgs = (if ma_instance a = [] then []
                  else map snd (filter (\<lambda>(i, _). i = ma_instance a) (md_instance_orgs s))) in
      if orgs \<noteq> [] then orgs else case p of None \<Rightarrow> [] | Some q \<Rightarrow> mp_organizations q)"

definition seconds_text :: "int option \<Rightarrow> json" where
  "seconds_text t = (case t of None \<Rightarrow> JNull | Some x \<Rightarrow> JStr (str_int (x div 1000000)))"

fun label_json :: "label \<Rightarrow> json" where
  "label_json (L_str s) = JStr s"
| "label_json l = JNull"

definition build_alert_center_payload ::
  "monitor_env \<Rightarrow> policy option \<Rightarrow> monitor_alert \<Rightarrow> notice_action \<Rightarrow> string \<Rightarrow> string \<Rightarrow> monitor_db \<Rightarrow> json" where
  "build_alert_center_payload M p a act operator reason s =
     JObj [(''external_id'', JStr (digits_of (ma_id a))), (''rule_id'', JStr (digits_of (ma_policy a))),
       (''title'', JStr (ma_content a)), (''description'', JStr (ma_content a)),
       (''level'', JStr (alert_center_level (ma_level a))),
       (''value'', case ma_value a of None \<Rightarrow> JNull | Some v \<Rightarrow> mo_json M v),
       (''action'', JStr (alert_center_action act)),
       (''start_time'', seconds_text (ma_start a)), (''end_time'', seconds_text (ma_end a)),
       (''resource_id'', JStr (ma_instance a)), (''resource_name'', JStr (ma_instance_name a)),
       (''organizations'', JList (map JInt (resolve_alert_organizations p a s))),
       (''tags'', JObj (map (\<lambda>(k, v). (k, label_json v)) (ma_dimensions a))),
       (''labels'', JObj [(''policy_name'', JStr (case p of None \<Rightarrow> [] | Some q \<Rightarrow> mp_name q)),
          (''metric_instance_id'', JStr (ma_metric_instance a)), (''operator'', JStr operator), (''reason'', JStr reason),
          (''status'', JStr (status_text (ma_status a)))])]"

text \<open>Whether the answer of a channel is a success; \<open>False == 0\<close>.\<close>

definition zero_or_none :: "json \<Rightarrow> bool" where
  "zero_or_none v \<longleftrightarrow> v = JNull \<or> v = JInt 0 \<or> v = JBool False"

definition parse_channel_result :: "json \<Rightarrow> bool" where
  "parse_channel_result r =
     (case r of
        JObj kvs \<Rightarrow>
          let get = (\<lambda>k. case map_of kvs k of None \<Rightarrow> JNull | Some v \<Rightarrow> v) in
          get ''result'' \<noteq> JBool False \<and> zero_or_none (get ''errcode'') \<and> zero_or_none (get ''code'')
      | _ \<Rightarrow> False)"

definition answer_success :: "json res \<Rightarrow> bool" where
  "answer_success r = (case r of Inl _ \<Rightarrow> False | Inr j \<Rightarrow> parse_channel_result j)"

definition action_label :: "notice_action \<Rightarrow> string" where
  "action_label a =
     (case a of N_CREATED \<Rightarrow> ''created'' | N_UPGRADED \<Rightarrow> ''upgraded'' | N_RECOVERED \<Rightarrow> ''recovered'' | N_CLOSED \<Rightarrow> ''closed'')"

section \<open>Channels of an alert\<close>

datatype notify_scope = Scope_none | Scope_alert_center_only | Scope_all_configured

definition is_alert_center_channel :: "channel option \<Rightarrow> bool" where
  "is_alert_center_channel c =
     (case c of None \<Rightarrow> False | Some ch \<Rightarrow> ch_type ch = ''nats'' \<and> ch_method_name ch = ''receive_alert_events'')"

definition resolve_notice_type_ids :: "policy option \<Rightarrow> monitor_alert \<Rightarrow> int list" where
  "resolve_notice_type_ids p a =
     (if ma_notice_type_ids a \<noteq> [] then ma_notice_type_ids a
      else case p of None \<Rightarrow> [] | Some q \<Rightarrow> if mp_notice q then mp_notice_type_ids q else [])"

definition resolve_notice_users :: "policy option \<Rightarrow> monitor_alert \<Rightarrow> string list" where
  "resolve_notice_users p a =
     (if ma_notice_users a \<noteq> [] then ma_notice_users a else case p of None \<Rightarrow> [] | Some q \<Rightarrow> mp_notice_users q)"

definition has_successful_created_notice :: "monitor_alert \<Rightarrow> int \<Rightarrow> bool" where
  "has_successful_created_notice a c =
     list_ex (\<lambda>l. nl_action l = N_CREATED \<and> nl_channel l = c \<and> nl_success l) (ma_notice_logs a)"

definition should_notify_channel ::
  "policy option \<Rightarrow> monitor_alert \<Rightarrow> channel option \<Rightarrow> int \<Rightarrow> notice_action \<Rightarrow> notify_scope \<Rightarrow> bool" where
  "should_notify_channel p a ch c act scope =
     (if scope = Scope_alert_center_only \<and> \<not> is_alert_center_channel ch then False
      else if (case p of None \<Rightarrow> True | Some q \<Rightarrow> mp_notice q) then True
      else if act = N_CREATED then False
      else if ch = None \<or> \<not> has_successful_created_notice a c then False
      else if act = N_UPGRADED then is_alert_center_channel ch
      else True)"

text \<open>The alerts of each channel and group of users, in the order in which the groups arise.\<close>

type_synonym notice_group = "(int \<times> string list) \<times> monitor_alert list"

fun add_to_group :: "int \<times> string list \<Rightarrow> monitor_alert \<Rightarrow> notice_group list \<Rightarrow> notice_group list" where
  "add_to_group k a [] = [(k, [a])]"
| "add_to_group k a ((k', as) # gs) = (if k = k' then (k', as @ [a]) # gs else (k', as) # add_to_group k a gs)"

definition notice_groups ::
  "policy option \<Rightarrow> notice_action \<Rightarrow> notify_scope \<Rightarrow> monitor_alert list \<Rightarrow> monitor_db \<Rightarrow> notice_group list" where
  "notice_groups p act scope as s =
     fold (\<lambda>a gs. fold (\<lambda>c gs.
         if should_notify_channel p a (find_channel c s) c act scope then add_to_group (c, resolve_notice_users p a) a gs else gs)
       (resolve_notice_type_ids p a) gs) as []"

section \<open>Sending\<close>

definition push_to_alert_center ::
  "monitor_env \<Rightarrow> policy option \<Rightarrow> int \<Rightarrow> int \<Rightarrow> monitor_alert list \<Rightarrow> notice_action \<Rightarrow> string \<Rightarrow> string \<Rightarrow> monitor_db
   \<Rightarrow> (monitor_alert \<times> notice_log) list \<times> monitor_db" where
  "push_to_alert_center M p now c as act operator reason s =
     (case send_msg M c (Msg_alert_center (map (\<lambda>a. build_alert_center_payload M p a act operator reason s) as)) s of
        (r, t) \<Rightarrow> (map (\<lambda>a. (a, \<lparr>nl_time = now, nl_action = act, nl_channel = c, nl_alert_center = True,
                     nl_success = answer_success r\<rparr>)) as, t))"

fun send_normal_notice ::
  "monitor_env \<Rightarrow> int \<Rightarrow> int \<Rightarrow> string list \<Rightarrow> monitor_alert list \<Rightarrow> notice_action \<Rightarrow> monitor_db
   \<Rightarrow> (monitor_alert \<times> notice_log) list \<times> monitor_db" where
  "send_normal_notice M now c users [] act s = ([], s)"
| "send_normal_notice M now c users (a # as) act s =
     (case send_msg M c (Msg_notice (action_label act) (ma_content a) users) s of
        (r, t) \<Rightarrow>
          (case send_normal_notice M now c users as act t of
             (rs, u) \<Rightarrow> ((a, \<lparr>nl_time = now, nl_action = act, nl_channel = c, nl_alert_center = False,
                        nl_success = answer_success r\<rparr>) # rs, u)))"

definition send_to_channel ::
  "monitor_env \<Rightarrow> policy option \<Rightarrow> int \<Rightarrow> int \<Rightarrow> string list \<Rightarrow> monitor_alert list \<Rightarrow> notice_action \<Rightarrow> string \<Rightarrow> string
   \<Rightarrow> notify_scope \<Rightarrow> monitor_db \<Rightarrow> (monitor_alert \<times> notice_log) list \<times> monitor_db" where
  "send_to_channel M p now c users as act operator reason scope s =
     (let ch = find_channel c s in
      if ch = None then
        (map (\<lambda>a. (a, \<lparr>nl_time = now, nl_action = act, nl_channel = c, nl_alert_center = False, nl_success = False\<rparr>)) as, s)
      else if scope = Scope_alert_center_only \<and> \<not> is_alert_center_channel ch then ([], s)
      else if is_alert_center_channel ch then push_to_alert_center M p now c as act operator reason s
      else send_normal_notice M now c users as act s)"

fun send_groups ::
  "monitor_env \<Rightarrow> policy option \<Rightarrow> int \<Rightarrow> notice_group list \<Rightarrow> notice_action \<Rightarrow> string \<Rightarrow> string \<Rightarrow> notify_scope \<Rightarrow> monitor_db
   \<Rightarrow> (monitor_alert \<times> notice_log) list \<times> monitor_db" where
  "send_groups M p now [] act operator reason scope s = ([], s)"
| "send_groups M p now (((c, users), as) # gs) act operator reason scope s =
     (case send_to_channel M p now c users as act operator reason scope s of
        (rs, t) \<Rightarrow>
          (case send_groups M p now gs act operator reason scope t of
             (rs', u) \<Rightarrow> (rs @ rs', u)))"

section \<open>Logs and flags\<close>

definition entries_of :: "nat \<Rightarrow> (monitor_alert \<times> notice_log) list \<Rightarrow> notice_log list" where
  "entries_of i rs = map snd (filter (\<lambda>(a, _). ma_id a = i) rs)"

text \<open>The logs of the objects with their new entries are written back.\<close>

definition persist_notice_logs ::
  "monitor_alert list \<Rightarrow> (monitor_alert \<times> notice_log) list \<Rightarrow> monitor_db \<Rightarrow> monitor_db" where
  "persist_notice_logs as rs s =
     fold (\<lambda>a s. if entries_of (ma_id a) rs = [] then s
                 else update_alerts {ma_id a} (\<lambda>x. x\<lparr>ma_notice_logs := ma_notice_logs a @ entries_of (ma_id a) rs\<rparr>) s) as s"

definition mark_alert_center_notified :: "nat set \<Rightarrow> monitor_db \<Rightarrow> monitor_db" where
  "mark_alert_center_notified ids s = update_alerts ids (\<lambda>a. a\<lparr>ma_notified := True, ma_retry_count := 0\<rparr>) s"

definition reset_alert_center_flags :: "nat set \<Rightarrow> monitor_db \<Rightarrow> monitor_db" where
  "reset_alert_center_flags ids s = update_alerts ids (\<lambda>a. a\<lparr>ma_notified := True\<rparr>) s"

definition notify_alerts ::
  "monitor_env \<Rightarrow> policy option \<Rightarrow> int \<Rightarrow> monitor_alert list \<Rightarrow> notice_action \<Rightarrow> string \<Rightarrow> string \<Rightarrow> notify_scope
   \<Rightarrow> monitor_db \<Rightarrow> monitor_db" where
  "notify_alerts M p now as act operator reason scope s =
     (if as = [] then s
      else if scope = Scope_none then reset_alert_center_flags (ma_id ` set as) s
      else
        case send_groups M p now (notice_groups p act scope as s) act operator reason scope s of
          (rs, t) \<Rightarrow>
            let centre = filter (nl_alert_center \<circ> snd) rs;
                targeted = (ma_id \<circ> fst) ` set centre;
                succeeded = (ma_id \<circ> fst) ` set (filter (nl_success \<circ> snd) centre);
                u = mark_alert_center_notified succeeded (persist_notice_logs as rs t)
            in reset_alert_center_flags (ma_id ` set as - targeted) u)"

section \<open>Repeated deliveries\<close>

definition push_to_alert_center_only ::
  "monitor_env \<Rightarrow> int \<Rightarrow> monitor_alert list \<Rightarrow> notice_action \<Rightarrow> monitor_db \<Rightarrow> (monitor_alert \<times> bool) list \<times> monitor_db" where
  "push_to_alert_center_only M now as act s =
     (case find (\<lambda>c. is_alert_center_channel (Some c)) (md_channels s) of
        None \<Rightarrow> (map (\<lambda>a. (a, False)) as, s)
      | Some ch \<Rightarrow>
          (case push_to_alert_center M None now (ch_id ch) as act [] [] s of
             (rs, t) \<Rightarrow> (map (\<lambda>(a, l). (a, nl_success l)) rs, persist_notice_logs as rs t)))"

definition needs_retry :: "monitor_alert \<Rightarrow> bool" where
  "needs_retry a \<longleftrightarrow> ma_status a \<in> {M_RECOVERED, M_CLOSED} \<and> \<not> ma_notified a \<and> ma_retry_count a < 10"

definition status_action :: "ma_status \<Rightarrow> notice_action" where
  "status_action st = (if st = M_RECOVERED then N_RECOVERED else N_CLOSED)"

fun retry_groups ::
  "monitor_env \<Rightarrow> int \<Rightarrow> monitor_alert list \<Rightarrow> ma_status list \<Rightarrow> monitor_db \<Rightarrow> (monitor_alert \<times> bool) list \<times> monitor_db" where
  "retry_groups M now as [] s = ([], s)"
| "retry_groups M now as (st # sts) s =
     (case push_to_alert_center_only M now (filter (\<lambda>a. ma_status a = st) as) (status_action st) s of
        (rs, t) \<Rightarrow> (case retry_groups M now as sts t of (rs', u) \<Rightarrow> (rs @ rs', u)))"

text \<open>The task that repeats failed deliveries: the first two hundred alerts, grouped by status.\<close>

definition retry_lifecycle_notify :: "monitor_env \<Rightarrow> int \<Rightarrow> monitor_db \<Rightarrow> (nat \<times> nat) \<times> monitor_db" where
  "retry_lifecycle_notify M now s =
     (let as = take 200 (sort_key ma_id (filter needs_retry (md_alerts s))) in
      case retry_groups M now as (dedup_on id (map ma_status as)) s of
        (rs, t) \<Rightarrow>
          let ok = (ma_id \<circ> fst) ` set (filter snd rs); bad = (ma_id \<circ> fst) ` set (filter (\<lambda>r. \<not> snd r) rs);
              u = mark_alert_center_notified ok t
          in ((card ok, card bad), update_alerts bad (\<lambda>a. a\<lparr>ma_retry_count := ma_retry_count a + 1\<rparr>) u))"

end
