(* ===== verification/Monitor_Alerts.thy ===== *)
theory Monitor_Alerts
  imports Monitor_Detect Monitor_Notify
begin

text \<open>
  What a scan does to the alerts of a policy (the rest of
  \<open>monitor/tasks/services/policy_scan/alert_detector.py\<close>, \<open>event_alert_manager.py\<close>) and to its
  baselines (\<open>monitor/services/policy_baseline.py\<close>): counting quiet periods, recovery, new alerts with
  their events, higher levels.

  \<open>active\<close> is the list of active alerts of the policy that the scan reads once at its start, \<open>time\<close> the
  time of the scan (\<open>policy.last_run_time\<close>), \<open>clock\<close> the present time.
\<close>

section \<open>Counting and recovery\<close>

definition alert_metric_instance :: "monitor_env \<Rightarrow> monitor_alert \<Rightarrow> string" where
  "alert_metric_instance M a = (if ma_metric_instance a \<noteq> [] then ma_metric_instance a else mo_str M [L_str (ma_instance a)])"

text \<open>The alerts of the map that the events of a list belong to; a later alert replaces an earlier one.\<close>

definition counted_alerts :: "monitor_env \<Rightarrow> monitor_alert list \<Rightarrow> found_event list \<Rightarrow> nat set" where
  "counted_alerts M active es =
     (let amap = map_of (rev (map (\<lambda>a. (alert_metric_instance M a, ma_id a)) (filter (\<lambda>a. ma_kind a = MK_ALERT) active))) in
      set (concat (map (\<lambda>e. case amap (fe_metric_instance e) of None \<Rightarrow> [] | Some i \<Rightarrow> [i]) es)))"

definition count_events ::
  "monitor_env \<Rightarrow> monitor_alert list \<Rightarrow> found_event list \<Rightarrow> found_event list \<Rightarrow> monitor_db \<Rightarrow> monitor_db" where
  "count_events M active alerts infos s =
     update_alerts (counted_alerts M active alerts) (\<lambda>a. a\<lparr>ma_info_count := 0\<rparr>)
       (update_alerts (counted_alerts M active infos) (\<lambda>a. a\<lparr>ma_info_count := ma_info_count a + 1\<rparr>) s)"

definition recovered :: "int \<Rightarrow> monitor_alert \<Rightarrow> monitor_alert" where
  "recovered time a =
     a\<lparr>ma_status := M_RECOVERED, ma_end := Some time, ma_operator := ''system'',
       ma_operation_logs := ma_operation_logs a @
         [\<lparr>ol_action = N_RECOVERED, ol_reason = ''auto_recovered'', ol_operator = ''system'', ol_time = Some time\<rparr>],
       ma_notified := False\<rparr>"

text \<open>\<open>bulk_update\<close> of the objects \<open>as\<close> writes the fields of \<open>f\<close> into their rows. The objects of the
  threshold recovery are read for it; those of the no-data recovery were read at the start.\<close>

definition write_recovered :: "int \<Rightarrow> monitor_alert list \<Rightarrow> monitor_db \<Rightarrow> monitor_db" where
  "write_recovered time as s =
     fold (\<lambda>a s. update_alerts {ma_id a} (\<lambda>x. x\<lparr>ma_status := M_RECOVERED, ma_end := Some time, ma_operator := ''system'',
         ma_operation_logs := ma_operation_logs (recovered time a), ma_notified := False\<rparr>) s) as s"

definition recover_alerts ::
  "monitor_env \<Rightarrow> policy \<Rightarrow> int \<Rightarrow> int \<Rightarrow> monitor_alert list \<Rightarrow> monitor_db \<Rightarrow> monitor_db" where
  "recover_alerts M p clock time as s =
     (if as = [] then s
      else notify_alerts M (Some p) clock (map (recovered time) as) N_RECOVERED ''system'' ''auto_recovered'' Scope_all_configured
        (write_recovered time as s))"

definition recover_threshold_alerts ::
  "monitor_env \<Rightarrow> policy \<Rightarrow> int \<Rightarrow> int \<Rightarrow> monitor_alert list \<Rightarrow> monitor_db \<Rightarrow> monitor_db" where
  "recover_threshold_alerts M p clock time active s =
     (if mp_recovery_condition p \<le> 0 then s
      else recover_alerts M p clock time
        (filter (\<lambda>a. ma_id a \<in> ma_id ` set (filter (\<lambda>a. ma_kind a = MK_ALERT) active) \<and>
           ma_info_count a \<ge> mp_recovery_condition p) (md_alerts s)) s)"

definition recover_no_data_alerts ::
  "monitor_env \<Rightarrow> policy \<Rightarrow> metric option \<Rightarrow> (string \<times> string) list \<Rightarrow> int \<Rightarrow> int \<Rightarrow> monitor_alert list \<Rightarrow> monitor_db
   \<Rightarrow> unit res \<times> monitor_db" where
  "recover_no_data_alerts M p metric imap clock time active s =
     (if mp_no_data_recovery_period p = None then (Inr (), s)
      else case rbind (query_aggregation_metrics M p metric time (mp_no_data_recovery_period p) 1)
                  (format_aggregation_metrics M p imap) of
        Inl e \<Rightarrow> (Inl e, s)
      | Inr data \<Rightarrow>
          (Inr (), recover_alerts M p clock time
             (filter (\<lambda>a. ma_kind a = MK_NO_DATA \<and> alert_metric_instance M a \<in> fst ` set data) active) s))"

section \<open>Events and alerts\<close>

definition event_kind :: "found_event \<Rightarrow> ma_kind" where
  "event_kind e = (if fe_level e = ''no_data'' then MK_NO_DATA else MK_ALERT)"

text \<open>The alert of the dict for an event; a later alert with the same key replaces an earlier one.\<close>

definition alert_of_event :: "monitor_env \<Rightarrow> monitor_alert list \<Rightarrow> found_event \<Rightarrow> monitor_alert option" where
  "alert_of_event M active e =
     find (\<lambda>a. alert_metric_instance M a = fe_metric_instance e \<and> ma_kind a = event_kind e) (rev active)"

definition new_monitor_alert :: "policy \<Rightarrow> (string \<times> string) list \<Rightarrow> int \<Rightarrow> nat \<Rightarrow> found_event \<Rightarrow> monitor_alert" where
  "new_monitor_alert p imap time i e =
     \<lparr>ma_id = i, ma_policy = mp_id p, ma_instance = fe_instance e, ma_instance_name = resource_name imap (fe_instance e),
      ma_metric_instance = fe_metric_instance e, ma_dimensions = fe_dimensions e, ma_kind = event_kind e,
      ma_level = (if event_kind e = MK_NO_DATA then mp_no_data_level p else fe_level e),
      ma_value = (if event_kind e = MK_NO_DATA then None else fe_value e), ma_content = fe_content e, ma_status = M_NEW,
      ma_start = Some time, ma_end = None, ma_operator = [], ma_info_count = 0, ma_operation_logs = [],
      ma_notice_type_ids = mp_notice_type_ids p, ma_notice_users = mp_notice_users p, ma_notice_logs = [],
      ma_notified = True, ma_retry_count = 0\<rparr>"

fun create_alerts ::
  "policy \<Rightarrow> (string \<times> string) list \<Rightarrow> int \<Rightarrow> found_event list \<Rightarrow> monitor_db \<Rightarrow> monitor_alert list \<times> monitor_db" where
  "create_alerts p imap time [] s = ([], s)"
| "create_alerts p imap time (e # es) s =
     (let a = new_monitor_alert p imap time (next_key ma_id (md_alerts s)) e in
      case create_alerts p imap time es (s\<lparr>md_alerts := md_alerts s @ [a]\<rparr>) of (as, t) \<Rightarrow> (a # as, t))"

text \<open>The stored event and its raw data; \<open>uid\<close> are the UUIDs drawn.\<close>

definition stored_event :: "policy \<Rightarrow> int \<Rightarrow> string \<Rightarrow> found_event \<times> nat \<Rightarrow> monitor_event" where
  "stored_event p time uid ea =
     (case ea of (e, i) \<Rightarrow>
        \<lparr>me_id = uid, me_alert = i, me_policy = mp_id p, me_instance = fe_instance e, me_metric_instance = fe_metric_instance e,
         me_dimensions = fe_dimensions e, me_value = fe_value e, me_level = fe_level e, me_content = fe_content e,
         me_time = Some time\<rparr>)"

definition create_monitor_events ::
  "policy \<Rightarrow> int \<Rightarrow> (nat \<Rightarrow> string) \<Rightarrow> (found_event \<times> nat) list \<Rightarrow> monitor_db \<Rightarrow> monitor_event list \<times> monitor_db" where
  "create_monitor_events p time uid es s =
     (let rows = map (\<lambda>(i, ea). (stored_event p time (uid i) ea, fe_raw (fst ea))) (enumerate 0 es);
          raw = concat (map (\<lambda>(r, x). case x of None \<Rightarrow> [] | Some d \<Rightarrow> [(me_id r, d)]) rows)
      in (map fst rows, s\<lparr>md_events := md_events s @ map fst rows, md_raw := md_raw s @ raw\<rparr>))"

text \<open>Higher levels of alerts that exist. The objects change as the loop goes on; the list of them holds an
  object once for each change, in its last state.\<close>

definition upgraded_by :: "found_event \<Rightarrow> monitor_alert \<Rightarrow> bool" where
  "upgraded_by e a \<longleftrightarrow> fe_level e \<noteq> ''no_data'' \<and> level_weight (ma_level a) < level_weight (fe_level e)"

definition upgrade :: "found_event \<Rightarrow> monitor_alert \<Rightarrow> monitor_alert" where
  "upgrade e a = a\<lparr>ma_level := fe_level e, ma_value := fe_value e, ma_content := fe_content e\<rparr>"

fun upgrade_alerts :: "(found_event \<times> monitor_alert) list \<Rightarrow> monitor_alert list" where
  "upgrade_alerts [] = []"
| "upgrade_alerts ((e, a) # es) =
     (if upgraded_by e a
      then upgrade e a # upgrade_alerts (map (\<lambda>(f, b). (f, if ma_id b = ma_id a then upgrade e a else b)) es)
      else upgrade_alerts es)"

definition update_existing_alerts :: "(found_event \<times> monitor_alert) list \<Rightarrow> monitor_alert list" where
  "update_existing_alerts es =
     (let as = upgrade_alerts es in map (\<lambda>a. case tfind ma_id (ma_id a) (rev as) of None \<Rightarrow> a | Some b \<Rightarrow> b) as)"

definition write_upgraded :: "monitor_alert list \<Rightarrow> monitor_db \<Rightarrow> monitor_db" where
  "write_upgraded as s =
     fold (\<lambda>a s. update_alerts {ma_id a}
       (\<lambda>x. x\<lparr>ma_level := ma_level a, ma_value := ma_value a, ma_content := ma_content a\<rparr>) s) as s"

definition schedule_notifications ::
  "monitor_env \<Rightarrow> policy \<Rightarrow> int \<Rightarrow> monitor_alert list \<Rightarrow> monitor_alert list \<Rightarrow> monitor_db \<Rightarrow> monitor_db" where
  "schedule_notifications M p clock created up s =
     (if \<not> mp_notice p then s
      else
        let t = notify_alerts M (Some p) clock created N_CREATED [] [] Scope_all_configured s
        in notify_alerts M (Some p) clock up N_UPGRADED [] [] Scope_all_configured t)"

text \<open>New events first, as the code lists them. The notifications run when the transaction is over.\<close>

definition create_events_and_alerts ::
  "monitor_env \<Rightarrow> policy \<Rightarrow> (string \<times> string) list \<Rightarrow> int \<Rightarrow> int \<Rightarrow> (nat \<Rightarrow> string) \<Rightarrow> monitor_alert list \<Rightarrow> found_event list
   \<Rightarrow> monitor_db \<Rightarrow> (monitor_event list \<times> monitor_alert list) \<times> monitor_db" where
  "create_events_and_alerts M p imap clock time uid active es s =
     (if es = [] then (([], []), s)
      else
        let fresh = filter (\<lambda>e. alert_of_event M active e = None) es;
            known = concat (map (\<lambda>e. case alert_of_event M active e of None \<Rightarrow> [] | Some a \<Rightarrow> [(e, a)]) es);
            (created, s1) = create_alerts p imap time fresh s;
            owner = (\<lambda>e. find (\<lambda>a. ma_metric_instance a = fe_metric_instance e \<and> ma_kind a = event_kind e) (rev created));
            valid = concat (map (\<lambda>e. case owner e of None \<Rightarrow> [] | Some a \<Rightarrow> [(e, ma_id a)]) fresh) @ map (\<lambda>(e, a). (e, ma_id a)) known;
            (rows, s2) = create_monitor_events p time uid valid s1;
            up = update_existing_alerts known;
            s3 = write_upgraded up s2
        in ((rows, created), schedule_notifications M p clock created up s3))"

section \<open>Baselines\<close>

definition instance_list_by_source :: "policy \<Rightarrow> monitor_db \<Rightarrow> string list" where
  "instance_list_by_source p s =
     (case mp_source p of
        SourceInstances vs \<Rightarrow> vs
      | SourceOrganizations os \<Rightarrow>
          map fst (filter (\<lambda>(i, org). org \<in> set os \<and>
            (\<exists>r \<in> set (md_instances s). mi_id r = i \<and> mi_object r = mp_object p)) (md_instance_orgs s))
      | _ \<Rightarrow> [])"

definition build_instances_map :: "policy \<Rightarrow> monitor_db \<Rightarrow> (string \<times> string) list" where
  "build_instances_map p s =
     (if mp_source p = NoSource then []
      else map (\<lambda>r. (mi_id r, mi_name r))
        (filter (\<lambda>r. mi_object r = mp_object p \<and> mi_id r \<in> set (instance_list_by_source p s) \<and> \<not> mi_is_deleted r) (md_instances s)))"

definition build_baselines_map :: "policy \<Rightarrow> (string \<times> string) list \<Rightarrow> monitor_db \<Rightarrow> (string \<times> string) list" where
  "build_baselines_map p imap s =
     (if mp_source p = NoSource then []
      else map (\<lambda>b. (bl_metric_instance b, bl_instance b))
        (filter (\<lambda>b. bl_policy b = mp_id p \<and> bl_instance b \<in> fst ` set imap) (md_baselines s)))"

definition new_baseline :: "policy \<Rightarrow> string \<times> string \<Rightarrow> baseline" where
  "new_baseline p mi = \<lparr>bl_policy = mp_id p, bl_instance = snd mi, bl_metric_instance = fst mi\<rparr>"

definition policy_baselines :: "policy \<Rightarrow> monitor_db \<Rightarrow> string set" where
  "policy_baselines p s = bl_metric_instance ` set (filter (\<lambda>b. bl_policy b = mp_id p) (md_baselines s))"

definition baseline_sync :: "policy \<Rightarrow> (string \<times> string) list \<Rightarrow> monitor_db \<Rightarrow> monitor_db" where
  "baseline_sync p found s =
     (if mp_source p = NoSource \<or> found = [] then s
      else s\<lparr>md_baselines := md_baselines s @
             map (new_baseline p) (filter (\<lambda>mi. fst mi \<notin> policy_baselines p s) found)\<rparr>)"

definition baseline_clear :: "policy \<Rightarrow> monitor_db \<Rightarrow> monitor_db" where
  "baseline_clear p s = s\<lparr>md_baselines := filter (\<lambda>b. bl_policy b \<noteq> mp_id p) (md_baselines s)\<rparr>"

text \<open>The metric instances of the present series that belong to an instance; \<open>None\<close> when the query fails.\<close>

definition query_metric_instances ::
  "monitor_env \<Rightarrow> policy \<Rightarrow> (string \<times> string) list \<Rightarrow> int \<Rightarrow> monitor_db \<Rightarrow> (string \<times> string) list option" where
  "query_metric_instances M p imap now s =
     (case rbind (set_monitor_obj_instance_key p s) (\<lambda>(_, metric).
            query_aggregation_metrics M p metric (case mp_last_run_time p of None \<Rightarrow> now | Some t \<Rightarrow> t) (mp_period p) 1) of
        Inl _ \<Rightarrow> None
      | Inr rs \<Rightarrow>
          Some (fold (\<lambda>r out. let t = group_tuple p r; i = instance_of_tuple M t in
                  if i \<in> fst ` set imap then tsave fst (mo_str M t, i) out else out) rs []))"

definition baseline_refresh :: "monitor_env \<Rightarrow> policy \<Rightarrow> int \<Rightarrow> monitor_db \<Rightarrow> monitor_db" where
  "baseline_refresh M p now s =
     (if mp_source p = NoSource then s
      else
        let imap = build_instances_map p s in
        if imap = [] then baseline_clear p s
        else case query_metric_instances M p imap now s of
          None \<Rightarrow> s
        | Some [] \<Rightarrow> baseline_clear p s
        | Some found \<Rightarrow> (let t = baseline_clear p s in t\<lparr>md_baselines := md_baselines t @ map (new_baseline p) found\<rparr>))"

end
