(* ===== verification/Monitor_Snapshots.thy ===== *)
theory Monitor_Snapshots
  imports Monitor_Alerts
begin

text \<open>
  The snapshots of the metric data of an alert
  (\<open>monitor/tasks/services/policy_scan/snapshot_recorder.py\<close>): a scan adds to the snapshot of every active
  alert the data of its events, or the data of a quiet period, or that there is still no data; the
  snapshot of a new alert starts with the period before it. An exception ends the recording; what was
  written before it stays. Loading a stored snapshot is assumed to give back what was stored.
\<close>

section \<open>The data of a scan\<close>

definition raw_key :: "monitor_env \<Rightarrow> string \<Rightarrow> string \<Rightarrow> string" where
  "raw_key M metric_instance instance_id = (if metric_instance \<noteq> [] then metric_instance else mo_str M [L_str instance_id])"

text \<open>The data of the stored events, the last one of an instance; then the first data of an info event.\<close>

definition event_raw_data :: "monitor_env \<Rightarrow> monitor_event list \<Rightarrow> monitor_db \<Rightarrow> (string \<times> series) list" where
  "event_raw_data M rows s =
     concat (map (\<lambda>(i, d). case tfind me_id i (filter (\<lambda>r. me_id r \<in> me_id ` set rows) (md_events s)) of
         None \<Rightarrow> [] | Some r \<Rightarrow> [(raw_key M (me_metric_instance r) (me_instance r), d)]) (md_raw s))"

definition add_info_data :: "monitor_env \<Rightarrow> found_event \<Rightarrow> (string \<times> series) list \<Rightarrow> (string \<times> series) list" where
  "add_info_data M e out =
     (let key = (if fe_metric_instance e \<noteq> [] then fe_metric_instance e
                 else if fe_instance e \<noteq> [] then mo_str M [L_str (fe_instance e)] else []) in
      case fe_raw e of None \<Rightarrow> out | Some d \<Rightarrow> if key \<in> fst ` set out then out else tsave fst (key, d) out)"

definition build_instance_raw_data_map ::
  "monitor_env \<Rightarrow> monitor_event list \<Rightarrow> found_event list \<Rightarrow> monitor_db \<Rightarrow> (string \<times> series) list" where
  "build_instance_raw_data_map M rows infos s =
     fold (add_info_data M) infos (fold (tsave fst) (event_raw_data M rows s) [])"

text \<open>The raw series of the present period, for an alert without an event in this scan; the last series
  of an instance. The recorder asks once and keeps the answer.\<close>

definition fallback_raw_data ::
  "monitor_env \<Rightarrow> policy \<Rightarrow> metric option \<Rightarrow> int \<Rightarrow> string \<Rightarrow> series option res" where
  "fallback_raw_data M p metric time key =
     rbind (query_raw_metrics M p metric time (mp_period p)) (\<lambda>rs.
       Inr (find (\<lambda>r. mo_str M (group_tuple p r) = key) (rev rs)))"

text \<open>The series of the period before; nothing when it lies more than a week back or the query fails.\<close>

definition build_pre_alert_snapshot ::
  "monitor_env \<Rightarrow> policy \<Rightarrow> metric option \<Rightarrow> int \<Rightarrow> int \<Rightarrow> string \<Rightarrow> snapshot_entry option res" where
  "build_pre_alert_snapshot M p metric clock time key =
     rbind (period_to_seconds (mp_period p)) (\<lambda>seconds.
       let pre = time - seconds * 1000000 in
       if pre < clock - 7 * 86400 * 1000000 then Inr None
       else rbind (format_pmq p metric) (\<lambda>query.
         rbind (format_period (mp_period p)) (\<lambda>step.
           let stop = pre div 1000000 in
           case run_method M (mp_algorithm p) query (stop - seconds) stop step (join_texts '','' (mp_group_by p)) (mp_group_algorithm p) of
             Inl _ \<Rightarrow> Inr None
           | Inr rs \<Rightarrow> Inr (map_option (SE_pre pre) (find (\<lambda>r. mo_str M (group_tuple p r) = key) rs)))))"

section \<open>The snapshot of one alert\<close>

definition event_entries :: "snapshot_entry list \<Rightarrow> string set" where
  "event_entries es = set (concat (map (\<lambda>e. case e of SE_event i _ _ _ \<Rightarrow> [i] | _ \<Rightarrow> []) es))"

definition info_times :: "snapshot_entry list \<Rightarrow> int set" where
  "info_times es = set (concat (map (\<lambda>e. case e of SE_info t _ \<Rightarrow> [t] | _ \<Rightarrow> []) es))"

definition no_data_times :: "snapshot_entry list \<Rightarrow> int set" where
  "no_data_times es = set (concat (map (\<lambda>e. case e of SE_no_data t \<Rightarrow> [t] | _ \<Rightarrow> []) es))"

definition add_event_entry :: "int \<Rightarrow> series \<Rightarrow> monitor_event \<Rightarrow> snapshot_entry list \<Rightarrow> snapshot_entry list" where
  "add_event_entry time d r es =
     (if me_id r \<in> event_entries es then es else es @ [SE_event (me_id r) (me_time r) time d])"

definition extend_entries ::
  "int \<Rightarrow> monitor_event list \<Rightarrow> series option \<Rightarrow> bool \<Rightarrow> snapshot_entry list \<Rightarrow> snapshot_entry list" where
  "extend_entries time rows raw no_data es =
     (case raw of
        Some d \<Rightarrow>
          if rows \<noteq> [] then fold (add_event_entry time d) rows es
          else if time \<in> info_times es then es else es @ [SE_info time d]
      | None \<Rightarrow> if no_data \<and> time \<notin> no_data_times es then es @ [SE_no_data time] else es)"

definition update_alert_snapshot ::
  "monitor_env \<Rightarrow> policy \<Rightarrow> metric option \<Rightarrow> int \<Rightarrow> int \<Rightarrow> monitor_alert \<Rightarrow> monitor_event list \<Rightarrow> series option \<Rightarrow> bool
   \<Rightarrow> monitor_db \<Rightarrow> unit res \<times> monitor_db" where
  "update_alert_snapshot M p metric clock time a rows raw fresh s =
     (let no_data = (ma_kind a = MK_NO_DATA); old = tfind sn_alert (ma_id a) (md_snapshots s);
          start = (case old of
                     Some n \<Rightarrow> Inr (sn_entries n)
                   | None \<Rightarrow>
                       if fresh then
                         map_sum id (\<lambda>x. case x of None \<Rightarrow> [] | Some e \<Rightarrow> [e])
                           (build_pre_alert_snapshot M p metric clock time (alert_metric_instance M a))
                       else Inr [])
      in case start of
           Inl e \<Rightarrow> (Inl e, s)
         | Inr es \<Rightarrow>
             let row = (case old of Some n \<Rightarrow> n
                        | None \<Rightarrow> \<lparr>sn_alert = ma_id a, sn_policy = mp_id p, sn_instance = ma_instance a, sn_entries = []\<rparr>)
             in (Inr (), s\<lparr>md_snapshots := tsave sn_alert (row\<lparr>sn_entries := extend_entries time rows raw no_data es\<rparr>) (md_snapshots s)\<rparr>))"

section \<open>All active alerts\<close>

text \<open>The data of an alert in this scan; without any, the raw series, but not for a no-data alert.\<close>

definition alert_raw_data ::
  "monitor_env \<Rightarrow> policy \<Rightarrow> metric option \<Rightarrow> int \<Rightarrow> (string \<times> series) list \<Rightarrow> monitor_alert \<Rightarrow> series option res" where
  "alert_raw_data M p metric time rawmap a =
     (case map_of rawmap (alert_metric_instance M a) of
        Some d \<Rightarrow> Inr (Some d)
      | None \<Rightarrow>
          if ma_kind a = MK_NO_DATA then Inr None else fallback_raw_data M p metric time (alert_metric_instance M a))"

fun record_snapshots ::
  "monitor_env \<Rightarrow> policy \<Rightarrow> metric option \<Rightarrow> int \<Rightarrow> int \<Rightarrow> (string \<times> series) list \<Rightarrow> monitor_event list \<Rightarrow> string set
   \<Rightarrow> monitor_alert list \<Rightarrow> monitor_db \<Rightarrow> unit res \<times> monitor_db" where
  "record_snapshots M p metric clock time rawmap rows fresh [] s = (Inr (), s)"
| "record_snapshots M p metric clock time rawmap rows fresh (a # as) s =
     (let key = alert_metric_instance M a;
          related = filter (\<lambda>r. raw_key M (me_metric_instance r) (me_instance r) = key) rows in
      case alert_raw_data M p metric time rawmap a of
        Inl e \<Rightarrow> (Inl e, s)
      | Inr raw \<Rightarrow>
          if related \<noteq> [] \<or> raw \<noteq> None \<or> key \<in> fresh \<or> ma_kind a = MK_NO_DATA then
            case update_alert_snapshot M p metric clock time a related raw (key \<in> fresh) s of
              (Inl e, t) \<Rightarrow> (Inl e, t)
            | (Inr _, t) \<Rightarrow> record_snapshots M p metric clock time rawmap rows fresh as t
          else record_snapshots M p metric clock time rawmap rows fresh as s)"

definition record_snapshots_for_active_alerts ::
  "monitor_env \<Rightarrow> policy \<Rightarrow> metric option \<Rightarrow> int \<Rightarrow> int \<Rightarrow> monitor_alert list \<Rightarrow> found_event list \<Rightarrow> monitor_event list
   \<Rightarrow> monitor_alert list \<Rightarrow> monitor_db \<Rightarrow> unit res \<times> monitor_db" where
  "record_snapshots_for_active_alerts M p metric clock time active infos rows created s =
     record_snapshots M p metric clock time (build_instance_raw_data_map M rows infos s) rows
       (alert_metric_instance M ` set created) (active @ created) s"

section \<open>Only snapshots are written\<close>

lemma update_alert_snapshot_frame:
  "update_alert_snapshot M p metric clock time a rows raw fresh s = (r, t) \<Longrightarrow> \<exists>x. t = s\<lparr>md_snapshots := x\<rparr>"
  by (auto simp: update_alert_snapshot_def Let_def split: option.splits sum.splits if_splits intro: exI[of _ "md_snapshots s"])

lemma record_snapshots_frame:
  "record_snapshots M p metric clock time rawmap rows fresh as s = (r, t) \<Longrightarrow> \<exists>x. t = s\<lparr>md_snapshots := x\<rparr>"
proof (induction as arbitrary: s)
  case Nil
  then show ?case by (auto intro: exI[of _ "md_snapshots s"])
next
  case (Cons a as)
  from Cons.prems show ?case
    by (auto simp: Let_def split: sum.splits if_splits prod.splits
          dest!: Cons.IH update_alert_snapshot_frame intro: exI[of _ "md_snapshots s"])
qed

end
