(* ===== verification/Monitor_Rows.thy ===== *)
theory Monitor_Rows
  imports Monitor_Snapshots
begin

text \<open>
  What the operations on alerts keep: every operation but the creation of alerts changes rows in place,
  and only rows and sent messages. \<open>rows R s t\<close> says that the rows of \<open>t\<close> are those of \<open>s\<close>, each one
  related to its old state by \<open>R\<close>.
\<close>

section \<open>Rows changed in place\<close>

definition rows :: "(monitor_alert \<Rightarrow> monitor_alert \<Rightarrow> bool) \<Rightarrow> monitor_db \<Rightarrow> monitor_db \<Rightarrow> bool" where
  "rows R s t \<longleftrightarrow> (\<exists>as out. t = s\<lparr>md_alerts := as, md_sent := out\<rparr> \<and> list_all2 R (md_alerts s) as)"

lemma rowsI: "t = s\<lparr>md_alerts := md_alerts t, md_sent := md_sent t\<rparr> \<Longrightarrow> list_all2 R (md_alerts s) (md_alerts t) \<Longrightarrow> rows R s t"
  unfolding rows_def by blast

lemma rows_list: "rows R s t \<Longrightarrow> list_all2 R (md_alerts s) (md_alerts t)"
  by (auto simp: rows_def)

lemma rows_frame:
  assumes "rows R s t"
  shows "md_policies t = md_policies s" "md_metrics t = md_metrics s" "md_instances t = md_instances s"
    "md_instance_orgs t = md_instance_orgs s" "md_events t = md_events s" "md_raw t = md_raw s"
    "md_snapshots t = md_snapshots s" "md_baselines t = md_baselines s" "md_channels t = md_channels s"
  using assms by (auto simp: rows_def)

lemma rows_refl: "(\<And>a. R a a) \<Longrightarrow> rows R s s"
  by (rule rowsI) (auto simp: list_all2_refl)

lemma rows_mono: "rows R s t \<Longrightarrow> (\<And>a b. a \<in> set (md_alerts s) \<Longrightarrow> R a b \<Longrightarrow> Q a b) \<Longrightarrow> rows Q s t"
  unfolding rows_def by (fastforce intro: list.rel_mono_strong)

lemma rows_trans:
  assumes "rows R s t" "rows Q t u" "\<And>a b c. R a b \<Longrightarrow> Q b c \<Longrightarrow> P a c"
  shows "rows P s u"
proof -
  from assms(1,2) obtain as out bs out' where
    "t = s\<lparr>md_alerts := as, md_sent := out\<rparr>" "list_all2 R (md_alerts s) as"
    "u = s\<lparr>md_alerts := bs, md_sent := out'\<rparr>" "list_all2 Q as bs"
    by (auto simp: rows_def)
  then show ?thesis using list_all2_trans[of R Q P, OF assms(3)] by (auto simp: rows_def)
qed

lemma rows_trans_in:
  assumes "rows R s t" "rows Q t u" "\<And>a b c. a \<in> set (md_alerts s) \<Longrightarrow> R a b \<Longrightarrow> Q b c \<Longrightarrow> P a c"
  shows "rows P s u"
proof -
  have "rows (\<lambda>a b. a \<in> set (md_alerts s) \<and> R a b) s t"
    using assms(1) by (auto simp: rows_def list_all2_conv_all_nth)
  then show ?thesis using assms(2) by (rule rows_trans) (use assms(3) in blast)
qed

lemma rows_map: "rows (\<lambda>a b. f b = f a) s t \<Longrightarrow> map f (md_alerts t) = map f (md_alerts s)"
  by (drule rows_list) (auto simp: list_all2_conv_all_nth intro: nth_equalityI)

lemma rows_of:
  assumes "rows R s t" "a \<in> set (md_alerts s)"
  obtains b where "b \<in> set (md_alerts t)" "R a b"
  using rows_list[OF assms(1)] assms(2) by (metis list_all2_conv_all_nth in_set_conv_nth)

lemma rows_back:
  assumes "rows R s t" "b \<in> set (md_alerts t)"
  obtains a where "a \<in> set (md_alerts s)" "R a b"
  using rows_list[OF assms(1)] assms(2) by (metis list_all2_conv_all_nth in_set_conv_nth)

lemma rows_update:
  assumes "\<And>a. R a a" "\<And>a. a \<in> set (md_alerts s) \<Longrightarrow> ma_id a \<in> ids \<Longrightarrow> R a (f a)"
  shows "rows R s (update_alerts ids f s)"
  by (rule rowsI) (auto simp: update_alerts_def tupdate_def list_all2_conv_all_nth assms)

lemma rows_fold:
  assumes refl: "\<And>a. R a a" and trans: "\<And>a b c. R a b \<Longrightarrow> R b c \<Longrightarrow> R a c"
    and step: "\<And>x s. x \<in> set xs \<Longrightarrow> rows R s (f x s)"
  shows "rows R s (fold f xs s)"
  using step
proof (induction xs arbitrary: s)
  case (Cons x xs)
  then have "rows R s (f x s)" "rows R (f x s) (fold f xs (f x s))" by simp_all
  then show ?case using rows_trans[OF _ _ trans] by simp
qed (simp add: rows_refl refl)

section \<open>Notifications\<close>

text \<open>An alert without what notifications write.\<close>

definition unlogged :: "monitor_alert \<Rightarrow> monitor_alert" where
  "unlogged a = a\<lparr>ma_notice_logs := [], ma_notified := False, ma_retry_count := 0\<rparr>"

definition notices_only :: "monitor_alert \<Rightarrow> monitor_alert \<Rightarrow> bool" where
  "notices_only a b \<longleftrightarrow> unlogged b = unlogged a"

lemma unlogged_fields:
  assumes "unlogged b = unlogged a"
  shows "ma_id b = ma_id a" "ma_policy b = ma_policy a" "ma_instance b = ma_instance a"
    "ma_metric_instance b = ma_metric_instance a" "ma_kind b = ma_kind a" "ma_level b = ma_level a"
    "ma_status b = ma_status a" "ma_start b = ma_start a" "ma_end b = ma_end a" "ma_info_count b = ma_info_count a"
    "ma_operation_logs b = ma_operation_logs a" "ma_operator b = ma_operator a"
proof -
  have "f (unlogged b) = f (unlogged a)" for f :: "monitor_alert \<Rightarrow> 'a" using assms by simp
  from this[of ma_id] this[of ma_policy] this[of ma_info_count]
  show "ma_id b = ma_id a" "ma_policy b = ma_policy a" "ma_info_count b = ma_info_count a" by (simp_all add: unlogged_def)
  have "f (unlogged b) = f (unlogged a)" for f :: "monitor_alert \<Rightarrow> 'a" using assms by simp
  from this[of ma_instance] this[of ma_metric_instance] this[of ma_level] this[of ma_operator]
  show "ma_instance b = ma_instance a" "ma_metric_instance b = ma_metric_instance a" "ma_level b = ma_level a"
    "ma_operator b = ma_operator a" by (simp_all add: unlogged_def)
  have "f (unlogged b) = f (unlogged a)" for f :: "monitor_alert \<Rightarrow> 'a" using assms by simp
  from this[of ma_kind] show "ma_kind b = ma_kind a" by (simp add: unlogged_def)
  have "f (unlogged b) = f (unlogged a)" for f :: "monitor_alert \<Rightarrow> 'a" using assms by simp
  from this[of ma_status] show "ma_status b = ma_status a" by (simp add: unlogged_def)
  have "f (unlogged b) = f (unlogged a)" for f :: "monitor_alert \<Rightarrow> 'a" using assms by simp
  from this[of ma_start] this[of ma_end] show "ma_start b = ma_start a" "ma_end b = ma_end a" by (simp_all add: unlogged_def)
  have "f (unlogged b) = f (unlogged a)" for f :: "monitor_alert \<Rightarrow> 'a" using assms by simp
  from this[of ma_operation_logs] show "ma_operation_logs b = ma_operation_logs a" by (simp add: unlogged_def)
qed

lemma notices_only_refl [simp]: "notices_only a a"
  by (simp add: notices_only_def)

lemma notices_only_trans: "notices_only a b \<Longrightarrow> notices_only b c \<Longrightarrow> notices_only a c"
  by (simp add: notices_only_def)

lemma unlogged_notices [simp]:
  "unlogged (a\<lparr>ma_notice_logs := x\<rparr>) = unlogged a" "unlogged (a\<lparr>ma_notified := y\<rparr>) = unlogged a"
  "unlogged (a\<lparr>ma_retry_count := z\<rparr>) = unlogged a"
  by (simp_all add: unlogged_def)

lemma rows_notices_update: "(\<And>a. unlogged (f a) = unlogged a) \<Longrightarrow> rows notices_only s (update_alerts ids f s)"
  by (rule rows_update) (simp_all add: notices_only_def)

lemma mark_rows: "rows notices_only s (mark_alert_center_notified ids s)"
  unfolding mark_alert_center_notified_def by (rule rows_notices_update) (simp add: unlogged_def)

lemma reset_rows: "rows notices_only s (reset_alert_center_flags ids s)"
  unfolding reset_alert_center_flags_def by (rule rows_notices_update) (simp add: unlogged_def)

lemma persist_rows: "rows notices_only s (persist_notice_logs as rs s)"
  unfolding persist_notice_logs_def
  by (rule rows_fold) (auto intro: rows_notices_update rows_refl notices_only_trans)

lemma send_normal_notice_alerts:
  "send_normal_notice M now c users as act s = (rs, t) \<Longrightarrow> \<exists>out. t = s\<lparr>md_sent := out\<rparr>"
proof (induction as arbitrary: s rs)
  case Nil
  then show ?case by (auto intro: exI[of _ "md_sent s"])
next
  case (Cons a as)
  then show ?case by (fastforce simp: send_msg_def split: prod.splits)
qed

lemma push_alerts: "push_to_alert_center M p now c as act operator reason s = (rs, t) \<Longrightarrow> \<exists>out. t = s\<lparr>md_sent := out\<rparr>"
  by (auto simp: push_to_alert_center_def send_msg_def)

lemma send_to_channel_alerts:
  "send_to_channel M p now c users as act operator reason scope s = (rs, t) \<Longrightarrow> \<exists>out. t = s\<lparr>md_sent := out\<rparr>"
  by (auto simp: send_to_channel_def Let_def split: if_splits dest: push_alerts send_normal_notice_alerts
      intro: exI[of _ "md_sent s"])

lemma send_groups_alerts:
  "send_groups M p now gs act operator reason scope s = (rs, t) \<Longrightarrow> \<exists>out. t = s\<lparr>md_sent := out\<rparr>"
proof (induction M p now gs act operator reason scope s arbitrary: rs t rule: send_groups.induct)
  case (1 M p now act operator reason scope s)
  then show ?case by (auto intro: exI[of _ "md_sent s"])
next
  case (2 M p now c users as gs act operator reason scope s)
  obtain r u where u: "send_to_channel M p now c users as act operator reason scope s = (r, u)" by fastforce
  note IH = 2(1)[OF u[symmetric]]
  obtain r' v where v: "send_groups M p now gs act operator reason scope u = (r', v)" by fastforce
  from send_to_channel_alerts[OF u] IH[OF v] 2(2) u v show ?case by auto
qed

lemma sent_rows: "(\<And>a. R a a) \<Longrightarrow> rows R s (s\<lparr>md_sent := out\<rparr>)"
  by (rule rowsI) (auto simp: list_all2_refl)

lemma notify_rows: "rows notices_only s (notify_alerts M p now as act operator reason scope s)"
proof -
  consider "as = [] \<or> scope = Scope_none" | "as \<noteq> []" "scope \<noteq> Scope_none" by blast
  then show ?thesis
  proof cases
    case 1
    then show ?thesis by (auto simp: notify_alerts_def reset_rows rows_refl)
  next
    case 2
    obtain rs t where t: "send_groups M p now (notice_groups p act scope as s) act operator reason scope s = (rs, t)" by fastforce
    from send_groups_alerts[OF t] have st: "rows notices_only s t" by (auto intro: sent_rows)
    note c = rows_trans[OF _ _ notices_only_trans]
    from 2 t show ?thesis
      by (auto simp: notify_alerts_def Let_def intro!: c[OF c[OF c[OF st persist_rows] mark_rows] reset_rows])
  qed
qed

lemma push_only_rows: "push_to_alert_center_only M now as act s = (rs, t) \<Longrightarrow> rows notices_only s t"
  by (auto simp: push_to_alert_center_only_def split: option.splits prod.splits dest!: push_alerts
      intro: rows_refl rows_trans[OF sent_rows persist_rows notices_only_trans])

lemma retry_groups_rows: "retry_groups M now as sts s = (rs, t) \<Longrightarrow> rows notices_only s t"
  by (induction M now as sts s arbitrary: rs rule: retry_groups.induct)
     (fastforce simp: rows_refl split: prod.splits dest: push_only_rows intro: rows_trans[OF _ _ notices_only_trans])+

lemma retry_rows: "retry_lifecycle_notify M now s = (r, t) \<Longrightarrow> rows notices_only s t"
proof -
  assume r: "retry_lifecycle_notify M now s = (r, t)"
  let ?as = "take 200 (sort_key ma_id (filter needs_retry (md_alerts s)))"
  obtain rs u where u: "retry_groups M now ?as (dedup_on id (map ma_status ?as)) s = (rs, u)" by fastforce
  note c = rows_trans[OF _ _ notices_only_trans]
  have bump: "rows notices_only v (update_alerts ids (\<lambda>a. a\<lparr>ma_retry_count := ma_retry_count a + 1\<rparr>) v)" for v ids
    by (rule rows_notices_update) simp
  from r u show ?thesis
    by (auto simp: retry_lifecycle_notify_def Let_def intro!: c[OF c[OF retry_groups_rows[OF u] mark_rows] bump])
qed

section \<open>Counting, recovery, higher levels\<close>

text \<open>Updates one after the other, where a later one of a row overwrites an earlier one.\<close>

lemma fold_overwrite:
  assumes id: "\<And>a x. ma_id (f a x) = ma_id x" and over: "\<And>a b x. f a (f b x) = f a x"
  shows "fold (\<lambda>a. update_alerts {ma_id a} (f a)) as s =
     s\<lparr>md_alerts := map (\<lambda>x. case tfind ma_id (ma_id x) (rev as) of None \<Rightarrow> x | Some a \<Rightarrow> f a x) (md_alerts s)\<rparr>"
proof (induction as rule: rev_induct)
  case Nil
  then show ?case by (simp add: tfind_def)
next
  case (snoc a as)
  let ?g = "\<lambda>x. case tfind ma_id (ma_id x) (rev as) of None \<Rightarrow> x | Some b \<Rightarrow> f b x"
  have "fold (\<lambda>a. update_alerts {ma_id a} (f a)) (as @ [a]) s =
      update_alerts {ma_id a} (f a) (s\<lparr>md_alerts := map ?g (md_alerts s)\<rparr>)"
    by (simp add: snoc)
  also have "\<dots> = s\<lparr>md_alerts := map (\<lambda>x. case tfind ma_id (ma_id x) (rev (as @ [a])) of None \<Rightarrow> x | Some b \<Rightarrow> f b x) (md_alerts s)\<rparr>"
    by (auto simp: update_alerts_def tupdate_def tfind_def id over split: option.splits)
  finally show ?case .
qed

definition as_recovered :: "int \<Rightarrow> monitor_alert \<Rightarrow> monitor_alert \<Rightarrow> monitor_alert" where
  "as_recovered time a x = x\<lparr>ma_status := M_RECOVERED, ma_end := Some time, ma_operator := ''system'',
         ma_operation_logs := ma_operation_logs (recovered time a), ma_notified := False\<rparr>"

lemma write_recovered_rows:
  "write_recovered time as s =
     s\<lparr>md_alerts := map (\<lambda>x. case tfind ma_id (ma_id x) (rev as) of None \<Rightarrow> x | Some a \<Rightarrow> as_recovered time a x) (md_alerts s)\<rparr>"
  unfolding write_recovered_def as_recovered_def[symmetric] by (rule fold_overwrite) (simp_all add: as_recovered_def)

definition as_upgraded :: "monitor_alert \<Rightarrow> monitor_alert \<Rightarrow> monitor_alert" where
  "as_upgraded a x = x\<lparr>ma_level := ma_level a, ma_value := ma_value a, ma_content := ma_content a\<rparr>"

lemma write_upgraded_rows:
  "write_upgraded as s =
     s\<lparr>md_alerts := map (\<lambda>x. case tfind ma_id (ma_id x) (rev as) of None \<Rightarrow> x | Some a \<Rightarrow> as_upgraded a x) (md_alerts s)\<rparr>"
  unfolding write_upgraded_def as_upgraded_def[symmetric] by (rule fold_overwrite) (simp_all add: as_upgraded_def)

lemma rows_mapI:
  assumes "\<And>x. x \<in> set (md_alerts s) \<Longrightarrow> R x (g x)"
  shows "rows R s (s\<lparr>md_alerts := map g (md_alerts s)\<rparr>)"
  by (rule rowsI) (auto simp: list_all2_conv_all_nth assms)

end
