(* ===== verification/Monitor_Scan.thy ===== *)
theory Monitor_Scan
  imports Monitor_Snapshots
begin

text \<open>
  One scan of a policy (\<open>monitor/tasks/services/policy_scan/scanner.py\<close>) and the task that runs it and
  makes up for missed periods (\<open>monitor/tasks/monitor_policy.py\<close>). A scan writes step by step, without a
  transaction around it: an exception leaves what was written before it. Only a scan that ends without an
  exception moves the watermark \<open>last_run_time\<close> of its policy.

  \<open>uid i k\<close> is the k-th UUID drawn by the i-th scan of the task.
\<close>

section \<open>The context of a scan\<close>

record scan_context =
  sx_instances :: "(string \<times> string) list"
  sx_baselines :: "(string \<times> string) list"
  sx_active :: "monitor_alert list"

definition get_active_alerts :: "policy \<Rightarrow> (string \<times> string) list \<Rightarrow> monitor_db \<Rightarrow> monitor_alert list" where
  "get_active_alerts p imap s =
     filter (\<lambda>a. ma_policy a = mp_id p \<and> is_new a \<and> (mp_source p \<noteq> NoSource \<longrightarrow> ma_instance a \<in> fst ` set imap)) (md_alerts s)"

definition scan_context :: "policy \<Rightarrow> monitor_db \<Rightarrow> scan_context" where
  "scan_context p s =
     (let imap = build_instances_map p s in
      \<lparr>sx_instances = imap, sx_baselines = build_baselines_map p imap s, sx_active = get_active_alerts p imap s\<rparr>)"

section \<open>Collecting events\<close>

definition process_threshold_alerts ::
  "monitor_env \<Rightarrow> policy \<Rightarrow> metric option \<Rightarrow> scan_context \<Rightarrow> int \<Rightarrow> int \<Rightarrow> monitor_db
   \<Rightarrow> (found_event list \<times> found_event list) res \<times> monitor_db" where
  "process_threshold_alerts M p metric X clock time s =
     (case detect_threshold_alerts M p metric (sx_instances X) time of
        Inl e \<Rightarrow> (Inl e, s)
      | Inr (alerts, infos) \<Rightarrow>
          (Inr (alerts, infos),
           recover_threshold_alerts M p clock time (sx_active X) (count_events M (sx_active X) alerts infos s)))"

definition process_no_data_alerts ::
  "monitor_env \<Rightarrow> policy \<Rightarrow> metric option \<Rightarrow> scan_context \<Rightarrow> int \<Rightarrow> int \<Rightarrow> monitor_db
   \<Rightarrow> found_event list res \<times> monitor_db" where
  "process_no_data_alerts M p metric X clock time s =
     (case detect_no_data_alerts M p metric (sx_baselines X) (sx_instances X) time of
        Inl e \<Rightarrow> (Inl e, s)
      | Inr events \<Rightarrow>
          (case recover_no_data_alerts M p metric (sx_instances X) clock time (sx_active X) s of
             (Inl e, t) \<Rightarrow> (Inl e, t)
           | (Inr _, t) \<Rightarrow> (Inr events, t)))"

definition collect_events ::
  "monitor_env \<Rightarrow> policy \<Rightarrow> metric option \<Rightarrow> scan_context \<Rightarrow> int \<Rightarrow> int \<Rightarrow> monitor_db
   \<Rightarrow> (found_event list \<times> found_event list \<times> found_event list) res \<times> monitor_db" where
  "collect_events M p metric X clock time s =
     (case (if ''threshold'' \<in> set (mp_enable_alerts p) then process_threshold_alerts M p metric X clock time s
            else (Inr ([], []), s)) of
        (Inl e, t) \<Rightarrow> (Inl e, t)
      | (Inr (alerts, infos), t) \<Rightarrow>
          (case (if ''no_data'' \<in> set (mp_enable_alerts p) then process_no_data_alerts M p metric X clock time t
                 else (Inr [], t)) of
             (Inl e, u) \<Rightarrow> (Inl e, u)
           | (Inr missing, u) \<Rightarrow> (Inr (alerts, infos, missing), u)))"

text \<open>Metric instances that the baselines do not know yet.\<close>

definition found_instances :: "scan_context \<Rightarrow> found_event list \<Rightarrow> (string \<times> string) list" where
  "found_instances X es =
     fold (\<lambda>e out. if fe_metric_instance e \<noteq> [] \<and> fe_instance e \<noteq> [] \<and> fe_instance e \<in> fst ` set (sx_instances X) \<and>
              fe_metric_instance e \<notin> fst ` set (sx_baselines X)
            then tsave fst (fe_metric_instance e, fe_instance e) out else out) es []"

definition sync_baselines :: "policy \<Rightarrow> scan_context \<Rightarrow> found_event list \<Rightarrow> monitor_db \<Rightarrow> monitor_db" where
  "sync_baselines p X es s =
     (if mp_source p = NoSource \<or> sx_instances X = [] then s else baseline_sync p (found_instances X es) s)"

text \<open>Exceptions of the recording are logged and otherwise ignored.\<close>

definition scan_snapshots ::
  "monitor_env \<Rightarrow> policy \<Rightarrow> metric option \<Rightarrow> scan_context \<Rightarrow> int \<Rightarrow> int \<Rightarrow> found_event list \<Rightarrow> monitor_event list
   \<Rightarrow> monitor_alert list \<Rightarrow> monitor_db \<Rightarrow> monitor_db" where
  "scan_snapshots M p metric X clock time infos rows created s =
     (if (sx_active X \<noteq> [] \<or> created \<noteq> []) \<and> (infos \<noteq> [] \<or> rows \<noteq> [] \<or> created \<noteq> [])
      then snd (record_snapshots_for_active_alerts M p metric clock time (sx_active X) infos rows created s)
      else s)"

section \<open>The scan\<close>

definition scan_run :: "monitor_env \<Rightarrow> int \<Rightarrow> (nat \<Rightarrow> string) \<Rightarrow> policy \<Rightarrow> int \<Rightarrow> monitor_db \<Rightarrow> unit res \<times> monitor_db" where
  "scan_run M clock uid p time s =
     (let X = scan_context p s in
      if mp_source p \<noteq> NoSource \<and> sx_instances X = [] then (Inr (), s)
      else case set_monitor_obj_instance_key p s of
        Inl e \<Rightarrow> (Inl e, s)
      | Inr (_, metric) \<Rightarrow>
          (case collect_events M p metric X clock time s of
             (Inl e, t) \<Rightarrow> (Inl e, t)
           | (Inr (alerts, infos, missing), t) \<Rightarrow>
               let t1 = sync_baselines p X (alerts @ infos) t in
               (case create_events_and_alerts M p (sx_instances X) clock time uid (sx_active X) (alerts @ missing) t1 of
                  ((rows, created), t2) \<Rightarrow>
                    (Inr (), scan_snapshots M p metric X clock time infos rows created t2))))"

section \<open>The task\<close>

definition set_last_run :: "nat \<Rightarrow> int \<Rightarrow> monitor_db \<Rightarrow> monitor_db" where
  "set_last_run i time s = s\<lparr>md_policies := tupdate (\<lambda>p. mp_id p = i) (\<lambda>p. p\<lparr>mp_last_run_time := Some time\<rparr>) (md_policies s)\<rparr>"

definition run_scan_and_record_success ::
  "monitor_env \<Rightarrow> int \<Rightarrow> (nat \<Rightarrow> string) \<Rightarrow> policy \<Rightarrow> int \<Rightarrow> monitor_db \<Rightarrow> unit res \<times> monitor_db" where
  "run_scan_and_record_success M clock uid p time s =
     (case scan_run M clock uid (p\<lparr>mp_last_run_time := Some time\<rparr>) time s of
        (Inl e, t) \<Rightarrow> (Inl e, t)
      | (Inr _, t) \<Rightarrow> (Inr (), set_last_run (mp_id p) time t))"

text \<open>Missed periods, one scan after the other; the first exception ends the task.\<close>

fun backfill ::
  "monitor_env \<Rightarrow> int \<Rightarrow> (nat \<Rightarrow> nat \<Rightarrow> string) \<Rightarrow> policy \<Rightarrow> int \<Rightarrow> int \<Rightarrow> nat \<Rightarrow> nat \<Rightarrow> monitor_db \<Rightarrow> unit res \<times> monitor_db" where
  "backfill M clock uid p prev step i 0 s = (Inr (), s)"
| "backfill M clock uid p prev step i (Suc n) s =
     (case run_scan_and_record_success M clock (uid i) p (prev + step) s of
        (Inl e, t) \<Rightarrow> (Inl e, t)
      | (Inr _, t) \<Rightarrow> backfill M clock uid p (prev + step) step (Suc i) n t)"

definition backfill_count :: "int \<Rightarrow> int \<Rightarrow> int \<Rightarrow> int res" where
  "backfill_count now prev seconds =
     (if seconds = 0 then Inl ZeroDivisionError else Inr (min (now - prev) MAX_BACKFILL div (seconds * 1000000)))"

definition scan_policy_task ::
  "monitor_env \<Rightarrow> int \<Rightarrow> (nat \<Rightarrow> nat \<Rightarrow> string) \<Rightarrow> nat \<Rightarrow> monitor_db \<Rightarrow> unit res \<times> monitor_db" where
  "scan_policy_task M now uid i s =
     (case tfind mp_id i (md_policies s) of
        None \<Rightarrow> (Inl BaseAppException, s)
      | Some p \<Rightarrow>
          if \<not> mp_enable p then (Inr (), s)
          else case mp_last_run_time p of
            None \<Rightarrow> run_scan_and_record_success M now (uid 0) p now s
          | Some prev \<Rightarrow>
              (case rbind (period_to_seconds (mp_period p)) (\<lambda>seconds.
                      rbind (backfill_count now prev seconds) (\<lambda>n. Inr (seconds, n))) of
                 Inl e \<Rightarrow> (Inl e, s)
               | Inr (seconds, n) \<Rightarrow>
                   if n \<le> 1 then run_scan_and_record_success M now (uid 0) p now s
                   else backfill M now uid p prev (seconds * 1000000) 0 (nat (min n MAX_BACKFILL_COUNT)) s))"

end
