(* ===== verification/Monitor_Evolution.thy ===== *)
theory Monitor_Evolution
  imports Monitor_Rows Monitor_Scan
begin

text \<open>
  What a scan does to the alerts of its policy, row by row: the counters of quiet periods, recovery of
  quiet alerts and of alerts whose data came backs, higher levels, new alerts at the end of the table.
  \<open>evolves\<close> is what any operation may do to an alert.
\<close>

section \<open>The rows after the detection\<close>

definition counted :: "nat set \<Rightarrow> nat set \<Rightarrow> monitor_alert \<Rightarrow> monitor_alert" where
  "counted hits quiets a =
     a\<lparr>ma_info_count := (if ma_id a \<in> hits then 0 else if ma_id a \<in> quiets then ma_info_count a + 1 else ma_info_count a)\<rparr>"

definition quiet_enough :: "policy \<Rightarrow> monitor_alert \<Rightarrow> bool" where
  "quiet_enough p a \<longleftrightarrow> 0 < mp_recovery_condition p \<and> mp_recovery_condition p \<le> ma_info_count a"

definition threshold_row ::
  "policy \<Rightarrow> int \<Rightarrow> nat set \<Rightarrow> nat set \<Rightarrow> nat set \<Rightarrow> monitor_alert \<Rightarrow> monitor_alert" where
  "threshold_row p time watched hits quiets a =
     (let c = counted hits quiets a in if ma_id a \<in> watched \<and> quiet_enough p c then recovered time c else c)"

definition watched_ids :: "ma_kind \<Rightarrow> monitor_alert list \<Rightarrow> nat set" where
  "watched_ids k active = ma_id ` {a \<in> set active. ma_kind a = k}"

lemma keyed_tfind_rev:
  assumes "keyed ma_id as" "x \<in> set as"
  shows "tfind ma_id (ma_id x) (rev (filter P as)) = (if P x then Some x else None)"
proof -
  have k: "keyed ma_id (rev (filter P as))" using keyed_filter[OF assms(1), of P] by (simp add: keyed_def rev_map[symmetric])
  show ?thesis
  proof (cases "P x")
    case True
    then show ?thesis using tfind_iff[OF k, of "ma_id x" x] assms(2) by simp
  next
    case False
    then have "ma_id x \<notin> ma_id ` set (rev (filter P as))" using keyed_inj[OF assms(1) assms(2)] by auto
    then show ?thesis using False by (simp add: tfind_None)
  qed
qed

lemma count_events_rows:
  "count_events M active alerts infos s =
     s\<lparr>md_alerts := map (counted (counted_alerts M active alerts) (counted_alerts M active infos)) (md_alerts s)\<rparr>"
  by (auto simp: count_events_def update_alerts_def tupdate_def counted_def)

lemma rows_after_map: "rows R (s\<lparr>md_alerts := map g (md_alerts s)\<rparr>) t \<Longrightarrow> rows (\<lambda>a b. R (g a) b) s t"
  by (auto simp: rows_def list_all2_map1)

lemma notices_end: "rows notices_only (s\<lparr>md_alerts := map g (md_alerts s)\<rparr>) t \<Longrightarrow> rows (\<lambda>a b. unlogged b = unlogged (g a)) s t"
  by (drule rows_after_map) (simp add: notices_only_def)

lemma recover_threshold_rows:
  assumes "keyed ma_id (md_alerts s)"
  shows "rows (\<lambda>a b. unlogged b = unlogged (if ma_id a \<in> watched_ids MK_ALERT active \<and> quiet_enough p a then recovered time a else a))
    s (recover_threshold_alerts M p clock time active s)"
proof (cases "0 < mp_recovery_condition p")
  case False
  then show ?thesis by (auto simp: recover_threshold_alerts_def quiet_enough_def intro: rows_refl)
next
  case True
  let ?P = "\<lambda>a. ma_id a \<in> watched_ids MK_ALERT active \<and> quiet_enough p a"
  let ?g = "\<lambda>a. if ?P a then recovered time a else a"
  have P: "filter (\<lambda>a. ma_id a \<in> ma_id ` set (filter (\<lambda>a. ma_kind a = MK_ALERT) active) \<and>
      ma_info_count a \<ge> mp_recovery_condition p) (md_alerts s) = filter ?P (md_alerts s)"
    using True by (intro filter_cong) (auto simp: watched_ids_def quiet_enough_def)
  have w: "write_recovered time (filter ?P (md_alerts s)) s = s\<lparr>md_alerts := map ?g (md_alerts s)\<rparr>"
    unfolding write_recovered_rows
    by (rule arg_cong[where f = "\<lambda>x. s\<lparr>md_alerts := x\<rparr>"], rule map_cong[OF refl])
       (auto simp: keyed_tfind_rev[OF assms] as_recovered_def recovered_def)
  show ?thesis
  proof (cases "filter ?P (md_alerts s) = []")
    case e: True
    then have "\<forall>a \<in> set (md_alerts s). \<not> ?P a" by (simp add: filter_empty_conv)
    then have "rows (\<lambda>a b. unlogged b = unlogged (?g a)) s s"
      by (intro rowsI) (auto simp: list_all2_conv_all_nth)
    then show ?thesis using True e by (simp only: recover_threshold_alerts_def P recover_alerts_def) simp
  next
    case False
    with True show ?thesis
      by (simp only: recover_threshold_alerts_def P recover_alerts_def w if_False) (auto intro: notices_end notify_rows)
  qed
qed

lemma process_threshold_rows:
  assumes "keyed ma_id (md_alerts s)"
    "process_threshold_alerts M p metric X clock time s = (Inr (alerts, infos), t)"
  shows "rows (\<lambda>a b. unlogged b = unlogged (threshold_row p time (watched_ids MK_ALERT (sx_active X))
    (counted_alerts M (sx_active X) alerts) (counted_alerts M (sx_active X) infos) a)) s t"
proof -
  let ?c = "counted (counted_alerts M (sx_active X) alerts) (counted_alerts M (sx_active X) infos)"
  let ?s = "s\<lparr>md_alerts := map ?c (md_alerts s)\<rparr>"
  have t: "t = recover_threshold_alerts M p clock time (sx_active X) ?s"
    using assms(2) by (auto simp: process_threshold_alerts_def count_events_rows split: sum.splits)
  have id: "ma_id (?c a) = ma_id a" for a by (simp add: counted_def)
  then have "keyed ma_id (md_alerts ?s)" using assms(1) by (simp add: keyed_def comp_def)
  from recover_threshold_rows[OF this] have "rows (\<lambda>a b. unlogged b = unlogged (if ma_id a \<in> watched_ids MK_ALERT (sx_active X) \<and>
      quiet_enough p a then recovered time a else a)) ?s t"
    by (simp only: t)
  from rows_after_map[OF this] show ?thesis
    by (simp only: threshold_row_def Let_def id)
qed
lemma map_of_find: "map_of (map (\<lambda>a. (f a, g a)) xs) k = map_option g (find (\<lambda>a. f a = k) xs)"
  by (induction xs) auto

lemma find_filter: "find P (filter Q xs) = find (\<lambda>x. P x \<and> Q x) xs"
  by (induction xs) auto

lemma set_somes: "set (concat (map (\<lambda>e. case f e of None \<Rightarrow> [] | Some i \<Rightarrow> [i]) es)) = {i. \<exists>e \<in> set es. f e = Some i}"
  by (induction es) (auto split: option.splits)

lemma counted_alerts_eq:
  "counted_alerts M active es =
     {i. \<exists>e \<in> set es. map_option ma_id (find (\<lambda>a. alert_metric_instance M a = fe_metric_instance e \<and> ma_kind a = MK_ALERT) (rev active)) = Some i}"
  unfolding counted_alerts_def Let_def rev_map rev_filter map_of_find find_filter by (rule set_somes)

lemma find_rev_in: "find P (rev xs) = Some a \<Longrightarrow> a \<in> set xs \<and> P a"
proof -
  have "find P ys = Some a \<Longrightarrow> a \<in> set ys \<and> P a" for ys by (induction ys) (auto split: if_splits)
  from this[of "rev xs"] show "find P (rev xs) = Some a \<Longrightarrow> a \<in> set xs \<and> P a" by simp
qed

lemma counted_alerts_watched: "counted_alerts M active es \<subseteq> watched_ids MK_ALERT active"
  by (auto simp: counted_alerts_eq watched_ids_def dest!: find_rev_in)

lemma alert_of_event_in: "alert_of_event M active e = Some a \<Longrightarrow>
    a \<in> set active \<and> alert_metric_instance M a = fe_metric_instance e \<and> ma_kind a = event_kind e"
  by (simp add: alert_of_event_def) (blast dest: find_rev_in)

lemma counted_hit: "e \<in> set es \<Longrightarrow> event_kind e = MK_ALERT \<Longrightarrow> alert_of_event M active e = Some a \<Longrightarrow> ma_id a \<in> counted_alerts M active es"
  by (auto simp: counted_alerts_eq alert_of_event_def)

text \<open>The no-data alerts whose data came backs.\<close>

definition came_back ::
  "monitor_env \<Rightarrow> policy \<Rightarrow> metric option \<Rightarrow> (string \<times> string) list \<Rightarrow> int \<Rightarrow> monitor_alert list \<Rightarrow> monitor_alert list" where
  "came_back M p metric imap time active =
     (if mp_no_data_recovery_period p = None then []
      else case rbind (query_aggregation_metrics M p metric time (mp_no_data_recovery_period p) 1)
                  (format_aggregation_metrics M p imap) of
        Inl e \<Rightarrow> []
      | Inr data \<Rightarrow> filter (\<lambda>a. ma_kind a = MK_NO_DATA \<and> alert_metric_instance M a \<in> fst ` set data) active)"

lemma recover_no_data_rows:
  assumes "recover_no_data_alerts M p metric imap clock time active s = (r, t)"
  shows "rows (\<lambda>a b. unlogged b = unlogged (case tfind ma_id (ma_id a) (rev (came_back M p metric imap time active)) of
      None \<Rightarrow> a | Some x \<Rightarrow> as_recovered time x a)) s t"
proof -
  let ?as = "came_back M p metric imap time active"
  have t: "t = recover_alerts M p clock time ?as s"
    using assms by (auto simp: recover_no_data_alerts_def came_back_def recover_alerts_def split: if_splits sum.splits)
  show ?thesis
  proof (cases "?as = []")
    case True
    then show ?thesis by (simp add: t recover_alerts_def tfind_def rows_refl)
  next
    case False
    then show ?thesis
      by (simp only: t recover_alerts_def write_recovered_rows if_False) (rule notices_end[OF notify_rows])
  qed
qed

definition collect_row ::
  "policy \<Rightarrow> int \<Rightarrow> monitor_alert list \<Rightarrow> (nat set \<times> nat set) option \<Rightarrow> nat set \<Rightarrow> monitor_alert \<Rightarrow> monitor_alert" where
  "collect_row p time active thr backs a =
     (if ma_id a \<in> backs then recovered time a
      else case thr of None \<Rightarrow> a
        | Some (hits, quiets) \<Rightarrow> threshold_row p time (watched_ids MK_ALERT active) hits quiets a)"

lemma unlogged_recovered:
  assumes "unlogged x = unlogged a"
  shows "unlogged (as_recovered time a x) = unlogged (recovered time a)"
proof -
  have "unlogged (as_recovered time a x) = unlogged (as_recovered time a (unlogged x))" by (simp add: as_recovered_def unlogged_def)
  also have "\<dots> = unlogged (as_recovered time a (unlogged a))" by (simp only: assms)
  also have "\<dots> = unlogged (recovered time a)" by (simp add: as_recovered_def recovered_def unlogged_def)
  finally show ?thesis .
qed

lemma no_data_after_threshold:
  assumes keyed: "keyed ma_id (md_alerts s)" and active: "set active \<subseteq> set (md_alerts s)"
    and st: "rows (\<lambda>a b. unlogged b = unlogged (collect_row p time active thr {} a)) s t"
    and thr: "\<And>hits quiets. thr = Some (hits, quiets) \<Longrightarrow> hits \<union> quiets \<subseteq> watched_ids MK_ALERT active"
    and tu: "recover_no_data_alerts M p metric imap clock time active t = (r, u)"
  shows "rows (\<lambda>a b. unlogged b = unlogged (collect_row p time active thr (ma_id ` set (came_back M p metric imap time active)) a)) s u"
proof -
  let ?as = "came_back M p metric imap time active"
  have as: "set ?as \<subseteq> {a \<in> set active. ma_kind a = MK_NO_DATA}"
    by (auto simp: came_back_def split: if_splits sum.splits)
  have R: "unlogged c = unlogged (collect_row p time active thr (ma_id ` set ?as) a)"
    if a: "a \<in> set (md_alerts s)" and ab: "unlogged b = unlogged (collect_row p time active thr {} a)"
      and bc: "unlogged c = unlogged (case tfind ma_id (ma_id b) (rev ?as) of None \<Rightarrow> b | Some x \<Rightarrow> as_recovered time x b)" for a b c
  proof -
    have id: "ma_id (collect_row p time active thr {} a) = ma_id a"
      by (auto simp: collect_row_def threshold_row_def counted_def recovered_def Let_def split: option.splits)
    then have b: "ma_id b = ma_id a" using unlogged_fields(1)[OF ab] by simp
    show ?thesis
    proof (cases "tfind ma_id (ma_id b) (rev ?as)")
      case None
      then have "ma_id a \<notin> ma_id ` set ?as" by (simp add: tfind_None b)
      with None bc ab show ?thesis by (simp add: collect_row_def)
    next
      case (Some x)
      then have x: "x \<in> set ?as" "ma_id x = ma_id a" using tfind_in tfind_key b by fastforce+
      then have xa: "x = a" using as active keyed_inj[OF keyed _ a] by blast
      with x(1) as have k: "ma_kind a = MK_NO_DATA" by auto
      have "ma_id a \<notin> watched_ids MK_ALERT active"
        using k active keyed_inj[OF keyed _ a] by (fastforce simp: watched_ids_def)
      moreover from this thr have "counted hits quiets a = a" if "thr = Some (hits, quiets)" for hits quiets
        using that by (auto simp: counted_def)
      ultimately have "collect_row p time active thr {} a = a"
        by (auto simp: collect_row_def threshold_row_def Let_def split: option.splits)
      with ab bc Some xa x(1) show ?thesis by (auto simp: collect_row_def unlogged_recovered)
    qed
  qed
  from st recover_no_data_rows[OF tu] show ?thesis by (rule rows_trans_in) (rule R)
qed
text \<open>The two halves of the detection, whether they end with an exception or not.\<close>

definition detection ::
  "monitor_env \<Rightarrow> policy \<Rightarrow> metric option \<Rightarrow> scan_context \<Rightarrow> int \<Rightarrow>
   (found_event list \<times> found_event list \<times> found_event list) res \<Rightarrow> (nat set \<times> nat set) option \<Rightarrow> nat set \<Rightarrow> bool" where
  "detection M p metric X time r thr backs \<longleftrightarrow>
     backs \<subseteq> watched_ids MK_NO_DATA (sx_active X) \<and>
     (\<forall>hits quiets. thr = Some (hits, quiets) \<longrightarrow> hits \<union> quiets \<subseteq> watched_ids MK_ALERT (sx_active X)) \<and>
     (\<forall>alerts infos missing. r = Inr (alerts, infos, missing) \<longrightarrow>
        (if ''threshold'' \<in> set (mp_enable_alerts p)
         then detect_threshold_alerts M p metric (sx_instances X) time = Inr (alerts, infos) \<and>
           thr = Some (counted_alerts M (sx_active X) alerts, counted_alerts M (sx_active X) infos)
         else alerts = [] \<and> infos = [] \<and> thr = None) \<and>
        (if ''no_data'' \<in> set (mp_enable_alerts p)
         then detect_no_data_alerts M p metric (sx_baselines X) (sx_instances X) time = Inr missing \<and>
           backs = ma_id ` set (came_back M p metric (sx_instances X) time (sx_active X))
         else missing = [] \<and> backs = {}))"

lemma came_back_watched: "ma_id ` set (came_back M p metric imap time active) \<subseteq> watched_ids MK_NO_DATA active"
  by (auto simp: came_back_def watched_ids_def split: if_splits sum.splits)

lemma threshold_half:
  assumes keyed: "keyed ma_id (md_alerts s)"
    and r: "(if ''threshold'' \<in> set (mp_enable_alerts p) then process_threshold_alerts M p metric X clock time s else (Inr ([], []), s)) = (r, t)"
  obtains thr where "rows (\<lambda>a b. unlogged b = unlogged (collect_row p time (sx_active X) thr {} a)) s t"
    "\<And>hits quiets. thr = Some (hits, quiets) \<Longrightarrow> hits \<union> quiets \<subseteq> watched_ids MK_ALERT (sx_active X)"
    "\<And>alerts infos. r = Inr (alerts, infos) \<Longrightarrow>
        (if ''threshold'' \<in> set (mp_enable_alerts p)
         then detect_threshold_alerts M p metric (sx_instances X) time = Inr (alerts, infos) \<and>
           thr = Some (counted_alerts M (sx_active X) alerts, counted_alerts M (sx_active X) infos)
         else alerts = [] \<and> infos = [] \<and> thr = None)"
proof (cases "''threshold'' \<in> set (mp_enable_alerts p) \<and> \<not> isl r")
  case True
  then obtain alerts infos where a: "r = Inr (alerts, infos)" by (cases r) auto
  with True r have pr: "process_threshold_alerts M p metric X clock time s = (Inr (alerts, infos), t)" by simp
  then have d: "detect_threshold_alerts M p metric (sx_instances X) time = Inr (alerts, infos)"
    by (auto simp: process_threshold_alerts_def split: sum.splits)
  let ?thr = "Some (counted_alerts M (sx_active X) alerts, counted_alerts M (sx_active X) infos)"
  show thesis
  proof (rule that[of ?thr])
    show "rows (\<lambda>a b. unlogged b = unlogged (collect_row p time (sx_active X) ?thr {} a)) s t"
      using process_threshold_rows[OF keyed pr] by (simp add: collect_row_def)
    show "hits \<union> quiets \<subseteq> watched_ids MK_ALERT (sx_active X)" if "?thr = Some (hits, quiets)" for hits quiets
      using that counted_alerts_watched[of M "sx_active X"] by auto
  qed (use True a d in auto)
next
  case False
  then have "t = s" using r by (auto simp: process_threshold_alerts_def split: if_splits sum.splits)
  moreover have "r = Inr (alerts, infos) \<Longrightarrow> ''threshold'' \<notin> set (mp_enable_alerts p) \<and> alerts = [] \<and> infos = []" for alerts infos
    using False r by (auto split: if_splits)
  ultimately show thesis using that[of None] by (auto simp: collect_row_def intro: rows_refl)
qed

lemma collect_rows:
  assumes keyed: "keyed ma_id (md_alerts s)" and active: "set (sx_active X) \<subseteq> set (md_alerts s)"
    and c: "collect_events M p metric X clock time s = (r, u)"
  obtains thr backs where "rows (\<lambda>a b. unlogged b = unlogged (collect_row p time (sx_active X) thr backs a)) s u"
    "detection M p metric X time r thr backs"
proof -
  let ?th = "if ''threshold'' \<in> set (mp_enable_alerts p) then process_threshold_alerts M p metric X clock time s else (Inr ([], []), s)"
  obtain q t where t: "?th = (q, t)" by fastforce
  from threshold_half[OF keyed t] obtain thr where
    st: "rows (\<lambda>a b. unlogged b = unlogged (collect_row p time (sx_active X) thr {} a)) s t" and
    sub: "\<And>hits quiets. thr = Some (hits, quiets) \<Longrightarrow> hits \<union> quiets \<subseteq> watched_ids MK_ALERT (sx_active X)" and
    th: "\<And>alerts infos. q = Inr (alerts, infos) \<Longrightarrow>
        (if ''threshold'' \<in> set (mp_enable_alerts p)
         then detect_threshold_alerts M p metric (sx_instances X) time = Inr (alerts, infos) \<and>
           thr = Some (counted_alerts M (sx_active X) alerts, counted_alerts M (sx_active X) infos)
         else alerts = [] \<and> infos = [] \<and> thr = None)" by blast
  show thesis
  proof (cases "u = t \<and> (isl r \<or> ''no_data'' \<notin> set (mp_enable_alerts p))")
    case True
    have "detection M p metric X time r thr {}"
      using sub th c True by (auto simp: detection_def collect_events_def t split: sum.splits if_splits)
    with st True that show thesis by blast
  next
    case False
    then obtain v where nd: "\<not> isl q" "''no_data'' \<in> set (mp_enable_alerts p)"
      "recover_no_data_alerts M p metric (sx_instances X) clock time (sx_active X) t = (v, u)"
      using c by (auto simp: collect_events_def t process_no_data_alerts_def split: sum.splits if_splits prod.splits)
    have "detection M p metric X time r thr (ma_id ` set (came_back M p metric (sx_instances X) time (sx_active X)))"
      using sub th c nd came_back_watched
      by (auto simp: detection_def collect_events_def t process_no_data_alerts_def split: sum.splits if_splits prod.splits)
    with no_data_after_threshold[OF keyed active st sub nd(3)] that show thesis by blast
  qed
qed
section \<open>New alerts and higher levels\<close>

lemma create_alerts_shape:
  assumes "create_alerts p imap time es s = (as, t)" "keyed ma_id (md_alerts s)"
  shows "t = s\<lparr>md_alerts := md_alerts s @ as\<rparr>" "list_all2 (\<lambda>e a. \<exists>k. a = new_monitor_alert p imap time k e) es as"
    "keyed ma_id (md_alerts s @ as)"
proof -
  have "t = s\<lparr>md_alerts := md_alerts s @ as\<rparr> \<and> list_all2 (\<lambda>e a. \<exists>k. a = new_monitor_alert p imap time k e) es as \<and>
      keyed ma_id (md_alerts s @ as)"
    using assms
  proof (induction es arbitrary: s as t)
    case (Cons e es)
    let ?a = "new_monitor_alert p imap time (next_key ma_id (md_alerts s)) e"
    obtain bs u where u: "create_alerts p imap time es (s\<lparr>md_alerts := md_alerts s @ [?a]\<rparr>) = (bs, u)" by fastforce
    have "keyed ma_id (md_alerts s @ [?a])"
      using Cons.prems(2) next_key_fresh[of ma_id "md_alerts s"] by (auto simp: keyed_def new_monitor_alert_def)
    with Cons.IH[OF u] Cons.prems(1) u show ?case by (auto simp: Let_def)
  qed auto
  then show "t = s\<lparr>md_alerts := md_alerts s @ as\<rparr>" "list_all2 (\<lambda>e a. \<exists>k. a = new_monitor_alert p imap time k e) es as"
    "keyed ma_id (md_alerts s @ as)" by blast+
qed

lemma upgrade_alerts_from:
  "b \<in> set (upgrade_alerts es) \<Longrightarrow>
   \<exists>e a. (e, a) \<in> set es \<and> ma_id b = ma_id a \<and> fe_level e \<noteq> ''no_data'' \<and> level_weight (ma_level a) < level_weight (ma_level b)"
proof (induction es rule: upgrade_alerts.induct)
  case (2 e a es)
  show ?case
  proof (cases "upgraded_by e a")
    case False
    with 2 show ?thesis by fastforce
  next
    case True
    let ?es = "map (\<lambda>(f, b). (f, if ma_id b = ma_id a then upgrade e a else b)) es"
    have up: "fe_level e \<noteq> ''no_data''" "level_weight (ma_level a) < level_weight (ma_level (upgrade e a))"
      "ma_id (upgrade e a) = ma_id a"
      using True by (simp_all add: upgraded_by_def upgrade_def)
    from 2(3) True consider "b = upgrade e a" | "b \<in> set (upgrade_alerts ?es)" by auto
    then show ?thesis
    proof cases
      case 1
      with up show ?thesis by auto
    next
      case 2
      from "2.IH"(1)[OF True 2] obtain f c where c: "(f, c) \<in> set ?es" "ma_id b = ma_id c" "fe_level f \<noteq> ''no_data''"
        "level_weight (ma_level c) < level_weight (ma_level b)" by blast
      from c(1) obtain d where d: "(f, d) \<in> set es" "c = (if ma_id d = ma_id a then upgrade e a else d)" by auto
      show ?thesis
      proof (cases "ma_id d = ma_id a")
        case True
        with c d up have "ma_id b = ma_id a" "level_weight (ma_level a) < level_weight (ma_level b)" by auto
        with up(1) show ?thesis by auto
      next
        case False
        with c d show ?thesis by auto
      qed
    qed
  qed
qed simp

lemma update_existing_from:
  assumes "b \<in> set (update_existing_alerts es)"
  obtains e a where "(e, a) \<in> set es" "ma_id b = ma_id a" "fe_level e \<noteq> ''no_data''"
    "level_weight (ma_level a) < level_weight (ma_level b)"
proof -
  let ?as = "upgrade_alerts es"
  from assms obtain c where c: "c \<in> set ?as" "b = (case tfind ma_id (ma_id c) (rev ?as) of None \<Rightarrow> c | Some b \<Rightarrow> b)"
    by (auto simp: update_existing_alerts_def Let_def)
  then have "b \<in> set ?as" by (auto split: option.splits dest: tfind_in)
  from upgrade_alerts_from[OF this] that show thesis by blast
qed

text \<open>The known events of a scan with their alerts, and what the rows of those become.\<close>

definition known_events :: "monitor_env \<Rightarrow> monitor_alert list \<Rightarrow> found_event list \<Rightarrow> (found_event \<times> monitor_alert) list" where
  "known_events M active es = concat (map (\<lambda>e. case alert_of_event M active e of None \<Rightarrow> [] | Some a \<Rightarrow> [(e, a)]) es)"

definition fresh_events :: "monitor_env \<Rightarrow> monitor_alert list \<Rightarrow> found_event list \<Rightarrow> found_event list" where
  "fresh_events M active es = filter (\<lambda>e. alert_of_event M active e = None) es"

lemma known_events_set: "(e, a) \<in> set (known_events M active es) \<longleftrightarrow> e \<in> set es \<and> alert_of_event M active e = Some a"
  by (induction es) (auto simp: known_events_def split: option.splits)

definition upgraded_row :: "monitor_alert list \<Rightarrow> monitor_alert \<Rightarrow> monitor_alert" where
  "upgraded_row up a = (case tfind ma_id (ma_id a) (rev up) of None \<Rightarrow> a | Some x \<Rightarrow> as_upgraded x a)"

definition appended :: "(monitor_alert \<Rightarrow> monitor_alert \<Rightarrow> bool) \<Rightarrow> monitor_alert list \<Rightarrow> monitor_db \<Rightarrow> monitor_db \<Rightarrow> bool" where
  "appended R created s t \<longleftrightarrow>
     (\<exists>as new. md_alerts t = as @ new \<and> list_all2 R (md_alerts s) as \<and> list_all2 notices_only created new)"

definition same_config :: "monitor_db \<Rightarrow> monitor_db \<Rightarrow> bool" where
  "same_config s t \<longleftrightarrow> md_policies t = md_policies s \<and> md_metrics t = md_metrics s \<and> md_instances t = md_instances s \<and>
     md_instance_orgs t = md_instance_orgs s \<and> md_channels t = md_channels s"

lemma same_config_refl [simp]: "same_config s s"
  by (simp add: same_config_def)

lemma same_config_trans: "same_config s t \<Longrightarrow> same_config t u \<Longrightarrow> same_config s u"
  by (simp add: same_config_def)

lemma rows_config: "rows R s t \<Longrightarrow> same_config s t"
  by (simp add: same_config_def rows_frame)

lemma appended_rows: "rows notices_only (s\<lparr>md_alerts := map g (md_alerts s) @ created, md_events := ev, md_raw := raw\<rparr>) t \<Longrightarrow>
    appended (\<lambda>a b. unlogged b = unlogged (g a)) created s t"
  by (drule rows_list) (fastforce simp: appended_def list_all2_append1 list_all2_map1 notices_only_def)

text \<open>The stage that stores events: rows of known alerts are raised, new alerts follow.\<close>

lemma create_stage:
  assumes keyed: "keyed ma_id (md_alerts s)" and active: "ma_id ` set active \<subseteq> ma_id ` set (md_alerts s)"
    and c: "create_events_and_alerts M p imap clock time uid active es s = ((evs, created), t)"
  defines "up \<equiv> update_existing_alerts (known_events M active es)"
  shows "appended (\<lambda>a b. unlogged b = unlogged (upgraded_row up a)) created s t"
    "list_all2 (\<lambda>e a. \<exists>k. a = new_monitor_alert p imap time k e) (fresh_events M active es) created"
    "keyed ma_id (md_alerts s @ created)" "same_config s t" "md_baselines t = md_baselines s"
    "md_snapshots t = md_snapshots s" "md_events t = md_events s @ evs"
proof -
  have up_ids: "ma_id ` set up \<subseteq> ma_id ` set (md_alerts s)"
  proof
    fix i assume "i \<in> ma_id ` set up"
    then obtain b where b: "b \<in> set up" "i = ma_id b" by auto
    from b(1)[unfolded up_def] obtain e a where "(e, a) \<in> set (known_events M active es)" "ma_id b = ma_id a"
      by (rule update_existing_from)
    then show "i \<in> ma_id ` set (md_alerts s)" using active b(2) by (auto simp: known_events_set dest: alert_of_event_in)
  qed
  have all: "appended (\<lambda>a b. unlogged b = unlogged (upgraded_row up a)) created s t \<and>
    list_all2 (\<lambda>e a. \<exists>k. a = new_monitor_alert p imap time k e) (fresh_events M active es) created \<and>
    keyed ma_id (md_alerts s @ created) \<and> same_config s t \<and> md_baselines t = md_baselines s \<and>
    md_snapshots t = md_snapshots s \<and> md_events t = md_events s @ evs"
  proof (cases "es = []")
    case True
    have "upgraded_row up a = a" for a using True by (simp add: up_def known_events_def update_existing_alerts_def upgraded_row_def tfind_def)
    then show ?thesis using c True keyed
      by (auto simp: create_events_and_alerts_def appended_def fresh_events_def list_all2_conv_all_nth intro!: exI[of _ "md_alerts s"])
  next
    case False
    obtain as s1 where s1: "create_alerts p imap time (fresh_events M active es) s = (as, s1)" by fastforce
    note shape = create_alerts_shape[OF s1 keyed]
    let ?owner = "\<lambda>e. find (\<lambda>a. ma_metric_instance a = fe_metric_instance e \<and> ma_kind a = event_kind e) (rev as)"
    let ?valid = "concat (map (\<lambda>e. case ?owner e of None \<Rightarrow> [] | Some a \<Rightarrow> [(e, ma_id a)]) (fresh_events M active es)) @
        map (\<lambda>(e, a). (e, ma_id a)) (known_events M active es)"
    obtain rs s2 where s2: "create_monitor_events p time uid ?valid s1 = (rs, s2)" by fastforce
    from c False s1 s2 have r: "rs = evs" "as = created" "schedule_notifications M p clock as up (write_upgraded up s2) = t"
      unfolding create_events_and_alerts_def Let_def fresh_events_def known_events_def up_def by auto
    then have r: "evs = rs" "created = as" "t = schedule_notifications M p clock as up (write_upgraded up s2)"
      by simp_all
    from s2 obtain raw where raw: "s2 = s1\<lparr>md_events := md_events s1 @ rs, md_raw := raw\<rparr>"
      by (auto simp: create_monitor_events_def Let_def)
    have "upgraded_row up a = a" if "a \<in> set as" for a
    proof -
      have "ma_id a \<notin> ma_id ` set (rev up)" using that up_ids shape(3) by (auto simp: keyed_def)
      then have "tfind ma_id (ma_id a) (rev up) = None" by (simp only: tfind_None) simp
      then show ?thesis by (simp add: upgraded_row_def)
    qed
    then have "map (upgraded_row up) as = as" by (simp add: map_idI)
    then have w: "write_upgraded up s2 = s\<lparr>md_alerts := map (upgraded_row up) (md_alerts s) @ as, md_events := md_events s @ rs, md_raw := raw\<rparr>"
      by (simp add: write_upgraded_rows raw shape(1) upgraded_row_def[abs_def] comp_def)
    have "rows notices_only (write_upgraded up s2) t"
      by (simp add: r(3) schedule_notifications_def Let_def)
         (intro conjI impI rows_refl notices_only_refl rows_trans[OF notify_rows notify_rows notices_only_trans])
    then have n: "rows notices_only (s\<lparr>md_alerts := map (upgraded_row up) (md_alerts s) @ as, md_events := md_events s @ rs, md_raw := raw\<rparr>) t"
      by (simp only: w)
    show ?thesis
      using appended_rows[OF n] shape(2,3) rows_frame[OF n] r by (simp add: same_config_def)
  qed
  from all show "appended (\<lambda>a b. unlogged b = unlogged (upgraded_row up a)) created s t"
    "list_all2 (\<lambda>e a. \<exists>k. a = new_monitor_alert p imap time k e) (fresh_events M active es) created"
    "keyed ma_id (md_alerts s @ created)" "same_config s t" "md_baselines t = md_baselines s"
    "md_snapshots t = md_snapshots s" "md_events t = md_events s @ evs" by blast+
qed
section \<open>Evolution\<close>

text \<open>What may happen to an alert: its identity stays, it is never active again once it has ended, its
  log only grows, its level does not fall.\<close>

definition evolves :: "monitor_alert \<Rightarrow> monitor_alert \<Rightarrow> bool" where
  "evolves a b \<longleftrightarrow> ma_id b = ma_id a \<and> ma_policy b = ma_policy a \<and> ma_instance b = ma_instance a \<and>
     ma_metric_instance b = ma_metric_instance a \<and> ma_kind b = ma_kind a \<and> ma_start b = ma_start a \<and>
     (is_new b \<longrightarrow> is_new a) \<and> prefix (ma_operation_logs a) (ma_operation_logs b) \<and>
     level_weight (ma_level a) \<le> level_weight (ma_level b)"

lemma evolves_refl [simp]: "evolves a a"
  by (simp add: evolves_def)

lemma evolves_trans: "evolves a b \<Longrightarrow> evolves b c \<Longrightarrow> evolves a c"
  by (auto simp: evolves_def intro: prefix_order.trans)

lemma evolves_unlogged: "evolves a c \<Longrightarrow> unlogged b = unlogged c \<Longrightarrow> evolves a b"
  using unlogged_fields[of b c] by (simp add: evolves_def is_new_def)

lemma evolves_notices: "notices_only a b \<Longrightarrow> evolves a b"
  using evolves_unlogged[OF evolves_refl] by (simp add: notices_only_def)

lemma evolves_counted [simp]: "evolves a (counted hits quiets a)"
  by (simp add: counted_def evolves_def is_new_def)

lemma evolves_recovered [simp]: "evolves a (recovered time a)"
  by (simp add: recovered_def evolves_def is_new_def)

lemma evolves_collect [simp]: "evolves a (collect_row p time active thr backs a)"
  by (auto simp: collect_row_def threshold_row_def Let_def split: option.splits
      intro: evolves_trans[OF evolves_counted evolves_recovered])

lemma evolves_upgraded: "level_weight (ma_level a) \<le> level_weight (ma_level x) \<Longrightarrow> evolves a (as_upgraded x a)"
  by (simp add: as_upgraded_def evolves_def is_new_def)

lemma collect_row_fields [simp]:
  "ma_id (collect_row p time active thr backs a) = ma_id a" "ma_level (collect_row p time active thr backs a) = ma_level a"
  by (auto simp: collect_row_def threshold_row_def Let_def counted_def recovered_def split: option.splits)

lemma evolves_scanned:
  assumes "keyed ma_id (md_alerts s)" "set active \<subseteq> set (md_alerts s)" "a \<in> set (md_alerts s)"
    "unlogged b = unlogged (upgraded_row (update_existing_alerts (known_events M active es)) (collect_row p time active thr backs a))"
  shows "evolves a b"
proof (rule evolves_unlogged[OF _ assms(4)])
  let ?up = "update_existing_alerts (known_events M active es)"
  let ?c = "collect_row p time active thr backs a"
  show "evolves a (upgraded_row ?up ?c)"
  proof (cases "tfind ma_id (ma_id ?c) (rev ?up)")
    case None
    then show ?thesis by (simp add: upgraded_row_def)
  next
    case (Some x)
    then have x: "x \<in> set ?up" "ma_id x = ma_id a" using tfind_in tfind_key by fastforce+
    from x(1) obtain e d where d: "(e, d) \<in> set (known_events M active es)" "ma_id x = ma_id d"
      "level_weight (ma_level d) < level_weight (ma_level x)" by (rule update_existing_from)
    from d(1) have "d \<in> set active" by (auto simp: known_events_set dest: alert_of_event_in)
    then have "d = a" using keyed_inj[OF assms(1)] assms(2,3) d(2) x(2) by (metis subsetD)
    with d(3) have "evolves ?c (as_upgraded x ?c)" by (intro evolves_upgraded) simp
    with Some show ?thesis by (auto simp: upgraded_row_def intro: evolves_trans[OF evolves_collect])
  qed
qed

text \<open>A scan from outside: what it found, what became of the rows, and the rows it added.\<close>

record scan_report =
  rp_threshold :: "(nat set \<times> nat set) option"
  rp_back :: "nat set"
  rp_alerts :: "found_event list"
  rp_infos :: "found_event list"
  rp_missing :: "found_event list"
  rp_events :: "monitor_event list"
  rp_created :: "monitor_alert list"

definition scanned_row :: "monitor_env \<Rightarrow> policy \<Rightarrow> int \<Rightarrow> monitor_alert list \<Rightarrow> scan_report \<Rightarrow> monitor_alert \<Rightarrow> monitor_alert" where
  "scanned_row M p time active R a =
     upgraded_row (update_existing_alerts (known_events M active (rp_alerts R @ rp_missing R)))
       (collect_row p time active (rp_threshold R) (rp_back R) a)"

definition scan_effect :: "monitor_env \<Rightarrow> policy \<Rightarrow> int \<Rightarrow> monitor_db \<Rightarrow> unit res \<Rightarrow> monitor_db \<Rightarrow> scan_report \<Rightarrow> bool" where
  "scan_effect M p time s r t R \<longleftrightarrow>
     (let X = scan_context p s in
      appended (\<lambda>a b. unlogged b = unlogged (scanned_row M p time (sx_active X) R a)) (rp_created R) s t \<and>
      list_all2 (\<lambda>e a. \<exists>k. a = new_monitor_alert p (sx_instances X) time k e)
        (fresh_events M (sx_active X) (rp_alerts R @ rp_missing R)) (rp_created R) \<and>
      keyed ma_id (md_alerts s @ rp_created R) \<and> same_config s t \<and>
      md_events t = md_events s @ rp_events R \<and>
      md_baselines t = md_baselines (sync_baselines p X (rp_alerts R @ rp_infos R) s) \<and>
      (if r \<noteq> Inr () \<or> (mp_source p \<noteq> NoSource \<and> sx_instances X = [])
       then rp_alerts R = [] \<and> rp_infos R = [] \<and> rp_missing R = [] \<and>
         (\<exists>m q. detection M p m X time q (rp_threshold R) (rp_back R) \<or> rp_threshold R = None \<and> rp_back R = {})
       else \<exists>keys m. set_monitor_obj_instance_key p s = Inr (keys, m) \<and>
         detection M p m X time (Inr (rp_alerts R, rp_infos R, rp_missing R)) (rp_threshold R) (rp_back R)))"
lemma active_rows: "set (sx_active (scan_context p s)) \<subseteq> set (md_alerts s)"
  by (auto simp: scan_context_def get_active_alerts_def Let_def)

lemma idle_scan:
  assumes "keyed ma_id (md_alerts s)" "r \<noteq> Inr () \<or> (mp_source p \<noteq> NoSource \<and> sx_instances (scan_context p s) = [])"
    "rows (\<lambda>a b. unlogged b = unlogged (collect_row p time (sx_active (scan_context p s)) thr backs a)) s t"
    "detection M p m (scan_context p s) time q thr backs \<or> thr = None \<and> backs = {}"
  shows "scan_effect M p time s r t
    \<lparr>rp_threshold = thr, rp_back = backs, rp_alerts = [], rp_infos = [], rp_missing = [], rp_events = [], rp_created = []\<rparr>"
proof -
  have none: "upgraded_row (update_existing_alerts (known_events M active [])) = (\<lambda>a. a)" for active
    by (rule ext) (simp add: known_events_def update_existing_alerts_def upgraded_row_def tfind_def)
  have "sync_baselines p X [] s = s" for X
    by (simp add: sync_baselines_def found_instances_def baseline_sync_def)
  with assms none rows_list[OF assms(3)] rows_frame[OF assms(3)] rows_config[OF assms(3)] show ?thesis
    by (auto simp: scan_effect_def Let_def scanned_row_def fresh_events_def appended_def)
qed

lemma scan_snapshots_frame: "\<exists>sn. scan_snapshots M p m X clock time infos evs created w = w\<lparr>md_snapshots := sn\<rparr>"
proof -
  have "\<exists>sn. snd (record_snapshots M p m clock time rawmap evs fresh as w) = w\<lparr>md_snapshots := sn\<rparr>" for rawmap fresh as
    by (cases "record_snapshots M p m clock time rawmap evs fresh as w") (auto dest: record_snapshots_frame)
  then show ?thesis by (auto simp: scan_snapshots_def record_snapshots_for_active_alerts_def intro: exI[of _ "md_snapshots w"])
qed

lemma scan_run_effect:
  assumes keyed: "keyed ma_id (md_alerts s)" and run: "scan_run M clock uid p time s = (r, t)"
  obtains R where "scan_effect M p time s r t R"
proof -
  let ?X = "scan_context p s"
  have idle: thesis if "t = s" "r \<noteq> Inr () \<or> (mp_source p \<noteq> NoSource \<and> sx_instances ?X = [])"
    using idle_scan[OF keyed that(2), of time None "{}" t M undefined undefined] that(1) \<open>\<And>R. scan_effect M p time s r t R \<Longrightarrow> thesis\<close>
    by (simp add: collect_row_def rows_refl)
  show thesis
  proof (cases "mp_source p \<noteq> NoSource \<and> sx_instances ?X = []")
    case True
    with run idle show thesis by (simp add: scan_run_def Let_def)
  next
    case source: False
    show thesis
    proof (cases "set_monitor_obj_instance_key p s")
      case (Inl e)
      with source run have "t = s" "r \<noteq> Inr ()" by (auto simp: scan_run_def Let_def)
      with idle show thesis by blast
    next
      case (Inr km)
      then obtain keys m where m: "set_monitor_obj_instance_key p s = Inr (keys, m)" by (cases km) auto
      obtain q u where u: "collect_events M p m ?X clock time s = (q, u)" by fastforce
      from collect_rows[OF keyed active_rows u] obtain thr backs where
        c: "rows (\<lambda>a b. unlogged b = unlogged (collect_row p time (sx_active ?X) thr backs a)) s u"
          "detection M p m ?X time q thr backs" .
      show thesis
      proof (cases q)
        case (Inl e)
        with source run m u have "t = u" "r \<noteq> Inr ()" by (auto simp: scan_run_def Let_def)
        with idle_scan[OF keyed _ c(1) disjI1[OF c(2)]] that show thesis by blast
      next
        case (Inr x)
        then obtain alerts infos missing where q: "q = Inr (alerts, infos, missing)" by (cases x) auto
        let ?v = "sync_baselines p ?X (alerts @ infos) u"
        obtain evs created w where w: "create_events_and_alerts M p (sx_instances ?X) clock time uid (sx_active ?X)
            (alerts @ missing) ?v = ((evs, created), w)" by (metis prod.exhaust)
        have tw: "r = Inr ()" "t = scan_snapshots M p m ?X clock time infos evs created w"
          using source run m u q w by (auto simp: scan_run_def Let_def)
        have v: "md_alerts ?v = md_alerts u" "same_config u ?v" "md_events ?v = md_events u"
          "md_baselines ?v = md_baselines (sync_baselines p ?X (alerts @ infos) s)"
          using rows_frame[OF c(1)]
          by (auto simp: sync_baselines_def baseline_sync_def same_config_def policy_baselines_def)
        from scan_snapshots_frame obtain sn where t: "t = w\<lparr>md_snapshots := sn\<rparr>" unfolding tw(2) by blast
        have ids: "map ma_id (md_alerts u) = map ma_id (md_alerts s)"
          by (rule rows_map, rule rows_mono[OF c(1)]) (drule unlogged_fields(1), simp)
        then have ku: "keyed ma_id (md_alerts ?v)" using keyed by (simp add: keyed_def v(1))
        have act: "ma_id ` set (sx_active ?X) \<subseteq> ma_id ` set (md_alerts ?v)"
        proof -
          have "ma_id ` set (md_alerts u) = ma_id ` set (md_alerts s)" using ids by (metis list.set_map)
          with active_rows[of p s] show ?thesis by (auto simp: v(1))
        qed
        note create = create_stage[OF ku act w]
        let ?R = "\<lparr>rp_threshold = thr, rp_back = backs, rp_alerts = alerts, rp_infos = infos, rp_missing = missing,
          rp_events = evs, rp_created = created\<rparr>"
        have app: "appended (\<lambda>a b. unlogged b = unlogged (scanned_row M p time (sx_active ?X) ?R a)) created s t"
        proof -
          let ?up = "update_existing_alerts (known_events M (sx_active ?X) (alerts @ missing))"
          have same: "unlogged (upgraded_row ?up b) = unlogged (upgraded_row ?up a)" if "unlogged b = unlogged a" for a b
          proof -
            have "unlogged (upgraded_row ?up a) = unlogged (upgraded_row ?up (unlogged a))" for a
              by (simp add: upgraded_row_def as_upgraded_def unlogged_def split: option.splits)
            from this[of a] this[of b] that show ?thesis by simp
          qed
          from create(1) obtain as new where a: "md_alerts t = as @ new" "list_all2 notices_only created new"
            "list_all2 (\<lambda>a b. unlogged b = unlogged (upgraded_row ?up a)) (md_alerts u) as"
            by (auto simp: appended_def t v(1))
          have "list_all2 (\<lambda>a b. unlogged b = unlogged (scanned_row M p time (sx_active ?X) ?R a)) (md_alerts s) as"
            by (rule list_all2_trans[OF _ rows_list[OF c(1)] a(3)]) (drule same, simp add: scanned_row_def)
          with a(1,2) show ?thesis by (auto simp: appended_def)
        qed
        have "keyed ma_id (md_alerts s @ created)" using create(3) ids by (simp add: keyed_def v(1))
        then have kc: "keyed ma_id (md_alerts s @ rp_created ?R)" by simp
        have cfg: "same_config s t" "md_events t = md_events s @ rp_events ?R"
          "md_baselines t = md_baselines (sync_baselines p ?X (rp_alerts ?R @ rp_infos ?R) s)"
          using create(4,5,7) v(2-4) rows_config[OF c(1)] rows_frame(5)[OF c(1)] by (simp_all add: t same_config_def)
        have fresh: "list_all2 (\<lambda>e a. \<exists>k. a = new_monitor_alert p (sx_instances ?X) time k e)
            (fresh_events M (sx_active ?X) (rp_alerts ?R @ rp_missing ?R)) (rp_created ?R)"
          using create(2) by simp
        have det: "detection M p m ?X time (Inr (rp_alerts ?R, rp_infos ?R, rp_missing ?R)) (rp_threshold ?R) (rp_back ?R)"
          using c(2) q by simp
        have "scan_effect M p time s r t ?R"
          unfolding scan_effect_def Let_def using app fresh kc cfg det m source tw(1) by simp blast
        then show thesis by (rule that)
      qed
    qed
  qed
qed


end
