(* ===== verification/Monitor_Events.thy ===== *)
theory Monitor_Events
  imports Monitor_Detect
begin

text \<open>
  What the detection finds: exactly the series with enough values give an event, of the highest level
  whose threshold all of the last values satisfy; exactly the known metric instances without a series
  give a no-data event. Different events of a kind belong to different metric instances.
\<close>

section \<open>Metric instances\<close>

text \<open>A metric instance and its monitored instance: the texts of a tuple and of its first label.\<close>

definition link :: "monitor_env \<Rightarrow> string \<Rightarrow> string \<Rightarrow> bool" where
  "link M key inst \<longleftrightarrow> (\<exists>t. t \<noteq> [] \<and> key = mo_str M t \<and> inst = mo_str M [hd t])"

text \<open>The metric store gives one series for each combination of the labels in \<open>by\<close>.\<close>

definition store_ok :: "monitor_env \<Rightarrow> bool" where
  "store_ok M \<longleftrightarrow> (\<forall>p query start stop step rs.
     run_method M (mp_algorithm p) query start stop step (join_texts '','' (mp_group_by p)) (mp_group_algorithm p) = Inr rs \<longrightarrow>
     distinct (map (group_tuple p) rs))"

lemma tuples_okD:
  assumes "tuples_ok M"
  shows "mo_str M t = mo_str M u \<longleftrightarrow> t = u" "mo_str M t \<noteq> []"
    "mo_eval M (mo_str M t) = (if L_nan \<in> set t then Lit_error else Lit_tuple t)"
  using assms by (auto simp: tuples_ok_def inj_eq)

lemma link_unique: "tuples_ok M \<Longrightarrow> link M key i \<Longrightarrow> link M key j \<Longrightarrow> i = j"
  by (auto simp: link_def tuples_okD(1))

lemma link_nonempty: "tuples_ok M \<Longrightarrow> link M key i \<Longrightarrow> key \<noteq> [] \<and> i \<noteq> []"
  by (auto simp: link_def tuples_okD(2))

lemma link_tuple: "t \<noteq> [] \<Longrightarrow> link M (mo_str M t) (tuple_instance M t)"
  by (cases t) (auto simp: link_def tuple_instance_def intro!: exI[of _ "t"])

lemma link_instance: "t \<noteq> [] \<Longrightarrow> link M (mo_str M t) (instance_of_tuple M t)"
  by (cases t) (auto simp: link_def instance_of_tuple_def intro!: exI[of _ "t"])

text \<open>Whatever a query finds, it has labels to group by.\<close>

lemma run_method_group: "run_method M a q start stop step g h = Inr rs \<Longrightarrow> g \<noteq> []"
  by (auto simp: run_method_def build_policy_query_def rbind_Inr split: if_splits)

lemma query_group: "query_aggregation_metrics M p metric time d n = Inr rs \<Longrightarrow> mp_group_by p \<noteq> []"
  by (auto simp: query_aggregation_metrics_def rbind_Inr Let_def dest!: run_method_group)

lemma query_distinct:
  "store_ok M \<Longrightarrow> query_aggregation_metrics M p metric time d n = Inr rs \<Longrightarrow> distinct (map (group_tuple p) rs)"
  by (auto simp: query_aggregation_metrics_def rbind_Inr Let_def store_ok_def)

lemma convert_series_metric: "map sr_metric (convert_series M u v rs) = map sr_metric rs"
  by (induction rs) (auto split: sum.splits)

lemma convert_metric: "map sr_metric (convert_metric_values M p rs) = map sr_metric rs"
  by (simp add: convert_metric_values_def convert_series_metric)

lemma group_tuple_metric: "map (group_tuple p) rs = map (\<lambda>m. map (\<lambda>k. case map_of m k of Some v \<Rightarrow> L_str v | None \<Rightarrow> L_none) (mp_group_by p)) (map sr_metric rs)"
  by (simp add: group_tuple_def)

lemma frame_rows:
  assumes "vm_to_dataframe keys rs = Inr rows" "keys \<noteq> []"
  shows "\<exists>cols. rows = map (\<lambda>r. (map (cell r) cols, r)) rs \<and> set cols = {k \<in> set keys. list_ex (has_label k) rs} \<and>
    (rs \<noteq> [] \<longrightarrow> cols \<noteq> [])"
  using assms by (auto simp: vm_to_dataframe_def Let_def split: if_splits)

lemma frame_distinct:
  assumes "vm_to_dataframe (mp_group_by p) rs = Inr rows" "mp_group_by p \<noteq> []" "distinct (map (group_tuple p) rs)"
  shows "distinct (map fst rows) \<and> (\<forall>row \<in> set rows. fst row \<noteq> [])"
proof -
  from frame_rows[OF assms(1,2)] obtain cols where
    rows: "rows = map (\<lambda>r. (map (cell r) cols, r)) rs" and cols: "set cols = {k \<in> set (mp_group_by p). list_ex (has_label k) rs}"
    and ne: "rs \<noteq> [] \<longrightarrow> cols \<noteq> []" by blast
  have same: "group_tuple p r = group_tuple p r'"
    if "r \<in> set rs" "r' \<in> set rs" "map (cell r) cols = map (cell r') cols" for r r'
    unfolding group_tuple_def
  proof (rule map_cong[OF refl])
    fix k assume k: "k \<in> set (mp_group_by p)"
    show "(case map_of (sr_metric r) k of Some v \<Rightarrow> L_str v | None \<Rightarrow> L_none) =
        (case map_of (sr_metric r') k of Some v \<Rightarrow> L_str v | None \<Rightarrow> L_none)"
    proof (cases "k \<in> set cols")
      case True
      then have "cell r k = cell r' k" using that(3) by (simp add: map_eq_conv)
      then show ?thesis by (auto simp: cell_def split: option.splits)
    next
      case False
      then have "\<not> has_label k r" "\<not> has_label k r'" using k that(1,2) by (auto simp: cols list_ex_iff)
      then have "map_of (sr_metric r) k = None" "map_of (sr_metric r') k = None"
        by (simp_all add: has_label_def map_of_eq_None_iff)
      then show ?thesis by simp
    qed
  qed
  have "inj_on (\<lambda>r. map (cell r) cols) (set rs)"
    using assms(3) same unfolding distinct_map inj_on_def by blast
  then have "distinct (map (\<lambda>r. map (cell r) cols) rs)"
    using assms(3) by (simp add: distinct_map)
  moreover have "\<forall>row \<in> set rows. fst row \<noteq> []" using ne by (cases rs) (auto simp: rows)
  ultimately show ?thesis by (simp add: rows comp_def)
qed

section \<open>Thresholds\<close>

definition fits :: "monitor_env \<Rightarrow> threshold \<Rightarrow> (int \<times> string) list \<Rightarrow> bool" where
  "fits M th vs \<longleftrightarrow> (\<exists>f. threshold_method (th_method th) = Some f \<and>
     (\<forall>tx \<in> set vs. \<exists>v. mo_float M (snd tx) = Inr v \<and> f v (th_value th)))"

lemma all_satisfy_iff: "all_satisfy M f limit vs = Inr b \<Longrightarrow> b \<longleftrightarrow> (\<forall>tx \<in> set vs. \<exists>v. mo_float M (snd tx) = Inr v \<and> f v limit)"
  by (induction M f limit vs rule: all_satisfy.induct) (auto simp: rbind_Inr split: if_splits)

lemma first_threshold_spec:
  assumes "first_threshold M ths vs = Inr hit"
  shows "case hit of None \<Rightarrow> \<forall>th \<in> set ths. \<not> fits M th vs
     | Some th \<Rightarrow> \<exists>xs ys. ths = xs @ th # ys \<and> fits M th vs \<and> (\<forall>x \<in> set xs. \<not> fits M x vs)"
  using assms
proof (induction M ths vs rule: first_threshold.induct)
  case (2 M th ths vs)
  from "2.prems" obtain f where f: "threshold_method (th_method th) = Some f" by (cases "threshold_method (th_method th)") auto
  with "2.prems" obtain ok where ok: "all_satisfy M f (th_value th) vs = Inr ok"
    "(if ok then Inr (Some th) else first_threshold M ths vs) = Inr hit"
    by (auto simp: rbind_Inr)
  have fit: "fits M th vs \<longleftrightarrow> ok" using all_satisfy_iff[OF ok(1)] f by (auto simp: fits_def)
  show ?case
  proof (cases ok)
    case True
    with ok(2) have "hit = Some th" by simp
    moreover have "th # ths = [] @ th # ths \<and> fits M th vs \<and> (\<forall>x \<in> set []. \<not> fits M x vs)" using fit True by simp
    ultimately show ?thesis by (simp only: option.case) blast
  next
    case False
    with ok have r: "first_threshold M ths vs = Inr hit" by simp
    show ?thesis
    proof (cases hit)
      case None
      then show ?thesis using "2.IH"[OF f False r] fit False by simp
    next
      case (Some x)
      with "2.IH"[OF f False r] obtain xs ys where "ths = xs @ x # ys" "fits M x vs" "\<forall>x \<in> set xs. \<not> fits M x vs" by auto
      then have "th # ths = (th # xs) @ x # ys \<and> fits M x vs \<and> (\<forall>x \<in> set (th # xs). \<not> fits M x vs)" using fit False by simp
      then show ?thesis using Some by (simp only: option.case) blast
    qed
  qed
qed simp

text \<open>The threshold of an event: it fits, and no other that fits weighs more.\<close>

definition highest_fit :: "monitor_env \<Rightarrow> threshold list \<Rightarrow> (int \<times> string) list \<Rightarrow> threshold \<Rightarrow> bool" where
  "highest_fit M ths vs th \<longleftrightarrow> th \<in> set ths \<and> fits M th vs \<and>
     (\<forall>x \<in> set ths. fits M x vs \<longrightarrow> level_weight (th_level x) \<le> level_weight (th_level th))"

lemma sorted_hit:
  assumes "first_threshold M (sorted_thresholds ths) vs = Inr hit"
  shows "case hit of None \<Rightarrow> \<forall>th \<in> set ths. \<not> fits M th vs | Some th \<Rightarrow> highest_fit M ths vs th"
proof (cases hit)
  case None
  then show ?thesis using first_threshold_spec[OF assms] by (simp add: sorted_thresholds_def)
next
  case (Some th)
  with first_threshold_spec[OF assms] obtain xs ys where s: "sorted_thresholds ths = xs @ th # ys" "fits M th vs"
    "\<forall>x \<in> set xs. \<not> fits M x vs" by auto
  have "sorted (map (\<lambda>th. - level_weight (th_level th)) (xs @ th # ys))"
    unfolding s(1)[symmetric] sorted_thresholds_def by simp
  then have "\<forall>x \<in> set ys. level_weight (th_level x) \<le> level_weight (th_level th)" by (auto simp: sorted_append)
  moreover have "set ths = set (xs @ th # ys)" unfolding s(1)[symmetric] sorted_thresholds_def by simp
  ultimately show ?thesis using s(2,3) Some by (auto simp: highest_fit_def)
qed

section \<open>Rows and events\<close>

text \<open>What one row of the frame contributes.\<close>

definition row_alert :: "monitor_env \<Rightarrow> threshold list \<Rightarrow> int \<Rightarrow> label list \<times> series \<Rightarrow> found_event \<Rightarrow> bool" where
  "row_alert M ths n row e \<longleftrightarrow>
     (let vs = last_values n (sr_values (snd row)) in
      n \<le> int (length vs) \<and> vs \<noteq> [] \<and> fe_metric_instance e = mo_str M (fst row) \<and> fe_instance e = tuple_instance M (fst row) \<and>
      fe_raw e = Some ((snd row)\<lparr>sr_values := vs\<rparr>) \<and>
      (\<exists>th v. highest_fit M ths vs th \<and> fe_level e = th_level th \<and> fe_value e = Some v \<and> mo_float M (snd (last vs)) = Inr v))"

definition row_info :: "monitor_env \<Rightarrow> threshold list \<Rightarrow> int \<Rightarrow> label list \<times> series \<Rightarrow> found_event \<Rightarrow> bool" where
  "row_info M ths n row e \<longleftrightarrow>
     (let vs = last_values n (sr_values (snd row)) in
      n \<le> int (length vs) \<and> vs \<noteq> [] \<and> fe_metric_instance e = mo_str M (fst row) \<and> fe_instance e = tuple_instance M (fst row) \<and>
      fe_raw e = Some ((snd row)\<lparr>sr_values := vs\<rparr>) \<and> fe_level e = ''info'' \<and> (\<forall>th \<in> set ths. \<not> fits M th vs))"

definition too_short :: "int \<Rightarrow> label list \<times> series \<Rightarrow> bool" where
  "too_short n row \<longleftrightarrow> int (length (last_values n (sr_values (snd row)))) < n"

lemma row_result_spec:
  assumes "row_result M C tpl ths n row = Inr res"
  shows "case res of None \<Rightarrow> too_short n row | Some (Inl e) \<Rightarrow> row_alert M ths n row e | Some (Inr e) \<Rightarrow> row_info M ths n row e"
proof -
  obtain t r where row: "row = (t, r)" by fastforce
  let ?vs = "last_values n (sr_values r)"
  show ?thesis
  proof (cases "int (length ?vs) < n")
    case True
    with assms show ?thesis by (auto simp: row row_result_def too_short_def Let_def)
  next
    case False
    with assms obtain hit where hit: "first_threshold M (sorted_thresholds ths) ?vs = Inr hit" and vs: "?vs \<noteq> []"
      by (auto simp: row row_result_def Let_def rbind_Inr split: if_splits)
    show ?thesis
    proof (cases hit)
      case None
      with assms False hit vs have "res = Some (Inr (row_event M C t (r\<lparr>sr_values := ?vs\<rparr>) None ''info'' ''info''))"
        by (simp add: row row_result_def Let_def)
      with sorted_hit[OF hit] None False vs show ?thesis by (simp add: row_info_def row row_event_def Let_def)
    next
      case (Some th)
      with assms False hit vs obtain v body where v: "mo_float M (snd (last ?vs)) = Inr v"
        "res = Some (Inl (row_event M C t (r\<lparr>sr_values := ?vs\<rparr>) (Some v) (th_level th) body))"
        by (auto simp: row row_result_def Let_def rbind_Inr)
      with sorted_hit[OF hit] Some False vs show ?thesis by (auto simp: row_alert_def row row_event_def Let_def)
    qed
  qed
qed

lemma calculate_alerts_spec:
  assumes "calculate_alerts M C tpl ths n rows = Inr (alerts, infos)"
  shows "(\<forall>e \<in> set alerts. \<exists>row \<in> set rows. row_alert M ths n row e) \<and> (\<forall>e \<in> set infos. \<exists>row \<in> set rows. row_info M ths n row e) \<and>
    (\<forall>row \<in> set rows. too_short n row \<or> (\<exists>e \<in> set alerts. row_alert M ths n row e) \<or> (\<exists>e \<in> set infos. row_info M ths n row e))"
  using assms
proof (induction M C tpl ths n rows arbitrary: alerts infos rule: calculate_alerts.induct)
  case (2 M C tpl ths n row rows)
  from "2.prems" obtain r as bs where r: "row_result M C tpl ths n row = Inr r" "calculate_alerts M C tpl ths n rows = Inr (as, bs)"
    "(alerts, infos) = (case r of None \<Rightarrow> (as, bs) | Some (Inl e) \<Rightarrow> (e # as, bs) | Some (Inr e) \<Rightarrow> (as, e # bs))"
    by (auto simp: rbind_Inr)
  note IH = "2.IH"[OF r(2)] and row = row_result_spec[OF r(1)]
  consider "r = None" | e where "r = Some (Inl e)" | e where "r = Some (Inr e)" by (metis option.exhaust sum.exhaust)
  then show ?case
  proof cases
    case 1
    with r(3) IH row show ?thesis by auto
  next
    case (2 e)
    with r(3) IH row show ?thesis by auto
  next
    case (3 e)
    with r(3) IH row show ?thesis by auto
  qed
qed auto

lemma row_key: "row_alert M ths n row e \<or> row_info M ths n row e \<Longrightarrow> fe_metric_instance e = mo_str M (fst row)"
  by (auto simp: row_alert_def row_info_def Let_def)

lemma row_metric_instance:
  "row_alert M ths n row e \<or> row_info M ths n row e \<Longrightarrow> row \<in> set rows \<Longrightarrow> fe_metric_instance e \<in> mo_str M ` fst ` set rows"
  by (drule row_key) simp

lemma calculate_distinct:
  assumes inj: "inj (mo_str M)" and rows: "distinct (map fst rows)" "calculate_alerts M C tpl ths n rows = Inr (alerts, infos)"
  shows "distinct (map fe_metric_instance (alerts @ infos))"
  using rows
proof (induction rows arbitrary: alerts infos)
  case (Cons row rows)
  from Cons.prems obtain r as bs where r: "row_result M C tpl ths n row = Inr r" "calculate_alerts M C tpl ths n rows = Inr (as, bs)"
    "(alerts, infos) = (case r of None \<Rightarrow> (as, bs) | Some (Inl e) \<Rightarrow> (e # as, bs) | Some (Inr e) \<Rightarrow> (as, e # bs))"
    by (auto simp: rbind_Inr)
  have d: "distinct (map fe_metric_instance (as @ bs))" using Cons.IH[OF _ r(2)] Cons.prems(1) by simp
  have sub: "fe_metric_instance ` (set as \<union> set bs) \<subseteq> mo_str M ` fst ` set rows"
    using calculate_alerts_spec[OF r(2)] row_metric_instance[of M ths n _ _ rows] by (intro image_subsetI) blast
  have "mo_str M (fst row) \<notin> mo_str M ` fst ` set rows"
    using Cons.prems(1) by (auto dest: injD[OF inj])
  then have fresh: "mo_str M (fst row) \<notin> fe_metric_instance ` (set as \<union> set bs)" using sub by (rule contra_subsetD[rotated])
  have key: "fe_metric_instance e = mo_str M (fst row)" if "r = Some (Inl e) \<or> r = Some (Inr e)" for e
    by (rule row_key[of M ths n]) (use row_result_spec[OF r(1)] that in auto)
  consider "r = None" | e where "r = Some (Inl e)" | e where "r = Some (Inr e)" by (metis option.exhaust sum.exhaust)
  then show ?case
  proof cases
    case 1
    with d r(3) show ?thesis by simp
  next
    case (2 e)
    with d r(3) fresh key show ?thesis by (simp add: image_Un)
  next
    case (3 e)
    with d r(3) fresh key show ?thesis by (auto simp: image_Un)
  qed
qed simp

section \<open>What the detection finds\<close>

definition row_scoped :: "monitor_env \<Rightarrow> policy \<Rightarrow> (string \<times> string) list \<Rightarrow> string \<Rightarrow> bool" where
  "row_scoped M p imap key \<longleftrightarrow> mp_source p = NoSource \<or> extract_monitor_instance_id M key \<in> fst ` set imap"

lemma detect_threshold_cases:
  assumes "detect_threshold_alerts M p metric imap time = Inr (alerts, infos)"
  obtains rs rows as bs where "query_aggregation_metrics M p metric time (mp_period p) (trigger_count p) = Inr rs"
    "vm_to_dataframe (mp_group_by p) (convert_metric_values M p rs) = Inr rows"
    "calculate_alerts M (threshold_context p metric imap) (mp_alert_name p) (mp_threshold p) (trigger_count p) rows = Inr (as, bs)"
    "alerts = filter (\<lambda>e. row_scoped M p imap (fe_metric_instance e)) as"
    "infos = filter (\<lambda>e. row_scoped M p imap (fe_metric_instance e)) bs"
proof -
  from assms obtain rs rows as bs where r: "query_aggregation_metrics M p metric time (mp_period p) (trigger_count p) = Inr rs"
    "vm_to_dataframe (mp_group_by p) (convert_metric_values M p rs) = Inr rows"
    "calculate_alerts M (threshold_context p metric imap) (mp_alert_name p) (mp_threshold p) (trigger_count p) rows = Inr (as, bs)"
    "(alerts, infos) = (if mp_source p \<noteq> NoSource then (filter (in_scope M imap) as, filter (in_scope M imap) bs) else (as, bs))"
    by (auto simp: detect_threshold_alerts_def Let_def rbind_Inr)
  have "filter (in_scope M imap) es = filter (\<lambda>e. row_scoped M p imap (fe_metric_instance e)) es" if "mp_source p \<noteq> NoSource" for es
    using that by (intro filter_cong) (simp_all add: in_scope_def row_scoped_def)
  then have "alerts = filter (\<lambda>e. row_scoped M p imap (fe_metric_instance e)) as \<and>
      infos = filter (\<lambda>e. row_scoped M p imap (fe_metric_instance e)) bs"
    using r(4) by (cases "mp_source p = NoSource") (simp_all add: row_scoped_def)
  then show thesis using that[OF r(1-3)] by simp
qed

lemma detect_frame:
  assumes "store_ok M" "query_aggregation_metrics M p metric time d n = Inr rs"
    "vm_to_dataframe (mp_group_by p) (convert_metric_values M p rs) = Inr rows"
  shows "distinct (map fst rows) \<and> (\<forall>row \<in> set rows. fst row \<noteq> [])"
proof (rule frame_distinct[OF assms(3) query_group[OF assms(2)]])
  show "distinct (map (group_tuple p) (convert_metric_values M p rs))"
    using query_distinct[OF assms(1,2)] by (simp only: group_tuple_metric convert_metric)
qed

text \<open>All events of the threshold detection.\<close>

lemma threshold_events_exact:
  assumes "detect_threshold_alerts M p metric imap time = Inr (alerts, infos)" "tuples_ok M" "store_ok M"
  shows "\<exists>rs rows. query_aggregation_metrics M p metric time (mp_period p) (trigger_count p) = Inr rs \<and>
    vm_to_dataframe (mp_group_by p) (convert_metric_values M p rs) = Inr rows \<and>
    (\<forall>e \<in> set alerts. \<exists>row \<in> set rows. row_alert M (mp_threshold p) (trigger_count p) row e) \<and>
    (\<forall>e \<in> set infos. \<exists>row \<in> set rows. row_info M (mp_threshold p) (trigger_count p) row e) \<and>
    (\<forall>e \<in> set (alerts @ infos). row_scoped M p imap (fe_metric_instance e)) \<and>
    (\<forall>row \<in> set rows. row_scoped M p imap (mo_str M (fst row)) \<longrightarrow> too_short (trigger_count p) row \<or>
       (\<exists>!e. e \<in> set (alerts @ infos) \<and> fe_metric_instance e = mo_str M (fst row)))"
proof -
  let ?n = "trigger_count p" let ?ths = "mp_threshold p"
  from assms(1) obtain rs rows as bs where q: "query_aggregation_metrics M p metric time (mp_period p) ?n = Inr rs"
    "vm_to_dataframe (mp_group_by p) (convert_metric_values M p rs) = Inr rows"
    "calculate_alerts M (threshold_context p metric imap) (mp_alert_name p) ?ths ?n rows = Inr (as, bs)"
    and ab: "alerts = filter (\<lambda>e. row_scoped M p imap (fe_metric_instance e)) as"
    "infos = filter (\<lambda>e. row_scoped M p imap (fe_metric_instance e)) bs"
    by (rule detect_threshold_cases)
  note spec = calculate_alerts_spec[OF q(3)]
  have "distinct (map fe_metric_instance (as @ bs))"
    using calculate_distinct[OF _ _ q(3)] detect_frame[OF assms(3) q(1,2)] assms(2) by (auto simp: tuples_ok_def)
  then have inj: "inj_on fe_metric_instance (set (as @ bs))" by (simp only: distinct_map)
  have one: "too_short ?n row \<or> (\<exists>!e. e \<in> set (alerts @ infos) \<and> fe_metric_instance e = mo_str M (fst row))"
    if row: "row \<in> set rows" "row_scoped M p imap (mo_str M (fst row))" for row
  proof (cases "too_short ?n row")
    case False
    with spec row(1) obtain e where e: "e \<in> set (as @ bs)" "fe_metric_instance e = mo_str M (fst row)"
      by (fastforce simp: row_alert_def row_info_def Let_def)
    then have "e \<in> set (alerts @ infos)" using row(2) by (auto simp: ab)
    moreover have "e' = e" if "e' \<in> set (alerts @ infos)" "fe_metric_instance e' = mo_str M (fst row)" for e'
      using that e inj_onD[OF inj, of e' e] by (auto simp: ab)
    ultimately show ?thesis using e(2) by blast
  qed simp
  show ?thesis
    by (rule exI[of _ rs], rule exI[of _ rows]) (use q(1,2) spec one in \<open>auto simp: ab\<close>)
qed

section \<open>Missing data\<close>

definition has_data :: "monitor_env \<Rightarrow> policy \<Rightarrow> (string \<times> string) list \<Rightarrow> series list \<Rightarrow> string \<Rightarrow> bool" where
  "has_data M p imap rs key \<longleftrightarrow> (\<exists>r \<in> set rs. key = mo_str M (group_tuple p r) \<and>
     (imap = [] \<or> instance_of_tuple M (group_tuple p r) \<in> fst ` set imap))"

lemma format_aggregation_keys:
  "format_aggregation M p imap rs out = Inr data \<Longrightarrow> fst ` set data = fst ` set out \<union> {key. has_data M p imap rs key}"
proof (induction rs arbitrary: out)
  case (Cons r rs)
  let ?t = "group_tuple p r"
  have split: "{key. has_data M p imap (r # rs) key} =
      (if imap = [] \<or> instance_of_tuple M ?t \<in> fst ` set imap then {mo_str M ?t} else {}) \<union> {key. has_data M p imap rs key}"
    by (auto simp: has_data_def)
  show ?case
  proof (cases "imap = [] \<or> instance_of_tuple M ?t \<in> fst ` set imap")
    case True
    with Cons.prems obtain v where "format_aggregation M p imap rs (tsave fst (mo_str M ?t, v, r) out) = Inr data"
      by (auto simp: Let_def rbind_Inr split: if_splits)
    from Cons.IH[OF this] True show ?thesis unfolding split by (auto simp: keys_tsave)
  next
    case False
    with Cons show ?thesis unfolding split by (auto simp: Let_def)
  qed
qed (auto simp: has_data_def)

text \<open>The no-data events, in order.\<close>

lemma no_data_events_exact:
  assumes "detect_no_data_alerts M p metric bmap imap time = Inr events"
  shows "if mp_no_data_period p = None \<or> mp_source p = NoSource then events = []
    else \<exists>rs. query_aggregation_metrics M p metric time (mp_no_data_period p) 1 = Inr rs \<and>
      map fe_metric_instance events = filter (\<lambda>k. \<not> has_data M p imap rs k) (baseline_keys bmap imap) \<and>
      distinct (map fe_metric_instance events) \<and> (\<forall>e \<in> set events. fe_level e = ''no_data'' \<and> fe_value e = None)"
proof (cases "mp_no_data_period p = None \<or> mp_source p = NoSource")
  case False
  with assms obtain rs data where d: "query_aggregation_metrics M p metric time (mp_no_data_period p) 1 = Inr rs"
    "format_aggregation_metrics M p imap rs = Inr data" "events = build_no_data_events M p metric bmap imap data"
    by (auto simp: detect_no_data_alerts_def rbind_Inr)
  have "fst ` set data = {key. has_data M p imap rs key}"
    using format_aggregation_keys[OF d(2)[unfolded format_aggregation_metrics_def]] by simp
  then have keys: "map fe_metric_instance events = filter (\<lambda>k. \<not> has_data M p imap rs k) (baseline_keys bmap imap)"
    by (simp add: d(3) build_no_data_events_def no_data_event_def Let_def comp_def)
  moreover have "distinct (baseline_keys bmap imap)"
    using dedup_on_distinct[of id] by (auto simp: baseline_keys_def)
  ultimately show ?thesis
    using False d by (auto simp: build_no_data_events_def no_data_event_def Let_def)
qed (use assms in \<open>auto simp: detect_no_data_alerts_def\<close>)


end
