(* ===== verification/Monitor_Policies.thy ===== *)
theory Monitor_Policies
  imports Monitor_Scan
begin

text \<open>
  What people do to policies and alerts (\<open>monitor/views/monitor_policy.py\<close>,
  \<open>monitor/views/monitor_alert.py\<close>, \<open>monitor/serializers/monitor_policy.py\<close>). A change of a policy that changes what its alerts are about closes the active ones; so does switching it off or
  deleting it.

  Permissions, the crontab entries of the scans and the other documents of a request are left out. A
  request on a policy is given by the row it asks for.
\<close>

section \<open>Checks of a policy\<close>

definition valid_threshold :: "threshold \<Rightarrow> bool" where
  "valid_threshold th \<longleftrightarrow>
     threshold_method (th_method th) \<noteq> None \<and> th_level th \<in> set [''info'', ''warning'', ''error'', ''critical'']"

definition valid_filter :: "label_filter \<Rightarrow> bool" where
  "valid_filter f \<longleftrightarrow> (lf_name f = [] \<or> label_name_ok (lf_name f)) \<and>
     (lf_method f = [] \<or> lf_method f \<in> set [''='', ''!='', ''=~'', ''!~''])"

definition valid_query :: "query_condition \<Rightarrow> bool" where
  "valid_query q = (case q of QC_pmq text_ _ \<Rightarrow> text_ \<noteq> [] | QC_metric _ fs \<Rightarrow> list_all valid_filter fs)"

definition valid_policy :: "policy \<Rightarrow> bool" where
  "valid_policy p \<longleftrightarrow> list_all valid_threshold (mp_threshold p) \<and> 1 \<le> mp_trigger_count p \<and> valid_query (mp_query p) \<and>
     (case mp_source p of SourceOther _ \<Rightarrow> False | _ \<Rightarrow> True) \<and>
     (mp_algorithm p = [] \<or> mp_algorithm p \<in> set WINDOW_AGGREGATION_ALGORITHMS) \<and>
     (mp_group_algorithm p = [] \<or> mp_group_algorithm p \<in> set GROUP_AGGREGATION_ALGORITHMS)"

text \<open>\<open>keys\<close> are the instance keys of the monitored object; the first one leads the grouping.\<close>

definition validate_group_by :: "string list \<Rightarrow> string list \<Rightarrow> string list" where
  "validate_group_by keys g =
     (case (keys, g) of
        (k # _, x # _) \<Rightarrow> if x \<noteq> k then k # filter (\<lambda>y. y \<noteq> k) g else g
      | _ \<Rightarrow> g)"

definition validate_policy :: "string list \<Rightarrow> policy \<Rightarrow> policy res" where
  "validate_policy keys p =
     (if valid_policy p then Inr (p\<lparr>mp_group_by := validate_group_by keys (mp_group_by p)\<rparr>) else Inl ValidationError)"

section \<open>Closing alerts\<close>

definition closed :: "int \<Rightarrow> string \<Rightarrow> string \<Rightarrow> monitor_alert \<Rightarrow> monitor_alert" where
  "closed now operator reason a =
     a\<lparr>ma_status := M_CLOSED, ma_end := Some now, ma_operator := operator,
       ma_operation_logs := ma_operation_logs a @
         [\<lparr>ol_action = N_CLOSED, ol_reason = reason, ol_operator = operator, ol_time = Some now\<rparr>],
       ma_notified := False\<rparr>"

definition close_alerts ::
  "monitor_env \<Rightarrow> policy \<Rightarrow> int \<Rightarrow> monitor_alert list \<Rightarrow> string \<Rightarrow> string \<Rightarrow> notify_scope \<Rightarrow> monitor_db \<Rightarrow> monitor_db" where
  "close_alerts M p now as operator reason scope s =
     (if as = [] then s
      else
        let t = update_alerts (ma_id ` set as) (closed now operator reason) s
        in if scope = Scope_none then t
           else notify_alerts M (Some p) now (map (closed now operator reason) as) N_CLOSED operator reason scope t)"

definition active_alerts_of :: "nat \<Rightarrow> ma_kind set \<Rightarrow> monitor_db \<Rightarrow> monitor_alert list" where
  "active_alerts_of i kinds s = filter (\<lambda>a. ma_policy a = i \<and> ma_kind a \<in> kinds \<and> is_new a) (md_alerts s)"

definition close_active_no_data_alerts ::
  "monitor_env \<Rightarrow> policy \<Rightarrow> int \<Rightarrow> string \<Rightarrow> string \<Rightarrow> monitor_db \<Rightarrow> monitor_db" where
  "close_active_no_data_alerts M p now operator reason s =
     close_alerts M p now (active_alerts_of (mp_id p) {MK_NO_DATA} s) operator reason Scope_all_configured s"

section \<open>Changes of a policy\<close>

definition no_data_enabled :: "policy \<Rightarrow> bool" where
  "no_data_enabled p \<longleftrightarrow> ''no_data'' \<in> set (mp_enable_alerts p)"

text \<open>The order of the values of a source does not matter.\<close>

definition normalize_source :: "policy_source \<Rightarrow> policy_source" where
  "normalize_source src =
     (case src of SourceInstances vs \<Rightarrow> SourceInstances (sort vs) | SourceOrganizations vs \<Rightarrow> SourceOrganizations (sort vs) | _ \<Rightarrow> src)"

definition policy_config_change_reason :: "policy \<Rightarrow> policy \<Rightarrow> string" where
  "policy_config_change_reason old p =
     (if normalize_source (mp_source old) \<noteq> normalize_source (mp_source p) then ''policy_scope_changed''
      else if mp_group_by old \<noteq> mp_group_by p then ''policy_group_by_changed''
      else if mp_query old \<noteq> mp_query p then ''policy_query_condition_changed''
      else if mp_object old \<noteq> mp_object p \<or> mp_collect_type old \<noteq> mp_collect_type p then ''policy_monitor_target_changed''
      else [])"

definition baseline_state_changed :: "policy \<Rightarrow> policy \<Rightarrow> bool" where
  "baseline_state_changed old p \<longleftrightarrow> policy_config_change_reason old p \<noteq> []"

definition should_update_policy_baselines :: "policy \<Rightarrow> policy \<Rightarrow> bool" where
  "should_update_policy_baselines old p =
     (if \<not> no_data_enabled old \<and> \<not> no_data_enabled p then False
      else if no_data_enabled old \<noteq> no_data_enabled p then True
      else baseline_state_changed old p)"

definition update_policy_baselines ::
  "monitor_env \<Rightarrow> policy \<Rightarrow> int \<Rightarrow> string \<Rightarrow> bool \<Rightarrow> monitor_db \<Rightarrow> monitor_db" where
  "update_policy_baselines M p now operator reset s =
     (if no_data_enabled p then
        baseline_refresh M p now (if reset then close_active_no_data_alerts M p now operator ''policy_baseline_changed'' s else s)
      else baseline_clear p (close_active_no_data_alerts M p now operator ''no_data_disabled'' s))"

definition close_active_threshold_alerts ::
  "monitor_env \<Rightarrow> policy \<Rightarrow> policy \<Rightarrow> int \<Rightarrow> string \<Rightarrow> monitor_db \<Rightarrow> monitor_db" where
  "close_active_threshold_alerts M old p now operator s =
     (let reason = policy_config_change_reason old p in
      if reason = [] then s
      else close_alerts M p now (active_alerts_of (mp_id old) {MK_ALERT} s) operator reason Scope_alert_center_only s)"

definition handle_policy_enable_change :: "monitor_env \<Rightarrow> policy \<Rightarrow> bool \<Rightarrow> int \<Rightarrow> monitor_db \<Rightarrow> monitor_db" where
  "handle_policy_enable_change M p old_enable now s =
     (if old_enable = mp_enable p then s
      else if old_enable then
        close_alerts M p now (active_alerts_of (mp_id p) UNIV s) ''system'' ''policy_disabled'' Scope_all_configured s
      else set_last_run (mp_id p) now s)"

definition save_policy :: "policy \<Rightarrow> monitor_db \<Rightarrow> monitor_db" where
  "save_policy p s = s\<lparr>md_policies := tsave mp_id p (md_policies s)\<rparr>"

section \<open>Requests on policies\<close>

text \<open>The request for a new policy has the key that the database draws.\<close>

definition policy_create :: "monitor_env \<Rightarrow> string list \<Rightarrow> policy \<Rightarrow> int \<Rightarrow> monitor_db \<Rightarrow> unit res \<times> monitor_db" where
  "policy_create M keys q now s =
     (case validate_policy keys q of
        Inl e \<Rightarrow> (Inl e, s)
      | Inr p \<Rightarrow>
          let t = save_policy p s
          in (Inr (), if no_data_enabled p then update_policy_baselines M p now ''system'' False t else t))"

text \<open>\<open>update\<close> and \<open>partial_update\<close>; \<open>sent\<close> tells whether the request names the switch of the policy.\<close>

definition policy_update ::
  "monitor_env \<Rightarrow> string list \<Rightarrow> policy \<Rightarrow> bool \<Rightarrow> string \<Rightarrow> int \<Rightarrow> monitor_db \<Rightarrow> unit res \<times> monitor_db" where
  "policy_update M keys q sent user now s =
     (case tfind mp_id (mp_id q) (md_policies s) of
        None \<Rightarrow> (Inl DoesNotExist, s)
      | Some old \<Rightarrow>
          (case validate_policy keys q of
             Inl e \<Rightarrow> (Inl e, s)
           | Inr p \<Rightarrow>
               let t = save_policy p s;
                   u = (if should_update_policy_baselines old p
                        then update_policy_baselines M p now user (baseline_state_changed old p) t else t);
                   v = close_active_threshold_alerts M old p now user u
               in (Inr (), if sent then handle_policy_enable_change M p (mp_enable old) now v else v)))"

definition policy_destroy :: "monitor_env \<Rightarrow> nat \<Rightarrow> string \<Rightarrow> int \<Rightarrow> monitor_db \<Rightarrow> unit res \<times> monitor_db" where
  "policy_destroy M i user now s =
     (case tfind mp_id i (md_policies s) of
        None \<Rightarrow> (Inl DoesNotExist, s)
      | Some p \<Rightarrow>
          let t = baseline_clear p s;
              u = close_alerts M p now (active_alerts_of i UNIV t) user ''policy_deleted'' Scope_all_configured t
          in (Inr (), u\<lparr>md_policies := filter (\<lambda>q. mp_id q \<noteq> i) (md_policies u)\<rparr>))"

section \<open>Requests on alerts\<close>

text \<open>The status a request asks for, what it writes into the other fields, and whether the baselines are
  to be read again. Keys and the bookkeeping of deliveries cannot be written.\<close>

record alert_request =
  ar_status :: "ma_status option"
  ar_edit :: "monitor_alert \<Rightarrow> monitor_alert"
  ar_update_baseline :: bool

definition edited_alert :: "alert_request \<Rightarrow> string \<Rightarrow> int \<Rightarrow> monitor_alert \<Rightarrow> monitor_alert" where
  "edited_alert q user now a =
     (let b = (ar_edit q a)\<lparr>ma_id := ma_id a, ma_notified := ma_notified a, ma_retry_count := ma_retry_count a\<rparr>;
          c = (case ar_status q of None \<Rightarrow> b | Some st \<Rightarrow> b\<lparr>ma_status := st\<rparr>)
      in if ar_status q = Some M_CLOSED
         then c\<lparr>ma_end := Some now, ma_operator := user,
                ma_operation_logs := ma_operation_logs a @
                  [\<lparr>ol_action = N_CLOSED, ol_reason = ''manual'', ol_operator = user, ol_time = Some now\<rparr>],
                ma_notified := (if is_new a then False else ma_notified a)\<rparr>
         else c)"

text \<open>A closed no-data alert takes its metric instance out of the baselines, or has them read again.\<close>

definition drop_baseline :: "monitor_env \<Rightarrow> alert_request \<Rightarrow> int \<Rightarrow> monitor_alert \<Rightarrow> monitor_db \<Rightarrow> monitor_db" where
  "drop_baseline M q now a s =
     (if ar_status q = Some M_CLOSED \<and> ma_kind a = MK_NO_DATA \<and> ma_metric_instance a \<noteq> [] then
        if ar_update_baseline q then
          (case tfind mp_id (ma_policy a) (md_policies s) of None \<Rightarrow> s | Some p \<Rightarrow> baseline_refresh M p now s)
        else s\<lparr>md_baselines := filter (\<lambda>b. \<not> (bl_policy b = ma_policy a \<and> bl_metric_instance b = ma_metric_instance a)) (md_baselines s)\<rparr>
      else s)"

definition alert_update :: "monitor_env \<Rightarrow> nat \<Rightarrow> alert_request \<Rightarrow> string \<Rightarrow> int \<Rightarrow> monitor_db \<Rightarrow> unit res \<times> monitor_db" where
  "alert_update M i q user now s =
     (case ma_find i s of
        None \<Rightarrow> (Inl DoesNotExist, s)
      | Some a \<Rightarrow>
          let b = edited_alert q user now a;
              t = update_alerts {i} (\<lambda>_. b) (drop_baseline M q now a s)
          in (Inr (),
              if is_new a \<and> ma_status b = M_CLOSED then
                (case tfind mp_id (ma_policy b) (md_policies t) of
                   None \<Rightarrow> t
                 | Some p \<Rightarrow> notify_alerts M (Some p) now [b] N_CLOSED user ''manual'' Scope_all_configured t)
              else t))"

end
