(* ===== verification/Monitor_Instances.thy ===== *)
theory Monitor_Instances
  imports Monitor_Policies
begin

text \<open>
  The monitored instances: removing them (\<open>remove_monitor_instance\<close> of \<open>monitor/views/monitor_instance.py\<close>),
  taking removed instances out of the policies (\<open>monitor/services/policy_source_cleanup.py\<close>) and the task
  that compares the table with what the metric store knows (\<open>monitor/tasks/services/sync_instance.py\<close>).

  The answer of the metric store to the query of an object is a parameter. The order of sets is that
  of the tables. The remote configuration of an instance is not modelled.
\<close>

section \<open>Removed instances\<close>

definition cleanup_source :: "string set \<Rightarrow> policy \<Rightarrow> policy" where
  "cleanup_source gone p =
     (case mp_source p of
        SourceInstances vs \<Rightarrow>
          if set vs \<inter> gone = {} then p
          else
            let left = dedup_on id (filter (\<lambda>v. v \<notin> gone) vs)
            in p\<lparr>mp_source := SourceInstances left, mp_enable := (left \<noteq> [] \<and> mp_enable p)\<rparr>
      | _ \<Rightarrow> p)"

definition cleanup_policy_sources :: "string set \<Rightarrow> monitor_db \<Rightarrow> monitor_db" where
  "cleanup_policy_sources gone s = s\<lparr>md_policies := map (cleanup_source gone) (md_policies s)\<rparr>"

definition mark_removed :: "string set \<Rightarrow> monitor_db \<Rightarrow> monitor_db" where
  "mark_removed ids s = s\<lparr>md_instances := tupdate (\<lambda>r. mi_id r \<in> ids) (\<lambda>r. r\<lparr>mi_is_deleted := True\<rparr>) (md_instances s)\<rparr>"

definition remove_monitor_instance :: "string set \<Rightarrow> monitor_db \<Rightarrow> monitor_db" where
  "remove_monitor_instance ids s = cleanup_policy_sources ids (mark_removed ids s)"

definition delete_instances :: "string set \<Rightarrow> monitor_db \<Rightarrow> monitor_db" where
  "delete_instances ids s =
     s\<lparr>md_instances := filter (\<lambda>r. mi_id r \<notin> ids) (md_instances s),
       md_instance_orgs := filter (\<lambda>(i, _). i \<notin> ids) (md_instance_orgs s)\<rparr>"

section \<open>Discovered instances\<close>

record monitor_object =
  mj_id :: nat
  mj_name :: string
  mj_default_metric :: string
  mj_instance_id_keys :: "string list"

type_synonym discovered = "(string \<times> instance_row \<times> int option) list"

definition parse_organization_id :: "series \<Rightarrow> int option" where
  "parse_organization_id r =
     (case map_of (sr_metric r) ''organization_id'' of
        None \<Rightarrow> None
      | Some v \<Rightarrow> if v = [] then None else case parse_int v of Inl _ \<Rightarrow> None | Inr i \<Rightarrow> Some i)"

definition discovered_instance :: "monitor_env \<Rightarrow> nat \<Rightarrow> string list \<Rightarrow> series \<Rightarrow> string \<times> instance_row \<times> int option" where
  "discovered_instance M obj keys r =
     (let t = map (\<lambda>k. case map_of (sr_metric r) k of Some v \<Rightarrow> L_str v | None \<Rightarrow> L_none) keys; i = mo_str M t in
      (i, \<lparr>mi_id = i, mi_name = join_texts ''__'' (map label_text t), mi_object = obj, mi_is_deleted = False, mi_auto = True,
           mi_active = True\<rparr>, parse_organization_id r))"

text \<open>The identifier of an object is looked up by its name, where the last one of a name counts.\<close>

fun instances_by_metrics ::
  "monitor_env \<Rightarrow> (string \<Rightarrow> series list res) \<Rightarrow> (string \<times> nat) list \<Rightarrow> monitor_object list \<Rightarrow> discovered \<Rightarrow> discovered res" where
  "instances_by_metrics M ask names [] out = Inr out"
| "instances_by_metrics M ask names (obj # objs) out =
     (case map_of (rev names) (mj_name obj) of
        None \<Rightarrow> instances_by_metrics M ask names objs out
      | Some i \<Rightarrow>
          if mj_default_metric obj = [] then instances_by_metrics M ask names objs out
          else rbind (ask (mj_default_metric obj)) (\<lambda>rs.
            instances_by_metrics M ask names objs
              (if mj_instance_id_keys obj = [] then out
               else fold (\<lambda>r. tsave fst (discovered_instance M i (mj_instance_id_keys obj) r)) rs out)))"

definition get_instance_map_by_metrics ::
  "monitor_env \<Rightarrow> (string \<Rightarrow> series list res) \<Rightarrow> monitor_object list \<Rightarrow> discovered res" where
  "get_instance_map_by_metrics M ask objs =
     instances_by_metrics M ask (map (\<lambda>x. (mj_name x, mj_id x)) objs) objs []"

text \<open>New organizations of instances; a pair that exists is left alone.\<close>

definition add_organizations :: "discovered \<Rightarrow> monitor_db \<Rightarrow> monitor_db" where
  "add_organizations ds s =
     s\<lparr>md_instance_orgs := fold (\<lambda>(i, _, org) out. case org of None \<Rightarrow> out | Some g \<Rightarrow> if (i, g) \<in> set out then out else out @ [(i, g)])
        ds (md_instance_orgs s)\<rparr>"

definition set_active :: "string set \<Rightarrow> bool \<Rightarrow> monitor_db \<Rightarrow> monitor_db" where
  "set_active ids b s = s\<lparr>md_instances := tupdate (\<lambda>r. mi_id r \<in> ids \<and> mi_auto r) (\<lambda>r. r\<lparr>mi_active := b\<rparr>) (md_instances s)\<rparr>"

text \<open>Removed instances that the store does not know are deleted; new ones are added, removed ones that
  came back are restored; an instance that is missing for the second time is deleted.\<close>

definition sync_monitor_instances :: "discovered \<Rightarrow> monitor_db \<Rightarrow> monitor_db" where
  "sync_monitor_instances found s =
     (let seen = fst ` set found; autos = filter mi_auto (md_instances s);
          all_auto = mi_id ` set autos; deleted = mi_id ` set (filter mi_is_deleted autos);
          adds = filter (\<lambda>d. fst d \<notin> mi_id ` set (md_instances s)) found;
          back = seen \<inter> deleted; gone = deleted - seen;
          s1 = (if gone = {} then s else delete_instances gone (cleanup_policy_sources gone s));
          s2 = add_organizations adds (s1\<lparr>md_instances := md_instances s1 @ map (fst \<circ> snd) adds\<rparr>);
          s3 = (if back = {} then s2
                else add_organizations (filter (\<lambda>d. fst d \<in> back) found)
                  (s2\<lparr>md_instances := tupdate (\<lambda>r. mi_id r \<in> back \<and> mi_is_deleted r \<and> mi_auto r)
                        (\<lambda>r. r\<lparr>mi_is_deleted := False\<rparr>) (md_instances s2)\<rparr>));
          missing = all_auto - deleted - seen;
          twice = mi_id ` set (filter (\<lambda>r. mi_auto r \<and> \<not> mi_active r) (md_instances s3)) \<inter> missing;
          s4 = set_active seen True (set_active missing False s3)
      in if twice = {} then s4 else delete_instances twice (cleanup_policy_sources twice s4))"

end
