(* ===== verification/Monitor_System.thy ===== *)
theory Monitor_System
  imports Monitor_Evolution Monitor_Events Monitor_Instances
begin

text \<open>
  The monitoring application as a transition system: the scans of policies, repeated deliveries,
  requests on policies and alerts, removal and discovery of instances. The interface \<open>row_moves\<close> states
  what a step may do to a row of a table; its consequence for runs is interpreted for the alerts of the
  application. \<open>monitor_inv\<close> is the invariant that keeps the active alerts of a metric instance unique.
\<close>

section \<open>Rows under a transition relation\<close>

locale row_moves =
  fixes step :: "'s \<Rightarrow> 's \<Rightarrow> bool"
    and inv :: "'s \<Rightarrow> bool"
    and rows_of :: "'s \<Rightarrow> 'r set"
    and move :: "'r \<Rightarrow> 'r \<Rightarrow> bool"
  assumes step_inv: "inv s \<Longrightarrow> step s t \<Longrightarrow> inv t"
    and step_move: "inv s \<Longrightarrow> step s t \<Longrightarrow> a \<in> rows_of s \<Longrightarrow> \<exists>b \<in> rows_of t. move a b"
    and move_refl: "move a a"
    and move_trans: "move a b \<Longrightarrow> move b c \<Longrightarrow> move a c"
begin

inductive reaches :: "'s \<Rightarrow> 's \<Rightarrow> bool" where
  here: "reaches s s"
| more: "reaches s t \<Longrightarrow> step t u \<Longrightarrow> reaches s u"

lemma reaches_inv: "reaches s t \<Longrightarrow> inv s \<Longrightarrow> inv t"
  by (induction rule: reaches.induct) (auto intro: step_inv)

lemma reaches_move: "reaches s t \<Longrightarrow> inv s \<Longrightarrow> a \<in> rows_of s \<Longrightarrow> \<exists>b \<in> rows_of t. move a b"
proof (induction rule: reaches.induct)
  case (here s)
  then show ?case using move_refl by blast
next
  case (more s t u)
  then obtain b where b: "b \<in> rows_of t" "move a b" by blast
  moreover have "inv t" using more.hyps(1) more.prems(1) by (rule reaches_inv)
  ultimately obtain c where "c \<in> rows_of u" "move b c" using step_move more.hyps(2) by blast
  with b(2) show ?case using move_trans by blast
qed

end

section \<open>The invariant\<close>

text \<open>An instance has a single key. Instances of objects with several keys never match what a policy
  finds, see the end of the theory.\<close>

definition single_key :: "monitor_env \<Rightarrow> string \<Rightarrow> bool" where
  "single_key M i \<longleftrightarrow> (\<exists>x. x \<noteq> L_nan \<and> i = mo_str M [x])"

definition linked_alert :: "monitor_env \<Rightarrow> monitor_alert \<Rightarrow> bool" where
  "linked_alert M a \<longleftrightarrow> link M (ma_metric_instance a) (ma_instance a)"

definition monitor_inv :: "monitor_env \<Rightarrow> monitor_db \<Rightarrow> bool" where
  "monitor_inv M s \<longleftrightarrow> wf_monitor s \<and> (\<forall>a \<in> set (md_alerts s). is_new a \<longrightarrow> linked_alert M a) \<and>
     (\<forall>b \<in> set (md_baselines s). link M (bl_metric_instance b) (bl_instance b)) \<and>
     (\<forall>r \<in> set (md_instances s). single_key M (mi_id r)) \<and>
     (\<forall>p \<in> set (md_policies s). list_all valid_threshold (mp_threshold p))"

section \<open>The events of a scan\<close>

lemma single_key_extract: "tuples_ok M \<Longrightarrow> single_key M i \<Longrightarrow> extract_monitor_instance_id M i = i \<and> link M i i"
  by (auto simp: single_key_def extract_monitor_instance_id_def tuples_okD tuple_instance_def link_def intro!: exI[of _ "[_]"])

lemma threshold_event_facts:
  assumes d: "detect_threshold_alerts M p metric imap time = Inr (alerts, infos)" and ok: "tuples_ok M" "store_ok M"
    and imap: "\<forall>i \<in> fst ` set imap. single_key M i" and ths: "list_all valid_threshold (mp_threshold p)"
  shows "\<forall>e \<in> set (alerts @ infos). link M (fe_metric_instance e) (fe_instance e) \<and>
      (mp_source p \<noteq> NoSource \<longrightarrow> fe_instance e \<in> fst ` set imap)"
    "\<forall>e \<in> set alerts. event_kind e = MK_ALERT" "distinct (map fe_metric_instance alerts)"
proof -
  let ?n = "trigger_count p" let ?ths = "mp_threshold p"
  from d obtain rs rows as bs where q: "query_aggregation_metrics M p metric time (mp_period p) ?n = Inr rs"
    "vm_to_dataframe (mp_group_by p) (convert_metric_values M p rs) = Inr rows"
    "calculate_alerts M (threshold_context p metric imap) (mp_alert_name p) ?ths ?n rows = Inr (as, bs)"
    and ab: "alerts = filter (\<lambda>e. row_scoped M p imap (fe_metric_instance e)) as"
    "infos = filter (\<lambda>e. row_scoped M p imap (fe_metric_instance e)) bs"
    by (rule detect_threshold_cases)
  note spec = calculate_alerts_spec[OF q(3)] and frame = detect_frame[OF ok(2) q(1,2)]
  have row: "\<exists>row \<in> set rows. row_alert M ?ths ?n row e \<or> row_info M ?ths ?n row e" if "e \<in> set (alerts @ infos)" for e
    using that spec by (auto simp: ab)
  show "\<forall>e \<in> set (alerts @ infos). link M (fe_metric_instance e) (fe_instance e) \<and>
      (mp_source p \<noteq> NoSource \<longrightarrow> fe_instance e \<in> fst ` set imap)"
  proof
    fix e assume e: "e \<in> set (alerts @ infos)"
    from row[OF e] obtain t where t: "fe_metric_instance e = mo_str M t" "fe_instance e = tuple_instance M t" "t \<noteq> []"
      using frame by (fastforce simp: row_alert_def row_info_def Let_def)
    have "fe_instance e \<in> fst ` set imap" if s: "mp_source p \<noteq> NoSource"
    proof -
      have m: "extract_monitor_instance_id M (mo_str M t) \<in> fst ` set imap"
        using e s t(1) by (auto simp: ab row_scoped_def)
      show ?thesis
      proof (cases "L_nan \<in> set t")
        case True
        then have "mo_str M t \<in> fst ` set imap" using m ok(1) by (simp add: extract_monitor_instance_id_def tuples_okD)
        then obtain x where "x \<noteq> L_nan" "t = [x]" using imap ok(1) by (auto simp: single_key_def tuples_okD(1))
        with True show ?thesis by simp
      next
        case False
        with m t(2) ok(1) show ?thesis by (simp add: extract_monitor_instance_id_def tuples_okD)
      qed
    qed
    with t link_tuple[OF t(3)] show "link M (fe_metric_instance e) (fe_instance e) \<and>
        (mp_source p \<noteq> NoSource \<longrightarrow> fe_instance e \<in> fst ` set imap)" by simp
  qed
  show "\<forall>e \<in> set alerts. event_kind e = MK_ALERT"
  proof
    fix e assume "e \<in> set alerts"
    then obtain th where "th \<in> set ?ths" "fe_level e = th_level th"
      using spec by (fastforce simp: ab row_alert_def highest_fit_def Let_def)
    with ths show "event_kind e = MK_ALERT" by (auto simp: event_kind_def list_all_iff valid_threshold_def)
  qed
  have "distinct (map fe_metric_instance (as @ bs))"
    using calculate_distinct[OF _ _ q(3)] frame ok(1) by (auto simp: tuples_ok_def)
  then show "distinct (map fe_metric_instance alerts)" by (simp add: ab distinct_map_filter)
qed

lemma no_data_event_facts:
  assumes d: "detect_no_data_alerts M p metric bmap imap time = Inr events" and ok: "tuples_ok M"
    and imap: "\<forall>i \<in> fst ` set imap. single_key M i"
    and bmap: "\<forall>(k, i) \<in> set bmap. link M k i \<and> i \<in> fst ` set imap"
  shows "\<forall>e \<in> set events. link M (fe_metric_instance e) (fe_instance e) \<and> fe_instance e \<in> fst ` set imap"
    "\<forall>e \<in> set events. event_kind e = MK_NO_DATA" "distinct (map fe_metric_instance events)"
proof -
  note x = no_data_events_exact[OF d]
  have "set (map fe_metric_instance events) \<subseteq> set (baseline_keys bmap imap)"
    using x by (auto split: if_splits simp del: set_map)
  then have keys: "fe_metric_instance e \<in> set (baseline_keys bmap imap)" if "e \<in> set events" for e
    using that by auto
  have shape: "fe_instance e = (case map_of bmap (fe_metric_instance e) of
      Some i \<Rightarrow> if i = [] then extract_monitor_instance_id M (fe_metric_instance e) else i
    | None \<Rightarrow> extract_monitor_instance_id M (fe_metric_instance e))" if "e \<in> set events" for e
  proof -
    from d that obtain key where "e = no_data_event M p metric bmap imap key"
      by (auto simp: detect_no_data_alerts_def build_no_data_events_def rbind_Inr split: if_splits)
    then show ?thesis by (simp only: no_data_event_def Let_def found_event.simps)
  qed
  show "\<forall>e \<in> set events. link M (fe_metric_instance e) (fe_instance e) \<and> fe_instance e \<in> fst ` set imap"
  proof
    fix e assume e: "e \<in> set events"
    show "link M (fe_metric_instance e) (fe_instance e) \<and> fe_instance e \<in> fst ` set imap"
    proof (cases "map_of bmap (fe_metric_instance e)")
      case None
      then have "bmap = []" using keys[OF e] dedup_on_subset[of id "map fst bmap"]
        by (auto simp: baseline_keys_def map_of_eq_None_iff split: if_splits)
      then have "fe_metric_instance e \<in> fst ` set imap"
        using keys[OF e] dedup_on_subset[of id "map fst imap"] by (auto simp: baseline_keys_def)
      then show ?thesis using shape[OF e] None imap single_key_extract[OF ok] by auto
    next
      case (Some i)
      then have "(fe_metric_instance e, i) \<in> set bmap" by (rule map_of_SomeD)
      then have i: "link M (fe_metric_instance e) i" "i \<in> fst ` set imap" using bmap by auto
      then have "i \<noteq> []" using link_nonempty[OF ok] by blast
      with i Some shape[OF e] show ?thesis by simp
    qed
  qed
  show "\<forall>e \<in> set events. event_kind e = MK_NO_DATA" using x by (auto simp: event_kind_def split: if_splits)
  show "distinct (map fe_metric_instance events)" using x by (auto split: if_splits)
qed

text \<open>The context of a scan under the invariant.\<close>

lemma scan_context_facts:
  assumes "monitor_inv M s"
  shows "\<forall>i \<in> fst ` set (sx_instances (scan_context p s)). single_key M i"
    "\<forall>(k, i) \<in> set (sx_baselines (scan_context p s)). link M k i \<and> i \<in> fst ` set (sx_instances (scan_context p s))"
  using assms
  by (auto simp: scan_context_def Let_def build_instances_map_def build_baselines_map_def monitor_inv_def split: if_splits)

definition event_key :: "found_event \<Rightarrow> string \<times> ma_kind" where
  "event_key e = (fe_metric_instance e, event_kind e)"

lemma scan_events:
  assumes inv: "monitor_inv M s" and ok: "tuples_ok M" "store_ok M" and ths: "list_all valid_threshold (mp_threshold p)"
    and det: "detection M p metric (scan_context p s) time (Inr (alerts, infos, missing)) thr backs"
  defines "imap \<equiv> sx_instances (scan_context p s)"
  shows "\<forall>e \<in> set (alerts @ infos @ missing). link M (fe_metric_instance e) (fe_instance e) \<and>
      (mp_source p \<noteq> NoSource \<longrightarrow> fe_instance e \<in> fst ` set imap)"
    "distinct (map event_key (alerts @ missing))"
proof -
  note ctx = scan_context_facts[OF inv, of p, folded imap_def]
  have a: "(\<forall>e \<in> set (alerts @ infos). link M (fe_metric_instance e) (fe_instance e) \<and>
      (mp_source p \<noteq> NoSource \<longrightarrow> fe_instance e \<in> fst ` set imap)) \<and> (\<forall>e \<in> set alerts. event_kind e = MK_ALERT) \<and>
      distinct (map fe_metric_instance alerts)"
  proof (cases "''threshold'' \<in> set (mp_enable_alerts p)")
    case True
    with det have "detect_threshold_alerts M p metric imap time = Inr (alerts, infos)" by (simp add: detection_def imap_def)
    from threshold_event_facts[OF this ok ctx(1) ths] show ?thesis by blast
  qed (use det in \<open>simp add: detection_def\<close>)
  have m: "(\<forall>e \<in> set missing. link M (fe_metric_instance e) (fe_instance e) \<and> fe_instance e \<in> fst ` set imap) \<and>
      (\<forall>e \<in> set missing. event_kind e = MK_NO_DATA) \<and> distinct (map fe_metric_instance missing)"
  proof (cases "''no_data'' \<in> set (mp_enable_alerts p)")
    case True
    with det have "detect_no_data_alerts M p metric (sx_baselines (scan_context p s)) imap time = Inr missing"
      by (simp add: detection_def imap_def)
    from no_data_event_facts[OF this ok(1) ctx] show ?thesis by blast
  qed (use det in \<open>simp add: detection_def\<close>)
  from a m show "\<forall>e \<in> set (alerts @ infos @ missing). link M (fe_metric_instance e) (fe_instance e) \<and>
      (mp_source p \<noteq> NoSource \<longrightarrow> fe_instance e \<in> fst ` set imap)" by auto
  have "distinct (map event_key alerts)" "distinct (map event_key missing)"
    using a m by (auto simp: event_key_def distinct_map inj_on_def)
  moreover have "event_key ` set alerts \<inter> event_key ` set missing = {}" using a m by (auto simp: event_key_def)
  ultimately show "distinct (map event_key (alerts @ missing))" by simp
qed
section \<open>A scan keeps the invariant\<close>

lemma evolving_active:
  assumes "list_all2 evolves xs ys" "distinct (map active_alert_key (filter is_new xs))"
  shows "distinct (map active_alert_key (filter is_new ys))"
    "active_alert_key ` set (filter is_new ys) \<subseteq> active_alert_key ` set (filter is_new xs)"
proof -
  have "distinct (map active_alert_key (filter is_new ys)) \<and>
      active_alert_key ` set (filter is_new ys) \<subseteq> active_alert_key ` set (filter is_new xs)"
    using assms
  proof (induction rule: list_all2_induct)
    case (Cons x xs y ys)
    have key: "active_alert_key y = active_alert_key x" "is_new y \<longrightarrow> is_new x"
      using Cons.hyps(1) by (simp_all add: evolves_def active_alert_key_def)
    have IH: "distinct (map active_alert_key (filter is_new ys))"
      "active_alert_key ` set (filter is_new ys) \<subseteq> active_alert_key ` set (filter is_new xs)"
      using Cons.IH Cons.prems by (auto split: if_splits)
    show ?case
    proof (cases "is_new y")
      case True
      then have "active_alert_key x \<notin> active_alert_key ` set (filter is_new xs)" using key(2) Cons.prems by simp
      with IH key True show ?thesis by auto
    next
      case False
      with IH show ?thesis by auto
    qed
  qed simp
  then show "distinct (map active_alert_key (filter is_new ys))"
    "active_alert_key ` set (filter is_new ys) \<subseteq> active_alert_key ` set (filter is_new xs)" by blast+
qed

lemma found_instances_from: "(k, i) \<in> set (found_instances X es) \<Longrightarrow> \<exists>e \<in> set es. k = fe_metric_instance e \<and> i = fe_instance e"
proof -
  have "set (fold (\<lambda>e out. if fe_metric_instance e \<noteq> [] \<and> fe_instance e \<noteq> [] \<and> fe_instance e \<in> fst ` set (sx_instances X) \<and>
              fe_metric_instance e \<notin> fst ` set (sx_baselines X)
            then tsave fst (fe_metric_instance e, fe_instance e) out else out) es out)
      \<subseteq> set out \<union> (\<lambda>e. (fe_metric_instance e, fe_instance e)) ` set es" for out
  proof (induction es arbitrary: out)
    case (Cons e es)
    have "set (tsave fst x out) \<subseteq> insert x (set out)" for x :: "string \<times> string" by (auto simp: tsave_def)
    from subset_trans[OF Cons[of "tsave fst (fe_metric_instance e, fe_instance e) out"] Un_mono[OF this subset_refl]] Cons[of out]
    show ?case by auto
  qed simp
  from this[of "[]"] show "(k, i) \<in> set (found_instances X es) \<Longrightarrow> ?thesis" by (auto simp: found_instances_def)
qed

lemma sync_baselines_from:
  assumes "b \<in> set (md_baselines (sync_baselines p X es s))"
  shows "b \<in> set (md_baselines s) \<or> (\<exists>e \<in> set es. bl_policy b = mp_id p \<and> bl_metric_instance b = fe_metric_instance e \<and> bl_instance b = fe_instance e)"
  using assms
  by (auto simp: sync_baselines_def baseline_sync_def new_baseline_def dest!: found_instances_from split: if_splits)

lemma unknown_event:
  assumes inv: "monitor_inv M s" and ok: "tuples_ok M" and e: "alert_of_event M (sx_active (scan_context p s)) e = None"
    and l: "link M (fe_metric_instance e) (fe_instance e)"
    and scope: "mp_source p \<noteq> NoSource \<longrightarrow> fe_instance e \<in> fst ` set (sx_instances (scan_context p s))"
    and a: "a \<in> set (md_alerts s)" "is_new a"
  shows "active_alert_key a \<noteq> (mp_id p, event_key e)"
proof
  assume k: "active_alert_key a = (mp_id p, event_key e)"
  have la: "link M (ma_metric_instance a) (ma_instance a)" using inv a by (auto simp: monitor_inv_def linked_alert_def)
  with k l have "ma_instance a = fe_instance e"
    using link_unique[OF ok] by (auto simp: active_alert_key_def event_key_def)
  then have "a \<in> set (sx_active (scan_context p s))"
    using a k scope by (auto simp: scan_context_def Let_def get_active_alerts_def active_alert_key_def)
  moreover have "alert_metric_instance M a = fe_metric_instance e \<and> ma_kind a = event_kind e"
    using k link_nonempty[OF ok la] by (simp add: active_alert_key_def event_key_def alert_metric_instance_def)
  ultimately show False using e by (auto simp: alert_of_event_def find_None_iff)
qed

lemma created_keys:
  assumes "list_all2 (\<lambda>e a. \<exists>k. a = new_monitor_alert p imap time k e) es as"
  shows "map active_alert_key as = map (\<lambda>e. (mp_id p, event_key e)) es"
    "\<forall>a \<in> set as. is_new a \<and> (\<exists>e \<in> set es. ma_metric_instance a = fe_metric_instance e \<and> ma_instance a = fe_instance e)"
  using assms
  by (induction rule: list_all2_induct) (auto simp: new_monitor_alert_def active_alert_key_def event_key_def is_new_def)

lemma notices_same:
  assumes "list_all2 notices_only as bs"
  shows "map ma_id bs = map ma_id as" "map active_alert_key bs = map active_alert_key as" "filter is_new bs = bs \<longleftrightarrow> filter is_new as = as"
    "\<forall>b \<in> set bs. \<exists>a \<in> set as. ma_metric_instance b = ma_metric_instance a \<and> ma_instance b = ma_instance a \<and> is_new b = is_new a"
proof -
  have f: "ma_id b = ma_id a \<and> active_alert_key b = active_alert_key a \<and> is_new b = is_new a \<and>
      ma_metric_instance b = ma_metric_instance a \<and> ma_instance b = ma_instance a" if "notices_only a b" for a b
    using unlogged_fields[of b a] that by (simp add: notices_only_def active_alert_key_def is_new_def)
  show "map ma_id bs = map ma_id as" "map active_alert_key bs = map active_alert_key as"
    "\<forall>b \<in> set bs. \<exists>a \<in> set as. ma_metric_instance b = ma_metric_instance a \<and> ma_instance b = ma_instance a \<and> is_new b = is_new a"
    using assms by (induction rule: list_all2_induct) (auto dest!: f)
  have "list_all is_new bs = list_all is_new as" using assms by (induction rule: list_all2_induct) (auto dest!: f)
  then show "filter is_new bs = bs \<longleftrightarrow> filter is_new as = as" by (simp add: filter_id_conv list_all_iff)
qed

definition evolve_all :: "monitor_db \<Rightarrow> monitor_db \<Rightarrow> bool" where
  "evolve_all s t \<longleftrightarrow> (\<forall>a \<in> set (md_alerts s). \<exists>b \<in> set (md_alerts t). evolves a b)"

lemma evolve_all_trans: "evolve_all s t \<Longrightarrow> evolve_all t u \<Longrightarrow> evolve_all s u"
  unfolding evolve_all_def using evolves_trans by blast

lemma evolve_all_refl: "evolve_all s s"
  unfolding evolve_all_def using evolves_refl by blast

lemma subset_disjoint: "A \<subseteq> B \<Longrightarrow> C \<inter> B = {} \<Longrightarrow> A \<inter> C = {}"
  by blast

lemma fresh_key: "(\<And>a. a \<in> set xs \<Longrightarrow> is_new a \<Longrightarrow> active_alert_key a \<noteq> k) \<Longrightarrow> k \<notin> active_alert_key ` set (filter is_new xs)"
  by auto

lemma scan_run_inv:
  assumes inv: "monitor_inv M s" and ok: "tuples_ok M" "store_ok M" and ths: "list_all valid_threshold (mp_threshold p)"
    and run: "scan_run M clock uid p time s = (r, t)"
  shows "monitor_inv M t \<and> evolve_all s t \<and> same_config s t"
proof -
  let ?X = "scan_context p s" let ?key = active_alert_key
  have keyed: "keyed ma_id (md_alerts s)" "distinct (map ?key (filter is_new (md_alerts s)))"
    using inv by (auto simp: monitor_inv_def wf_monitor_def keyed_def)
  from scan_run_effect[OF keyed(1) run] obtain R where R: "scan_effect M p time s r t R" .
  let ?es = "rp_alerts R @ rp_missing R" let ?fresh = "fresh_events M (sx_active ?X) ?es"
  from R obtain as new where t: "md_alerts t = as @ new" "list_all2 notices_only (rp_created R) new"
    "list_all2 (\<lambda>a b. unlogged b = unlogged (scanned_row M p time (sx_active ?X) R a)) (md_alerts s) as"
    by (auto simp: scan_effect_def Let_def appended_def)
  have ev: "list_all2 evolves (md_alerts s) as"
    using t(3) evolves_scanned[OF keyed(1) active_rows]
    by (auto simp: scanned_row_def list_all2_conv_all_nth)
  from R have created: "list_all2 (\<lambda>e a. \<exists>k. a = new_monitor_alert p (sx_instances ?X) time k e) ?fresh (rp_created R)"
    and kc: "keyed ma_id (md_alerts s @ rp_created R)" and cfg: "same_config s t"
    and base: "md_baselines t = md_baselines (sync_baselines p ?X (rp_alerts R @ rp_infos R) s)"
    by (simp_all add: scan_effect_def Let_def)
  have events: "(\<forall>e \<in> set (rp_alerts R @ rp_infos R @ rp_missing R). link M (fe_metric_instance e) (fe_instance e) \<and>
      (mp_source p \<noteq> NoSource \<longrightarrow> fe_instance e \<in> fst ` set (sx_instances ?X))) \<and> distinct (map event_key ?es)"
  proof (cases "r \<noteq> Inr () \<or> (mp_source p \<noteq> NoSource \<and> sx_instances ?X = [])")
    case True
    with R show ?thesis by (auto simp: scan_effect_def Let_def)
  next
    case False
    with R obtain m where "detection M p m ?X time (Inr (rp_alerts R, rp_infos R, rp_missing R)) (rp_threshold R) (rp_back R)"
      by (auto simp: scan_effect_def Let_def)
    from scan_events[OF inv ok ths this] show ?thesis by blast
  qed
  note ck = created_keys[OF created] and ns = notices_same[OF t(2)]
  have "map ma_id as = map ma_id (md_alerts s)"
    using ev by (induction rule: list_all2_induct) (simp_all add: evolves_def)
  then have "map ma_id (md_alerts t) = map ma_id (md_alerts s @ rp_created R)" using ns(1) by (simp add: t(1))
  then have k1: "keyed ma_id (md_alerts t)" using kc by (simp add: keyed_def)
  have fresh_sub: "set ?fresh \<subseteq> set ?es" by (auto simp: fresh_events_def)
  have k2: "distinct (map ?key (filter is_new (md_alerts t)))"
  proof -
    have new: "filter is_new new = new" using ns(3) ck(2) by (simp add: filter_id_conv)
    have "map ?key new = map (\<lambda>e. (mp_id p, event_key e)) ?fresh" using ns(2) ck(1) by simp
    moreover have "distinct (map (\<lambda>e. (mp_id p, event_key e)) ?fresh)"
    proof -
      have "distinct (map event_key ?fresh)" using events by (simp only: fresh_events_def distinct_map_filter)
      then show ?thesis by (simp add: distinct_map inj_on_def)
    qed
    moreover have "?key ` set (filter is_new as) \<inter> (\<lambda>e. (mp_id p, event_key e)) ` set ?fresh = {}"
    proof -
      have old: "(mp_id p, event_key e) \<notin> ?key ` set (filter is_new (md_alerts s))" if "e \<in> set ?fresh" for e
      proof -
        have e: "alert_of_event M (sx_active ?X) e = None" "e \<in> set (rp_alerts R @ rp_infos R @ rp_missing R)"
          using that by (auto simp: fresh_events_def)
        have "link M (fe_metric_instance e) (fe_instance e)"
          "mp_source p \<noteq> NoSource \<longrightarrow> fe_instance e \<in> fst ` set (sx_instances ?X)"
          using bspec[OF conjunct1[OF events] e(2)] by blast+
        from unknown_event[OF inv ok(1) e(1) this] show ?thesis by (rule fresh_key)
      qed
      have "(\<lambda>e. (mp_id p, event_key e)) ` set ?fresh \<inter> ?key ` set (filter is_new (md_alerts s)) = {}"
        unfolding disjoint_iff by (intro allI impI, erule imageE) (simp only: old not_False_eq_True)
      from subset_disjoint[OF evolving_active(2)[OF ev keyed(2)] this] show ?thesis .
    qed
    ultimately show ?thesis using evolving_active(1)[OF ev keyed(2)] new by (simp add: t(1))
  qed
  have linked: "linked_alert M b" if "b \<in> set (md_alerts t)" "is_new b" for b
  proof -
    consider "b \<in> set as" | "b \<in> set new" using \<open>b \<in> set (md_alerts t)\<close> by (auto simp: t(1))
    then show ?thesis
    proof cases
      case 1
      then obtain a where "a \<in> set (md_alerts s)" "evolves a b" using ev by (metis in_set_conv_nth list_all2_conv_all_nth)
      then show ?thesis using inv that(2) by (auto simp: monitor_inv_def linked_alert_def evolves_def)
    next
      case 2
      then obtain e where "e \<in> set ?fresh" "ma_metric_instance b = fe_metric_instance e" "ma_instance b = fe_instance e"
        using ns(4) ck(2) by metis
      then show ?thesis using events fresh_sub by (auto simp: linked_alert_def)
    qed
  qed
  have "link M (bl_metric_instance b) (bl_instance b)" if "b \<in> set (md_baselines t)" for b
    using sync_baselines_from[OF that[unfolded base]]
  proof
    assume "b \<in> set (md_baselines s)"
    then show ?thesis using inv by (simp add: monitor_inv_def)
  next
    assume "\<exists>e \<in> set (rp_alerts R @ rp_infos R). bl_policy b = mp_id p \<and> bl_metric_instance b = fe_metric_instance e \<and> bl_instance b = fe_instance e"
    then obtain e where e: "e \<in> set (rp_alerts R @ rp_infos R)" "bl_metric_instance b = fe_metric_instance e" "bl_instance b = fe_instance e"
      by blast
    then have "e \<in> set (rp_alerts R @ rp_infos R @ rp_missing R)" by auto
    from bspec[OF conjunct1[OF events] this] e show ?thesis by simp
  qed
  then have "\<forall>b \<in> set (md_baselines t). link M (bl_metric_instance b) (bl_instance b)" by (rule ballI)
  moreover have "\<forall>b \<in> set (md_alerts t). is_new b \<longrightarrow> linked_alert M b" using linked by (intro ballI impI)
  moreover have "wf_monitor t"
    using k1 k2 cfg inv by (simp add: wf_monitor_def monitor_inv_def same_config_def keyed_def)
  ultimately have "monitor_inv M t" using cfg inv by (simp add: monitor_inv_def same_config_def)
  moreover have "evolve_all s t"
    unfolding evolve_all_def
  proof
    fix a assume "a \<in> set (md_alerts s)"
    then obtain i where "i < length (md_alerts s)" "a = md_alerts s ! i" by (metis in_set_conv_nth)
    then have "as ! i \<in> set (md_alerts t)" "evolves a (as ! i)" using ev by (auto simp: t(1) list_all2_conv_all_nth)
    then show "\<exists>b \<in> set (md_alerts t). evolves a b" by blast
  qed
  ultimately show ?thesis using cfg by blast
qed
section \<open>Every operation keeps the invariant\<close>

definition keeps :: "monitor_env \<Rightarrow> monitor_db \<Rightarrow> monitor_db \<Rightarrow> bool" where
  "keeps M s t \<longleftrightarrow> monitor_inv M s \<longrightarrow> monitor_inv M t \<and> evolve_all s t"

lemma keeps_refl [simp]: "keeps M s s"
  by (simp add: keeps_def evolve_all_refl)

lemma keeps_trans: "keeps M s t \<Longrightarrow> keeps M t u \<Longrightarrow> keeps M s u"
  unfolding keeps_def using evolve_all_trans by blast

lemma keeps_rows:
  assumes "rows evolves s t"
  shows "keeps M s t"
  unfolding keeps_def
proof (intro impI conjI)
  assume inv: "monitor_inv M s"
  note ev = rows_list[OF assms]
  have "map ma_id (md_alerts t) = map ma_id (md_alerts s)"
    using ev by (induction rule: list_all2_induct) (simp_all add: evolves_def)
  moreover have "distinct (map active_alert_key (filter is_new (md_alerts t)))"
    using evolving_active(1)[OF ev] inv by (simp add: monitor_inv_def wf_monitor_def keyed_def)
  moreover have "linked_alert M b" if b: "b \<in> set (md_alerts t)" "is_new b" for b
  proof -
    from rows_back[OF assms b(1)] obtain a where "a \<in> set (md_alerts s)" "evolves a b" .
    then show ?thesis using inv b(2) by (auto simp: monitor_inv_def linked_alert_def evolves_def)
  qed
  ultimately show "monitor_inv M t"
    using inv by (simp add: monitor_inv_def wf_monitor_def keyed_def rows_frame[OF assms])
  show "evolve_all s t" unfolding evolve_all_def using rows_of[OF assms] by metis
qed

lemma keeps_notices: "rows notices_only s t \<Longrightarrow> keeps M s t"
  by (rule keeps_rows, erule rows_mono) (rule evolves_notices)

lemma keeps_notify: "keeps M s (notify_alerts M p now as act operator reason scope s)"
  by (rule keeps_notices[OF notify_rows])

lemma keeps_other:
  assumes "md_alerts t = md_alerts s"
    and "monitor_inv M s \<Longrightarrow> (\<forall>b \<in> set (md_baselines t). link M (bl_metric_instance b) (bl_instance b)) \<and>
      (\<forall>r \<in> set (md_instances t). single_key M (mi_id r)) \<and> keyed mp_id (md_policies t) \<and>
      (\<forall>p \<in> set (md_policies t). list_all valid_threshold (mp_threshold p))"
  shows "keeps M s t"
  unfolding keeps_def
proof (intro impI conjI)
  assume inv: "monitor_inv M s"
  from assms(2)[OF this] inv show "monitor_inv M t" by (simp add: monitor_inv_def wf_monitor_def assms(1))
  show "evolve_all s t" using evolve_all_refl[of s] by (simp add: evolve_all_def assms(1))
qed

text \<open>The parts of the invariant, for the operations on one table.\<close>

lemma inv_parts:
  assumes "monitor_inv M s"
  shows "keyed ma_id (md_alerts s)" "keyed mp_id (md_policies s)"
    "\<forall>b \<in> set (md_baselines s). link M (bl_metric_instance b) (bl_instance b)"
    "\<forall>r \<in> set (md_instances s). single_key M (mi_id r)" "\<forall>p \<in> set (md_policies s). list_all valid_threshold (mp_threshold p)"
  using assms by (simp_all add: monitor_inv_def wf_monitor_def)

lemma keeps_baselines:
  assumes "monitor_inv M s \<Longrightarrow> \<forall>b \<in> set bs. link M (bl_metric_instance b) (bl_instance b)"
  shows "keeps M s (s\<lparr>md_baselines := bs\<rparr>)"
  by (rule keeps_other) (simp_all add: assms inv_parts)

lemma keeps_policies:
  assumes "monitor_inv M s \<Longrightarrow> keyed mp_id ps \<and> (\<forall>p \<in> set ps. list_all valid_threshold (mp_threshold p))"
  shows "keeps M s (s\<lparr>md_policies := ps\<rparr>)"
  by (rule keeps_other) (simp_all add: assms inv_parts)

lemma keeps_clear: "keeps M s (baseline_clear p s)"
  unfolding baseline_clear_def by (rule keeps_baselines) (simp add: inv_parts)

lemma found_links:
  "query_metric_instances M p imap now s = Some found \<Longrightarrow> \<forall>(k, i) \<in> set found. link M k i"
proof -
  assume "query_metric_instances M p imap now s = Some found"
  then obtain m time rs where q: "query_aggregation_metrics M p m time (mp_period p) 1 = Inr rs"
    "found = fold (\<lambda>r out. let t = group_tuple p r; i = instance_of_tuple M t in
        if i \<in> fst ` set imap then tsave fst (mo_str M t, i) out else out) rs []"
    by (auto simp: query_metric_instances_def rbind_Inr split: sum.splits)
  have ne: "group_tuple p r \<noteq> []" for r using query_group[OF q(1)] by (simp add: group_tuple_def)
  have "\<forall>(k, i) \<in> set (fold (\<lambda>r out. let t = group_tuple p r; i = instance_of_tuple M t in
        if i \<in> fst ` set imap then tsave fst (mo_str M t, i) out else out) rs out). link M k i"
    if "\<forall>(k, i) \<in> set out. link M k i" for out
    using that
  proof (induction rs arbitrary: out)
    case (Cons r rs)
    have "\<forall>(k, i) \<in> set (tsave fst (mo_str M (group_tuple p r), instance_of_tuple M (group_tuple p r)) out). link M k i"
      using Cons.prems link_instance[OF ne] by (auto simp: tsave_def)
    with Cons show ?case by (simp add: Let_def)
  qed simp
  from this[of "[]"] q(2) show ?thesis by simp
qed

lemma keeps_refresh: "keeps M s (baseline_refresh M p now s)"
proof -
  have "keeps M s (let t = baseline_clear p s in t\<lparr>md_baselines := md_baselines t @ map (new_baseline p) found\<rparr>)"
    if f: "query_metric_instances M p imap now s = Some found" for imap found
  proof -
    have "keeps M (baseline_clear p s) (baseline_clear p s\<lparr>md_baselines := md_baselines (baseline_clear p s) @ map (new_baseline p) found\<rparr>)"
      by (rule keeps_baselines) (use found_links[OF f] in \<open>auto simp: new_baseline_def inv_parts\<close>)
    then show ?thesis unfolding Let_def by (rule keeps_trans[OF keeps_clear])
  qed
  from this[unfolded Let_def] show ?thesis
    by (auto simp: baseline_refresh_def Let_def keeps_clear simp del: list.map split: option.splits list.splits)
qed

lemma evolves_closed [simp]: "evolves a (closed now operator reason a)"
  by (simp add: closed_def evolves_def is_new_def)

lemma keeps_close: "keeps M s (close_alerts M p now as operator reason scope s)"
proof -
  have u: "keeps M s (update_alerts ids (closed now operator reason) s)" for ids
    by (intro keeps_rows rows_update) simp_all
  show ?thesis by (auto simp: close_alerts_def Let_def intro: u keeps_trans[OF u keeps_notify])
qed

lemma keeps_last_run: "keeps M s (set_last_run i time s)"
  unfolding set_last_run_def
proof (rule keeps_policies)
  assume inv: "monitor_inv M s"
  have "keyed mp_id (tupdate (\<lambda>p. mp_id p = i) (\<lambda>p. p\<lparr>mp_last_run_time := Some time\<rparr>) (md_policies s))"
    by (rule keyed_tupdate) (simp_all add: inv_parts[OF inv])
  then show "keyed mp_id (tupdate (\<lambda>p. mp_id p = i) (\<lambda>p. p\<lparr>mp_last_run_time := Some time\<rparr>) (md_policies s)) \<and>
      (\<forall>p \<in> set (tupdate (\<lambda>p. mp_id p = i) (\<lambda>p. p\<lparr>mp_last_run_time := Some time\<rparr>) (md_policies s)). list_all valid_threshold (mp_threshold p))"
    using inv_parts(5)[OF inv] by (auto simp: tupdate_def)
qed

lemma keeps_save: "valid_policy p \<Longrightarrow> keeps M s (save_policy p s)"
  unfolding save_policy_def
proof (rule keeps_policies, intro conjI)
  assume p: "valid_policy p" and inv: "monitor_inv M s"
  show "keyed mp_id (tsave mp_id p (md_policies s))" by (rule keyed_tsave[OF inv_parts(2)[OF inv]])
  have "set (tsave mp_id p (md_policies s)) \<subseteq> insert p (set (md_policies s))" by (auto simp: tsave_def)
  with p inv_parts(5)[OF inv] show "\<forall>p \<in> set (tsave mp_id p (md_policies s)). list_all valid_threshold (mp_threshold p)"
    by (auto simp: valid_policy_def)
qed

lemma validate_valid: "validate_policy keys q = Inr p \<Longrightarrow> valid_policy p"
  by (auto simp: validate_policy_def valid_policy_def split: if_splits)

lemma keeps_update_baselines: "keeps M s (update_policy_baselines M p now operator reset s)"
  by (auto simp: update_policy_baselines_def close_active_no_data_alerts_def
      intro: keeps_refresh keeps_trans[OF keeps_close keeps_refresh] keeps_trans[OF keeps_close keeps_clear])

lemma keeps_enable_change: "keeps M s (handle_policy_enable_change M p old now s)"
  by (simp add: handle_policy_enable_change_def keeps_close keeps_last_run)

lemma keeps_close_threshold: "keeps M s (close_active_threshold_alerts M old p now operator s)"
  by (simp add: close_active_threshold_alerts_def Let_def keeps_close)

lemma keeps_create: "policy_create M keys q now s = (r, t) \<Longrightarrow> keeps M s t"
  by (auto simp: policy_create_def Let_def split: sum.splits if_splits
      dest!: validate_valid intro: keeps_save keeps_trans[OF keeps_save keeps_update_baselines])

lemma keeps_policy_update:
  assumes "policy_update M keys q sent user now s = (r, t)"
  shows "keeps M s t"
proof -
  have "keeps M s (if sent then handle_policy_enable_change M p (mp_enable old) now v else v)"
    if "validate_policy keys q = Inr p" "u = (if should_update_policy_baselines old p
          then update_policy_baselines M p now user (baseline_state_changed old p) (save_policy p s) else save_policy p s)"
      "v = close_active_threshold_alerts M old p now user u" for p old u v
  proof -
    have "keeps M s u" using keeps_save[OF validate_valid[OF that(1)]] keeps_trans[OF _ keeps_update_baselines] by (auto simp: that(2))
    then have "keeps M s v" unfolding that(3) by (rule keeps_trans[OF _ keeps_close_threshold])
    then show ?thesis using keeps_trans[OF _ keeps_enable_change] by auto
  qed
  with assms show ?thesis by (auto simp: policy_update_def Let_def split: option.splits sum.splits)
qed

lemma keeps_destroy:
  assumes "policy_destroy M i user now s = (r, t)"
  shows "keeps M s t"
proof -
  have "keeps M u (u\<lparr>md_policies := filter (\<lambda>q. mp_id q \<noteq> i) (md_policies u)\<rparr>)" for u
    by (rule keeps_policies) (auto simp: keyed_filter inv_parts)
  from keeps_trans[OF keeps_trans[OF keeps_clear keeps_close] this] assms show ?thesis
    by (auto simp: policy_destroy_def Let_def split: option.splits)
qed

text \<open>A request that closes an alert.\<close>

definition close_request :: "bool \<Rightarrow> alert_request" where
  "close_request refresh = \<lparr>ar_status = Some M_CLOSED, ar_edit = (\<lambda>a. a), ar_update_baseline = refresh\<rparr>"

lemma keeps_drop: "keeps M s (drop_baseline M q now a s)"
proof -
  have "keeps M s (s\<lparr>md_baselines := filter P (md_baselines s)\<rparr>)" for P
    by (rule keeps_baselines) (simp add: inv_parts)
  then show ?thesis by (auto simp: drop_baseline_def keeps_refresh split: option.splits)
qed

lemma drop_baseline_alerts: "md_alerts (drop_baseline M q now a s) = md_alerts s"
  by (auto simp: drop_baseline_def baseline_refresh_def baseline_clear_def Let_def split: option.splits list.splits)

lemma keeps_alert_close:
  assumes "alert_update M i (close_request refresh) user now s = (r, t)"
  shows "keeps M s t"
proof (cases "monitor_inv M s")
  case True
  show ?thesis
  proof (cases "ma_find i s")
    case None
    with assms show ?thesis by (simp add: alert_update_def)
  next
    case (Some a)
    let ?b = "edited_alert (close_request refresh) user now a"
    let ?u = "drop_baseline M (close_request refresh) now a s"
    have ev: "evolves a ?b" by (simp add: edited_alert_def close_request_def Let_def evolves_def is_new_def)
    have "rows evolves ?u (update_alerts {i} (\<lambda>_. ?b) ?u)"
    proof (rule rows_update)
      fix x assume "x \<in> set (md_alerts ?u)" "ma_id x \<in> {i}"
      then have "x = a" using tfind_iff[OF inv_parts(1)[OF True], of i] Some
        by (metis drop_baseline_alerts option.inject singletonD)
      with ev show "evolves x ?b" by simp
    qed simp
    then have "keeps M s (update_alerts {i} (\<lambda>_. ?b) ?u)" using keeps_trans[OF keeps_drop keeps_rows] by blast
    then show ?thesis using assms Some keeps_trans[OF _ keeps_notify]
      by (auto simp: alert_update_def Let_def split: if_splits option.splits)
  qed
qed (simp add: keeps_def)
section \<open>Instances\<close>

lemma keeps_instances:
  assumes "md_alerts t = md_alerts s" "md_baselines t = md_baselines s"
    "map mp_id (md_policies t) = map mp_id (md_policies s)" "mp_threshold ` set (md_policies t) \<subseteq> mp_threshold ` set (md_policies s)"
    "monitor_inv M s \<Longrightarrow> \<forall>r \<in> set (md_instances t). single_key M (mi_id r)"
  shows "keeps M s t"
proof (rule keeps_other[OF assms(1)])
  assume inv: "monitor_inv M s"
  have "list_all valid_threshold (mp_threshold p)" if "p \<in> set (md_policies t)" for p
  proof -
    from that assms(4) obtain q where "q \<in> set (md_policies s)" "mp_threshold p = mp_threshold q" by blast
    with inv_parts(5)[OF inv] show ?thesis by simp
  qed
  then show "(\<forall>b \<in> set (md_baselines t). link M (bl_metric_instance b) (bl_instance b)) \<and>
      (\<forall>r \<in> set (md_instances t). single_key M (mi_id r)) \<and> keyed mp_id (md_policies t) \<and>
      (\<forall>p \<in> set (md_policies t). list_all valid_threshold (mp_threshold p))"
    using inv_parts(2,3)[OF inv] assms(2,3) assms(5)[OF inv] by (simp add: keyed_def)
qed

lemma cleanup_source_fields [simp]: "mp_id (cleanup_source gone p) = mp_id p" "mp_threshold (cleanup_source gone p) = mp_threshold p"
  by (auto simp: cleanup_source_def Let_def split: policy_source.splits)

lemma keeps_cleanup: "keeps M s (cleanup_policy_sources gone s)"
  by (rule keeps_instances) (auto simp: cleanup_policy_sources_def inv_parts)

lemma keeps_instance_map:
  assumes "\<And>r. mi_id (f r) = mi_id r"
  shows "keeps M s (s\<lparr>md_instances := tupdate P f (md_instances s)\<rparr>)"
  by (rule keeps_instances) (use assms inv_parts(4) in \<open>auto simp: tupdate_def\<close>)

lemma keeps_remove: "keeps M s (remove_monitor_instance ids s)"
  unfolding remove_monitor_instance_def mark_removed_def
  by (rule keeps_trans[OF keeps_instance_map keeps_cleanup]) simp

lemma keeps_delete: "keeps M s (delete_instances ids s)"
  by (rule keeps_instances) (auto simp: delete_instances_def inv_parts)

lemma keeps_orgs: "keeps M s (add_organizations ds s)"
  by (rule keeps_instances) (auto simp: add_organizations_def inv_parts)

lemma keeps_active: "keeps M s (set_active ids b s)"
  unfolding set_active_def by (rule keeps_instance_map) simp

lemma discovered_single:
  assumes "instances_by_metrics M ask names objs out = Inr found" "\<forall>obj \<in> set objs. length (mj_instance_id_keys obj) \<le> 1"
    "\<forall>d \<in> set out. single_key M (mi_id (fst (snd d)))"
  shows "\<forall>d \<in> set found. single_key M (mi_id (fst (snd d)))"
  using assms
proof (induction M ask names objs out rule: instances_by_metrics.induct)
  case (2 M ask names obj objs out)
  have one: "single_key M (mi_id (fst (snd (discovered_instance M i keys r))))" if "length keys \<le> 1" "keys \<noteq> []" for i keys r
    using that by (cases keys) (auto simp: discovered_instance_def Let_def single_key_def split: option.splits)
  have fold: "\<forall>d \<in> set (fold (\<lambda>r. tsave fst (discovered_instance M i keys r)) rs out). single_key M (mi_id (fst (snd d)))"
    if "length keys \<le> 1" "keys \<noteq> []" "\<forall>d \<in> set out. single_key M (mi_id (fst (snd d)))" for i keys rs out
    using that(3)
  proof (induction rs arbitrary: out)
    case (Cons r rs)
    have "set (tsave fst (discovered_instance M i keys r) out) \<subseteq> insert (discovered_instance M i keys r) (set out)"
      by (auto simp: tsave_def)
    with Cons.prems one[OF that(1,2)] have "\<forall>d \<in> set (tsave fst (discovered_instance M i keys r) out). single_key M (mi_id (fst (snd d)))"
      by blast
    from Cons.IH[OF this] show ?case by simp
  qed simp
  show ?case
  proof (cases "map_of (rev names) (mj_name obj)")
    case None
    then have "instances_by_metrics M ask names objs out = Inr found" using "2.prems"(1) by simp
    from "2.IH"(1)[OF None this] "2.prems"(2,3) show ?thesis by simp
  next
    case (Some i)
    show ?thesis
    proof (cases "mj_default_metric obj = []")
      case True
      then have "instances_by_metrics M ask names objs out = Inr found" using "2.prems"(1) Some by simp
      from "2.IH"(2)[OF Some True this] "2.prems"(2,3) show ?thesis by simp
    next
      case False
      with "2.prems"(1) Some obtain rs where rs: "ask (mj_default_metric obj) = Inr rs"
        "instances_by_metrics M ask names objs (if mj_instance_id_keys obj = [] then out
           else fold (\<lambda>r. tsave fst (discovered_instance M i (mj_instance_id_keys obj) r)) rs out) = Inr found"
        by (auto simp: rbind_Inr)
      have "\<forall>d \<in> set (if mj_instance_id_keys obj = [] then out
           else fold (\<lambda>r. tsave fst (discovered_instance M i (mj_instance_id_keys obj) r)) rs out). single_key M (mi_id (fst (snd d)))"
        using fold[of "mj_instance_id_keys obj"] "2.prems"(2,3) by (cases "mj_instance_id_keys obj = []") simp_all
      from "2.IH"(3)[OF Some False rs(2) _ this] "2.prems"(2) show ?thesis by simp
    qed
  qed
qed simp

lemma keeps_sync:
  assumes "\<forall>d \<in> set found. single_key M (mi_id (fst (snd d)))"
  shows "keeps M s (sync_monitor_instances found s)"
proof -
  have add: "keeps M s (s\<lparr>md_instances := md_instances s @ map (fst \<circ> snd) (filter P found)\<rparr>)" for s and P :: "string \<times> instance_row \<times> int option \<Rightarrow> bool"
    by (rule keeps_instances) (use assms inv_parts(4) in auto)
  have drop: "keeps M s (if gone = {} then s else delete_instances gone (cleanup_policy_sources gone s))" for s gone
    by (simp add: keeps_trans[OF keeps_cleanup keeps_delete])
  have restore: "keeps M s (if backs = {} then s else add_organizations ds
      (s\<lparr>md_instances := tupdate P (\<lambda>r. r\<lparr>mi_is_deleted := False\<rparr>) (md_instances s)\<rparr>))" for s P and backs :: "string set" and ds
    by (auto intro!: keeps_trans[OF keeps_instance_map keeps_orgs])
  let ?autos = "filter mi_auto (md_instances s)" and ?seen = "fst ` set found"
  let ?deleted = "mi_id ` set (filter mi_is_deleted ?autos)"
  define gone where "gone = ?deleted - ?seen"
  define adds where "adds = filter (\<lambda>d. fst d \<notin> mi_id ` set (md_instances s)) found"
  define backs where "backs = ?seen \<inter> ?deleted"
  define missing where "missing = mi_id ` set ?autos - ?deleted - ?seen"
  define s1 where "s1 = (if gone = {} then s else delete_instances gone (cleanup_policy_sources gone s))"
  define s2 where "s2 = add_organizations adds (s1\<lparr>md_instances := md_instances s1 @ map (fst \<circ> snd) adds\<rparr>)"
  define s3 where "s3 = (if backs = {} then s2 else add_organizations (filter (\<lambda>d. fst d \<in> backs) found)
      (s2\<lparr>md_instances := tupdate (\<lambda>r. mi_id r \<in> backs \<and> mi_is_deleted r \<and> mi_auto r) (\<lambda>r. r\<lparr>mi_is_deleted := False\<rparr>) (md_instances s2)\<rparr>))"
  define twice where "twice = mi_id ` set (filter (\<lambda>r. mi_auto r \<and> \<not> mi_active r) (md_instances s3)) \<inter> missing"
  define s4 where "s4 = set_active ?seen True (set_active missing False s3)"
  have sync: "sync_monitor_instances found s = (if twice = {} then s4 else delete_instances twice (cleanup_policy_sources twice s4))"
    by (simp only: sync_monitor_instances_def Let_def gone_def adds_def backs_def missing_def s1_def s2_def s3_def s4_def twice_def)
  have "keeps M s s1" unfolding s1_def by (rule drop)
  moreover have "keeps M s1 s2" unfolding s2_def adds_def by (rule keeps_trans[OF add keeps_orgs])
  moreover have "keeps M s2 s3" unfolding s3_def by (rule restore)
  moreover have "keeps M s3 s4" unfolding s4_def by (rule keeps_trans[OF keeps_active keeps_active])
  moreover have "keeps M s4 (sync_monitor_instances found s)" unfolding sync by (rule drop)
  ultimately show ?thesis using keeps_trans by blast
qed

section \<open>Scans\<close>

lemma keeps_scan:
  assumes "tuples_ok M" "store_ok M" "list_all valid_threshold (mp_threshold p)" "scan_run M clock uid p time s = (r, t)"
  shows "keeps M s t"
  unfolding keeps_def using scan_run_inv[OF _ assms] by blast

lemma keeps_record:
  assumes "tuples_ok M" "store_ok M" "list_all valid_threshold (mp_threshold p)"
    "run_scan_and_record_success M clock uid p time s = (r, t)"
  shows "keeps M s t"
proof -
  obtain x u where u: "scan_run M clock uid (p\<lparr>mp_last_run_time := Some time\<rparr>) time s = (x, u)" by fastforce
  have k: "keeps M s u" by (rule keeps_scan[OF assms(1,2) _ u]) (simp add: assms(3))
  then show ?thesis using assms(4) u keeps_trans[OF k keeps_last_run]
    by (auto simp: run_scan_and_record_success_def split: sum.splits simp del: keeps_refl intro: keeps_refl)
qed

lemma keeps_backfill:
  assumes "tuples_ok M" "store_ok M" "list_all valid_threshold (mp_threshold p)"
  shows "backfill M clock uid p prev step i n s = (r, t) \<Longrightarrow> keeps M s t"
proof (induction n arbitrary: prev i s)
  case (Suc n)
  obtain x u where u: "run_scan_and_record_success M clock (uid i) p (prev + step) s = (x, u)" by fastforce
  have k: "keeps M s u" by (rule keeps_record[OF assms u])
  show ?case using Suc.prems u k keeps_trans[OF k Suc.IH[of "prev + step" "Suc i" u]] by (auto split: sum.splits)
qed simp

lemma keeps_task:
  assumes "tuples_ok M" "store_ok M" "scan_policy_task M now uid i s = (r, t)"
  shows "keeps M s t"
proof (cases "monitor_inv M s")
  case inv: True
  show ?thesis
  proof (cases "tfind mp_id i (md_policies s)")
    case None
    with assms(3) show ?thesis by (simp add: scan_policy_task_def)
  next
    case (Some p)
    then have ths: "list_all valid_threshold (mp_threshold p)" using inv_parts(5)[OF inv] tfind_in by fast
    show ?thesis using assms(3) Some keeps_record[OF assms(1,2) ths] keeps_backfill[OF assms(1,2) ths]
      by (auto simp: scan_policy_task_def split: if_splits option.splits sum.splits)
  qed
qed (simp add: keeps_def)

section \<open>The transition system\<close>

inductive monitor_step :: "monitor_env \<Rightarrow> monitor_db \<Rightarrow> monitor_db \<Rightarrow> bool" for M :: monitor_env where
  scan: "scan_policy_task M now uid i s = (r, t) \<Longrightarrow> monitor_step M s t"
| retry: "retry_lifecycle_notify M now s = (n, t) \<Longrightarrow> monitor_step M s t"
| create: "mp_id q \<notin> mp_id ` set (md_policies s) \<Longrightarrow> policy_create M keys q now s = (r, t) \<Longrightarrow> monitor_step M s t"
| update: "policy_update M keys q sent user now s = (r, t) \<Longrightarrow> monitor_step M s t"
| destroy: "policy_destroy M i user now s = (r, t) \<Longrightarrow> monitor_step M s t"
| close: "alert_update M i (close_request refresh) user now s = (r, t) \<Longrightarrow> monitor_step M s t"
| remove: "monitor_step M s (remove_monitor_instance ids s)"
| discover: "get_instance_map_by_metrics M ask objs = Inr found \<Longrightarrow> \<forall>obj \<in> set objs. length (mj_instance_id_keys obj) \<le> 1 \<Longrightarrow>
    monitor_step M s (sync_monitor_instances found s)"

lemma monitor_step_keeps:
  assumes "tuples_ok M" "store_ok M" "monitor_step M s t"
  shows "keeps M s t"
  using assms(3)
proof cases
  case (discover ask objs found)
  have "\<forall>d \<in> set found. single_key M (mi_id (fst (snd d)))"
    using discovered_single discover(2,3) by (fastforce simp: get_instance_map_by_metrics_def)
  then show ?thesis using discover(1) keeps_sync by simp
qed (auto intro: keeps_task[OF assms(1,2)] keeps_notices retry_rows keeps_create keeps_policy_update keeps_destroy
    keeps_alert_close keeps_remove)

text \<open>The system of a store and of texts that behave as documented.\<close>

definition mstep :: "monitor_env \<Rightarrow> monitor_db \<Rightarrow> monitor_db \<Rightarrow> bool" where
  "mstep M s t \<longleftrightarrow> tuples_ok M \<and> store_ok M \<and> monitor_step M s t"

interpretation alerting: row_moves "mstep M" "monitor_inv M" "\<lambda>s. set (md_alerts s)" evolves for M
proof
  show "monitor_inv M s \<Longrightarrow> mstep M s t \<Longrightarrow> monitor_inv M t" for M s t
    using monitor_step_keeps by (auto simp: mstep_def keeps_def)
  show "monitor_inv M s \<Longrightarrow> mstep M s t \<Longrightarrow> a \<in> set (md_alerts s) \<Longrightarrow> \<exists>b \<in> set (md_alerts t). evolves a b" for M s t a
    using monitor_step_keeps[of M s t] by (simp add: mstep_def keeps_def evolve_all_def)
  show "evolves a a" for a by simp
  show "evolves a b \<Longrightarrow> evolves b c \<Longrightarrow> evolves a c" for a b c by (rule evolves_trans)
qed

end
