(* ===== verification/Monitor_Properties.thy ===== *)
theory Monitor_Properties
  imports Monitor_System
begin

text \<open>
  The properties of the monitoring application over its detection, its scans and its runs, each with a
  concrete instance: a policy on one host, a metric store that answers with a fixed list of series, and
  texts of tuples that can be read back.
\<close>

section \<open>A concrete environment\<close>

text \<open>The text of a tuple and its reading: a letter for the constructor, and \<open>c\<close> in front of every
  character of a label.\<close>

fun sample_label :: "label \<Rightarrow> string" where
  "sample_label (L_str s) = ''s'' @ concat (map (\<lambda>c. [CHR ''c'', c]) s) @ ''e''"
| "sample_label L_none = ''n''"
| "sample_label L_nan = ''x''"

definition sample_str :: "label list \<Rightarrow> string" where
  "sample_str t = CHR ''('' # concat (map sample_label t)"

fun sample_read :: "string option \<Rightarrow> string \<Rightarrow> label list" where
  "sample_read None [] = []"
| "sample_read None (c # r) =
     (if c = CHR ''n'' then L_none # sample_read None r
      else if c = CHR ''x'' then L_nan # sample_read None r else sample_read (Some []) r)"
| "sample_read (Some w) (c # d # r) = (if c = CHR ''c'' then sample_read (Some (w @ [d])) r else L_str w # sample_read None (d # r))"
| "sample_read (Some w) _ = [L_str w]"

lemma read_chars: "sample_read (Some w) (concat (map (\<lambda>c. [CHR ''c'', c]) s) @ CHR ''e'' # r) = L_str (w @ s) # sample_read None r"
proof (induction s arbitrary: w)
  case Nil
  then show ?case by (cases r) simp_all
qed simp

lemma read_str: "sample_read None (concat (map sample_label t)) = t"
proof (induction t)
  case (Cons x t)
  then show ?case by (cases x) (simp_all add: read_chars[of "[]", simplified])
qed simp

definition sample_env :: "series list \<Rightarrow> monitor_env" where
  "sample_env rs = \<lparr>mo_query = (\<lambda>_ _ _ _. Inr rs), mo_float = (\<lambda>x. if x = ''high'' then Inr (Fin 9) else Inr (Fin 1)),
     mo_float_str = (\<lambda>_. ''high''), mo_two_digits = (\<lambda>_. ''9.00''), mo_trunc = (\<lambda>_. Inr 9), mo_str = sample_str,
     mo_eval = (\<lambda>s. let t = sample_read None (tl s) in if L_nan \<in> set t then Lit_error else Lit_tuple t),
     mo_substitute = (\<lambda>template _ _. template), mo_send = (\<lambda>_ _ _. Inr (JObj [(''result'', JBool True)])), mo_json = (\<lambda>_. JNull)\<rparr>"

lemma sample_tuples: "tuples_ok (sample_env rs)"
proof -
  have "sample_read None (tl (sample_str t)) = t" for t by (simp add: sample_str_def read_str)
  then have "inj sample_str" by (metis injI)
  then show ?thesis by (simp add: tuples_ok_def sample_env_def Let_def sample_str_def read_str)
qed

lemma sample_store: "length rs \<le> 1 \<Longrightarrow> store_ok (sample_env rs)"
  by (cases rs) (auto simp: store_ok_def run_method_def rbind_Inr sample_env_def split: if_splits)

definition host_series :: "string \<Rightarrow> series" where
  "host_series v = \<lparr>sr_metric = [(''instance_id'', ''h1'')], sr_values = [(60, v), (120, v)]\<rparr>"

definition host_policy :: "int option \<Rightarrow> policy" where
  "host_policy w = \<lparr>mp_id = 1, mp_name = ''load'', mp_object = 1, mp_object_name = ''Host'', mp_organizations = [1],
     mp_alert_name = ''load is high'', mp_collect_type = ''host'', mp_query = QC_pmq ''load'' (Some [''instance_id'']),
     mp_source = SourceInstances [sample_str [L_str ''h1'']], mp_period = Some \<lparr>pd_type = ''min'', pd_value = 5\<rparr>,
     mp_group_algorithm = ''avg'', mp_algorithm = ''avg_over_time'', mp_group_by = [''instance_id''],
     mp_threshold = [\<lparr>th_method = ''>'', th_value = Fin 5, th_level = ''critical''\<rparr>, \<lparr>th_method = ''>'', th_value = Fin 2, th_level = ''warning''\<rparr>],
     mp_trigger_count = 2, mp_recovery_condition = 1, mp_metric_unit = [], mp_calculation_unit = [],
     mp_no_data_period = Some \<lparr>pd_type = ''min'', pd_value = 5\<rparr>, mp_no_data_level = ''warning'', mp_no_data_alert_name = ''no data'',
     mp_no_data_recovery_period = Some \<lparr>pd_type = ''min'', pd_value = 5\<rparr>, mp_notice = False, mp_notice_type_ids = [],
     mp_notice_users = [], mp_enable = True, mp_enable_alerts = [''threshold'', ''no_data''], mp_last_run_time = w\<rparr>"

definition host_row :: instance_row where
  "host_row = \<lparr>mi_id = sample_str [L_str ''h1''], mi_name = ''h1'', mi_object = 1, mi_is_deleted = False, mi_auto = True, mi_active = True\<rparr>"

definition host_db :: monitor_db where
  "host_db = \<lparr>md_policies = [host_policy None], md_metrics = [], md_instances = [host_row], md_instance_orgs = [], md_alerts = [],
     md_events = [], md_raw = [], md_snapshots = [], md_baselines = [], md_channels = [], md_sent = []\<rparr>"

lemma host_policy_fields [simp]:
  "mp_id (host_policy w) = 1" "mp_source (host_policy w) = SourceInstances [sample_str [L_str ''h1'']]"
  "mp_query (host_policy w) = QC_pmq ''load'' (Some [''instance_id''])" "mp_collect_type (host_policy w) = ''host''"
  "mp_period (host_policy w) = Some \<lparr>pd_type = ''min'', pd_value = 5\<rparr>" "mp_group_algorithm (host_policy w) = ''avg''"
  "mp_algorithm (host_policy w) = ''avg_over_time''" "mp_group_by (host_policy w) = [''instance_id'']"
  "mp_trigger_count (host_policy w) = 2" "mp_metric_unit (host_policy w) = []" "mp_calculation_unit (host_policy w) = []"
  "mp_no_data_recovery_period (host_policy w) = Some \<lparr>pd_type = ''min'', pd_value = 5\<rparr>"
  "mp_no_data_period (host_policy w) = Some \<lparr>pd_type = ''min'', pd_value = 5\<rparr>" "mp_notice (host_policy w) = False"
  "mp_enable (host_policy w) = True" "mp_enable_alerts (host_policy w) = [''threshold'', ''no_data'']"
  "mp_last_run_time (host_policy w) = w" "mp_organizations (host_policy w) = [1]" "mp_recovery_condition (host_policy w) = 1"
  "mp_alert_name (host_policy w) = ''load is high''" "(host_policy w)\<lparr>mp_last_run_time := v\<rparr> = host_policy v"
  by (simp_all add: host_policy_def)

text \<open>The store answers every query for the host.\<close>

lemma host_step: "\<exists>x. period_step ''5m'' = Inr x"
proof -
  have "read_period ''5m'' = Some (5, 60)" by (simp add: read_period_def)
  then show ?thesis by (simp add: period_step_def Let_def)
qed

lemma host_query_text: "\<exists>q. build_policy_query ''avg_over_time'' ''load'' ''5m'' ''instance_id'' ''avg'' = Inr q"
  using host_step by (auto simp: build_policy_query_def normalize_policy_algorithms_def GROUP_AGGREGATION_ALGORITHMS_def WINDOW_AGGREGATION_ALGORITHMS_def)

lemma host_run: "run_method (sample_env rs) ''avg_over_time'' ''load'' a b ''5m'' ''instance_id'' ''avg'' = Inr rs"
  using host_query_text by (auto simp: run_method_def LEGACY_ALGORITHM_MAPPING_def sample_env_def)

lemma five_minutes: "str_int 5 = ''5''"
  by code_simp

lemma host_query [simp]:
  "query_aggregation_metrics (sample_env rs) (host_policy w) None time (Some \<lparr>pd_type = ''min'', pd_value = 5\<rparr>) n = Inr rs"
  by (simp add: query_aggregation_metrics_def period_to_seconds_def format_period_def five_minutes format_pmq_def host_run Let_def)

lemma host_plain [simp]: "convert_metric_values M (host_policy w) rs = rs" "trigger_count (host_policy w) = 2"
  by (simp_all add: convert_metric_values_def unit_conversion_enabled_def trigger_count_def)

lemma host_tuple [simp]: "mo_eval (sample_env rs) (sample_str [L_str s]) = Lit_tuple [L_str s]" "mo_str (sample_env rs) = sample_str"
  using sample_tuples[of rs] by (auto simp: tuples_ok_def sample_env_def)

lemma host_threshold: "\<exists>e. detect_threshold_alerts (sample_env [host_series ''high'']) (host_policy w) None [(sample_str [L_str ''h1''], ''h1'')] time = Inr ([e], []) \<and>
   fe_metric_instance e = sample_str [L_str ''h1''] \<and> fe_instance e = sample_str [L_str ''h1''] \<and> fe_level e = ''critical''"
proof -
  have v: "vm_to_dataframe [''instance_id''] [host_series ''high''] = Inr [([L_str ''h1''], host_series ''high'')]"
    by (simp add: vm_to_dataframe_def host_series_def has_label_def cell_def)
  have w: "sorted_thresholds (mp_threshold (host_policy w)) = [\<lparr>th_method = ''>'', th_value = Fin 5, th_level = ''critical''\<rparr>, \<lparr>th_method = ''>'', th_value = Fin 2, th_level = ''warning''\<rparr>]"
    by (simp add: sorted_thresholds_def host_policy_def level_weight_def)
  have f: "mo_float (sample_env rs) ''high'' = Inr (Fin 9)" for rs by (simp add: sample_env_def)
  have h: "first_threshold (sample_env rs) (sorted_thresholds (mp_threshold (host_policy w))) [(60, ''high''), (120, ''high'')] =
      Inr (Some \<lparr>th_method = ''>'', th_value = Fin 5, th_level = ''critical''\<rparr>)" for rs
    by (simp add: w threshold_method_def f)
  have l: "last_values 2 (sr_values (host_series ''high'')) = [(60, ''high''), (120, ''high'')]"
    by (simp add: last_values_def host_series_def)
  have r: "\<exists>e. row_result (sample_env rs) (threshold_context (host_policy w) None imap) name (mp_threshold (host_policy w)) 2
      ([L_str ''h1''], host_series ''high'') = Inr (Some (Inl e)) \<and>
     fe_metric_instance e = sample_str [L_str ''h1''] \<and> fe_instance e = sample_str [L_str ''h1''] \<and> fe_level e = ''critical''" for rs imap name
    by (simp add: row_result_def l h f Let_def format_value_with_unit_def threshold_context_def get_enum_value_map_def row_event_def tuple_instance_def)
  show ?thesis
    using r[of "[host_series ''high'']" "[(sample_str [L_str ''h1''], ''h1'')]" "mp_alert_name (host_policy w)"]
    by (auto simp: detect_threshold_alerts_def v Let_def in_scope_def extract_monitor_instance_id_def tuple_instance_def simp del: host_policy_fields(20))
qed

section \<open>The first scan\<close>

text \<open>The host has a high load: the first scan of the policy opens an alert.\<close>

abbreviation high_env :: monitor_env where
  "high_env \<equiv> sample_env [host_series ''high'']"

lemma host_db_inv: "monitor_inv (sample_env rs) host_db"
  by (auto simp: monitor_inv_def wf_monitor_def keyed_def host_db_def host_row_def single_key_def host_policy_def valid_threshold_def
      threshold_method_def sample_env_def)

lemma host_context: "scan_context (host_policy w) host_db =
    \<lparr>sx_instances = [(sample_str [L_str ''h1''], ''h1'')], sx_baselines = [], sx_active = []\<rparr>"
  by (simp add: scan_context_def Let_def build_instances_map_def instance_list_by_source_def build_baselines_map_def
      get_active_alerts_def host_db_def host_row_def host_policy_def)

lemma host_data: "format_aggregation_metrics high_env (host_policy w) [(sample_str [L_str ''h1''], ''h1'')] [host_series ''high''] =
    Inr [(sample_str [L_str ''h1''], Fin 9, host_series ''high'')]"
  by (simp add: format_aggregation_metrics_def Let_def group_tuple_def host_series_def instance_of_tuple_def tsave_def)
     (simp add: sample_env_def)

lemma host_no_data: "detect_no_data_alerts high_env (host_policy w) None [] [(sample_str [L_str ''h1''], ''h1'')] time = Inr []"
  by (simp add: detect_no_data_alerts_def host_data build_no_data_events_def baseline_keys_def)

lemma host_collect: "\<exists>e. collect_events high_env (host_policy w) None (scan_context (host_policy w) host_db) clock time host_db = (Inr ([e], [], []), host_db) \<and>
    fe_metric_instance e = sample_str [L_str ''h1''] \<and> fe_instance e = sample_str [L_str ''h1''] \<and> fe_level e = ''critical''"
proof -
  obtain e where e: "detect_threshold_alerts high_env (host_policy w) None [(sample_str [L_str ''h1''], ''h1'')] time = Inr ([e], [])"
    "fe_metric_instance e = sample_str [L_str ''h1'']" "fe_instance e = sample_str [L_str ''h1'']" "fe_level e = ''critical''"
    using host_threshold[of w time] by blast
  have c: "count_events high_env [] es fs host_db = host_db" for es fs
    by (simp add: count_events_def update_alerts_def tupdate_def host_db_def)
  have r: "recover_threshold_alerts high_env (host_policy w) clock time [] host_db = host_db"
    by (simp add: recover_threshold_alerts_def recover_alerts_def host_db_def)
  have m: "recover_no_data_alerts high_env (host_policy w) None [(sample_str [L_str ''h1''], ''h1'')] clock time [] host_db = (Inr (), host_db)"
    by (simp add: recover_no_data_alerts_def recover_alerts_def host_data)
  show ?thesis
    using e by (simp add: host_context collect_events_def process_threshold_alerts_def process_no_data_alerts_def c r m host_no_data)
qed

lemma host_scan:
  "\<exists>t e. scan_policy_task high_env now uid 1 host_db = (Inr (), t) \<and> md_alerts t = [new_monitor_alert (host_policy (Some now)) [(sample_str [L_str ''h1''], ''h1'')] now 1 e] \<and>
     fe_metric_instance e = sample_str [L_str ''h1''] \<and> fe_level e = ''critical''"
proof -
  let ?p = "host_policy (Some now)" let ?imap = "[(sample_str [L_str ''h1''], ''h1'')]"
  obtain e where e: "collect_events high_env ?p None (scan_context ?p host_db) now now host_db = (Inr ([e], [], []), host_db)"
    "fe_metric_instance e = sample_str [L_str ''h1'']" "fe_instance e = sample_str [L_str ''h1'']" "fe_level e = ''critical''"
    using host_collect[of "Some now" now now] by blast
  let ?X = "scan_context ?p host_db"
  obtain rows created u where c: "create_events_and_alerts high_env ?p (sx_instances ?X) now now (uid 0) (sx_active ?X) ([e] @ []) (sync_baselines ?p ?X ([e] @ []) host_db) = ((rows, created), u)"
    by (metis prod.collapse)
  have al: "md_alerts (sync_baselines ?p ?X es host_db) = []" for es
    by (simp add: sync_baselines_def baseline_sync_def) (simp add: host_db_def)
  have a: "md_alerts u = [new_monitor_alert ?p ?imap now 1 e]"
    using c by (auto simp: host_context[of "Some now"] create_events_and_alerts_def Let_def alert_of_event_def next_key_def
      create_monitor_events_def update_existing_alerts_def write_upgraded_def schedule_notifications_def al[unfolded host_context])
  obtain x where x: "scan_snapshots high_env ?p None ?X now now [] rows created u = u\<lparr>md_snapshots := x\<rparr>"
    using scan_snapshots_frame by blast
  have "scan_run high_env now (uid 0) ?p now host_db = (Inr (), u\<lparr>md_snapshots := x\<rparr>)"
    using c x by (simp add: scan_run_def Let_def set_monitor_obj_instance_key_def e(1)) (simp add: host_context)
  then have "scan_policy_task high_env now uid 1 host_db = (Inr (), set_last_run 1 now (u\<lparr>md_snapshots := x\<rparr>))"
    by (simp add: scan_policy_task_def host_db_def tfind_def run_scan_and_record_success_def)
  then show ?thesis using a e by (auto simp: set_last_run_def)
qed

section \<open>Detection\<close>





section \<open>Runs\<close>

lemma host_reaches: "scan_policy_task high_env now uid 1 host_db = (r, t) \<Longrightarrow> alerting.reaches high_env host_db t"
  by (rule alerting.more[OF alerting.here]) (auto simp: mstep_def sample_tuples sample_store intro: monitor_step.scan)

text \<open>In every run of scans, repeated deliveries, requests on policies, closing of alerts, removal and
  discovery of instances, there is never more than one active alert of the same policy, metric instance
  and kind. (A request that writes another status into an alert is not among these steps.)\<close>

lemma one_active_alert:
  assumes "monitor_inv M s" "alerting.reaches M s t"
  shows "distinct (map active_alert_key (filter is_new (md_alerts t)))"
  using alerting.reaches_inv[OF assms(2,1)] by (simp add: monitor_inv_def wf_monitor_def keyed_def)

lemma one_active_monitor_alert_sample:
  "\<exists>t. alerting.reaches high_env host_db t \<and> filter is_new (md_alerts t) \<noteq> [] \<and>
     distinct (map active_alert_key (filter is_new (md_alerts t)))"
proof -
  obtain t e where t: "scan_policy_task high_env 300000000 (\<lambda>_ _. ''u'') 1 host_db = (Inr (), t)"
    "md_alerts t = [new_monitor_alert (host_policy (Some 300000000)) [(sample_str [L_str ''h1''], ''h1'')] 300000000 1 e]"
    using host_scan by blast
  from one_active_alert[OF host_db_inv host_reaches[OF t(1)]] host_reaches[OF t(1)] t(2) show ?thesis
    by (auto simp: new_monitor_alert_def is_new_def)
qed

text \<open>In every such run an alert keeps its policy, instance, metric instance, kind and start; once it is
  recovered or closed it never becomes active again; its log only grows at the end and its level never
  falls.\<close>

lemma monitor_alerts_final:
  assumes "monitor_inv M s" "alerting.reaches M s t" "a \<in> set (md_alerts s)"
  shows "\<exists>b \<in> set (md_alerts t). ma_id b = ma_id a \<and> ma_policy b = ma_policy a \<and> ma_instance b = ma_instance a \<and>
     ma_metric_instance b = ma_metric_instance a \<and> ma_kind b = ma_kind a \<and> ma_start b = ma_start a \<and>
     (ma_status a \<noteq> M_NEW \<longrightarrow> ma_status b \<noteq> M_NEW) \<and> prefix (ma_operation_logs a) (ma_operation_logs b) \<and>
     level_weight (ma_level a) \<le> level_weight (ma_level b)"
  using alerting.reaches_move[OF assms(2,1,3)] by (auto simp: evolves_def is_new_def)

lemma monitor_alerts_final_sample:
  "\<exists>t u r a. alert_update high_env 1 (close_request False) ''admin'' 400000000 t = (r, u) \<and> a \<in> set (md_alerts t) \<and>
     (\<exists>b \<in> set (md_alerts u). ma_id b = ma_id a \<and> ma_start b = Some 300000000)"
proof -
  obtain t e where t: "scan_policy_task high_env 300000000 (\<lambda>_ _. ''u'') 1 host_db = (Inr (), t)"
    "md_alerts t = [new_monitor_alert (host_policy (Some 300000000)) [(sample_str [L_str ''h1''], ''h1'')] 300000000 1 e]"
    using host_scan by blast
  obtain r u where u: "alert_update high_env 1 (close_request False) ''admin'' 400000000 t = (r, u)" by fastforce
  have "monitor_inv high_env t" by (rule alerting.reaches_inv[OF host_reaches[OF t(1)] host_db_inv])
  moreover have "alerting.reaches high_env t u"
    by (rule alerting.more[OF alerting.here]) (use u in \<open>auto simp: mstep_def sample_tuples sample_store intro: monitor_step.close\<close>)
  moreover obtain a where a: "a \<in> set (md_alerts t)" "ma_start a = Some 300000000" using t(2) by (simp add: new_monitor_alert_def)
  ultimately have "\<exists>b \<in> set (md_alerts u). ma_id b = ma_id a \<and> ma_start b = Some 300000000"
    using monitor_alerts_final[of high_env t u a] by auto
  with u a(1) show ?thesis by blast
qed

section \<open>The watermark\<close>

lemma set_last_run_find: "tfind mp_id i (md_policies (set_last_run j time s)) =
    map_option (\<lambda>p. if i = j then p\<lparr>mp_last_run_time := Some time\<rparr> else p) (tfind mp_id i (md_policies s))"
proof -
  have "map_option (\<lambda>x. if mp_id x = j then x\<lparr>mp_last_run_time := Some time\<rparr> else x) (tfind mp_id i (md_policies s)) =
      map_option (\<lambda>x. if i = j then x\<lparr>mp_last_run_time := Some time\<rparr> else x) (tfind mp_id i (md_policies s))"
    by (cases "tfind mp_id i (md_policies s)") (auto dest: tfind_key)
  then show ?thesis unfolding set_last_run_def by (simp add: tfind_tupdate)
qed

lemma scan_run_policies:
  assumes "keyed ma_id (md_alerts s)" "scan_run M clock uid p time s = (r, t)"
  shows "md_policies t = md_policies s \<and> keyed ma_id (md_alerts t)"
proof -
  from scan_run_effect[OF assms] obtain R where R: "scan_effect M p time s r t R" .
  then obtain as new where t: "md_alerts t = as @ new" "list_all2 notices_only (rp_created R) new"
    "list_all2 (\<lambda>a b. unlogged b = unlogged (scanned_row M p time (sx_active (scan_context p s)) R a)) (md_alerts s) as"
    by (auto simp: scan_effect_def Let_def appended_def)
  have "list_all2 evolves (md_alerts s) as"
    using t(3) evolves_scanned[OF assms(1) active_rows] by (auto simp: scanned_row_def list_all2_conv_all_nth)
  then have "map ma_id as = map ma_id (md_alerts s)" by (induction rule: list_all2_induct) (simp_all add: evolves_def)
  then show ?thesis using R notices_same(1)[OF t(2)] by (simp add: scan_effect_def Let_def same_config_def keyed_def t(1))
qed

text \<open>One scan of the task, and all of them.\<close>

lemma record_watermark:
  assumes "keyed ma_id (md_alerts s)" "run_scan_and_record_success M clock uid p time s = (r, t)"
  shows "keyed ma_id (md_alerts t) \<and> (\<forall>i. tfind mp_id i (md_policies t) =
    (if r = Inr () \<and> i = mp_id p then map_option (\<lambda>q. q\<lparr>mp_last_run_time := Some time\<rparr>) (tfind mp_id i (md_policies s))
     else tfind mp_id i (md_policies s)))"
proof -
  obtain x u where u: "scan_run M clock uid (p\<lparr>mp_last_run_time := Some time\<rparr>) time s = (x, u)" by fastforce
  have id: "option.map_option (\<lambda>q. q) z = z" for z :: "policy option" by (cases z) simp_all
  have "keyed ma_id (md_alerts (set_last_run i time u)) = keyed ma_id (md_alerts u)" for i by (simp add: set_last_run_def)
  with scan_run_policies[OF assms(1) u] assms(2) u show ?thesis
    by (auto simp: run_scan_and_record_success_def set_last_run_find id split: sum.splits)
qed

lemma backfill_watermark:
  assumes "keyed ma_id (md_alerts s)" "backfill M clock uid p prev step i n s = (r, t)"
  shows "\<exists>k. k \<le> n \<and> (r = Inr () \<longleftrightarrow> k = n) \<and> (\<forall>j. tfind mp_id j (md_policies t) =
    (if 0 < k \<and> j = mp_id p then map_option (\<lambda>q. q\<lparr>mp_last_run_time := Some (prev + int k * step)\<rparr>) (tfind mp_id j (md_policies s))
     else tfind mp_id j (md_policies s)))"
  using assms
proof (induction n arbitrary: prev i s)
  case (Suc n)
  obtain x u where u: "run_scan_and_record_success M clock (uid i) p (prev + step) s = (x, u)" by fastforce
  note w = record_watermark[OF Suc.prems(1) u]
  show ?case
  proof (cases x)
    case (Inl e)
    then show ?thesis using Suc.prems(2) u w by (intro exI[of _ 0]) auto
  next
    case (Inr z)
    then have "backfill M clock uid p (prev + step) step (Suc i) n u = (r, t)" using Suc.prems(2) u by simp
    from Suc.IH[OF conjunct1[OF w] this] obtain k where k: "k \<le> n" "r = Inr () \<longleftrightarrow> k = n"
      "\<forall>j. tfind mp_id j (md_policies t) = (if 0 < k \<and> j = mp_id p
         then map_option (\<lambda>q. q\<lparr>mp_last_run_time := Some (prev + step + int k * step)\<rparr>) (tfind mp_id j (md_policies u))
         else tfind mp_id j (md_policies u))" by blast
    have "tfind mp_id j (md_policies t) = (if j = mp_id p
        then map_option (\<lambda>q. q\<lparr>mp_last_run_time := Some (prev + int (Suc k) * step)\<rparr>) (tfind mp_id j (md_policies s))
        else tfind mp_id j (md_policies s))" for j
      using k(3) w Inr by (cases "tfind mp_id j (md_policies s)") (auto simp: algebra_simps)
    then show ?thesis using k(1,2) by (intro exI[of _ "Suc k"]) auto
  qed
qed auto

lemma backfill_fits:
  assumes "prev \<le> now" "(1 :: int) < n" "n = min (now - prev) limit div step" "k \<le> nat (min n m)" "0 < limit"
  shows "0 < step" "prev + int k * step \<le> now"
proof -
  show s: "0 < step"
  proof (rule ccontr)
    assume "\<not> 0 < step"
    moreover have "0 \<le> min (now - prev) limit" using assms(1,5) by simp
    ultimately have "min (now - prev) limit div step \<le> 0" by (cases "step = 0") (auto intro: div_nonneg_neg_le0)
    then show False using assms(2,3) by simp
  qed
  have "int k \<le> n" using assms(2,4) by linarith
  then have "int k * step \<le> n * step" using s by simp
  also have "\<dots> = min (now - prev) limit - min (now - prev) limit mod step" unfolding assms(3) by (rule minus_mod_eq_div_mult[symmetric])
  also have "\<dots> \<le> now - prev" using pos_mod_sign[OF s, of "min (now - prev) limit"] by linarith
  finally show "prev + int k * step \<le> now" by simp
qed



section \<open>Recovery\<close>

text \<open>Under the invariant an active alert is the only one its events count for.\<close>

lemma active_unique:
  assumes "monitor_inv M s" "tuples_ok M" "a \<in> set (sx_active (scan_context p s))" "b \<in> set (sx_active (scan_context p s))"
    "ma_kind a = ma_kind b" "alert_metric_instance M a = alert_metric_instance M b"
  shows "a = b"
proof -
  have m: "x \<in> set (filter is_new (md_alerts s)) \<and> ma_policy x = mp_id p \<and> alert_metric_instance M x = ma_metric_instance x"
    if "x \<in> set (sx_active (scan_context p s))" for x
  proof -
    have x: "x \<in> set (md_alerts s)" "is_new x" "ma_policy x = mp_id p"
      using that by (auto simp: scan_context_def Let_def get_active_alerts_def)
    then have "link M (ma_metric_instance x) (ma_instance x)" using assms(1) by (auto simp: monitor_inv_def linked_alert_def)
    with x link_nonempty[OF assms(2)] show ?thesis by (simp add: alert_metric_instance_def)
  qed
  have "inj_on active_alert_key (set (filter is_new (md_alerts s)))"
    using assms(1) by (simp add: monitor_inv_def wf_monitor_def keyed_def distinct_map)
  moreover have "active_alert_key a = active_alert_key b"
    using m[OF assms(3)] m[OF assms(4)] assms(5,6) by (simp add: active_alert_key_def)
  ultimately show ?thesis using m[OF assms(3)] m[OF assms(4)] by (blast dest: inj_onD)
qed

lemma counted_own:
  assumes "monitor_inv M s" "tuples_ok M" "a \<in> set (sx_active (scan_context p s))" "ma_kind a = MK_ALERT"
  shows "ma_id a \<in> counted_alerts M (sx_active (scan_context p s)) es \<longleftrightarrow> (\<exists>e \<in> set es. fe_metric_instance e = alert_metric_instance M a)"
proof -
  let ?A = "sx_active (scan_context p s)"
  let ?find = "\<lambda>k. find (\<lambda>a. alert_metric_instance M a = k \<and> ma_kind a = MK_ALERT) (rev ?A)"
  have own: "?find (alert_metric_instance M a) = Some a"
  proof (cases "?find (alert_metric_instance M a)")
    case None
    then show ?thesis using assms(3,4) by (simp add: find_None_iff)
  next
    case (Some b)
    from find_rev_in[OF this] have "b = a" using active_unique[OF assms(1,2) _ assms(3)] assms(4) by simp
    with Some show ?thesis by simp
  qed
  have key: "alert_metric_instance M a = k" if f: "?find k = Some b" and id: "ma_id b = ma_id a" for k b
  proof -
    note b = find_rev_in[OF f]
    have "b \<in> set (md_alerts s)" "a \<in> set (md_alerts s)" using active_rows b assms(3) by blast+
    from keyed_inj[OF inv_parts(1)[OF assms(1)] this id] b show ?thesis by simp
  qed
  show ?thesis unfolding counted_alerts_eq
  proof
    assume "ma_id a \<in> {i. \<exists>e \<in> set es. map_option ma_id (?find (fe_metric_instance e)) = Some i}"
    then obtain e b where "e \<in> set es" "?find (fe_metric_instance e) = Some b" "ma_id b = ma_id a" by auto
    with key show "\<exists>e \<in> set es. fe_metric_instance e = alert_metric_instance M a" by metis
  next
    assume "\<exists>e \<in> set es. fe_metric_instance e = alert_metric_instance M a"
    then obtain e where "e \<in> set es" "fe_metric_instance e = alert_metric_instance M a" by blast
    then have "e \<in> set es \<and> map_option ma_id (?find (fe_metric_instance e)) = Some (ma_id a)" using own by simp
    then show "ma_id a \<in> {i. \<exists>e \<in> set es. map_option ma_id (?find (fe_metric_instance e)) = Some i}" by blast
  qed
qed



text \<open>The host with an open alert, and a load that is low again.\<close>

abbreviation low_env :: monitor_env where
  "low_env \<equiv> sample_env [host_series ''low'']"

definition host_alert :: monitor_alert where
  "host_alert = new_monitor_alert (host_policy None) [(sample_str [L_str ''h1''], ''h1'')] 300000000 1
     \<lparr>fe_metric_instance = sample_str [L_str ''h1''], fe_instance = sample_str [L_str ''h1''], fe_dimensions = [],
      fe_value = Some (Fin 9), fe_level = ''critical'', fe_content = ''load is high'', fe_raw = None\<rparr>"

definition alert_db :: monitor_db where
  "alert_db = host_db\<lparr>md_alerts := [host_alert]\<rparr>"

lemma host_alert_fields [simp]:
  "ma_id host_alert = 1" "ma_policy host_alert = 1" "ma_status host_alert = M_NEW" "ma_kind host_alert = MK_ALERT"
  "ma_metric_instance host_alert = sample_str [L_str ''h1'']" "ma_instance host_alert = sample_str [L_str ''h1'']"
  "ma_info_count host_alert = 0"
  by (simp_all add: host_alert_def new_monitor_alert_def event_kind_def)

lemma alert_db_inv: "monitor_inv (sample_env rs) alert_db"
proof -
  have "link (sample_env rs) (sample_str [L_str ''h1'']) (sample_str [L_str ''h1''])"
    by (auto simp: link_def intro!: exI[of _ "[L_str ''h1'']"])
  with host_db_inv[of rs] show ?thesis
    by (simp add: alert_db_def monitor_inv_def wf_monitor_def keyed_def linked_alert_def)
qed

lemma low_threshold: "\<exists>e. detect_threshold_alerts low_env (host_policy w) None [(sample_str [L_str ''h1''], ''h1'')] time = Inr ([], [e]) \<and>
   fe_metric_instance e = sample_str [L_str ''h1'']"
proof -
  have v: "vm_to_dataframe [''instance_id''] [host_series ''low''] = Inr [([L_str ''h1''], host_series ''low'')]"
    by (simp add: vm_to_dataframe_def host_series_def has_label_def cell_def)
  have w: "sorted_thresholds (mp_threshold (host_policy w)) = [\<lparr>th_method = ''>'', th_value = Fin 5, th_level = ''critical''\<rparr>, \<lparr>th_method = ''>'', th_value = Fin 2, th_level = ''warning''\<rparr>]"
    by (simp add: sorted_thresholds_def host_policy_def level_weight_def)
  have f: "mo_float (sample_env rs) ''low'' = Inr (Fin 1)" for rs by (simp add: sample_env_def)
  have h: "first_threshold (sample_env rs) (sorted_thresholds (mp_threshold (host_policy w))) [(60, ''low''), (120, ''low'')] = Inr None" for rs
    by (simp add: w threshold_method_def f)
  have l: "last_values 2 (sr_values (host_series ''low'')) = [(60, ''low''), (120, ''low'')]"
    by (simp add: last_values_def host_series_def)
  have r: "\<exists>e. row_result (sample_env rs) (threshold_context (host_policy w) None imap) name (mp_threshold (host_policy w)) 2
      ([L_str ''h1''], host_series ''low'') = Inr (Some (Inr e)) \<and> fe_metric_instance e = sample_str [L_str ''h1'']" for rs imap name
    by (simp add: row_result_def l h Let_def row_event_def)
  show ?thesis
    using r[of "[host_series ''low'']" "[(sample_str [L_str ''h1''], ''h1'')]" "mp_alert_name (host_policy w)"]
    by (auto simp: detect_threshold_alerts_def v Let_def in_scope_def extract_monitor_instance_id_def tuple_instance_def simp del: host_policy_fields(20))
qed

lemma low_data: "format_aggregation_metrics low_env (host_policy w) [(sample_str [L_str ''h1''], ''h1'')] [host_series ''low''] =
    Inr [(sample_str [L_str ''h1''], Fin 1, host_series ''low'')]"
  by (simp add: format_aggregation_metrics_def Let_def group_tuple_def host_series_def instance_of_tuple_def tsave_def)
     (simp add: sample_env_def)

lemma low_scan: "fst (scan_run low_env clock uid (host_policy w) time alert_db) = Inr ()"
proof -
  let ?imap = "[(sample_str [L_str ''h1''], ''h1'')]"
  have X: "sx_instances (scan_context (host_policy w) alert_db) = ?imap" "sx_baselines (scan_context (host_policy w) alert_db) = []"
    by (simp_all add: scan_context_def Let_def build_instances_map_def instance_list_by_source_def build_baselines_map_def
      alert_db_def host_db_def host_row_def host_policy_def)
  have nd: "detect_no_data_alerts low_env (host_policy w) None [] ?imap time = Inr []"
    by (simp add: detect_no_data_alerts_def low_data build_no_data_events_def baseline_keys_def)
  have rc: "\<exists>t. recover_no_data_alerts low_env (host_policy w) None ?imap clock time active s = (Inr (), t)" for active s
    by (simp add: recover_no_data_alerts_def low_data)
  obtain e where e: "detect_threshold_alerts low_env (host_policy w) None ?imap time = Inr ([], [e])" using low_threshold by blast
  let ?A = "sx_active (scan_context (host_policy w) alert_db)"
  define u where "u = recover_threshold_alerts low_env (host_policy w) clock time ?A (count_events low_env ?A [] [e] alert_db)"
  obtain t where "recover_no_data_alerts low_env (host_policy w) None ?imap clock time ?A u = (Inr (), t)" using rc by blast
  then have c: "collect_events low_env (host_policy w) None (scan_context (host_policy w) alert_db) clock time alert_db = (Inr ([], [e], []), t)"
    by (simp add: collect_events_def process_threshold_alerts_def process_no_data_alerts_def X e nd u_def[symmetric])
  show ?thesis
    by (simp add: scan_run_def Let_def set_monitor_obj_instance_key_def X c split: prod.splits)
qed


end
