(* ===== verification/Spec2Isabelle.thy ===== *)
theory Spec2Isabelle
  imports Lifecycle Shield Incident Action Ingest_Sources Monitor_Properties
begin

text \<open>
  A verification of the alert centre of the platform (\<open>server/apps/alerts\<close>), the application
  that turns events of monitoring systems into alerts and drives every alert through its life:
  it is assigned to people, they are reminded, the alert is escalated to further layers of
  people, claimed, handed over, resolved or closed, or it is closed or recovered automatically.

  \<^bold>\<open>Parts and theories.\<close> Paths are relative to \<open>server/apps/alerts\<close>.
  \<^item> \<open>Prelude\<close>: JSON values, the Python built-ins the code applies to them (truth value, \<open>int\<close>,
    \<open>str\<close>, \<open>strip\<close>, \<open>get\<close>, indexing, iteration) with their exceptions as \<open>Inl\<close> values, tables
    as keyed lists with \<open>save\<close>, \<open>update\<close> and lookup, and two interfaces: \<open>row_table\<close> (the laws
    of a table) and \<open>keyed_scan\<close> (a loop over keys whose rounds touch only the rows of their key).
  \<^item> \<open>Alerts_Data\<close>: the models of \<open>models/\<close> as records, the constants as datatypes, the
    database as a record of tables with an operator log and an outbox of deferred effects
    (notifications, actions, assignments to be queued after the commit); well-formedness
    \<open>wf_db\<close> (unique keys, foreign keys) and \<open>only k s t\<close>: an operation touches the rows of one
    alert only. \<open>Samples\<close> is a small database for concrete evaluation.
  \<^item> \<open>Notify\<close>: \<open>common/notify/dispatcher.py\<close>.
  \<^item> \<open>Escalation\<close>: \<open>service/escalation_service.py\<close>. The scan refines an abstract machine on the
    rows of one alert; overdue alerts of active policies progress (those of disabled policies too,
    against the requirements: \<open>disabled_policy_escalates\<close>); indices stay in the chain.
  \<^item> \<open>Reminder\<close>: \<open>service/reminder_service.py\<close> and the policy update of
    \<open>views/assignment_shield.py\<close>. The scan refines a function of the rows of one alert; limits
    and intervals are kept over any sequence of scans, counted in the messages really queued.
  \<^item> \<open>Alert_View\<close>: the requests of \<open>views/alert.py\<close> that create, rewrite and delete alerts through the
    generic view set (\<open>core/utils/viewset_utils.py\<close>) and \<open>serializers/alert.py\<close>, past the state machine.
  \<^item> \<open>Operator_Scope\<close>: \<open>utils/operator_scope.py\<close>, which names may become operators.
  \<^item> \<open>Alert_Operator\<close>: \<open>service/alter_operator.py\<close> (assign, acknowledge, reassign, close,
    resolve) and the batch request of \<open>views/alert.py\<close>; the interface \<open>alert_op\<close> is the contract
    of an operation (refused without effect, or performed on its own alert).
  \<^item> \<open>Time_Range\<close>, \<open>Rule_Matcher\<close>: \<open>utils/time_range_checker.py\<close>, \<open>utils/rule_matcher.py\<close>, the
    conditions of policies and shields, against numeric and logical specifications.
  \<^item> \<open>Shield\<close>: \<open>common/shield.py\<close>. \<open>Auto_Assignment\<close>: \<open>common/assignment.py\<close>,
    \<open>service/un_dispatch.py\<close>. \<open>Auto_Close\<close>: \<open>common/auto_close.py\<close>. \<open>Recovery\<close>:
    \<open>aggregation/recovery/\<close>.
  \<^item> \<open>Strategy_Match\<close>: \<open>aggregation/strategy/\<close>, the rules that select the events of a strategy, as a
    database query and in memory, and where the two differ.
  \<^item> \<open>Alert_Builder\<close>: \<open>aggregation/builder/alert_builder.py\<close>, \<open>aggregation/window/factory.py\<close> and
    helpers. A result of the aggregation creates or updates the one active alert of its
    fingerprint; the cache of linked events is part of the state, with its invariant \<open>cache_ok\<close>.
  \<^item> \<open>Heartbeat\<close>: the detection of missing heartbeats in \<open>aggregation/processor/aggregation_processor.py\<close>
    with \<open>aggregation/builder/synthetic_alert_builder.py\<close>; an alert is raised exactly when an instant of
    the schedule was missed, stated over the documented behaviour of \<open>croniter\<close>.
  \<^item> \<open>Aggregation\<close>: the rest of that processor: the query of \<open>aggregation/templates/\<close> as a function
    on lists, fingerprints and titles, the loops over results and strategies, the periodic task.
    Every step keeps \<open>agg_inv\<close> (\<open>agg_step\<close>); events reach an alert; errors are isolated.
  \<^item> \<open>Instant\<close>: \<open>aggregation/processor/instant_dispatcher.py\<close>, alerts for single events beside the
    aggregation, with the parser of \<open>str.format\<close>.
  \<^item> \<open>Incident\<close>: \<open>service/incident_operator.py\<close> and requests of \<open>views/incident.py\<close>; the interface
    \<open>incident_op\<close> is the contract of an operation, interpreted for the three of them.
  \<^item> \<open>Enrichment\<close>: \<open>enrichment/\<close>, the lookup of configuration items for a batch of events with its
    cache; the batched run writes what one lookup per event would. The interface
    \<open>enrichment_provider\<close> is what the engine relies on of a provider of records.
  \<^item> \<open>Action\<close>: \<open>action/\<close>, \<open>tasks/action_tasks.py\<close>, \<open>views/action.py\<close> and the signatures of the job
    application: automatic and manual jobs for alerts and their signed callbacks.
  \<^item> \<open>Source_Secrets\<close>, \<open>Source_Payloads\<close>: the sources of events (\<open>models/alert_source.py\<close>), their team
    secrets and the authentication, and what Zabbix and Prometheus send (\<open>common/source_adapter/\<close>).
  \<^item> \<open>Ingest\<close>: the rest of \<open>common/source_adapter/base.py\<close> with \<open>views/receiver.py\<close> and
    \<open>receive_alert_events\<close> of \<open>nats/nats.py\<close>: a request becomes rows of events, and the rows are
    handed to the shields, the instant alerts and the recovery. \<open>Ingest_Samples\<close> holds concrete
    requests, \<open>Ingest_Properties\<close> who may store what and what a row looks like, \<open>Ingest_Delivery\<close>
    what a source may rely on, \<open>Ingest_Sources\<close> problems and their ends, and misread documents.
  \<^item> \<open>Units\<close>, \<open>Monitor_Data\<close>, \<open>Monitor_Query\<close>: the monitoring application (\<open>server/apps/monitor\<close>,
    whose alerts are a source of events of the alert centre): conversion of units (a float is an exact
    rational there, without rounding), its tables, and the text of the queries of a policy.
  \<^item> \<open>Monitor_Detect\<close>, \<open>Monitor_Notify\<close>, \<open>Monitor_Alerts\<close>, \<open>Monitor_Snapshots\<close>, \<open>Monitor_Scan\<close>: one
    scan of a policy (\<open>monitor/tasks/\<close>) from the answer of the metric store to events, alerts,
    messages and snapshots, and the task that makes up for missed periods.
  \<^item> \<open>Monitor_Policies\<close>, \<open>Monitor_Instances\<close>: requests on policies and alerts, removal and discovery of
    instances (\<open>monitor/views/\<close>, \<open>monitor/services/\<close>). \<open>Monitor_Rows\<close>, \<open>Monitor_Evolution\<close>: what
    all of this does to the rows of alerts. \<open>Monitor_Events\<close>: which events a detection finds;
    \<open>Monitor_System\<close>: scans, requests and changes of instances as one transition system with its
    invariant; \<open>Monitor_Properties\<close>: the detections are exact, what a scan does to an alert, and how
    far the scan task moves its watermark.
  \<^item> \<open>Lifecycle\<close>: all components and the requests of the alert view as the steps of one transition
    system \<open>centre_step E\<close>; the interface \<open>alert_system\<close> states what a step may do to the row of an
    alert, and its consequences for runs are interpreted for the whole system. The set \<open>E\<close> holds the
    alerts that the view may rewrite or delete: for them nothing is promised (a request can open a
    closed alert again), for all others the properties of this theory hold in every run.

  \<^bold>\<open>Conventions.\<close> A service method is a function of its arguments, of the current time (an
  integer of microseconds) and of the database, and returns its result with the new database.
  An exception is an \<open>Inl\<close> value; a transaction that raises is rolled back (\<open>atomic\<close>), and
  where the code catches an exception the model goes on with the state the transaction leaves.
  Effects registered with \<open>on_commit\<close> or sent to the task queue are appended to the outbox in
  their order; callbacks that write to the database run at the point where the transaction of
  the code commits. A query set is the list of its rows in table order; where the code reads a
  lazy query set after a write, the model reads the table after the write.

  \<^bold>\<open>Parameters.\<close> The texts of notifications (\<open>notify_format\<close>: titles, bodies, the broker's
  JSON), the answer of the broker to a queued message, the time zone (\<open>zone\<close>: local time of
  an instant, instant of a text), the comparison of a database column with a value and the
  validity of a regular expression (\<open>orm\<close>), MD5, SHA-256, HMAC, Fernet, \<open>croniter\<close>, the
  conversion between texts and instants, \<open>float\<close>, the applications behind remote calls (configuration
  items, nodes, jobs), DuckDB's
  \<open>TRY_CAST\<close> and its order of groups, attributes of events beyond the columns, and the UUIDs drawn
  are arguments of the definitions; statements that need more of them have it as a hypothesis
  (\<open>total_format\<close>, \<open>valid_local\<close>, \<open>group_order_ok\<close>, \<open>collision_free\<close>, \<open>tokens_ok\<close>,
  \<open>texts_nonempty\<close>, \<open>digests_ok\<close>, distinct and new UUIDs).

  \<^bold>\<open>Bounds.\<close> All loops of the modelled code run over finite lists, so every definition is total
  and there is no fuel. Python integers are unbounded and are \<open>int\<close>; the dates of the code have
  a range that is not modelled (no overflow of \<open>datetime\<close>). Strings are ASCII, and the Chinese
  texts of the code appear in UTF-8. The recursions over texts (placeholders of templates, fields
  of \<open>str.format\<close>) have termination proofs: the rest of the text gets shorter.

  \<^bold>\<open>What is not modelled.\<close> One operation reads the clock once, and the scans of several workers
  with \<open>select_for_update(skip_locked)\<close> are not interleaved inside one transaction; failures of
  the database itself; floating-point JSON numbers; column lengths; log output and message texts;
  creation and update of incidents, rules and sources through the generic serializers; columns of
  an event outside the standard mapping, dicts given as lists of pairs on the internal channel, the
  polling of Prometheus, connection tests and integration guides; statistics and other queries of
  the views; and the other applications of the platform, except the monitoring of the \<open>Monitor_\<close> theories.
\<close>

section \<open>Properties of whole runs\<close>

text \<open>C10: whatever the components do, in whatever order, and whatever the requests of the alert
  view do to other alerts, an alert that these requests do not rewrite or delete is never lost and
  never changes its identity. The database stays well formed in any case.\<close>

theorem alerts_never_lost:
  assumes "wf_db s" "centre_runs E s t"
  shows "wf_db t \<and> (\<forall>k a. k \<notin> E \<longrightarrow> alert_by_pk k s = Some a \<longrightarrow>
    (\<exists>b. alert_by_pk k t = Some b \<and> al_pk b = al_pk a \<and> al_alert_id b = al_alert_id a))"
proof (intro conjI allI impI)
  show "wf_db t" by (rule centre.reaches_inv[OF assms(2,1)])
  fix k a assume "k \<notin> E" "alert_by_pk k s = Some a"
  then show "\<exists>b. alert_by_pk k t = Some b \<and> al_pk b = al_pk a \<and> al_alert_id b = al_alert_id a"
    using centre.reaches_identity[OF assms(2,1), of k a] by simp
qed

text \<open>Two databases with a second alert, closed in the second of them: it is deleted by a
  request before the rest happens.\<close>

definition sample_two_db :: "alert_status \<Rightarrow> db" where
  "sample_two_db st = sample_db\<lparr>db_alerts :=
     [sample_alert\<lparr>al_status := st\<rparr>, sample_alert\<lparr>al_pk := 2, al_alert_id := ''A2''\<rparr>]\<rparr>"

definition sample_deleted :: "alert_status \<Rightarrow> db" where
  "sample_deleted st = snd (destroy_alert (sample_editor\<lparr>rq_superuser := True\<rparr>) sample_reopen 2 (sample_two_db st))"

definition sample_claim :: "op_result res \<times> db" where
  "sample_claim = operate sample_format 5 ''alice'' None ''acknowledge'' ''A1'' [] (sample_deleted A_PENDING)"

lemma sample_two_wf: "wf_db (sample_two_db st)"
  by (simp add: sample_two_db_def sample_defs wf_db_def keyed_def)

lemma one_step: "centre_step E s t \<Longrightarrow> centre_runs E s t"
  by (rule centre.reaches.more[OF centre.reaches.here])

lemma sample_delete_run: "centre_runs {2} (sample_two_db st) (sample_deleted st)"
  by (rule one_step, rule centre_step.destroyed[where v = "fst (destroy_alert (sample_editor\<lparr>rq_superuser := True\<rparr>) sample_reopen 2 (sample_two_db st))"])
     (simp_all add: sample_deleted_def)

lemma sample_claim_run: "centre_runs {2} (sample_two_db A_PENDING) (snd sample_claim)"
  by (rule centre.reaches.more[OF sample_delete_run], rule centre_step.operated[where r = "fst sample_claim"])
     (simp add: sample_claim_def)

lemma sample_close_run: "centre_runs {2} (sample_two_db A_CLOSED) (snd (snd (auto_close_main 100 (sample_deleted A_CLOSED))))"
  by (rule centre.reaches.more[OF sample_delete_run], rule centre_step.auto_closed[of 100 _
      "fst (auto_close_main 100 (sample_deleted A_CLOSED))" "fst (snd (auto_close_main 100 (sample_deleted A_CLOSED)))"]) simp

lemma sample_two_row: "alert_by_pk 1 (sample_two_db st) = Some (sample_alert\<lparr>al_status := st\<rparr>)"
  by (simp add: sample_two_db_def tfind_def sample_alert_def)

theorem alerts_never_lost_witness:
  "map_option al_alert_id (alert_by_pk 1 (snd sample_claim)) = Some ''A1'' \<and>
   alert_by_pk 2 (sample_two_db A_PENDING) \<noteq> None \<and> alert_by_pk 2 (sample_deleted A_PENDING) = None"
proof (intro conjI)
  show "map_option al_alert_id (alert_by_pk 1 (snd sample_claim)) = Some ''A1''"
  proof -
    have n: "(1::nat) \<notin> {2}" by simp
    obtain b where "alert_by_pk 1 (snd sample_claim) = Some b" "al_alert_id b = al_alert_id sample_alert"
      using alerts_never_lost[OF sample_two_wf sample_claim_run, THEN conjunct2, rule_format, OF n sample_two_row]
      by auto
    then show ?thesis by (simp add: sample_alert_def)
  qed
qed code_simp+

text \<open>C8: an alert that left the active states (closed, resolved, closed or recovered
  automatically) and that no request of the alert view rewrites or deletes never becomes active
  again: it keeps its status or becomes recovered.\<close>

theorem final_alerts_stay_final:
  assumes "wf_db s" "centre_runs E s t" "k \<notin> E"
    and "alert_by_pk k s = Some a" "al_status a \<notin> set ACTIVATE_STATUS"
  shows "\<exists>b. alert_by_pk k t = Some b \<and> al_status b \<notin> set ACTIVATE_STATUS \<and>
    (al_status b = al_status a \<or> al_status b = A_AUTO_RECOVERY)"
proof -
  have "final (al_status a)" using assms(5) by (simp add: final_def)
  then obtain b where "alert_by_pk k t = Some b" "al_status b = al_status a \<or> al_status b = A_AUTO_RECOVERY"
    using centre.reaches_final[OF assms(2,1), of k a] assms(3,4) by auto
  with assms(5) show ?thesis by (auto simp: ACTIVATE_STATUS_def)
qed

theorem final_alerts_stay_final_witness:
  "map_option (\<lambda>b. al_status b \<in> set ACTIVATE_STATUS)
     (alert_by_pk 1 (snd (snd (auto_close_main 100 (sample_deleted A_CLOSED))))) = Some False"
proof -
  have n: "(1::nat) \<notin> {2}" "al_status (sample_alert\<lparr>al_status := A_CLOSED\<rparr>) \<notin> set ACTIVATE_STATUS"
    by (simp_all add: ACTIVATE_STATUS_def)
  from final_alerts_stay_final[OF sample_two_wf sample_close_run n(1) sample_two_row n(2)] show ?thesis by auto
qed

text \<open>C9: an alert in processing that no request of the alert view rewrites or deletes always has
  an operator: nobody loses the alert while working on it, whatever the scans, the automatic jobs
  and other users do in between.\<close>

theorem processing_has_operator:
  assumes "wf_db s" "centre_runs E s t" "k \<notin> E" "alert_by_pk k s = Some a"
    and "al_status a = A_PROCESSING \<longrightarrow> (\<exists>u. JStr u \<in> set (al_operator a))"
  shows "\<exists>b. alert_by_pk k t = Some b \<and> (al_status b = A_PROCESSING \<longrightarrow> (\<exists>u. JStr u \<in> set (al_operator b)))"
  using centre.reaches_operator[OF assms(2,1), of k a] assms(3-5) by (simp add: has_operator_def)

theorem processing_has_operator_witness:
  "\<exists>b. alert_by_pk 1 (snd sample_claim) = Some b \<and> al_status b = A_PROCESSING \<and> (\<exists>u. JStr u \<in> set (al_operator b))"
proof -
  have p: "(1::nat) \<notin> {2}" "al_status (sample_alert\<lparr>al_status := A_PENDING\<rparr>) = A_PROCESSING \<longrightarrow>
      (\<exists>u. JStr u \<in> set (al_operator (sample_alert\<lparr>al_status := A_PENDING\<rparr>)))"
    by simp_all
  have "map_option al_status (alert_by_pk 1 (snd sample_claim)) = Some A_PROCESSING" by code_simp
  with processing_has_operator[OF sample_two_wf sample_claim_run p(1) sample_two_row p(2)] show ?thesis by auto
qed

section \<open>A claimed alert is left alone\<close>

text \<open>Runs of the two periodic scans in any order and at any times.\<close>

inductive scans :: "db \<Rightarrow> db \<Rightarrow> bool" where
  none: "scans s s"
| escalation: "scans s t \<Longrightarrow> check_and_process_escalations nf now t = (p, e, u) \<Longrightarrow> scans s u"
| reminder: "scans s t \<Longrightarrow> check_and_process_reminders nf broker now t = (p, c, u) \<Longrightarrow> scans s u"

inductive_cases scansE: "scans s t"

definition quiet :: "alert_view \<Rightarrow> bool" where
  "quiet v \<longleftrightarrow> (case v of (a, r, e) \<Rightarrow> pred_option (\<lambda>r. \<not> rm_is_active r) r \<and> pred_option (\<lambda>e. \<not> es_is_active e) e)"

lemma quiet_escalation: "quiet u \<Longrightarrow> escalation_spec now u v \<Longrightarrow> v = u"
  by (cases "(now, u, v)" rule: escalation_spec.cases) (auto simp: quiet_def)

lemma quiet_reminder: "quiet v \<Longrightarrow> reminder_next nf b now asgs v = v"
  by (cases "(nf, b, now, asgs, v)" rule: reminder_next.cases) (auto simp: quiet_def)

lemma quiet_scans: "scans s t \<Longrightarrow> wf_db s \<Longrightarrow> quiet (aview k s) \<Longrightarrow> wf_db t \<and> aview k t = aview k s"
proof (induction rule: scans.induct)
  case (escalation s t nf now p e u)
  with escalation_scan_effect[of t nf now p e u] quiet_escalation[of "aview k s" now] show ?case by metis
next
  case (reminder s t nf broker now p c u)
  then have t: "wf_db t" "aview k t = aview k s" by blast+
  note eff = reminder_scan_effect[OF t(1) reminder.hyps(2)]
  have "aview k u = aview k s" using quiet_reminder[OF reminder.prems(2)] by (subst eff(3)) (simp add: t(2))
  with eff(1) show ?case by blast
qed simp

text \<open>C11: after a claim, no sequence of reminder and escalation scans touches the alert, its
  operators or its tasks.\<close>

theorem claimed_alert_left_alone:
  assumes "wf_db s" "find_alert aid s = Some a"
    and "operate nf now user allowed ''acknowledge'' aid data s = (r, t)" "\<not> failed r" "scans t u"
  shows "aview (al_pk a) u = aview (al_pk a) t \<and> alert_by_pk (al_pk a) u = alert_by_pk (al_pk a) t"
proof -
  have "acknowledge_alert now user aid data s = (r, t)"
    using assms(3,4) by (auto simp: operate_def operation_of_def split: if_splits)
  from acknowledge_stops[OF this assms(4,2)] have "quiet (aview (al_pk a) t)"
    by (auto simp: quiet_def aview_def pred_option_def)
  from quiet_scans[OF assms(5) op.run_wf[OF assms(1,3)] this] show ?thesis by (simp add: aview_def)
qed

theorem claimed_alert_left_alone_witness:
  "aview 1 (snd (snd (check_and_process_reminders sample_format (\<lambda>_. True) 900 (snd sample_claimed)))) =
   aview 1 (snd sample_claimed)"
proof -
  have f: "\<not> failed (fst sample_claimed)" by code_simp
  have a: "find_alert ''A1'' sample_db = Some sample_alert"
    by (simp add: sample_db_def tfind_def sample_alert_def)
  have c: "operate sample_format 5 ''alice'' None ''acknowledge'' ''A1'' [] sample_db = (fst sample_claimed, snd sample_claimed)"
    by (simp add: sample_claimed_def)
  obtain p n u where s: "check_and_process_reminders sample_format (\<lambda>_. True) 900 (snd sample_claimed) = (p, n, u)"
    by (metis prod.collapse)
  have k: "al_pk sample_alert = 1" by (simp add: sample_alert_def)
  from claimed_alert_left_alone[OF sample_wf a c f scans.reminder[OF scans.none s]] s show ?thesis
    unfolding k by simp
qed

end
